(* ===== verification/Prelude.thy ===== *)
theory Prelude
  imports Main "HOL-Library.Word" "HOL-Library.AList"
begin

text \<open>
  What every component shares.

  \<^item> Machine integers. \<open>u8\<close>, \<open>u32\<close> and \<open>u64\<close> are words, so \<open>+\<close> wraps as it does in the
    repository's release builds; \<open>usize\<close> is \<open>nat\<close>, with the one subtraction that can wrap
    (\<open>num_replica - num_faulty\<close>) written out by \<open>sub_usize\<close>.
  \<^item> Results. A handler of the source mutates \<open>self\<close> and returns \<open>anyhow::Result\<close>; what it wrote
    before an error stays written. \<open>outcome\<close> therefore carries the state on both branches. A
    \<open>Bail\<close> is an \<open>anyhow\<close> error; a \<open>Panic\<close> is a failed \<open>assert!\<close>, an \<open>unwrap\<close> of \<open>None\<close>, an index
    out of range, \<open>todo!\<close> or \<open>unreachable!\<close>.
  \<^item> \<open>std::collections::HashMap\<close> and \<open>BTreeMap\<close> as association lists with distinct keys (\<open>hm_wf\<close>).
  \<^item> Outgoing channels (\<open>sink\<close>): what was sent so far, and whether the receiver is gone, in which
    case a send is an error.
\<close>

named_theorems hm_simps \<open>lookups, keys and well-formedness of hash maps\<close>
named_theorems sink_simps \<open>sending on a channel\<close>

section \<open>Machine integers\<close>

type_synonym u8 = "8 word"
type_synonym u32 = "32 word"
type_synonym u64 = "64 word"
type_synonym usize = nat
type_synonym payload = "u8 list"

definition sub_usize :: "usize \<Rightarrow> usize \<Rightarrow> usize" where
  "sub_usize a b = (if b \<le> a then a - b else 2 ^ 64 + a - b)"

lemma sub_usize_le [simp]: "b \<le> a \<Longrightarrow> sub_usize a b = a - b"
  by (simp add: sub_usize_def)

lemma unat_Suc_word:
  fixes w :: "'a::len word"
  assumes "w \<noteq> - 1"
  shows "unat (w + 1) = Suc (unat w)"
proof -
  have "1 + w \<noteq> 0"
    using assms by (simp add: eq_neg_iff_add_eq_0 add.commute)
  then have "unat (1 + w) = Suc (unat w)"
    by (rule unatSuc)
  then show ?thesis by (simp add: add.commute)
qed

lemma unat_u32_less: "unat (w :: u32) < 4294967296"
proof -
  have "unat w < 2 ^ LENGTH(32)" by (rule unsigned_less)
  then show ?thesis by simp
qed

section \<open>Results\<close>

datatype error = Bail string | Panic string

datatype ('a, 's) outcome = Ok 'a 's | Err error 's

fun after :: "('a, 's) outcome \<Rightarrow> 's" where
  "after (Ok _ s) = s"
| "after (Err _ s) = s"

fun is_ok :: "('a, 's) outcome \<Rightarrow> bool" where
  "is_ok (Ok _ _) = True"
| "is_ok (Err _ _) = False"

text \<open>Sequencing: the \<open>?\<close> operator.\<close>

fun and_then :: "('a, 's) outcome \<Rightarrow> ('a \<Rightarrow> 's \<Rightarrow> ('b, 's) outcome) \<Rightarrow> ('b, 's) outcome" where
  "and_then (Ok a s) f = f a s"
| "and_then (Err e s) f = Err e s"

lemma and_then_Ok_iff:
  "and_then m f = Ok b t \<longleftrightarrow> (\<exists>a s. m = Ok a s \<and> f a s = Ok b t)"
  by (cases m) auto

lemma and_then_Err_iff:
  "and_then m f = Err e t \<longleftrightarrow> m = Err e t \<or> (\<exists>a s. m = Ok a s \<and> f a s = Err e t)"
  by (cases m) auto

lemma after_and_thenI:
  assumes "\<And>e s. m = Err e s \<Longrightarrow> P s" and "\<And>a s. m = Ok a s \<Longrightarrow> P (after (f a s))"
  shows "P (after (and_then m f))"
  using assms by (cases m) auto

text \<open>The form an invariant uses: what every step keeps, the sequence keeps.\<close>

lemma and_then_keeps:
  assumes "P (after m)" and "\<And>a s. P s \<Longrightarrow> P (after (f a s))"
  shows "P (after (and_then m f))"
  using assms by (cases m) auto

lemma is_ok_iff: "is_ok m \<longleftrightarrow> (\<exists>a s. m = Ok a s)"
  by (cases m) auto

text \<open>Embedding an operation on a part of the state, as a method call on a field does.\<close>

fun lift_outcome :: "('p \<Rightarrow> 's) \<Rightarrow> ('a, 'p) outcome \<Rightarrow> ('a, 's) outcome" where
  "lift_outcome put (Ok a p) = Ok a (put p)"
| "lift_outcome put (Err e p) = Err e (put p)"

lemma after_lift_outcome [simp]: "after (lift_outcome put m) = put (after m)"
  by (cases m) auto

lemma lift_outcome_Ok_iff:
  "lift_outcome put m = Ok a s \<longleftrightarrow> (\<exists>p. m = Ok a p \<and> s = put p)"
  by (cases m) auto

section \<open>Hash maps\<close>

type_synonym ('k, 'v) hmap = "('k \<times> 'v) list"

abbreviation hm_get :: "('k, 'v) hmap \<Rightarrow> 'k \<Rightarrow> 'v option" where
  "hm_get \<equiv> map_of"

abbreviation hm_insert :: "'k \<Rightarrow> 'v \<Rightarrow> ('k, 'v) hmap \<Rightarrow> ('k, 'v) hmap" where
  "hm_insert \<equiv> AList.update"

abbreviation hm_remove :: "'k \<Rightarrow> ('k, 'v) hmap \<Rightarrow> ('k, 'v) hmap" where
  "hm_remove \<equiv> AList.delete"

definition hm_wf :: "('k, 'v) hmap \<Rightarrow> bool" where
  "hm_wf m \<longleftrightarrow> distinct (map fst m)"

definition hm_has :: "('k, 'v) hmap \<Rightarrow> 'k \<Rightarrow> bool" where
  "hm_has m k \<longleftrightarrow> map_of m k \<noteq> None"

text \<open>\<open>retain\<close>, and \<open>entry(k).or_insert(d)\<close>.\<close>

definition hm_retain :: "('k \<Rightarrow> 'v \<Rightarrow> bool) \<Rightarrow> ('k, 'v) hmap \<Rightarrow> ('k, 'v) hmap" where
  "hm_retain P m = filter (\<lambda>(k, v). P k v) m"

definition hm_or_insert :: "'k \<Rightarrow> 'v \<Rightarrow> ('k, 'v) hmap \<Rightarrow> ('k, 'v) hmap" where
  "hm_or_insert k d m = (case map_of m k of None \<Rightarrow> AList.update k d m | Some _ \<Rightarrow> m)"

lemma hm_get_insert [simp, hm_simps]:
  "map_of (AList.update k v m) k' = (if k' = k then Some v else map_of m k')"
  by (simp add: update_conv')

lemma hm_get_remove [simp, hm_simps]:
  "map_of (AList.delete k m) k' = (if k' = k then None else map_of m k')"
  by (simp add: delete_conv')

lemma hm_wf_Nil [simp, hm_simps]: "hm_wf []"
  by (simp add: hm_wf_def)

lemma hm_wf_insert [simp, hm_simps]: "hm_wf m \<Longrightarrow> hm_wf (AList.update k v m)"
  by (simp add: hm_wf_def distinct_update)

lemma hm_wf_remove [simp, hm_simps]: "hm_wf m \<Longrightarrow> hm_wf (AList.delete k m)"
  by (simp add: hm_wf_def distinct_delete)

lemma hm_wf_retain [simp, hm_simps]: "hm_wf m \<Longrightarrow> hm_wf (hm_retain P m)"
  by (auto simp: hm_wf_def hm_retain_def distinct_map intro: inj_on_subset)

lemma hm_wf_or_insert [simp, hm_simps]: "hm_wf m \<Longrightarrow> hm_wf (hm_or_insert k d m)"
  by (auto simp: hm_or_insert_def split: option.split)

lemma hm_get_or_insert [hm_simps]:
  "map_of (hm_or_insert k d m) k' =
     (if k' = k then Some (case map_of m k of None \<Rightarrow> d | Some v \<Rightarrow> v) else map_of m k')"
  by (auto simp: hm_or_insert_def split: option.split)

lemma hm_get_retain [hm_simps]:
  assumes "hm_wf m"
  shows "map_of (hm_retain P m) k =
    (case map_of m k of Some v \<Rightarrow> if P k v then Some v else None | None \<Rightarrow> None)"
  using assms unfolding hm_wf_def hm_retain_def
  by (induction m) (auto split: option.splits simp: map_of_eq_None_iff image_iff split: if_splits)

lemma hm_get_Some_mem: "map_of m k = Some v \<Longrightarrow> (k, v) \<in> set m"
  by (rule map_of_SomeD)

lemma hm_mem_get: "hm_wf m \<Longrightarrow> (k, v) \<in> set m \<longleftrightarrow> map_of m k = Some v"
  by (auto simp: hm_wf_def dest: map_of_SomeD)

lemma set_retain [simp]: "set (hm_retain P m) = {(k, v) \<in> set m. P k v}"
  by (auto simp: hm_retain_def)

lemma set_hm_insert:
  "hm_wf m \<Longrightarrow> set (AList.update k v m) = insert (k, v) {p \<in> set m. fst p \<noteq> k}"
proof -
  assume wf: "hm_wf m"
  have "p \<in> set (AList.update k v m) \<longleftrightarrow> p \<in> insert (k, v) {p \<in> set m. fst p \<noteq> k}" for p
    using hm_mem_get [OF hm_wf_insert [OF wf], of "fst p" "snd p" k v]
      hm_mem_get [OF wf, of "fst p" "snd p"]
    by (cases p) auto
  then show ?thesis by blast
qed

lemma set_hm_remove: "set (AList.delete k m) = {p \<in> set m. fst p \<noteq> k}"
  by (auto simp: AList.delete_eq)

lemma hm_has_simps [simp, hm_simps]:
  "hm_has [] k = False"
  "hm_has (AList.update k' v m) k \<longleftrightarrow> k = k' \<or> hm_has m k"
  "hm_has (AList.delete k' m) k \<longleftrightarrow> k \<noteq> k' \<and> hm_has m k"
  by (auto simp: hm_has_def)

lemma hm_get_None_not_has: "hm_has m k = (map_of m k \<noteq> None)"
  by (simp add: hm_has_def)

lemma length_hm_card: "hm_wf m \<Longrightarrow> length m = card (fst ` set m)"
  by (metis distinct_card hm_wf_def length_map list.set_map)

lemma length_hm_insert_le: "length (AList.update k v m) \<le> Suc (length m)"
  by (induction m) auto

section \<open>Channels\<close>

record 'm sink =
  sent :: "'m list"
  closed :: bool

definition open_sink :: "'m sink" where
  "open_sink = \<lparr>sent = [], closed = False\<rparr>"

fun push_sink :: "'m \<Rightarrow> 'm sink \<Rightarrow> (unit, 'm sink) outcome" where
  "push_sink m c =
     (if closed c then Err (Bail ''channel closed'') c else Ok () (c\<lparr>sent := sent c @ [m]\<rparr>))"

lemma push_sink_cases:
  obtains (pushed) "\<not> closed c" "push_sink m c = Ok () (c\<lparr>sent := sent c @ [m]\<rparr>)"
  | (refused) "closed c" "push_sink m c = Err (Bail ''channel closed'') c"
  by (cases "closed c") auto

lemma sent_after_push [sink_simps]:
  "sent (after (push_sink m c)) = (if closed c then sent c else sent c @ [m])"
  by simp

lemma closed_after_push [simp, sink_simps]: "closed (after (push_sink m c)) = closed c"
  by simp

end
