(* ===== verification/Bytes.thy ===== *)
theory Bytes
  imports Prelude
begin

text \<open>
  Little-endian byte strings of words: \<open>to_le_bytes\<close> of the integers hashed by
  \<open>src/src/crypto.rs\<close>, and \<open>U256::from_little_endian\<close> / \<open>to_little_endian\<close> used by
  \<open>src/src/kademlia.rs\<close>. The two directions are inverse, so a byte string determines the word
  and the word the byte string.
\<close>

unbundle bit_operations_syntax

lemma xor_cancel_word:
  fixes x y t :: "'a::len word"
  shows "x XOR t = y XOR t \<longleftrightarrow> x = y"
proof
  assume "x XOR t = y XOR t"
  then have "(x XOR t) XOR t = (y XOR t) XOR t" by (rule arg_cong)
  then show "x = y" by (simp only: xor.assoc xor_self_eq xor.right_neutral)
qed simp

lemma xor_zero_word:
  fixes x t :: "'a::len word"
  shows "x XOR t = 0 \<longleftrightarrow> x = t"
  using xor_cancel_word [of x t t] by simp

definition to_le :: "nat \<Rightarrow> 'a::len word \<Rightarrow> u8 list" where
  "to_le n w = map (\<lambda>i. ucast (drop_bit (8 * i) w)) [0..<n]"

fun from_le :: "u8 list \<Rightarrow> 'a::len word" where
  "from_le [] = 0"
| "from_le (b # bs) = ucast b OR push_bit 8 (from_le bs)"

lemma length_to_le [simp]: "length (to_le n w) = n"
  by (simp add: to_le_def)

lemma bit_from_le:
  "bit (from_le bs :: 'a::len word) n \<longleftrightarrow>
     n < LENGTH('a) \<and> n div 8 < length bs \<and> bit (bs ! (n div 8)) (n mod 8)"
proof (induction bs arbitrary: n)
  case Nil
  then show ?case by simp
next
  case (Cons b bs)
  show ?case
  proof (cases "n < 8")
    case True
    then show ?thesis by (auto simp: bit_simps)
  next
    case False
    then have "n div 8 = Suc ((n - 8) div 8)" and "n mod 8 = (n - 8) mod 8"
      by (simp_all add: le_div_geq le_mod_geq)
    moreover have "\<not> bit b n"
      using False by (auto dest: bit_imp_le_length)
    ultimately show ?thesis
      using False Cons.IH [of "n - 8"] by (auto simp: bit_simps)
  qed
qed

lemma bit_to_le:
  "i < n \<Longrightarrow> bit (to_le n w ! i) j \<longleftrightarrow> j < 8 \<and> bit w (8 * i + j)"
  by (simp add: to_le_def bit_simps)

lemma from_le_to_le:
  fixes w :: "'a::len word"
  assumes "LENGTH('a) \<le> 8 * n"
  shows "from_le (to_le n w) = w"
proof (rule bit_word_eqI)
  fix k
  assume k: "k < LENGTH('a)"
  with assms have "k div 8 < n" by auto
  then show "bit (from_le (to_le n w) :: 'a word) k = bit w k"
    using k by (simp add: bit_from_le bit_to_le)
qed

lemma to_le_from_le:
  assumes "length bs = n" and "8 * n \<le> LENGTH('a::len)"
  shows "to_le n (from_le bs :: 'a word) = bs"
proof (rule nth_equalityI)
  show "length (to_le n (from_le bs :: 'a word)) = length bs"
    using assms by simp
next
  fix i
  assume "i < length (to_le n (from_le bs :: 'a word))"
  then have i: "i < n" by simp
  show "to_le n (from_le bs :: 'a word) ! i = bs ! i"
  proof (rule bit_word_eqI)
    fix k
    assume "k < LENGTH(8)"
    then have k: "k < 8" by simp
    with i assms have "8 * i + k < LENGTH('a)" by simp
    with i k assms show "bit (to_le n (from_le bs :: 'a word) ! i) k = bit (bs ! i) k"
      by (simp add: bit_to_le bit_from_le)
  qed
qed

lemma to_le_inject:
  fixes v w :: "'a::len word"
  assumes "LENGTH('a) \<le> 8 * n"
  shows "to_le n v = to_le n w \<longleftrightarrow> v = w"
  by (metis assms from_le_to_le)

lemma from_le_inject:
  assumes "length bs = n" and "length cs = n" and "8 * n \<le> LENGTH('a::len)"
  shows "(from_le bs :: 'a word) = from_le cs \<longleftrightarrow> bs = cs"
  by (metis assms to_le_from_le)

end
