(* ===== verification/Crypto.thy ===== *)
theory Crypto
  imports Bytes
begin

text \<open>
  \<open>src/src/crypto.rs\<close>: the byte feed a \<open>derive(Hash)\<close> value writes into \<open>ImplHasher\<close>, digests,
  \<open>Verifiable\<close>, \<open>Signature\<close>, \<open>Crypto::sign\<close>, \<open>Crypto::verify\<close> and
  \<open>Crypto::new_hardcoded_replication\<close>; \<open>peer::Crypto\<close> with its \<open>sign\<close> and \<open>verify\<close>.

  SHA-256, secp256k1 and schnorrkel are libraries: the record \<open>crypto_lib\<close> collects the functions
  the source calls, on byte strings (keys, signatures and digests are byte strings on the wire).
\<close>

type_synonym digest = "u8 list"
type_synonym bytes = "u8 list"

section \<open>Digests\<close>

text \<open>
  What \<open>Hash::hash\<close> writes: \<open>write_u32\<close> and \<open>write_usize\<close> are overridden to little-endian bytes,
  \<open>write_u8\<close> keeps the standard library's one-byte default, and slices and arrays write their
  length before their elements.
\<close>

definition write_u32 :: "u32 \<Rightarrow> bytes" where
  "write_u32 i = to_le 4 i"

definition write_u64 :: "u64 \<Rightarrow> bytes" where
  "write_u64 i = to_le 8 i"

definition write_usize :: "usize \<Rightarrow> bytes" where
  "write_usize n = to_le 8 (of_nat n :: u64)"

definition hash_bytes :: "u8 list \<Rightarrow> bytes" where
  "hash_bytes bs = write_usize (length bs) @ bs"

definition hash_slice :: "('m \<Rightarrow> bytes) \<Rightarrow> 'm list \<Rightarrow> bytes" where
  "hash_slice feed xs = write_usize (length xs) @ concat (map feed xs)"

lemma length_writes [simp]:
  "length (write_u32 i) = 4" "length (write_u64 j) = 8" "length (write_usize n) = 8"
  by (simp_all add: write_u32_def write_u64_def write_usize_def)

lemma write_u32_inject [simp]: "write_u32 i = write_u32 j \<longleftrightarrow> i = j"
  by (simp add: write_u32_def to_le_inject)

lemma write_usize_inject:
  assumes "m < 2 ^ 64" and "n < 2 ^ 64"
  shows "write_usize m = write_usize n \<longleftrightarrow> m = n"
proof -
  have "write_usize m = write_usize n \<longleftrightarrow> (of_nat m :: u64) = of_nat n"
    by (simp add: write_usize_def to_le_inject)
  also have "\<dots> \<longleftrightarrow> m = n"
    using assms by (simp add: word_of_nat_eq_iff take_bit_nat_eq_self)
  finally show ?thesis .
qed

text \<open>Feeds written one after the other can be split again when the first has a known length.\<close>

lemma append_feed_inject:
  "length a = length b \<Longrightarrow> a @ c = b @ d \<longleftrightarrow> a = b \<and> c = d"
  by (rule append_eq_append_conv) simp

section \<open>Signatures\<close>

record crypto_lib =
  lib_sha256 :: "bytes \<Rightarrow> digest"
  lib_secp_secret :: "bytes \<Rightarrow> bytes option"
  lib_secp_public :: "bytes \<Rightarrow> bytes"
  lib_secp_sign :: "digest \<Rightarrow> bytes \<Rightarrow> bytes"
  lib_secp_verify :: "digest \<Rightarrow> bytes \<Rightarrow> bytes \<Rightarrow> bool"
  lib_schnorr_expand :: "bytes \<Rightarrow> bytes option"
  lib_schnorr_public :: "bytes \<Rightarrow> bytes"
  lib_schnorr_sign :: "bytes \<Rightarrow> bytes \<Rightarrow> bytes"
  lib_schnorr_verify :: "bytes \<Rightarrow> bytes \<Rightarrow> bytes \<Rightarrow> bool"

datatype signature = SigSecp256k1 bytes | SigSchnorrkel bytes

record ('m, 'g) verifiable_with =
  inner :: 'm
  signature :: 'g

type_synonym 'm verifiable = "('m, signature) verifiable_with"
type_synonym 'm peer_verifiable = "('m, bytes) verifiable_with"

datatype crypto_provider = ProviderSecp256k1 bytes | ProviderSchnorrkel bytes

datatype public_key = PublicSecp256k1 bytes | PublicSchnorrkel bytes

datatype crypto_flavor = FlavorSecp256k1 | FlavorSchnorrkel

record crypto =
  provider :: crypto_provider
  public_keys :: "public_key list"

text \<open>
  \<open>sha256\<close> digests the feed; the schnorrkel provider signs the transcript of the same SHA-256
  state, for which the library functions take the feed itself.
\<close>

definition sha256 :: "crypto_lib \<Rightarrow> ('m \<Rightarrow> bytes) \<Rightarrow> 'm \<Rightarrow> digest" where
  "sha256 lib feed m = lib_sha256 lib (feed m)"

definition peer_sign :: "crypto_lib \<Rightarrow> ('m \<Rightarrow> bytes) \<Rightarrow> bytes \<Rightarrow> 'm \<Rightarrow> 'm peer_verifiable" where
  "peer_sign lib feed keypair m =
     \<lparr>inner = m, signature = lib_schnorr_sign lib keypair (feed m)\<rparr>"

definition peer_verify_internal ::
  "crypto_lib \<Rightarrow> ('m \<Rightarrow> bytes) \<Rightarrow> bytes \<Rightarrow> 'm \<Rightarrow> bytes \<Rightarrow> error + unit" where
  "peer_verify_internal lib feed public_key m sig =
     (if lib_schnorr_verify lib public_key (feed m) sig then Inr ()
      else Inl (Bail ''signature error''))"

definition peer_verify ::
  "crypto_lib \<Rightarrow> ('m \<Rightarrow> bytes) \<Rightarrow> bytes \<Rightarrow> 'm peer_verifiable \<Rightarrow> error + unit" where
  "peer_verify lib feed public_key sv =
     peer_verify_internal lib feed public_key (inner sv) (signature sv)"

fun sign :: "crypto_lib \<Rightarrow> ('m \<Rightarrow> bytes) \<Rightarrow> crypto \<Rightarrow> 'm \<Rightarrow> 'm verifiable" where
  "sign lib feed c m =
     (case provider c of
        ProviderSecp256k1 secret_key \<Rightarrow>
          \<lparr>inner = m, signature = SigSecp256k1 (lib_secp_sign lib (sha256 lib feed m) secret_key)\<rparr>
      | ProviderSchnorrkel keypair \<Rightarrow>
          (let sv = peer_sign lib feed keypair m in
           \<lparr>inner = inner sv, signature = SigSchnorrkel (signature sv)\<rparr>))"

fun verify ::
  "crypto_lib \<Rightarrow> ('m \<Rightarrow> bytes) \<Rightarrow> crypto \<Rightarrow> usize \<Rightarrow> 'm verifiable \<Rightarrow> error + unit" where
  "verify lib feed c index sv =
     (if index < length (public_keys c) then
        (case (provider c, public_keys c ! index, signature sv) of
           (ProviderSecp256k1 _, PublicSecp256k1 public_key, SigSecp256k1 sig) \<Rightarrow>
             (if lib_secp_verify lib (sha256 lib feed (inner sv)) sig public_key then Inr ()
              else Inl (Bail ''signature error''))
         | (ProviderSchnorrkel _, PublicSchnorrkel public_key, SigSchnorrkel sig) \<Rightarrow>
             peer_verify_internal lib feed public_key (inner sv) sig
         | _ \<Rightarrow> Inl (Bail ''unimplemented''))
      else Inl (Bail ''no identifier for index''))"

section \<open>The hard-coded replica keys\<close>

definition nat_digit :: "nat \<Rightarrow> u8" where
  "nat_digit d = of_nat (48 + d)"

fun decimal :: "nat \<Rightarrow> u8 list" where
  "decimal n = (if n < 10 then [nat_digit n] else decimal (n div 10) @ [nat_digit (n mod 10)])"

declare decimal.simps [simp del]

definition ascii :: "string \<Rightarrow> u8 list" where
  "ascii s = map (\<lambda>c. of_nat (of_char c)) s"

text \<open>
  \<open>format!("replica-{id}")\<close> copied to the front of 32 zero bytes: eight letters and the at most
  20 digits of a \<open>usize\<close>, so the copy always fits.
\<close>

definition hardcoded_seed :: "nat \<Rightarrow> u8 list" where
  "hardcoded_seed i =
     (let k1 = ascii ''replica-'' @ decimal i in k1 @ replicate (32 - length k1) 0)"

fun collect_options :: "'a option list \<Rightarrow> 'a list option" where
  "collect_options [] = Some []"
| "collect_options (None # _) = None"
| "collect_options (Some x # xs) = map_option (Cons x) (collect_options xs)"

definition new_hardcoded_replication ::
  "crypto_lib \<Rightarrow> usize \<Rightarrow> usize \<Rightarrow> crypto_flavor \<Rightarrow> error + crypto" where
  "new_hardcoded_replication lib num_replica replica_id flavor =
     (case flavor of
        FlavorSecp256k1 \<Rightarrow>
          (case collect_options
                  (map (\<lambda>i. lib_secp_secret lib (hardcoded_seed i)) [0..<num_replica]) of
             None \<Rightarrow> Inl (Bail ''invalid secret key'')
           | Some secret_keys \<Rightarrow>
               if replica_id < length secret_keys then
                 Inr \<lparr>provider = ProviderSecp256k1 (secret_keys ! replica_id),
                      public_keys = map (\<lambda>k. PublicSecp256k1 (lib_secp_public lib k)) secret_keys\<rparr>
               else Inl (Panic ''index out of bounds''))
      | FlavorSchnorrkel \<Rightarrow>
          (case collect_options
                  (map (\<lambda>i. lib_schnorr_expand lib (hardcoded_seed i)) [0..<num_replica]) of
             None \<Rightarrow> Inl (Bail ''invalid mini secret key'')
           | Some secret_keys \<Rightarrow>
               if replica_id < length secret_keys then
                 Inr \<lparr>provider = ProviderSchnorrkel (secret_keys ! replica_id),
                      public_keys =
                        map (\<lambda>k. PublicSchnorrkel (lib_schnorr_public lib k)) secret_keys\<rparr>
               else Inl (Panic ''removal index out of bounds'')))"

text \<open>
  What the source relies on of the two libraries: a signature made with a key verifies under the
  key's public half.
\<close>

definition lib_correct :: "crypto_lib \<Rightarrow> bool" where
  "lib_correct lib \<longleftrightarrow>
     (\<forall>d k. lib_secp_verify lib d (lib_secp_sign lib d k) (lib_secp_public lib k)) \<and>
     (\<forall>k m. lib_schnorr_verify lib (lib_schnorr_public lib k) m (lib_schnorr_sign lib k m))"

lemma collect_options_Some:
  "collect_options xs = Some ys \<Longrightarrow> length ys = length xs \<and> (\<forall>i<length xs. xs ! i = Some (ys ! i))"
proof (induction xs arbitrary: ys rule: collect_options.induct)
  case (3 x xs)
  then show ?case by (auto simp: nth_Cons split: nat.split)
qed auto

lemma hardcoded_public_key:
  assumes "new_hardcoded_replication lib n i f = Inr c" and "j < n"
  shows "length (public_keys c) = n \<and> i < n \<and>
    (case f of
       FlavorSecp256k1 \<Rightarrow> \<exists>k. lib_secp_secret lib (hardcoded_seed j) = Some k \<and>
         public_keys c ! j = PublicSecp256k1 (lib_secp_public lib k)
     | FlavorSchnorrkel \<Rightarrow> \<exists>k. lib_schnorr_expand lib (hardcoded_seed j) = Some k \<and>
         public_keys c ! j = PublicSchnorrkel (lib_schnorr_public lib k))"
  using assms unfolding new_hardcoded_replication_def
  by (auto split: crypto_flavor.splits option.splits if_splits dest!: collect_options_Some)

lemma hardcoded_provider:
  assumes "new_hardcoded_replication lib n i f = Inr c"
  shows "case f of
       FlavorSecp256k1 \<Rightarrow> \<exists>k. lib_secp_secret lib (hardcoded_seed i) = Some k \<and>
         provider c = ProviderSecp256k1 k
     | FlavorSchnorrkel \<Rightarrow> \<exists>k. lib_schnorr_expand lib (hardcoded_seed i) = Some k \<and>
         provider c = ProviderSchnorrkel k"
  using assms unfolding new_hardcoded_replication_def
  by (auto split: crypto_flavor.splits option.splits if_splits dest!: collect_options_Some)

text \<open>A message signed by replica \<open>i\<close> verifies at replica \<open>j\<close> under index \<open>i\<close>.\<close>

lemma sign_verify:
  assumes "lib_correct lib"
    and "new_hardcoded_replication lib n i f = Inr ci"
    and "new_hardcoded_replication lib n j f = Inr cj"
  shows "verify lib feed cj i (sign lib feed ci m) = Inr ()"
proof -
  have "i < n"
    using assms(2) unfolding new_hardcoded_replication_def
    by (auto split: crypto_flavor.splits option.splits if_splits dest!: collect_options_Some)
  with hardcoded_public_key [OF assms(3), of i] hardcoded_provider [OF assms(2)]
    hardcoded_provider [OF assms(3)] assms(1)
  show ?thesis
    by (cases f) (auto simp: lib_correct_def peer_sign_def peer_verify_internal_def Let_def)
qed

text \<open>Signing and verifying round-trip in a hard-coded set-up. All replicas of a set-up hold the same
  public keys, one per replica; a message signed by replica \<open>i\<close> carries the message unchanged and
  verifies at every replica under index \<open>i\<close>, whatever the message, the number of replicas and the flavor.\<close>

theorem signed_verifies_everywhere:
  assumes "lib_correct lib" and "new_hardcoded_replication lib n i f = Inr ci"
    and "new_hardcoded_replication lib n j f = Inr cj"
  shows "public_keys ci = public_keys cj \<and> length (public_keys cj) = n \<and> i < n \<and>
    inner (sign lib feed ci m) = m \<and> verify lib feed cj i (sign lib feed ci m) = Inr ()"
proof -
  have "public_keys ci = public_keys cj" and i: "i < n"
    using assms(2,3) unfolding new_hardcoded_replication_def
    by (auto split: crypto_flavor.splits option.splits if_splits dest!: collect_options_Some)
  moreover have "length (public_keys cj) = n" using hardcoded_public_key [OF assms(3) i] by simp
  moreover have "inner (sign lib feed ci m) = m"
    by (simp add: peer_sign_def Let_def split: crypto_provider.split)
  ultimately show ?thesis
    by (intro conjI sign_verify [OF assms])
qed

definition plain_lib :: crypto_lib where
  "plain_lib =
     \<lparr>lib_sha256 = (\<lambda>bs. bs), lib_secp_secret = Some, lib_secp_public = (\<lambda>k. k),
      lib_secp_sign = (\<lambda>d k. d @ k), lib_secp_verify = (\<lambda>d s k. s = d @ k),
      lib_schnorr_expand = Some, lib_schnorr_public = (\<lambda>k. k),
      lib_schnorr_sign = (\<lambda>k m. m @ k), lib_schnorr_verify = (\<lambda>k m s. s = m @ k)\<rparr>"

lemma collect_options_map_Some: "collect_options (map (\<lambda>x. Some (g x)) xs) = Some (map g xs)"
  by (induction xs) simp_all

lemma plain_replication:
  "i < n \<Longrightarrow> \<exists>c. new_hardcoded_replication plain_lib n i FlavorSchnorrkel = Inr c"
  by (simp add: new_hardcoded_replication_def plain_lib_def collect_options_map_Some)

theorem signed_verifies_everywhere_witness:
  "\<exists>ci cj. new_hardcoded_replication plain_lib 2 0 FlavorSchnorrkel = Inr ci \<and>
     new_hardcoded_replication plain_lib 2 1 FlavorSchnorrkel = Inr cj \<and>
     verify plain_lib write_u32 cj 0 (sign plain_lib write_u32 ci 7) = Inr ()"
proof -
  obtain ci where ci: "new_hardcoded_replication plain_lib 2 0 FlavorSchnorrkel = Inr ci"
    using plain_replication [of 0 2] by auto
  obtain cj where cj: "new_hardcoded_replication plain_lib 2 1 FlavorSchnorrkel = Inr cj"
    using plain_replication [of 1 2] by auto
  have "lib_correct plain_lib" by (simp add: lib_correct_def plain_lib_def)
  from signed_verifies_everywhere [OF this ci cj, of write_u32 7] ci cj show ?thesis
    by (intro exI conjI) (rule ci, rule cj, elim conjE)
qed

end
