(* ===== verification/Net.thy ===== *)
theory Net
  imports Crypto
begin

text \<open>
  Messages, nets, the crypto worker and the \<open>App\<close> trait.

  \<^item> \<open>src/src/message.rs\<close>: \<open>Payload\<close> (a byte list) and \<open>Request\<close>.
  \<^item> \<open>src/src/net.rs\<close>: \<open>MessageNet\<close> (serialize, then send on the raw net), \<open>deserialize\<close>,
    \<open>IndexNet\<close> (a replica number becomes the address of that number, \<open>All\<close> becomes every address but
    the local one).
  \<^item> \<open>src/src/worker.rs\<close>: \<open>Worker::submit\<close> on its three variants and the steps of
    \<open>SpawnExecutor::run\<close>. A submitted closure is a value of a work type \<open>'w\<close> with its meaning
    \<open>run\<close>.
  \<^item> \<open>src/src/app.rs\<close>: an \<open>App\<close> is a function \<open>execute :: payload \<Rightarrow> 'app \<Rightarrow> (payload, 'app) outcome\<close>.

  \<open>bincode\<close> is a library: its two functions are parameters \<open>ser\<close> and \<open>de\<close>.
\<close>

section \<open>Requests\<close>

record 'a request =
  rq_client_id :: u32
  rq_client_addr :: 'a
  rq_seq :: u32
  rq_op :: payload

definition request_feed :: "('a \<Rightarrow> bytes) \<Rightarrow> 'a request \<Rightarrow> bytes" where
  "request_feed addr_feed r =
     write_u32 (rq_client_id r) @ addr_feed (rq_client_addr r) @ write_u32 (rq_seq r) @
     hash_bytes (rq_op r)"

section \<open>Nets\<close>

text \<open>\<open>MessageNet\<close> over a raw net with sending function \<open>raw_send\<close>.\<close>

definition message_send ::
  "('n \<Rightarrow> error + bytes) \<Rightarrow> ('m \<Rightarrow> 'n) \<Rightarrow> ('d \<Rightarrow> bytes \<Rightarrow> 's \<Rightarrow> (unit, 's) outcome) \<Rightarrow>
   'd \<Rightarrow> 'm \<Rightarrow> 's \<Rightarrow> (unit, 's) outcome" where
  "message_send ser into raw_send dest message raw_net =
     (case ser (into message) of
        Inl e \<Rightarrow> Err e raw_net
      | Inr buf \<Rightarrow> raw_send dest buf raw_net)"

record ('n, 'a) index_net =
  inner_net :: 'n
  addrs :: "'a list"
  local_index :: "usize option"

definition index_send ::
  "('a \<Rightarrow> 'm \<Rightarrow> 'n \<Rightarrow> (unit, 'n) outcome) \<Rightarrow> usize \<Rightarrow> 'm \<Rightarrow>
   ('n, 'a) index_net \<Rightarrow> (unit, ('n, 'a) index_net) outcome" where
  "index_send send dest message net =
     (if dest < length (addrs net) then
        lift_outcome (\<lambda>n. net\<lparr>inner_net := n\<rparr>) (send (addrs net ! dest) message (inner_net net))
      else Err (Bail ''index out of bound'') net)"

definition other_addrs :: "('n, 'a) index_net \<Rightarrow> 'a list" where
  "other_addrs net =
     map snd (filter (\<lambda>(i, _). local_index net \<noteq> Some i) (enumerate 0 (addrs net)))"

definition index_send_all ::
  "('a list \<Rightarrow> 'm \<Rightarrow> 'n \<Rightarrow> (unit, 'n) outcome) \<Rightarrow> 'm \<Rightarrow>
   ('n, 'a) index_net \<Rightarrow> (unit, ('n, 'a) index_net) outcome" where
  "index_send_all send_to_each message net =
     lift_outcome (\<lambda>n. net\<lparr>inner_net := n\<rparr>)
       (send_to_each (other_addrs net) message (inner_net net))"

lemma other_addrs_mem:
  "a \<in> set (other_addrs net) \<longleftrightarrow>
     (\<exists>i<length (addrs net). local_index net \<noteq> Some i \<and> addrs net ! i = a)"
  by (force simp: other_addrs_def in_set_enumerate_eq)

lemma length_other_addrs:
  "length (other_addrs net) =
     (case local_index net of
        Some i \<Rightarrow> if i < length (addrs net) then length (addrs net) - 1 else length (addrs net)
      | None \<Rightarrow> length (addrs net))"
proof (cases "local_index net")
  case None
  then show ?thesis by (simp add: other_addrs_def split_beta)
next
  case (Some i)
  have "length (other_addrs net) = card {k. k < length (addrs net) \<and> k \<noteq> i}"
    using Some
    by (auto simp: other_addrs_def split_beta length_filter_conv_card nth_enumerate_eq
        intro!: arg_cong [of _ _ card])
  also have "{k. k < length (addrs net) \<and> k \<noteq> i} = {..<length (addrs net)} - {i}"
    by auto
  finally show ?thesis using Some by (simp add: card_Diff_singleton_if)
qed

section \<open>Workers\<close>

datatype ('s, 'w, 'e) worker = Inline 's "'e sink" | Spawn "'w sink" | NullWorker

definition submit ::
  "('w \<Rightarrow> 's \<Rightarrow> 'e sink \<Rightarrow> (unit, 'e sink) outcome) \<Rightarrow> 'w \<Rightarrow>
   ('s, 'w, 'e) worker \<Rightarrow> (unit, ('s, 'w, 'e) worker) outcome" where
  "submit run work worker =
     (case worker of
        Inline state sender \<Rightarrow> lift_outcome (Inline state) (run work state sender)
      | Spawn sender \<Rightarrow> lift_outcome Spawn (push_sink work sender)
      | NullWorker \<Rightarrow> Ok () NullWorker)"

text \<open>
  The executor behind a spawned worker: each round of its loop either takes the next work from the
  channel and spawns it, or joins one of the spawned tasks, in any order. A task that failed ends
  the loop: it has no step.
\<close>

record ('s, 'w) executor =
  ex_state :: 's
  ex_receiver :: "'w list"
  ex_handles :: "'w list"

definition spawn_backend :: "'s \<Rightarrow> ('s, 'w, 'e) worker \<times> ('s, 'w) executor" where
  "spawn_backend state =
     (Spawn open_sink, \<lparr>ex_state = state, ex_receiver = [], ex_handles = []\<rparr>)"

inductive executor_step ::
  "('w \<Rightarrow> 's \<Rightarrow> 'e sink \<Rightarrow> (unit, 'e sink) outcome) \<Rightarrow>
   ('s, 'w) executor \<times> 'e sink \<Rightarrow> ('s, 'w) executor \<times> 'e sink \<Rightarrow> bool"
  for run where
  executor_recv: "ex_receiver x = w # ws \<Longrightarrow>
     executor_step run (x, out)
       (x\<lparr>ex_receiver := ws, ex_handles := ex_handles x @ [w]\<rparr>, out)"
| executor_join: "\<lbrakk>ex_handles x = us @ w # vs; run w (ex_state x) out = Ok () out'\<rbrakk> \<Longrightarrow>
     executor_step run (x, out) (x\<lparr>ex_handles := us @ vs\<rparr>, out')"

section \<open>The Null app\<close>

definition null_execute :: "payload \<Rightarrow> unit \<Rightarrow> (payload, unit) outcome" where
  "null_execute op s = Ok [] s"

end
