(* ===== verification/Timers.thy ===== *)
theory Timers
  imports Prelude "HOL-Library.Product_Lexorder"
begin

text \<open>
  The timer services of \<open>src/src/event.rs\<close> and \<open>src/src/event/\<close>: \<open>linear::Timer\<close> (model
  checking), \<open>ordered::Timer\<close> (blocking event loop), \<open>SessionTimer\<close> (tokio event loop), and the two
  \<open>Buffered\<close> wrappers that attach an event to a timer id.

  The trait \<open>Timer\<close> is the locale \<open>timer_service\<close>: ids are never reused while the 32-bit counter
  has room, \<open>unset\<close> succeeds exactly on live timers. The three services interpret it; the facts
  about the wrapper \<open>erased::Buffered\<close> are proved once, in the locale.

  A \<open>Duration\<close> is a number of milliseconds, an \<open>Instant\<close> the milliseconds since some origin, and
  \<open>Instant::now()\<close> an argument.
\<close>

type_synonym timer_id = u32
type_synonym duration = nat
type_synonym instant = nat

text \<open>The trait \<open>RichTimer\<close>: timers that carry the event they fire.\<close>

record ('e, 't) rich_timer =
  rt_set :: "duration \<Rightarrow> 'e \<Rightarrow> 't \<Rightarrow> (timer_id, 't) outcome"
  rt_unset :: "timer_id \<Rightarrow> 't \<Rightarrow> (unit, 't) outcome"

section \<open>linear::Timer\<close>

record linear_timer =
  lin_events :: "(u32 \<times> duration) list"
  lin_timer_id :: u32

definition linear_new :: linear_timer where
  "linear_new = \<lparr>lin_events = [], lin_timer_id = 0\<rparr>"

fun linear_events_from :: "duration option \<Rightarrow> (u32 \<times> duration) list \<Rightarrow> timer_id list" where
  "linear_events_from prev_period [] = []"
| "linear_events_from prev_period ((i, period) # rest) =
     (case prev_period of
        Some prev \<Rightarrow>
          if prev \<le> period then [] else i # linear_events_from (Some period) rest
      | None \<Rightarrow> i # linear_events_from (Some period) rest)"

definition linear_events :: "linear_timer \<Rightarrow> timer_id list" where
  "linear_events t = linear_events_from None (lin_events t)"

fun position :: "('a \<Rightarrow> bool) \<Rightarrow> 'a list \<Rightarrow> nat option" where
  "position P [] = None"
| "position P (x # xs) = (if P x then Some 0 else map_option Suc (position P xs))"

definition remove_at :: "nat \<Rightarrow> 'a list \<Rightarrow> 'a list" where
  "remove_at i xs = take i xs @ drop (Suc i) xs"

definition linear_take ::
  "timer_id \<Rightarrow> linear_timer \<Rightarrow> (u32 \<times> duration, linear_timer) outcome" where
  "linear_take i t =
     (case position (\<lambda>(timer_id, _). timer_id = i) (lin_events t) of
        None \<Rightarrow> Err (Bail ''timer not found'') t
      | Some k \<Rightarrow> Ok (lin_events t ! k) (t\<lparr>lin_events := remove_at k (lin_events t)\<rparr>))"

definition linear_step_timer :: "timer_id \<Rightarrow> linear_timer \<Rightarrow> (unit, linear_timer) outcome" where
  "linear_step_timer i t =
     and_then (linear_take i t)
       (\<lambda>event t'. Ok () (t'\<lparr>lin_events := lin_events t' @ [event]\<rparr>))"

definition linear_set :: "duration \<Rightarrow> linear_timer \<Rightarrow> (timer_id, linear_timer) outcome" where
  "linear_set period t =
     (let i = lin_timer_id t + 1
      in Ok i (t\<lparr>lin_timer_id := i, lin_events := lin_events t @ [(i, period)]\<rparr>))"

definition linear_unset :: "timer_id \<Rightarrow> linear_timer \<Rightarrow> (unit, linear_timer) outcome" where
  "linear_unset i t = and_then (linear_take i t) (\<lambda>_ t'. Ok () t')"

section \<open>ordered::Timer\<close>

record timer_state =
  ts_period :: duration
  ts_deadline :: instant

text \<open>\<open>deadlines\<close> is a \<open>BTreeSet\<close>: a sorted list without duplicates.\<close>

record ordered_timer =
  ord_id :: u32
  ord_deadlines :: "(instant \<times> u32) list"
  ord_states :: "(u32, timer_state) hmap"

definition ordered_new :: ordered_timer where
  "ordered_new = \<lparr>ord_id = 0, ord_deadlines = [], ord_states = []\<rparr>"

definition ordered_set ::
  "instant \<Rightarrow> duration \<Rightarrow> ordered_timer \<Rightarrow> (timer_id, ordered_timer) outcome" where
  "ordered_set now period t =
     (let i = ord_id t + 1; deadline = now + period
      in Ok i (t\<lparr>ord_id := i,
                 ord_states := hm_insert i \<lparr>ts_period = period, ts_deadline = deadline\<rparr>
                                 (ord_states t),
                 ord_deadlines := insort_insert (deadline, i) (ord_deadlines t)\<rparr>))"

definition ordered_unset :: "timer_id \<Rightarrow> ordered_timer \<Rightarrow> (unit, ordered_timer) outcome" where
  "ordered_unset i t =
     (case hm_get (ord_states t) i of
        None \<Rightarrow> Err (Bail ''missing timer state'') t
      | Some state \<Rightarrow>
          let t1 = t\<lparr>ord_states := hm_remove i (ord_states t)\<rparr>;
              t2 = t1\<lparr>ord_deadlines := remove1 (ts_deadline state, i) (ord_deadlines t1)\<rparr>
          in if (ts_deadline state, i) \<in> set (ord_deadlines t1) then Ok () t2
             else Err (Bail ''inconsistency between states and deadlines'') t2)"

definition ordered_deadline :: "ordered_timer \<Rightarrow> instant option" where
  "ordered_deadline t = (case ord_deadlines t of [] \<Rightarrow> None | (deadline, _) # _ \<Rightarrow> Some deadline)"

definition ordered_advance :: "ordered_timer \<Rightarrow> (timer_id, ordered_timer) outcome" where
  "ordered_advance t =
     (case ord_deadlines t of
        [] \<Rightarrow> Err (Bail ''empty deadlines'') t
      | (_, i) # rest \<Rightarrow>
          let t1 = t\<lparr>ord_deadlines := rest\<rparr>
          in case hm_get (ord_states t1) i of
               None \<Rightarrow> Err (Bail ''inconsistency between states and deadlines'') t1
             | Some state \<Rightarrow>
                 let deadline = ts_deadline state + ts_period state
                 in Ok i (t1\<lparr>ord_states := hm_insert i (state\<lparr>ts_deadline := deadline\<rparr>) (ord_states t1),
                             ord_deadlines := insort_insert (deadline, i) (ord_deadlines t1)\<rparr>))"

section \<open>SessionTimer\<close>

text \<open>
  Each \<open>set\<close> spawns a task that sends the timer id every \<open>period\<close>; \<open>handles\<close> keeps its abort
  handle. The tasks are the list \<open>ses_tasks\<close> of (id, period) with those aborted removed.
\<close>

record session_timer =
  ses_id :: u32
  ses_tasks :: "(u32 \<times> duration) list"
  ses_handles :: "(u32, unit) hmap"

definition session_new :: session_timer where
  "session_new = \<lparr>ses_id = 0, ses_tasks = [], ses_handles = []\<rparr>"

definition session_set :: "duration \<Rightarrow> session_timer \<Rightarrow> (timer_id, session_timer) outcome" where
  "session_set period t =
     (let i = ses_id t + 1
      in Ok i (t\<lparr>ses_id := i, ses_tasks := ses_tasks t @ [(i, period)],
                 ses_handles := hm_insert i () (ses_handles t)\<rparr>))"

definition session_unset :: "timer_id \<Rightarrow> session_timer \<Rightarrow> (unit, session_timer) outcome" where
  "session_unset i t =
     (case hm_get (ses_handles t) i of
        None \<Rightarrow> Err (Bail ''timer not exists'') t
      | Some _ \<Rightarrow>
          Ok () (t\<lparr>ses_handles := hm_remove i (ses_handles t),
                   ses_tasks := filter (\<lambda>(j, _). j \<noteq> i) (ses_tasks t)\<rparr>))"

text \<open>
  \<open>Session::run\<close>: what one received event makes the loop do. A timer event whose handle is gone
  was queued before its timer was unset, and is skipped.
\<close>

datatype 'm session_event = Timer u32 | Other 'm

definition session_dispatch ::
  "('m \<Rightarrow> session_timer \<times> 's \<Rightarrow> (unit, session_timer \<times> 's) outcome) \<Rightarrow>
   (timer_id \<Rightarrow> session_timer \<times> 's \<Rightarrow> (unit, session_timer \<times> 's) outcome) \<Rightarrow>
   'm session_event \<Rightarrow> session_timer \<times> 's \<Rightarrow> (unit, session_timer \<times> 's) outcome" where
  "session_dispatch on_event on_timer event s =
     (case event of
        Timer timer_id \<Rightarrow>
          if \<not> hm_has (ses_handles (fst s)) timer_id then Ok () s else on_timer timer_id s
      | Other m \<Rightarrow> on_event m s)"

fun session_run ::
  "('m \<Rightarrow> session_timer \<times> 's \<Rightarrow> (unit, session_timer \<times> 's) outcome) \<Rightarrow>
   (timer_id \<Rightarrow> session_timer \<times> 's \<Rightarrow> (unit, session_timer \<times> 's) outcome) \<Rightarrow>
   'm session_event list \<Rightarrow> session_timer \<times> 's \<Rightarrow> (unit, session_timer \<times> 's) outcome" where
  "session_run on_event on_timer [] s = Err (Bail ''channel closed'') s"
| "session_run on_event on_timer (e # es) s =
     and_then (session_dispatch on_event on_timer e s)
       (\<lambda>_ s'. session_run on_event on_timer es s')"

section \<open>Buffered: an event attached to each timer id\<close>

text \<open>
  \<open>Buffered\<close> (\<open>event.rs\<close> 120-175) and \<open>erased::Buffered\<close> (321-406) over a timer \<open>set\<close>/\<open>unset\<close>. They
  agree on \<open>set\<close>; their \<open>unset\<close> differ.
\<close>

type_synonym ('e, 't) buffered = "(u32, 'e) hmap \<times> 't"

definition buffered_set ::
  "(duration \<Rightarrow> 't \<Rightarrow> (timer_id, 't) outcome) \<Rightarrow> duration \<Rightarrow> 'e \<Rightarrow>
   ('e, 't) buffered \<Rightarrow> (timer_id, ('e, 't) buffered) outcome" where
  "buffered_set inner_set period event b =
     (case b of (attached, inner) \<Rightarrow>
        case inner_set period inner of
          Err e inner' \<Rightarrow> Err e (attached, inner')
        | Ok timer_id inner' \<Rightarrow>
            let attached' = hm_insert timer_id event attached
            in if hm_has attached timer_id
               then Err (Bail ''duplicated timer id'') (attached', inner')
               else Ok timer_id (attached', inner'))"

definition plain_buffered_unset ::
  "(timer_id \<Rightarrow> 't \<Rightarrow> (unit, 't) outcome) \<Rightarrow> timer_id \<Rightarrow>
   ('e, 't) buffered \<Rightarrow> (unit, ('e, 't) buffered) outcome" where
  "plain_buffered_unset inner_unset timer_id b =
     (case b of (attached, inner) \<Rightarrow>
        let attached' = hm_remove timer_id attached
        in if hm_has attached timer_id
           then Err (Bail ''missing timer attachment'') (attached', inner)
           else lift_outcome (Pair attached') (inner_unset timer_id inner))"

definition erased_buffered_unset ::
  "(timer_id \<Rightarrow> 't \<Rightarrow> (unit, 't) outcome) \<Rightarrow> timer_id \<Rightarrow>
   ('e, 't) buffered \<Rightarrow> (unit, ('e, 't) buffered) outcome" where
  "erased_buffered_unset inner_unset timer_id b =
     (case b of (attached, inner) \<Rightarrow>
        lift_outcome (Pair attached) (inner_unset timer_id inner))"

definition buffered_on_timer ::
  "('e \<Rightarrow> 's \<times> ('e, 't) buffered \<Rightarrow> (unit, 's \<times> ('e, 't) buffered) outcome) \<Rightarrow> timer_id \<Rightarrow>
   's \<times> ('e, 't) buffered \<Rightarrow> (unit, 's \<times> ('e, 't) buffered) outcome" where
  "buffered_on_timer on_event timer_id s =
     (case hm_get (fst (snd s)) timer_id of
        None \<Rightarrow> Err (Bail ''missing timer attachment'') s
      | Some event \<Rightarrow> on_event event s)"

section \<open>The contract of a timer service\<close>

text \<open>
  The ids a counter has given out so far. The counter wraps at \<open>2 ^ 32\<close>; \<open>ids_left\<close> is how many ids
  are still fresh.
\<close>

definition given_ids :: "u32 \<Rightarrow> u32 set" where
  "given_ids counter = {i. 0 < i \<and> i \<le> counter}"

definition ids_left :: "u32 \<Rightarrow> nat" where
  "ids_left counter = 2 ^ 32 - 1 - unat counter"

lemma ids_left_pos: "0 < ids_left c \<Longrightarrow> c \<noteq> - 1"
  by (auto simp: ids_left_def unsigned_minus_1_eq_mask mask_eq_exp_minus_1)

lemma next_id:
  assumes "0 < ids_left c"
  shows "given_ids (c + 1) = insert (c + 1) (given_ids c)"
    and "c + 1 \<notin> given_ids c"
    and "ids_left (c + 1) = ids_left c - 1"
proof -
  have u: "unat (c + 1) = Suc (unat c)"
    by (rule unat_Suc_word) (rule ids_left_pos [OF assms])
  show "given_ids (c + 1) = insert (c + 1) (given_ids c)"
    unfolding given_ids_def
  proof (intro set_eqI)
    fix i
    have "0 < i \<and> i \<le> c + 1 \<longleftrightarrow> i = c + 1 \<or> (0 < i \<and> i \<le> c)"
      using u unfolding word_less_nat_alt word_le_nat_alt
      by (metis le_Suc_eq unat_0 word_unat_eq_iff zero_less_Suc)
    then show "i \<in> {i. 0 < i \<and> i \<le> c + 1} \<longleftrightarrow> i \<in> insert (c + 1) {i. 0 < i \<and> i \<le> c}"
      by simp
  qed
  show "c + 1 \<notin> given_ids c"
    using u by (auto simp: given_ids_def word_le_nat_alt)
  show "ids_left (c + 1) = ids_left c - 1"
    using u by (simp add: ids_left_def)
qed

text \<open>
  A timer service keeps a set of \<open>live\<close> timers among the ids it has \<open>issued\<close>, has room for
  \<open>left\<close> more ids, and keeps its invariant \<open>ok\<close>.
\<close>

locale timer_service =
  fixes tset :: "duration \<Rightarrow> 't \<Rightarrow> (timer_id, 't) outcome"
    and tunset :: "timer_id \<Rightarrow> 't \<Rightarrow> (unit, 't) outcome"
    and live :: "'t \<Rightarrow> timer_id set"
    and issued :: "'t \<Rightarrow> timer_id set"
    and left :: "'t \<Rightarrow> nat"
    and ok :: "'t \<Rightarrow> bool"
  assumes live_issued: "ok t \<Longrightarrow> live t \<subseteq> issued t"
    and set_fresh: "\<lbrakk>ok t; 0 < left t\<rbrakk> \<Longrightarrow>
      \<exists>i t'. tset p t = Ok i t' \<and> ok t' \<and> i \<notin> issued t \<and> issued t' = insert i (issued t) \<and>
        live t' = insert i (live t) \<and> left t' = left t - 1"
    and unset_live: "\<lbrakk>ok t; i \<in> live t\<rbrakk> \<Longrightarrow>
      \<exists>t'. tunset i t = Ok () t' \<and> ok t' \<and> live t' = live t - {i} \<and> issued t' = issued t \<and>
        left t' = left t"
    and unset_dead: "\<lbrakk>ok t; i \<notin> live t\<rbrakk> \<Longrightarrow> \<exists>e. tunset i t = Err e t"
begin

lemma unset_keeps:
  assumes "ok t"
  shows "ok (after (tunset i t))" "live (after (tunset i t)) = live t - {i}"
    "issued (after (tunset i t)) = issued t" "left (after (tunset i t)) = left t"
    "is_ok (tunset i t) \<longleftrightarrow> i \<in> live t"
proof -
  have "ok (after (tunset i t)) \<and> live (after (tunset i t)) = live t - {i} \<and>
    issued (after (tunset i t)) = issued t \<and> left (after (tunset i t)) = left t \<and>
    (is_ok (tunset i t) \<longleftrightarrow> i \<in> live t)"
  proof (cases "i \<in> live t")
    case True
    with unset_live [OF assms this] show ?thesis by auto
  next
    case False
    with unset_dead [OF assms this] assms show ?thesis by auto
  qed
  then show "ok (after (tunset i t))" "live (after (tunset i t)) = live t - {i}"
    "issued (after (tunset i t)) = issued t" "left (after (tunset i t)) = left t"
    "is_ok (tunset i t) \<longleftrightarrow> i \<in> live t"
    by blast+
qed

text \<open>\<open>erased::Buffered\<close>: every live timer has its event attached, and only issued ids have one.\<close>

lemma buffered_set_fresh:
  assumes "ok t" and "0 < left t" and "hm_wf a"
    and "\<forall>i. hm_has a i \<longrightarrow> i \<in> issued t" and "\<forall>i\<in>live t. hm_has a i"
  obtains i t' where "buffered_set tset p e (a, t) = Ok i (hm_insert i e a, t')"
    "ok t'" "i \<notin> issued t" "i \<notin> live t" "live t' = insert i (live t)" "left t' = left t - 1"
    "\<forall>j. hm_has (hm_insert i e a) j \<longrightarrow> j \<in> issued t'"
    "\<forall>j\<in>live t'. hm_has (hm_insert i e a) j"
proof -
  from set_fresh [OF assms(1,2), of p] obtain i t'
    where i: "tset p t = Ok i t'" "ok t'" "i \<notin> issued t" "issued t' = insert i (issued t)"
      "live t' = insert i (live t)" "left t' = left t - 1"
    by blast
  from assms(4) i(3) have "\<not> hm_has a i" by blast
  with i have b: "buffered_set tset p e (a, t) = Ok i (hm_insert i e a, t')"
    by (simp add: buffered_set_def)
  have n: "i \<notin> live t" using live_issued [OF assms(1)] i(3) by blast
  show thesis
    by (rule that [OF b i(2,3) n i(5,6)]) (use assms(4,5) i in auto)
qed

lemma attached_timer_fires:
  assumes "hm_get a i = Some e"
  shows "buffered_on_timer on_event i (s, (a, t)) = on_event e (s, (a, t))"
  using assms by (simp add: buffered_on_timer_def)

text \<open>
  The plain \<open>Buffered\<close> removes the attachment of a live timer, reports the error meant for a
  missing one, and leaves the timer running.
\<close>

lemma plain_unset_live:
  assumes "\<forall>i\<in>live t. hm_has a i" and "i \<in> live t"
  shows "plain_buffered_unset tunset i (a, t) =
      Err (Bail ''missing timer attachment'') (hm_remove i a, t)"
  using assms by (simp add: plain_buffered_unset_def)

end

subsection \<open>Sequences of calls\<close>

datatype 'e timer_call = SetCall duration 'e | UnsetCall timer_id

fun is_set_call :: "'e timer_call \<Rightarrow> bool" where
  "is_set_call (SetCall _ _) = True"
| "is_set_call (UnsetCall _) = False"

text \<open>What a client of \<open>erased::Buffered\<close> sees: per call the id it got, or nothing on an error.\<close>

fun buffered_call ::
  "(duration \<Rightarrow> 't \<Rightarrow> (timer_id, 't) outcome) \<Rightarrow> (timer_id \<Rightarrow> 't \<Rightarrow> (unit, 't) outcome) \<Rightarrow>
   'e timer_call \<Rightarrow> ('e, 't) buffered \<Rightarrow> (timer_id, ('e, 't) buffered) outcome" where
  "buffered_call tset tunset (SetCall p e) b = buffered_set tset p e b"
| "buffered_call tset tunset (UnsetCall i) b =
     and_then (erased_buffered_unset tunset i b) (\<lambda>_ b'. Ok i b')"

fun buffered_calls ::
  "(duration \<Rightarrow> 't \<Rightarrow> (timer_id, 't) outcome) \<Rightarrow> (timer_id \<Rightarrow> 't \<Rightarrow> (unit, 't) outcome) \<Rightarrow>
   'e timer_call list \<Rightarrow> ('e, 't) buffered \<Rightarrow> bool list \<times> ('e, 't) buffered" where
  "buffered_calls tset tunset [] b = ([], b)"
| "buffered_calls tset tunset (c # cs) b =
     (let r = buffered_call tset tunset c b;
          (rs, b') = buffered_calls tset tunset cs (after r)
      in (is_ok r # rs, b'))"

context timer_service
begin

lemma buffered_calls_ok:
  assumes "ok t" and "hm_wf a" and "\<forall>i. hm_has a i \<longrightarrow> i \<in> issued t"
    and "\<forall>i\<in>live t. hm_has a i" and "length (filter is_set_call cs) \<le> left t"
    and "buffered_calls tset tunset cs (a, t) = (rs, (a', t'))"
  shows "length rs = length cs \<and> (\<forall>k<length cs. is_set_call (cs ! k) \<longrightarrow> rs ! k) \<and>
    (\<forall>i\<in>live t'. hm_has a' i)"
  using assms
proof (induction cs arbitrary: a t rs)
  case Nil
  then show ?case by auto
next
  case (Cons c cs)
  show ?case
  proof (cases c)
    case (SetCall p e)
    with Cons.prems have "0 < left t" by simp
    from buffered_set_fresh [OF Cons.prems(1) this Cons.prems(2,3,4), of p e]
    obtain i t1 where b: "buffered_set tset p e (a, t) = Ok i (hm_insert i e a, t1)"
      and t1: "ok t1" "left t1 = left t - 1" "\<forall>j. hm_has (hm_insert i e a) j \<longrightarrow> j \<in> issued t1"
        "\<forall>j\<in>live t1. hm_has (hm_insert i e a) j"
      by metis
    obtain rs1 where rs1: "buffered_calls tset tunset cs (hm_insert i e a, t1) = (rs1, (a', t'))"
      "rs = True # rs1"
      using Cons.prems(6) b SetCall
      by (cases "buffered_calls tset tunset cs (hm_insert i e a, t1)") auto
    show ?thesis
      using Cons.IH [OF t1(1) _ t1(3,4) _ rs1(1)] Cons.prems(2,5) t1(2) rs1(2) SetCall
      by (auto simp: nth_Cons split: nat.split)
  next
    case (UnsetCall i)
    let ?t1 = "after (tunset i t)"
    have "after (buffered_call tset tunset c (a, t)) = (a, ?t1)"
      by (cases "tunset i t") (simp_all add: UnsetCall erased_buffered_unset_def)
    then obtain r rs1 where rs1: "buffered_calls tset tunset cs (a, ?t1) = (rs1, (a', t'))"
      "rs = r # rs1"
      using Cons.prems(6) by (cases "buffered_calls tset tunset cs (a, ?t1)") auto
    show ?thesis
      using Cons.IH [OF _ Cons.prems(2) _ _ _ rs1(1)] Cons.prems(3,4,5)
        unset_keeps [OF Cons.prems(1), of i] rs1(2) UnsetCall
      by (auto simp: nth_Cons split: nat.split)
  qed
qed

end

section \<open>The three services keep the contract\<close>

subsection \<open>linear::Timer\<close>

definition linear_live :: "linear_timer \<Rightarrow> timer_id set" where
  "linear_live t = fst ` set (lin_events t)"

definition linear_ok :: "linear_timer \<Rightarrow> bool" where
  "linear_ok t \<longleftrightarrow>
     distinct (map fst (lin_events t)) \<and> linear_live t \<subseteq> given_ids (lin_timer_id t)"

lemma position_Some:
  "position P xs = Some k \<Longrightarrow> k < length xs \<and> P (xs ! k)"
  by (induction xs arbitrary: k) (auto split: if_splits)

lemma position_None: "position P xs = None \<longleftrightarrow> (\<forall>x\<in>set xs. \<not> P x)"
  by (induction xs) auto

lemma remove_at_split:
  assumes "k < length xs"
  obtains ys zs where "xs = ys @ xs ! k # zs" "remove_at k xs = ys @ zs"
  using assms id_take_nth_drop [of k xs] by (auto simp: remove_at_def)

lemma linear_take_live:
  assumes "linear_ok t" and "i \<in> linear_live t"
  obtains p ys zs where "lin_events t = ys @ (i, p) # zs"
    "linear_take i t = Ok (i, p) (t\<lparr>lin_events := ys @ zs\<rparr>)"
proof -
  from assms(2) obtain k where k: "position (\<lambda>(j, _). j = i) (lin_events t) = Some k"
    by (cases "position (\<lambda>(j, _). j = i) (lin_events t)")
      (auto simp: position_None linear_live_def)
  from position_Some [OF k] have "k < length (lin_events t)" "fst (lin_events t ! k) = i"
    by auto
  moreover obtain ys zs where yz: "lin_events t = ys @ lin_events t ! k # zs"
      "remove_at k (lin_events t) = ys @ zs"
    using remove_at_split [OF calculation(1)] by blast
  ultimately have e: "lin_events t = ys @ (i, snd (lin_events t ! k)) # zs"
    "linear_take i t = Ok (i, snd (lin_events t ! k)) (t\<lparr>lin_events := ys @ zs\<rparr>)"
    using k by (auto simp: linear_take_def prod_eq_iff)
  then show thesis by (rule that)
qed

lemma linear_take_dead:
  "i \<notin> linear_live t \<Longrightarrow> linear_take i t = Err (Bail ''timer not found'') t"
  using position_None [of "\<lambda>(j, _). j = i" "lin_events t"]
  by (force simp: linear_take_def linear_live_def)

interpretation lin: timer_service linear_set linear_unset linear_live
    "\<lambda>t. given_ids (lin_timer_id t)" "\<lambda>t. ids_left (lin_timer_id t)" linear_ok
proof (unfold_locales, goal_cases)
  case (1 t)
  then show ?case by (simp add: linear_ok_def)
next
  case (2 t p)
  then show ?case
    using next_id [OF 2(2)]
    by (auto simp: linear_set_def linear_ok_def linear_live_def Let_def)
next
  case (3 t i)
  from linear_take_live [OF this] obtain p ys zs
    where "lin_events t = ys @ (i, p) # zs"
      "linear_take i t = Ok (i, p) (t\<lparr>lin_events := ys @ zs\<rparr>)" .
  with 3(1) show ?case
    by (auto simp: linear_unset_def linear_ok_def linear_live_def)
next
  case (4 t i)
  then show ?case by (simp add: linear_unset_def linear_take_dead)
qed

text \<open>
  The timers a model checker may fire: \<open>linear_events\<close> is the longest strictly decreasing run of
  periods from the front, so a timer is offered only if every timer set before it has a longer
  period.
\<close>

lemma linear_events_from_sound:
  assumes "i \<in> set (linear_events_from prev es)"
  shows "\<exists>xs p ys. es = xs @ (i, p) # ys \<and> (\<forall>q\<in>set_option prev. p < q) \<and>
    (\<forall>(j, q)\<in>set xs. p < q)"
  using assms
proof (induction prev es rule: linear_events_from.induct)
  case (1 prev)
  then show ?case by simp
next
  case (2 prev j q rest)
  show ?case
  proof (cases "i = j \<and> (\<forall>r\<in>set_option prev. q < r)")
    case True
    then show ?thesis by (intro exI [of _ "[]"]) auto
  next
    case False
    with 2(3) have "i \<in> set (linear_events_from (Some q) rest)"
      and "\<forall>r\<in>set_option prev. q < r"
      by (auto split: option.splits if_splits)
    with 2(1,2) obtain xs p ys where "rest = xs @ (i, p) # ys" "p < q" "\<forall>(j, q)\<in>set xs. p < q"
      by (cases prev) fastforce+
    with \<open>\<forall>r\<in>set_option prev. q < r\<close> show ?thesis
      by (intro exI [of _ "(j, q) # xs"]) force
  qed
qed

subsection \<open>ordered::Timer\<close>

definition ordered_live :: "ordered_timer \<Rightarrow> timer_id set" where
  "ordered_live t = {i. hm_has (ord_states t) i}"

definition ordered_ok :: "ordered_timer \<Rightarrow> bool" where
  "ordered_ok t \<longleftrightarrow>
     hm_wf (ord_states t) \<and> sorted (ord_deadlines t) \<and> distinct (ord_deadlines t) \<and>
     (\<forall>d i. (d, i) \<in> set (ord_deadlines t) \<longleftrightarrow>
        (\<exists>s. hm_get (ord_states t) i = Some s \<and> d = ts_deadline s)) \<and>
     ordered_live t \<subseteq> given_ids (ord_id t)"

interpretation ord: timer_service "ordered_set now" ordered_unset ordered_live
    "\<lambda>t. given_ids (ord_id t)" "\<lambda>t. ids_left (ord_id t)" ordered_ok
  for now :: instant
proof (unfold_locales, goal_cases)
  case (1 t)
  then show ?case by (simp add: ordered_ok_def)
next
  case (2 t p)
  note n = next_id [OF 2(2)]
  have f: "hm_get (ord_states t) (ord_id t + 1) = None"
    using 2(1) n(2) by (auto simp: ordered_ok_def ordered_live_def hm_has_def)
  let ?t = "after (ordered_set now p t)"
  have "ordered_ok ?t" "ordered_live ?t = insert (ord_id t + 1) (ordered_live t)"
    using 2(1) n(1) f
    by (auto simp: ordered_set_def ordered_ok_def ordered_live_def Let_def
        sorted_insort_insert distinct_insort_insert set_insort_insert)
  with n show ?case by (auto simp: ordered_set_def Let_def)
next
  case (3 t i)
  then obtain s where s: "hm_get (ord_states t) i = Some s"
    by (auto simp: ordered_live_def hm_has_def)
  with 3(1) have m: "(ts_deadline s, i) \<in> set (ord_deadlines t)"
    by (auto simp: ordered_ok_def)
  let ?t = "after (ordered_unset i t)"
  have "set (remove1 (ts_deadline s, i) (ord_deadlines t)) =
      set (ord_deadlines t) - {(ts_deadline s, i)}"
    using 3(1) by (simp add: ordered_ok_def)
  then have "ordered_ok ?t"
    using 3(1) s m by (auto simp: ordered_unset_def ordered_ok_def ordered_live_def sorted_remove1)
  moreover have "ordered_live ?t = ordered_live t - {i}"
    using s m by (auto simp: ordered_unset_def ordered_live_def)
  ultimately show ?case using s m by (auto simp: ordered_unset_def)
next
  case (4 t i)
  then show ?case by (auto simp: ordered_unset_def ordered_live_def hm_has_def)
qed

lemma ordered_advance_ok:
  assumes "ordered_ok t" and "ordered_live t \<noteq> {}"
  obtains i s t' where "ordered_advance t = Ok i t'" "ordered_ok t'"
    "hm_get (ord_states t) i = Some s" "ordered_live t' = ordered_live t"
    "ordered_deadline t = Some (ts_deadline s)"
    "\<forall>j s'. hm_get (ord_states t) j = Some s' \<longrightarrow> ts_deadline s \<le> ts_deadline s'"
    "hm_get (ord_states t') i = Some (s\<lparr>ts_deadline := ts_deadline s + ts_period s\<rparr>)"
    "\<forall>j. j \<noteq> i \<longrightarrow> hm_get (ord_states t') j = hm_get (ord_states t) j"
proof -
  from assms(2) obtain j s where "hm_get (ord_states t) j = Some s"
    by (auto simp: ordered_live_def hm_has_def)
  with assms(1) have "(ts_deadline s, j) \<in> set (ord_deadlines t)"
    by (simp add: ordered_ok_def)
  then have "ord_deadlines t \<noteq> []" by auto
  then obtain d i rest where d: "ord_deadlines t = (d, i) # rest"
    by (cases "ord_deadlines t") auto
  have mem: "(e, j) \<in> set (ord_deadlines t) \<longleftrightarrow>
      (\<exists>s. hm_get (ord_states t) j = Some s \<and> e = ts_deadline s)" for e j
    using assms(1) by (simp add: ordered_ok_def)
  from mem [of d i] d obtain s where s: "hm_get (ord_states t) i = Some s" "d = ts_deadline s"
    by auto
  have least: "\<forall>j s'. hm_get (ord_states t) j = Some s' \<longrightarrow> ts_deadline s \<le> ts_deadline s'"
  proof (intro allI impI)
    fix j s' assume j: "hm_get (ord_states t) j = Some s'"
    then have "(ts_deadline s', j) \<in> set (ord_deadlines t)" using mem by blast
    moreover have "sorted ((d, i) # rest)" using assms(1) d by (simp add: ordered_ok_def)
    ultimately show "ts_deadline s \<le> ts_deadline s'"
      using d s(2) by (auto simp: less_eq_prod_def)
  qed
  let ?s = "s\<lparr>ts_deadline := ts_deadline s + ts_period s\<rparr>"
  let ?t = "t\<lparr>ord_deadlines := insort_insert (ts_deadline s + ts_period s, i) rest,
              ord_states := hm_insert i ?s (ord_states t)\<rparr>"
  have adv: "ordered_advance t = Ok i ?t"
    using d s by (simp add: ordered_advance_def Let_def)
  have dist: "(d, i) \<notin> set rest" using assms(1) d by (simp add: ordered_ok_def)
  have rest: "(e, j) \<in> set rest \<longleftrightarrow>
      j \<noteq> i \<and> (\<exists>s. hm_get (ord_states t) j = Some s \<and> e = ts_deadline s)" for e j
    using mem [of e j] dist d s by auto
  have "(e, j) \<in> set (ord_deadlines ?t) \<longleftrightarrow>
      (\<exists>s. hm_get (ord_states ?t) j = Some s \<and> e = ts_deadline s)" for e j
    using rest [of e j] by (auto simp: set_insort_insert)
  moreover have "sorted rest" "distinct rest" using assms(1) d by (auto simp: ordered_ok_def)
  moreover have live: "ordered_live ?t = ordered_live t"
    using s by (auto simp: ordered_live_def hm_has_def)
  ultimately have "ordered_ok ?t"
    using assms(1) by (simp add: ordered_ok_def sorted_insort_insert distinct_insort_insert)
  moreover have "ordered_deadline t = Some (ts_deadline s)"
    using d s by (simp add: ordered_deadline_def)
  ultimately show thesis
    by (intro that [OF adv _ s(1) live _ least]) auto
qed

subsection \<open>SessionTimer\<close>

definition session_live :: "session_timer \<Rightarrow> timer_id set" where
  "session_live t = {i. hm_has (ses_handles t) i}"

definition session_ok :: "session_timer \<Rightarrow> bool" where
  "session_ok t \<longleftrightarrow>
     hm_wf (ses_handles t) \<and> fst ` set (ses_tasks t) = session_live t \<and>
     session_live t \<subseteq> given_ids (ses_id t)"

interpretation ses: timer_service session_set session_unset session_live
    "\<lambda>t. given_ids (ses_id t)" "\<lambda>t. ids_left (ses_id t)" session_ok
proof (unfold_locales, goal_cases)
  case (1 t)
  then show ?case by (simp add: session_ok_def)
next
  case (2 t p)
  then show ?case
    using next_id [OF 2(2)]
    by (auto simp: session_set_def session_ok_def session_live_def Let_def)
next
  case (3 t i)
  then have "fst ` {x \<in> set (ses_tasks t). fst x \<noteq> i} = session_live t - {i}"
    by (auto simp: session_ok_def)
  with 3 show ?case
    by (auto simp: session_unset_def session_ok_def session_live_def hm_has_def split_beta)
next
  case (4 t i)
  then have "hm_get (ses_handles t) i = None"
    by (cases "hm_get (ses_handles t) i") (simp_all add: session_live_def hm_has_def)
  then show ?case by (simp add: session_unset_def)
qed

section \<open>Properties\<close>

text \<open>The buffered session timer never runs into a duplicate id. From a new \<open>SessionTimer\<close>
  wrapped in \<open>erased::Buffered\<close>, in any sequence of sets and unsets with fewer than \<open>2 ^ 32\<close> sets, every
  set succeeds, and at the end every live timer has its event attached, so that its expiry finds an
  event.\<close>

theorem session_buffered_sets_succeed:
  assumes "buffered_calls session_set session_unset cs ([], session_new) = (rs, (attached, t))"
    and "length (filter is_set_call cs) < 2 ^ 32"
  shows "length rs = length cs \<and> (\<forall>k<length cs. is_set_call (cs ! k) \<longrightarrow> rs ! k) \<and>
    (\<forall>i\<in>session_live t. hm_has attached i)"
proof (rule ses.buffered_calls_ok [OF _ _ _ _ _ assms(1)])
  show "session_ok session_new"
    by (simp add: session_ok_def session_new_def session_live_def given_ids_def)
  show "length (filter is_set_call cs) \<le> ids_left (ses_id session_new)"
    using assms(2) by (simp add: session_new_def ids_left_def)
qed (simp_all add: session_new_def session_live_def)

definition sample_calls :: "unit timer_call list" where
  "sample_calls = [SetCall 5 (), UnsetCall 1, UnsetCall 1, SetCall 7 ()]"

definition sample_called :: "bool list \<times> (unit, session_timer) buffered" where
  "sample_called = buffered_calls session_set session_unset sample_calls ([], session_new)"

lemma session_buffered_sets_succeed_witness:
  "fst sample_called = [True, True, False, True] \<and> hm_has (fst (snd sample_called)) 2"
proof -
  have "buffered_calls session_set session_unset sample_calls ([], session_new) =
      (fst sample_called, (fst (snd sample_called), snd (snd sample_called)))"
    by (simp add: sample_called_def)
  moreover have "length (filter is_set_call sample_calls) < 2 ^ 32" by (simp add: sample_calls_def)
  moreover have "hm_has (ses_handles (snd (snd sample_called))) 2" by code_simp
  then have "2 \<in> session_live (snd (snd sample_called))" by (simp add: session_live_def)
  moreover have "fst sample_called = [True, True, False, True]" by code_simp
  ultimately show ?thesis using session_buffered_sets_succeed by blast
qed

text \<open>Unset timers do not fire. Once \<open>unset\<close> has returned for a session timer, an expiry of it
  that was already queued is skipped: the state and the event queue's owner see nothing of it.\<close>

theorem session_unset_silences:
  assumes "session_unset i t = Ok () t'"
  shows "session_dispatch on_event on_timer (Timer i) (t', s) = Ok () (t', s)"
proof -
  from assms have "\<not> hm_has (ses_handles t') i"
    by (auto simp: session_unset_def split: option.splits)
  then show ?thesis by (simp add: session_dispatch_def)
qed

lemma session_unset_silences_witness:
  "session_dispatch (\<lambda>_ _. Err (Bail ''event'') (session_new, ())) (\<lambda>_ _. Err (Bail ''timer'') (session_new, ()))
     (Timer 1 :: unit session_event) (after (session_unset 1 (after (session_set 5 session_new))), ()) =
   Ok () (after (session_unset 1 (after (session_set 5 session_new))), ())"
  by (rule session_unset_silences [where t = "after (session_set 5 session_new)"])
    (simp add: session_set_def session_unset_def session_new_def Let_def)

text \<open>The blocking timer fires the earliest deadline. In every state of \<open>ordered::Timer\<close> in which its
  two collections agree (\<open>ordered_ok\<close>, kept by set, unset and advance) and some timer is live, advance
  does not fail: it returns a live timer whose deadline is the one \<open>deadline\<close> announced and minimal, moves
  that deadline on by the timer's period, and leaves the other timers alone.\<close>

theorem ordered_advance_earliest:
  assumes "ordered_ok t" and "ordered_live t \<noteq> {}"
  shows "\<exists>i s t'. ordered_advance t = Ok i t' \<and> ordered_ok t' \<and> ordered_live t' = ordered_live t \<and>
    hm_get (ord_states t) i = Some s \<and> ordered_deadline t = Some (ts_deadline s) \<and>
    (\<forall>j s'. hm_get (ord_states t) j = Some s' \<longrightarrow> ts_deadline s \<le> ts_deadline s') \<and>
    hm_get (ord_states t') i = Some (s\<lparr>ts_deadline := ts_deadline s + ts_period s\<rparr>) \<and>
    (\<forall>j. j \<noteq> i \<longrightarrow> hm_get (ord_states t') j = hm_get (ord_states t) j)"
  by (rule ordered_advance_ok [OF assms]) blast

lemma ordered_advance_earliest_witness:
  "\<exists>i t'. ordered_advance (after (ordered_set 0 3 (after (ordered_set 0 5 ordered_new)))) = Ok i t' \<and>
     ordered_ok t'"
proof -
  have "ordered_ok ordered_new"
    by (simp add: ordered_ok_def ordered_new_def ordered_live_def)
  moreover have "0 < ids_left (ord_id ordered_new)" "ord_id ordered_new = 0"
    by (simp_all add: ordered_new_def ids_left_def)
  ultimately obtain t1 where t1: "ordered_ok t1" "t1 = after (ordered_set 0 5 ordered_new)"
    using ord.set_fresh [of ordered_new 0 5] by fastforce
  then have "0 < ids_left (ord_id t1)" by (simp add: ordered_set_def ordered_new_def ids_left_def Let_def)
  with t1(1) obtain t2 where "ordered_ok t2" "ordered_live t2 \<noteq> {}" "t2 = after (ordered_set 0 3 t1)"
    using ord.set_fresh [of t1 0 3] by fastforce
  with ordered_advance_earliest [of t2] t1(2) show ?thesis by blast
qed

text \<open>The model checker's timer offers only timers that can fire first. A timer offered by
  \<open>linear::Timer::events\<close> is live, and every timer set before it has a longer period.\<close>

theorem linear_events_fire_first:
  assumes "i \<in> set (linear_events t)"
  shows "\<exists>before p rest. lin_events t = before @ (i, p) # rest \<and> (\<forall>(j, q)\<in>set before. p < q)"
  using linear_events_from_sound [OF assms [unfolded linear_events_def]] by auto

lemma linear_events_fire_first_witness:
  "\<exists>before p rest. [(1, 9), (2, 4), (3, 6), (4, 2)] = before @ (2 :: u32, p :: nat) # rest"
proof -
  have "2 \<in> set (linear_events \<lparr>lin_events = [(1, 9), (2, 4), (3, 6), (4, 2)], lin_timer_id = 4\<rparr>)"
    by (simp add: linear_events_def)
  from linear_events_fire_first [OF this] show ?thesis by auto
qed

text \<open>But not all of them. There is a state of \<open>linear::Timer\<close>, reached by sets alone, with a live
  timer that has a shorter period than every timer set before it and is not offered: the scan stops
  at the first timer that is not shorter than its predecessor.\<close>

theorem linear_events_incomplete:
  "\<exists>t i before p rest.
     t = after (linear_set 2 (after (linear_set 6 (after (linear_set 4 linear_new))))) \<and>
     lin_events t = before @ (i, p) # rest \<and> list_all (\<lambda>(j, q). p < q) before \<and>
     i \<notin> set (linear_events t)"
proof -
  let ?t = "after (linear_set 2 (after (linear_set 6 (after (linear_set 4 linear_new)))))"
  have "lin_events ?t = [(1, 4), (2, 6)] @ (3, 2) # []" "3 \<notin> set (linear_events ?t)"
    by (simp_all add: linear_set_def linear_new_def Let_def linear_events_def)
  then show ?thesis
    by (intro exI [of _ ?t] exI [of _ 3] exI [of _ "[(1, 4), (2, 6)]"] exI [of _ 2] exI [of _ "[]"])
      simp
qed

text \<open>The plain \<open>Buffered\<close> cannot unset a timer. Right after a \<open>set\<close> that succeeded, \<open>unset\<close> of that
  timer fails with "missing timer attachment" although the event is attached: it drops the
  attachment and leaves the inner timer running.\<close>

theorem plain_buffered_unset_fails:
  assumes "buffered_set inner_set p e b = Ok i (attached, inner)"
  shows "plain_buffered_unset inner_unset i (attached, inner) =
    Err (Bail ''missing timer attachment'') (hm_remove i attached, inner)"
  using assms
  by (auto simp: buffered_set_def plain_buffered_unset_def Let_def
      split: prod.splits outcome.splits if_splits)

lemma plain_buffered_unset_fails_witness:
  "plain_buffered_unset session_unset 1 (after (buffered_set session_set 5 () ([], session_new))) =
     Err (Bail ''missing timer attachment'') ([], after (session_set 5 session_new))"
  using plain_buffered_unset_fails
    [where inner_set = session_set and p = 5 and e = "()" and b = "([], session_new)" and i = 1
      and inner_unset = session_unset]
  by (simp add: buffered_set_def session_set_def session_new_def Let_def)

end
