(* ===== verification/Pbft_Messages.thy ===== *)
theory Pbft_Messages
  imports Net Timers
begin

text \<open>
  \<open>src/src/pbft.rs\<close>, the messages of the protocol, what their \<open>derive(Hash)\<close> feeds to the digest,
  the crypto work a replica submits and the events that work sends back, and the dispatch of a
  received buffer.
\<close>

section \<open>Messages\<close>

record pre_prepare =
  pp_view_num :: u32
  pp_op_num :: u32
  pp_digest :: digest

record prepare =
  pr_view_num :: u32
  pr_op_num :: u32
  pr_digest :: digest
  pr_replica_id :: u8

record commit =
  cm_view_num :: u32
  cm_op_num :: u32
  cm_digest :: digest
  cm_replica_id :: u8

record reply =
  rp_seq :: u32
  rp_result :: payload
  rp_view_num :: u32
  rp_replica_id :: u8

datatype 'a to_replica =
    Request "'a request"
  | PrePrepare "pre_prepare verifiable" "'a request list"
  | Prepare "prepare verifiable"
  | Commit "commit verifiable"

text \<open>A destination of the replica net: one replica by its index, or all the others.\<close>

datatype dest = Index u8 | AllReplica

type_synonym 'a replica_net = "(dest \<times> 'a to_replica) sink"
type_synonym 'a client_net = "('a \<times> reply) sink"

section \<open>Hash feeds\<close>

definition pre_prepare_feed :: "pre_prepare \<Rightarrow> bytes" where
  "pre_prepare_feed m =
     write_u32 (pp_view_num m) @ write_u32 (pp_op_num m) @ hash_bytes (pp_digest m)"

definition prepare_feed :: "prepare \<Rightarrow> bytes" where
  "prepare_feed m =
     write_u32 (pr_view_num m) @ write_u32 (pr_op_num m) @ hash_bytes (pr_digest m) @
     [pr_replica_id m]"

definition commit_feed :: "commit \<Rightarrow> bytes" where
  "commit_feed m =
     write_u32 (cm_view_num m) @ write_u32 (cm_op_num m) @ hash_bytes (cm_digest m) @
     [cm_replica_id m]"

definition requests_feed :: "('a \<Rightarrow> bytes) \<Rightarrow> 'a request list \<Rightarrow> bytes" where
  "requests_feed addr_feed requests = hash_slice (request_feed addr_feed) requests"

section \<open>Crypto work\<close>

datatype 'a crypto_event =
    SignedPrePrepare "pre_prepare verifiable" "'a request list"
  | VerifiedPrePrepare "pre_prepare verifiable" "'a request list"
  | SignedPrepare "prepare verifiable"
  | VerifiedPrepare "prepare verifiable"
  | SignedCommit "commit verifiable"
  | VerifiedCommit "commit verifiable"

text \<open>One constructor per closure the replica hands to its worker, with what it captures.\<close>

datatype 'a work =
    SignPrePrepare u32 u32 "'a request list"
  | VerifyPrePrepare usize "pre_prepare verifiable" "'a request list"
  | SignPrepare prepare
  | VerifyPrepare "prepare verifiable"
  | SignCommit commit
  | VerifyCommit "commit verifiable"

text \<open>
  What the protocol is run with: the crypto library, the hash feed of an address and the replicated
  application.
\<close>

record ('s, 'a) env =
  env_lib :: crypto_lib
  env_addr_feed :: "'a \<Rightarrow> bytes"
  env_execute :: "payload \<Rightarrow> 's \<Rightarrow> (payload, 's) outcome"

definition requests_digest :: "('s, 'a) env \<Rightarrow> 'a request list \<Rightarrow> digest" where
  "requests_digest env requests = sha256 (env_lib env) (requests_feed (env_addr_feed env)) requests"

fun work_event :: "('s, 'a) env \<Rightarrow> 'a work \<Rightarrow> crypto \<Rightarrow> 'a crypto_event option" where
  "work_event env (SignPrePrepare view_num op_num requests) crypto =
     Some (SignedPrePrepare
       (sign (env_lib env) pre_prepare_feed crypto
          \<lparr>pp_view_num = view_num, pp_op_num = op_num, pp_digest = requests_digest env requests\<rparr>)
       requests)"
| "work_event env (VerifyPrePrepare replica_id pre_prepare requests) crypto =
     (if requests_digest env requests = pp_digest (inner pre_prepare) \<and>
         verify (env_lib env) pre_prepare_feed crypto replica_id pre_prepare = Inr ()
      then Some (VerifiedPrePrepare pre_prepare requests) else None)"
| "work_event env (SignPrepare prepare) crypto =
     Some (SignedPrepare (sign (env_lib env) prepare_feed crypto prepare))"
| "work_event env (VerifyPrepare prepare) crypto =
     (if verify (env_lib env) prepare_feed crypto (unat (pr_replica_id (inner prepare))) prepare =
           Inr ()
      then Some (VerifiedPrepare prepare) else None)"
| "work_event env (SignCommit commit) crypto =
     Some (SignedCommit (sign (env_lib env) commit_feed crypto commit))"
| "work_event env (VerifyCommit commit) crypto =
     (if verify (env_lib env) commit_feed crypto (unat (cm_replica_id (inner commit))) commit =
           Inr ()
      then Some (VerifiedCommit commit) else None)"

definition run_work ::
  "('s, 'a) env \<Rightarrow> 'a work \<Rightarrow> crypto \<Rightarrow> 'a crypto_event sink \<Rightarrow>
   (unit, 'a crypto_event sink) outcome" where
  "run_work env work crypto sender =
     (case work_event env work crypto of
        Some event \<Rightarrow> push_sink event sender
      | None \<Rightarrow> Ok () sender)"

section \<open>Received buffers\<close>

datatype 'a recv_event =
    RecvRequest "'a request"
  | RecvPrePrepare "pre_prepare verifiable" "'a request list"
  | RecvPrepare "prepare verifiable"
  | RecvCommit "commit verifiable"

fun recv_of :: "'a to_replica \<Rightarrow> 'a recv_event" where
  "recv_of (Request m) = RecvRequest m"
| "recv_of (PrePrepare m requests) = RecvPrePrepare m requests"
| "recv_of (Prepare m) = RecvPrepare m"
| "recv_of (Commit m) = RecvCommit m"

definition to_replica_on_buf ::
  "(bytes \<Rightarrow> error + 'a to_replica) \<Rightarrow> bytes \<Rightarrow> 'a recv_event sink \<Rightarrow>
   (unit, 'a recv_event sink) outcome" where
  "to_replica_on_buf de buf sender =
     (case de buf of Inl e \<Rightarrow> Err e sender | Inr m \<Rightarrow> push_sink (recv_of m) sender)"

definition to_client_on_buf ::
  "(bytes \<Rightarrow> error + reply) \<Rightarrow> bytes \<Rightarrow> reply sink \<Rightarrow> (unit, reply sink) outcome" where
  "to_client_on_buf de buf sender =
     (case de buf of Inl e \<Rightarrow> Err e sender | Inr m \<Rightarrow> push_sink m sender)"

section \<open>Lemmas\<close>

lemma inner_sign [simp]: "inner (sign lib feed c m) = m"
  by (simp add: peer_sign_def Let_def split: crypto_provider.split)

text \<open>What a piece of work may report: signing always, verifying only what checks out.\<close>

lemma work_event_signed:
  "work_event env w crypto = Some (SignedPrepare p) \<longleftrightarrow>
     (\<exists>m. w = SignPrepare m \<and> p = sign (env_lib env) prepare_feed crypto m)"
  "work_event env w crypto = Some (SignedCommit c) \<longleftrightarrow>
     (\<exists>m. w = SignCommit m \<and> c = sign (env_lib env) commit_feed crypto m)"
  by (cases w; auto simp del: sign.simps verify.simps)+

lemma work_event_verified:
  "work_event env w crypto = Some (VerifiedPrepare p) \<longleftrightarrow>
     w = VerifyPrepare p \<and>
     verify (env_lib env) prepare_feed crypto (unat (pr_replica_id (inner p))) p = Inr ()"
  "work_event env w crypto = Some (VerifiedCommit c) \<longleftrightarrow>
     w = VerifyCommit c \<and>
     verify (env_lib env) commit_feed crypto (unat (cm_replica_id (inner c))) c = Inr ()"
  "work_event env w crypto = Some (VerifiedPrePrepare pp requests) \<longleftrightarrow>
     (\<exists>i. w = VerifyPrePrepare i pp requests \<and>
        requests_digest env requests = pp_digest (inner pp) \<and>
        verify (env_lib env) pre_prepare_feed crypto i pp = Inr ())"
  by (cases w; auto simp del: sign.simps verify.simps)+

text \<open>
  A prepare and a commit of the same view, operation, digest and replica write the same bytes, so
  the signature of one is the signature of the other.
\<close>

definition commit_of_prepare :: "prepare \<Rightarrow> commit" where
  "commit_of_prepare p =
     \<lparr>cm_view_num = pr_view_num p, cm_op_num = pr_op_num p, cm_digest = pr_digest p,
      cm_replica_id = pr_replica_id p\<rparr>"

lemma commit_feed_of_prepare: "commit_feed (commit_of_prepare p) = prepare_feed p"
  by (simp add: commit_of_prepare_def commit_feed_def prepare_feed_def)

lemma prepare_feed_inject:
  assumes "length (pr_digest p) = length (pr_digest q)"
  shows "prepare_feed p = prepare_feed q \<longleftrightarrow>
    pr_view_num p = pr_view_num q \<and> pr_op_num p = pr_op_num q \<and> pr_digest p = pr_digest q \<and>
    pr_replica_id p = pr_replica_id q"
  using assms by (auto simp: prepare_feed_def hash_bytes_def append_feed_inject)

lemma pre_prepare_feed_inject:
  assumes "length (pp_digest p) = length (pp_digest q)"
  shows "pre_prepare_feed p = pre_prepare_feed q \<longleftrightarrow>
    pp_view_num p = pp_view_num q \<and> pp_op_num p = pp_op_num q \<and> pp_digest p = pp_digest q"
  using assms by (auto simp: pre_prepare_feed_def hash_bytes_def append_feed_inject)

end
