(* ===== verification/Pbft_Replica.thy ===== *)
theory Pbft_Replica
  imports Pbft_Messages
begin

text \<open>
  \<open>src/src/pbft.rs\<close>, \<open>Replica\<close>: its state, every handler and the functions they share. Each
  function returns an \<open>outcome\<close>, so that the state written before an error is kept; the net, the
  client net and the crypto worker are fields of the state. Log slots are indexed by operation
  number; the log is a list extended with empty entries.
\<close>

section \<open>State\<close>

record 'a log_entry =
  le_view_num :: u32
  le_pre_prepare :: "pre_prepare verifiable option"
  le_requests :: "'a request list"
  le_prepares :: "(u8 \<times> prepare verifiable) list"
  le_commits :: "(u8 \<times> commit verifiable) list"

definition log_entry_default :: "'a log_entry" where
  "log_entry_default =
     \<lparr>le_view_num = 0, le_pre_prepare = None, le_requests = [], le_prepares = [],
      le_commits = []\<rparr>"

record ('s, 'a) replica =
  r_id :: u8
  r_num_replica :: usize
  r_num_faulty :: usize
  r_replies :: "(u32, u32 \<times> reply option) hmap"
  r_requests :: "'a request list"
  r_view_num :: u32
  r_op_num :: u32
  r_log :: "'a log_entry list"
  r_prepare_quorums :: "(u32, (u8, prepare verifiable) hmap) hmap"
  r_commit_quorums :: "(u32, (u8, commit verifiable) hmap) hmap"
  r_commit_num :: u32
  r_app :: 's
  r_pending_prepares :: "(u32, prepare verifiable list) hmap"
  r_pending_commits :: "(u32, commit verifiable list) hmap"
  r_net :: "'a replica_net"
  r_client_net :: "'a client_net"
  r_worker :: "(crypto, 'a work, 'a crypto_event) worker"

definition replica_new ::
  "u8 \<Rightarrow> 's \<Rightarrow> 'a replica_net \<Rightarrow> 'a client_net \<Rightarrow>
   (crypto, 'a work, 'a crypto_event) worker \<Rightarrow> usize \<Rightarrow> usize \<Rightarrow> ('s, 'a) replica" where
  "replica_new i app net client_net crypto_worker num_replica num_faulty =
     \<lparr>r_id = i, r_num_replica = num_replica, r_num_faulty = num_faulty, r_replies = [],
      r_requests = [], r_view_num = 0, r_op_num = 0, r_log = [], r_prepare_quorums = [],
      r_commit_quorums = [], r_commit_num = 0, r_app = app, r_pending_prepares = [],
      r_pending_commits = [], r_net = net, r_client_net = client_net, r_worker = crypto_worker\<rparr>"

section \<open>Helpers\<close>

definition is_primary :: "('s, 'a) replica \<Rightarrow> error + bool" where
  "is_primary r =
     (if r_num_replica r = 0 then Inl (Panic ''remainder with a divisor of zero'')
      else Inr (unat (r_id r) mod r_num_replica r = unat (r_view_num r)))"

definition num_concurrent_pre_prepare :: u32 where
  "num_concurrent_pre_prepare = 1"

text \<open>\<open>log.get(op_num)\<close>, \<open>resize_with\<close> up to \<open>op_num\<close>, and an update of one slot.\<close>

definition log_get :: "('s, 'a) replica \<Rightarrow> u32 \<Rightarrow> 'a log_entry option" where
  "log_get r op_num =
     (if unat op_num < length (r_log r) then Some (r_log r ! unat op_num) else None)"

definition log_ensure :: "u32 \<Rightarrow> ('s, 'a) replica \<Rightarrow> ('s, 'a) replica" where
  "log_ensure op_num r =
     (if unat op_num < length (r_log r) then r
      else r\<lparr>r_log := r_log r @
                replicate (unat op_num + 1 - length (r_log r)) log_entry_default\<rparr>)"

definition log_set :: "u32 \<Rightarrow> 'a log_entry \<Rightarrow> ('s, 'a) replica \<Rightarrow> ('s, 'a) replica" where
  "log_set op_num e r = r\<lparr>r_log := (r_log r)[unat op_num := e]\<rparr>"

definition net_send ::
  "dest \<Rightarrow> 'a to_replica \<Rightarrow> ('s, 'a) replica \<Rightarrow> (unit, ('s, 'a) replica) outcome" where
  "net_send dest m r = lift_outcome (\<lambda>n. r\<lparr>r_net := n\<rparr>) (push_sink (dest, m) (r_net r))"

definition client_net_send ::
  "'a \<Rightarrow> reply \<Rightarrow> ('s, 'a) replica \<Rightarrow> (unit, ('s, 'a) replica) outcome" where
  "client_net_send addr m r =
     lift_outcome (\<lambda>n. r\<lparr>r_client_net := n\<rparr>) (push_sink (addr, m) (r_client_net r))"

definition submit_work ::
  "('s, 'a) env \<Rightarrow> 'a work \<Rightarrow> ('s, 'a) replica \<Rightarrow> (unit, ('s, 'a) replica) outcome" where
  "submit_work env w r =
     lift_outcome (\<lambda>k. r\<lparr>r_worker := k\<rparr>) (submit (run_work env) w (r_worker r))"

section \<open>Requests and batches\<close>

definition close_batch ::
  "('s, 'a) env \<Rightarrow> ('s, 'a) replica \<Rightarrow> (unit, ('s, 'a) replica) outcome" where
  "close_batch env r =
     (case is_primary r of
        Inl e \<Rightarrow> Err e r
      | Inr False \<Rightarrow> Err (Panic ''assertion failed: self.is_primary()'') r
      | Inr True \<Rightarrow>
          if r_requests r = [] then
            Err (Panic ''assertion failed: !self.requests.is_empty()'') r
          else
            let r1 = r\<lparr>r_op_num := r_op_num r + 1\<rparr>;
                n = min (length (r_requests r1)) 100;
                requests = take n (r_requests r1);
                r2 = r1\<lparr>r_requests := drop n (r_requests r1)\<rparr>
            in submit_work env (SignPrePrepare (r_view_num r2) (r_op_num r2) requests) r2)"

definition on_recv_request ::
  "('s, 'a) env \<Rightarrow> 'a request \<Rightarrow> ('s, 'a) replica \<Rightarrow> (unit, ('s, 'a) replica) outcome" where
  "on_recv_request env request r =
     (let fresh =
        (case is_primary r of
           Inl e \<Rightarrow> Err e r
         | Inr False \<Rightarrow> Err (Panic ''not yet implemented: forward request'') r
         | Inr True \<Rightarrow>
             let r1 = r\<lparr>r_replies := hm_insert (rq_client_id request) (rq_seq request, None)
                                      (r_replies r),
                        r_requests := r_requests r @ [request]\<rparr>
             in if r_op_num r1 < r_commit_num r1 + num_concurrent_pre_prepare
                then close_batch env r1 else Ok () r1)
      in case hm_get (r_replies r) (rq_client_id request) of
           None \<Rightarrow> fresh
         | Some (seq, reply) \<Rightarrow>
             if rq_seq request < seq then Ok () r
             else if seq = rq_seq request then
               (case reply of
                  Some reply \<Rightarrow> client_net_send (rq_client_addr request) reply r
                | None \<Rightarrow> Ok () r)
             else fresh)"

section \<open>Pre-prepare\<close>

definition on_signed_pre_prepare ::
  "pre_prepare verifiable \<Rightarrow> 'a request list \<Rightarrow> ('s, 'a) replica \<Rightarrow>
   (unit, ('s, 'a) replica) outcome" where
  "on_signed_pre_prepare pre_prepare requests r =
     (let op_num = pp_op_num (inner pre_prepare) in
      if pp_view_num (inner pre_prepare) \<noteq> r_view_num r then Ok () r
      else
        let r1 = log_ensure op_num r;
            entry = r_log r1 ! unat op_num;
            entry1 = entry\<lparr>le_pre_prepare := Some pre_prepare\<rparr>;
            r2 = log_set op_num entry1 r1
        in if le_pre_prepare entry \<noteq> None then
             Err (Panic ''assertion failed: replaced.is_none()'') r2
           else
             net_send AllReplica (PrePrepare pre_prepare requests)
               (log_set op_num
                  (entry1\<lparr>le_view_num := r_view_num r2, le_requests := requests\<rparr>) r2))"

definition on_recv_pre_prepare ::
  "('s, 'a) env \<Rightarrow> pre_prepare verifiable \<Rightarrow> 'a request list \<Rightarrow> ('s, 'a) replica \<Rightarrow>
   (unit, ('s, 'a) replica) outcome" where
  "on_recv_pre_prepare env pre_prepare requests r =
     (let view_num = pp_view_num (inner pre_prepare);
          op_num = pp_op_num (inner pre_prepare)
      in if view_num \<noteq> r_view_num r then
           if r_view_num r < view_num then
             Err (Panic ''not yet implemented: state transfer to enter view'') r
           else Ok () r
         else if (case log_get r op_num of
                    Some entry \<Rightarrow> le_pre_prepare entry \<noteq> None | None \<Rightarrow> False)
         then Ok () r
         else if r_num_replica r = 0 then Err (Panic ''remainder with a divisor of zero'') r
         else submit_work env
                (VerifyPrePrepare (unat view_num mod r_num_replica r) pre_prepare requests) r)"

definition on_verified_pre_prepare ::
  "('s, 'a) env \<Rightarrow> pre_prepare verifiable \<Rightarrow> 'a request list \<Rightarrow> ('s, 'a) replica \<Rightarrow>
   (unit, ('s, 'a) replica) outcome" where
  "on_verified_pre_prepare env pre_prepare requests r =
     (let op_num = pp_op_num (inner pre_prepare);
          digest = pp_digest (inner pre_prepare)
      in if pp_view_num (inner pre_prepare) \<noteq> r_view_num r then Ok () r
      else
        let r1 = log_ensure op_num r;
            entry = r_log r1 ! unat op_num
        in if le_pre_prepare entry \<noteq> None then Ok () r1
           else
             let r2 = log_set op_num
                        (entry\<lparr>le_pre_prepare := Some pre_prepare, le_view_num := r_view_num r1,
                               le_requests := requests\<rparr>) r1;
                 prepare = \<lparr>pr_view_num = r_view_num r2, pr_op_num = op_num, pr_digest = digest,
                            pr_replica_id = r_id r2\<rparr>
             in and_then (submit_work env (SignPrepare prepare) r2) (\<lambda>_ r3.
                  let r4 = (case hm_get (r_prepare_quorums r3) op_num of
                              None \<Rightarrow> r3
                            | Some quorum \<Rightarrow>
                                r3\<lparr>r_prepare_quorums :=
                                     hm_insert op_num
                                       (hm_retain (\<lambda>_ prepare. pr_digest (inner prepare) = digest)
                                          quorum)
                                       (r_prepare_quorums r3)\<rparr>);
                      r5 = (case hm_get (r_commit_quorums r4) op_num of
                              None \<Rightarrow> r4
                            | Some quorum \<Rightarrow>
                                r4\<lparr>r_commit_quorums :=
                                     hm_insert op_num
                                       (hm_retain (\<lambda>_ commit. cm_digest (inner commit) = digest)
                                          quorum)
                                       (r_commit_quorums r4)\<rparr>)
                  in Ok () r5))"

section \<open>Prepare\<close>

definition insert_prepare ::
  "('s, 'a) env \<Rightarrow> prepare verifiable \<Rightarrow> ('s, 'a) replica \<Rightarrow>
   (unit, ('s, 'a) replica) outcome" where
  "insert_prepare env prepare r =
     (let op_num = pr_op_num (inner prepare);
          quorum = hm_insert (pr_replica_id (inner prepare)) prepare
                     (case hm_get (r_prepare_quorums r) op_num of None \<Rightarrow> [] | Some q \<Rightarrow> q);
          r1 = r\<lparr>r_prepare_quorums := hm_insert op_num quorum (r_prepare_quorums r)\<rparr>
      in if length quorum + 1 < sub_usize (r_num_replica r1) (r_num_faulty r1) then Ok () r1
         else case log_get r1 op_num of
             None \<Rightarrow> Ok () r1
           | Some entry \<Rightarrow>
               if le_prepares entry \<noteq> [] then
                 Err (Panic ''assertion failed: entry.prepares.is_empty()'') r1
               else
                 let r2 = log_set op_num (entry\<lparr>le_prepares := quorum\<rparr>)
                            (r1\<lparr>r_prepare_quorums := hm_remove op_num (r_prepare_quorums r1)\<rparr>);
                     commit = \<lparr>cm_view_num = r_view_num r2, cm_op_num = op_num,
                               cm_digest = pr_digest (inner prepare), cm_replica_id = r_id r2\<rparr>
                 in submit_work env (SignCommit commit) r2)"

definition on_signed_prepare ::
  "('s, 'a) env \<Rightarrow> prepare verifiable \<Rightarrow> ('s, 'a) replica \<Rightarrow>
   (unit, ('s, 'a) replica) outcome" where
  "on_signed_prepare env prepare r =
     (if pr_view_num (inner prepare) \<noteq> r_view_num r then Ok () r
      else and_then (net_send AllReplica (Prepare prepare) r) (\<lambda>_ r1.
        case log_get r1 (pr_op_num (inner prepare)) of
          None \<Rightarrow> Err (Panic ''index out of bounds'') r1
        | Some entry \<Rightarrow>
            if le_prepares entry = [] then insert_prepare env prepare r1 else Ok () r1))"

definition submit_prepare ::
  "('s, 'a) env \<Rightarrow> prepare verifiable \<Rightarrow> ('s, 'a) replica \<Rightarrow>
   (bool, ('s, 'a) replica) outcome" where
  "submit_prepare env prepare r =
     (let view_num = pr_view_num (inner prepare) in
      if view_num \<noteq> r_view_num r then
        if r_view_num r < view_num then
          Err (Panic ''not yet implemented: state transfer to enter view'') r
        else Ok False r
      else if (case log_get r (pr_op_num (inner prepare)) of
                 None \<Rightarrow> False
               | Some entry \<Rightarrow>
                   le_prepares entry \<noteq> [] \<or>
                   (case le_pre_prepare entry of
                      None \<Rightarrow> False
                    | Some pre_prepare \<Rightarrow>
                        pr_digest (inner prepare) \<noteq> pp_digest (inner pre_prepare)))
      then Ok False r
      else and_then (submit_work env (VerifyPrepare prepare) r) (\<lambda>_ r1. Ok True r1))"

definition on_recv_prepare ::
  "('s, 'a) env \<Rightarrow> prepare verifiable \<Rightarrow> ('s, 'a) replica \<Rightarrow>
   (unit, ('s, 'a) replica) outcome" where
  "on_recv_prepare env prepare r =
     (let op_num = pr_op_num (inner prepare) in
      case hm_get (r_pending_prepares r) op_num of
        Some pending \<Rightarrow>
          Ok () (r\<lparr>r_pending_prepares :=
                     hm_insert op_num (pending @ [prepare]) (r_pending_prepares r)\<rparr>)
      | None \<Rightarrow>
          and_then (submit_prepare env prepare r) (\<lambda>submitted r1.
            if submitted then
              Ok () (r1\<lparr>r_pending_prepares := hm_insert op_num [] (r_pending_prepares r1)\<rparr>)
            else Ok () r1))"

text \<open>
  The loop after an inserted prepare: the pending prepares of the operation are submitted from the
  back until one is really submitted, and the pending entry is removed once it is empty.
\<close>

fun submit_pending_prepares ::
  "('s, 'a) env \<Rightarrow> u32 \<Rightarrow> prepare verifiable list \<Rightarrow> ('s, 'a) replica \<Rightarrow>
   (unit, ('s, 'a) replica) outcome" where
  "submit_pending_prepares env op_num rev_pending r =
     (case rev_pending of
        [] \<Rightarrow> Ok () (r\<lparr>r_pending_prepares := hm_remove op_num (r_pending_prepares r)\<rparr>)
      | prepare # rest \<Rightarrow>
          (case submit_prepare env prepare
                  (r\<lparr>r_pending_prepares := hm_insert op_num (rev rest) (r_pending_prepares r)\<rparr>) of
             Err e r1 \<Rightarrow> Err e r1
           | Ok True r1 \<Rightarrow> Ok () r1
           | Ok False r1 \<Rightarrow> submit_pending_prepares env op_num rest r1))"

declare submit_pending_prepares.simps [simp del]

definition on_verified_prepare ::
  "('s, 'a) env \<Rightarrow> prepare verifiable \<Rightarrow> ('s, 'a) replica \<Rightarrow>
   (unit, ('s, 'a) replica) outcome" where
  "on_verified_prepare env prepare r =
     (if pr_view_num (inner prepare) \<noteq> r_view_num r then Ok () r
      else
        let op_num = pr_op_num (inner prepare) in
        and_then (insert_prepare env prepare r) (\<lambda>_ r1.
          case hm_get (r_pending_prepares r1) op_num of
            None \<Rightarrow> Ok () r1
          | Some pending \<Rightarrow> submit_pending_prepares env op_num (rev pending) r1))"

section \<open>Execution\<close>

definition execute_request ::
  "('s, 'a) env \<Rightarrow> 'a request \<Rightarrow> ('s, 'a) replica \<Rightarrow> (unit, ('s, 'a) replica) outcome" where
  "execute_request env request r =
     and_then (lift_outcome (\<lambda>a. r\<lparr>r_app := a\<rparr>) (env_execute env (rq_op request) (r_app r)))
       (\<lambda>result r1.
          let seq = rq_seq request;
              reply = \<lparr>rp_seq = seq, rp_result = result, rp_view_num = r_view_num r1,
                       rp_replica_id = r_id r1\<rparr>;
              cache = (case hm_get (r_replies r1) (rq_client_id request) of
                         None \<Rightarrow> True | Some (seq, _) \<Rightarrow> seq \<le> rq_seq request);
              r2 = (if cache then
                      r1\<lparr>r_replies := hm_insert (rq_client_id request) (rq_seq request, Some reply)
                                        (r_replies r1)\<rparr>
                    else r1)
          in client_net_send (rq_client_addr request) reply r2)"

fun execute_requests ::
  "('s, 'a) env \<Rightarrow> 'a request list \<Rightarrow> ('s, 'a) replica \<Rightarrow> (unit, ('s, 'a) replica) outcome" where
  "execute_requests env [] r = Ok () r"
| "execute_requests env (q # qs) r =
     and_then (execute_request env q r) (\<lambda>_ r1. execute_requests env qs r1)"

text \<open>
  The \<open>while let\<close> loop over the log from slot \<open>commit_num + 1\<close>: execution does not touch the log, so
  the loop walks \<open>drop (commit_num + 1) log\<close>. (Slots are numbered by \<open>u32\<close>, so the log never holds
  more than \<open>2 ^ 32\<close> of them and \<open>commit_num\<close> does not wrap before the log ends.)
\<close>

fun execute_committed ::
  "('s, 'a) env \<Rightarrow> 'a log_entry list \<Rightarrow> ('s, 'a) replica \<Rightarrow>
   (unit, ('s, 'a) replica) outcome" where
  "execute_committed env [] r = Ok () r"
| "execute_committed env (entry # entries) r =
     (if le_commits entry = [] then Ok () r
      else and_then
             (execute_requests env (le_requests entry) (r\<lparr>r_commit_num := r_commit_num r + 1\<rparr>))
             (\<lambda>_ r1. execute_committed env entries r1))"

definition may_close_batch :: "('s, 'a) replica \<Rightarrow> bool" where
  "may_close_batch r \<longleftrightarrow>
     r_requests r \<noteq> [] \<and> r_op_num r \<le> r_commit_num r + num_concurrent_pre_prepare"

lemma close_batch_Ok_requests:
  assumes "close_batch env r = Ok () r'"
  shows "r_requests r' = drop (min (length (r_requests r)) 100) (r_requests r) \<and> r_requests r \<noteq> []"
  using assms
  by (auto simp: close_batch_def submit_work_def Let_def lift_outcome_Ok_iff
      split: sum.splits bool.splits if_splits)

function close_batches ::
  "('s, 'a) env \<Rightarrow> ('s, 'a) replica \<Rightarrow> (unit, ('s, 'a) replica) outcome" where
  "close_batches env r =
     (case is_primary r of
        Inl e \<Rightarrow> Err e r
      | Inr p \<Rightarrow>
          if p \<and> may_close_batch r then
            (case close_batch env r of
               Err e r1 \<Rightarrow> Err e r1
             | Ok _ r1 \<Rightarrow> close_batches env r1)
          else Ok () r)"
  by pat_completeness auto
termination
  by (relation "measure (\<lambda>(env, r). length (r_requests r))")
    (auto dest!: close_batch_Ok_requests simp: min_def)

declare close_batches.simps [simp del]

section \<open>Commit\<close>

definition insert_commit ::
  "('s, 'a) env \<Rightarrow> commit verifiable \<Rightarrow> ('s, 'a) replica \<Rightarrow>
   (unit, ('s, 'a) replica) outcome" where
  "insert_commit env commit r =
     (let op_num = cm_op_num (inner commit);
          quorum = hm_insert (cm_replica_id (inner commit)) commit
                     (case hm_get (r_commit_quorums r) op_num of None \<Rightarrow> [] | Some q \<Rightarrow> q);
          r1 = r\<lparr>r_commit_quorums := hm_insert op_num quorum (r_commit_quorums r)\<rparr>
      in if length quorum < sub_usize (r_num_replica r1) (r_num_faulty r1) then Ok () r1
         else case log_get r1 op_num of
             None \<Rightarrow> Ok () r1
           | Some entry \<Rightarrow>
               if le_commits entry \<noteq> [] then
                 Err (Panic ''assertion failed: entry.commits.is_empty()'') r1
               else if le_prepares entry = [] then Ok () r1
               else
                 let r2 = log_set op_num (entry\<lparr>le_commits := quorum\<rparr>)
                            (r1\<lparr>r_commit_quorums := hm_remove op_num (r_commit_quorums r1)\<rparr>)
                 in and_then
                      (execute_committed env (drop (unat (r_commit_num r2) + 1) (r_log r2)) r2)
                      (\<lambda>_ r3. close_batches env r3))"

definition on_signed_commit ::
  "('s, 'a) env \<Rightarrow> commit verifiable \<Rightarrow> ('s, 'a) replica \<Rightarrow>
   (unit, ('s, 'a) replica) outcome" where
  "on_signed_commit env commit r =
     (if cm_view_num (inner commit) \<noteq> r_view_num r then Ok () r
      else and_then (net_send AllReplica (Commit commit) r) (\<lambda>_ r1.
        case log_get r1 (cm_op_num (inner commit)) of
          None \<Rightarrow> Err (Panic ''index out of bounds'') r1
        | Some entry \<Rightarrow>
            if le_commits entry = [] then insert_commit env commit r1 else Ok () r1))"

definition submit_commit ::
  "('s, 'a) env \<Rightarrow> commit verifiable \<Rightarrow> ('s, 'a) replica \<Rightarrow>
   (bool, ('s, 'a) replica) outcome" where
  "submit_commit env commit r =
     (let view_num = cm_view_num (inner commit) in
      if view_num \<noteq> r_view_num r then
        if r_view_num r < view_num then
          Err (Panic ''not yet implemented: state transfer to enter view'') r
        else Ok False r
      else if (case log_get r (cm_op_num (inner commit)) of
                 None \<Rightarrow> False
               | Some entry \<Rightarrow>
                   le_commits entry \<noteq> [] \<or>
                   (case le_pre_prepare entry of
                      None \<Rightarrow> False
                    | Some pre_prepare \<Rightarrow>
                        cm_digest (inner commit) \<noteq> pp_digest (inner pre_prepare)))
      then Ok False r
      else and_then (submit_work env (VerifyCommit commit) r) (\<lambda>_ r1. Ok True r1))"

definition on_recv_commit ::
  "('s, 'a) env \<Rightarrow> commit verifiable \<Rightarrow> ('s, 'a) replica \<Rightarrow>
   (unit, ('s, 'a) replica) outcome" where
  "on_recv_commit env commit r =
     (let op_num = cm_op_num (inner commit) in
      case hm_get (r_pending_commits r) op_num of
        Some pending \<Rightarrow>
          Ok () (r\<lparr>r_pending_commits :=
                     hm_insert op_num (pending @ [commit]) (r_pending_commits r)\<rparr>)
      | None \<Rightarrow>
          and_then (submit_commit env commit r) (\<lambda>submitted r1.
            if submitted then
              Ok () (r1\<lparr>r_pending_commits := hm_insert op_num [] (r_pending_commits r1)\<rparr>)
            else Ok () r1))"

fun submit_pending_commits ::
  "('s, 'a) env \<Rightarrow> u32 \<Rightarrow> commit verifiable list \<Rightarrow> ('s, 'a) replica \<Rightarrow>
   (unit, ('s, 'a) replica) outcome" where
  "submit_pending_commits env op_num rev_pending r =
     (case rev_pending of
        [] \<Rightarrow> Ok () (r\<lparr>r_pending_commits := hm_remove op_num (r_pending_commits r)\<rparr>)
      | commit # rest \<Rightarrow>
          (case submit_commit env commit
                  (r\<lparr>r_pending_commits := hm_insert op_num (rev rest) (r_pending_commits r)\<rparr>) of
             Err e r1 \<Rightarrow> Err e r1
           | Ok True r1 \<Rightarrow> Ok () r1
           | Ok False r1 \<Rightarrow> submit_pending_commits env op_num rest r1))"

declare submit_pending_commits.simps [simp del]

definition on_verified_commit ::
  "('s, 'a) env \<Rightarrow> commit verifiable \<Rightarrow> ('s, 'a) replica \<Rightarrow>
   (unit, ('s, 'a) replica) outcome" where
  "on_verified_commit env commit r =
     (if cm_view_num (inner commit) \<noteq> r_view_num r then Ok () r
      else
        let op_num = cm_op_num (inner commit) in
        and_then (insert_commit env commit r) (\<lambda>_ r1.
          case hm_get (r_pending_commits r1) op_num of
            None \<Rightarrow> Ok () r1
          | Some pending \<Rightarrow> submit_pending_commits env op_num (rev pending) r1))"

section \<open>All events\<close>

datatype 'a replica_event = Net "'a recv_event" | Crypto "'a crypto_event"

fun replica_on_event ::
  "('s, 'a) env \<Rightarrow> 'a replica_event \<Rightarrow> ('s, 'a) replica \<Rightarrow>
   (unit, ('s, 'a) replica) outcome" where
  "replica_on_event env (Net (RecvRequest m)) r = on_recv_request env m r"
| "replica_on_event env (Net (RecvPrePrepare m requests)) r = on_recv_pre_prepare env m requests r"
| "replica_on_event env (Net (RecvPrepare m)) r = on_recv_prepare env m r"
| "replica_on_event env (Net (RecvCommit m)) r = on_recv_commit env m r"
| "replica_on_event env (Crypto (SignedPrePrepare m requests)) r =
     on_signed_pre_prepare m requests r"
| "replica_on_event env (Crypto (VerifiedPrePrepare m requests)) r =
     on_verified_pre_prepare env m requests r"
| "replica_on_event env (Crypto (SignedPrepare m)) r = on_signed_prepare env m r"
| "replica_on_event env (Crypto (VerifiedPrepare m)) r = on_verified_prepare env m r"
| "replica_on_event env (Crypto (SignedCommit m)) r = on_signed_commit env m r"
| "replica_on_event env (Crypto (VerifiedCommit m)) r = on_verified_commit env m r"

fun replica_run ::
  "('s, 'a) env \<Rightarrow> 'a replica_event list \<Rightarrow> ('s, 'a) replica \<Rightarrow>
   (unit, ('s, 'a) replica) outcome" where
  "replica_run env [] r = Ok () r"
| "replica_run env (e # es) r =
     and_then (replica_on_event env e r) (\<lambda>_ r1. replica_run env es r1)"

end
