(* ===== verification/Pbft_Steps.thy ===== *)
theory Pbft_Steps
  imports Pbft_Replica
begin

text \<open>
  A step relation the handlers of the replica refine. \<open>effect env c r r'\<close> has one rule per way a
  handler changes the state: a message leaves, a verification is submitted, a batch is closed, a
  pre-prepare takes its slot, a quorum grows or is filtered, a certificate is placed, a committed
  slot is executed. The flag \<open>c\<close> tells whether the last two, which belong to the handlers of
  commits, may occur.

  \<open>replica_on_event_effects\<close>: every handled event that does not end in an error is a sequence of
  these steps. Invariants of the replica are then proved once per rule, by rule induction.
\<close>

section \<open>The relation\<close>

fun is_verify :: "'a work \<Rightarrow> bool" where
  "is_verify (VerifyPrePrepare _ _ _) = True"
| "is_verify (VerifyPrepare _) = True"
| "is_verify (VerifyCommit _) = True"
| "is_verify _ = False"

definition fresh_request :: "('s, 'a) replica \<Rightarrow> 'a request \<Rightarrow> bool" where
  "fresh_request r q \<longleftrightarrow>
     (case hm_get (r_replies r) (rq_client_id q) of None \<Rightarrow> True | Some (seq, _) \<Rightarrow> seq < rq_seq q)"

inductive effect ::
  "('s, 'a) env \<Rightarrow> bool \<Rightarrow> ('s, 'a) replica \<Rightarrow> ('s, 'a) replica \<Rightarrow> bool" for env c where
  eff_net: "effect env c r (r\<lparr>r_net := n\<rparr>)"
| eff_client_net: "effect env c r (r\<lparr>r_client_net := m\<rparr>)"
| eff_pending_prepares: "effect env c r (r\<lparr>r_pending_prepares := pp\<rparr>)"
| eff_pending_commits: "effect env c r (r\<lparr>r_pending_commits := pc\<rparr>)"
| eff_verify: "\<lbrakk>is_verify w; submit_work env w r = Ok () r'\<rbrakk> \<Longrightarrow> effect env c r r'"
| eff_request: "\<lbrakk>is_primary r = Inr True; fresh_request r q\<rbrakk> \<Longrightarrow>
    effect env c r
      (r\<lparr>r_replies := hm_insert (rq_client_id q) (rq_seq q, None) (r_replies r),
         r_requests := r_requests r @ [q]\<rparr>)"
| eff_batch: "\<lbrakk>r_op_num r \<le> r_commit_num r + num_concurrent_pre_prepare;
    close_batch env r = Ok () r'\<rbrakk> \<Longrightarrow> effect env c r r'"
| eff_propose: "\<lbrakk>pp_view_num (inner m) = r_view_num r; op = pp_op_num (inner m);
    r1 = log_ensure op r; entry = r_log r1 ! unat op; le_pre_prepare entry = None;
    r' = log_set op (entry\<lparr>le_pre_prepare := Some m, le_view_num := r_view_num r,
                           le_requests := qs\<rparr>) r1\<rbrakk> \<Longrightarrow>
    effect env c r r'"
| eff_accept: "\<lbrakk>pp_view_num (inner m) = r_view_num r; op = pp_op_num (inner m);
    r1 = log_ensure op r; entry = r_log r1 ! unat op; le_pre_prepare entry = None;
    r2 = log_set op (entry\<lparr>le_pre_prepare := Some m, le_view_num := r_view_num r,
                           le_requests := qs\<rparr>) r1;
    submit_work env (SignPrepare \<lparr>pr_view_num = r_view_num r, pr_op_num = op,
      pr_digest = pp_digest (inner m), pr_replica_id = r_id r\<rparr>) r2 = Ok () r'\<rbrakk> \<Longrightarrow>
    effect env c r r'"
| eff_retain_prepares: "hm_get (r_prepare_quorums r) op = Some quorum \<Longrightarrow>
    effect env c r
      (r\<lparr>r_prepare_quorums := hm_insert op
           (hm_retain (\<lambda>_ p. pr_digest (inner p) = d) quorum) (r_prepare_quorums r)\<rparr>)"
| eff_retain_commits: "hm_get (r_commit_quorums r) op = Some cquorum \<Longrightarrow>
    effect env c r
      (r\<lparr>r_commit_quorums := hm_insert op
           (hm_retain (\<lambda>_ p. cm_digest (inner p) = d) cquorum) (r_commit_quorums r)\<rparr>)"
| eff_add_prepare: "\<lbrakk>pr_view_num (inner p) = r_view_num r; op = pr_op_num (inner p);
    quorum = (case hm_get (r_prepare_quorums r) op of None \<Rightarrow> [] | Some q \<Rightarrow> q)\<rbrakk> \<Longrightarrow>
    effect env c r
      (r\<lparr>r_prepare_quorums := hm_insert op (hm_insert (pr_replica_id (inner p)) p quorum)
           (r_prepare_quorums r)\<rparr>)"
| eff_prepared: "\<lbrakk>hm_get (r_prepare_quorums r) op = Some quorum;
    sub_usize (r_num_replica r) (r_num_faulty r) \<le> length quorum + 1;
    log_get r op = Some entry; le_prepares entry = []; p \<in> snd ` set quorum;
    submit_work env
      (SignCommit \<lparr>cm_view_num = r_view_num r, cm_op_num = op, cm_digest = pr_digest (inner p),
                   cm_replica_id = r_id r\<rparr>)
      (log_set op (entry\<lparr>le_prepares := quorum\<rparr>)
         (r\<lparr>r_prepare_quorums := hm_remove op (r_prepare_quorums r)\<rparr>)) = Ok () r'\<rbrakk> \<Longrightarrow>
    effect env c r r'"
| eff_add_commit: "\<lbrakk>cm_view_num (inner m) = r_view_num r; op = cm_op_num (inner m);
    cquorum = (case hm_get (r_commit_quorums r) op of None \<Rightarrow> [] | Some q \<Rightarrow> q)\<rbrakk> \<Longrightarrow>
    effect env c r
      (r\<lparr>r_commit_quorums := hm_insert op (hm_insert (cm_replica_id (inner m)) m cquorum)
           (r_commit_quorums r)\<rparr>)"
| eff_committed: "\<lbrakk>c; hm_get (r_commit_quorums r) op = Some cquorum;
    sub_usize (r_num_replica r) (r_num_faulty r) \<le> length cquorum;
    log_get r op = Some entry; le_commits entry = []; le_prepares entry \<noteq> []\<rbrakk> \<Longrightarrow>
    effect env c r
      (log_set op (entry\<lparr>le_commits := cquorum\<rparr>)
         (r\<lparr>r_commit_quorums := hm_remove op (r_commit_quorums r)\<rparr>))"
| eff_execute: "\<lbrakk>c; unat (r_commit_num r) + 1 < length (r_log r);
    entry = r_log r ! (unat (r_commit_num r) + 1); le_commits entry \<noteq> [];
    execute_requests env (le_requests entry) (r\<lparr>r_commit_num := r_commit_num r + 1\<rparr>) = Ok () r'\<rbrakk>
    \<Longrightarrow> effect env c r r'"

abbreviation effects ::
  "('s, 'a) env \<Rightarrow> bool \<Rightarrow> ('s, 'a) replica \<Rightarrow> ('s, 'a) replica \<Rightarrow> bool" where
  "effects env c \<equiv> (effect env c)\<^sup>*\<^sup>*"

text \<open>The fields fixed when the replica is created, and its view.\<close>

definition config_of :: "('s, 'a) replica \<Rightarrow> u8 \<times> usize \<times> usize \<times> u32" where
  "config_of r = (r_id r, r_num_replica r, r_num_faulty r, r_view_num r)"

section \<open>The handlers are sequences of steps\<close>

lemmas eff1 = r_into_rtranclp [where r = "effect env c" for env c]

lemma unit_Ok: "(\<exists>a::unit. P a) \<longleftrightarrow> P ()"
  by (metis (full_types) old.unit.exhaust)

lemma net_send_Ok: "net_send dest m r = Ok u r' \<Longrightarrow> \<exists>n. r' = r\<lparr>r_net := n\<rparr>"
  by (auto simp: net_send_def lift_outcome_Ok_iff)

lemma client_net_send_Ok:
  "client_net_send addr m r = Ok u r' \<Longrightarrow> \<exists>n. r' = r\<lparr>r_client_net := n\<rparr>"
  by (auto simp: client_net_send_def lift_outcome_Ok_iff)

lemma submit_work_Ok: "submit_work env w r = Ok u r' \<Longrightarrow> \<exists>k. r' = r\<lparr>r_worker := k\<rparr>"
  by (auto simp: submit_work_def lift_outcome_Ok_iff)

lemma net_send_effects: "net_send dest m r = Ok () r' \<Longrightarrow> effects env c r r'"
  by (auto dest!: net_send_Ok intro!: eff1 eff_net)

lemma client_net_send_effects: "client_net_send addr m r = Ok () r' \<Longrightarrow> effects env c r r'"
  by (auto dest!: client_net_send_Ok intro!: eff1 eff_client_net)

lemma log_ensure_slot: "unat op < length (r_log (log_ensure op r))"
  by (auto simp: log_ensure_def)

lemma log_ensure_taken:
  assumes "le_pre_prepare (r_log (log_ensure op r) ! unat op) \<noteq> None"
  shows "log_ensure op r = r"
  using assms by (auto simp: log_ensure_def nth_append log_entry_default_def split: if_splits)

lemma close_batches_effects:
  "close_batches env r = Ok () r' \<Longrightarrow> effects env c r r'"
proof (induction env r rule: close_batches.induct)
  case (1 env r)
  show ?case
  proof (cases "\<exists>p. is_primary r = Inr p \<and> p \<and> may_close_batch r")
    case True
    then have p: "is_primary r = Inr True" "may_close_batch r" by auto
    with "1.prems" obtain r1 where r1: "close_batch env r = Ok () r1" "close_batches env r1 = Ok () r'"
      by (auto simp: close_batches.simps [of env r] split: outcome.splits)
    with "1.IH" [of True "()" r1] p have "effects env c r1 r'" by simp
    moreover have "effect env c r r1"
      using p(2) r1(1) by (intro eff_batch) (simp_all add: may_close_batch_def)
    ultimately show ?thesis by (rule converse_rtranclp_into_rtranclp [rotated])
  next
    case False
    with "1.prems" have "r' = r"
      by (auto simp: close_batches.simps [of env r] split: sum.splits if_splits)
    then show ?thesis by simp
  qed
qed

lemma on_recv_request_effects:
  assumes "on_recv_request env q r = Ok () r'"
  shows "effects env c r r'"
proof (cases "fresh_request r q")
  case False
  then obtain seq rp where s: "hm_get (r_replies r) (rq_client_id q) = Some (seq, rp)" "\<not> seq < rq_seq q"
    by (auto simp: fresh_request_def split: option.splits)
  show ?thesis
  proof (cases "rq_seq q < seq")
    case True
    with assms s have "r' = r" by (simp add: on_recv_request_def Let_def)
    then show ?thesis by simp
  next
    case False
    with s have "seq = rq_seq q" by simp
    with assms s show ?thesis
      by (auto simp: on_recv_request_def Let_def intro: client_net_send_effects split: option.splits)
  qed
next
  case True
  let ?r1 = "r\<lparr>r_replies := hm_insert (rq_client_id q) (rq_seq q, None) (r_replies r),
               r_requests := r_requests r @ [q]\<rparr>"
  have sel: "on_recv_request env q r =
      (case is_primary r of
         Inl e \<Rightarrow> Err e r
       | Inr False \<Rightarrow> Err (Panic ''not yet implemented: forward request'') r
       | Inr True \<Rightarrow> if r_op_num ?r1 < r_commit_num ?r1 + num_concurrent_pre_prepare
                    then close_batch env ?r1 else Ok () ?r1)"
    using True
    by (auto simp: on_recv_request_def fresh_request_def Let_def split: option.split sum.split
        bool.split)
  with assms have p: "is_primary r = Inr True"
    by (auto split: sum.splits bool.splits)
  have e: "effect env c r ?r1" by (rule eff_request [OF p True])
  show ?thesis
  proof (cases "r_op_num ?r1 < r_commit_num ?r1 + num_concurrent_pre_prepare")
    case True
    with sel p assms have "close_batch env ?r1 = Ok () r'" by simp
    with True have "effect env c ?r1 r'" by (intro eff_batch) simp_all
    with e show ?thesis by (meson converse_rtranclp_into_rtranclp r_into_rtranclp)
  next
    case False
    with sel p assms have "r' = ?r1" by simp
    with e show ?thesis by (simp add: eff1)
  qed
qed

lemma on_signed_pre_prepare_effects:
  assumes "on_signed_pre_prepare m qs r = Ok () r'"
  shows "effects env c r r'"
proof (cases "pp_view_num (inner m) = r_view_num r")
  case False
  with assms have "r' = r" by (simp add: on_signed_pre_prepare_def Let_def)
  then show ?thesis by simp
next
  case True
  define op where "op = pp_op_num (inner m)"
  define r1 where "r1 = log_ensure op r"
  define entry where "entry = r_log r1 ! unat op"
  define r2 where "r2 = log_set op (entry\<lparr>le_pre_prepare := Some m, le_view_num := r_view_num r,
      le_requests := qs\<rparr>) r1"
  have v: "r_view_num r1 = r_view_num r" by (simp add: r1_def log_ensure_def)
  from assms True v have n: "le_pre_prepare entry = None"
    "net_send AllReplica (PrePrepare m qs) r2 = Ok () r'"
    by (auto simp: on_signed_pre_prepare_def Let_def op_def r1_def entry_def r2_def log_set_def
        split: if_splits)
  have "effect env c r r2"
    by (rule eff_propose [OF True op_def r1_def entry_def n(1) r2_def])
  from this net_send_effects [OF n(2)] show ?thesis by (rule converse_rtranclp_into_rtranclp)
qed

lemma on_recv_pre_prepare_effects:
  assumes "on_recv_pre_prepare env m qs r = Ok () r'"
  shows "effects env c r r'"
  using assms
  by (auto simp: on_recv_pre_prepare_def Let_def intro!: eff1 eff_verify split: if_splits)

lemma on_verified_pre_prepare_effects:
  assumes "on_verified_pre_prepare env m qs r = Ok () r'"
  shows "effects env c r r'"
proof (cases "pp_view_num (inner m) = r_view_num r \<and>
    le_pre_prepare (r_log (log_ensure (pp_op_num (inner m)) r) ! unat (pp_op_num (inner m))) = None")
  case False
  have "r' = r"
  proof (cases "pp_view_num (inner m) = r_view_num r")
    case True
    with False have "le_pre_prepare (r_log (log_ensure (pp_op_num (inner m)) r) !
        unat (pp_op_num (inner m))) \<noteq> None" by simp
    with assms True log_ensure_taken [OF this] show ?thesis
      by (simp add: on_verified_pre_prepare_def Let_def)
  next
    case False
    with assms show ?thesis by (simp add: on_verified_pre_prepare_def Let_def)
  qed
  then show ?thesis by simp
next
  case True
  define op where "op = pp_op_num (inner m)"
  define r1 where "r1 = log_ensure op r"
  define entry where "entry = r_log r1 ! unat op"
  define r2 where "r2 = log_set op (entry\<lparr>le_pre_prepare := Some m, le_view_num := r_view_num r,
      le_requests := qs\<rparr>) r1"
  define d where "d = pp_digest (inner m)"
  have v: "r_view_num r1 = r_view_num r" "r_view_num r2 = r_view_num r" "r_id r2 = r_id r"
    by (simp_all add: r1_def r2_def log_ensure_def log_set_def)
  from True have n: "le_pre_prepare entry = None" by (simp add: entry_def r1_def op_def)
  with assms True v obtain r3 where r3:
    "submit_work env (SignPrepare \<lparr>pr_view_num = r_view_num r, pr_op_num = op,
       pr_digest = pp_digest (inner m), pr_replica_id = r_id r\<rparr>) r2 = Ok () r3"
    "r' = (let r4 = (case hm_get (r_prepare_quorums r3) op of
                      None \<Rightarrow> r3
                    | Some quorum \<Rightarrow>
                        r3\<lparr>r_prepare_quorums := hm_insert op
                             (hm_retain (\<lambda>_ p. pr_digest (inner p) = d) quorum)
                             (r_prepare_quorums r3)\<rparr>)
           in case hm_get (r_commit_quorums r4) op of
                None \<Rightarrow> r4
              | Some quorum \<Rightarrow>
                  r4\<lparr>r_commit_quorums := hm_insert op
                       (hm_retain (\<lambda>_ p. cm_digest (inner p) = d) quorum)
                       (r_commit_quorums r4)\<rparr>)"
    by (auto simp: on_verified_pre_prepare_def Let_def op_def [symmetric] r1_def [symmetric]
        entry_def [symmetric] r2_def [symmetric] d_def [symmetric] and_then_Ok_iff)
  have "effect env c r r3"
    using True by (intro eff_accept [OF _ op_def r1_def entry_def n r2_def r3(1)]) simp
  moreover have "effects env c r3 r'"
  proof -
    define r4 where "r4 = (case hm_get (r_prepare_quorums r3) op of
        None \<Rightarrow> r3
      | Some quorum \<Rightarrow>
          r3\<lparr>r_prepare_quorums := hm_insert op
               (hm_retain (\<lambda>_ p. pr_digest (inner p) = d) quorum) (r_prepare_quorums r3)\<rparr>)"
    have "effects env c r3 r4"
      by (auto simp: r4_def intro: eff1 eff_retain_prepares split: option.split)
    moreover have "effects env c r4 r'"
      unfolding r3(2) r4_def [symmetric] Let_def
      by (auto intro: eff1 eff_retain_commits split: option.split)
    ultimately show ?thesis by (rule rtranclp_trans)
  qed
  ultimately show ?thesis by (rule converse_rtranclp_into_rtranclp)
qed

lemma insert_prepare_effects:
  assumes "insert_prepare env p r = Ok () r'" and "pr_view_num (inner p) = r_view_num r"
  shows "effects env c r r'"
proof -
  define op where "op = pr_op_num (inner p)"
  define q where "q = (case hm_get (r_prepare_quorums r) op of None \<Rightarrow> [] | Some q \<Rightarrow> q)"
  define quorum where "quorum = hm_insert (pr_replica_id (inner p)) p q"
  define r1 where "r1 = r\<lparr>r_prepare_quorums := hm_insert op quorum (r_prepare_quorums r)\<rparr>"
  have e: "effect env c r r1"
    unfolding r1_def quorum_def by (rule eff_add_prepare [OF assms(2) op_def q_def])
  have keep: "r_num_replica r1 = r_num_replica r" "r_num_faulty r1 = r_num_faulty r"
    "r_view_num r1 = r_view_num r" "r_id r1 = r_id r"
    by (simp_all add: r1_def)
  note ip = assms(1) [unfolded insert_prepare_def Let_def op_def [symmetric] q_def [symmetric]
      quorum_def [symmetric] r1_def [symmetric]]
  show ?thesis
  proof (cases "length quorum + 1 < sub_usize (r_num_replica r1) (r_num_faulty r1) \<or>
      log_get r1 op = None")
    case True
    with ip have "r' = r1" by (auto split: if_splits)
    with e show ?thesis by (simp add: eff1)
  next
    case False
    then obtain entry where entry: "log_get r1 op = Some entry" by auto
    let ?r2 = "log_set op (entry\<lparr>le_prepares := quorum\<rparr>)
        (r1\<lparr>r_prepare_quorums := hm_remove op (r_prepare_quorums r1)\<rparr>)"
    have r2: "r_view_num ?r2 = r_view_num r1" "r_id ?r2 = r_id r1" by (simp_all add: log_set_def)
    from ip False entry r2 have sub: "le_prepares entry = []"
      "submit_work env
        (SignCommit \<lparr>cm_view_num = r_view_num r1, cm_op_num = op, cm_digest = pr_digest (inner p),
                     cm_replica_id = r_id r1\<rparr>) ?r2 = Ok () r'"
      by (auto split: if_splits)
    have "hm_get quorum (pr_replica_id (inner p)) = Some p" by (simp add: quorum_def)
    then have "p \<in> snd ` set quorum" by (force dest: map_of_SomeD)
    then have "effect env c r1 r'"
      using False entry sub by (intro eff_prepared [where op = op and quorum = quorum]) (auto simp: r1_def)
    with e show ?thesis by (meson converse_rtranclp_into_rtranclp r_into_rtranclp)
  qed
qed

lemma on_signed_prepare_effects:
  assumes "on_signed_prepare env p r = Ok () r'"
  shows "effects env c r r'"
proof (cases "pr_view_num (inner p) = r_view_num r")
  case False
  with assms have "r' = r" by (simp add: on_signed_prepare_def)
  then show ?thesis by simp
next
  case True
  with assms obtain r1 where r1: "net_send AllReplica (Prepare p) r = Ok () r1"
    "insert_prepare env p r1 = Ok () r' \<or> r' = r1"
    by (cases "net_send AllReplica (Prepare p) r")
      (auto simp: on_signed_prepare_def split: option.splits if_splits)
  with net_send_Ok [OF r1(1)] True have "pr_view_num (inner p) = r_view_num r1" by auto
  with r1(2) have "effects env c r1 r'" by (auto intro: insert_prepare_effects)
  with net_send_effects [OF r1(1)] show ?thesis by (rule rtranclp_trans)
qed

lemma submit_prepare_effects:
  assumes "submit_prepare env p r = Ok b r'"
  shows "effects env c r r'"
  using assms
  by (auto simp: submit_prepare_def Let_def and_then_Ok_iff intro!: eff1 eff_verify
      split: if_splits)

lemma on_recv_prepare_effects:
  assumes "on_recv_prepare env p r = Ok () r'"
  shows "effects env c r r'"
proof (cases "hm_get (r_pending_prepares r) (pr_op_num (inner p))")
  case (Some pending)
  with assms show ?thesis
    by (auto simp: on_recv_prepare_def Let_def intro!: eff1 eff_pending_prepares)
next
  case None
  with assms obtain b r1 where r1: "submit_prepare env p r = Ok b r1"
    "r' = r1 \<or> (\<exists>pp. r' = r1\<lparr>r_pending_prepares := pp\<rparr>)"
    by (cases "submit_prepare env p r") (auto simp: on_recv_prepare_def Let_def split: if_splits)
  have "effects env c r1 r'" using r1(2) by (auto intro: eff1 eff_pending_prepares)
  with submit_prepare_effects [OF r1(1)] show ?thesis by (rule rtranclp_trans)
qed

lemma submit_pending_prepares_effects:
  "submit_pending_prepares env op ps r = Ok () r' \<Longrightarrow> effects env c r r'"
proof (induction ps arbitrary: r)
  case Nil
  then show ?case
    by (auto simp: submit_pending_prepares.simps intro!: eff1 eff_pending_prepares)
next
  case (Cons p ps)
  let ?r = "r\<lparr>r_pending_prepares := hm_insert op (rev ps) (r_pending_prepares r)\<rparr>"
  from Cons.prems obtain b r1 where r1: "submit_prepare env p ?r = Ok b r1"
    "if b then r' = r1 else submit_pending_prepares env op ps r1 = Ok () r'"
    by (auto simp: submit_pending_prepares.simps [of env op "p # ps"]
        split: outcome.splits bool.splits)
  have "effects env c r1 r'" using r1(2) Cons.IH by (cases b) auto
  with submit_prepare_effects [OF r1(1)] have "effects env c ?r r'" by (rule rtranclp_trans)
  with eff_pending_prepares show ?case by (rule converse_rtranclp_into_rtranclp)
qed

lemma on_verified_prepare_effects:
  assumes "on_verified_prepare env p r = Ok () r'"
  shows "effects env c r r'"
proof (cases "pr_view_num (inner p) = r_view_num r")
  case False
  with assms have "r' = r" by (simp add: on_verified_prepare_def)
  then show ?thesis by simp
next
  case True
  with assms obtain r1 where r1: "insert_prepare env p r = Ok () r1"
    "case hm_get (r_pending_prepares r1) (pr_op_num (inner p)) of None \<Rightarrow> r' = r1
     | Some pending \<Rightarrow>
         submit_pending_prepares env (pr_op_num (inner p)) (rev pending) r1 = Ok () r'"
    by (auto simp: on_verified_prepare_def Let_def and_then_Ok_iff split: option.splits)
  have "effects env c r1 r'"
    using r1(2) by (auto intro: submit_pending_prepares_effects split: option.splits)
  with insert_prepare_effects [OF r1(1) True] show ?thesis by (rule rtranclp_trans)
qed

lemma execute_request_Ok:
  assumes "execute_request env q r = Ok () r'"
  shows "\<exists>app replies client_net. r' = r\<lparr>r_app := app, r_replies := replies, r_client_net := client_net\<rparr>"
proof -
  from assms obtain app result r2 where
    "r2 = r\<lparr>r_app := app\<rparr> \<or> (\<exists>replies. r2 = r\<lparr>r_app := app, r_replies := replies\<rparr>)"
    "client_net_send (rq_client_addr q) result r2 = Ok () r'"
    by (auto simp: execute_request_def and_then_Ok_iff lift_outcome_Ok_iff Let_def split: if_splits)
  with client_net_send_Ok [OF this(2)] obtain n where "r' = r2\<lparr>r_client_net := n\<rparr>"
    "r2 = r\<lparr>r_app := app, r_replies := r_replies r\<rparr> \<or> (\<exists>replies. r2 = r\<lparr>r_app := app, r_replies := replies\<rparr>)"
    by auto
  then show ?thesis by blast
qed

lemma execute_requests_Ok:
  "execute_requests env qs r = Ok () r' \<Longrightarrow>
     \<exists>app replies client_net. r' = r\<lparr>r_app := app, r_replies := replies, r_client_net := client_net\<rparr>"
proof (induction qs arbitrary: r)
  case Nil
  then show ?case
    by (intro exI [of _ "r_app r"] exI [of _ "r_replies r"] exI [of _ "r_client_net r"]) simp
next
  case (Cons q qs)
  then obtain r1 where r1: "execute_request env q r = Ok () r1" "execute_requests env qs r1 = Ok () r'"
    by (auto simp: and_then_Ok_iff)
  from execute_request_Ok [OF r1(1)] Cons.IH [OF r1(2)] obtain a1 p1 n1 a p n where
    "r1 = r\<lparr>r_app := a1, r_replies := p1, r_client_net := n1\<rparr>"
    "r' = r1\<lparr>r_app := a, r_replies := p, r_client_net := n\<rparr>"
    by blast
  then have "r' = r\<lparr>r_app := a, r_replies := p, r_client_net := n\<rparr>" by simp
  then show ?case by blast
qed

text \<open>
  The execution loop, from the position of the replica in its log. \<open>2 ^ 32\<close> bounds the log because
  slots are numbered by 32-bit operation numbers.
\<close>

lemma execute_committed_effects:
  assumes "execute_committed env es r = Ok () r'" and "es = drop (unat (r_commit_num r) + 1) (r_log r)"
    and "length (r_log r) \<le> 2 ^ 32"
  shows "effects env True r r' \<and> r_log r' = r_log r \<and>
    (unat (r_commit_num r') + 1 < length (r_log r) \<longrightarrow>
       le_commits (r_log r ! (unat (r_commit_num r') + 1)) = [])"
  using assms
proof (induction es arbitrary: r)
  case Nil
  then show ?case by simp
next
  case (Cons e es)
  let ?k = "unat (r_commit_num r) + 1"
  have k: "?k < length (r_log r)" using Cons.prems(2) by (cases "?k < length (r_log r)") auto
  have e: "e = r_log r ! ?k" "es = drop (Suc ?k) (r_log r)"
    using trans [OF Cons.prems(2) Cons_nth_drop_Suc [OF k, symmetric]] by simp_all
  show ?case
  proof (cases "le_commits e = []")
    case True
    with Cons.prems(1) e show ?thesis by simp
  next
    case False
    with Cons.prems(1) obtain r1 where r1:
      "execute_requests env (le_requests e) (r\<lparr>r_commit_num := r_commit_num r + 1\<rparr>) = Ok () r1"
      "execute_committed env es r1 = Ok () r'"
      by (auto simp: and_then_Ok_iff)
    from execute_requests_Ok [OF r1(1)]
    have r1': "r_commit_num r1 = r_commit_num r + 1" "r_log r1 = r_log r" by auto
    have "r_commit_num r \<noteq> - 1"
    proof
      assume "r_commit_num r = - 1"
      then have "?k = 2 ^ 32" by (simp add: unsigned_minus_1_eq_mask mask_eq_exp_minus_1)
      with k Cons.prems(3) show False by simp
    qed
    then have "unat (r_commit_num r1) = ?k" using r1'(1) by (simp add: unat_Suc_word)
    with Cons.IH [OF r1(2)] e(2) r1' Cons.prems(3)
    have "effects env True r1 r'" "r_log r' = r_log r"
      "unat (r_commit_num r') + 1 < length (r_log r) \<longrightarrow>
         le_commits (r_log r ! (unat (r_commit_num r') + 1)) = []"
      by simp_all
    moreover have "effect env True r r1"
      using k e False r1(1) by (intro eff_execute [where entry = e]) auto
    ultimately show ?thesis by (meson converse_rtranclp_into_rtranclp)
  qed
qed

text \<open>
  A replica is caught up when the slot after the last one it executed is not committed.
\<close>

definition caught_up :: "('s, 'a) replica \<Rightarrow> bool" where
  "caught_up r \<longleftrightarrow>
     (unat (r_commit_num r) + 1 < length (r_log r) \<longrightarrow>
        le_commits (r_log r ! (unat (r_commit_num r) + 1)) = [])"

text \<open>Steps that leave the log and the replies to clients alone.\<close>

definition same_log :: "('s, 'a) replica \<Rightarrow> ('s, 'a) replica \<Rightarrow> bool" where
  "same_log r r' \<longleftrightarrow> r_log r' = r_log r \<and> r_client_net r' = r_client_net r"

lemma same_log_close_batches: "close_batches env r = Ok () r' \<Longrightarrow> same_log r r'"
proof (induction env r rule: close_batches.induct)
  case (1 env r)
  show ?case
  proof (cases "\<exists>p. is_primary r = Inr p \<and> p \<and> may_close_batch r")
    case True
    then have p: "is_primary r = Inr True" "may_close_batch r" by auto
    with "1.prems" obtain r1 where r1: "close_batch env r = Ok () r1" "close_batches env r1 = Ok () r'"
      by (auto simp: close_batches.simps [of env r] split: outcome.splits)
    with "1.IH" [of True "()" r1] p have "same_log r1 r'" by simp
    with r1(1) show ?thesis
      by (auto simp: same_log_def close_batch_def Let_def dest!: submit_work_Ok
          split: sum.splits bool.splits if_splits)
  next
    case False
    with "1.prems" show ?thesis
      by (auto simp: same_log_def close_batches.simps [of env r] split: sum.splits if_splits)
  qed
qed

lemma submit_commit_Ok:
  "submit_commit env m r = Ok b r' \<Longrightarrow> r' = r \<or> (\<exists>k. r' = r\<lparr>r_worker := k\<rparr>)"
  by (auto simp: submit_commit_def Let_def and_then_Ok_iff dest!: submit_work_Ok split: if_splits)

lemma same_log_submit_pending_commits:
  "submit_pending_commits env op ps r = Ok () r' \<Longrightarrow> same_log r r'"
proof (induction ps arbitrary: r)
  case Nil
  then show ?case by (auto simp: submit_pending_commits.simps same_log_def)
next
  case (Cons p ps)
  let ?r = "r\<lparr>r_pending_commits := hm_insert op (rev ps) (r_pending_commits r)\<rparr>"
  from Cons.prems obtain b r1 where r1: "submit_commit env p ?r = Ok b r1"
    "if b then r' = r1 else submit_pending_commits env op ps r1 = Ok () r'"
    by (auto simp: submit_pending_commits.simps [of env op "p # ps"]
        split: outcome.splits bool.splits)
  have "same_log r1 r'" using r1(2) Cons.IH by (cases b) (auto simp: same_log_def)
  with submit_commit_Ok [OF r1(1)] show ?case by (auto simp: same_log_def)
qed

text \<open>
  What a handler of commits does: either the commit only joins its quorum, or it completes the
  quorum; then everything committed in sequence is executed before new batches are closed and
  pending commits are submitted.
\<close>

inductive commit_effects ::
  "('s, 'a) env \<Rightarrow> ('s, 'a) replica \<Rightarrow> ('s, 'a) replica \<Rightarrow> bool" for env where
  ce_counted: "\<lbrakk>effects env False r r'; r_client_net r' = r_client_net r\<rbrakk> \<Longrightarrow>
    commit_effects env r r'"
| ce_completed: "\<lbrakk>effects env True r r2; r_app r2 = r_app r; r_commit_num r2 = r_commit_num r;
    r_client_net r2 = r_client_net r; config_of r2 = config_of r;
    execute_committed env (drop (unat (r_commit_num r2) + 1) (r_log r2)) r2 = Ok () r3;
    effects env True r2 r3; r_log r3 = r_log r2; caught_up r3;
    effects env False r3 r'; same_log r3 r'\<rbrakk> \<Longrightarrow>
    commit_effects env r r'"

lemma insert_commit_effects:
  assumes "insert_commit env m r = Ok () r'" and "cm_view_num (inner m) = r_view_num r"
    and "length (r_log r) \<le> 2 ^ 32"
  shows "commit_effects env r r'"
proof -
  define op where "op = cm_op_num (inner m)"
  define q where "q = (case hm_get (r_commit_quorums r) op of None \<Rightarrow> [] | Some q \<Rightarrow> q)"
  define quorum where "quorum = hm_insert (cm_replica_id (inner m)) m q"
  define r1 where "r1 = r\<lparr>r_commit_quorums := hm_insert op quorum (r_commit_quorums r)\<rparr>"
  have e: "effect env c r r1" for c
    unfolding r1_def quorum_def by (rule eff_add_commit [OF assms(2) op_def q_def])
  note ip = assms(1) [unfolded insert_commit_def Let_def op_def [symmetric] q_def [symmetric]
      quorum_def [symmetric] r1_def [symmetric]]
  show ?thesis
  proof (cases "length quorum < sub_usize (r_num_replica r1) (r_num_faulty r1) \<or>
      log_get r1 op = None \<or> (\<exists>entry. log_get r1 op = Some entry \<and> le_prepares entry = [])")
    case True
    with ip have "r' = r1" by (auto split: if_splits)
    with e show ?thesis by (intro ce_counted) (simp_all add: eff1 r1_def)
  next
    case False
    then obtain entry where entry: "log_get r1 op = Some entry" "le_prepares entry \<noteq> []" by auto
    define r2 where "r2 = log_set op (entry\<lparr>le_commits := quorum\<rparr>)
        (r1\<lparr>r_commit_quorums := hm_remove op (r_commit_quorums r1)\<rparr>)"
    from ip False entry obtain r3 where r3: "le_commits entry = []"
      "execute_committed env (drop (unat (r_commit_num r2) + 1) (r_log r2)) r2 = Ok () r3"
      "close_batches env r3 = Ok () r'"
      by (auto simp: r2_def [symmetric] and_then_Ok_iff split: if_splits)
    have "effect env True r1 r2"
      unfolding r2_def using False entry r3(1) by (intro eff_committed) (auto simp: r1_def)
    with e [of True] have r2: "effects env True r r2"
      by (meson converse_rtranclp_into_rtranclp r_into_rtranclp)
    have "length (r_log r2) \<le> 2 ^ 32"
      using assms(3) by (simp add: r2_def r1_def log_set_def)
    from execute_committed_effects [OF r3(2) refl this]
    have ex: "effects env True r2 r3" "r_log r3 = r_log r2" "caught_up r3"
      by (simp_all add: caught_up_def)
    have keep: "r_app r2 = r_app r" "r_commit_num r2 = r_commit_num r"
      "r_client_net r2 = r_client_net r" "config_of r2 = config_of r"
      by (simp_all add: r2_def r1_def log_set_def config_of_def)
    show ?thesis
      by (rule ce_completed [OF r2 keep r3(2) ex close_batches_effects [OF r3(3)]
            same_log_close_batches [OF r3(3)]])
  qed
qed

lemma effect_commit: "effect env False r r' \<Longrightarrow> effect env True r r'"
  by (induction rule: effect.induct) (auto intro: effect.intros)

lemma effects_commit: "effects env False r r' \<Longrightarrow> effects env True r r'"
  using effect_commit mono_rtranclp by metis

lemma effects_any: "effects env False r r' \<Longrightarrow> effects env c r r'"
  by (cases c) (auto dest: effects_commit)

lemma submit_commit_effects:
  assumes "submit_commit env p r = Ok b r'"
  shows "effects env c r r'"
  using assms
  by (auto simp: submit_commit_def Let_def and_then_Ok_iff intro!: eff1 eff_verify
      split: if_splits)

lemma on_recv_commit_effects:
  assumes "on_recv_commit env p r = Ok () r'"
  shows "effects env c r r'"
proof (cases "hm_get (r_pending_commits r) (cm_op_num (inner p))")
  case (Some pending)
  with assms show ?thesis
    by (auto simp: on_recv_commit_def Let_def intro!: eff1 eff_pending_commits)
next
  case None
  with assms obtain b r1 where r1: "submit_commit env p r = Ok b r1"
    "r' = r1 \<or> (\<exists>pc. r' = r1\<lparr>r_pending_commits := pc\<rparr>)"
    by (cases "submit_commit env p r") (auto simp: on_recv_commit_def Let_def split: if_splits)
  have "effects env c r1 r'" using r1(2) by (auto intro: eff1 eff_pending_commits)
  with submit_commit_effects [OF r1(1)] show ?thesis by (rule rtranclp_trans)
qed

lemma submit_pending_commits_effects:
  "submit_pending_commits env op ps r = Ok () r' \<Longrightarrow> effects env c r r'"
proof (induction ps arbitrary: r)
  case Nil
  then show ?case
    by (auto simp: submit_pending_commits.simps intro!: eff1 eff_pending_commits)
next
  case (Cons p ps)
  let ?r = "r\<lparr>r_pending_commits := hm_insert op (rev ps) (r_pending_commits r)\<rparr>"
  from Cons.prems obtain b r1 where r1: "submit_commit env p ?r = Ok b r1"
    "if b then r' = r1 else submit_pending_commits env op ps r1 = Ok () r'"
    by (auto simp: submit_pending_commits.simps [of env op "p # ps"]
        split: outcome.splits bool.splits)
  have "effects env c r1 r'" using r1(2) Cons.IH by (cases b) auto
  with submit_commit_effects [OF r1(1)] have "effects env c ?r r'" by (rule rtranclp_trans)
  with eff_pending_commits show ?case by (rule converse_rtranclp_into_rtranclp)
qed

lemma commit_effects_effects: "commit_effects env r r' \<Longrightarrow> effects env True r r'"
  by (induction rule: commit_effects.induct) (meson effects_commit rtranclp_trans)+

lemma commit_effects_refl: "commit_effects env r r"
  by (rule ce_counted) simp_all

lemma commit_effects_net:
  assumes "net_send dest m r = Ok () r1" and "commit_effects env r1 r'"
  shows "commit_effects env r r'"
proof -
  from net_send_Ok [OF assms(1)] have keep: "r_app r1 = r_app r" "r_commit_num r1 = r_commit_num r"
    "r_client_net r1 = r_client_net r" "config_of r1 = config_of r"
    by (auto simp: config_of_def)
  note e = net_send_effects [OF assms(1)]
  from assms(2) show ?thesis
  proof (cases rule: commit_effects.cases)
    case ce_counted
    with rtranclp_trans [OF e ce_counted(1)] keep show ?thesis
      by (intro commit_effects.ce_counted) simp_all
  next
    case (ce_completed r2 r3)
    from rtranclp_trans [OF e ce_completed(1)] ce_completed keep show ?thesis
      by (intro commit_effects.ce_completed [of env r r2 r3]) simp_all
  qed
qed

lemma commit_effects_pending:
  assumes "commit_effects env r r1" and "effects env False r1 r'" and "same_log r1 r'"
  shows "commit_effects env r r'"
  using assms(1)
proof (cases rule: commit_effects.cases)
  case ce_counted
  with rtranclp_trans [OF ce_counted(1) assms(2)] assms(3) show ?thesis
    by (intro commit_effects.ce_counted) (simp_all add: same_log_def)
next
  case (ce_completed r2 r3)
  from rtranclp_trans [OF ce_completed(10) assms(2)] ce_completed assms(3) show ?thesis
    by (intro commit_effects.ce_completed [of env r r2 r3]) (simp_all add: same_log_def)
qed

lemma on_signed_commit_effects:
  assumes "on_signed_commit env p r = Ok () r'" and "length (r_log r) \<le> 2 ^ 32"
  shows "commit_effects env r r'"
proof (cases "cm_view_num (inner p) = r_view_num r")
  case False
  with assms(1) have "r' = r" by (simp add: on_signed_commit_def)
  then show ?thesis by (simp add: commit_effects_refl)
next
  case True
  with assms(1) obtain r1 where r1: "net_send AllReplica (Commit p) r = Ok () r1"
    "insert_commit env p r1 = Ok () r' \<or> r' = r1"
    by (cases "net_send AllReplica (Commit p) r")
      (auto simp: on_signed_commit_def split: option.splits if_splits)
  with net_send_Ok [OF r1(1)] True assms(2)
  have "cm_view_num (inner p) = r_view_num r1" "length (r_log r1) \<le> 2 ^ 32" by auto
  with r1(2) insert_commit_effects [of env p r1 r'] have "commit_effects env r1 r'"
    by (auto simp: commit_effects_refl)
  with r1(1) show ?thesis by (rule commit_effects_net)
qed

lemma on_verified_commit_effects:
  assumes "on_verified_commit env p r = Ok () r'" and "length (r_log r) \<le> 2 ^ 32"
  shows "commit_effects env r r'"
proof (cases "cm_view_num (inner p) = r_view_num r")
  case False
  with assms(1) have "r' = r" by (simp add: on_verified_commit_def)
  then show ?thesis by (simp add: commit_effects_refl)
next
  case True
  with assms(1) obtain r1 where r1: "insert_commit env p r = Ok () r1"
    "case hm_get (r_pending_commits r1) (cm_op_num (inner p)) of None \<Rightarrow> r' = r1
     | Some pending \<Rightarrow>
         submit_pending_commits env (cm_op_num (inner p)) (rev pending) r1 = Ok () r'"
    by (auto simp: on_verified_commit_def Let_def and_then_Ok_iff split: option.splits)
  have "effects env False r1 r' \<and> same_log r1 r'"
  proof (cases "hm_get (r_pending_commits r1) (cm_op_num (inner p))")
    case None
    with r1(2) show ?thesis by (simp add: same_log_def)
  next
    case (Some pending)
    with r1(2) have "submit_pending_commits env (cm_op_num (inner p)) (rev pending) r1 = Ok () r'"
      by simp
    from submit_pending_commits_effects [OF this] same_log_submit_pending_commits [OF this]
    show ?thesis by blast
  qed
  with insert_commit_effects [OF r1(1) True assms(2)] show ?thesis
    by (blast intro: commit_effects_pending)
qed

fun is_commit_event :: "'a replica_event \<Rightarrow> bool" where
  "is_commit_event (Crypto (SignedCommit _)) = True"
| "is_commit_event (Crypto (VerifiedCommit _)) = True"
| "is_commit_event _ = False"

lemma replica_on_event_effects:
  assumes "replica_on_event env e r = Ok () r'" and "length (r_log r) \<le> 2 ^ 32"
  shows "if is_commit_event e then commit_effects env r r' else effects env False r r'"
  using assms
  by (induction env e r rule: replica_on_event.induct)
    (auto intro: on_recv_request_effects on_recv_pre_prepare_effects on_recv_prepare_effects
      on_recv_commit_effects on_signed_pre_prepare_effects on_verified_pre_prepare_effects
      on_signed_prepare_effects on_verified_prepare_effects on_signed_commit_effects
      on_verified_commit_effects)

lemma replica_on_event_steps:
  assumes "replica_on_event env e r = Ok () r'" and "length (r_log r) \<le> 2 ^ 32"
  shows "effects env True r r'"
  using replica_on_event_effects [OF assms]
  by (auto split: if_splits intro: commit_effects_effects effects_commit)

end
