(* ===== verification/Pbft_Invariants.thy ===== *)
theory Pbft_Invariants
  imports Pbft_Steps
begin

text \<open>
  Invariants of the replica, each proved by rule induction over the step relation \<open>effect\<close>, and so
  kept by every run of handled events (\<open>replica_run_induct\<close>).

  \<^item> \<open>certified\<close>: the quorums under construction and the certificates in the log hold messages of
    distinct replicas, for their own operation and the replica's view; a prepare certificate has at
    least \<open>n - f - 1\<close> of them, a commit certificate at least \<open>n - f\<close>; a committed slot is prepared.
  \<^item> \<open>executed_prefix\<close>: the operations up to \<open>commit_num\<close> are the committed slots of a prefix of the log,
    and the next one is not committed once a handler has returned.
  \<^item> \<open>window\<close>: the primary's \<open>op_num\<close> is at most two ahead of \<open>commit_num\<close>.
  \<^item> \<open>slots_grow\<close>: a slot keeps its pre-prepare, its requests and its certificates; the replies
    table only moves forward.
\<close>

section \<open>Facts about the state updates\<close>

lemma length_log_ensure:
  "length (r_log (log_ensure op r)) = max (length (r_log r)) (unat op + 1)"
  by (auto simp: log_ensure_def max_def)

lemma nth_log_ensure:
  assumes "k < length (r_log (log_ensure op r))"
  shows "r_log (log_ensure op r) ! k =
    (if k < length (r_log r) then r_log r ! k else log_entry_default)"
  using assms by (auto simp: log_ensure_def nth_append)

lemma log_ensure_keeps [simp]:
  "r_id (log_ensure op r) = r_id r" "r_num_replica (log_ensure op r) = r_num_replica r"
  "r_num_faulty (log_ensure op r) = r_num_faulty r" "r_view_num (log_ensure op r) = r_view_num r"
  "r_prepare_quorums (log_ensure op r) = r_prepare_quorums r"
  "r_commit_quorums (log_ensure op r) = r_commit_quorums r"
  "r_commit_num (log_ensure op r) = r_commit_num r" "r_op_num (log_ensure op r) = r_op_num r"
  "r_replies (log_ensure op r) = r_replies r" "r_requests (log_ensure op r) = r_requests r"
  "r_worker (log_ensure op r) = r_worker r" "r_app (log_ensure op r) = r_app r"
  by (simp_all add: log_ensure_def)

lemma log_set_keeps [simp]:
  "r_id (log_set op e r) = r_id r" "r_num_replica (log_set op e r) = r_num_replica r"
  "r_num_faulty (log_set op e r) = r_num_faulty r" "r_view_num (log_set op e r) = r_view_num r"
  "r_prepare_quorums (log_set op e r) = r_prepare_quorums r"
  "r_commit_quorums (log_set op e r) = r_commit_quorums r"
  "r_commit_num (log_set op e r) = r_commit_num r" "r_op_num (log_set op e r) = r_op_num r"
  "r_replies (log_set op e r) = r_replies r" "r_requests (log_set op e r) = r_requests r"
  "r_worker (log_set op e r) = r_worker r" "r_app (log_set op e r) = r_app r"
  "length (r_log (log_set op e r)) = length (r_log r)"
  by (simp_all add: log_set_def)

lemma nth_log_set:
  "k < length (r_log r) \<Longrightarrow> r_log (log_set op e r) ! k = (if k = unat op then e else r_log r ! k)"
  by (auto simp: log_set_def nth_list_update)

lemma log_get_Some:
  "log_get r op = Some e \<longleftrightarrow> unat op < length (r_log r) \<and> e = r_log r ! unat op"
  by (auto simp: log_get_def)

lemma close_batch_Ok:
  assumes "close_batch env r = Ok () r'"
  shows "\<exists>requests k. r' = r\<lparr>r_op_num := r_op_num r + 1, r_requests := requests, r_worker := k\<rparr>"
  using assms
  by (auto simp: close_batch_def Let_def dest!: submit_work_Ok
      split: sum.splits bool.splits if_splits)

text \<open>The bound on the log that the 32-bit operation numbers give.\<close>

lemma effect_log_length:
  "effect env c r r' \<Longrightarrow> length (r_log r) \<le> 2 ^ 32 \<Longrightarrow> length (r_log r') \<le> 2 ^ 32"
proof (induction rule: effect.induct)
  case (eff_propose m r op r1 entry r' qs)
  then show ?case using unat_u32_less [of op] by (simp add: length_log_ensure)
next
  case (eff_accept m r op r1 entry r2 qs r')
  then show ?case using unat_u32_less [of op] submit_work_Ok [OF eff_accept(7)]
    by (auto simp: length_log_ensure)
qed (auto dest!: submit_work_Ok close_batch_Ok execute_requests_Ok)

lemma effect_config: "effect env c r r' \<Longrightarrow> config_of r' = config_of r"
  by (induction rule: effect.induct)
    (auto simp: config_of_def dest!: submit_work_Ok close_batch_Ok execute_requests_Ok)

section \<open>Runs\<close>

lemma replica_run_induct:
  assumes run: "replica_run env es r = Ok () r'" and len: "length (r_log r) \<le> 2 ^ 32"
    and start: "P r"
    and step: "\<And>r r'. \<lbrakk>effect env True r r'; length (r_log r) \<le> 2 ^ 32; P r\<rbrakk> \<Longrightarrow> P r'"
  shows "P r' \<and> length (r_log r') \<le> 2 ^ 32"
  using run len start
proof (induction es arbitrary: r)
  case Nil
  then show ?case by simp
next
  case (Cons e es)
  then obtain r1 where r1: "replica_on_event env e r = Ok () r1" "replica_run env es r1 = Ok () r'"
    by (auto simp: and_then_Ok_iff)
  from replica_on_event_steps [OF r1(1) Cons.prems(2)] Cons.prems(2,3)
  have "P r1 \<and> length (r_log r1) \<le> 2 ^ 32"
  proof (induction rule: rtranclp_induct)
    case base
    then show ?case by simp
  next
    case (step y z)
    then show ?case using effect_log_length [OF step(2)] assms(4) [OF step(2)] by blast
  qed
  with Cons.IH [OF r1(2)] show ?case by simp
qed

lemma replica_run_invariant:
  assumes "replica_run env es (replica_new i app net cnet k n f) = Ok () r"
    and "P (replica_new i app net cnet k n f)"
    and "\<And>r r'. \<lbrakk>effect env True r r'; length (r_log r) \<le> 2 ^ 32; P r\<rbrakk> \<Longrightarrow> P r'"
  shows "P r"
proof -
  have "length (r_log (replica_new i app net cnet k n f)) \<le> 2 ^ 32" by (simp add: replica_new_def)
  from replica_run_induct [where P = P, OF assms(1) this assms(2,3)] show ?thesis by simp
qed

lemma replica_new_log [simp]: "r_log (replica_new i app net cnet k n f) = []"
  by (simp add: replica_new_def)

lemma config_run:
  assumes "replica_run env es (replica_new i app net cnet k n f) = Ok () r"
  shows "config_of r = config_of (replica_new i app net cnet k n f)"
proof (rule replica_run_invariant
    [where P = "\<lambda>r. config_of r = config_of (replica_new i app net cnet k n f)", OF assms])
qed (auto dest: effect_config)

section \<open>Certificates\<close>

definition prepare_ok :: "u32 \<Rightarrow> nat \<Rightarrow> u8 \<times> prepare verifiable \<Rightarrow> bool" where
  "prepare_ok view k ip \<longleftrightarrow>
     pr_replica_id (inner (snd ip)) = fst ip \<and> unat (pr_op_num (inner (snd ip))) = k \<and>
     pr_view_num (inner (snd ip)) = view"

definition commit_ok :: "u32 \<Rightarrow> nat \<Rightarrow> u8 \<times> commit verifiable \<Rightarrow> bool" where
  "commit_ok view k im \<longleftrightarrow>
     cm_replica_id (inner (snd im)) = fst im \<and> unat (cm_op_num (inner (snd im))) = k \<and>
     cm_view_num (inner (snd im)) = view"

definition entry_ok :: "nat \<Rightarrow> u32 \<Rightarrow> nat \<Rightarrow> 'a log_entry \<Rightarrow> bool" where
  "entry_ok quorum view k e \<longleftrightarrow>
     hm_wf (le_prepares e) \<and> (\<forall>ip\<in>set (le_prepares e). prepare_ok view k ip) \<and>
     hm_wf (le_commits e) \<and> (\<forall>im\<in>set (le_commits e). commit_ok view k im) \<and>
     (le_prepares e \<noteq> [] \<longrightarrow> quorum \<le> length (le_prepares e) + 1) \<and>
     (le_commits e \<noteq> [] \<longrightarrow> quorum \<le> length (le_commits e) \<and> le_prepares e \<noteq> []) \<and>
     (\<forall>m. le_pre_prepare e = Some m \<longrightarrow>
        unat (pp_op_num (inner m)) = k \<and> pp_view_num (inner m) = view \<and> le_view_num e = view)"

definition certified :: "('s, 'a) replica \<Rightarrow> bool" where
  "certified r \<longleftrightarrow>
     (\<forall>op q. hm_get (r_prepare_quorums r) op = Some q \<longrightarrow>
        hm_wf q \<and> (\<forall>ip\<in>set q. prepare_ok (r_view_num r) (unat op) ip)) \<and>
     (\<forall>op q. hm_get (r_commit_quorums r) op = Some q \<longrightarrow>
        hm_wf q \<and> (\<forall>im\<in>set q. commit_ok (r_view_num r) (unat op) im)) \<and>
     (\<forall>k<length (r_log r).
        entry_ok (sub_usize (r_num_replica r) (r_num_faulty r)) (r_view_num r) k (r_log r ! k))"

lemma entry_ok_default [simp]: "entry_ok quorum view k log_entry_default"
  by (simp add: entry_ok_def log_entry_default_def)

lemma certified_log_ensure: "certified r \<Longrightarrow> certified (log_ensure op r)"
  by (auto simp: certified_def nth_log_ensure)

lemma certified_log_set:
  assumes "certified r" and
    "entry_ok (sub_usize (r_num_replica r) (r_num_faulty r)) (r_view_num r) (unat op) e"
  shows "certified (log_set op e r)"
  using assms by (auto simp: certified_def nth_log_set)

lemma certified_prepare_quorums:
  assumes "certified r" and "\<And>op q. hm_get Q op = Some q \<Longrightarrow>
    hm_wf q \<and> (\<forall>ip\<in>set q. prepare_ok (r_view_num r) (unat op) ip)"
  shows "certified (r\<lparr>r_prepare_quorums := Q\<rparr>)"
  using assms by (simp add: certified_def)

lemma certified_commit_quorums:
  assumes "certified r" and "\<And>op q. hm_get Q op = Some q \<Longrightarrow>
    hm_wf q \<and> (\<forall>im\<in>set q. commit_ok (r_view_num r) (unat op) im)"
  shows "certified (r\<lparr>r_commit_quorums := Q\<rparr>)"
  using assms by (simp add: certified_def)

lemma certified_irrelevant [simp]:
  "certified (r\<lparr>r_net := a\<rparr>) = certified r" "certified (r\<lparr>r_client_net := b\<rparr>) = certified r"
  "certified (r\<lparr>r_worker := c\<rparr>) = certified r" "certified (r\<lparr>r_app := d\<rparr>) = certified r"
  "certified (r\<lparr>r_replies := e\<rparr>) = certified r" "certified (r\<lparr>r_requests := g\<rparr>) = certified r"
  "certified (r\<lparr>r_op_num := h\<rparr>) = certified r" "certified (r\<lparr>r_commit_num := i\<rparr>) = certified r"
  "certified (r\<lparr>r_pending_prepares := j\<rparr>) = certified r"
  "certified (r\<lparr>r_pending_commits := k\<rparr>) = certified r"
  by (simp_all add: certified_def)

lemma certified_D:
  assumes "certified r"
  shows "hm_get (r_prepare_quorums r) op = Some q \<Longrightarrow>
      hm_wf q \<and> (\<forall>ip\<in>set q. prepare_ok (r_view_num r) (unat op) ip)"
    and "hm_get (r_commit_quorums r) op = Some q' \<Longrightarrow>
      hm_wf q' \<and> (\<forall>im\<in>set q'. commit_ok (r_view_num r) (unat op) im)"
    and "k < length (r_log r) \<Longrightarrow>
      entry_ok (sub_usize (r_num_replica r) (r_num_faulty r)) (r_view_num r) k (r_log r ! k)"
  using assms by (simp_all add: certified_def)

lemma certified_slot:
  assumes "certified r" and "pp_view_num (inner m) = r_view_num r" and "op = pp_op_num (inner m)"
    and "r1 = log_ensure op r" and "entry = r_log r1 ! unat op"
  shows "certified (log_set op (entry\<lparr>le_pre_prepare := Some m, le_view_num := r_view_num r,
    le_requests := qs\<rparr>) r1)"
proof -
  have c1: "certified r1" using assms(1,4) by (simp add: certified_log_ensure)
  then have "entry_ok (sub_usize (r_num_replica r1) (r_num_faulty r1)) (r_view_num r1) (unat op) entry"
    using certified_D(3) log_ensure_slot assms(4,5) by blast
  with assms(2-5) show ?thesis
    by (intro certified_log_set [OF c1]) (auto simp: entry_ok_def)
qed

lemma certified_effect: "effect env c r r' \<Longrightarrow> certified r \<Longrightarrow> certified r'"
proof (induction rule: effect.induct)
  case (eff_propose m r op r1 entry r' qs)
  then show ?case using certified_slot [of r m op r1 entry qs] by simp
next
  case (eff_accept m r op r1 entry r2 qs r')
  then show ?case
    using certified_slot [of r m op r1 entry qs] submit_work_Ok [OF eff_accept(7)] by auto
next
  case (eff_retain_prepares r op quorum d)
  then show ?case
    using certified_D(1) [OF eff_retain_prepares(2)]
    by (intro certified_prepare_quorums) (auto split: if_splits)
next
  case (eff_retain_commits r op cquorum d)
  then show ?case
    using certified_D(2) [OF eff_retain_commits(2)]
    by (intro certified_commit_quorums) (auto split: if_splits)
next
  case (eff_add_prepare p r op quorum)
  have q: "hm_wf quorum" "\<forall>ip\<in>set quorum. prepare_ok (r_view_num r) (unat op) ip"
    using certified_D(1) [OF eff_add_prepare(4)] eff_add_prepare(3) by (auto split: option.splits)
  show ?case
  proof (rule certified_prepare_quorums [OF eff_add_prepare(4)], goal_cases)
    case (1 op' q')
    with q eff_add_prepare(1,2) certified_D(1) [OF eff_add_prepare(4)] show ?case
      by (cases "op' = op") (auto simp: set_hm_insert prepare_ok_def)
  qed
next
  case (eff_add_commit m r op cquorum)
  have q: "hm_wf cquorum" "\<forall>ip\<in>set cquorum. commit_ok (r_view_num r) (unat op) ip"
    using certified_D(2) [OF eff_add_commit(4)] eff_add_commit(3) by (auto split: option.splits)
  show ?case
  proof (rule certified_commit_quorums [OF eff_add_commit(4)], goal_cases)
    case (1 op' q')
    with q eff_add_commit(1,2) certified_D(2) [OF eff_add_commit(4)] show ?case
      by (cases "op' = op") (auto simp: set_hm_insert commit_ok_def)
  qed
next
  case (eff_prepared r op quorum entry p r')
  let ?r1 = "r\<lparr>r_prepare_quorums := hm_remove op (r_prepare_quorums r)\<rparr>"
  have "certified ?r1"
    using certified_D(1) [OF eff_prepared(7)] eff_prepared(7)
    by (intro certified_prepare_quorums) (auto split: if_splits)
  moreover have "quorum \<noteq> []" using eff_prepared(5) by auto
  moreover have "entry_ok (sub_usize (r_num_replica r) (r_num_faulty r)) (r_view_num r) (unat op) entry"
    using certified_D(3) [OF eff_prepared(7)] eff_prepared(3) by (simp add: log_get_Some)
  ultimately have "certified (log_set op (entry\<lparr>le_prepares := quorum\<rparr>) ?r1)"
    using certified_D(1) [OF eff_prepared(7) eff_prepared(1)] eff_prepared(2)
    by (intro certified_log_set) (auto simp: entry_ok_def)
  with submit_work_Ok [OF eff_prepared(6)] show ?case by auto
next
  case (eff_committed r op cquorum entry)
  let ?r1 = "r\<lparr>r_commit_quorums := hm_remove op (r_commit_quorums r)\<rparr>"
  have "certified ?r1"
    using certified_D(2) [OF eff_committed(7)] eff_committed(7)
    by (intro certified_commit_quorums) (auto split: if_splits)
  moreover have "entry_ok (sub_usize (r_num_replica r) (r_num_faulty r)) (r_view_num r) (unat op) entry"
    using certified_D(3) [OF eff_committed(7)] eff_committed(4) by (simp add: log_get_Some)
  ultimately show ?case
    using certified_D(2) [OF eff_committed(7) eff_committed(2)] eff_committed(3,6)
    by (intro certified_log_set) (auto simp: entry_ok_def)
qed (auto dest!: submit_work_Ok close_batch_Ok execute_requests_Ok)

lemma certified_new: "certified (replica_new i app net cnet k n f)"
  by (simp add: certified_def replica_new_def)

lemma certified_run:
  assumes "replica_run env es (replica_new i app net cnet k n f) = Ok () r"
  shows "certified r"
  by (rule replica_run_invariant [where P = certified, OF assms certified_new])
    (rule certified_effect)

section \<open>What never changes back\<close>

definition entry_grows :: "'a log_entry \<Rightarrow> 'a log_entry \<Rightarrow> bool" where
  "entry_grows e e' \<longleftrightarrow>
     (le_pre_prepare e \<noteq> None \<longrightarrow>
        le_pre_prepare e' = le_pre_prepare e \<and> le_requests e' = le_requests e) \<and>
     (le_prepares e \<noteq> [] \<longrightarrow> le_prepares e' = le_prepares e) \<and>
     (le_commits e \<noteq> [] \<longrightarrow> le_commits e' = le_commits e)"

definition slots_grow :: "('s, 'a) replica \<Rightarrow> ('s, 'a) replica \<Rightarrow> bool" where
  "slots_grow r r' \<longleftrightarrow>
     (\<forall>k<length (r_log r). k < length (r_log r') \<and> entry_grows (r_log r ! k) (r_log r' ! k))"

definition replies_grow :: "('s, 'a) replica \<Rightarrow> ('s, 'a) replica \<Rightarrow> bool" where
  "replies_grow r r' \<longleftrightarrow>
     (\<forall>i s rp. hm_get (r_replies r) i = Some (s, rp) \<longrightarrow>
        (\<exists>s' rp'. hm_get (r_replies r') i = Some (s', rp') \<and> s \<le> s' \<and>
           (s' = s \<and> rp \<noteq> None \<longrightarrow> rp' \<noteq> None)))"

lemma entry_grows_refl [simp]: "entry_grows e e"
  by (simp add: entry_grows_def)

lemma entry_grows_trans: "entry_grows e e1 \<Longrightarrow> entry_grows e1 e2 \<Longrightarrow> entry_grows e e2"
  by (auto simp: entry_grows_def)

lemma slots_grow_refl [simp]: "slots_grow r r"
  by (simp add: slots_grow_def)

lemma slots_grow_trans: "slots_grow r r1 \<Longrightarrow> slots_grow r1 r2 \<Longrightarrow> slots_grow r r2"
  unfolding slots_grow_def by (meson entry_grows_trans)

lemma replies_grow_refl [simp]: "replies_grow r r"
  by (simp add: replies_grow_def)

lemma replies_grow_trans:
  assumes "replies_grow r r1" and "replies_grow r1 r2"
  shows "replies_grow r r2"
  unfolding replies_grow_def
proof (intro allI impI)
  fix i s rp assume "hm_get (r_replies r) i = Some (s, rp)"
  with assms(1) obtain s1 rp1 where 1: "hm_get (r_replies r1) i = Some (s1, rp1)" "s \<le> s1"
    "s1 = s \<and> rp \<noteq> None \<longrightarrow> rp1 \<noteq> None"
    unfolding replies_grow_def by blast
  with assms(2) obtain s2 rp2 where 2: "hm_get (r_replies r2) i = Some (s2, rp2)" "s1 \<le> s2"
    "s2 = s1 \<and> rp1 \<noteq> None \<longrightarrow> rp2 \<noteq> None"
    unfolding replies_grow_def by blast
  have "s2 = s \<Longrightarrow> s1 = s" using 1(2) 2(2) by simp
  with 1 2 show "\<exists>s' rp'. hm_get (r_replies r2) i = Some (s', rp') \<and> s \<le> s' \<and>
      (s' = s \<and> rp \<noteq> None \<longrightarrow> rp' \<noteq> None)"
    by (intro exI [of _ s2] exI [of _ rp2]) auto
qed

lemma slots_grow_effect: "effect env c r r' \<Longrightarrow> slots_grow r r'"
proof (induction rule: effect.induct)
  case (eff_propose m r op r1 entry r' qs)
  then show ?case
    by (auto simp: slots_grow_def entry_grows_def length_log_ensure nth_log_set nth_log_ensure)
next
  case (eff_accept m r op r1 entry r2 qs r')
  then show ?case using submit_work_Ok [OF eff_accept(7)]
    by (auto simp: slots_grow_def entry_grows_def length_log_ensure nth_log_set nth_log_ensure)
next
  case (eff_prepared r op quorum entry p r')
  then show ?case using submit_work_Ok [OF eff_prepared(6)]
    by (auto simp: slots_grow_def entry_grows_def nth_log_set log_get_Some)
next
  case (eff_committed r op cquorum entry)
  then show ?case by (auto simp: slots_grow_def entry_grows_def nth_log_set log_get_Some)
qed (auto simp: slots_grow_def dest!: submit_work_Ok close_batch_Ok execute_requests_Ok)

lemma execute_request_replies:
  assumes "execute_request env q r = Ok () r'"
  shows "replies_grow r r'"
proof -
  let ?cache = "case hm_get (r_replies r) (rq_client_id q) of
      None \<Rightarrow> True | Some (s, _) \<Rightarrow> s \<le> rq_seq q"
  from assms obtain a rp r2 where r2: "r2 = (if ?cache then r\<lparr>r_app := a, r_replies :=
      hm_insert (rq_client_id q) (rq_seq q, Some rp) (r_replies r)\<rparr> else r\<lparr>r_app := a\<rparr>)"
    "client_net_send (rq_client_addr q) rp r2 = Ok () r'"
    by (cases ?cache)
      (auto simp: execute_request_def and_then_Ok_iff lift_outcome_Ok_iff Let_def)
  from r2(1) have "replies_grow r r2" by (auto simp: replies_grow_def split: option.splits)
  moreover have "replies_grow r2 r'"
    using client_net_send_Ok [OF r2(2)] by (auto simp: replies_grow_def)
  ultimately show ?thesis by (rule replies_grow_trans)
qed

lemma execute_requests_replies:
  "execute_requests env qs r = Ok () r' \<Longrightarrow> replies_grow r r'"
  by (induction qs arbitrary: r)
    (auto simp: and_then_Ok_iff intro: replies_grow_trans execute_request_replies)

lemma replies_grow_effect: "effect env c r r' \<Longrightarrow> replies_grow r r'"
proof (induction rule: effect.induct)
  case (eff_request r q)
  then show ?case by (auto simp: replies_grow_def fresh_request_def split: option.splits)
next
  case (eff_execute r entry r')
  from execute_requests_replies [OF eff_execute(5)] show ?case by (simp add: replies_grow_def)
qed (auto simp: replies_grow_def dest!: submit_work_Ok close_batch_Ok)

lemma grows_run:
  assumes "replica_run env es r = Ok () r'" and "length (r_log r) \<le> 2 ^ 32"
  shows "slots_grow r r' \<and> replies_grow r r'"
  using replica_run_induct [where P = "\<lambda>r'. slots_grow r r' \<and> replies_grow r r'", OF assms]
    slots_grow_effect replies_grow_effect
  by (meson slots_grow_refl slots_grow_trans replies_grow_refl replies_grow_trans)

section \<open>Execution order and the primary's window\<close>

definition committed_at :: "('s, 'a) replica \<Rightarrow> nat \<Rightarrow> bool" where
  "committed_at r k \<longleftrightarrow> k < length (r_log r) \<and> le_commits (r_log r ! k) \<noteq> []"

definition executed_prefix :: "('s, 'a) replica \<Rightarrow> bool" where
  "executed_prefix r \<longleftrightarrow>
     (\<forall>k. 0 < k \<and> k \<le> unat (r_commit_num r) \<longrightarrow> committed_at r k)"

definition window :: "('s, 'a) replica \<Rightarrow> bool" where
  "window r \<longleftrightarrow> unat (r_op_num r) \<le> unat (r_commit_num r) + 2"

lemma commit_num_Suc:
  assumes "unat (r_commit_num r) + 1 < length (r_log r)" and "length (r_log r) \<le> 2 ^ 32"
  shows "unat (r_commit_num r + 1) = unat (r_commit_num r) + 1"
proof -
  have "r_commit_num r \<noteq> - 1"
  proof
    assume "r_commit_num r = - 1"
    with assms show False by (simp add: unsigned_minus_1_eq_mask mask_eq_exp_minus_1)
  qed
  then show ?thesis by (simp add: unat_Suc_word)
qed

lemma effect_commit_num:
  "effect env c r r' \<Longrightarrow> r_commit_num r' = r_commit_num r \<or>
     (committed_at r (unat (r_commit_num r) + 1) \<and> r_commit_num r' = r_commit_num r + 1)"
proof (induction rule: effect.induct)
  case (eff_execute r entry r')
  with execute_requests_Ok [OF eff_execute(5)] show ?case by (auto simp: committed_at_def)
qed (auto dest!: submit_work_Ok close_batch_Ok)

lemma committed_at_effect: "effect env c r r' \<Longrightarrow> committed_at r k \<Longrightarrow> committed_at r' k"
  using slots_grow_effect [of env c r r'] by (auto simp: slots_grow_def entry_grows_def committed_at_def)

lemma executed_prefix_effect:
  assumes "effect env c r r'" and "length (r_log r) \<le> 2 ^ 32" and "executed_prefix r"
  shows "executed_prefix r'"
  unfolding executed_prefix_def
proof (intro allI impI)
  fix k assume k: "0 < k \<and> k \<le> unat (r_commit_num r')"
  from effect_commit_num [OF assms(1)] have "committed_at r k"
  proof
    assume "r_commit_num r' = r_commit_num r"
    with k assms(3) show ?thesis by (simp add: executed_prefix_def)
  next
    assume *: "committed_at r (unat (r_commit_num r) + 1) \<and> r_commit_num r' = r_commit_num r + 1"
    then have "unat (r_commit_num r') = unat (r_commit_num r) + 1"
      using commit_num_Suc [of r] assms(2) by (simp add: committed_at_def)
    with * k assms(3) show ?thesis by (auto simp: executed_prefix_def le_Suc_eq)
  qed
  then show "committed_at r' k" by (rule committed_at_effect [OF assms(1)])
qed

lemma window_batch:
  fixes op c :: u32
  assumes "op \<le> c + 1"
  shows "unat (op + 1) \<le> unat c + 2"
proof (cases "c = - 1 \<or> op = - 1")
  case True
  then show ?thesis
  proof
    assume "c = - 1"
    with assms show ?thesis by (simp add: unat_eq_0)
  next
    assume "op = - 1"
    then show ?thesis by simp
  qed
next
  case False
  with assms show ?thesis by (simp add: unat_Suc_word word_le_nat_alt)
qed

lemma window_effect:
  "effect env c r r' \<Longrightarrow> length (r_log r) \<le> 2 ^ 32 \<Longrightarrow> window r \<Longrightarrow> window r'"
proof (induction rule: effect.induct)
  case (eff_batch r r')
  from close_batch_Ok [OF eff_batch(2)] window_batch eff_batch(1) show ?case
    by (auto simp: window_def num_concurrent_pre_prepare_def)
next
  case (eff_execute r entry r')
  from execute_requests_Ok [OF eff_execute(5)]
  have "r_op_num r' = r_op_num r" "r_commit_num r' = r_commit_num r + 1" by auto
  with commit_num_Suc [OF eff_execute(2)] eff_execute(6,7) show ?case by (auto simp: window_def)
qed (auto simp: window_def dest!: submit_work_Ok)

lemma executed_prefix_run:
  assumes "replica_run env es (replica_new i app net cnet k n f) = Ok () r"
  shows "executed_prefix r"
proof (rule replica_run_invariant [where P = executed_prefix, OF assms])
  show "executed_prefix (replica_new i app net cnet k n f)"
    by (simp add: executed_prefix_def replica_new_def)
qed (rule executed_prefix_effect)

lemma window_run:
  assumes "replica_run env es (replica_new i app net cnet k n f) = Ok () r"
  shows "window r"
proof (rule replica_run_invariant [where P = window, OF assms])
  show "window (replica_new i app net cnet k n f)"
    by (simp add: window_def replica_new_def)
qed (rule window_effect)

section \<open>What execution does\<close>

text \<open>The application run over a list of operations, with the results in order.\<close>

fun app_run ::
  "('s, 'a) env \<Rightarrow> payload list \<Rightarrow> 's \<Rightarrow> (payload list \<times> 's) option" where
  "app_run env [] s = Some ([], s)"
| "app_run env (op # ops) s =
     (case env_execute env op s of
        Err _ _ \<Rightarrow> None
      | Ok result s1 \<Rightarrow>
          map_option (\<lambda>(results, s2). (result # results, s2)) (app_run env ops s1))"

definition reply_for :: "('s, 'a) replica \<Rightarrow> 'a request \<Rightarrow> payload \<Rightarrow> 'a \<times> reply" where
  "reply_for r q result =
     (rq_client_addr q,
      \<lparr>rp_seq = rq_seq q, rp_result = result, rp_view_num = r_view_num r, rp_replica_id = r_id r\<rparr>)"

lemma app_run_append:
  assumes "app_run env ops s = Some (results, s1)" and "app_run env ops' s1 = Some (results', s2)"
  shows "app_run env (ops @ ops') s = Some (results @ results', s2)"
  using assms by (induction ops arbitrary: s results) (auto split: outcome.splits)

lemma app_run_length: "app_run env ops s = Some (results, s') \<Longrightarrow> length results = length ops"
  by (induction ops arbitrary: s results) (auto split: outcome.splits)

lemma execute_request_app:
  assumes "execute_request env q r = Ok () r'"
  shows "\<exists>result. env_execute env (rq_op q) (r_app r) = Ok result (r_app r') \<and>
    sent (r_client_net r') = sent (r_client_net r) @ [reply_for r q result]"
  using assms
  by (auto simp: execute_request_def and_then_Ok_iff lift_outcome_Ok_iff Let_def
      client_net_send_def reply_for_def split: if_splits)

lemma execute_requests_app:
  assumes "execute_requests env qs r = Ok () r'"
  shows "\<exists>results. app_run env (map rq_op qs) (r_app r) = Some (results, r_app r') \<and>
    sent (r_client_net r') = sent (r_client_net r) @ map2 (reply_for r) qs results"
  using assms
proof (induction qs arbitrary: r)
  case Nil
  then show ?case by simp
next
  case (Cons q qs)
  then obtain r1 where r1: "execute_request env q r = Ok () r1" "execute_requests env qs r1 = Ok () r'"
    by (auto simp: and_then_Ok_iff)
  have "reply_for r1 = reply_for r"
    using execute_request_Ok [OF r1(1)] by (auto simp: reply_for_def fun_eq_iff)
  with execute_request_app [OF r1(1)] Cons.IH [OF r1(2)] show ?case by auto
qed

definition ready :: "'a log_entry list \<Rightarrow> 'a request list" where
  "ready es = concat (map le_requests (takeWhile (\<lambda>e. le_commits e \<noteq> []) es))"

lemma execute_committed_app:
  assumes "execute_committed env es r = Ok () r'"
  shows "\<exists>results. app_run env (map rq_op (ready es)) (r_app r) = Some (results, r_app r') \<and>
    sent (r_client_net r') = sent (r_client_net r) @ map2 (reply_for r) (ready es) results \<and>
    r_commit_num r' =
      r_commit_num r + of_nat (length (takeWhile (\<lambda>e. le_commits e \<noteq> []) es))"
  using assms
proof (induction es arbitrary: r)
  case Nil
  then show ?case by (simp add: ready_def)
next
  case (Cons e es)
  show ?case
  proof (cases "le_commits e = []")
    case True
    with Cons.prems show ?thesis by (simp add: ready_def)
  next
    case False
    let ?r = "r\<lparr>r_commit_num := r_commit_num r + 1\<rparr>"
    from False Cons.prems obtain r1 where r1:
      "execute_requests env (le_requests e) ?r = Ok () r1" "execute_committed env es r1 = Ok () r'"
      by (auto simp: and_then_Ok_iff)
    have keep: "r_commit_num r1 = r_commit_num r + 1" "reply_for r1 = reply_for r"
      "reply_for ?r = reply_for r"
      using execute_requests_Ok [OF r1(1)] by (auto simp: reply_for_def fun_eq_iff)
    from execute_requests_app [OF r1(1)] obtain res1 where res1:
      "app_run env (map rq_op (le_requests e)) (r_app r) = Some (res1, r_app r1)"
      "sent (r_client_net r1) = sent (r_client_net r) @ map2 (reply_for r) (le_requests e) res1"
      using keep(3) by auto
    from Cons.IH [OF r1(2)] obtain res2 where res2:
      "app_run env (map rq_op (ready es)) (r_app r1) = Some (res2, r_app r')"
      "sent (r_client_net r') = sent (r_client_net r1) @ map2 (reply_for r) (ready es) res2"
      "r_commit_num r' =
        r_commit_num r + 1 + of_nat (length (takeWhile (\<lambda>e. le_commits e \<noteq> []) es))"
      using keep by auto
    have rdy: "ready (e # es) = le_requests e @ ready es" using False by (simp add: ready_def)
    have "length res1 = length (le_requests e)" using app_run_length [OF res1(1)] by simp
    then show ?thesis
      using res1 res2 False
      by (intro exI [of _ "res1 @ res2"]) (simp add: rdy app_run_append zip_append)
  qed
qed

text \<open>Outside the commit handlers nothing is committed and nothing is executed.\<close>

lemma effect_quiet:
  "effect env c r r' \<Longrightarrow> \<not> c \<Longrightarrow>
     r_app r' = r_app r \<and> r_commit_num r' = r_commit_num r \<and> (committed_at r' = committed_at r)"
proof (induction rule: effect.induct)
  case (eff_propose m r op r1 entry r' qs)
  then show ?case
    by (auto simp: committed_at_def length_log_ensure nth_log_set nth_log_ensure fun_eq_iff
        log_entry_default_def split: if_splits)
next
  case (eff_accept m r op r1 entry r2 qs r')
  then show ?case using submit_work_Ok [OF eff_accept(7)]
    by (auto simp: committed_at_def length_log_ensure nth_log_set nth_log_ensure fun_eq_iff
        log_entry_default_def split: if_splits)
next
  case (eff_prepared r op quorum entry p r')
  then show ?case using submit_work_Ok [OF eff_prepared(6)]
    by (auto simp: committed_at_def nth_log_set log_get_Some fun_eq_iff split: if_splits)
qed (auto simp: committed_at_def fun_eq_iff dest!: submit_work_Ok close_batch_Ok)

lemma effects_quiet:
  "effects env False r r' \<Longrightarrow>
     r_app r' = r_app r \<and> r_commit_num r' = r_commit_num r \<and> (committed_at r' = committed_at r)"
  by (induction rule: rtranclp_induct) (auto dest!: effect_quiet)

lemma caught_up_iff: "caught_up r \<longleftrightarrow> \<not> committed_at r (unat (r_commit_num r) + 1)"
  by (auto simp: caught_up_def committed_at_def)

lemma caught_up_quiet: "effects env False s s' \<Longrightarrow> caught_up s \<Longrightarrow> caught_up s'"
  using effects_quiet [of env s s'] by (simp add: caught_up_iff)

lemma caught_up_event:
  assumes "replica_on_event env e r = Ok () r'" and "length (r_log r) \<le> 2 ^ 32" and "caught_up r"
  shows "caught_up r'"
proof (cases "is_commit_event e")
  case True
  with replica_on_event_effects [OF assms(1,2)] have "commit_effects env r r'" by simp
  then show ?thesis
    by (cases rule: commit_effects.cases) (use assms(3) caught_up_quiet in blast)+
next
  case False
  with replica_on_event_effects [OF assms(1,2)] assms(3) caught_up_quiet show ?thesis by simp blast
qed

text \<open>
  What one event executes: the slots committed in sequence after the last executed one, as they
  are in the log afterwards.
\<close>

definition newly_executed :: "('s, 'a) replica \<Rightarrow> ('s, 'a) replica \<Rightarrow> 'a log_entry list" where
  "newly_executed r r' =
     takeWhile (\<lambda>e. le_commits e \<noteq> []) (drop (unat (r_commit_num r) + 1) (r_log r'))"

lemma newly_executed_None:
  assumes "effects env False r r'" and "caught_up r"
  shows "newly_executed r r' = []"
proof -
  let ?k = "unat (r_commit_num r) + 1"
  have n: "\<not> committed_at r' ?k"
    using effects_quiet [OF assms(1)] assms(2) by (simp add: caught_up_iff)
  show ?thesis
  proof (cases "?k < length (r_log r')")
    case True
    from Cons_nth_drop_Suc [OF this] have "drop ?k (r_log r') = r_log r' ! ?k # drop (Suc ?k) (r_log r')"
      by (rule sym)
    with n True show ?thesis by (simp add: newly_executed_def committed_at_def)
  qed (simp add: newly_executed_def)
qed

lemma effects_config: "effects env c r r' \<Longrightarrow> config_of r' = config_of r"
  by (induction rule: rtranclp_induct) (auto dest: effect_config)

lemma event_executes:
  assumes "replica_on_event env e r = Ok () r'" and "length (r_log r) \<le> 2 ^ 32" and "caught_up r"
  shows "\<exists>results.
    app_run env (map rq_op (concat (map le_requests (newly_executed r r')))) (r_app r) =
      Some (results, r_app r') \<and>
    r_commit_num r' = r_commit_num r + of_nat (length (newly_executed r r')) \<and>
    (is_commit_event e \<longrightarrow>
       sent (r_client_net r') = sent (r_client_net r) @
         map2 (reply_for r) (concat (map le_requests (newly_executed r r'))) results)"
proof -
  have quiet: ?thesis if "effects env False r r'" "is_commit_event e \<longrightarrow> r_client_net r' = r_client_net r"
    using newly_executed_None [OF that(1) assms(3)] effects_quiet [OF that(1)] that(2) by simp
  show ?thesis
  proof (cases "is_commit_event e")
    case False
    with replica_on_event_effects [OF assms(1,2)] quiet show ?thesis by simp
  next
    case True
    with replica_on_event_effects [OF assms(1,2)] have "commit_effects env r r'" by simp
    then show ?thesis
    proof (cases rule: commit_effects.cases)
      case ce_counted
      with quiet show ?thesis by simp
    next
      case (ce_completed r2 r3)
      let ?es = "drop (unat (r_commit_num r2) + 1) (r_log r2)"
      have rdy: "ready ?es = concat (map le_requests (newly_executed r r'))"
        "takeWhile (\<lambda>e. le_commits e \<noteq> []) ?es = newly_executed r r'"
        using ce_completed(3,8,11) by (simp_all add: ready_def newly_executed_def same_log_def)
      have "reply_for r2 = reply_for r"
        using ce_completed(5) by (simp add: config_of_def reply_for_def fun_eq_iff)
      with execute_committed_app [OF ce_completed(6)] effects_quiet [OF ce_completed(10)]
        ce_completed(2,3,4,11) rdy
      show ?thesis by (simp add: same_log_def) blast
    qed
  qed
qed

lemma caught_up_run:
  assumes "replica_run env es r = Ok () r'" and "length (r_log r) \<le> 2 ^ 32" and "caught_up r"
  shows "caught_up r'"
  using assms
proof (induction es arbitrary: r)
  case Nil
  then show ?case by simp
next
  case (Cons e es)
  then obtain r1 where r1: "replica_on_event env e r = Ok () r1" "replica_run env es r1 = Ok () r'"
    by (auto simp: and_then_Ok_iff)
  have "length (r_log r1) \<le> 2 ^ 32"
    using replica_run_induct [where P = "\<lambda>_. True" and es = "[e]", of env r r1] r1(1) Cons.prems(2)
    by simp
  from Cons.IH [OF r1(2) this caught_up_event [OF r1(1) Cons.prems(2,3)]] show ?case .
qed

end
