(* ===== verification/Pbft_Agreement.thy ===== *)
theory Pbft_Agreement
  imports Pbft_Invariants
begin

text \<open>
  What a replica signs, and what follows for the replicas together.

  \<^item> \<open>once_signed\<close>: over a run, a replica asks its worker for at most one prepare and at most one
    commit per operation, each for a slot that has a pre-prepare of that digest, respectively a
    prepare certificate.
  \<^item> \<open>proposals_ok\<close>: the primary proposes consecutive operation numbers from 1, batches of 1 to 100
    requests, and each client's requests in strictly increasing order.
  \<^item> The locales \<open>quorum_system\<close> and \<open>voting\<close>: two quorums share a correct member, so values chosen
    by quorums of single votes agree. They are interpreted on sets of \<open>n - f\<close> of \<open>n \<ge> 3 f + 1\<close>
    replicas, and on the digests a replica signed, as prepares or as commits, when they are not
    different ones (\<open>divided\<close>).

  The worker is the spawned one: \<open>works\<close> is the list of what was submitted to it so far.
\<close>

section \<open>The works of a run\<close>

definition works :: "('s, 'a) replica \<Rightarrow> 'a work list" where
  "works r = (case r_worker r of Spawn q \<Rightarrow> sent q | _ \<Rightarrow> [])"

definition spawned :: "('s, 'a) replica \<Rightarrow> bool" where
  "spawned r \<longleftrightarrow> (case r_worker r of Spawn q \<Rightarrow> True | _ \<Rightarrow> False)"

fun signed_prepares :: "'a work list \<Rightarrow> prepare list" where
  "signed_prepares [] = []"
| "signed_prepares (SignPrepare p # ws) = p # signed_prepares ws"
| "signed_prepares (_ # ws) = signed_prepares ws"

fun signed_commits :: "'a work list \<Rightarrow> commit list" where
  "signed_commits [] = []"
| "signed_commits (SignCommit m # ws) = m # signed_commits ws"
| "signed_commits (_ # ws) = signed_commits ws"

fun proposals :: "'a work list \<Rightarrow> (u32 \<times> 'a request list) list" where
  "proposals [] = []"
| "proposals (SignPrePrepare view op qs # ws) = (op, qs) # proposals ws"
| "proposals (_ # ws) = proposals ws"

lemma signed_prepares_append [simp]:
  "signed_prepares (ws @ ws') = signed_prepares ws @ signed_prepares ws'"
  by (induction ws rule: signed_prepares.induct) simp_all

lemma signed_commits_append [simp]:
  "signed_commits (ws @ ws') = signed_commits ws @ signed_commits ws'"
  by (induction ws rule: signed_commits.induct) simp_all

lemma proposals_append [simp]:
  "proposals (ws @ ws') = proposals ws @ proposals ws'"
  by (induction ws rule: proposals.induct) simp_all

lemma verify_signs_nothing [simp]:
  "is_verify w \<Longrightarrow> signed_prepares [w] = []" "is_verify w \<Longrightarrow> signed_commits [w] = []"
  "is_verify w \<Longrightarrow> proposals [w] = []"
  by (cases w; simp)+

lemma submit_work_spawned:
  assumes "submit_work env w r = Ok u r'" and "spawned r"
  shows "\<exists>k. r' = r\<lparr>r_worker := k\<rparr> \<and> spawned r' \<and> works r' = works r @ [w]"
proof (cases "r_worker r")
  case (Spawn q)
  with assms(1) show ?thesis
    by (auto simp: submit_work_def submit_def lift_outcome_Ok_iff spawned_def works_def
        split: if_splits)
qed (use assms(2) in \<open>auto simp: spawned_def\<close>)

lemma works_update [simp]:
  "works (r\<lparr>r_net := x0\<rparr>) = works r"
  "works (r\<lparr>r_client_net := x1\<rparr>) = works r"
  "works (r\<lparr>r_app := x2\<rparr>) = works r"
  "works (r\<lparr>r_replies := x3\<rparr>) = works r"
  "works (r\<lparr>r_requests := x4\<rparr>) = works r"
  "works (r\<lparr>r_op_num := x5\<rparr>) = works r"
  "works (r\<lparr>r_commit_num := x6\<rparr>) = works r"
  "works (r\<lparr>r_pending_prepares := x7\<rparr>) = works r"
  "works (r\<lparr>r_pending_commits := x8\<rparr>) = works r"
  "works (r\<lparr>r_prepare_quorums := x9\<rparr>) = works r"
  "works (r\<lparr>r_commit_quorums := x10\<rparr>) = works r"
  "works (log_set op e r) = works r" "works (log_ensure op r) = works r"
  by (simp_all add: works_def)

lemma spawned_update [simp]:
  "spawned (r\<lparr>r_net := x0\<rparr>) = spawned r"
  "spawned (r\<lparr>r_client_net := x1\<rparr>) = spawned r"
  "spawned (r\<lparr>r_app := x2\<rparr>) = spawned r"
  "spawned (r\<lparr>r_replies := x3\<rparr>) = spawned r"
  "spawned (r\<lparr>r_requests := x4\<rparr>) = spawned r"
  "spawned (r\<lparr>r_op_num := x5\<rparr>) = spawned r"
  "spawned (r\<lparr>r_commit_num := x6\<rparr>) = spawned r"
  "spawned (r\<lparr>r_pending_prepares := x7\<rparr>) = spawned r"
  "spawned (r\<lparr>r_pending_commits := x8\<rparr>) = spawned r"
  "spawned (r\<lparr>r_prepare_quorums := x9\<rparr>) = spawned r"
  "spawned (r\<lparr>r_commit_quorums := x10\<rparr>) = spawned r"
  "spawned (log_set op e r) = spawned r" "spawned (log_ensure op r) = spawned r"
  by (simp_all add: spawned_def)

section \<open>What one step adds\<close>

definition slot_pre_prepare :: "('s, 'a) replica \<Rightarrow> u32 \<Rightarrow> pre_prepare verifiable option" where
  "slot_pre_prepare r op = Option.bind (log_get r op) le_pre_prepare"

definition slot_prepares :: "('s, 'a) replica \<Rightarrow> u32 \<Rightarrow> (u8 \<times> prepare verifiable) list" where
  "slot_prepares r op = (case log_get r op of None \<Rightarrow> [] | Some e \<Rightarrow> le_prepares e)"

text \<open>
  The works a step adds: none or a verification; a batch; the prepare of the slot it fills; the
  commit of the slot it certifies.
\<close>

inductive adds :: "('s, 'a) replica \<Rightarrow> ('s, 'a) replica \<Rightarrow> bool" where
  adds_none: "\<lbrakk>works r' = works r; r_requests r' = r_requests r; r_op_num r' = r_op_num r\<rbrakk> \<Longrightarrow>
    adds r r'"
| adds_verify: "\<lbrakk>is_verify w; works r' = works r @ [w]; r_requests r' = r_requests r;
    r_op_num r' = r_op_num r\<rbrakk> \<Longrightarrow> adds r r'"
| adds_request: "\<lbrakk>works r' = works r; fresh_request r q; r_requests r' = r_requests r @ [q];
    r_op_num r' = r_op_num r; hm_get (r_replies r') (rq_client_id q) = Some (rq_seq q, None)\<rbrakk> \<Longrightarrow>
    adds r r'"
| adds_batch: "\<lbrakk>works r' = works r @ [SignPrePrepare (r_view_num r) (r_op_num r + 1) qs];
    qs \<noteq> []; length qs \<le> 100; r_requests r = qs @ r_requests r'; r_op_num r' = r_op_num r + 1;
    is_primary r = Inr True\<rbrakk> \<Longrightarrow> adds r r'"
| adds_prepare: "\<lbrakk>works r' = works r @ [SignPrepare p]; r_requests r' = r_requests r;
    r_op_num r' = r_op_num r; pr_view_num p = r_view_num r; pr_replica_id p = r_id r;
    slot_pre_prepare r (pr_op_num p) = None;
    slot_pre_prepare r' (pr_op_num p) = Some m; pp_digest (inner m) = pr_digest p\<rbrakk> \<Longrightarrow> adds r r'"
| adds_commit: "\<lbrakk>works r' = works r @ [SignCommit m]; r_requests r' = r_requests r;
    r_op_num r' = r_op_num r; cm_view_num m = r_view_num r; cm_replica_id m = r_id r;
    slot_prepares r (cm_op_num m) = [];
    ip \<in> set (slot_prepares r' (cm_op_num m)); pr_digest (inner (snd ip)) = cm_digest m\<rbrakk> \<Longrightarrow> adds r r'"

lemma effect_adds:
  "effect env c r r' \<Longrightarrow> spawned r \<Longrightarrow> adds r r' \<and> spawned r'"
proof (induction rule: effect.induct)
  case (eff_verify w r r')
  from submit_work_spawned [OF eff_verify(2,3)] eff_verify(1) show ?case
    by (auto intro: adds_verify)
next
  case (eff_request r q)
  then show ?case by (auto intro!: adds_request [where q = q])
next
  case (eff_batch r r')
  let ?n = "min (length (r_requests r)) 100"
  have p: "is_primary r = Inr True" "r_requests r \<noteq> []"
    using eff_batch(2) by (auto simp: close_batch_def split: sum.splits bool.splits if_splits)
  define r2 where "r2 = r\<lparr>r_op_num := r_op_num r + 1, r_requests := drop ?n (r_requests r)\<rparr>"
  have "submit_work env (SignPrePrepare (r_view_num r) (r_op_num r + 1) (take ?n (r_requests r))) r2 =
      Ok () r'"
    using eff_batch(2) p by (simp add: close_batch_def Let_def r2_def)
  from submit_work_spawned [OF this] eff_batch(3)
  have r': "spawned r'" "r_requests r' = drop ?n (r_requests r)" "r_op_num r' = r_op_num r + 1"
    "works r' = works r @ [SignPrePrepare (r_view_num r) (r_op_num r + 1) (take ?n (r_requests r))]"
    by (auto simp: r2_def)
  moreover have "take ?n (r_requests r) \<noteq> []" using p(2) by (simp add: min_def)
  ultimately show ?case
    using p by (intro conjI adds_batch [where qs = "take ?n (r_requests r)"]) simp_all
next
  case (eff_accept m r op r1 entry r2 qs r')
  from submit_work_spawned [OF eff_accept(7)] eff_accept(3,6,8)
  obtain k where k: "r' = r2\<lparr>r_worker := k\<rparr>" "spawned r'"
    "works r' = works r @ [SignPrepare \<lparr>pr_view_num = r_view_num r, pr_op_num = op,
      pr_digest = pp_digest (inner m), pr_replica_id = r_id r\<rparr>]"
    by auto
  have "slot_pre_prepare r op = None"
    using eff_accept(3,4,5)
    by (auto simp: slot_pre_prepare_def log_get_def log_ensure_def split: if_splits)
  moreover have "slot_pre_prepare r' op = Some m"
    using k(1) eff_accept(3,6)
    by (simp add: slot_pre_prepare_def log_get_def nth_log_set log_ensure_slot)
  ultimately show ?case
    using k eff_accept(3,6) by (auto intro!: adds_prepare [where m = m])
next
  case (eff_prepared r op quorum entry p r')
  from submit_work_spawned [OF eff_prepared(6)] eff_prepared(7)
  obtain k where k: "r' = (log_set op (entry\<lparr>le_prepares := quorum\<rparr>)
      (r\<lparr>r_prepare_quorums := hm_remove op (r_prepare_quorums r)\<rparr>))\<lparr>r_worker := k\<rparr>" "spawned r'"
    "works r' = works r @ [SignCommit \<lparr>cm_view_num = r_view_num r, cm_op_num = op,
      cm_digest = pr_digest (inner p), cm_replica_id = r_id r\<rparr>]"
    by auto
  from eff_prepared(5) obtain i where i: "(i, p) \<in> set quorum" by auto
  have "slot_prepares r op = []" using eff_prepared(3,4) by (simp add: slot_prepares_def)
  moreover have "slot_prepares r' op = quorum"
    using eff_prepared(3) by (simp add: k(1) slot_prepares_def log_get_def nth_log_set split: if_splits)
  ultimately show ?case
    using k i by (auto intro!: adds_commit [where ip = "(i, p)"])
next
  case (eff_execute r entry r')
  from execute_requests_Ok [OF eff_execute(5)] eff_execute(6) show ?case
    by (auto intro!: adds_none)
qed (auto intro!: adds_none)

section \<open>At most one prepare and one commit per operation\<close>

definition once_signed :: "('s, 'a) replica \<Rightarrow> bool" where
  "once_signed r \<longleftrightarrow>
     distinct (map pr_op_num (signed_prepares (works r))) \<and>
     distinct (map cm_op_num (signed_commits (works r))) \<and>
     (\<forall>p\<in>set (signed_prepares (works r)).
        pr_view_num p = r_view_num r \<and> pr_replica_id p = r_id r \<and>
        (\<exists>m. slot_pre_prepare r (pr_op_num p) = Some m \<and> pp_digest (inner m) = pr_digest p)) \<and>
     (\<forall>m\<in>set (signed_commits (works r)).
        cm_view_num m = r_view_num r \<and> cm_replica_id m = r_id r \<and>
        (\<exists>ip\<in>set (slot_prepares r (cm_op_num m)). pr_digest (inner (snd ip)) = cm_digest m))"

lemma slots_grow_slots:
  assumes "slots_grow r r'"
  shows "slot_pre_prepare r op = Some m \<Longrightarrow> slot_pre_prepare r' op = Some m"
    and "slot_prepares r op \<noteq> [] \<Longrightarrow> slot_prepares r' op = slot_prepares r op"
  using assms
  by (auto simp: slots_grow_def entry_grows_def slot_pre_prepare_def slot_prepares_def log_get_def
      split: if_splits)

lemma once_signed_effect:
  assumes "effect env c r r'" and "spawned r" and "once_signed r"
  shows "once_signed r'"
proof -
  note grow = slots_grow_slots [OF slots_grow_effect [OF assms(1)]]
  have same: "r_view_num r' = r_view_num r" "r_id r' = r_id r"
    using effect_config [OF assms(1)] by (auto simp: config_of_def)
  have prepares: "pr_view_num p = r_view_num r' \<and> pr_replica_id p = r_id r' \<and>
      (\<exists>m. slot_pre_prepare r' (pr_op_num p) = Some m \<and> pp_digest (inner m) = pr_digest p)"
    "slot_pre_prepare r (pr_op_num p) \<noteq> None"
    if "p \<in> set (signed_prepares (works r))" for p
    using assms(3) that same grow(1) by (fastforce simp: once_signed_def)+
  have commits: "cm_view_num m = r_view_num r' \<and> cm_replica_id m = r_id r' \<and>
      (\<exists>ip\<in>set (slot_prepares r' (cm_op_num m)). pr_digest (inner (snd ip)) = cm_digest m)"
    "slot_prepares r (cm_op_num m) \<noteq> []"
    if "m \<in> set (signed_commits (works r))" for m
  proof -
    from assms(3) that obtain ip where "ip \<in> set (slot_prepares r (cm_op_num m))"
      "pr_digest (inner (snd ip)) = cm_digest m" "cm_view_num m = r_view_num r"
      "cm_replica_id m = r_id r"
      by (auto simp: once_signed_def)
    moreover from this(1) show "slot_prepares r (cm_op_num m) \<noteq> []" by auto
    ultimately show "cm_view_num m = r_view_num r' \<and> cm_replica_id m = r_id r' \<and>
      (\<exists>ip\<in>set (slot_prepares r' (cm_op_num m)). pr_digest (inner (snd ip)) = cm_digest m)"
      using grow(2) same by auto
  qed
  have dist: "distinct (map pr_op_num (signed_prepares (works r)))"
    "distinct (map cm_op_num (signed_commits (works r)))"
    using assms(3) by (simp_all add: once_signed_def)
  from effect_adds [OF assms(1,2)] have "adds r r'" ..
  then show ?thesis
  proof (cases rule: adds.cases)
    case (adds_prepare p m)
    then have "pr_op_num p \<notin> pr_op_num ` set (signed_prepares (works r))"
      using prepares(2) by force
    with adds_prepare dist prepares(1) commits(1) same show ?thesis
      by (auto simp: once_signed_def)
  next
    case (adds_commit m ip)
    then have "cm_op_num m \<notin> cm_op_num ` set (signed_commits (works r))"
      using commits(2) by force
    with adds_commit dist prepares(1) commits(1) same show ?thesis
      by (auto simp: once_signed_def)
  qed (use dist prepares(1) commits(1) in \<open>simp_all add: once_signed_def\<close>)
qed

lemma once_signed_run:
  assumes "replica_run env es (replica_new i app net cnet (Spawn open_sink) n f) = Ok () r"
  shows "once_signed r" "spawned r"
proof -
  have "once_signed r \<and> spawned r"
  proof (rule replica_run_invariant [where P = "\<lambda>r. once_signed r \<and> spawned r", OF assms])
    show "once_signed (replica_new i app net cnet (Spawn open_sink) n f) \<and>
        spawned (replica_new i app net cnet (Spawn open_sink) n f)"
      by (simp add: once_signed_def works_def spawned_def replica_new_def open_sink_def)
  qed (use once_signed_effect effect_adds in blast)
  then show "once_signed r" "spawned r" by blast+
qed

section \<open>The primary's proposals\<close>

definition batched :: "('s, 'a) replica \<Rightarrow> 'a request list" where
  "batched r = concat (map snd (proposals (works r))) @ r_requests r"

definition proposals_ok :: "('s, 'a) replica \<Rightarrow> bool" where
  "proposals_ok r \<longleftrightarrow>
     r_op_num r = of_nat (length (proposals (works r))) \<and>
     map fst (proposals (works r)) = map of_nat [1..<Suc (length (proposals (works r)))] \<and>
     (\<forall>(op, qs)\<in>set (proposals (works r)). qs \<noteq> [] \<and> length qs \<le> 100) \<and>
     (\<forall>i. sorted_wrt (<) (map rq_seq (filter (\<lambda>q. rq_client_id q = i) (batched r))) \<and>
        (\<forall>q\<in>set (batched r). rq_client_id q = i \<longrightarrow>
           (\<exists>s rp. hm_get (r_replies r) i = Some (s, rp) \<and> rq_seq q \<le> s)))"

lemma proposals_ok_effect:
  assumes "effect env c r r'" and "spawned r" and "proposals_ok r"
  shows "proposals_ok r'"
proof -
  have "replies_grow r r'" by (rule replies_grow_effect [OF assms(1)])
  then have known: "\<exists>s rp. hm_get (r_replies r') (rq_client_id q) = Some (s, rp) \<and> rq_seq q \<le> s"
    if "q \<in> set (batched r)" for q
  proof -
    from assms(3) that obtain s rp
      where s: "hm_get (r_replies r) (rq_client_id q) = Some (s, rp)" "rq_seq q \<le> s"
      unfolding proposals_ok_def by metis
    from \<open>replies_grow r r'\<close> s(1) obtain s' rp'
      where "hm_get (r_replies r') (rq_client_id q) = Some (s', rp')" "s \<le> s'"
      unfolding replies_grow_def by metis
    with order_trans [OF s(2)] show ?thesis by blast
  qed
  from effect_adds [OF assms(1,2)] have "adds r r'" ..
  then show ?thesis
  proof (cases rule: adds.cases)
    case (adds_request q)
    have b: "batched r' = batched r @ [q]" using adds_request by (simp add: batched_def)
    have below: "rq_seq p < rq_seq q" if "p \<in> set (batched r)" "rq_client_id p = rq_client_id q" for p
    proof -
      from assms(3) that obtain s rp where
        "hm_get (r_replies r) (rq_client_id q) = Some (s, rp)" "rq_seq p \<le> s"
        unfolding proposals_ok_def by metis
      with adds_request(2) show ?thesis by (simp add: fresh_request_def)
    qed
    show ?thesis
      unfolding proposals_ok_def
    proof (intro conjI allI ballI impI)
      fix i
      show "sorted_wrt (<) (map rq_seq (filter (\<lambda>q. rq_client_id q = i) (batched r')))"
        using assms(3) below by (auto simp: b proposals_ok_def sorted_wrt_append)
    next
      fix i p assume "p \<in> set (batched r')" "rq_client_id p = i"
      with known adds_request(5) show "\<exists>s rp. hm_get (r_replies r') i = Some (s, rp) \<and> rq_seq p \<le> s"
        by (auto simp: b)
    qed (use assms(3) adds_request in \<open>auto simp: proposals_ok_def\<close>)
  next
    case (adds_batch qs)
    have b: "batched r' = batched r" using adds_batch by (simp add: batched_def)
    have "map fst (proposals (works r')) = map of_nat [1..<Suc (length (proposals (works r')))]"
      using assms(3) adds_batch by (simp add: proposals_ok_def)
    with assms(3) adds_batch known show ?thesis
      by (auto simp: proposals_ok_def b)
  qed (use assms(3) known in \<open>auto simp: proposals_ok_def batched_def\<close>)
qed

lemma proposals_ok_run:
  assumes "replica_run env es (replica_new i app net cnet (Spawn open_sink) n f) = Ok () r"
  shows "proposals_ok r"
proof -
  have "proposals_ok r \<and> spawned r"
  proof (rule replica_run_invariant [where P = "\<lambda>r. proposals_ok r \<and> spawned r", OF assms])
    show "proposals_ok (replica_new i app net cnet (Spawn open_sink) n f) \<and>
        spawned (replica_new i app net cnet (Spawn open_sink) n f)"
      by (simp add: proposals_ok_def batched_def works_def spawned_def replica_new_def open_sink_def)
  qed (use proposals_ok_effect effect_adds in blast)
  then show ?thesis by blast
qed

section \<open>Quorums\<close>

text \<open>Any two quorums have a member in common that is not faulty.\<close>

locale quorum_system =
  fixes quorum :: "'p set \<Rightarrow> bool" and faulty :: "'p set"
  assumes correct_in_both: "\<lbrakk>quorum A; quorum B\<rbrakk> \<Longrightarrow> \<exists>p\<in>A \<inter> B. p \<notin> faulty"

text \<open>Votes: a correct member never votes for two values.\<close>

locale voting = quorum_system quorum faulty
  for quorum :: "'p set \<Rightarrow> bool" and faulty :: "'p set" +
  fixes votes :: "'p \<Rightarrow> 'v set"
  assumes one_vote: "\<lbrakk>p \<notin> faulty; v \<in> votes p; w \<in> votes p\<rbrakk> \<Longrightarrow> v = w"
begin

lemma chosen_agree:
  assumes "quorum A" and "quorum B"
    and "\<And>p. \<lbrakk>p \<in> A; p \<notin> faulty\<rbrakk> \<Longrightarrow> v \<in> votes p"
    and "\<And>p. \<lbrakk>p \<in> B; p \<notin> faulty\<rbrakk> \<Longrightarrow> w \<in> votes p"
  shows "v = w"
  using correct_in_both [OF assms(1,2)] assms(3,4) one_vote by blast

end

text \<open>Sets of \<open>n - f\<close> of the replicas \<open>0\<close> to \<open>n - 1\<close>, with at most \<open>f\<close> faulty ones and \<open>n > 3 f\<close>.\<close>

definition byzantine_quorum :: "nat \<Rightarrow> nat \<Rightarrow> u8 set \<Rightarrow> u8 set \<Rightarrow> bool" where
  "byzantine_quorum n f F A \<longleftrightarrow>
     3 * f < n \<and> card F \<le> f \<and> A \<subseteq> {i. unat i < n} \<and> n - f \<le> card A"

lemma card_replicas: "card {i :: u8. unat i < n} \<le> n"
proof -
  have "unat ` {i :: u8. unat i < n} \<subseteq> {..<n}" by auto
  then have "card (unat ` {i :: u8. unat i < n}) \<le> card {..<n}" by (rule card_mono [rotated]) simp
  moreover have "inj_on unat {i :: u8. unat i < n}" by (simp add: inj_on_def word_unat_eq_iff)
  ultimately show ?thesis by (simp add: card_image)
qed

lemma byzantine_quorums_meet:
  assumes "byzantine_quorum n f F A" and "byzantine_quorum n f F B"
  shows "\<exists>p\<in>A \<inter> B. p \<notin> F"
proof (rule ccontr)
  assume "\<not> ?thesis"
  then have sub: "A \<inter> B \<subseteq> F" by auto
  have fin: "finite A" "finite B" "finite F" by simp_all
  have all: "A \<union> B \<subseteq> {i. unat i < n}"
    using assms unfolding byzantine_quorum_def by blast
  have num: "3 * f < n" "card F \<le> f" "n - f \<le> card A" "n - f \<le> card B"
    using assms unfolding byzantine_quorum_def by blast+
  have "card (A \<union> B) \<le> n"
    using card_mono [OF _ all] card_replicas [of n] by (meson finite_code order_trans)
  moreover have "card A + card B = card (A \<union> B) + card (A \<inter> B)"
    by (rule card_Un_Int [OF fin(1,2)])
  moreover have "card (A \<inter> B) \<le> f"
    using card_mono [OF fin(3) sub] num(2) by linarith
  ultimately show False using num by linarith
qed

section \<open>What a signature binds a replica to\<close>

lemma write_usize_Suc: "write_usize (Suc n) \<noteq> write_usize n"
  by (simp add: write_usize_def to_le_inject)

text \<open>
  The bytes of a vote determine its operation and digest, whether it was signed as a prepare or as a
  commit; no pre-prepare writes the bytes of a vote.
\<close>

lemma vote_feed_fields:
  "prepare_feed p = commit_feed m \<Longrightarrow> pr_op_num p = cm_op_num m \<and> pr_digest p = cm_digest m"
  "commit_feed m' = commit_feed m \<Longrightarrow> cm_op_num m' = cm_op_num m \<and> cm_digest m' = cm_digest m"
  by (auto simp: prepare_feed_def commit_feed_def hash_bytes_def append_feed_inject)

lemma pre_prepare_feed_not_vote: "pre_prepare_feed p \<noteq> commit_feed m"
proof
  assume "pre_prepare_feed p = commit_feed m"
  then have "write_usize (length (pp_digest p)) = write_usize (length (cm_digest m))"
    "pp_digest p = cm_digest m @ [cm_replica_id m]"
    by (auto simp: pre_prepare_feed_def commit_feed_def hash_bytes_def append_feed_inject)
  then show False by (simp add: write_usize_Suc)
qed

text \<open>
  A prepare and a commit with the same fields write the same bytes, so a signature binds a replica to
  an operation and a digest and not to the kind of message. What a replica vouches for at an
  operation are therefore the digests of the prepares and of the commits it had signed; it is
  \<open>divided\<close> when they are different digests. The votes are the digests of the undivided replicas; the
  others, and those outside \<open>once_signed\<close>, are counted with the faulty ones.
\<close>

definition divided :: "('s, 'a) replica \<Rightarrow> u32 \<Rightarrow> bool" where
  "divided r op \<longleftrightarrow>
     (\<exists>p\<in>set (signed_prepares (works r)). \<exists>m\<in>set (signed_commits (works r)).
        pr_op_num p = op \<and> cm_op_num m = op \<and> pr_digest p \<noteq> cm_digest m)"

definition signed_digests :: "('s, 'a) replica \<Rightarrow> u32 \<Rightarrow> digest set" where
  "signed_digests r op =
     {pr_digest p | p. p \<in> set (signed_prepares (works r)) \<and> pr_op_num p = op} \<union>
     {cm_digest m | m. m \<in> set (signed_commits (works r)) \<and> cm_op_num m = op}"

definition votes :: "(u8 \<Rightarrow> ('s, 'a) replica) \<Rightarrow> u32 \<Rightarrow> u8 \<Rightarrow> digest set" where
  "votes sys op i =
     (if once_signed (sys i) \<and> \<not> divided (sys i) op then signed_digests (sys i) op else {})"

lemma signed_digests_single:
  assumes "once_signed r" and "\<not> divided r op"
    and "v \<in> signed_digests r op" and "w \<in> signed_digests r op"
  shows "v = w"
proof -
  have "inj_on pr_op_num (set (signed_prepares (works r)))"
    "inj_on cm_op_num (set (signed_commits (works r)))"
    using assms(1) by (simp_all add: once_signed_def distinct_map)
  with assms(2-4) show ?thesis
    unfolding signed_digests_def divided_def by (auto dest: inj_onD)
qed

interpretation byz: quorum_system "byzantine_quorum n f F" F for n f F
  by unfold_locales (rule byzantine_quorums_meet)

interpretation commits: voting "byzantine_quorum n f F" F "votes sys op" for n f F sys op
  by unfold_locales (auto simp: votes_def intro: signed_digests_single split: if_splits)

section \<open>Certificates of one digest\<close>

text \<open>
  A committed slot all of whose certificate is for one digest. The handlers compare digests only
  when a message is submitted for verification, so this is a condition on the slot and not an
  invariant (see \<open>Pbft_Faults\<close>).
\<close>

definition commits_for :: "('s, 'a) replica \<Rightarrow> u32 \<Rightarrow> digest \<Rightarrow> bool" where
  "commits_for r op d \<longleftrightarrow>
     (case log_get r op of
        None \<Rightarrow> False
      | Some e \<Rightarrow> le_commits e \<noteq> [] \<and> (\<forall>(i, m)\<in>set (le_commits e). cm_digest (inner m) = d))"

text \<open>
  What signatures give. A certificate's commit that names a replica outside \<open>F\<close> verified under that
  replica's key, so that replica had signed its bytes: as a commit, or as a prepare
  (\<open>vote_feed_fields\<close>; its pre-prepares write other bytes, \<open>pre_prepare_feed_not_vote\<close>).
\<close>

definition signed_votes :: "('s, 'a) replica \<Rightarrow> bytes set" where
  "signed_votes r =
     prepare_feed ` set (signed_prepares (works r)) \<union> commit_feed ` set (signed_commits (works r))"

definition commits_unforged ::
  "(u8 \<Rightarrow> ('s, 'a) replica) \<Rightarrow> u8 set \<Rightarrow> ('s, 'a) replica \<Rightarrow> u32 \<Rightarrow> bool" where
  "commits_unforged sys F r op \<longleftrightarrow>
     (case log_get r op of
        None \<Rightarrow> True
      | Some e \<Rightarrow> \<forall>(i, m)\<in>set (le_commits e). unat i < r_num_replica r \<and>
          (i \<notin> F \<longrightarrow> commit_feed (inner m) \<in> signed_votes (sys i)))"

lemma signed_votes_digest:
  assumes "commit_feed m \<in> signed_votes r"
  shows "cm_digest m \<in> signed_digests r (cm_op_num m)"
  using assms
proof (unfold signed_votes_def, elim UnE imageE)
  fix p assume "commit_feed m = prepare_feed p" "p \<in> set (signed_prepares (works r))"
  then show ?thesis using vote_feed_fields(1) [of p m] by (force simp: signed_digests_def)
next
  fix m' assume "commit_feed m = commit_feed m'" "m' \<in> set (signed_commits (works r))"
  then show ?thesis using vote_feed_fields(2) [of m' m] by (force simp: signed_digests_def)
qed

lemma commit_certificate_quorum:
  assumes "certified r" and "commits_for r op d" and "commits_unforged sys F r op"
    and "r_num_replica r = n" "r_num_faulty r = f" "3 * f < n" "card F \<le> f"
  obtains A where "byzantine_quorum n f F A"
    "\<And>i. i \<in> A \<Longrightarrow> i \<notin> F \<Longrightarrow> d \<in> signed_digests (sys i) op"
proof -
  from assms(2) obtain e where e: "log_get r op = Some e" "le_commits e \<noteq> []"
    "\<forall>(i, m)\<in>set (le_commits e). cm_digest (inner m) = d"
    by (auto simp: commits_for_def split: option.splits)
  with assms(1,4,5) have ok: "entry_ok (sub_usize n f) (r_view_num r) (unat op) e"
    by (auto simp: log_get_Some certified_def)
  let ?A = "fst ` set (le_commits e)"
  have "card ?A = length (le_commits e)"
    using ok by (simp add: entry_ok_def length_hm_card)
  moreover have "n - f \<le> length (le_commits e)"
    using ok e(2) assms(6) by (simp add: entry_ok_def)
  ultimately have "byzantine_quorum n f F ?A"
    using assms(3,4,6,7) e(1) by (force simp: byzantine_quorum_def commits_unforged_def)
  moreover have "d \<in> signed_digests (sys i) op" if "i \<in> ?A" "i \<notin> F" for i
  proof -
    from that(1) obtain m where m: "(i, m) \<in> set (le_commits e)" by auto
    with assms(3) that(2) e(1) have "commit_feed (inner m) \<in> signed_votes (sys i)"
      by (auto simp: commits_unforged_def)
    moreover have "cm_op_num (inner m) = op"
      using ok m by (auto simp: entry_ok_def commit_ok_def word_unat_eq_iff)
    moreover have "cm_digest (inner m) = d" using e(3) m by auto
    ultimately show ?thesis using signed_votes_digest by metis
  qed
  ultimately show thesis by (rule that)
qed

end
