(* ===== verification/Pbft_Client.thy ===== *)
theory Pbft_Client
  imports Pbft_Messages
begin

text \<open>
  \<open>src/src/pbft.rs\<close>, \<open>Client\<close>: its state, the handlers of \<open>Invoke\<close>, \<open>Resend\<close> and \<open>Recv<Reply>\<close>,
  and \<open>do_send\<close>. The timer is the record \<open>rich_timer\<close> of its two operations with a state of any
  type.

  The lemmas: in every state the client reaches, fewer than \<open>f + 1\<close> of the collected replies
  agree on a result, and the collected replies are the last ones received from their replicas for
  the current sequence number; so a result goes up exactly when \<open>f + 1\<close> distinct replicas agree.
\<close>

section \<open>State and handlers\<close>

datatype client_timer_event = Resend

record client_invoke =
  ci_op :: payload
  ci_resend_timer :: timer_id
  ci_replies :: "(u8, reply) hmap"

record 'a client =
  c_id :: u32
  c_addr :: 'a
  c_seq :: u32
  c_invoke :: "client_invoke option"
  c_view_num :: u32
  c_num_replica :: usize
  c_num_faulty :: usize
  c_net :: "'a replica_net"
  c_upcall :: "(u32 \<times> payload) sink"

definition client_new ::
  "u32 \<Rightarrow> 'a \<Rightarrow> 'a replica_net \<Rightarrow> (u32 \<times> payload) sink \<Rightarrow> usize \<Rightarrow> usize \<Rightarrow> 'a client" where
  "client_new i addr net upcall num_replica num_faulty =
     \<lparr>c_id = i, c_addr = addr, c_seq = 0, c_invoke = None, c_view_num = 0,
      c_num_replica = num_replica, c_num_faulty = num_faulty, c_net = net, c_upcall = upcall\<rparr>"

definition client_do_send :: "dest \<Rightarrow> 'a client \<Rightarrow> (unit, 'a client) outcome" where
  "client_do_send dest c =
     (case c_invoke c of
        None \<Rightarrow> Err (Panic ''called unwrap on a None value'') c
      | Some invoke \<Rightarrow>
          lift_outcome (\<lambda>n. c\<lparr>c_net := n\<rparr>)
            (push_sink
               (dest, Request \<lparr>rq_client_id = c_id c, rq_client_addr = c_addr c, rq_seq = c_seq c,
                               rq_op = ci_op invoke\<rparr>)
               (c_net c)))"

definition client_on_invoke ::
  "(client_timer_event, 't) rich_timer \<Rightarrow> payload \<Rightarrow> 'a client \<times> 't \<Rightarrow>
   (unit, 'a client \<times> 't) outcome" where
  "client_on_invoke timer op s =
     (case s of (c, t) \<Rightarrow>
        if c_invoke c \<noteq> None then Err (Bail ''concurrent invocation'') (c, t)
        else
          let c1 = c\<lparr>c_seq := c_seq c + 1\<rparr> in
          and_then (lift_outcome (Pair c1) (rt_set timer 1000 Resend t)) (\<lambda>resend_timer (_, t').
            let c2 = c1\<lparr>c_invoke := Some \<lparr>ci_op = op, ci_resend_timer = resend_timer,
                                           ci_replies = []\<rparr>\<rparr>
            in if c_num_replica c2 = 0 then Err (Panic ''remainder with a divisor of zero'') (c2, t')
               else lift_outcome (\<lambda>c3. (c3, t'))
                      (client_do_send
                         (Index (of_nat (unat (c_view_num c2) mod c_num_replica c2))) c2)))"

definition client_on_resend :: "'a client \<times> 't \<Rightarrow> (unit, 'a client \<times> 't) outcome" where
  "client_on_resend s = Ok () s"

definition matching :: "(u8, reply) hmap \<Rightarrow> payload \<Rightarrow> nat" where
  "matching replies result = length (filter (\<lambda>(_, r). rp_result r = result) replies)"

definition client_on_reply ::
  "(client_timer_event, 't) rich_timer \<Rightarrow> reply \<Rightarrow> 'a client \<times> 't \<Rightarrow>
   (unit, 'a client \<times> 't) outcome" where
  "client_on_reply timer reply s =
     (case s of (c, t) \<Rightarrow>
        if rp_seq reply \<noteq> c_seq c then Ok () (c, t)
        else case c_invoke c of
            None \<Rightarrow> Ok () (c, t)
          | Some invoke \<Rightarrow>
              let replies = hm_insert (rp_replica_id reply) reply (ci_replies invoke);
                  invoke1 = invoke\<lparr>ci_replies := replies\<rparr>;
                  c1 = c\<lparr>c_invoke := Some invoke1\<rparr>
              in if matching replies (rp_result reply) = c_num_faulty c + 1 then
                   let c2 = c1\<lparr>c_view_num := rp_view_num reply, c_invoke := None\<rparr> in
                   and_then (lift_outcome (Pair c2) (rt_unset timer (ci_resend_timer invoke1) t))
                     (\<lambda>_ (c3, t'). lift_outcome (\<lambda>u. (c3\<lparr>c_upcall := u\<rparr>, t'))
                        (push_sink (c_id c3, rp_result reply) (c_upcall c3)))
                 else Ok () (c1, t))"

datatype client_event = Invoke payload | RecvReply reply | ResendTimer

fun client_on_event ::
  "(client_timer_event, 't) rich_timer \<Rightarrow> client_event \<Rightarrow> 'a client \<times> 't \<Rightarrow>
   (unit, 'a client \<times> 't) outcome" where
  "client_on_event timer (Invoke op) s = client_on_invoke timer op s"
| "client_on_event timer (RecvReply reply) s = client_on_reply timer reply s"
| "client_on_event timer ResendTimer s = client_on_resend s"

text \<open>A run of the client: events handled one after the other, each without an error.\<close>

fun client_run ::
  "(client_timer_event, 't) rich_timer \<Rightarrow> client_event list \<Rightarrow> 'a client \<times> 't \<Rightarrow>
   (unit, 'a client \<times> 't) outcome" where
  "client_run timer [] s = Ok () s"
| "client_run timer (e # es) s = and_then (client_on_event timer e s) (\<lambda>_. client_run timer es)"

section \<open>What the client has collected\<close>

text \<open>
  The last reply of replica \<open>i\<close> with sequence number \<open>seq\<close> since the last invocation, in the
  events of a run with the most recent first.
\<close>

fun last_reply :: "client_event list \<Rightarrow> u32 \<Rightarrow> u8 \<Rightarrow> reply option" where
  "last_reply [] seq i = None"
| "last_reply (Invoke _ # es) seq i = None"
| "last_reply (ResendTimer # es) seq i = last_reply es seq i"
| "last_reply (RecvReply r # es) seq i =
     (if rp_seq r = seq \<and> rp_replica_id r = i then Some r else last_reply es seq i)"

lemma last_reply_received:
  "last_reply es seq i = Some r \<Longrightarrow>
     RecvReply r \<in> set es \<and> rp_seq r = seq \<and> rp_replica_id r = i"
  by (induction es seq i rule: last_reply.induct) (auto split: if_splits)

definition collected :: "nat \<Rightarrow> client_event list \<Rightarrow> 'a client \<Rightarrow> bool" where
  "collected f es c \<longleftrightarrow> c_num_faulty c = f \<and>
     (\<forall>invoke. c_invoke c = Some invoke \<longrightarrow>
        hm_wf (ci_replies invoke) \<and>
        (\<forall>i. hm_get (ci_replies invoke) i = last_reply (rev es) (c_seq c) i) \<and>
        (\<forall>result. matching (ci_replies invoke) result \<le> f))"

lemma matching_Nil [simp]: "matching [] result = 0"
  by (simp add: matching_def)

lemma matching_insert:
  "matching (hm_insert k r m) result \<le>
     matching m result + (if rp_result r = result then 1 else 0)"
  by (induction m) (auto simp: matching_def)

lemma matching_card:
  assumes "hm_wf m"
  shows "matching m result = card {i. \<exists>r. hm_get m i = Some r \<and> rp_result r = result}"
proof -
  let ?P = "\<lambda>_ r. rp_result r = result"
  have wf: "hm_wf (hm_retain ?P m)" using assms by simp
  have "matching m result = length (hm_retain ?P m)"
    by (simp add: matching_def hm_retain_def)
  also have "\<dots> = card (fst ` set (hm_retain ?P m))"
    by (rule length_hm_card [OF wf])
  also have "fst ` set (hm_retain ?P m) = {i. \<exists>r. hm_get m i = Some r \<and> rp_result r = result}"
    using hm_mem_get [OF assms] by force
  finally show ?thesis .
qed

text \<open>One handled event.\<close>

lemma client_invoke_Ok:
  assumes "client_on_invoke timer op (c, t) = Ok () (c', t')"
  shows "c_invoke c = None \<and> c_num_faulty c' = c_num_faulty c \<and> c_upcall c' = c_upcall c \<and>
    c_id c' = c_id c \<and> c_seq c' = c_seq c + 1 \<and>
    (\<exists>i. c_invoke c' = Some \<lparr>ci_op = op, ci_resend_timer = i, ci_replies = []\<rparr>)"
  using assms
  by (auto simp: client_on_invoke_def client_do_send_def Let_def and_then_Ok_iff
      lift_outcome_Ok_iff split: if_splits)

lemma client_reply_cases:
  assumes "client_on_reply timer r (c, t) = Ok () (c', t')"
  obtains (ignored) "c' = c" "rp_seq r \<noteq> c_seq c \<or> c_invoke c = None"
  | (stored) invoke m where "rp_seq r = c_seq c" "c_invoke c = Some invoke"
      "m = hm_insert (rp_replica_id r) r (ci_replies invoke)"
      "matching m (rp_result r) \<noteq> c_num_faulty c + 1"
      "c' = c\<lparr>c_invoke := Some (invoke\<lparr>ci_replies := m\<rparr>)\<rparr>"
  | (completed) invoke m u where "rp_seq r = c_seq c" "c_invoke c = Some invoke"
      "m = hm_insert (rp_replica_id r) r (ci_replies invoke)"
      "matching m (rp_result r) = c_num_faulty c + 1"
      "c' = c\<lparr>c_view_num := rp_view_num r, c_invoke := None, c_upcall := u\<rparr>"
      "sent u = sent (c_upcall c) @ [(c_id c, rp_result r)]"
proof (cases "c_invoke c")
  case None
  with assms ignored show thesis by (auto simp: client_on_reply_def split: if_splits)
next
  case (Some invoke)
  with assms ignored stored [OF _ Some] completed [OF _ Some] show thesis
    by (auto simp: client_on_reply_def Let_def and_then_Ok_iff lift_outcome_Ok_iff
        split: if_splits)
qed

lemma collected_step:
  assumes "collected f es c" and "client_on_event timer e (c, t) = Ok () (c', t')"
  shows "collected f (es @ [e]) c'"
proof (cases e)
  case (Invoke op)
  with client_invoke_Ok [of timer op c t c' t'] assms show ?thesis
    by (auto simp: collected_def)
next
  case ResendTimer
  with assms show ?thesis by (auto simp: collected_def client_on_resend_def)
next
  case (RecvReply r)
  with assms(2) have ok: "client_on_reply timer r (c, t) = Ok () (c', t')" by simp
  from ok show ?thesis
  proof (cases rule: client_reply_cases)
    case ignored
    with assms(1) RecvReply show ?thesis by (auto simp: collected_def)
  next
    case completed
    with assms(1) show ?thesis by (simp add: collected_def)
  next
    case (stored invoke m)
    have wf: "hm_wf (ci_replies invoke)"
      and get: "\<And>j. hm_get (ci_replies invoke) j = last_reply (rev es) (c_seq c) j"
      and small: "\<And>result. matching (ci_replies invoke) result \<le> f" and f: "c_num_faulty c = f"
      using assms(1) stored(2) by (auto simp: collected_def)
    have "matching m result \<le> f" for result
    proof -
      have "matching m result \<le> matching (ci_replies invoke) result +
          (if rp_result r = result then 1 else 0)"
        unfolding stored(3) by (rule matching_insert)
      with small [of result] stored(4) f show ?thesis by (auto split: if_splits)
    qed
    moreover have "hm_get m j = last_reply (rev (es @ [e])) (c_seq c) j" for j
      using get [of j] stored(1,3) RecvReply by simp
    moreover have "hm_wf m" unfolding stored(3) using wf by simp
    ultimately show ?thesis using stored(5) f by (simp add: collected_def)
  qed
qed

lemma client_run_append:
  "client_run timer (es @ es') s =
     and_then (client_run timer es s) (\<lambda>_. client_run timer es')"
proof (induction es arbitrary: s)
  case Nil
  show ?case by simp
next
  case (Cons e es)
  then show ?case by (cases "client_on_event timer e s") simp_all
qed

lemma collected_run:
  assumes "client_run timer es (client_new i addr net upcall n f, t0) = Ok () (c, t)"
  shows "collected f es c"
  using assms
proof (induction es arbitrary: c t rule: rev_induct)
  case Nil
  then show ?case by (auto simp: collected_def client_new_def)
next
  case (snoc e es)
  then obtain c1 t1 where
    "client_run timer es (client_new i addr net upcall n f, t0) = Ok () (c1, t1)"
    "client_on_event timer e (c1, t1) = Ok () (c, t)"
    by (cases "client_run timer es (client_new i addr net upcall n f, t0)")
      (auto simp: client_run_append and_then_Ok_iff)
  from collected_step [OF snoc.IH [OF this(1)] this(2)] show ?case .
qed

end
