(* ===== verification/Pbft_Correct.thy ===== *)
theory Pbft_Correct
  imports Pbft_Agreement Pbft_Client
begin

text \<open>
  The properties of the PBFT client and replica, each with a concrete instance: four replicas
  tolerating one fault, and a run of one operation from its verified pre-prepare to its execution.
\<close>

section \<open>A concrete run\<close>

definition sample_lib :: crypto_lib where
  "sample_lib =
     \<lparr>lib_sha256 = (\<lambda>bs. take 32 (bs @ replicate 32 0)), lib_secp_secret = Some,
      lib_secp_public = (\<lambda>k. k), lib_secp_sign = (\<lambda>d k. d @ k),
      lib_secp_verify = (\<lambda>d s k. s = d @ k), lib_schnorr_expand = Some,
      lib_schnorr_public = (\<lambda>k. k), lib_schnorr_sign = (\<lambda>k m. m @ k),
      lib_schnorr_verify = (\<lambda>k m s. s = m @ k)\<rparr>"

definition sample_env :: "(nat, nat) env" where
  "sample_env = \<lparr>env_lib = sample_lib, env_addr_feed = (\<lambda>a. write_usize a),
     env_execute = (\<lambda>op s. Ok (rev op) (s + length op))\<rparr>"

definition sample_replica :: "u8 \<Rightarrow> (nat, nat) replica" where
  "sample_replica i = replica_new i 0 open_sink open_sink (Spawn open_sink) 4 1"

definition sample_signed :: "'m \<Rightarrow> 'm verifiable" where
  "sample_signed m = \<lparr>inner = m, signature = SigSecp256k1 []\<rparr>"

definition sample_request :: "u32 \<Rightarrow> nat request" where
  "sample_request seq = \<lparr>rq_client_id = 5, rq_client_addr = 9, rq_seq = seq, rq_op = [1, 2]\<rparr>"

definition sample_pre_prepare :: "u32 \<Rightarrow> digest \<Rightarrow> nat replica_event" where
  "sample_pre_prepare op d = Crypto (VerifiedPrePrepare
     (sample_signed \<lparr>pp_view_num = 0, pp_op_num = op, pp_digest = d\<rparr>) [sample_request op])"

definition sample_prepare :: "u32 \<Rightarrow> digest \<Rightarrow> u8 \<Rightarrow> nat replica_event" where
  "sample_prepare op d i = Crypto (VerifiedPrepare
     (sample_signed \<lparr>pr_view_num = 0, pr_op_num = op, pr_digest = d, pr_replica_id = i\<rparr>))"

definition sample_commit :: "u32 \<Rightarrow> digest \<Rightarrow> u8 \<Rightarrow> nat replica_event" where
  "sample_commit op d i = Crypto (VerifiedCommit
     (sample_signed \<lparr>cm_view_num = 0, cm_op_num = op, cm_digest = d, cm_replica_id = i\<rparr>))"

definition sample_events :: "nat replica_event list" where
  "sample_events = [sample_pre_prepare 1 [7], sample_prepare 1 [7] 1, sample_prepare 1 [7] 2,
     sample_commit 1 [7] 0, sample_commit 1 [7] 1, sample_commit 1 [7] 2]"

definition sample_state :: "u8 \<Rightarrow> (nat, nat) replica" where
  "sample_state i = after (replica_run sample_env sample_events (sample_replica i))"

lemma Ok_after: "is_ok (m :: (unit, 's) outcome) \<Longrightarrow> m = Ok () (after m)"
  by (cases m) auto

lemma sample_run:
  assumes "i = 0 \<or> i = 1 \<or> i = 2"
  shows "replica_run sample_env sample_events (sample_replica i) = Ok () (sample_state i)"
proof -
  have "is_ok (replica_run sample_env sample_events (sample_replica 0))" by code_simp
  moreover have "is_ok (replica_run sample_env sample_events (sample_replica 1))" by code_simp
  moreover have "is_ok (replica_run sample_env sample_events (sample_replica 2))" by code_simp
  ultimately show ?thesis unfolding sample_state_def using assms Ok_after by blast
qed

lemma sample_committed:
  "commits_for (sample_state 0) 1 [7]" "commits_for (sample_state 1) 1 [7]"
  by code_simp+

section \<open>A run of a divided replica\<close>

text \<open>
  Replica 0, the primary, is faulty: it proposes \<open>[7]\<close> to replica 1 and \<open>[8]\<close> to the others, and to
  replica 3 the second operation first. Replica 3 has then a slot for operation 1 without a
  pre-prepare, in which the prepares of 0 and 1 are a certificate of \<open>[7]\<close>: it commits \<open>[7]\<close>, the
  prepare of replica 1 replayed as its commit, and accepts afterwards the pre-prepare of \<open>[8]\<close>. Its
  prepare of \<open>[8]\<close>, replayed as a commit, is the third commit of \<open>[8]\<close> of replica 2.
\<close>

definition own_prepare :: "u32 \<Rightarrow> digest \<Rightarrow> u8 \<Rightarrow> nat replica_event" where
  "own_prepare op d i = Crypto (SignedPrepare
     (sample_signed \<lparr>pr_view_num = 0, pr_op_num = op, pr_digest = d, pr_replica_id = i\<rparr>))"

definition own_commit :: "u32 \<Rightarrow> digest \<Rightarrow> u8 \<Rightarrow> nat replica_event" where
  "own_commit op d i = Crypto (SignedCommit
     (sample_signed \<lparr>cm_view_num = 0, cm_op_num = op, cm_digest = d, cm_replica_id = i\<rparr>))"

definition split_events :: "u8 \<Rightarrow> nat replica_event list" where
  "split_events i =
     (if i = 1 then [sample_pre_prepare 1 [7], own_prepare 1 [7] 1]
      else if i = 2 then
        [sample_pre_prepare 1 [8], own_prepare 1 [8] 2, sample_prepare 1 [8] 0,
         sample_prepare 1 [8] 3, own_commit 1 [8] 2, sample_commit 1 [8] 0, sample_commit 1 [8] 3]
      else
        [sample_pre_prepare 2 [9], own_prepare 2 [9] 3, sample_prepare 1 [7] 0,
         sample_prepare 1 [7] 1, own_commit 1 [7] 3, sample_commit 1 [7] 0, sample_commit 1 [7] 1,
         sample_pre_prepare 1 [8], own_prepare 1 [8] 3])"

definition split_state :: "u8 \<Rightarrow> (nat, nat) replica" where
  "split_state i = after (replica_run sample_env (split_events i) (sample_replica i))"

lemma split_run:
  assumes "i = 1 \<or> i = 2 \<or> i = 3"
  shows "replica_run sample_env (split_events i) (sample_replica i) = Ok () (split_state i)"
proof -
  have "is_ok (replica_run sample_env (split_events 1) (sample_replica 1))" by code_simp
  moreover have "is_ok (replica_run sample_env (split_events 2) (sample_replica 2))" by code_simp
  moreover have "is_ok (replica_run sample_env (split_events 3) (sample_replica 3))" by code_simp
  ultimately show ?thesis unfolding split_state_def using assms Ok_after by blast
qed

lemma split_committed:
  "commits_for (split_state 3) 1 [7]" "commits_for (split_state 2) 1 [8]"
  by code_simp+

lemma split_unforged:
  "commits_unforged split_state {0} (split_state 3) 1"
  "commits_unforged split_state {0} (split_state 2) 1"
  by code_simp+

section \<open>Agreement\<close>

text \<open>C1: agreement, and the one way it fails. With at most f faulty replicas of n > 3 f, two correct
  replicas that committed an operation, each with a certificate of one digest, committed the same
  digest, or some correct replica signed a prepare of one digest and a commit of another for that
  operation. A correct replica is one whose state a run of handled events reaches from its initial
  state. Signatures are unforgeable for bytes only: whenever a certificate has a commit in the name
  of a correct replica, that replica had signed those bytes, as a commit or as a prepare, which
  writes the same bytes. The second case occurs (the run above): a correct replica can commit one
  digest in a slot that has no pre-prepare yet and accept the pre-prepare of another afterwards, and
  its prepare then counts as its commit elsewhere.\<close>

theorem pbft_agreement:
  fixes sys :: "u8 \<Rightarrow> ('s, 'a) replica"
  assumes "3 * f < n" and "card F \<le> f"
    and "\<forall>i. i \<notin> F \<and> unat i < n \<longrightarrow>
      (\<exists>env es app net cnet.
         replica_run env es (replica_new i app net cnet (Spawn open_sink) n f) = Ok () (sys i))"
    and "a \<notin> F" and "unat a < n" and "b \<notin> F" and "unat b < n"
    and "commits_unforged sys F (sys a) op" and "commits_unforged sys F (sys b) op"
    and "commits_for (sys a) op d" and "commits_for (sys b) op d'"
  shows "d = d' \<or> (\<exists>i. i \<notin> F \<and> unat i < n \<and> divided (sys i) op)"
proof -
  have reached: "certified (sys i)" "r_num_replica (sys i) = n" "r_num_faulty (sys i) = f"
    "once_signed (sys i)" if "i \<notin> F" "unat i < n" for i
  proof -
    from assms(3) that obtain env es app net cnet where
      run: "replica_run env es (replica_new i app net cnet (Spawn open_sink) n f) = Ok () (sys i)"
      by blast
    show "certified (sys i)" by (rule certified_run [OF run])
    show "once_signed (sys i)" by (rule once_signed_run(1) [OF run])
    show "r_num_replica (sys i) = n" "r_num_faulty (sys i) = f"
      using config_run [OF run] by (simp_all add: config_of_def replica_new_def)
  qed
  obtain A where A: "byzantine_quorum n f F A"
      "\<And>i. i \<in> A \<Longrightarrow> i \<notin> F \<Longrightarrow> d \<in> signed_digests (sys i) op"
    using commit_certificate_quorum
      [OF reached(1) [OF assms(4,5)] assms(10,8) reached(2,3) [OF assms(4,5)] assms(1,2)]
    by metis
  obtain B where B: "byzantine_quorum n f F B"
      "\<And>i. i \<in> B \<Longrightarrow> i \<notin> F \<Longrightarrow> d' \<in> signed_digests (sys i) op"
    using commit_certificate_quorum
      [OF reached(1) [OF assms(6,7)] assms(11,9) reached(2,3) [OF assms(6,7)] assms(1,2)]
    by metis
  have small: "unat i < n" if "i \<in> A \<or> i \<in> B" for i
    using that A(1) B(1) by (auto simp: byzantine_quorum_def)
  show ?thesis
  proof (rule disjCI)
    assume "\<not> (\<exists>i. i \<notin> F \<and> unat i < n \<and> divided (sys i) op)"
    then have "votes sys op i = signed_digests (sys i) op" if "i \<notin> F" "unat i < n" for i
      using that reached(4) by (auto simp: votes_def)
    with A(2) B(2) small show "d = d'"
      by (intro commits.chosen_agree [where sys = sys and op = op, OF A(1) B(1)]) auto
  qed
qed

lemma pbft_agreement_witness:
  "commits_for (split_state 3) 1 [7] \<and> commits_for (split_state 2) 1 [8] \<and>
   (\<exists>i. i \<notin> {0} \<and> unat i < 4 \<and> divided (split_state i) 1)"
proof -
  have small: "i = 1 \<or> i = 2 \<or> i = 3" if "i \<notin> {0}" "unat i < 4" for i :: u8
  proof -
    have "unat i = 0 \<or> unat i = 1 \<or> unat i = 2 \<or> unat i = 3" using that(2) by auto
    with that(1) show ?thesis by (auto simp: word_unat_eq_iff)
  qed
  have runs: "\<forall>i. i \<notin> {0} \<and> unat i < 4 \<longrightarrow> (\<exists>env es app net cnet.
      replica_run env es (replica_new i app net cnet (Spawn open_sink) 4 1) =
        Ok () (split_state i))"
  proof (intro allI impI)
    fix i :: u8 assume "i \<notin> {0} \<and> unat i < 4"
    with small have "i = 1 \<or> i = 2 \<or> i = 3" by simp
    note run = split_run [OF this, unfolded sample_replica_def]
    show "\<exists>env es app net cnet. replica_run env es
        (replica_new i app net cnet (Spawn open_sink) 4 1) = Ok () (split_state i)"
      by (intro exI) (rule run)
  qed
  have conf: "3 * 1 < (4 :: nat)" "card {0 :: u8} \<le> 1" by simp_all
  have ids: "(3 :: u8) \<notin> {0}" "unat (3 :: u8) < 4" "(2 :: u8) \<notin> {0}" "unat (2 :: u8) < 4"
    by simp_all
  from pbft_agreement [OF conf runs ids split_unforged split_committed] split_committed
  show ?thesis by simp
qed

section \<open>The replica\<close>

text \<open>C2: certificates. In every state a replica reaches, a committed slot holds commits of at least
  n - f distinct replicas and is prepared, a prepared slot holds prepares of at least n - f - 1
  distinct replicas, and all of them are for the operation of the slot, under their own replica id
  and in the replica's view.\<close>

theorem pbft_certificates:
  assumes "replica_run env es (replica_new i app net cnet k n f) = Ok () r" and "f \<le> n"
    and "op < length (r_log r)" and "e = r_log r ! op"
  shows "(le_commits e = [] \<or> n - f \<le> card (fst ` set (le_commits e)) \<and> le_prepares e \<noteq> []) \<and>
    (le_prepares e = [] \<or> n - f \<le> card (fst ` set (le_prepares e)) + 1) \<and>
    (\<forall>(j, m)\<in>set (le_commits e). cm_replica_id (inner m) = j \<and>
       unat (cm_op_num (inner m)) = op \<and> cm_view_num (inner m) = r_view_num r) \<and>
    (\<forall>(j, p)\<in>set (le_prepares e). pr_replica_id (inner p) = j \<and>
       unat (pr_op_num (inner p)) = op \<and> pr_view_num (inner p) = r_view_num r)"
proof -
  have "r_num_replica r = n" "r_num_faulty r = f"
    using config_run [OF assms(1)] by (simp_all add: config_of_def replica_new_def)
  with certified_D(3) [OF certified_run [OF assms(1)] assms(3)] assms(2,4)
  have "entry_ok (n - f) (r_view_num r) op e" by simp
  then show ?thesis
    by (auto simp: entry_ok_def prepare_ok_def commit_ok_def length_hm_card [symmetric])
qed

lemma sample_run_1:
  "replica_run sample_env sample_events (replica_new 1 0 open_sink open_sink (Spawn open_sink) 4 1) =
     Ok () (sample_state 1)"
  using sample_run [of 1] by (simp add: sample_replica_def)

lemma sample_log:
  "length (r_log (sample_state 1)) = 2" "le_commits (r_log (sample_state 1) ! 1) \<noteq> []"
  "r_commit_num (sample_state 1) = 1"
  by code_simp+

lemma pbft_certificates_witness:
  "3 \<le> card (fst ` set (le_commits (r_log (sample_state 1) ! 1)))"
  using pbft_certificates [OF sample_run_1, of 1] sample_log by simp

text \<open>C3: execution. One handled event executes exactly the requests of the slots that are committed in
  sequence after the last executed one, in the order of the log: the application is run over their
  operations, the commit number advances by that many slots, and a commit event sends each
  request's client the result, in order.\<close>

theorem pbft_executes_in_order:
  assumes "replica_run env es (replica_new i app net cnet k n f) = Ok () r"
    and "replica_on_event env e r = Ok () r'"
  shows "\<exists>results.
    app_run env (map rq_op (concat (map le_requests (newly_executed r r')))) (r_app r) =
      Some (results, r_app r') \<and>
    r_commit_num r' = r_commit_num r + of_nat (length (newly_executed r r')) \<and>
    (\<not> is_commit_event e \<or>
       sent (r_client_net r') = sent (r_client_net r) @
         map2 (reply_for r) (concat (map le_requests (newly_executed r r'))) results)"
proof -
  have "length (r_log r) \<le> 2 ^ 32 \<and> caught_up r"
    using replica_run_induct [where P = "\<lambda>_. True", OF assms(1)] caught_up_run [OF assms(1)]
    by (simp add: caught_up_def)
  with event_executes [OF assms(2)] show ?thesis by blast
qed

definition sample_before :: "(nat, nat) replica" where
  "sample_before = after (replica_run sample_env (butlast sample_events) (sample_replica 1))"

lemma sample_last_event:
  "replica_run sample_env (butlast sample_events)
     (replica_new 1 0 open_sink open_sink (Spawn open_sink) 4 1) = Ok () sample_before"
  "replica_on_event sample_env (sample_commit 1 [7] 2) sample_before = Ok () (sample_state 1)"
proof -
  have "is_ok (replica_run sample_env (butlast sample_events) (sample_replica 1))" by code_simp
  then show "replica_run sample_env (butlast sample_events)
     (replica_new 1 0 open_sink open_sink (Spawn open_sink) 4 1) = Ok () sample_before"
    unfolding sample_before_def sample_replica_def by (rule Ok_after)
  have "is_ok (replica_on_event sample_env (sample_commit 1 [7] 2) sample_before)" by code_simp
  moreover have "sample_events = butlast sample_events @ [sample_commit 1 [7] 2]"
    by (simp add: sample_events_def)
  then have "sample_state 1 =
      after (replica_on_event sample_env (sample_commit 1 [7] 2) sample_before)"
    unfolding sample_state_def sample_before_def by code_simp
  ultimately show "replica_on_event sample_env (sample_commit 1 [7] 2) sample_before =
      Ok () (sample_state 1)"
    using Ok_after by metis
qed

lemma sample_executes:
  "concat (map le_requests (newly_executed sample_before (sample_state 1))) = [sample_request 1]"
  "r_app sample_before = 0"
  by code_simp+

lemma pbft_executes_in_order_witness: "r_app (sample_state 1) = 2"
  using pbft_executes_in_order [OF sample_last_event] sample_executes
  by (auto simp: sample_request_def sample_env_def)

text \<open>C4: the executed prefix. In every state a replica reaches, the slots 1 to commit_num are in
  the log and committed, and the next one is not committed: nothing executable is left over.\<close>

theorem pbft_executed_prefix:
  assumes "replica_run env es (replica_new i app net cnet k n f) = Ok () r"
  shows "(\<forall>op. 0 < op \<and> op \<le> unat (r_commit_num r) \<longrightarrow> committed_at r op) \<and>
    \<not> committed_at r (unat (r_commit_num r) + 1)"
  using executed_prefix_run [OF assms] caught_up_run [OF assms]
  by (simp add: executed_prefix_def caught_up_def committed_at_def)

lemma pbft_executed_prefix_witness:
  "committed_at (sample_state 1) 1 \<and> \<not> committed_at (sample_state 1) 2"
  using pbft_executed_prefix [OF sample_run_1] sample_log by (auto simp: numeral_2_eq_2)

text \<open>C5: at most one vote. Over a run, a replica asks its worker for at most one prepare and one
  commit per operation, in its own view and name; the prepare is for the digest of the pre-prepare in
  the slot, the commit for the digest of a prepare in the slot's certificate.\<close>

theorem pbft_signs_once:
  assumes "replica_run env es (replica_new i app net cnet (Spawn open_sink) n f) = Ok () r"
  shows "distinct (map pr_op_num (signed_prepares (works r))) \<and>
    distinct (map cm_op_num (signed_commits (works r))) \<and>
    (\<forall>p\<in>set (signed_prepares (works r)). pr_view_num p = r_view_num r \<and> pr_replica_id p = i \<and>
       (\<exists>m. slot_pre_prepare r (pr_op_num p) = Some m \<and> pp_digest (inner m) = pr_digest p)) \<and>
    (\<forall>m\<in>set (signed_commits (works r)). cm_view_num m = r_view_num r \<and> cm_replica_id m = i \<and>
       (\<exists>ip\<in>set (slot_prepares r (cm_op_num m)). pr_digest (inner (snd ip)) = cm_digest m))"
proof -
  have "r_id r = i" using config_run [OF assms] by (simp add: config_of_def replica_new_def)
  with once_signed_run(1) [OF assms] show ?thesis by (simp add: once_signed_def)
qed

lemma sample_signed_commits:
  "signed_commits (works (sample_state 1)) =
     [\<lparr>cm_view_num = 0, cm_op_num = 1, cm_digest = [7], cm_replica_id = 1\<rparr>]"
  by code_simp

lemma pbft_signs_once_witness:
  "\<exists>ip\<in>set (slot_prepares (sample_state 1) 1). pr_digest (inner (snd ip)) = [7]"
  using pbft_signs_once [OF sample_run_1] sample_signed_commits by simp

text \<open>Proposals. Over a run the primary proposes the operation numbers 1, 2, 3, ... (as 32-bit
  words) in this order, its op_num is the number of proposals, every batch has 1 to 100 requests,
  and each client's requests are batched with strictly increasing sequence numbers, so none is
  batched twice.\<close>

theorem pbft_proposals:
  assumes "replica_run env es (replica_new i app net cnet (Spawn open_sink) n f) = Ok () r"
  shows "r_op_num r = of_nat (length (proposals (works r))) \<and>
    map fst (proposals (works r)) = map of_nat [1..<Suc (length (proposals (works r)))] \<and>
    (\<forall>(op, qs)\<in>set (proposals (works r)). 0 < length qs \<and> length qs \<le> 100) \<and>
    (\<forall>client. sorted_wrt (<)
       (map rq_seq (filter (\<lambda>q. rq_client_id q = client) (batched r))))"
  using proposals_ok_run [OF assms] by (auto simp: proposals_ok_def)

definition sample_requests :: "nat replica_event list" where
  "sample_requests = map (\<lambda>seq. Net (RecvRequest (sample_request seq))) [1, 2, 2, 1]"

definition sample_primary :: "(nat, nat) replica" where
  "sample_primary = after (replica_run sample_env sample_requests (sample_replica 0))"

lemma sample_primary_run:
  "replica_run sample_env sample_requests
     (replica_new 0 0 open_sink open_sink (Spawn open_sink) 4 1) = Ok () sample_primary"
proof -
  have "is_ok (replica_run sample_env sample_requests (sample_replica 0))" by code_simp
  then show ?thesis unfolding sample_primary_def sample_replica_def by (rule Ok_after)
qed

lemma sample_primary_commit: "r_commit_num sample_primary = 0"
  by code_simp

lemma sample_primary_state:
  "proposals (works sample_primary) = [(1, [sample_request 1])]"
  "map rq_seq (batched sample_primary) = [1, 2]"
  by code_simp+

lemma pbft_proposals_witness:
  "r_op_num sample_primary = 1 \<and> map rq_seq (batched sample_primary) = [1, 2]"
  using pbft_proposals [OF sample_primary_run] sample_primary_state by simp

text \<open>Nothing is taken back. From any state with a log of 32-bit length, handled events keep, in
  every slot, an accepted pre-prepare with its requests and a placed certificate; and the replies
  table keeps, for every client, a sequence number that never decreases and the reply cached for it.\<close>

theorem pbft_write_once:
  assumes "replica_run env es r = Ok () r'" and "length (r_log r) \<le> 2 ^ 32"
  shows "(\<forall>k<length (r_log r). k < length (r_log r') \<and> entry_grows (r_log r ! k) (r_log r' ! k)) \<and>
    replies_grow r r'"
  using grows_run [OF assms] by (simp add: slots_grow_def)

lemma pbft_write_once_witness:
  "entry_grows (r_log sample_before ! 1) (r_log (sample_state 1) ! 1) \<and>
   le_prepares (r_log sample_before ! 1) \<noteq> []"
proof -
  have "replica_run sample_env [sample_commit 1 [7] 2] sample_before = Ok () (sample_state 1)"
    using sample_last_event(2) by simp
  moreover have "length (r_log sample_before) = 2" "le_prepares (r_log sample_before ! 1) \<noteq> []"
    by code_simp+
  ultimately show ?thesis using pbft_write_once by fastforce
qed

text \<open>C6: the window. In every state a replica reaches, op_num is at most two ahead of commit_num. (A
  new request is batched while op_num < commit_num + 1, but after an execution while op_num is at
  most commit_num + 1, so two operations can be outstanding.)\<close>

theorem pbft_window:
  assumes "replica_run env es (replica_new i app net cnet k n f) = Ok () r"
  shows "unat (r_op_num r) \<le> unat (r_commit_num r) + 2"
  using window_run [OF assms] by (simp add: window_def)

lemma pbft_window_witness: "unat (r_op_num sample_primary) \<le> 2"
  using pbft_window [OF sample_primary_run]
  by (simp add: sample_primary_commit)

section \<open>The client\<close>

text \<open>C7: a result needs f + 1 replicas. When a handled reply makes the client report a result, the
  result is that reply's, f + 1 distinct replicas have it as their last reply for the current
  sequence number since the invocation, and the invocation is over.\<close>

theorem client_result_quorum:
  assumes "client_run timer es (client_new i addr net upcall n f, t0) = Ok () (c, t)"
    and "client_on_reply timer r (c, t) = Ok () (c', t')"
    and "sent (c_upcall c') \<noteq> sent (c_upcall c)"
  shows "sent (c_upcall c') = sent (c_upcall c) @ [(c_id c, rp_result r)] \<and> c_invoke c' = None \<and>
    (\<exists>S. card S = f + 1 \<and> (\<forall>j\<in>S. \<exists>r'. last_reply (RecvReply r # rev es) (c_seq c) j = Some r' \<and>
       rp_result r' = rp_result r))"
  using assms(2)
proof (cases rule: client_reply_cases)
  case (completed invoke m u)
  from collected_run [OF assms(1)] completed(2) have k: "hm_wf (ci_replies invoke)"
    "\<And>j. hm_get (ci_replies invoke) j = last_reply (rev es) (c_seq c) j" "c_num_faulty c = f"
    by (auto simp: collected_def)
  let ?S = "{j. \<exists>r'. hm_get m j = Some r' \<and> rp_result r' = rp_result r}"
  have "hm_get m j = last_reply (RecvReply r # rev es) (c_seq c) j" for j
    using k(2) completed(1) by (simp add: completed(3))
  moreover have "card ?S = f + 1"
    using matching_card [of m "rp_result r"] completed(3,4) k(1,3) by simp
  ultimately show ?thesis using completed(5,6) by (intro conjI exI [of _ ?S]) auto
qed (use assms(3) in auto)

text \<open>A result is reported as soon as it can be. While an invocation is pending, no result is
  the last reply of more than f replicas.\<close>

theorem client_reports_at_once:
  assumes "client_run timer es (client_new i addr net upcall n f, t0) = Ok () (c, t)"
    and "c_invoke c \<noteq> None"
    and "\<forall>j\<in>S. \<exists>r. last_reply (rev es) (c_seq c) j = Some r \<and> rp_result r = result"
  shows "card S \<le> f"
proof -
  from assms(2) obtain invoke where "c_invoke c = Some invoke" by auto
  with collected_run [OF assms(1)] have k: "hm_wf (ci_replies invoke)"
    "\<And>j. hm_get (ci_replies invoke) j = last_reply (rev es) (c_seq c) j"
    "matching (ci_replies invoke) result \<le> f"
    by (auto simp: collected_def)
  have "card S \<le> card {j. \<exists>r. hm_get (ci_replies invoke) j = Some r \<and> rp_result r = result}"
    using assms(3) k(2) by (intro card_mono) auto
  with matching_card [OF k(1), of result] k(3) show ?thesis by simp
qed

definition sample_timer :: "(client_timer_event, (client_timer_event, linear_timer) buffered) rich_timer" where
  "sample_timer = \<lparr>rt_set = buffered_set linear_set, rt_unset = erased_buffered_unset linear_unset\<rparr>"

definition sample_reply :: "u8 \<Rightarrow> reply" where
  "sample_reply j = \<lparr>rp_seq = 1, rp_result = [2, 1], rp_view_num = 0, rp_replica_id = j\<rparr>"

definition sample_client :: "nat client \<times> (client_timer_event, linear_timer) buffered" where
  "sample_client = after (client_run sample_timer [Invoke [1, 2], RecvReply (sample_reply 2)]
     (client_new 5 9 open_sink open_sink 4 1, ([], linear_new)))"

definition sample_client_done :: "nat client \<times> (client_timer_event, linear_timer) buffered" where
  "sample_client_done = after (client_on_reply sample_timer (sample_reply 1) sample_client)"

lemma sample_client_run:
  "client_run sample_timer [Invoke [1, 2], RecvReply (sample_reply 2)]
     (client_new 5 9 open_sink open_sink 4 1, ([], linear_new)) =
     Ok () (fst sample_client, snd sample_client)"
proof -
  have "is_ok (client_run sample_timer [Invoke [1, 2], RecvReply (sample_reply 2)]
     (client_new 5 (9 :: nat) open_sink open_sink 4 1, ([], linear_new)))" by code_simp
  from Ok_after [OF this] show ?thesis by (simp add: sample_client_def)
qed

lemma sample_client_reply:
  "client_on_reply sample_timer (sample_reply 1) (fst sample_client, snd sample_client) =
     Ok () (fst sample_client_done, snd sample_client_done)"
proof -
  have "is_ok (client_on_reply sample_timer (sample_reply 1) sample_client)" by code_simp
  from Ok_after [OF this] show ?thesis by (simp add: sample_client_done_def)
qed

lemma sample_client_state:
  "sent (c_upcall (fst sample_client)) = []" "c_invoke (fst sample_client) \<noteq> None"
  "sent (c_upcall (fst sample_client_done)) = [(5, [2, 1])]" "c_seq (fst sample_client) = 1"
  by code_simp+

lemma client_result_quorum_witness:
  "\<exists>S :: u8 set. card S = 2 \<and>
     (\<forall>j\<in>S. \<exists>r'. last_reply [RecvReply (sample_reply 1), RecvReply (sample_reply 2), Invoke [1, 2]] 1 j =
        Some r' \<and> rp_result r' = [2, 1])"
  using client_result_quorum [OF sample_client_run sample_client_reply] sample_client_state
  by (simp add: numeral_2_eq_2 [symmetric] sample_reply_def)

lemma client_reports_at_once_witness: "card {2 :: u8} \<le> 1"
  by (rule client_reports_at_once [OF sample_client_run sample_client_state(2), where result = "[2, 1]"])
    (simp add: sample_client_state sample_reply_def)

end
