(* ===== verification/Pbft_Faults.thy ===== *)
theory Pbft_Faults
  imports Pbft_Correct "HOL-Library.Multiset"
begin

text \<open>
  Behaviours of the PBFT replica that a user of it should know, stated as theorems about the model:
  what the order of messages can do to the state, what one bad message can do, and what a signature
  does not tell apart.
\<close>

section \<open>Reordered messages\<close>

text \<open>
  Two pre-prepares, and the prepares and commits of the first operation. In the second order the
  pre-prepare of operation 2 comes first, so that the log has an empty slot 1, and the quorums of
  operation 1 complete before its pre-prepare.
\<close>

definition in_order :: "nat replica_event list" where
  "in_order = sample_pre_prepare 1 [7] # sample_pre_prepare 2 [8] #
     map (sample_prepare 1 [7]) [2, 3] @ map (sample_commit 1 [7]) [0, 2, 3]"

definition out_of_order :: "nat replica_event list" where
  "out_of_order = sample_pre_prepare 2 [8] #
     map (sample_prepare 1 [7]) [2, 3] @ map (sample_commit 1 [7]) [0, 2, 3] @
     [sample_pre_prepare 1 [7]]"

text \<open>Reordering makes replicas diverge. There are two orders of the same events that a replica
  handles without error and after which it has executed operation 1 with the same commit number, the
  same pre-prepare and the same requests in the slot, but with different application states: in one
  of them the slot was committed empty, before its pre-prepare, and its request is never executed.\<close>

theorem pbft_reordering_diverges:
  "\<exists>es es' r r'. mset es = mset es' \<and>
     replica_run sample_env es (sample_replica 1) = Ok () r \<and>
     replica_run sample_env es' (sample_replica 1) = Ok () r' \<and>
     r_commit_num r = 1 \<and> r_commit_num r' = 1 \<and>
     map le_requests (r_log r) = map le_requests (r_log r') \<and>
     slot_pre_prepare r 1 = slot_pre_prepare r' 1 \<and> r_app r \<noteq> r_app r'"
proof -
  let ?r = "after (replica_run sample_env in_order (sample_replica 1))"
  let ?r' = "after (replica_run sample_env out_of_order (sample_replica 1))"
  have "is_ok (replica_run sample_env in_order (sample_replica 1))" by code_simp
  moreover have "is_ok (replica_run sample_env out_of_order (sample_replica 1))" by code_simp
  moreover have "r_commit_num ?r = 1" "r_commit_num ?r' = 1" by code_simp+
  moreover have "map le_requests (r_log ?r) = map le_requests (r_log ?r')" by code_simp
  moreover have "slot_pre_prepare ?r 1 = slot_pre_prepare ?r' 1" by code_simp
  moreover have "r_app ?r = 2" "r_app ?r' = 0" by code_simp+
  moreover have "mset in_order = mset out_of_order" 
    by (simp add: in_order_def out_of_order_def add_mset_commute)
  ultimately show ?thesis using Ok_after by (metis zero_neq_numeral)
qed

section \<open>Certificates of several digests\<close>

definition mixed_events :: "nat replica_event list" where
  "mixed_events = [sample_pre_prepare 1 [7], sample_prepare 1 [8] 2, sample_prepare 1 [7] 3]"

text \<open>Mixed certificates. A replica that accepted a pre-prepare can reach a state in which the
  prepare certificate of the slot holds a prepare for another digest: a prepare submitted for
  verification before the pre-prepare is not compared with it when it comes back.\<close>

theorem pbft_mixed_certificate:
  "\<exists>es r m ip. replica_run sample_env es (sample_replica 1) = Ok () r \<and>
     slot_pre_prepare r 1 = Some m \<and> ip \<in> set (slot_prepares r 1) \<and>
     pr_digest (inner (snd ip)) \<noteq> pp_digest (inner m)"
proof -
  let ?r = "after (replica_run sample_env mixed_events (sample_replica 1))"
  have "is_ok (replica_run sample_env mixed_events (sample_replica 1))" by code_simp
  from Ok_after [OF this]
  have "replica_run sample_env mixed_events (sample_replica 1) = Ok () ?r" .
  moreover have "map_option (\<lambda>m. pp_digest (inner m)) (slot_pre_prepare ?r 1) = Some [7]"
    by code_simp
  moreover have "map (\<lambda>ip. pr_digest (inner (snd ip))) (slot_prepares ?r 1) = [[8], [7]]"
    by code_simp
  ultimately obtain m ip ips where "replica_run sample_env mixed_events (sample_replica 1) = Ok () ?r"
    "slot_pre_prepare ?r 1 = Some m" "pp_digest (inner m) = [7]"
    "slot_prepares ?r 1 = ip # ips" "pr_digest (inner (snd ip)) = [8]"
    by (auto simp: map_eq_Cons_conv)
  then show ?thesis
    by (intro exI [of _ mixed_events] exI [of _ ?r] exI [of _ m] exI [of _ ip]) simp
qed

section \<open>A bad prepare blocks an operation\<close>

lemma pending_prepares_queue:
  assumes "hm_get (r_pending_prepares r) op = Some pending"
    and "\<forall>p\<in>set ps. pr_op_num (inner p) = op"
  shows "\<exists>pp. replica_run env (map (\<lambda>p. Net (RecvPrepare p)) ps) r =
      Ok () (r\<lparr>r_pending_prepares := pp\<rparr>) \<and> hm_get pp op = Some (pending @ ps)"
  using assms
proof (induction ps arbitrary: r pending)
  case Nil
  then show ?case by (intro exI [of _ "r_pending_prepares r"]) simp
next
  case (Cons p ps)
  let ?r = "r\<lparr>r_pending_prepares := hm_insert op (pending @ [p]) (r_pending_prepares r)\<rparr>"
  have "on_recv_prepare env p r = Ok () ?r"
    using Cons.prems by (simp add: on_recv_prepare_def)
  moreover have "hm_get (r_pending_prepares ?r) op = Some (pending @ [p])" by simp
  ultimately show ?case using Cons.IH [of ?r "pending @ [p]"] Cons.prems(2) by auto
qed

text \<open>One bad prepare blocks its operation. If the first prepare received for an operation that is
  not prepared does not verify, then its verification sends no event back, and every prepare received
  later for that operation, from whatever replica, is only queued: nothing more is submitted to the
  worker and the state otherwise stays as it is.\<close>

theorem pbft_bad_prepare_blocks:
  assumes "pr_view_num (inner bad) = r_view_num r" and "op = pr_op_num (inner bad)"
    and "hm_get (r_pending_prepares r) op = None" and "log_get r op = None"
    and "r_worker r = Spawn q" and "\<not> closed q"
    and "verify (env_lib env) prepare_feed crypto (unat (pr_replica_id (inner bad))) bad \<noteq> Inr ()"
    and "\<forall>p\<in>set ps. pr_op_num (inner p) = op"
  shows "work_event env (VerifyPrepare bad) crypto = None \<and>
    (\<exists>pp. replica_run env (map (\<lambda>p. Net (RecvPrepare p)) (bad # ps)) r =
       Ok () (r\<lparr>r_worker := Spawn (q\<lparr>sent := sent q @ [VerifyPrepare bad]\<rparr>),
                r_pending_prepares := pp\<rparr>) \<and>
     hm_get pp op = Some ps)"
proof -
  let ?r1 = "r\<lparr>r_worker := Spawn (q\<lparr>sent := sent q @ [VerifyPrepare bad]\<rparr>),
      r_pending_prepares := hm_insert op [] (r_pending_prepares r)\<rparr>"
  have "on_recv_prepare env bad r = Ok () ?r1"
    using assms(1-6)
    by (simp add: on_recv_prepare_def submit_prepare_def submit_work_def submit_def Let_def)
  moreover obtain pp where "replica_run env (map (\<lambda>p. Net (RecvPrepare p)) ps) ?r1 =
      Ok () (?r1\<lparr>r_pending_prepares := pp\<rparr>)" "hm_get pp op = Some ([] @ ps)"
    using pending_prepares_queue [of ?r1 op "[]" ps env] assms(8) by auto
  ultimately show ?thesis using assms(7) by (auto simp del: verify.simps)
qed

lemma pbft_bad_prepare_blocks_witness:
  "work_event sample_env (VerifyPrepare (sample_signed
     \<lparr>pr_view_num = 0, pr_op_num = 1, pr_digest = [7], pr_replica_id = 2\<rparr>))
     \<lparr>provider = ProviderSecp256k1 [1], public_keys = [PublicSecp256k1 [1], PublicSecp256k1 [2],
        PublicSecp256k1 [3], PublicSecp256k1 [4]]\<rparr> = None"
proof -
  let ?c = "\<lparr>provider = ProviderSecp256k1 [1], public_keys = [PublicSecp256k1 [1],
      PublicSecp256k1 [2], PublicSecp256k1 [3], PublicSecp256k1 [4]]\<rparr>"
  let ?bad = "sample_signed \<lparr>pr_view_num = 0, pr_op_num = 1, pr_digest = [7 :: u8], pr_replica_id = 2\<rparr>"
  have "verify (env_lib sample_env) prepare_feed ?c (unat (pr_replica_id (inner ?bad))) ?bad \<noteq> Inr ()"
    by code_simp
  from pbft_bad_prepare_blocks [where bad = ?bad and r = "sample_replica 1" and op = 1 and
      q = open_sink and ps = "[]" and env = sample_env and crypto = ?c, OF _ _ _ _ _ _ this]
  show ?thesis
    by (simp add: sample_signed_def sample_replica_def replica_new_def log_get_def open_sink_def
        del: verify.simps)
qed

section \<open>Unauthenticated messages\<close>

text \<open>A message of a later view stops the replica. A pre-prepare, and a prepare or commit of an
  operation nothing is pending for, with a view number above the replica's reaches a \<open>todo!\<close> before
  its signature is looked at, whoever sent it.\<close>

theorem pbft_later_view_panics:
  assumes "r_view_num r < pp_view_num (inner m)"
    and "r_view_num r < pr_view_num (inner p)"
    and "hm_get (r_pending_prepares r) (pr_op_num (inner p)) = None"
    and "r_view_num r < cm_view_num (inner c)"
    and "hm_get (r_pending_commits r) (cm_op_num (inner c)) = None"
  shows "on_recv_pre_prepare env m qs r =
      Err (Panic ''not yet implemented: state transfer to enter view'') r \<and>
    on_recv_prepare env p r =
      Err (Panic ''not yet implemented: state transfer to enter view'') r \<and>
    on_recv_commit env c r =
      Err (Panic ''not yet implemented: state transfer to enter view'') r"
proof -
  have "pp_view_num (inner m) \<noteq> r_view_num r" "pr_view_num (inner p) \<noteq> r_view_num r"
    "cm_view_num (inner c) \<noteq> r_view_num r"
    using assms by auto
  with assms show ?thesis
    by (simp add: on_recv_pre_prepare_def on_recv_prepare_def submit_prepare_def
        on_recv_commit_def submit_commit_def Let_def)
qed

lemma pbft_later_view_panics_witness:
  "on_recv_pre_prepare sample_env (sample_signed \<lparr>pp_view_num = 1, pp_op_num = 1, pp_digest = []\<rparr>)
     [] (sample_replica 2) =
   Err (Panic ''not yet implemented: state transfer to enter view'') (sample_replica 2)"
  using pbft_later_view_panics [where r = "sample_replica 2" and env = sample_env and qs = "[]" and
      m = "sample_signed \<lparr>pp_view_num = 1, pp_op_num = 1, pp_digest = []\<rparr>" and
      p = "sample_signed \<lparr>pr_view_num = 1, pr_op_num = 1, pr_digest = [], pr_replica_id = 0\<rparr>" and
      c = "sample_signed \<lparr>cm_view_num = 1, cm_op_num = 1, cm_digest = [], cm_replica_id = 0\<rparr>"]
  by (simp add: sample_replica_def replica_new_def sample_signed_def)

section \<open>Signatures\<close>

text \<open>The signature of a prepare is the signature of a commit. What a prepare and the commit with
  the same fields feed to the digest is the same, so whoever holds a replica's signed prepare holds a
  commit of that replica that verifies.\<close>

theorem prepare_signature_verifies_commit:
  "verify lib commit_feed crypto index
     \<lparr>inner = commit_of_prepare p, signature = signature (sign lib prepare_feed own p)\<rparr> =
   verify lib prepare_feed crypto index (sign lib prepare_feed own p)"
proof -
  have d: "sha256 lib commit_feed (commit_of_prepare p) = sha256 lib prepare_feed p"
    by (simp add: sha256_def commit_feed_of_prepare)
  show ?thesis
    by (simp add: d peer_verify_internal_def peer_sign_def commit_feed_of_prepare Let_def
        split: crypto_provider.split public_key.split signature.split)
qed

end
