(* ===== verification/Kad_Buckets.thy ===== *)
theory Kad_Buckets
  imports Crypto "HOL-Library.Multiset"
begin

text \<open>
  \<open>src/src/kademlia.rs\<close>, the routing table: \<open>distance\<close>, \<open>PeerRecord\<close>, \<open>Buckets\<close> with \<open>index\<close>, \<open>insert\<close>,
  \<open>remove\<close> and \<open>find_closest\<close>, and \<open>rand_distance\<close>. A peer id is its 32 bytes, \<open>U256\<close> is a 256-bit word
  read from them in little-endian order; an assertion that fails is a \<open>Panic\<close>.

  The lemmas: the bucket of a peer is the position of the highest bit in which its id differs from
  the origin's; \<open>buckets_ok\<close> is kept by insertion and removal; \<open>find_closest\<close> visits the buckets in
  an order in which distances increase, so it returns exactly the closest known peers.
\<close>

type_synonym peer_id = "u8 list"
type_synonym u256 = "256 word"

section \<open>Distances\<close>

definition distance :: "peer_id \<Rightarrow> peer_id \<Rightarrow> u256" where
  "distance peer_id target = from_le peer_id XOR from_le target"

definition distance_from :: "peer_id \<Rightarrow> u256 \<Rightarrow> peer_id" where
  "distance_from peer_id d = to_le 32 (from_le peer_id XOR d)"

definition leading_zeros :: "u256 \<Rightarrow> nat" where
  "leading_zeros w = length (takeWhile (\<lambda>i. \<not> bit w i) (rev [0..<256]))"

text \<open>The bytes \<open>rand_distance\<close> builds from the random ones: \<open>low\<close> for the bytes below, \<open>high\<close> for the byte of
  the index, drawn from \<open>2 ^ (index mod 8)\<close> to \<open>2 ^ (index mod 8 + 1) - 1\<close>.\<close>

definition rand_distance :: "nat \<Rightarrow> u8 list \<Rightarrow> nat \<Rightarrow> u256" where
  "rand_distance i low high =
     from_le (take (i div 8) low @ [of_nat high] @ replicate (31 - i div 8) 0)"

section \<open>Buckets\<close>

record ('k, 'a) peer_record =
  pe_id :: peer_id
  pe_key :: 'k
  pe_addr :: 'a

definition peer_record_new ::
  "crypto_lib \<Rightarrow> ('k \<Rightarrow> bytes) \<Rightarrow> 'k \<Rightarrow> 'a \<Rightarrow> ('k, 'a) peer_record" where
  "peer_record_new lib feed key addr =
     \<lparr>pe_id = sha256 lib feed key, pe_key = key, pe_addr = addr\<rparr>"

record ('k, 'a) bucket =
  b_records :: "('k, 'a) peer_record list"
  b_cached :: "('k, 'a) peer_record list"

record ('k, 'a) buckets =
  bk_origin :: "('k, 'a) peer_record"
  bk_distances :: "('k, 'a) bucket list"

definition bucket_size :: nat where
  "bucket_size = 20"

definition bucket_default :: "('k, 'a) bucket" where
  "bucket_default = \<lparr>b_records = [], b_cached = []\<rparr>"

definition buckets_new :: "('k, 'a) peer_record \<Rightarrow> ('k, 'a) buckets" where
  "buckets_new origin = \<lparr>bk_origin = origin, bk_distances = replicate 256 bucket_default\<rparr>"

definition index :: "('k, 'a) buckets \<Rightarrow> peer_id \<Rightarrow> error + nat" where
  "index b target =
     (let zeros = leading_zeros (distance (pe_id (bk_origin b)) target) in
      if zeros < 256 then Inr (256 - 1 - zeros)
      else Inl (Panic ''assertion failed: zeros < U256_BITS''))"

fun remove_id :: "peer_id \<Rightarrow> ('k, 'a) peer_record list \<Rightarrow> ('k, 'a) peer_record list" where
  "remove_id i [] = []"
| "remove_id i (r # rs) = (if pe_id r = i then rs else r # remove_id i rs)"

definition bucket_insert :: "('k, 'a) peer_record \<Rightarrow> ('k, 'a) bucket \<Rightarrow> ('k, 'a) bucket" where
  "bucket_insert record bucket =
     (let bucket1 = bucket\<lparr>b_records := remove_id (pe_id record) (b_records bucket)\<rparr> in
      if length (b_records bucket1) < bucket_size then
        bucket1\<lparr>b_records := b_records bucket1 @ [record]\<rparr>
      else
        let cached = remove_id (pe_id record) (b_cached bucket1);
            cached1 = (if length cached = bucket_size then drop 1 cached else cached)
        in bucket1\<lparr>b_cached := cached1 @ [record]\<rparr>)"

definition buckets_insert ::
  "('k, 'a) peer_record \<Rightarrow> ('k, 'a) buckets \<Rightarrow> (unit, ('k, 'a) buckets) outcome" where
  "buckets_insert record b =
     (if pe_id record = pe_id (bk_origin b) then Err (Bail ''cannot insert origin id'') b
      else case index b (pe_id record) of
          Inl e \<Rightarrow> Err e b
        | Inr i \<Rightarrow>
            Ok () (b\<lparr>bk_distances :=
                       (bk_distances b)[i := bucket_insert record (bk_distances b ! i)]\<rparr>))"

definition bucket_remove ::
  "peer_id \<Rightarrow> ('k, 'a) bucket \<Rightarrow> ('k, 'a) peer_record option \<times> ('k, 'a) bucket" where
  "bucket_remove i bucket =
     (case find (\<lambda>r. pe_id r = i) (b_records bucket) of
        None \<Rightarrow> (None, bucket)
      | Some record \<Rightarrow>
          let records = remove_id i (b_records bucket) in
          (Some record,
           if b_cached bucket \<noteq> [] then
             bucket\<lparr>b_records := records @ [last (b_cached bucket)],
                    b_cached := butlast (b_cached bucket)\<rparr>
           else bucket\<lparr>b_records := record # records\<rparr>))"

definition buckets_remove ::
  "peer_id \<Rightarrow> ('k, 'a) buckets \<Rightarrow>
   (('k, 'a) peer_record option, ('k, 'a) buckets) outcome" where
  "buckets_remove i b =
     (case index b i of
        Inl e \<Rightarrow> Err e b
      | Inr k \<Rightarrow>
          let (removed, bucket) = bucket_remove i (bk_distances b ! k)
          in Ok removed (b\<lparr>bk_distances := (bk_distances b)[k := bucket]\<rparr>))"

section \<open>find_closest\<close>

definition lookup_order :: "u256 \<Rightarrow> nat \<Rightarrow> nat list" where
  "lookup_order origin_distance i =
     filter (\<lambda>k. bit origin_distance k) (rev [0..<Suc i]) @
     filter (\<lambda>k. \<not> bit origin_distance k) [0..<256]"

definition index_records ::
  "('k, 'a) buckets \<Rightarrow> peer_id \<Rightarrow> nat \<Rightarrow> ('k, 'a) peer_record list" where
  "index_records b target k =
     sort_key (\<lambda>r. distance (pe_id r) target)
       (b_records (bk_distances b ! k) @ (if k = 0 then [bk_origin b] else []))"

fun collect_closest ::
  "('k, 'a) buckets \<Rightarrow> peer_id \<Rightarrow> nat \<Rightarrow> nat list \<Rightarrow> ('k, 'a) peer_record list \<Rightarrow>
   error + ('k, 'a) peer_record list" where
  "collect_closest b target num [] records = Inr records"
| "collect_closest b target num (k # ks) records =
     (let records1 = records @ take (num - length records) (index_records b target k) in
      if \<not> length records1 \<le> num then
        Inl (Panic ''assertion failed: records.len() <= count.into()'')
      else if length records1 = num then Inr records1
      else collect_closest b target num ks records1)"

definition find_closest ::
  "peer_id \<Rightarrow> nat \<Rightarrow> ('k, 'a) buckets \<Rightarrow> error + ('k, 'a) peer_record list" where
  "find_closest target num b =
     (case (if target = pe_id (bk_origin b) then Inr 0 else index b target) of
        Inl e \<Rightarrow> Inl e
      | Inr i \<Rightarrow>
          (case collect_closest b target num
                  (lookup_order (distance (pe_id (bk_origin b)) target) i) [] of
             Inl e \<Rightarrow> Inl e
           | Inr records \<Rightarrow>
               if sorted (map (\<lambda>r. distance (pe_id r) target) records) then Inr records
               else Inl (Panic ''assertion failed: records.windows(2)'')))"

section \<open>Bits of distances\<close>

lemma bit_less_word:
  fixes v w :: "'a::len word"
  assumes "\<And>m. n < m \<Longrightarrow> bit v m = bit w m" and "\<not> bit v n" and "bit w n"
  shows "v < w"
proof -
  have "drop_bit (Suc n) v = drop_bit (Suc n) w"
    by (rule bit_eqI) (simp add: bit_drop_bit_eq assms(1))
  then have "unat (drop_bit (Suc n) v) = unat (drop_bit (Suc n) w)" by simp
  then have "drop_bit (Suc n) (unat v) = drop_bit (Suc n) (unat w)"
    by (simp only: unat_drop_bit_eq)
  then have same: "unat v div 2 ^ Suc n = unat w div 2 ^ Suc n"
    by (simp only: drop_bit_eq_div)
  have even: "even (unat v div 2 ^ n)" and odd: "odd (unat w div 2 ^ n)"
  proof -
    have "\<not> bit (unat v) n" "bit (unat w) n"
      using assms(2,3) by (simp_all add: bit_unsigned_iff bit_imp_le_length)
    then show "even (unat v div 2 ^ n)" "odd (unat w div 2 ^ n)" by (simp_all add: bit_iff_odd)
  qed
  have step: "x div 2 ^ Suc n = x div 2 ^ n div 2" for x :: nat
    by (simp add: div_mult2_eq [symmetric] mult.commute)
  have "unat v div 2 ^ n < unat w div 2 ^ n"
    using same even odd unfolding step by (auto elim!: evenE oddE)
  then have "\<not> unat w \<le> unat v" using div_le_mono [of "unat w" "unat v" "2 ^ n"] by linarith
  then show ?thesis by (simp add: word_less_nat_alt)
qed

lemma bit_256 [simp]: "256 \<le> n \<Longrightarrow> \<not> bit (w :: u256) n"
  using bit_imp_le_length [of w n] by auto

text \<open>\<open>top_bit w i\<close>: the highest set bit of \<open>w\<close> is \<open>i\<close>.\<close>

definition top_bit :: "u256 \<Rightarrow> nat \<Rightarrow> bool" where
  "top_bit w i \<longleftrightarrow> i < 256 \<and> bit w i \<and> (\<forall>j>i. \<not> bit w j)"

lemma top_bit_unique: "top_bit w i \<Longrightarrow> top_bit w j \<Longrightarrow> i = j"
  unfolding top_bit_def by (metis linorder_neqE_nat)

lemma leading_zeros_top:
  assumes "leading_zeros w < 256"
  shows "top_bit w (255 - leading_zeros w)"
proof -
  let ?z = "leading_zeros w" and ?P = "\<lambda>i. \<not> bit w i"
  have "\<not> ?P (rev [0..<256] ! ?z)"
    using nth_length_takeWhile [of ?P "rev [0..<256]"] assms unfolding leading_zeros_def by simp
  moreover have at: "rev [0..<256] ! k = 255 - k" if "k < 256" for k
    using that by (simp add: rev_nth)
  ultimately have "bit w (255 - ?z)" using assms by simp
  moreover have "\<not> bit w j" if "255 - ?z < j" for j
  proof (cases "j < 256")
    case True
    then have "255 - j < length (takeWhile ?P (rev [0..<256]))"
      using that unfolding leading_zeros_def [symmetric] by simp
    then have "?P (rev [0..<256] ! (255 - j))"
      by (metis nth_mem set_takeWhileD takeWhile_nth)
    with True show ?thesis by (simp add: at)
  qed simp
  ultimately show ?thesis using assms by (simp add: top_bit_def)
qed

lemma leading_zeros_zero: "leading_zeros w < 256 \<longleftrightarrow> w \<noteq> 0"
proof
  assume "leading_zeros w < 256"
  from leading_zeros_top [OF this] show "w \<noteq> 0" by (auto simp: top_bit_def)
next
  assume "w \<noteq> 0"
  then obtain i where "bit w i" by (metis bit_eqI bit_0_eq bot_apply bot_bool_def)
  then have "i < 256" using bit_imp_le_length [of w i] by simp
  show "leading_zeros w < 256"
  proof (rule ccontr)
    assume "\<not> ?thesis"
    then have "takeWhile (\<lambda>i. \<not> bit w i) (rev [0..<256]) = rev [0..<256]"
      unfolding leading_zeros_def
      by (metis length_rev length_upt minus_nat.diff_0 not_less takeWhile_eq_take take_all)
    with \<open>bit w i\<close> \<open>i < 256\<close> show False
      by (metis atLeastLessThan_iff le0 set_rev set_takeWhileD set_upt)
  qed
qed

lemma index_Inr:
  "index b target = Inr i \<Longrightarrow> top_bit (distance (pe_id (bk_origin b)) target) i"
  using leading_zeros_top by (auto simp: index_def Let_def split: if_splits)

lemma distance_zero:
  assumes "length p = 32" and "length q = 32"
  shows "distance p q = 0 \<longleftrightarrow> p = q"
  using assms from_le_inject [of p 32 q, where 'a = 256] by (auto simp: distance_def xor_zero_word)

lemma index_defined:
  assumes "length (pe_id (bk_origin b)) = 32" and "length target = 32"
    and "target \<noteq> pe_id (bk_origin b)"
  shows "\<exists>i. index b target = Inr i"
  using assms distance_zero [of "pe_id (bk_origin b)" target] leading_zeros_zero
  by (auto simp: index_def Let_def)

lemma distance_via_origin: "distance p t = distance q p XOR distance q t"
  by (simp add: distance_def xor.assoc xor.left_commute xor_self_eq)

lemma distance_inject:
  assumes "length p = 32" "length q = 32"
  shows "distance p t = distance q t \<longleftrightarrow> p = q"
proof -
  have "distance p t = distance q t \<longleftrightarrow> (from_le p :: u256) = from_le q"
    unfolding distance_def by (rule xor_cancel_word)
  with from_le_inject [of p 32 q, where 'a = 256] assms show ?thesis by simp
qed

lemma distance_from_inverse:
  assumes "length p = 32"
  shows "distance p (distance_from p d) = d" "length (distance_from p d) = 32"
  using from_le_to_le [where n = 32 and 'a = 256]
  by (simp_all add: distance_def distance_from_def xor.assoc [symmetric] xor_self_eq)

section \<open>Insertion and removal keep the table well-formed\<close>

definition in_bucket :: "peer_id \<Rightarrow> nat \<Rightarrow> ('k, 'a) peer_record \<Rightarrow> bool" where
  "in_bucket origin i r \<longleftrightarrow> length (pe_id r) = 32 \<and> top_bit (distance origin (pe_id r)) i"

definition bucket_ok :: "peer_id \<Rightarrow> nat \<Rightarrow> ('k, 'a) bucket \<Rightarrow> bool" where
  "bucket_ok origin i bucket \<longleftrightarrow>
     (\<forall>r\<in>set (b_records bucket) \<union> set (b_cached bucket). in_bucket origin i r) \<and>
     distinct (map pe_id (b_records bucket @ b_cached bucket)) \<and>
     length (b_records bucket) \<le> bucket_size \<and> length (b_cached bucket) \<le> bucket_size \<and>
     (b_cached bucket \<noteq> [] \<longrightarrow> length (b_records bucket) = bucket_size)"

definition buckets_ok :: "('k, 'a) buckets \<Rightarrow> bool" where
  "buckets_ok b \<longleftrightarrow>
     length (pe_id (bk_origin b)) = 32 \<and> length (bk_distances b) = 256 \<and>
     (\<forall>i<256. bucket_ok (pe_id (bk_origin b)) i (bk_distances b ! i))"

lemma remove_id_split:
  assumes "r \<in> set rs" and "pe_id r = i"
  obtains r' us vs where "rs = us @ r' # vs" "remove_id i rs = us @ vs" "pe_id r' = i"
    "i \<notin> pe_id ` set us"
  using assms
proof (induction rs arbitrary: thesis)
  case Nil
  then show ?case by simp
next
  case (Cons x rs)
  show ?case
  proof (cases "pe_id x = i")
    case True
    then show ?thesis by (intro Cons.prems(1) [of "[]" x rs]) auto
  next
    case False
    with Cons.prems have "r \<in> set rs" by auto
    from Cons.IH [OF _ this Cons.prems(3)] obtain us r' vs where
      "rs = us @ r' # vs" "remove_id i rs = us @ vs" "pe_id r' = i" "i \<notin> pe_id ` set us"
      by blast
    with False show ?thesis by (intro Cons.prems(1) [of "x # us" r' vs]) auto
  qed
qed

lemma remove_id_absent: "i \<notin> pe_id ` set rs \<Longrightarrow> remove_id i rs = rs"
  by (induction rs) auto

lemma set_remove_id_subset: "set (remove_id i rs) \<subseteq> set rs"
  by (induction rs) auto

lemma distinct_remove_id:
  assumes "distinct (map pe_id rs)"
  shows "distinct (map pe_id (remove_id i rs))" "i \<notin> pe_id ` set (remove_id i rs)"
    "set (remove_id i rs) = {r \<in> set rs. pe_id r \<noteq> i}"
  using assms by (induction rs) (auto simp: image_iff)

lemma length_remove_id:
  "length (remove_id i rs) = (if i \<in> pe_id ` set rs then length rs - 1 else length rs)"
proof (induction rs)
  case (Cons r rs)
  then show ?case by (cases rs) auto
qed simp

lemma bucket_default_ok: "bucket_ok origin i bucket_default"
  by (simp add: bucket_ok_def bucket_default_def)

lemma bucket_insert_ok:
  assumes "bucket_ok origin i bucket" and "in_bucket origin i record"
  shows "bucket_ok origin i (bucket_insert record bucket)"
proof -
  let ?id = "pe_id record"
  let ?rs = "remove_id ?id (b_records bucket)" and ?cs = "remove_id ?id (b_cached bucket)"
  from assms(1) have d: "distinct (map pe_id (b_records bucket))"
    "distinct (map pe_id (b_cached bucket))"
    "pe_id ` set (b_records bucket) \<inter> pe_id ` set (b_cached bucket) = {}"
    "length (b_records bucket) \<le> bucket_size" "length (b_cached bucket) \<le> bucket_size"
    by (auto simp: bucket_ok_def)
  note rs = distinct_remove_id [OF d(1), of ?id] and cs = distinct_remove_id [OF d(2), of ?id]
  have mem: "\<forall>r\<in>set ?rs \<union> set ?cs. in_bucket origin i r"
    using assms(1) rs(3) cs(3) by (auto simp: bucket_ok_def)
  have dis: "pe_id ` set ?rs \<inter> pe_id ` set ?cs = {}" using d(3) rs(3) cs(3) by auto
  show ?thesis
  proof (cases "length ?rs < bucket_size")
    case True
    have "?id \<notin> pe_id ` set (b_cached bucket)"
    proof
      assume c: "?id \<in> pe_id ` set (b_cached bucket)"
      then have "b_cached bucket \<noteq> []" by auto
      with assms(1) have "length (b_records bucket) = bucket_size" by (simp add: bucket_ok_def)
      with True have "?id \<in> pe_id ` set (b_records bucket)"
        by (auto simp: length_remove_id split: if_splits)
      with c d(3) show False by blast
    qed
    moreover have "b_cached bucket \<noteq> [] \<longrightarrow> length ?rs + 1 = bucket_size"
      using assms(1) True
      by (auto simp: bucket_ok_def bucket_size_def length_remove_id split: if_splits)
    moreover have "pe_id ` set ?rs \<inter> pe_id ` set (b_cached bucket) = {}" using d(3) rs(3) by auto
    ultimately show ?thesis
      using True mem rs d assms
      by (auto simp: bucket_insert_def Let_def bucket_ok_def)
  next
    case False
    with d(4) have full: "length ?rs = bucket_size" "?id \<notin> pe_id ` set (b_records bucket)"
      by (auto simp: length_remove_id bucket_size_def split: if_splits)
    then have same: "?rs = b_records bucket" by (simp add: remove_id_absent)
    define cached where "cached = (if length ?cs = bucket_size then drop 1 ?cs else ?cs)"
    have sub: "set cached \<subseteq> set ?cs" by (auto simp: cached_def dest: in_set_dropD)
    have "distinct (map pe_id cached)"
      using cs(1) by (auto simp: cached_def drop_map [symmetric] intro: distinct_drop)
    moreover have "length ?cs \<le> bucket_size"
      using d(5) length_remove_id [of ?id "b_cached bucket"] by (simp split: if_splits)
    then have "length cached < bucket_size" by (auto simp: cached_def bucket_size_def)
    moreover have "?id \<notin> pe_id ` set cached" using sub cs(2) by blast
    moreover have "pe_id ` set (b_records bucket) \<inter> pe_id ` set cached = {}"
      using sub dis same by auto
    moreover have "\<forall>r\<in>set cached. in_bucket origin i r" using sub mem by blast
    moreover have "bucket_insert record bucket = bucket\<lparr>b_cached := cached @ [record]\<rparr>"
      using False same by (simp add: bucket_insert_def Let_def cached_def)
    ultimately show ?thesis
      using full(2) assms d full(1) same by (auto simp: bucket_ok_def)
  qed
qed

lemma bucket_remove_ok:
  assumes "bucket_ok origin i bucket" and "bucket_remove p bucket = (removed, bucket')"
  shows "bucket_ok origin i bucket'"
proof (cases "find (\<lambda>r. pe_id r = p) (b_records bucket)")
  case None
  with assms show ?thesis by (simp add: bucket_remove_def)
next
  case (Some x)
  let ?rs = "remove_id p (b_records bucket)"
  from Some have x: "x \<in> set (b_records bucket)" "pe_id x = p"
    by (auto simp: find_Some_iff)
  from assms(1) have d: "distinct (map pe_id (b_records bucket))"
    "distinct (map pe_id (b_cached bucket))"
    "pe_id ` set (b_records bucket) \<inter> pe_id ` set (b_cached bucket) = {}"
    "length (b_records bucket) \<le> bucket_size" "length (b_cached bucket) \<le> bucket_size"
    by (auto simp: bucket_ok_def)
  note rs = distinct_remove_id [OF d(1), of p]
  have len: "length ?rs + 1 = length (b_records bucket)"
  proof -
    have "p \<in> pe_id ` set (b_records bucket)" "0 < length (b_records bucket)" using x by auto
    then show ?thesis by (simp add: length_remove_id)
  qed
  show ?thesis
  proof (cases "b_cached bucket = []")
    case True
    with Some assms(2) have "bucket' = bucket\<lparr>b_records := x # ?rs\<rparr>"
      by (simp add: bucket_remove_def Let_def)
    with True rs x len d(4) assms(1) show ?thesis by (auto simp: bucket_ok_def)
  next
    case False
    then obtain cs c where c: "b_cached bucket = cs @ [c]"
      by (cases "b_cached bucket" rule: rev_cases) auto
    with Some assms(2) have b': "bucket' = bucket\<lparr>b_records := ?rs @ [c], b_cached := cs\<rparr>"
      by (simp add: bucket_remove_def Let_def)
    have "distinct (map pe_id (cs @ [c]))" "length (b_records bucket) = bucket_size"
      using d(2) assms(1) c by (simp_all add: bucket_ok_def)
    moreover have "pe_id ` set ?rs \<inter> pe_id ` set (cs @ [c]) = {}"
      using d(3) rs(3) c by auto
    moreover have "\<forall>r\<in>set ?rs \<union> set (cs @ [c]). in_bucket origin i r"
      using assms(1) c rs(3) by (auto simp: bucket_ok_def)
    ultimately show ?thesis
      using b' rs(1) len d(5) c by (auto simp: bucket_ok_def)
  qed
qed

text \<open>Operations on the whole table.\<close>

lemma buckets_ok_D:
  assumes "buckets_ok b"
  shows "length (pe_id (bk_origin b)) = 32" "length (bk_distances b) = 256"
    "i < 256 \<Longrightarrow> bucket_ok (pe_id (bk_origin b)) i (bk_distances b ! i)"
  using assms by (simp_all add: buckets_ok_def)

lemma buckets_ok_update:
  assumes "buckets_ok b" and "i < 256" and "bucket_ok (pe_id (bk_origin b)) i bucket"
  shows "buckets_ok (b\<lparr>bk_distances := (bk_distances b)[i := bucket]\<rparr>)"
  using assms by (auto simp: buckets_ok_def nth_list_update)

lemma buckets_new_ok: "length (pe_id origin) = 32 \<Longrightarrow> buckets_ok (buckets_new origin)"
  by (simp add: buckets_ok_def buckets_new_def bucket_default_ok)

lemma buckets_insert_result:
  assumes "buckets_ok b" and "length (pe_id r) = 32" and "pe_id r \<noteq> pe_id (bk_origin b)"
  obtains i where "index b (pe_id r) = Inr i" "i < 256"
    "buckets_insert r b = Ok () (b\<lparr>bk_distances :=
       (bk_distances b)[i := bucket_insert r (bk_distances b ! i)]\<rparr>)"
    "buckets_ok (after (buckets_insert r b))"
proof -
  from index_defined [OF buckets_ok_D(1) [OF assms(1)] assms(2,3)]
  obtain i where i: "index b (pe_id r) = Inr i" by blast
  from index_Inr [OF i] have t: "top_bit (distance (pe_id (bk_origin b)) (pe_id r)) i" "i < 256"
    by (auto simp: top_bit_def)
  have e: "buckets_insert r b = Ok () (b\<lparr>bk_distances :=
       (bk_distances b)[i := bucket_insert r (bk_distances b ! i)]\<rparr>)"
    using i assms(3) by (simp add: buckets_insert_def)
  have "buckets_ok (after (buckets_insert r b))"
    unfolding e after.simps
    using t assms(2) by (intro buckets_ok_update [OF assms(1) t(2)] bucket_insert_ok
        buckets_ok_D(3) [OF assms(1) t(2)]) (simp add: in_bucket_def)
  from that [OF i t(2) e this] show thesis .
qed

lemma buckets_insert_keeps:
  assumes "buckets_ok b" and "length (pe_id r) = 32"
  shows "buckets_ok (after (buckets_insert r b))"
proof (cases "pe_id r = pe_id (bk_origin b)")
  case True
  with assms show ?thesis by (simp add: buckets_insert_def)
next
  case False
  from buckets_insert_result [OF assms this] show ?thesis by blast
qed

lemma buckets_remove_keeps:
  assumes "buckets_ok b"
  shows "buckets_ok (after (buckets_remove p b))"
proof (cases "index b p")
  case (Inl e)
  with assms show ?thesis by (simp add: buckets_remove_def)
next
  case (Inr i)
  from index_Inr [OF this] have i: "i < 256" by (simp add: top_bit_def)
  obtain x bucket where b: "bucket_remove p (bk_distances b ! i) = (x, bucket)"
    by (cases "bucket_remove p (bk_distances b ! i)")
  from bucket_remove_ok [OF buckets_ok_D(3) [OF assms i] b] Inr b buckets_ok_update [OF assms i]
  show ?thesis by (simp add: buckets_remove_def Let_def)
qed

end
