(* ===== verification/Kad_Closest.thy ===== *)
theory Kad_Closest
  imports Kad_Buckets
begin

text \<open>
  \<open>Buckets::find_closest\<close> is correct: on a well-formed table its assertions hold and it returns the
  \<open>count\<close> closest of all known peers, origin included, by increasing distance. The source comments
  that it does not know why its look-up order works; \<open>lookup_sorted\<close> is the reason. With \<open>D\<close> the
  distance from the origin to the target, a peer of bucket \<open>i\<close> differs from the origin first in bit
  \<open>i\<close>: if \<open>D\<close> has bit \<open>i\<close>, the peer is closer to the target than the origin, the more so the higher
  \<open>i\<close>; if not, it is farther, the more so the higher \<open>i\<close>.
\<close>

definition all_records :: "('k, 'a) buckets \<Rightarrow> ('k, 'a) peer_record list" where
  "all_records b = bk_origin b # concat (map b_records (bk_distances b))"

abbreviation key_to :: "peer_id \<Rightarrow> ('k, 'a) peer_record \<Rightarrow> u256" where
  "key_to target r \<equiv> distance (pe_id r) target"

section \<open>Collecting\<close>

lemma collect_closest_take:
  assumes "length records < num"
  shows "collect_closest b target num ks records =
    Inr (take num (records @ concat (map (index_records b target) ks)))"
  using assms
proof (induction ks arbitrary: records)
  case Nil
  then show ?case by simp
next
  case (Cons k ks)
  let ?seg = "index_records b target k"
  let ?r = "records @ take (num - length records) ?seg"
  show ?case
  proof (cases "num - length records \<le> length ?seg")
    case True
    then have "length ?r = num" using Cons.prems by simp
    then show ?thesis using True Cons.prems by (simp add: Let_def)
  next
    case False
    then have "?r = records @ ?seg" "length (records @ ?seg) < num" by auto
    with Cons.IH [of "records @ ?seg"] show ?thesis by (simp add: Let_def)
  qed
qed

section \<open>The look-up order\<close>

lemma lookup_order_all:
  assumes "\<And>k. bit D k \<Longrightarrow> k \<le> i" and "i < 256"
  shows "mset (lookup_order D i) = mset [0..<256]"
proof -
  have "[0..<256] = [0..<Suc i] @ [Suc i..<256]"
    using assms(2) upt_add_eq_append [of 0 "Suc i" "256 - Suc i"] by simp
  moreover have "filter (\<lambda>k. bit D k) [Suc i..<256] = []"
    using assms(1) by (fastforce simp: filter_empty_conv)
  ultimately have "filter (\<lambda>k. bit D k) [0..<256] = filter (\<lambda>k. bit D k) [0..<Suc i]"
    by (metis append_Nil2 filter_append)
  then have "mset (lookup_order D i) = mset (filter (\<lambda>k. bit D k) [0..<256]) +
      mset (filter (\<lambda>k. \<not> bit D k) [0..<256])"
    by (simp only: lookup_order_def mset_append rev_filter [symmetric] mset_rev)
  also have "\<dots> = mset [0..<256]"
    by (simp only: mset_filter multiset_partition [symmetric])
  finally show ?thesis .
qed

text \<open>A peer offered under index \<open>k\<close>: one of bucket \<open>k\<close>, or the origin when \<open>k\<close> is 0.\<close>

lemma index_records_mem:
  assumes "buckets_ok b" and "k < 256" and "r \<in> set (index_records b target k)"
  shows "(\<forall>m>k. \<not> bit (distance (pe_id (bk_origin b)) (pe_id r)) m) \<and>
    (0 < k \<or> r \<noteq> bk_origin b \<longrightarrow> bit (distance (pe_id (bk_origin b)) (pe_id r)) k) \<and>
    (k = 0 \<and> r = bk_origin b \<longrightarrow> distance (pe_id (bk_origin b)) (pe_id r) = 0)"
proof (cases "k = 0 \<and> r = bk_origin b")
  case True
  then show ?thesis by (simp add: distance_def)
next
  case False
  with assms(3) have "r \<in> set (b_records (bk_distances b ! k))"
    by (auto simp: index_records_def split: if_splits)
  with buckets_ok_D(3) [OF assms(1,2)] have "top_bit (distance (pe_id (bk_origin b)) (pe_id r)) k"
    by (auto simp: bucket_ok_def in_bucket_def)
  with False show ?thesis by (auto simp: top_bit_def)
qed

lemma key_less_at:
  assumes "\<And>m. n < m \<Longrightarrow> bit (distance p (pe_id x)) m = bit (distance p (pe_id y)) m"
    and "bit (distance p (pe_id x)) n = bit (distance p target) n"
    and "bit (distance p (pe_id y)) n \<noteq> bit (distance p target) n"
    and "n < 256"
  shows "key_to target x < key_to target y"
proof -
  have "key_to target x = distance p (pe_id x) XOR distance p target"
    "key_to target y = distance p (pe_id y) XOR distance p target"
    by (rule distance_via_origin)+
  with assms show ?thesis by (simp only:) (intro bit_less_word [of n], auto simp: bit_xor_iff)
qed

definition offered_before :: "u256 \<Rightarrow> nat \<Rightarrow> nat \<Rightarrow> bool" where
  "offered_before D k l \<longleftrightarrow> k < 256 \<and> l < 256 \<and>
     (bit D k \<and> bit D l \<and> l < k \<or> \<not> bit D k \<and> \<not> bit D l \<and> k < l \<or> bit D k \<and> \<not> bit D l)"

lemma lookup_sorted:
  assumes "i < 256"
  shows "sorted_wrt (offered_before D) (lookup_order D i)"
proof -
  have "sorted_wrt (\<lambda>k l. l < k) (rev [0..<Suc i])"
    by (simp only: sorted_wrt_rev) (rule sorted_wrt_upt)
  then have "sorted_wrt (\<lambda>k l. l < k) (filter (\<lambda>k. bit D k) (rev [0..<Suc i]))"
    by (rule sorted_wrt_filter)
  then have 1: "sorted_wrt (offered_before D) (filter (\<lambda>k. bit D k) (rev [0..<Suc i]))"
    by (rule sorted_wrt_mono_rel [rotated])
      (use assms in \<open>auto simp: offered_before_def simp del: upt_Suc\<close>)
  have "sorted_wrt (<) (filter (\<lambda>k. \<not> bit D k) [0..<256])"
    by (rule sorted_wrt_filter) (rule sorted_wrt_upt)
  then have 2: "sorted_wrt (offered_before D) (filter (\<lambda>k. \<not> bit D k) [0..<256])"
    by (rule sorted_wrt_mono_rel [rotated]) (auto simp: offered_before_def)
  show ?thesis
    unfolding lookup_order_def sorted_wrt_append
    using 1 2 assms by (auto simp: offered_before_def simp del: upt_Suc)
qed

lemma offered_before_closer:
  assumes "buckets_ok b" and D: "D = distance (pe_id (bk_origin b)) target"
    and "offered_before D k l"
    and "x \<in> set (index_records b target k)" and "y \<in> set (index_records b target l)"
  shows "key_to target x < key_to target y"
proof -
  let ?o = "pe_id (bk_origin b)"
  from assms(3) have kl: "k < 256" "l < 256" by (simp_all add: offered_before_def)
  note x = index_records_mem [OF assms(1) kl(1) assms(4)]
    and y = index_records_mem [OF assms(1) kl(2) assms(5)]
  consider (both) "bit D k" "bit D l" "l < k" | (neither) "\<not> bit D k" "\<not> bit D l" "k < l"
    | (high) "bit D k" "\<not> bit D l" "l < k" | (low) "bit D k" "\<not> bit D l" "k < l"
    using assms(3) by (auto simp: offered_before_def) (metis linorder_neqE_nat)
  then show ?thesis
  proof cases
    case both
    with x y kl show ?thesis
      by (intro key_less_at [where n = k and p = ?o]) (auto simp: D)
  next
    case neither
    with x y kl show ?thesis
      by (intro key_less_at [where n = l and p = ?o]) (auto simp: D)
  next
    case high
    with x y kl show ?thesis
      by (intro key_less_at [where n = k and p = ?o]) (auto simp: D)
  next
    case low
    with x y kl show ?thesis
      by (intro key_less_at [where n = l and p = ?o]) (auto simp: D)
  qed
qed

section \<open>The result\<close>

lemma sorted_concat:
  assumes "\<And>k. k \<in> set ks \<Longrightarrow> sorted (map f (seg k))"
    and "sorted_wrt (\<lambda>k l. \<forall>x\<in>set (seg k). \<forall>y\<in>set (seg l). f x \<le> f y) ks"
  shows "sorted (map f (concat (map seg ks)))"
  using assms
proof (induction ks)
  case (Cons k ks)
  then show ?case by (auto simp: sorted_append)
qed simp

lemma sum_list_mset_perm: "mset ks = mset ls \<Longrightarrow> sum_list (map f ks) = (sum_list (map f ls) :: 'a multiset)"
  by (metis mset_map sum_mset_sum_list)

lemma concat_index_records:
  assumes "buckets_ok b" and "mset ks = mset [0..<256]"
  shows "mset (concat (map (index_records b target) ks)) = mset (all_records b)"
proof -
  let ?rec = "\<lambda>k. b_records (bk_distances b ! k)"
  have "mset (concat (map (index_records b target) ks)) =
      sum_list (map (\<lambda>k. mset (index_records b target k)) ks)"
    by (simp add: mset_concat comp_def)
  also have "\<dots> = sum_list (map (\<lambda>k. mset (index_records b target k)) [0..<256])"
    by (rule sum_list_mset_perm [OF assms(2)])
  also have "\<dots> = sum_list (map (\<lambda>k. mset (?rec k)) [0..<256]) +
      sum_list (map (\<lambda>k. if k = 0 then {#bk_origin b#} else {#}) [0..<256])"
    unfolding sum_list_addf [symmetric]
    by (intro arg_cong [of _ _ sum_list] map_cong) (auto simp: index_records_def)
  also have "sum_list (map (\<lambda>k. if k = 0 then {#bk_origin b#} else {#}) [0..<256]) = {#bk_origin b#}"
  proof -
    have "[0..<256] = 0 # [1..<256]" by (simp add: upt_conv_Cons)
    moreover have "map (\<lambda>k. if k = 0 then {#bk_origin b#} else {#}) [1..<256] =
        map (\<lambda>_. {#}) [1..<256]"
      by (rule map_cong) auto
    then have "sum_list (map (\<lambda>k. if k = 0 then {#bk_origin b#} else {#}) [1..<256]) = {#}"
      by (simp only: sum_list_0)
    ultimately show ?thesis by simp
  qed
  also have "map (\<lambda>k. mset (?rec k)) [0..<256] = map mset (map b_records (bk_distances b))"
    using map_nth [of "map (\<lambda>x. mset (b_records x)) (bk_distances b)"] buckets_ok_D(2) [OF assms(1)]
    by (auto simp: comp_def intro!: nth_equalityI)
  finally show ?thesis by (simp add: all_records_def mset_concat)
qed

lemma all_records_slot:
  assumes "buckets_ok b" and "r \<in> set (all_records b)"
  shows "r = bk_origin b \<or> (\<exists>i<256. r \<in> set (b_records (bk_distances b ! i)) \<and>
    in_bucket (pe_id (bk_origin b)) i r)"
proof (cases "r = bk_origin b")
  case False
  with assms(2) obtain bucket where "bucket \<in> set (bk_distances b)" "r \<in> set (b_records bucket)"
    by (auto simp: all_records_def)
  then obtain i where i: "i < 256" "r \<in> set (b_records (bk_distances b ! i))"
    using buckets_ok_D(2) [OF assms(1)] by (metis in_set_conv_nth)
  with buckets_ok_D(3) [OF assms(1) i(1)] show ?thesis by (auto simp: bucket_ok_def)
qed simp

lemma inj_all_ids:
  assumes "buckets_ok b"
  shows "inj_on pe_id (set (all_records b))"
proof (rule inj_onI)
  let ?o = "pe_id (bk_origin b)"
  have slot: "r = bk_origin b \<or>
      (\<exists>i<256. r \<in> set (b_records (bk_distances b ! i)) \<and> top_bit (distance ?o (pe_id r)) i)"
    if "r \<in> set (all_records b)" for r
    using all_records_slot [OF assms that] by (auto simp: in_bucket_def)
  have zero: "\<not> top_bit (distance ?o ?o) i" for i by (simp add: top_bit_def distance_def)
  fix r s assume r: "r \<in> set (all_records b)" and s: "s \<in> set (all_records b)"
    and e: "pe_id r = pe_id s"
  from slot [OF r] slot [OF s] show "r = s"
  proof (elim disjE exE conjE)
    fix i j assume i: "i < 256" "r \<in> set (b_records (bk_distances b ! i))"
      "top_bit (distance ?o (pe_id r)) i"
      and j: "j < 256" "s \<in> set (b_records (bk_distances b ! j))"
      "top_bit (distance ?o (pe_id s)) j"
    with e top_bit_unique have "i = j" by metis
    with i j e buckets_ok_D(3) [OF assms, of i] show "r = s"
      by (auto simp: bucket_ok_def distinct_map dest: inj_onD)
  qed (use e zero in auto)
qed

lemma all_ids_32: "buckets_ok b \<Longrightarrow> r \<in> set (all_records b) \<Longrightarrow> length (pe_id r) = 32"
  using all_records_slot [of b r] buckets_ok_D(1) [of b] by (auto simp: in_bucket_def)

lemma distinct_concat_nth:
  assumes "\<And>i. i < length xss \<Longrightarrow> distinct (xss ! i)"
    and "\<And>i j. i < j \<Longrightarrow> j < length xss \<Longrightarrow> set (xss ! i) \<inter> set (xss ! j) = {}"
  shows "distinct (concat xss)"
  using assms
proof (induction xss)
  case (Cons xs xss)
  have "set xs \<inter> set ys = {}" if "ys \<in> set xss" for ys
  proof -
    from that obtain j where "j < length xss" "xss ! j = ys" by (metis in_set_conv_nth)
    with Cons.prems(2) [of 0 "Suc j"] show ?thesis by simp
  qed
  moreover have "distinct (concat xss)"
    using Cons.prems(1) [of "Suc _"] Cons.prems(2) [of "Suc _" "Suc _"]
    by (intro Cons.IH) auto
  ultimately show ?case using Cons.prems(1) [of 0] by auto
qed simp

lemma distinct_all_records:
  assumes "buckets_ok b"
  shows "distinct (all_records b)"
proof -
  let ?o = "pe_id (bk_origin b)" and ?rec = "map b_records (bk_distances b)"
  have len: "length (bk_distances b) = 256" by (rule buckets_ok_D(2) [OF assms])
  have ok: "in_bucket ?o i r" if "i < 256" "r \<in> set (?rec ! i)" for i r
    using buckets_ok_D(3) [OF assms that(1)] that len by (auto simp: bucket_ok_def)
  have "distinct (concat ?rec)"
  proof (rule distinct_concat_nth)
    fix i assume "i < length ?rec"
    with buckets_ok_D(3) [OF assms, of i] len show "distinct (?rec ! i)"
      by (simp add: bucket_ok_def distinct_map)
  next
    fix i j assume ij: "i < j" "j < length ?rec"
    have False if "r \<in> set (?rec ! i)" "r \<in> set (?rec ! j)" for r
      using ok [of i r] ok [of j r] that ij len
      by (auto simp: in_bucket_def dest: top_bit_unique)
    then show "set (?rec ! i) \<inter> set (?rec ! j) = {}" by blast
  qed
  moreover have "bk_origin b \<notin> set (concat ?rec)"
  proof
    assume "bk_origin b \<in> set (concat ?rec)"
    then obtain i where "i < 256" "bk_origin b \<in> set (?rec ! i)"
      using len by (auto simp: in_set_conv_nth) (metis in_set_conv_nth nth_map)
    from ok [OF this] show False by (simp add: in_bucket_def top_bit_def distance_def)
  qed
  ultimately show ?thesis by (simp add: all_records_def)
qed

lemma find_closest_sorted:
  assumes "buckets_ok b" and "length target = 32" and "0 < num"
  shows "find_closest target num b =
    Inr (take num (sort_key (key_to target) (all_records b)))"
proof -
  define D where "D = distance (pe_id (bk_origin b)) target"
  obtain i where i: "(if target = pe_id (bk_origin b) then Inr 0 else index b target) = Inr i"
    "i < 256" "\<And>k. bit D k \<Longrightarrow> k \<le> i"
  proof (cases "target = pe_id (bk_origin b)")
    case True
    then show thesis by (intro that [of 0]) (auto simp: D_def distance_def)
  next
    case False
    from index_defined [OF buckets_ok_D(1) [OF assms(1)] assms(2) False]
    obtain j where j: "index b target = Inr j" by blast
    from index_Inr [OF j] have "top_bit D j" by (simp add: D_def)
    with j False show thesis
      by (intro that [of j]) (auto simp: top_bit_def not_less [symmetric])
  qed
  let ?L = "lookup_order D i" and ?seg = "index_records b target"
  have perm: "mset ?L = mset [0..<256]" by (rule lookup_order_all [OF i(3,2)])
  have "sorted_wrt (\<lambda>k l. \<forall>x\<in>set (?seg k). \<forall>y\<in>set (?seg l). key_to target x \<le> key_to target y) ?L"
    by (rule sorted_wrt_mono_rel [OF _ lookup_sorted [OF i(2)]])
      (auto intro!: less_imp_le offered_before_closer [OF assms(1) D_def])
  then have srt: "sorted (map (key_to target) (concat (map ?seg ?L)))"
    by (intro sorted_concat) (simp_all add: index_records_def)
  have "inj_on (key_to target) (set (all_records b))"
    using inj_all_ids [OF assms(1)] all_ids_32 [OF assms(1)]
    by (auto simp: inj_on_def distance_inject)
  then have eq: "sort_key (key_to target) (all_records b) = concat (map ?seg ?L)"
    using concat_index_records [OF assms(1) perm, of target] srt
    by (intro sort_key_inj_key_eq) simp_all
  have "sorted (map (key_to target) (take num (concat (map ?seg ?L))))"
    using srt by (metis sorted_wrt_take take_map)
  then show ?thesis
    using i(1) assms(3)
    by (simp add: find_closest_def collect_closest_take D_def [symmetric] eq)
qed

end
