(* ===== verification/Kad_Peer.thy ===== *)
theory Kad_Peer
  imports Kad_Closest Timers Net
begin

text \<open>
  \<open>src/src/kademlia.rs\<close>, the peer: messages \<open>FindPeer\<close> and \<open>FindPeerOk\<close>, queries, \<open>Peer\<close> with all
  its handlers, \<open>bootstrap\<close>, \<open>start_query\<close> and \<open>refresh_buckets\<close>.

  \<^item> A peer's public key is its bytes; \<open>env\<close> holds the crypto library and the hash feeds of keys and
    addresses.
  \<^item> \<open>bootstrap\<close>'s callback is a value \<open>'f\<close>; calling it records it on the channel \<open>pe_called\<close>.
  \<^item> The random numbers \<open>refresh_buckets\<close> draws for bucket \<open>i\<close> are \<open>rng i\<close>, and \<open>pick\<close> is the first
    element of a \<open>HashSet\<close> in its iteration order, which the standard library leaves open: both are
    arguments of the handlers that use them.
  \<^item> \<open>binary_search_by_key\<close> is written for slices sorted by the key, which the records of a query
    always are (\<open>query_ok\<close> in \<open>Kad_Query\<close>).
\<close>

section \<open>Messages\<close>

type_synonym 'a known_peer = "(bytes, 'a) peer_record"

record 'a find_peer =
  fp_target :: peer_id
  fp_count :: usize
  fp_record :: "'a known_peer"

record 'a find_peer_ok =
  fo_seq :: u32
  fo_target :: peer_id
  fo_closest :: "'a known_peer list"
  fo_record :: "'a known_peer"

record 'a kad_env =
  ke_lib :: crypto_lib
  ke_key_feed :: "bytes \<Rightarrow> bytes"
  ke_addr_feed :: "'a \<Rightarrow> bytes"

definition record_feed :: "'a kad_env \<Rightarrow> 'a known_peer \<Rightarrow> bytes" where
  "record_feed env r =
     hash_bytes (pe_id r) @ ke_key_feed env (pe_key r) @ ke_addr_feed env (pe_addr r)"

definition find_peer_feed :: "'a kad_env \<Rightarrow> 'a find_peer \<Rightarrow> bytes" where
  "find_peer_feed env m =
     hash_bytes (fp_target m) @ write_usize (fp_count m) @ record_feed env (fp_record m)"

definition find_peer_ok_feed :: "'a kad_env \<Rightarrow> 'a find_peer_ok \<Rightarrow> bytes" where
  "find_peer_ok_feed env m =
     write_u32 (fo_seq m) @ hash_bytes (fo_target m) @
     hash_slice (record_feed env) (fo_closest m) @ record_feed env (fo_record m)"

section \<open>Crypto work\<close>

datatype 'a kad_crypto_event =
    SignedFindPeer "'a find_peer peer_verifiable"
  | SignedFindPeerOk "'a find_peer_ok peer_verifiable"
  | VerifiedFindPeer "'a find_peer peer_verifiable"
  | VerifiedFindPeerOk "'a find_peer_ok peer_verifiable"

datatype 'a kad_work =
    SignFindPeer "'a find_peer"
  | VerifyFindPeer "'a find_peer peer_verifiable"
  | SignFindPeerOk "'a find_peer_ok"
  | VerifyFindPeerOk "'a find_peer_ok peer_verifiable"

definition record_checks :: "'a kad_env \<Rightarrow> 'a known_peer \<Rightarrow> bool" where
  "record_checks env r \<longleftrightarrow> sha256 (ke_lib env) (ke_key_feed env) (pe_key r) = pe_id r"

fun kad_work_event :: "'a kad_env \<Rightarrow> 'a kad_work \<Rightarrow> bytes \<Rightarrow> 'a kad_crypto_event option" where
  "kad_work_event env (SignFindPeer m) keypair =
     Some (SignedFindPeer (peer_sign (ke_lib env) (find_peer_feed env) keypair m))"
| "kad_work_event env (VerifyFindPeer m) keypair =
     (if record_checks env (fp_record (inner m)) \<and>
         peer_verify (ke_lib env) (find_peer_feed env) (pe_key (fp_record (inner m))) m = Inr ()
      then Some (VerifiedFindPeer m) else None)"
| "kad_work_event env (SignFindPeerOk m) keypair =
     Some (SignedFindPeerOk (peer_sign (ke_lib env) (find_peer_ok_feed env) keypair m))"
| "kad_work_event env (VerifyFindPeerOk m) keypair =
     (if record_checks env (fo_record (inner m)) \<and>
         peer_verify (ke_lib env) (find_peer_ok_feed env) (pe_key (fo_record (inner m))) m = Inr ()
      then Some (VerifiedFindPeerOk m) else None)"

definition kad_run_work ::
  "'a kad_env \<Rightarrow> 'a kad_work \<Rightarrow> bytes \<Rightarrow> 'a kad_crypto_event sink \<Rightarrow>
   (unit, 'a kad_crypto_event sink) outcome" where
  "kad_run_work env work keypair sender =
     (case kad_work_event env work keypair of
        Some event \<Rightarrow> push_sink event sender
      | None \<Rightarrow> Ok () sender)"

section \<open>State\<close>

definition num_concurrency :: nat where
  "num_concurrency = 30"

datatype query_status = Progress | Converge | Halted

record 'a query_result =
  qr_status :: query_status
  qr_target :: peer_id
  qr_closest :: "'a known_peer list"

record 'a query_state =
  qs_find_peer :: "'a find_peer peer_verifiable"
  qs_records :: "'a known_peer list"
  qs_contacting :: "(peer_id, timer_id) hmap"
  qs_contacted :: "peer_id set"

datatype 'a kad_send =
    ToEach "'a list" "'a find_peer peer_verifiable"
  | ToAddr 'a "'a find_peer_ok peer_verifiable"

datatype 'a resend = ResendFindPeer peer_id "'a known_peer"

record ('a, 'f) peer =
  p_record :: "'a known_peer"
  p_buckets :: "(bytes, 'a) buckets"
  p_query_states :: "(peer_id, 'a query_state) hmap"
  p_refresh_targets :: "peer_id set"
  p_on_bootstrap :: "'f option"
  p_find_peer_ok_seq :: u32
  p_find_peer_ok_dests :: "(u32, 'a) hmap"
  p_net :: "'a kad_send sink"
  p_upcall :: "'a query_result sink"
  p_crypto_worker :: "(bytes, 'a kad_work, 'a kad_crypto_event) worker"
  p_called :: "'f sink"

definition peer_new ::
  "(bytes, 'a) buckets \<Rightarrow> 'a kad_send sink \<Rightarrow> 'a query_result sink \<Rightarrow>
   (bytes, 'a kad_work, 'a kad_crypto_event) worker \<Rightarrow> 'f sink \<Rightarrow> ('a, 'f) peer" where
  "peer_new b net upcall crypto_worker called =
     \<lparr>p_record = bk_origin b, p_buckets = b, p_query_states = [], p_refresh_targets = {},
      p_on_bootstrap = None, p_find_peer_ok_seq = 0, p_find_peer_ok_dests = [], p_net = net,
      p_upcall = upcall, p_crypto_worker = crypto_worker, p_called = called\<rparr>"

section \<open>Starting a query\<close>

definition peer_submit ::
  "'a kad_env \<Rightarrow> 'a kad_work \<Rightarrow> ('a, 'f) peer \<Rightarrow> (unit, ('a, 'f) peer) outcome" where
  "peer_submit env work p =
     lift_outcome (\<lambda>w. p\<lparr>p_crypto_worker := w\<rparr>)
       (submit (kad_run_work env) work (p_crypto_worker p))"

definition start_query ::
  "'a kad_env \<Rightarrow> peer_id \<Rightarrow> usize \<Rightarrow> ('a, 'f) peer \<Rightarrow> (unit, ('a, 'f) peer) outcome" where
  "start_query env target num p =
     peer_submit env
       (SignFindPeer \<lparr>fp_target = target, fp_count = num, fp_record = p_record p\<rparr>) p"

definition bootstrap ::
  "'a kad_env \<Rightarrow> 'f \<Rightarrow> ('a, 'f) peer \<Rightarrow> (unit, ('a, 'f) peer) outcome" where
  "bootstrap env on_bootstrap p =
     (if p_query_states p \<noteq> [] then Err (Bail ''start bootsrap while query in progress'') p
      else if p_refresh_targets p \<noteq> {} then
        Err (Bail ''start bootsrap while refresh in progress'') p
      else if p_on_bootstrap p \<noteq> None then
        Err (Bail ''start bootstrap while another bootstrap in progress'') p
      else start_query env (pe_id (p_record p)) bucket_size
             (p\<lparr>p_on_bootstrap := Some on_bootstrap\<rparr>))"

definition on_query ::
  "'a kad_env \<Rightarrow> peer_id \<Rightarrow> usize \<Rightarrow> ('a, 'f) peer \<times> 't \<Rightarrow>
   (unit, ('a, 'f) peer \<times> 't) outcome" where
  "on_query env target num s =
     (case s of (p, t) \<Rightarrow>
        if p_on_bootstrap p \<noteq> None then
          Err (Bail ''start query while bootstrap in progress'') (p, t)
        else lift_outcome (\<lambda>q. (q, t)) (start_query env target num p))"

definition resend_duration :: duration where
  "resend_duration = 2500"

text \<open>The loop that contacts the first records; on an error the local variables are dropped.\<close>

fun contact_each ::
  "('a resend, 't) rich_timer \<Rightarrow> peer_id \<Rightarrow> 'a known_peer list \<Rightarrow>
   (peer_id, timer_id) hmap \<Rightarrow> 'a list \<Rightarrow> 't \<Rightarrow>
   ((peer_id, timer_id) hmap \<times> 'a list, 't) outcome" where
  "contact_each timer target [] contacting dests t = Ok (contacting, dests) t"
| "contact_each timer target (r # rs) contacting dests t =
     and_then (rt_set timer resend_duration (ResendFindPeer target r) t) (\<lambda>i.
       contact_each timer target rs (hm_insert (pe_id r) i contacting) (dests @ [pe_addr r]))"

definition on_signed_find_peer ::
  "('a resend, 't) rich_timer \<Rightarrow> 'a find_peer peer_verifiable \<Rightarrow> ('a, 'f) peer \<times> 't \<Rightarrow>
   (unit, ('a, 'f) peer \<times> 't) outcome" where
  "on_signed_find_peer timer find_peer s =
     (case s of (p, t) \<Rightarrow>
        let target = fp_target (inner find_peer) in
        case find_closest target (max (fp_count (inner find_peer)) num_concurrency)
               (p_buckets p) of
          Inl e \<Rightarrow> Err e (p, t)
        | Inr records \<Rightarrow>
            if records = [] then Err (Bail ''empty buckets when finding'') (p, t)
            else and_then
              (lift_outcome (Pair p)
                (contact_each timer target
                   (take num_concurrency
                      (filter (\<lambda>r. pe_id r \<noteq> pe_id (p_record p)) records)) [] [] t))
              (\<lambda>(contacting, dests) (p, t).
                 let state = \<lparr>qs_find_peer = find_peer, qs_records = records,
                              qs_contacting = contacting,
                              qs_contacted = {pe_id (p_record p)}\<rparr>;
                     p1 = p\<lparr>p_query_states := hm_insert target state (p_query_states p)\<rparr>
                 in if hm_get (p_query_states p) target \<noteq> None then
                      Err (Bail ''concurrent query'') (p1, t)
                    else lift_outcome (\<lambda>n. (p1\<lparr>p_net := n\<rparr>, t))
                           (push_sink (ToEach dests find_peer) (p_net p1))))"

definition on_resend ::
  "'a resend \<Rightarrow> ('a, 'f) peer \<times> 't \<Rightarrow> (unit, ('a, 'f) peer \<times> 't) outcome" where
  "on_resend r s =
     (case r of ResendFindPeer target record \<Rightarrow>
        case hm_get (p_query_states (fst s)) target of
          None \<Rightarrow> Err (Panic ''called unwrap on a None value'') s
        | Some _ \<Rightarrow> Err (Bail ''FindPeer timeout'') s)"

section \<open>Answering a query\<close>

definition on_recv_find_peer ::
  "'a kad_env \<Rightarrow> 'a find_peer peer_verifiable \<Rightarrow> ('a, 'f) peer \<times> 't \<Rightarrow>
   (unit, ('a, 'f) peer \<times> 't) outcome" where
  "on_recv_find_peer env find_peer s =
     (case s of (p, t) \<Rightarrow>
        lift_outcome (\<lambda>q. (q, t)) (peer_submit env (VerifyFindPeer find_peer) p))"

definition peer_insert ::
  "'a known_peer \<Rightarrow> ('a, 'f) peer \<Rightarrow> (unit, ('a, 'f) peer) outcome" where
  "peer_insert r p = lift_outcome (\<lambda>b. p\<lparr>p_buckets := b\<rparr>) (buckets_insert r (p_buckets p))"

definition on_verified_find_peer ::
  "'a kad_env \<Rightarrow> 'a find_peer peer_verifiable \<Rightarrow> ('a, 'f) peer \<times> 't \<Rightarrow>
   (unit, ('a, 'f) peer \<times> 't) outcome" where
  "on_verified_find_peer env vm s =
     (case s of (p, t) \<Rightarrow>
        let find_peer = inner vm; dest = pe_addr (fp_record find_peer) in
        lift_outcome (\<lambda>q. (q, t))
          (and_then (peer_insert (fp_record find_peer) p) (\<lambda>_ p1.
             let seq = p_find_peer_ok_seq p1 + 1; p2 = p1\<lparr>p_find_peer_ok_seq := seq\<rparr> in
             case find_closest (fp_target find_peer) (fp_count find_peer) (p_buckets p2) of
               Inl e \<Rightarrow> Err e p2
             | Inr closest \<Rightarrow>
                 peer_submit env
                   (SignFindPeerOk \<lparr>fo_seq = seq, fo_target = fp_target find_peer,
                                    fo_closest = closest, fo_record = p_record p2\<rparr>)
                   (p2\<lparr>p_find_peer_ok_dests :=
                         hm_insert seq dest (p_find_peer_ok_dests p2)\<rparr>))))"

definition on_signed_find_peer_ok ::
  "'a find_peer_ok peer_verifiable \<Rightarrow> ('a, 'f) peer \<times> 't \<Rightarrow>
   (unit, ('a, 'f) peer \<times> 't) outcome" where
  "on_signed_find_peer_ok find_peer_ok s =
     (case s of (p, t) \<Rightarrow>
        let seq = fo_seq (inner find_peer_ok) in
        case hm_get (p_find_peer_ok_dests p) seq of
          None \<Rightarrow> Err (Bail ''unknown FindPeerOk seq'') (p, t)
        | Some dest \<Rightarrow>
            let p1 = p\<lparr>p_find_peer_ok_dests := hm_remove seq (p_find_peer_ok_dests p)\<rparr> in
            lift_outcome (\<lambda>n. (p1\<lparr>p_net := n\<rparr>, t))
              (push_sink (ToAddr dest find_peer_ok) (p_net p1)))"

definition on_recv_find_peer_ok ::
  "'a kad_env \<Rightarrow> 'a find_peer_ok peer_verifiable \<Rightarrow> ('a, 'f) peer \<times> 't \<Rightarrow>
   (unit, ('a, 'f) peer \<times> 't) outcome" where
  "on_recv_find_peer_ok env find_peer_ok s =
     (case s of (p, t) \<Rightarrow>
        lift_outcome (\<lambda>q. (q, t)) (peer_submit env (VerifyFindPeerOk find_peer_ok) p))"

section \<open>Refreshing buckets\<close>

text \<open>The scan for the first non-empty bucket starts behind bucket 0 and indexes the array unchecked.\<close>

function skip_empty :: "('k, 'a) buckets \<Rightarrow> nat \<Rightarrow> error + nat" where
  "skip_empty b start_index =
     (let i = start_index + 1 in
      if length (bk_distances b) \<le> i then Inl (Panic ''index out of bounds'')
      else if b_records (bk_distances b ! i) = [] then skip_empty b i
      else Inr i)"
  by pat_completeness auto
termination
  by (relation "measure (\<lambda>(b, i). length (bk_distances b) - i)") auto

declare skip_empty.simps [simp del]

type_synonym rng = "nat \<Rightarrow> u8 list \<times> nat"

definition refresh_target :: "rng \<Rightarrow> ('a, 'f) peer \<Rightarrow> nat \<Rightarrow> peer_id" where
  "refresh_target rng p i =
     distance_from (pe_id (p_record p)) (rand_distance i (fst (rng i)) (snd (rng i)))"

fun refresh_each ::
  "rng \<Rightarrow> nat list \<Rightarrow> ('a, 'f) peer \<Rightarrow> (unit, ('a, 'f) peer) outcome" where
  "refresh_each rng [] p = Ok () p"
| "refresh_each rng (i # is) p =
     (let target = refresh_target rng p i in
      case index (p_buckets p) target of
        Inl e \<Rightarrow> Err e p
      | Inr k \<Rightarrow>
          if k \<noteq> i then Err (Panic ''assertion failed: index(&target) == i'') p
          else refresh_each rng is
                 (p\<lparr>p_refresh_targets := insert target (p_refresh_targets p)\<rparr>))"

definition start_next_refresh ::
  "'a kad_env \<Rightarrow> (peer_id set \<Rightarrow> peer_id) \<Rightarrow> ('a, 'f) peer \<Rightarrow>
   (unit, ('a, 'f) peer) outcome" where
  "start_next_refresh env pick p =
     start_query env (pick (p_refresh_targets p)) bucket_size p"

definition refresh_buckets ::
  "'a kad_env \<Rightarrow> rng \<Rightarrow> (peer_id set \<Rightarrow> peer_id) \<Rightarrow> ('a, 'f) peer \<Rightarrow>
   (unit, ('a, 'f) peer) outcome" where
  "refresh_buckets env rng pick p =
     (case (if p_on_bootstrap p \<noteq> None then skip_empty (p_buckets p) 0 else Inr 0) of
        Inl e \<Rightarrow> Err e p
      | Inr start_index \<Rightarrow>
          and_then (refresh_each rng [start_index..<256] p) (\<lambda>_ p1.
            if p_refresh_targets p1 \<noteq> {} then start_next_refresh env pick p1 else Ok () p1))"

definition call_bootstrap :: "('a, 'f) peer \<Rightarrow> (unit, ('a, 'f) peer) outcome" where
  "call_bootstrap p =
     (case p_on_bootstrap p of
        None \<Rightarrow> Err (Panic ''called unwrap on a None value'') p
      | Some f \<Rightarrow>
          lift_outcome (\<lambda>c. p\<lparr>p_on_bootstrap := None, p_called := c\<rparr>)
            (push_sink f (p_called p)))"

section \<open>Driving a query\<close>

text \<open>\<open>binary_search_by_key\<close> on a sorted slice: the position, found or to insert at.\<close>

definition search_by_key :: "('r \<Rightarrow> u256) \<Rightarrow> u256 \<Rightarrow> 'r list \<Rightarrow> bool \<times> nat" where
  "search_by_key f k xs =
     (let i = length (takeWhile (\<lambda>x. f x < k) xs) in
      (i < length xs \<and> f (xs ! i) = k, i))"

fun merge_closest ::
  "peer_id \<Rightarrow> 'a known_peer list \<Rightarrow> 'a known_peer list \<Rightarrow> (unit, 'a known_peer list) outcome" where
  "merge_closest target [] records = Ok () records"
| "merge_closest target (r # rs) records =
     (case search_by_key (key_to target) (key_to target r) records of
        (True, i) \<Rightarrow>
          if r \<noteq> records ! i then Err (Bail ''non-distinct distance'') records
          else merge_closest target rs records
      | (False, i) \<Rightarrow> merge_closest target rs (take i records @ [r] @ drop i records))"

text \<open>\<open>store\<close>: what a mutation through \<open>get_mut\<close> leaves in the map.\<close>

abbreviation store :: "peer_id \<Rightarrow> 'a query_state \<Rightarrow> ('a, 'f) peer \<Rightarrow> ('a, 'f) peer" where
  "store target state p \<equiv> p\<lparr>p_query_states := hm_insert target state (p_query_states p)\<rparr>"

fun unset_each ::
  "('a resend, 't) rich_timer \<Rightarrow> timer_id list \<Rightarrow> 't \<Rightarrow> (unit, 't) outcome" where
  "unset_each timer [] t = Ok () t"
| "unset_each timer (i # is) t = and_then (rt_unset timer i t) (\<lambda>_. unset_each timer is)"

definition next_to_contact :: "'a query_state \<Rightarrow> 'a known_peer option" where
  "next_to_contact state =
     find (\<lambda>r. pe_id r \<notin> qs_contacted state \<and> \<not> hm_has (qs_contacting state) (pe_id r))
       (qs_records state)"

lemma length_hm_insert_new: "\<not> hm_has m k \<Longrightarrow> length (hm_insert k v m) = Suc (length m)"
  by (induction m) (auto simp: hm_has_def split: if_splits)

lemma next_to_contact_new:
  assumes "next_to_contact state = Some r"
  shows "r \<in> set (qs_records state)" "pe_id r \<notin> qs_contacted state"
    "\<not> hm_has (qs_contacting state) (pe_id r)"
  using assms by (auto simp: next_to_contact_def find_Some_iff)

text \<open>The loop that keeps up to \<open>num_concurrency\<close> peers contacted.\<close>

function contact_more ::
  "('a resend, 't) rich_timer \<Rightarrow> peer_id \<Rightarrow> 'a list \<Rightarrow> 'a query_state \<times> 't \<Rightarrow>
   ('a list, 'a query_state \<times> 't) outcome" where
  "contact_more timer target dests (state, t) =
     (if num_concurrency \<le> length (qs_contacting state) then Ok dests (state, t)
      else case next_to_contact state of
          None \<Rightarrow> Ok dests (state, t)
        | Some r \<Rightarrow>
            (case rt_set timer resend_duration (ResendFindPeer target r) t of
               Err e t' \<Rightarrow> Err e (state, t')
             | Ok i t' \<Rightarrow>
                 contact_more timer target (dests @ [pe_addr r])
                   (state\<lparr>qs_contacting := hm_insert (pe_id r) i (qs_contacting state)\<rparr>, t')))"
  by pat_completeness auto
termination
  by (relation "measure (\<lambda>(_, _, _, state, _). num_concurrency - length (qs_contacting state))")
    (auto simp: length_hm_insert_new next_to_contact_new(3))

declare contact_more.simps [simp del]

text \<open>The block \<open>'upcall\<close>: the status of the query after a reply, its timers and messages.\<close>

definition query_step ::
  "('a resend, 't) rich_timer \<Rightarrow> peer_id \<Rightarrow> 'a query_state \<Rightarrow> ('a, 'f) peer \<times> 't \<Rightarrow>
   (query_status, ('a, 'f) peer \<times> 't) outcome" where
  "query_step timer target state s =
     (case s of (p, t) \<Rightarrow>
        if fp_count (inner (qs_find_peer state)) \<le>
           length (takeWhile (\<lambda>r. pe_id r \<in> qs_contacted state) (qs_records state)) then
          let p1 = p\<lparr>p_query_states := hm_remove target (p_query_states p)\<rparr> in
          and_then (lift_outcome (Pair p1) (unset_each timer (map snd (qs_contacting state)) t))
            (\<lambda>_. Ok Converge)
        else
          (case contact_more timer target [] (state, t) of
             Err e (state1, t1) \<Rightarrow> Err e (store target state1 p, t1)
           | Ok dests (state1, t1) \<Rightarrow>
               let p1 = store target state1 p in
               if qs_contacting state1 = [] then
                 Ok Halted (p1\<lparr>p_query_states := hm_remove target (p_query_states p1)\<rparr>, t1)
               else if dests \<noteq> [] then
                 and_then (lift_outcome (\<lambda>n. (p1\<lparr>p_net := n\<rparr>, t1))
                   (push_sink (ToEach dests (qs_find_peer state1)) (p_net p1)))
                   (\<lambda>_. Ok Progress)
               else Ok Progress (p1, t1)))"

text \<open>What follows the status: the upcall, or the next step of a refresh or of the bootstrap.\<close>

definition query_report ::
  "'a kad_env \<Rightarrow> rng \<Rightarrow> (peer_id set \<Rightarrow> peer_id) \<Rightarrow> peer_id \<Rightarrow> 'a known_peer list \<Rightarrow>
   query_status \<Rightarrow> ('a, 'f) peer \<Rightarrow> (unit, ('a, 'f) peer) outcome" where
  "query_report env rng pick target closest status p =
     (if p_on_bootstrap p = None then
        if target \<notin> p_refresh_targets p then
          lift_outcome (\<lambda>u. p\<lparr>p_upcall := u\<rparr>)
            (push_sink \<lparr>qr_status = status, qr_target = target, qr_closest = closest\<rparr>
               (p_upcall p))
        else if status = Converge \<or> status = Halted then
          Ok () (p\<lparr>p_refresh_targets := p_refresh_targets p - {target}\<rparr>)
        else Ok () p
      else if status = Progress then Ok () p
      else if p_refresh_targets p = {} then
        and_then (refresh_buckets env rng pick p) (\<lambda>_ p1.
          if p_refresh_targets p1 = {} then call_bootstrap p1 else Ok () p1)
      else if target \<notin> p_refresh_targets p then
        Err (Panic ''assertion failed: removed'') p
      else
        let p1 = p\<lparr>p_refresh_targets := p_refresh_targets p - {target}\<rparr> in
        if p_refresh_targets p1 \<noteq> {} then start_next_refresh env pick p1
        else call_bootstrap p1)"

definition contacted_closest :: "'a query_state \<Rightarrow> 'a known_peer list" where
  "contacted_closest state =
     take (fp_count (inner (qs_find_peer state)))
       (filter (\<lambda>r. pe_id r \<in> qs_contacted state) (qs_records state))"

definition on_verified_find_peer_ok ::
  "'a kad_env \<Rightarrow> rng \<Rightarrow> (peer_id set \<Rightarrow> peer_id) \<Rightarrow> ('a resend, 't) rich_timer \<Rightarrow>
   'a find_peer_ok peer_verifiable \<Rightarrow> ('a, 'f) peer \<times> 't \<Rightarrow>
   (unit, ('a, 'f) peer \<times> 't) outcome" where
  "on_verified_find_peer_ok env rng pick timer vm s =
     (let find_peer_ok = inner vm; peer_id = pe_id (fo_record find_peer_ok);
          target = fo_target find_peer_ok in
      and_then (lift_outcome (\<lambda>p. (p, snd s)) (peer_insert (fo_record find_peer_ok) (fst s)))
        (\<lambda>_ (p, t).
          case hm_get (p_query_states p) target of
            None \<Rightarrow> Ok () (p, t)
          | Some state \<Rightarrow>
              (case hm_get (qs_contacting state) peer_id of
                 None \<Rightarrow> Ok () (p, t)
               | Some resend_timer \<Rightarrow>
                   let state1 = state\<lparr>qs_contacting := hm_remove peer_id (qs_contacting state)\<rparr> in
                   and_then (lift_outcome (Pair (store target state1 p))
                     (rt_unset timer resend_timer t)) (\<lambda>_ (p1, t1).
                   let state2 = state1\<lparr>qs_contacted := insert peer_id (qs_contacted state1)\<rparr> in
                   case merge_closest target (fo_closest find_peer_ok) (qs_records state2) of
                     Err e records \<Rightarrow> Err e (store target (state2\<lparr>qs_records := records\<rparr>) p1, t1)
                   | Ok _ records \<Rightarrow>
                       let state3 = state2\<lparr>qs_records := records\<rparr> in
                       and_then (query_step timer target state3 (store target state3 p1, t1))
                         (\<lambda>status (p2, t2).
                           lift_outcome (\<lambda>q. (q, t2))
                             (query_report env rng pick target (contacted_closest state3)
                                status p2))))))"

section \<open>All events\<close>

datatype 'a kad_event =
    KQuery peer_id usize
  | KResend "'a resend"
  | KRecvFindPeer "'a find_peer peer_verifiable"
  | KRecvFindPeerOk "'a find_peer_ok peer_verifiable"
  | KCrypto "'a kad_crypto_event"

fun peer_on_event ::
  "'a kad_env \<Rightarrow> rng \<Rightarrow> (peer_id set \<Rightarrow> peer_id) \<Rightarrow> ('a resend, 't) rich_timer \<Rightarrow>
   'a kad_event \<Rightarrow> ('a, 'f) peer \<times> 't \<Rightarrow> (unit, ('a, 'f) peer \<times> 't) outcome" where
  "peer_on_event env rng pick timer (KQuery target num) s = on_query env target num s"
| "peer_on_event env rng pick timer (KResend r) s = on_resend r s"
| "peer_on_event env rng pick timer (KRecvFindPeer m) s = on_recv_find_peer env m s"
| "peer_on_event env rng pick timer (KRecvFindPeerOk m) s = on_recv_find_peer_ok env m s"
| "peer_on_event env rng pick timer (KCrypto (SignedFindPeer m)) s =
     on_signed_find_peer timer m s"
| "peer_on_event env rng pick timer (KCrypto (SignedFindPeerOk m)) s =
     on_signed_find_peer_ok m s"
| "peer_on_event env rng pick timer (KCrypto (VerifiedFindPeer m)) s =
     on_verified_find_peer env m s"
| "peer_on_event env rng pick timer (KCrypto (VerifiedFindPeerOk m)) s =
     on_verified_find_peer_ok env rng pick timer m s"

end
