(* ===== verification/Kad_Query.thy ===== *)
theory Kad_Query
  imports Kad_Peer
begin

text \<open>
  The invariant of a Kademlia peer. A query keeps its records strictly sorted by distance to the
  target, contacts only recorded peers, each at most once, and at most \<open>num_concurrency\<close> at a time;
  the routing table stays well-formed. Every handler keeps it, errors included.

  On top of it, what the three statuses of a query mean (\<open>query_step_Converge\<close>, \<open>query_step_Halted\<close>,
  \<open>query_step_Progress\<close>).
\<close>

section \<open>The invariant\<close>

abbreviation nearer ::
  "peer_id \<Rightarrow> ('k, 'a) peer_record \<Rightarrow> ('k, 'a) peer_record \<Rightarrow> bool" where
  "nearer target x y \<equiv> key_to target x < key_to target y"

definition ids_ok :: "'a known_peer list \<Rightarrow> bool" where
  "ids_ok rs \<longleftrightarrow> list_all (\<lambda>r. length (pe_id r) = 32) rs"

definition query_ok :: "peer_id \<Rightarrow> 'a query_state \<Rightarrow> bool" where
  "query_ok target state \<longleftrightarrow>
     fp_target (inner (qs_find_peer state)) = target \<and>
     sorted_wrt (nearer target) (qs_records state) \<and> ids_ok (qs_records state) \<and>
     hm_wf (qs_contacting state) \<and> length (qs_contacting state) \<le> num_concurrency \<and>
     fst ` set (qs_contacting state) \<subseteq> pe_id ` set (qs_records state) \<and>
     qs_contacted state \<inter> fst ` set (qs_contacting state) = {}"

definition peer_ok :: "('a, 'f) peer \<Rightarrow> bool" where
  "peer_ok p \<longleftrightarrow>
     buckets_ok (p_buckets p) \<and> p_record p = bk_origin (p_buckets p) \<and>
     hm_wf (p_query_states p) \<and>
     (\<forall>target state. hm_get (p_query_states p) target = Some state \<longrightarrow> query_ok target state)"

text \<open>Messages off the wire: ids are arrays of 32 bytes, the count is a \<open>NonZeroUsize\<close>.\<close>

definition find_peer_wf :: "'a find_peer \<Rightarrow> bool" where
  "find_peer_wf m \<longleftrightarrow> length (fp_target m) = 32 \<and> 0 < fp_count m \<and> length (pe_id (fp_record m)) = 32"

definition find_peer_ok_wf :: "'a find_peer_ok \<Rightarrow> bool" where
  "find_peer_ok_wf m \<longleftrightarrow> length (fo_target m) = 32 \<and> ids_ok (fo_closest m) \<and>
     length (pe_id (fo_record m)) = 32"

fun kad_event_wf :: "'a kad_event \<Rightarrow> bool" where
  "kad_event_wf (KCrypto (SignedFindPeer m)) = find_peer_wf (inner m)"
| "kad_event_wf (KCrypto (VerifiedFindPeer m)) = find_peer_wf (inner m)"
| "kad_event_wf (KCrypto (VerifiedFindPeerOk m)) = find_peer_ok_wf (inner m)"
| "kad_event_wf _ = True"

lemma peer_ok_store:
  assumes "peer_ok p" and "query_ok target state"
  shows "peer_ok (store target state p)"
  using assms by (auto simp: peer_ok_def)

lemma peer_ok_drop:
  assumes "peer_ok p"
  shows "peer_ok (p\<lparr>p_query_states := hm_remove target (p_query_states p)\<rparr>)"
  using assms by (auto simp: peer_ok_def)

text \<open>The fields the invariant does not look at.\<close>

lemma peer_ok_fields [simp]:
  "peer_ok (p\<lparr>p_net := n\<rparr>) = peer_ok p" "peer_ok (p\<lparr>p_upcall := u\<rparr>) = peer_ok p"
  "peer_ok (p\<lparr>p_crypto_worker := w\<rparr>) = peer_ok p" "peer_ok (p\<lparr>p_called := c\<rparr>) = peer_ok p"
  "peer_ok (p\<lparr>p_refresh_targets := r\<rparr>) = peer_ok p" "peer_ok (p\<lparr>p_on_bootstrap := f\<rparr>) = peer_ok p"
  "peer_ok (p\<lparr>p_find_peer_ok_seq := i\<rparr>) = peer_ok p"
  "peer_ok (p\<lparr>p_find_peer_ok_dests := d\<rparr>) = peer_ok p"
  by (simp_all add: peer_ok_def)

lemma peer_submit_after: "\<exists>w. after (peer_submit env work p) = p\<lparr>p_crypto_worker := w\<rparr>"
  by (auto simp: peer_submit_def)

lemma peer_submit_keeps [simp]: "peer_ok (after (peer_submit env work p)) = peer_ok p"
  using peer_submit_after [of env work p] by auto

lemma peer_new_ok: "buckets_ok b \<Longrightarrow> peer_ok (peer_new b net upcall w called)"
  by (simp add: peer_ok_def peer_new_def)

section \<open>Records of a query\<close>

lemma find_closest_result:
  assumes "buckets_ok b" and "length target = 32" and "0 < num"
  obtains rs where "find_closest target num b = Inr rs" "rs \<noteq> []"
    "sorted_wrt (\<lambda>x y. key_to target x < key_to target y) rs"
    "list_all (\<lambda>r. length (pe_id r) = 32) rs" "set rs \<subseteq> set (all_records b)"
proof -
  let ?all = "sort_key (key_to target) (all_records b)"
  have inj: "inj_on (key_to target) (set (all_records b))"
    using inj_all_ids [OF assms(1)] all_ids_32 [OF assms(1)]
    by (auto simp: inj_on_def distance_inject)
  have "distinct (map (key_to target) ?all)"
    using inj distinct_all_records [OF assms(1)] by (simp add: distinct_map)
  then have "sorted_wrt (<) (map (key_to target) ?all)"
    by (simp add: strict_sorted_iff)
  then have "sorted_wrt (nearer target) (take num ?all)" for num
    by (simp add: sorted_wrt_map sorted_wrt_take)
  moreover have "set (take num ?all) \<subseteq> set (all_records b)"
    using set_take_subset [of num ?all] by simp
  moreover have "take num ?all \<noteq> []"
    using assms(3) by (simp add: all_records_def)
  ultimately show thesis
    using that [of "take num ?all"] find_closest_sorted [OF assms] all_ids_32 [OF assms(1)]
    by (auto simp: list_all_iff)
qed

lemma search_by_key_spec:
  assumes "sorted_wrt (\<lambda>x y. f x < f y) xs" and "search_by_key f k xs = (found, i)"
  shows "i \<le> length xs" "\<And>x. x \<in> set (take i xs) \<Longrightarrow> f x < k"
    "found \<Longrightarrow> i < length xs \<and> f (xs ! i) = k"
    "\<And>x. \<not> found \<Longrightarrow> x \<in> set (drop i xs) \<Longrightarrow> k < f x"
proof -
  have i: "i = length (takeWhile (\<lambda>x. f x < k) xs)" and found: "found \<longleftrightarrow> i < length xs \<and> f (xs ! i) = k"
    using assms(2) by (auto simp: search_by_key_def Let_def)
  show "i \<le> length xs" by (simp add: i length_takeWhile_le)
  show "f x < k" if "x \<in> set (take i xs)" for x
    using that by (metis i set_takeWhileD takeWhile_eq_take)
  show "found \<Longrightarrow> i < length xs \<and> f (xs ! i) = k" using found by simp
  show "k < f x" if "\<not> found" "x \<in> set (drop i xs)" for x
  proof -
    from that(2) obtain m where "m < length xs - i" "x = drop i xs ! m"
      by (auto simp: in_set_conv_nth)
    then have j: "i \<le> i + m" "i + m < length xs" "x = xs ! (i + m)" by auto
    then have "i < length xs" by simp
    then have "\<not> f (xs ! i) < k" using i nth_length_takeWhile by metis
    with that(1) found \<open>i < length xs\<close> have "k < f (xs ! i)" by auto
    with j sorted_wrt_nth_less [OF assms(1), of i "i + m"] show ?thesis by (cases m) auto
  qed
qed

lemma sorted_wrt_insert_at:
  assumes "sorted_wrt P xs" and "\<And>x. x \<in> set (take i xs) \<Longrightarrow> P x r"
    and "\<And>x. x \<in> set (drop i xs) \<Longrightarrow> P r x"
  shows "sorted_wrt P (take i xs @ [r] @ drop i xs)"
proof -
  have "sorted_wrt P (take i xs @ drop i xs)" using assms(1) by simp
  then show ?thesis using assms(2,3) unfolding sorted_wrt_append by auto
qed

lemma merge_closest_keeps:
  assumes "sorted_wrt (nearer target) records" and "ids_ok records" and "ids_ok rs"
  shows "sorted_wrt (nearer target) (after (merge_closest target rs records)) \<and>
    ids_ok (after (merge_closest target rs records)) \<and>
    set records \<subseteq> set (after (merge_closest target rs records)) \<and>
    set (after (merge_closest target rs records)) \<subseteq> set records \<union> set rs \<and>
    (is_ok (merge_closest target rs records) \<longrightarrow>
       set rs \<subseteq> set (after (merge_closest target rs records)))"
  using assms
proof (induction rs arbitrary: records)
  case Nil
  then show ?case by simp
next
  case (Cons r rs)
  obtain found i where s: "search_by_key (key_to target) (key_to target r) records = (found, i)"
    by (cases "search_by_key (key_to target) (key_to target r) records")
  note spec = search_by_key_spec [OF Cons.prems(1) s]
  show ?case
  proof (cases found)
    case True
    with spec(3) have i: "i < length records" by simp
    show ?thesis
    proof (cases "r = records ! i")
      case True
      with i have "r \<in> set records" by simp
      with Cons True s \<open>found\<close> show ?thesis by (auto simp: ids_ok_def)
    qed (use Cons.prems s \<open>found\<close> in \<open>auto simp: ids_ok_def\<close>)
  next
    case False
    let ?new = "take i records @ [r] @ drop i records"
    have new: "set ?new = insert r (set records)"
      by (metis Un_insert_right append_take_drop_id list.simps(15) set_append append_Cons append_Nil)
    have "sorted_wrt (nearer target) ?new"
      by (rule sorted_wrt_insert_at [OF Cons.prems(1)]) (use spec False in auto)
    moreover have "ids_ok ?new"
      using Cons.prems(2,3) new by (auto simp: ids_ok_def list_all_iff)
    ultimately have IH: "sorted_wrt (nearer target) (after (merge_closest target rs ?new)) \<and>
      ids_ok (after (merge_closest target rs ?new)) \<and>
      set ?new \<subseteq> set (after (merge_closest target rs ?new)) \<and>
      set (after (merge_closest target rs ?new)) \<subseteq> set ?new \<union> set rs \<and>
      (is_ok (merge_closest target rs ?new) \<longrightarrow>
         set rs \<subseteq> set (after (merge_closest target rs ?new)))"
      using Cons.IH [of ?new] Cons.prems(3) by (simp_all add: ids_ok_def)
    have "merge_closest target (r # rs) records = merge_closest target rs ?new"
      using s False by simp
    with IH show ?thesis unfolding new by (simp del: merge_closest.simps)
  qed
qed

section \<open>Contacting\<close>

lemma contact_each_keeps:
  assumes "contact_each timer target rs contacting dests t = Ok (contacting', dests') t'"
    and "hm_wf contacting"
  shows "hm_wf contacting' \<and> fst ` set contacting' = fst ` set contacting \<union> pe_id ` set rs \<and>
    dests' = dests @ map pe_addr rs"
  using assms
proof (induction rs arbitrary: contacting dests t)
  case (Cons r rs)
  then obtain i t1 where
    "contact_each timer target rs (hm_insert (pe_id r) i contacting) (dests @ [pe_addr r]) t1 =
       Ok (contacting', dests') t'"
    by (auto simp: and_then_Ok_iff)
  from Cons.IH [OF this] Cons.prems(2) show ?case by (simp add: dom_update)
qed auto

lemma length_keys: "hm_wf m \<Longrightarrow> length m = card (fst ` set m)"
  by (rule length_hm_card)

lemma contact_more_keeps:
  assumes "query_ok target state"
  shows "query_ok target (fst (after (contact_more timer target dests (state, t)))) \<and>
    (\<exists>m. fst (after (contact_more timer target dests (state, t))) = state\<lparr>qs_contacting := m\<rparr> \<and>
       fst ` set (qs_contacting state) \<subseteq> fst ` set m)"
  using assms
proof (induction timer target dests "(state, t)" arbitrary: state t rule: contact_more.induct)
  case (1 tm trg ds st t)
  show ?case
  proof (cases "num_concurrency \<le> length (qs_contacting st)")
    case True
    with 1 show ?thesis
      by (auto simp: contact_more.simps [of tm trg ds st t] intro!: exI [of _ "qs_contacting st"])
  next
    case less: False
    show ?thesis
    proof (cases "next_to_contact st")
      case None
      with 1 less show ?thesis
        by (auto simp: contact_more.simps [of tm trg ds st t] intro!: exI [of _ "qs_contacting st"])
    next
      case (Some r)
      show ?thesis
      proof (cases "rt_set tm resend_duration (ResendFindPeer trg r) t")
        case (Err e t')
        with 1 less Some show ?thesis
          by (auto simp: contact_more.simps [of tm trg ds st t] intro!: exI [of _ "qs_contacting st"])
      next
        case (Ok i t')
        let ?s = "st\<lparr>qs_contacting := hm_insert (pe_id r) i (qs_contacting st)\<rparr>"
        from next_to_contact_new [OF Some] 1(2) less have "query_ok trg ?s"
          by (auto simp: query_ok_def dom_update length_hm_insert_new hm_has_def)
        from 1(1) [OF less Some Ok this] obtain m where
          IH: "query_ok trg (fst (after (contact_more tm trg (ds @ [pe_addr r]) (?s, t'))))"
          "fst (after (contact_more tm trg (ds @ [pe_addr r]) (?s, t'))) = ?s\<lparr>qs_contacting := m\<rparr>"
          "fst ` set (qs_contacting ?s) \<subseteq> fst ` set m"
          by blast
        moreover have "contact_more tm trg ds (st, t) =
            contact_more tm trg (ds @ [pe_addr r]) (?s, t')"
          using less Some Ok by (simp add: contact_more.simps [of tm trg ds st t])
        moreover have "fst ` set (qs_contacting st) \<subseteq> fst ` set (qs_contacting ?s)"
          by (auto simp: dom_update)
        ultimately show ?thesis by (intro conjI exI [of _ m]) auto
      qed
    qed
  qed
qed

text \<open>When the loop ends it has filled its quota, or no recorded peer is left to contact.\<close>

lemma contact_more_done:
  assumes "contact_more timer target dests (state, t) = Ok dests' (state', t')"
  shows "num_concurrency \<le> length (qs_contacting state') \<or> next_to_contact state' = None"
  using assms
proof (induction timer target dests "(state, t)" arbitrary: state t rule: contact_more.induct)
  case (1 tm trg ds st t)
  then show ?case
    by (auto simp: contact_more.simps [of tm trg ds st t]
        split: if_splits option.splits outcome.splits)
qed

lemma next_to_contact_None:
  "next_to_contact state = None \<longleftrightarrow>
     (\<forall>r\<in>set (qs_records state). pe_id r \<in> qs_contacted state \<or> hm_has (qs_contacting state) (pe_id r))"
  by (auto simp: next_to_contact_def find_None_iff)

section \<open>What a status means\<close>

abbreviation enough_contacted :: "'a query_state \<Rightarrow> bool" where
  "enough_contacted state \<equiv> fp_count (inner (qs_find_peer state)) \<le>
     length (takeWhile (\<lambda>r. pe_id r \<in> qs_contacted state) (qs_records state))"

abbreviation drop_query :: "peer_id \<Rightarrow> ('a, 'f) peer \<Rightarrow> ('a, 'f) peer" where
  "drop_query target p \<equiv> p\<lparr>p_query_states := hm_remove target (p_query_states p)\<rparr>"

lemma query_step_cases:
  obtains (converged) t' where "enough_contacted state"
    "query_step timer target state (p, t) = Ok Converge (drop_query target p, t')"
  | (unset_fails) e t' where
    "query_step timer target state (p, t) = Err e (drop_query target p, t')"
  | (set_fails) e state1 t1 where
    "contact_more timer target [] (state, t) = Err e (state1, t1)"
    "query_step timer target state (p, t) = Err e (store target state1 p, t1)"
  | (halted) dests state1 t1 where "\<not> enough_contacted state"
    "contact_more timer target [] (state, t) = Ok dests (state1, t1)" "qs_contacting state1 = []"
    "query_step timer target state (p, t) = Ok Halted (drop_query target (store target state1 p), t1)"
  | (progress) dests state1 t1 n where "\<not> enough_contacted state"
    "contact_more timer target [] (state, t) = Ok dests (state1, t1)" "qs_contacting state1 \<noteq> []"
    "query_step timer target state (p, t) = Ok Progress ((store target state1 p)\<lparr>p_net := n\<rparr>, t1)"
  | (send_fails) e dests state1 t1 n where
    "contact_more timer target [] (state, t) = Ok dests (state1, t1)"
    "query_step timer target state (p, t) = Err e ((store target state1 p)\<lparr>p_net := n\<rparr>, t1)"
proof (cases "enough_contacted state")
  case True
  then show thesis
    using converged unset_fails
    by (cases "unset_each timer (map snd (qs_contacting state)) t")
      (simp_all add: query_step_def Let_def)
next
  case False
  show thesis
  proof (cases "contact_more timer target [] (state, t)")
    case (Err e s1)
    with False show thesis by (cases s1) (auto intro: set_fails simp: query_step_def)
  next
    case (Ok dests s1)
    obtain state1 t1 where s1: "s1 = (state1, t1)" by (cases s1)
    let ?p = "store target state1 p"
    consider "qs_contacting state1 = []" | "qs_contacting state1 \<noteq> []" "dests = []"
      | "qs_contacting state1 \<noteq> []" "dests \<noteq> []" by blast
    then show thesis
    proof cases
      case 1
      with False Ok s1 show thesis by (intro halted) (simp_all add: query_step_def Let_def)
    next
      case 2
      with False Ok s1 show thesis
        by (intro progress [of dests state1 t1 "p_net ?p"]) (simp_all add: query_step_def Let_def)
    next
      case 3
      with False Ok s1 progress send_fails show thesis
        by (cases "push_sink (ToEach dests (qs_find_peer state1)) (p_net ?p)")
          (simp_all add: query_step_def Let_def del: push_sink.simps)
    qed
  qed
qed

lemma query_step_Converge:
  assumes "query_step timer target state (p, t) = Ok Converge (p', t')"
  shows "contacted_closest state = take (fp_count (inner (qs_find_peer state))) (qs_records state) \<and>
    fp_count (inner (qs_find_peer state)) \<le> length (qs_records state) \<and>
    list_all (\<lambda>r. pe_id r \<in> qs_contacted state) (contacted_closest state) \<and>
    p' = drop_query target p"
proof -
  let ?n = "fp_count (inner (qs_find_peer state))" and ?P = "\<lambda>r. pe_id r \<in> qs_contacted state"
  let ?pre = "takeWhile ?P (qs_records state)"
  from assms have le: "?n \<le> length ?pre" and p': "p' = drop_query target p"
    by (cases rule: query_step_cases [of state timer target p t]; simp)+
  have all: "filter ?P ?pre = ?pre" by (auto simp: filter_id_conv dest: set_takeWhileD)
  have split: "qs_records state = ?pre @ dropWhile ?P (qs_records state)" by simp
  have "filter ?P (qs_records state) = ?pre @ filter ?P (dropWhile ?P (qs_records state))"
    by (subst split) (simp only: filter_append all)
  with le have 1: "contacted_closest state = take ?n ?pre"
    by (simp add: contacted_closest_def)
  have 2: "take ?n (qs_records state) = take ?n ?pre"
    by (subst split) (simp only: take_append le diff_is_0_eq' take_0 append_Nil2)
  have "?n \<le> length (qs_records state)"
    using le length_takeWhile_le [of ?P "qs_records state"] by linarith
  moreover have "list_all ?P (take ?n ?pre)"
    by (auto simp: list_all_iff dest!: in_set_takeD set_takeWhileD)
  ultimately show ?thesis using 1 2 p' by simp
qed

lemma query_step_Halted:
  assumes "query_step timer target state (p, t) = Ok Halted (p', t')" and "query_ok target state"
  shows "contacted_closest state = qs_records state \<and>
    list_all (\<lambda>r. pe_id r \<in> qs_contacted state) (qs_records state) \<and>
    length (qs_records state) < fp_count (inner (qs_find_peer state)) \<and>
    hm_get (p_query_states p') target = None"
proof -
  let ?P = "\<lambda>r. pe_id r \<in> qs_contacted state"
  from assms(1) obtain dests state1 where
    more: "contact_more timer target [] (state, t) = Ok dests (state1, t')"
    and not: "\<not> enough_contacted state"
    and none: "qs_contacting state1 = []" "hm_get (p_query_states p') target = None"
    by (cases rule: query_step_cases [of state timer target p t]) auto
  from contact_more_keeps [OF assms(2), of timer "[]" t] more obtain m where
    m: "state1 = state\<lparr>qs_contacting := m\<rparr>" by auto
  have "next_to_contact state1 = None"
    using contact_more_done [OF more] none(1) by (auto simp: num_concurrency_def)
  with none(1) m have all: "\<forall>r\<in>set (qs_records state). ?P r"
    by (simp add: next_to_contact_None)
  then have "takeWhile ?P (qs_records state) = qs_records state"
    "filter ?P (qs_records state) = qs_records state"
    by (simp_all add: takeWhile_eq_all_conv)
  with not all none(2) show ?thesis
    by (simp add: contacted_closest_def list_all_iff)
qed

lemma query_step_Progress:
  assumes "query_step timer target state (p, t) = Ok Progress (p', t')" and "query_ok target state"
  shows "\<exists>state1. hm_get (p_query_states p') target = Some state1 \<and> query_ok target state1 \<and>
    qs_contacting state1 \<noteq> [] \<and> \<not> enough_contacted state"
  using assms(1) contact_more_keeps [OF assms(2), of timer "[]" t]
  by (cases rule: query_step_cases [of state timer target p t]) auto

section \<open>Every handler keeps the invariant\<close>

lemma query_step_keeps:
  assumes "peer_ok p" and "query_ok target state"
  shows "peer_ok (fst (after (query_step timer target state (p, t))))"
proof -
  have 1: "peer_ok (store target (fst (after (contact_more timer target [] (state, t)))) p)"
    using contact_more_keeps [OF assms(2), of timer "[]" t] by (intro peer_ok_store assms(1)) blast
  show ?thesis
    using 1 peer_ok_drop [OF assms(1), of target] peer_ok_drop [OF 1, of target]
    by (cases rule: query_step_cases [of state timer target p t]) simp_all
qed

lemma start_query_keeps [simp]: "peer_ok (after (start_query env target num p)) = peer_ok p"
  by (simp add: start_query_def)

lemma refresh_each_after: "\<exists>r. after (refresh_each rng is p) = p\<lparr>p_refresh_targets := r\<rparr>"
proof (induction "is" arbitrary: p)
  case Nil
  then show ?case by (intro exI [of _ "p_refresh_targets p"]) simp
next
  case (Cons i "is")
  let ?p = "p\<lparr>p_refresh_targets := insert (refresh_target rng p i) (p_refresh_targets p)\<rparr>"
  show ?case
    using Cons.IH [of ?p]
    by (auto simp: Let_def split: sum.split intro: exI [of _ "p_refresh_targets p"])
qed

lemma refresh_buckets_keeps:
  assumes "peer_ok p"
  shows "peer_ok (after (refresh_buckets env rng pick p))"
proof -
  have "peer_ok (after (refresh_each rng is p))" for "is"
    using refresh_each_after [of rng "is" p] assms by auto
  then have "peer_ok (after (and_then (refresh_each rng is p) (\<lambda>_ p1.
      if p_refresh_targets p1 \<noteq> {} then start_next_refresh env pick p1 else Ok () p1)))" for "is"
    by (rule and_then_keeps) (simp add: start_next_refresh_def)
  with assms show ?thesis unfolding refresh_buckets_def by (simp split: sum.split)
qed

lemma call_bootstrap_keeps [simp]: "peer_ok (after (call_bootstrap p)) = peer_ok p"
  by (simp add: call_bootstrap_def peer_ok_def split: option.split)

lemma query_report_keeps:
  assumes "peer_ok p"
  shows "peer_ok (after (query_report env rng pick target closest status p))"
proof -
  have "peer_ok (after (and_then (refresh_buckets env rng pick p) (\<lambda>_ p1.
      if p_refresh_targets p1 = {} then call_bootstrap p1 else Ok () p1)))"
    by (rule and_then_keeps) (simp_all add: refresh_buckets_keeps assms)
  with assms show ?thesis by (simp add: query_report_def Let_def start_next_refresh_def)
qed

lemma on_query_keeps: "peer_ok (fst s) \<Longrightarrow> peer_ok (fst (after (on_query env target num s)))"
  by (cases s) (simp add: on_query_def)

lemma on_resend_keeps: "peer_ok (fst s) \<Longrightarrow> peer_ok (fst (after (on_resend r s)))"
  by (simp add: on_resend_def split: resend.split option.split)

lemma buckets_insert_origin: "bk_origin (after (buckets_insert r b)) = bk_origin b"
  by (simp add: buckets_insert_def split: sum.split)

lemma peer_insert_keeps:
  assumes "peer_ok p" and "length (pe_id r) = 32"
  shows "peer_ok (after (peer_insert r p))"
  using assms buckets_insert_keeps [of "p_buckets p" r]
  by (simp add: peer_ok_def peer_insert_def buckets_insert_origin)

lemma on_verified_find_peer_keeps:
  assumes "peer_ok (fst s)" and "find_peer_wf (inner vm)"
  shows "peer_ok (fst (after (on_verified_find_peer env vm s)))"
proof (cases s)
  case (Pair p t)
  let ?r = "fp_record (inner vm)"
  have "peer_ok (after (peer_insert ?r p))"
    using assms Pair by (intro peer_insert_keeps) (simp_all add: find_peer_wf_def)
  then show ?thesis
    using Pair
    by (cases "peer_insert ?r p") (simp_all add: on_verified_find_peer_def Let_def split: sum.split)
qed

lemma on_signed_find_peer_ok_keeps:
  "peer_ok (fst s) \<Longrightarrow> peer_ok (fst (after (on_signed_find_peer_ok m s)))"
  by (cases s) (simp add: on_signed_find_peer_ok_def Let_def split: option.split)

lemma on_signed_find_peer_keeps:
  assumes "peer_ok (fst s)" and "find_peer_wf (inner m)"
  shows "peer_ok (fst (after (on_signed_find_peer timer m s)))"
proof -
  obtain p t where s: "s = (p, t)" by (cases s)
  let ?target = "fp_target (inner m)"
  have "buckets_ok (p_buckets p)" "length ?target = 32"
    "0 < max (fp_count (inner m)) num_concurrency"
    using assms s by (simp_all add: peer_ok_def find_peer_wf_def num_concurrency_def)
  from find_closest_result [OF this] obtain rs where
    rs: "find_closest ?target (max (fp_count (inner m)) num_concurrency) (p_buckets p) = Inr rs"
    "rs \<noteq> []" "sorted_wrt (nearer ?target) rs" "list_all (\<lambda>r. length (pe_id r) = 32) rs" .
  let ?go = "take num_concurrency (filter (\<lambda>r. pe_id r \<noteq> pe_id (p_record p)) rs)"
  show ?thesis
  proof (cases "contact_each timer ?target ?go [] [] t")
    case (Err e t')
    with assms s rs show ?thesis by (simp add: on_signed_find_peer_def Let_def)
  next
    case (Ok r t')
    obtain contacting dests where r: "r = (contacting, dests)" by (cases r)
    from contact_each_keeps [OF Ok [unfolded r]]
    have c: "hm_wf contacting" "fst ` set contacting = pe_id ` set ?go" by simp_all
    have "length contacting \<le> length ?go"
      unfolding length_hm_card [OF c(1)] c(2)
      by (rule order.trans [OF card_image_le [OF List.finite_set] card_length])
    then have "length contacting \<le> num_concurrency" by simp
    moreover have go: "set ?go \<subseteq> set rs" "\<forall>r\<in>set ?go. pe_id r \<noteq> pe_id (p_record p)"
      by (auto dest: in_set_takeD)
    have "fst ` set contacting \<subseteq> pe_id ` set rs"
      unfolding c(2) by (rule image_mono [OF go(1)])
    moreover have "{pe_id (p_record p)} \<inter> fst ` set contacting = {}"
      unfolding c(2) using go(2) by fastforce
    ultimately have "query_ok ?target \<lparr>qs_find_peer = m, qs_records = rs,
        qs_contacting = contacting, qs_contacted = {pe_id (p_record p)}\<rparr>"
      using c(1) rs(3,4) by (simp add: query_ok_def ids_ok_def)
    from peer_ok_store [OF _ this, of p] assms(1) s rs(1,2) Ok r show ?thesis
      by (simp add: on_signed_find_peer_def Let_def del: push_sink.simps)
  qed
qed

text \<open>Cases of a reply: ignored, stopped by an error, or a step of its query.\<close>

lemma on_verified_find_peer_ok_cases:
  fixes env :: "'a kad_env" and pick :: "peer_id set \<Rightarrow> peer_id" and p :: "('a, 'f) peer" and t :: 't
    and rng :: rng and timer :: "('a resend, 't) rich_timer"
    and vm :: "'a find_peer_ok peer_verifiable"
  defines "run \<equiv> on_verified_find_peer_ok env rng pick timer vm (p, t)"
  defines "target \<equiv> fo_target (inner vm)" and "i \<equiv> pe_id (fo_record (inner vm))"
  obtains (insert_fails) e p1 where "peer_insert (fo_record (inner vm)) p = Err e p1" "run = Err e (p1, t)"
  | (ignored) p1 where "peer_insert (fo_record (inner vm)) p = Ok () p1" "run = Ok () (p1, t)"
  | (unset_fails) e p1 state x t1 where "peer_insert (fo_record (inner vm)) p = Ok () p1"
    "hm_get (p_query_states p1) target = Some state" "hm_get (qs_contacting state) i = Some x"
    "run = Err e (store target (state\<lparr>qs_contacting := hm_remove i (qs_contacting state)\<rparr>) p1, t1)"
  | (merge_fails) e p1 state x t1 records where
    "peer_insert (fo_record (inner vm)) p = Ok () p1"
    "hm_get (p_query_states p1) target = Some state" "hm_get (qs_contacting state) i = Some x"
    "merge_closest target (fo_closest (inner vm)) (qs_records state) = Err e records"
    "run = Err e (store target (state\<lparr>qs_contacting := hm_remove i (qs_contacting state),
       qs_contacted := insert i (qs_contacted state), qs_records := records\<rparr>)
       (store target (state\<lparr>qs_contacting := hm_remove i (qs_contacting state)\<rparr>) p1), t1)"
  | (stepped) p1 state x t1 records state3 where
    "peer_insert (fo_record (inner vm)) p = Ok () p1"
    "hm_get (p_query_states p1) target = Some state" "hm_get (qs_contacting state) i = Some x"
    "merge_closest target (fo_closest (inner vm)) (qs_records state) = Ok () records"
    "state3 = state\<lparr>qs_contacting := hm_remove i (qs_contacting state),
       qs_contacted := insert i (qs_contacted state), qs_records := records\<rparr>"
    "run = and_then (query_step timer target state3 (store target state3
         (store target (state\<lparr>qs_contacting := hm_remove i (qs_contacting state)\<rparr>) p1), t1))
       (\<lambda>status (p2, t2). lift_outcome (\<lambda>q. (q, t2))
          (query_report env rng pick target (contacted_closest state3) status p2))"
proof (cases "peer_insert (fo_record (inner vm)) p")
  case (Err e p1)
  then show thesis
    by (intro insert_fails) (simp_all add: run_def on_verified_find_peer_ok_def Let_def)
next
  case ok: (Ok u p1)
  show thesis
  proof (cases "hm_get (p_query_states p1) target")
    case None
    with ok show thesis
      by (intro ignored) (simp_all add: run_def on_verified_find_peer_ok_def Let_def target_def)
  next
    case state: (Some state)
    show thesis
    proof (cases "hm_get (qs_contacting state) i")
      case None
      with ok state show thesis
        by (intro ignored) (simp_all add: run_def on_verified_find_peer_ok_def Let_def target_def i_def)
    next
      case x: (Some x)
      note run = run_def on_verified_find_peer_ok_def Let_def
        ok state [unfolded target_def] x [unfolded i_def]
      show thesis
      proof (cases "rt_unset timer x t")
        case (Err e t1)
        then show thesis
          by (intro unset_fails [OF _ state x]) (simp_all add: run target_def i_def)
      next
        case unset: (Ok u t1)
        show thesis
        proof (cases "merge_closest target (fo_closest (inner vm)) (qs_records state)")
          case (Err e records)
          show thesis
            using unset Err [unfolded target_def]
            by (intro merge_fails [OF _ state x Err]) (simp_all add: run target_def i_def)
        next
          case (Ok u records)
          then have m: "merge_closest target (fo_closest (inner vm)) (qs_records state) = Ok () records"
            by simp
          show thesis
            using unset m [unfolded target_def]
            by (intro stepped [OF _ state x m refl]) (simp_all add: run target_def i_def)
        qed
      qed
    qed
  qed
qed

lemma query_ok_reply:
  assumes "query_ok target state" and "hm_get (qs_contacting state) i = Some x"
    and "ids_ok rs"
  shows "query_ok target (state\<lparr>qs_contacting := hm_remove i (qs_contacting state)\<rparr>)"
    and "query_ok target (state\<lparr>qs_contacting := hm_remove i (qs_contacting state),
      qs_contacted := insert i (qs_contacted state),
      qs_records := after (merge_closest target rs (qs_records state))\<rparr>)"
proof -
  have m: "sorted_wrt (nearer target) (after (merge_closest target rs (qs_records state)))"
    "ids_ok (after (merge_closest target rs (qs_records state)))"
    "set (qs_records state) \<subseteq> set (after (merge_closest target rs (qs_records state)))"
    using merge_closest_keeps [of target "qs_records state" rs] assms by (auto simp: query_ok_def)
  have len: "length (hm_remove i (qs_contacting state)) \<le> num_concurrency"
    using assms(1) length_delete_le [of i "qs_contacting state"] by (auto simp: query_ok_def)
  have keys: "fst ` set (hm_remove i (qs_contacting state)) = fst ` set (qs_contacting state) - {i}"
    by (auto simp: set_hm_remove)
  show "query_ok target (state\<lparr>qs_contacting := hm_remove i (qs_contacting state)\<rparr>)"
    using assms(1) len by (auto simp: query_ok_def keys)
  show "query_ok target (state\<lparr>qs_contacting := hm_remove i (qs_contacting state),
      qs_contacted := insert i (qs_contacted state),
      qs_records := after (merge_closest target rs (qs_records state))\<rparr>)"
    using assms(1) len m(1,2) image_mono [OF m(3), of pe_id]
    unfolding query_ok_def by (simp add: keys) blast
qed

lemma on_verified_find_peer_ok_keeps:
  assumes "peer_ok (fst s)" and "find_peer_ok_wf (inner vm)"
  shows "peer_ok (fst (after (on_verified_find_peer_ok env rng pick timer vm s)))"
proof (cases s)
  case (Pair p t)
  let ?target = "fo_target (inner vm)" and ?i = "pe_id (fo_record (inner vm))"
  have ins: "peer_ok (after (peer_insert (fo_record (inner vm)) p))"
    using assms Pair by (intro peer_insert_keeps) (simp_all add: find_peer_ok_wf_def)
  have ids: "ids_ok (fo_closest (inner vm))" using assms(2) by (simp add: find_peer_ok_wf_def)
  have q: "query_ok ?target state"
    if "peer_insert (fo_record (inner vm)) p = Ok () p1" "hm_get (p_query_states p1) ?target = Some state"
    for p1 state using ins that by (auto simp: peer_ok_def)
  show ?thesis unfolding Pair
  proof (cases rule: on_verified_find_peer_ok_cases [of vm p env rng pick timer t])
    case (stepped p1 state x t1 records state3)
    note q = query_ok_reply [OF q [OF stepped(1,2)] stepped(3) ids]
    with stepped(4,5) have q3: "query_ok ?target state3" by simp
    have "peer_ok (store ?target state3 (store ?target
        (state\<lparr>qs_contacting := hm_remove ?i (qs_contacting state)\<rparr>) p1))"
      using ins stepped(1) q(1) q3 by (intro peer_ok_store) simp_all
    note step = query_step_keeps [OF this q3, of timer t1]
    show "peer_ok (fst (after (on_verified_find_peer_ok env rng pick timer vm (p, t))))"
      unfolding stepped(6)
      by (rule and_then_keeps [where P = "\<lambda>s. peer_ok (fst s)"])
        (use step in \<open>auto simp: query_report_keeps split: prod.split\<close>)
  next
    case (unset_fails e p1 state x t1)
    have "peer_ok p1" using ins unset_fails(1) by simp
    from peer_ok_store [OF this query_ok_reply(1) [OF q [OF unset_fails(1,2)] unset_fails(3) ids]]
    show "peer_ok (fst (after (on_verified_find_peer_ok env rng pick timer vm (p, t))))"
      unfolding unset_fails(4) by simp
  next
    case (merge_fails e p1 state x t1 records)
    note q = query_ok_reply [OF q [OF merge_fails(1,2)] merge_fails(3) ids]
    have "peer_ok p1" using ins merge_fails(1) by simp
    from peer_ok_store [OF peer_ok_store [OF this q(1)] q(2)] merge_fails(4)
    show "peer_ok (fst (after (on_verified_find_peer_ok env rng pick timer vm (p, t))))"
      unfolding merge_fails(5) by simp
  qed (use ins in simp_all)
qed

lemma on_recv_keeps:
  "peer_ok (fst s) \<Longrightarrow> peer_ok (fst (after (on_recv_find_peer env m s)))"
  "peer_ok (fst s) \<Longrightarrow> peer_ok (fst (after (on_recv_find_peer_ok env m' s)))"
  by (cases s; simp add: on_recv_find_peer_def on_recv_find_peer_ok_def)+

lemma peer_on_event_keeps:
  assumes "peer_ok (fst s)" and "kad_event_wf e"
  shows "peer_ok (fst (after (peer_on_event env rng pick timer e s)))"
proof (cases e)
  case (KCrypto c)
  with assms show ?thesis
    by (cases c) (simp_all add: on_signed_find_peer_keeps on_signed_find_peer_ok_keeps
        on_verified_find_peer_keeps on_verified_find_peer_ok_keeps)
qed (use assms in \<open>simp_all add: on_query_keeps on_resend_keeps on_recv_keeps\<close>)

text \<open>
  A run: the events a peer handles one after the other, each with its random numbers and its set
  order; an event that fails does not end it.
\<close>

fun peer_run ::
  "'a kad_env \<Rightarrow> ('a resend, 't) rich_timer \<Rightarrow>
   ('a kad_event \<times> rng \<times> (peer_id set \<Rightarrow> peer_id)) list \<Rightarrow> ('a, 'f) peer \<times> 't \<Rightarrow>
   ('a, 'f) peer \<times> 't" where
  "peer_run env timer [] s = s"
| "peer_run env timer ((e, rng, pick) # es) s =
     peer_run env timer es (after (peer_on_event env rng pick timer e s))"

lemma peer_run_keeps:
  assumes "peer_ok (fst s)" and "list_all (\<lambda>(e, _). kad_event_wf e) es"
  shows "peer_ok (fst (peer_run env timer es s))"
  using assms
proof (induction es arbitrary: s)
  case (Cons e es)
  obtain ev rng pick where "e = (ev, rng, pick)" by (cases e)
  with Cons peer_on_event_keeps [of s ev env rng pick timer] show ?case by simp
qed simp

end
