(* ===== verification/Kad_Refresh.thy ===== *)
theory Kad_Refresh
  imports Kad_Query
begin

text \<open>
  \<open>rand_distance\<close> and \<open>refresh_buckets\<close> of \<open>src/src/kademlia.rs\<close>: a random distance falls into the
  bucket it is drawn for, so the assertion of \<open>refresh_buckets\<close> holds; the scan that skips empty
  buckets finds the first non-empty one behind bucket 0, or runs past the array.
\<close>

section \<open>Random distances\<close>

text \<open>What \<open>fill_bytes\<close> and \<open>gen_range\<close> return for bucket \<open>i\<close>.\<close>

definition rng_ok :: "rng \<Rightarrow> bool" where
  "rng_ok rng \<longleftrightarrow> (\<forall>i. length (fst (rng i)) = i div 8 \<and>
     2 ^ (i mod 8) \<le> snd (rng i) \<and> snd (rng i) < 2 ^ (i mod 8 + 1))"

lemma bit_top_of_range:
  assumes "2 ^ k \<le> n" and "n < 2 ^ (k + 1)"
  shows "bit n k" and "k < j \<Longrightarrow> \<not> bit (n :: nat) j"
proof -
  have "n div 2 ^ k = 1"
    using assms by (intro div_nat_eqI) simp_all
  then show "bit n k" by (simp add: bit_iff_odd)
  show "\<not> bit n j" if "k < j"
  proof -
    have "(2::nat) ^ (k + 1) \<le> 2 ^ j" using that by (intro power_increasing) simp_all
    then have "n div 2 ^ j = 0" using assms(2) by simp
    then show ?thesis by (simp add: bit_iff_odd)
  qed
qed

lemma rand_distance_top:
  assumes "i < 256" and "length low = i div 8" and "2 ^ (i mod 8) \<le> high"
    and "high < 2 ^ (i mod 8 + 1)"
  shows "top_bit (rand_distance i low high) i"
proof -
  let ?q = "i div 8" and ?r = "i mod 8"
  define bytes :: "u8 list" where "bytes = take ?q low @ [of_nat high] @ replicate (31 - ?q) 0"
  have q: "?q < 32" using assms(1) by simp
  have len: "length bytes = 32" using q assms(2) by (simp add: bytes_def)
  have at: "bytes ! k = (if k < ?q then low ! k else if k = ?q then of_nat high else 0)" if "k < 32" for k
    using that assms(2) by (auto simp: bytes_def nth_append nth_Cons')
  have bits: "bit (rand_distance i low high) n \<longleftrightarrow> n < 256 \<and> bit (bytes ! (n div 8)) (n mod 8)" for n
    unfolding rand_distance_def bytes_def [symmetric] bit_from_le len by auto
  have high: "bit (of_nat high :: u8) m \<longleftrightarrow> m < 8 \<and> bit high m" for m
    by (simp add: bit_simps)
  have "bit (rand_distance i low high) i"
    unfolding bits using assms(1) q bit_top_of_range(1) [OF assms(3,4)] by (simp add: at high)
  moreover have "\<not> bit (rand_distance i low high) j" if "i < j" for j
  proof (cases "j < 256")
    case True
    show ?thesis
    proof (cases "j div 8 = ?q")
      case same: True
      have "j mod 8 = j - 8 * ?q" "?r = i - 8 * ?q"
        using same by (metis minus_mult_div_eq_mod)+
      moreover have "8 * ?q \<le> i" by simp
      ultimately have "?r < j mod 8" using that by linarith
      then show ?thesis
        unfolding bits using True same bit_top_of_range(2) [OF assms(3,4)] q by (simp add: at high)
    next
      case False
      with that have "?q < j div 8" by (metis div_le_mono le_neq_implies_less less_imp_le)
      then show ?thesis unfolding bits using True by (simp add: at)
    qed
  qed simp
  ultimately show ?thesis using assms(1) by (simp add: top_bit_def)
qed

lemma index_of_top:
  assumes "top_bit (distance (pe_id (bk_origin b)) target) i"
  shows "index b target = Inr i"
proof -
  let ?d = "distance (pe_id (bk_origin b)) target"
  from assms have "?d \<noteq> 0" by (auto simp: top_bit_def)
  then have z: "leading_zeros ?d < 256" by (simp add: leading_zeros_zero)
  with top_bit_unique [OF leading_zeros_top [OF z] assms] show ?thesis
    by (simp add: index_def Let_def)
qed

section \<open>The scan for the first bucket to refresh\<close>

lemma skip_empty_Inr:
  "skip_empty b k = Inr i \<longleftrightarrow>
     k < i \<and> i < length (bk_distances b) \<and> b_records (bk_distances b ! i) \<noteq> [] \<and>
     (\<forall>j. k < j \<and> j < i \<longrightarrow> b_records (bk_distances b ! j) = [])"
proof (induction b k rule: skip_empty.induct)
  case (1 b k)
  let ?e = "\<lambda>j. b_records (bk_distances b ! j) = []"
  show ?case
  proof (cases "length (bk_distances b) \<le> k + 1")
    case True
    then show ?thesis by (subst skip_empty.simps) (auto simp: Let_def)
  next
    case len: False
    show ?thesis
    proof (cases "?e (k + 1)")
      case True
      have "skip_empty b k = skip_empty b (k + 1)"
        using len True by (subst skip_empty.simps) (simp add: Let_def)
      moreover have "k < j \<longleftrightarrow> j = k + 1 \<or> k + 1 < j" for j by auto
      ultimately show ?thesis using 1 [OF refl len True] True by auto
    next
      case False
      then have "skip_empty b k = Inr (k + 1)"
        using len by (subst skip_empty.simps) (simp add: Let_def)
      moreover have "i = k + 1" if "k < i" "\<forall>j. k < j \<and> j < i \<longrightarrow> ?e j"
        using that False by (cases "k + 1 < i") auto
      ultimately show ?thesis using len False by auto
    qed
  qed
qed

lemma skip_empty_Inl:
  assumes "skip_empty b k = Inl e" and "k < j" and "j < length (bk_distances b)"
  shows "b_records (bk_distances b ! j) = []"
  using assms
proof (induction b k rule: skip_empty.induct)
  case (1 b k)
  from 1(2) have "skip_empty b k = Inl e" .
  then show ?case
    using 1(1) [OF refl] 1(3,4) 
    by (cases "j = k + 1") (auto simp: skip_empty.simps [of b k] Let_def split: if_splits)
qed

lemma skip_empty_panics: "skip_empty b k = Inl e \<Longrightarrow> e = Panic ''index out of bounds''"
proof (induction b k rule: skip_empty.induct)
  case (1 b k)
  then show ?case by (auto simp: skip_empty.simps [of b k] Let_def split: if_splits)
qed

section \<open>Refreshing\<close>

lemma refresh_target_in_bucket:
  assumes "length (pe_id (p_record p)) = 32" and "p_record p = bk_origin (p_buckets p)"
    and "rng_ok rng" and "i < 256"
  shows "index (p_buckets p) (refresh_target rng p i) = Inr i"
proof (rule index_of_top)
  have "top_bit (rand_distance i (fst (rng i)) (snd (rng i))) i"
    using assms(3,4) by (intro rand_distance_top) (simp_all add: rng_ok_def)
  with distance_from_inverse(1) [OF assms(1)] assms(2)
  show "top_bit (distance (pe_id (bk_origin (p_buckets p))) (refresh_target rng p i)) i"
    by (simp add: refresh_target_def)
qed

lemma refresh_each_all:
  assumes "length (pe_id (p_record p)) = 32" and "p_record p = bk_origin (p_buckets p)"
    and "rng_ok rng" and "list_all (\<lambda>i. i < 256) is"
  shows "refresh_each rng is p =
    Ok () (p\<lparr>p_refresh_targets := p_refresh_targets p \<union> set (map (refresh_target rng p) is)\<rparr>)"
  using assms
proof (induction "is" arbitrary: p)
  case Nil
  then show ?case by simp
next
  case (Cons i "is")
  let ?p = "p\<lparr>p_refresh_targets := insert (refresh_target rng p i) (p_refresh_targets p)\<rparr>"
  have "refresh_target rng ?p = refresh_target rng p" by (simp add: refresh_target_def fun_eq_iff)
  with Cons.IH [of ?p] Cons.prems refresh_target_in_bucket [OF Cons.prems(1-3), of i]
  show ?case by (simp add: Let_def)
qed

text \<open>What starting a query and refreshing leave alone.\<close>

lemma start_query_frame:
  assumes "start_query env target num p = Ok () q"
  obtains w where "q = p\<lparr>p_crypto_worker := w\<rparr>"
  using assms that by (auto simp: start_query_def peer_submit_def lift_outcome_Ok_iff)

lemma refresh_buckets_frame:
  assumes "refresh_buckets env rng pick p = Ok () q"
  obtains w r start where "q = p\<lparr>p_refresh_targets := r, p_crypto_worker := w\<rparr>"
    "refresh_each rng [start..<256] p = Ok () (p\<lparr>p_refresh_targets := r\<rparr>)"
    "(if p_on_bootstrap p \<noteq> None then skip_empty (p_buckets p) 0 else Inr 0) = Inr start"
proof -
  let ?scan = "if p_on_bootstrap p \<noteq> None then skip_empty (p_buckets p) 0 else Inr 0"
  obtain start where scan: "?scan = Inr start"
    using assms by (cases ?scan) (simp_all add: refresh_buckets_def)
  with assms have run: "and_then (refresh_each rng [start..<256] p) (\<lambda>_ p1.
      if p_refresh_targets p1 \<noteq> {} then start_next_refresh env pick p1 else Ok () p1) = Ok () q"
    by (simp add: refresh_buckets_def)
  then obtain p1 where p1: "refresh_each rng [start..<256] p = Ok () p1"
    "(if p_refresh_targets p1 \<noteq> {} then start_next_refresh env pick p1 else Ok () p1) = Ok () q"
    unfolding and_then_Ok_iff by auto
  from refresh_each_after [of rng "[start..<256]" p] p1(1) obtain r where
    r: "p1 = p\<lparr>p_refresh_targets := r\<rparr>" by auto
  show thesis
  proof (cases "r = {}")
    case True
    with p1(2) r have "q = p\<lparr>p_refresh_targets := r, p_crypto_worker := p_crypto_worker p\<rparr>"
      by (cases p) auto
    from that [OF this p1(1) [unfolded r] scan] show thesis .
  next
    case False
    with p1(2) r have "start_query env (pick r) bucket_size p1 = Ok () q"
      by (simp add: start_next_refresh_def)
    then obtain w where "q = p1\<lparr>p_crypto_worker := w\<rparr>" by (rule start_query_frame)
    with p1(1) r scan show thesis by (intro that [of w r start]) simp_all
  qed
qed

end
