(* ===== verification/Kad_Control.thy ===== *)
theory Kad_Control
  imports Kad_Peer
begin

text \<open>
  \<open>src/src/net/kademlia.rs\<close>: \<open>PeerNet\<close> and \<open>Control\<close>, which sends messages to peer ids by asking a
  Kademlia peer for addresses, with all its handlers.

  The LRU cache is a library: the record \<open>lru\<close> holds the three operations the source calls, on a
  cache of any type; \<open>lru_laws\<close> is what \<open>Control\<close> relies on. \<open>Net\<close> and \<open>SendEvent<Query>\<close> are
  channels.

  The lemmas: a target is queried as a unicast or as a multicast, never both; the address of a
  queried unicast is not cached; so none of the assertions fails (\<open>control_keeps\<close>).
\<close>

section \<open>State\<close>

definition peer_net_send :: "'b \<Rightarrow> 'm \<Rightarrow> ('b \<times> 'm) sink \<Rightarrow> (unit, ('b \<times> 'm) sink) outcome" where
  "peer_net_send dest message e = push_sink (dest, message) e"

record ('a, 'c) lru =
  lru_get :: "peer_id \<Rightarrow> 'c \<Rightarrow> 'a option \<times> 'c"
  lru_push :: "peer_id \<Rightarrow> 'a \<Rightarrow> 'c \<Rightarrow> 'c"
  lru_contains :: "peer_id \<Rightarrow> 'c \<Rightarrow> bool"

definition lru_laws :: "('a, 'c) lru \<Rightarrow> bool" where
  "lru_laws l \<longleftrightarrow>
     (\<forall>k c. (fst (lru_get l k c) = None) = (\<not> lru_contains l k c)) \<and>
     (\<forall>k k' c. lru_contains l k' (snd (lru_get l k c)) = lru_contains l k' c) \<and>
     (\<forall>k k' v c. lru_contains l k' (lru_push l k v c) \<longrightarrow> k' = k \<or> lru_contains l k' c)"

type_synonym query = "peer_id \<times> nat"

record 'm querying_unicast =
  qu_messages :: "'m list"
  qu_timer :: timer_id

record 'm query_multicast =
  qm_count :: nat
  qm_messages :: "(nat \<times> 'm) list"
  qm_timer :: timer_id

datatype ('a, 'm) control_send = SendTo 'a 'm | SendEach "'a list" 'm

record ('m, 'a, 'c) control =
  ct_net :: "('a, 'm) control_send sink"
  ct_peer :: "query sink"
  ct_unicasts :: "(peer_id, 'm querying_unicast) hmap"
  ct_multicasts :: "(peer_id, 'm query_multicast) hmap"
  ct_pending :: "(peer_id, (nat \<times> 'm) list) hmap"
  ct_addrs :: 'c

definition control_new ::
  "'c \<Rightarrow> ('a, 'm) control_send sink \<Rightarrow> query sink \<Rightarrow> ('m, 'a, 'c) control" where
  "control_new cache raw_net peer =
     \<lparr>ct_net = raw_net, ct_peer = peer, ct_unicasts = [], ct_multicasts = [], ct_pending = [],
      ct_addrs = cache\<rparr>"

datatype query_timeout = QueryTimeout query

definition query_timeout_duration :: duration where
  "query_timeout_duration = 30000"

section \<open>Handlers\<close>

definition control_send ::
  "('a, 'm) control_send \<Rightarrow> ('m, 'a, 'c) control \<times> 't \<Rightarrow>
   (unit, ('m, 'a, 'c) control \<times> 't) outcome" where
  "control_send message s =
     (case s of (c, t) \<Rightarrow>
        lift_outcome (\<lambda>n. (c\<lparr>ct_net := n\<rparr>, t)) (push_sink message (ct_net c)))"

text \<open>\<open>peer.send(query)?\<close> and \<open>timer.set(..)?\<close>, as both kinds of query start.\<close>

definition control_query ::
  "(query_timeout, 't) rich_timer \<Rightarrow> query \<Rightarrow> ('m, 'a, 'c) control \<times> 't \<Rightarrow>
   (timer_id, ('m, 'a, 'c) control \<times> 't) outcome" where
  "control_query timer query s =
     (case s of (c, t) \<Rightarrow>
        and_then (lift_outcome (\<lambda>p. (c\<lparr>ct_peer := p\<rparr>, t)) (push_sink query (ct_peer c)))
          (\<lambda>_ (c, t).
            lift_outcome (Pair c) (rt_set timer query_timeout_duration (QueryTimeout query) t)))"

definition on_unicast ::
  "('a, 'c) lru \<Rightarrow> (query_timeout, 't) rich_timer \<Rightarrow> peer_id \<Rightarrow> 'm \<Rightarrow>
   ('m, 'a, 'c) control \<times> 't \<Rightarrow> (unit, ('m, 'a, 'c) control \<times> 't) outcome" where
  "on_unicast l timer i message s =
     (case s of (c0, t) \<Rightarrow>
        case lru_get l i (ct_addrs c0) of (cached, cache) \<Rightarrow>
        let c = c0\<lparr>ct_addrs := cache\<rparr> in
        case cached of
          Some addr \<Rightarrow> control_send (SendTo addr message) (c, t)
        | None \<Rightarrow>
            (case hm_get (ct_multicasts c) i of
               Some querying \<Rightarrow>
                 Ok () (c\<lparr>ct_multicasts := hm_insert i
                   (querying\<lparr>qm_messages := qm_messages querying @ [(1, message)]\<rparr>)
                   (ct_multicasts c)\<rparr>, t)
             | None \<Rightarrow>
                 (case hm_get (ct_unicasts c) i of
                    Some querying \<Rightarrow>
                      Ok () (c\<lparr>ct_unicasts := hm_insert i
                        (querying\<lparr>qu_messages := qu_messages querying @ [message]\<rparr>)
                        (ct_unicasts c)\<rparr>, t)
                  | None \<Rightarrow>
                      and_then (control_query timer (i, 1) (c, t)) (\<lambda>x (c, t).
                        Ok () (c\<lparr>ct_unicasts := hm_insert i
                          \<lparr>qu_messages = [message], qu_timer = x\<rparr> (ct_unicasts c)\<rparr>, t)))))"

definition push_pending ::
  "peer_id \<Rightarrow> nat \<times> 'm \<Rightarrow> ('m, 'a, 'c) control \<Rightarrow> ('m, 'a, 'c) control" where
  "push_pending target entry c =
     c\<lparr>ct_pending := hm_insert target
         ((case hm_get (ct_pending c) target of None \<Rightarrow> [] | Some xs \<Rightarrow> xs) @ [entry])
         (ct_pending c)\<rparr>"

definition on_multicast ::
  "(query_timeout, 't) rich_timer \<Rightarrow> peer_id \<Rightarrow> nat \<Rightarrow> 'm \<Rightarrow>
   ('m, 'a, 'c) control \<times> 't \<Rightarrow> (unit, ('m, 'a, 'c) control \<times> 't) outcome" where
  "on_multicast timer target num message s =
     (case s of (c, t) \<Rightarrow>
        case hm_get (ct_multicasts c) target of
          Some querying \<Rightarrow>
            if num \<le> qm_count querying then
              Ok () (c\<lparr>ct_multicasts := hm_insert target
                (querying\<lparr>qm_messages := qm_messages querying @ [(num, message)]\<rparr>)
                (ct_multicasts c)\<rparr>, t)
            else Ok () (push_pending target (num, message) c, t)
        | None \<Rightarrow>
            if hm_has (ct_unicasts c) target then
              Ok () (push_pending target (num, message) c, t)
            else and_then (control_query timer (target, num) (c, t)) (\<lambda>x (c, t).
              Ok () (c\<lparr>ct_multicasts := hm_insert target
                \<lparr>qm_count = num, qm_messages = [(num, message)], qm_timer = x\<rparr>
                (ct_multicasts c)\<rparr>, t)))"

definition on_query_timeout ::
  "query_timeout \<Rightarrow> ('m, 'a, 'c) control \<times> 't \<Rightarrow>
   (unit, ('m, 'a, 'c) control \<times> 't) outcome" where
  "on_query_timeout timeout s = Err (Bail ''query timeout'') s"

text \<open>The loops of the \<open>QueryResult\<close> handler.\<close>

fun send_each ::
  "('a, 'm) control_send list \<Rightarrow> ('m, 'a, 'c) control \<times> 't \<Rightarrow>
   (unit, ('m, 'a, 'c) control \<times> 't) outcome" where
  "send_each [] s = Ok () s"
| "send_each (m # ms) s = and_then (control_send m s) (\<lambda>_. send_each ms)"

definition control_unset ::
  "(query_timeout, 't) rich_timer \<Rightarrow> timer_id \<Rightarrow> ('m, 'a, 'c) control \<times> 't \<Rightarrow>
   (unit, ('m, 'a, 'c) control \<times> 't) outcome" where
  "control_unset timer x s = lift_outcome (Pair (fst s)) (rt_unset timer x (snd s))"

fun resolve_unicasts ::
  "('a, 'c) lru \<Rightarrow> (query_timeout, 't) rich_timer \<Rightarrow> 'a known_peer list \<Rightarrow>
   ('m, 'a, 'c) control \<times> 't \<Rightarrow> (unit, ('m, 'a, 'c) control \<times> 't) outcome" where
  "resolve_unicasts l timer [] s = Ok () s"
| "resolve_unicasts l timer (r # rs) (c, t) =
     (case hm_get (ct_unicasts c) (pe_id r) of
        None \<Rightarrow> resolve_unicasts l timer rs (c, t)
      | Some querying \<Rightarrow>
          and_then
            (control_unset timer (qu_timer querying)
              (c\<lparr>ct_unicasts := hm_remove (pe_id r) (ct_unicasts c),
                 ct_addrs := lru_push l (pe_id r) (pe_addr r) (ct_addrs c)\<rparr>, t))
            (\<lambda>_ s. and_then
              (send_each (map (SendTo (pe_addr r)) (qu_messages querying)) s)
              (\<lambda>_. resolve_unicasts l timer rs)))"

text \<open>The end of the handler: the multicast of this query, then the multicasts that waited for it.\<close>

definition finish_multicast ::
  "('a, 'c) lru \<Rightarrow> (query_timeout, 't) rich_timer \<Rightarrow> 'a query_result \<Rightarrow>
   ('m, 'a, 'c) control \<times> 't \<Rightarrow> (unit, ('m, 'a, 'c) control \<times> 't) outcome" where
  "finish_multicast l timer upcall s =
     (case s of (c, t) \<Rightarrow>
        case hm_get (ct_multicasts c) (qr_target upcall) of
          None \<Rightarrow> Ok () (c, t)
        | Some querying \<Rightarrow>
            and_then
              (control_unset timer (qm_timer querying)
                (c\<lparr>ct_multicasts := hm_remove (qr_target upcall) (ct_multicasts c),
                   ct_addrs := fold (\<lambda>r. lru_push l (pe_id r) (pe_addr r)) (qr_closest upcall)
                     (ct_addrs c)\<rparr>, t))
              (\<lambda>_. send_each
                (map (\<lambda>(num, m). SendEach (map pe_addr (take num (qr_closest upcall))) m)
                  (qm_messages querying))))"

definition start_pending ::
  "(query_timeout, 't) rich_timer \<Rightarrow> peer_id \<Rightarrow> ('m, 'a, 'c) control \<times> 't \<Rightarrow>
   (unit, ('m, 'a, 'c) control \<times> 't) outcome" where
  "start_pending timer target s =
     (case s of (c0, t) \<Rightarrow>
        case hm_get (ct_pending c0) target of
          None \<Rightarrow> Ok () (c0, t)
        | Some multicasts \<Rightarrow>
            let c = c0\<lparr>ct_pending := hm_remove target (ct_pending c0)\<rparr> in
            if hm_has (ct_unicasts c) target then
              Err (Panic ''assertion failed: !querying_unicasts.contains_key'') (c, t)
            else if hm_has (ct_multicasts c) target then
              Err (Panic ''assertion failed: !querying_multicasts.contains_key'') (c, t)
            else if multicasts = [] then Err (Panic ''called unwrap on a None value'') (c, t)
            else
              let num = foldr max (map fst multicasts) 0 in
              and_then (control_query timer (target, num) (c, t)) (\<lambda>x (c, t).
                Ok () (c\<lparr>ct_multicasts := hm_insert target
                  \<lparr>qm_count = num, qm_messages = multicasts, qm_timer = x\<rparr>
                  (ct_multicasts c)\<rparr>, t)))"

definition on_query_result ::
  "('a, 'c) lru \<Rightarrow> (query_timeout, 't) rich_timer \<Rightarrow> 'a query_result \<Rightarrow>
   ('m, 'a, 'c) control \<times> 't \<Rightarrow> (unit, ('m, 'a, 'c) control \<times> 't) outcome" where
  "on_query_result l timer upcall s =
     and_then (resolve_unicasts l timer (qr_closest upcall) s) (\<lambda>_ (c, t).
       if qr_status upcall = Progress then Ok () (c, t)
       else case hm_get (ct_unicasts c) (qr_target upcall) of
           Some querying \<Rightarrow>
             and_then
               (control_unset timer (qu_timer querying)
                 (c\<lparr>ct_unicasts := hm_remove (qr_target upcall) (ct_unicasts c)\<rparr>, t))
               (\<lambda>_ (c, t).
                 if lru_contains l (qr_target upcall) (ct_addrs c) then
                   Err (Panic ''assertion failed: !addrs.contains'') (c, t)
                 else Ok () (c, t))
         | None \<Rightarrow>
             and_then (finish_multicast l timer upcall (c, t))
               (\<lambda>_. start_pending timer (qr_target upcall)))"

datatype ('m, 'a) control_event =
    CUnicast peer_id 'm
  | CMulticast peer_id nat 'm
  | CTimeout query_timeout
  | CResult "'a query_result"

fun control_on_event ::
  "('a, 'c) lru \<Rightarrow> (query_timeout, 't) rich_timer \<Rightarrow> ('m, 'a) control_event \<Rightarrow>
   ('m, 'a, 'c) control \<times> 't \<Rightarrow> (unit, ('m, 'a, 'c) control \<times> 't) outcome" where
  "control_on_event l timer (CUnicast i m) s = on_unicast l timer i m s"
| "control_on_event l timer (CMulticast target num m) s = on_multicast timer target num m s"
| "control_on_event l timer (CTimeout x) s = on_query_timeout x s"
| "control_on_event l timer (CResult upcall) s = on_query_result l timer upcall s"

text \<open>A run; an event that fails does not end it.\<close>

fun control_run ::
  "('a, 'c) lru \<Rightarrow> (query_timeout, 't) rich_timer \<Rightarrow> ('m, 'a) control_event list \<Rightarrow>
   ('m, 'a, 'c) control \<times> 't \<Rightarrow> ('m, 'a, 'c) control \<times> 't" where
  "control_run l timer [] s = s"
| "control_run l timer (e # es) s = control_run l timer es (after (control_on_event l timer e s))"

section \<open>The invariant\<close>

definition control_ok :: "('a, 'c) lru \<Rightarrow> ('m, 'a, 'c) control \<Rightarrow> bool" where
  "control_ok l c \<longleftrightarrow>
     hm_wf (ct_unicasts c) \<and> hm_wf (ct_multicasts c) \<and> hm_wf (ct_pending c) \<and>
     (\<forall>i. hm_has (ct_unicasts c) i \<longrightarrow>
        \<not> hm_has (ct_multicasts c) i \<and> \<not> lru_contains l i (ct_addrs c)) \<and>
     (\<forall>i. hm_get (ct_pending c) i \<noteq> Some [])"

text \<open>\<open>no_panic\<close>: an outcome that is no failed assertion and leaves the invariant.\<close>

fun panics :: "('x, 's) outcome \<Rightarrow> bool" where
  "panics (Err (Panic _) _) = True"
| "panics _ = False"

definition timer_total :: "('e, 't) rich_timer \<Rightarrow> bool" where
  "timer_total timer \<longleftrightarrow> (\<forall>d e t. \<not> panics (rt_set timer d e t)) \<and> (\<forall>i t. \<not> panics (rt_unset timer i t))"

definition good :: "('a, 'c) lru \<Rightarrow> ('x, ('m, 'a, 'c) control \<times> 't) outcome \<Rightarrow> bool" where
  "good l r \<longleftrightarrow> control_ok l (fst (after r)) \<and> \<not> panics r"

lemma good_simps [simp]:
  "good l (Ok x s) = control_ok l (fst s)" "good l (Err (Bail m) s) = control_ok l (fst s)"
  "\<not> good l (Err (Panic m) s)"
  by (simp_all add: good_def)

lemma panics_Err: "panics (Err e s) \<longleftrightarrow> (\<exists>m. e = Panic m)"
  by (cases e) simp_all

lemma panics_lift [simp]: "panics (lift_outcome f m) = panics m"
  by (cases m rule: panics.cases) simp_all

lemma good_and_then:
  assumes "good l m" and "\<And>x s. m = Ok x s \<Longrightarrow> control_ok l (fst s) \<Longrightarrow> good l (f x s)"
  shows "good l (and_then m f)"
  using assms by (cases m) (simp_all add: good_def panics_Err)

lemma control_ok_fields [simp]:
  "control_ok l (c\<lparr>ct_net := n\<rparr>) = control_ok l c" "control_ok l (c\<lparr>ct_peer := p\<rparr>) = control_ok l c"
  by (simp_all add: control_ok_def)

lemma control_send_good:
  "control_ok l (fst s) \<Longrightarrow> good l (control_send m s)"
  by (cases s) (simp add: control_send_def)

lemma send_each_good:
  "control_ok l (fst s) \<Longrightarrow> good l (send_each ms s)"
proof (induction ms arbitrary: s)
  case (Cons m ms)
  then show ?case by (simp add: good_and_then control_send_good)
qed simp

lemma control_unset_good:
  "timer_total timer \<Longrightarrow> control_ok l (fst s) \<Longrightarrow> good l (control_unset timer x s)"
  by (simp add: good_def control_unset_def timer_total_def)

lemma control_query_good:
  assumes "timer_total timer" and "control_ok l (fst s)"
  shows "good l (control_query timer q s)"
    and "control_query timer q s = Ok x s' \<Longrightarrow> \<exists>p. fst s' = (fst s)\<lparr>ct_peer := p\<rparr>"
  using assms
  by (cases s; auto simp: control_query_def good_def timer_total_def lift_outcome_Ok_iff
      and_then_Ok_iff split: if_splits)+

section \<open>Every handler keeps it\<close>

lemma on_unicast_good:
  assumes "lru_laws l" and "timer_total timer" and "control_ok l (fst s)"
  shows "good l (on_unicast l timer i m s)"
proof -
  obtain c0 t where s: "s = (c0, t)" by (cases s)
  obtain cached cache where get: "lru_get l i (ct_addrs c0) = (cached, cache)" by fastforce
  let ?c = "c0\<lparr>ct_addrs := cache\<rparr>"
  have same: "lru_contains l k cache = lru_contains l k (ct_addrs c0)" for k
    using assms(1) get unfolding lru_laws_def by (metis snd_conv)
  with assms(3) s have ok: "control_ok l ?c" by (simp add: control_ok_def)
  have miss: "\<not> lru_contains l i cache" if "cached = None"
    using that assms(1) get same unfolding lru_laws_def by (metis fst_conv)
  show ?thesis
  proof (cases cached)
    case (Some addr)
    with ok show ?thesis by (simp add: on_unicast_def s get control_send_good)
  next
    case None
    show ?thesis
    proof (cases "hm_get (ct_multicasts c0) i")
      case (Some querying)
      with None ok show ?thesis
        by (auto simp: on_unicast_def s get control_ok_def) (auto simp: hm_has_def)
    next
      case multi: None
      show ?thesis
      proof (cases "hm_get (ct_unicasts c0) i")
        case (Some querying)
        with None multi ok show ?thesis
          by (auto simp: on_unicast_def s get control_ok_def) (auto simp: hm_has_def)
      next
        case uni: None
        have "good l (and_then (control_query timer (i, 1) (?c, t)) (\<lambda>x (c, t).
            Ok () (c\<lparr>ct_unicasts := hm_insert i
              \<lparr>qu_messages = [m], qu_timer = x\<rparr> (ct_unicasts c)\<rparr>, t)))"
        proof (rule good_and_then)
          show "good l (control_query timer (i, 1) (?c, t))"
            using ok by (intro control_query_good(1) assms(2)) simp
        next
          fix x s' assume q: "control_query timer (i, 1) (?c, t) = Ok x s'"
          obtain p where "fst s' = ?c\<lparr>ct_peer := p\<rparr>"
            using control_query_good(2) [OF assms(2) _ q, of l] ok by auto
          with ok miss [OF None] multi show "good l (case s' of (c, t) \<Rightarrow>
              Ok () (c\<lparr>ct_unicasts := hm_insert i
                \<lparr>qu_messages = [m], qu_timer = x\<rparr> (ct_unicasts c)\<rparr>, t))"
            by (cases s') (auto simp: control_ok_def hm_has_def)
        qed
        with None multi uni show ?thesis by (simp add: on_unicast_def s get)
      qed
    qed
  qed
qed

lemma push_pending_ok: "control_ok l c \<Longrightarrow> control_ok l (push_pending target e c)"
  by (auto simp: control_ok_def push_pending_def split: option.split)

text \<open>Starting the query of a multicast.\<close>

lemma start_multicast_good:
  assumes "timer_total timer" and "control_ok l c" and "\<not> hm_has (ct_unicasts c) target"
  shows "good l (and_then (control_query timer q (c, t)) (\<lambda>x (c, t).
    Ok () (c\<lparr>ct_multicasts := hm_insert target (entry x) (ct_multicasts c)\<rparr>, t)))"
proof (rule good_and_then)
  show "good l (control_query timer q (c, t))"
    using assms(2) by (intro control_query_good(1) assms(1)) simp
next
  fix x s' assume q: "control_query timer q (c, t) = Ok x s'"
  obtain p where "fst s' = c\<lparr>ct_peer := p\<rparr>"
    using control_query_good(2) [OF assms(1) _ q, of l] assms(2) by auto
  with assms(2,3) show "good l (case s' of (c, t) \<Rightarrow>
      Ok () (c\<lparr>ct_multicasts := hm_insert target (entry x) (ct_multicasts c)\<rparr>, t))"
    by (cases s') (auto simp: control_ok_def)
qed

lemma on_multicast_good:
  assumes "timer_total timer" and "control_ok l (fst s)"
  shows "good l (on_multicast timer target num m s)"
proof -
  obtain c t where s: "s = (c, t)" by (cases s)
  note start = start_multicast_good [OF assms(1), of l c target "(target, num)" t
      "\<lambda>x. \<lparr>qm_count = num, qm_messages = [(num, m)], qm_timer = x\<rparr>"]
  show ?thesis
  proof (cases "hm_get (ct_multicasts c) target")
    case None
    with assms(2) s start push_pending_ok [of l c target "(num, m)"] show ?thesis
      by (simp add: on_multicast_def)
  next
    case (Some querying)
    with assms(2) s have "control_ok l (c\<lparr>ct_multicasts := hm_insert target
        (querying\<lparr>qm_messages := qm_messages querying @ [(num, m)]\<rparr>) (ct_multicasts c)\<rparr>)"
      by (auto simp: control_ok_def) (auto simp: hm_has_def)
    with Some assms(2) s push_pending_ok [of l c target "(num, m)"] show ?thesis
      by (simp add: on_multicast_def)
  qed
qed

lemma resolve_unicasts_good:
  assumes "lru_laws l" and "timer_total timer" and "control_ok l (fst s)"
  shows "good l (resolve_unicasts l timer rs s)"
  using assms(3)
proof (induction rs arbitrary: s)
  case (Cons r rs)
  obtain c t where s: "s = (c, t)" by (cases s)
  show ?case
  proof (cases "hm_get (ct_unicasts c) (pe_id r)")
    case None
    with Cons s show ?thesis by simp
  next
    case (Some querying)
    have "control_ok l (c\<lparr>ct_unicasts := hm_remove (pe_id r) (ct_unicasts c),
        ct_addrs := lru_push l (pe_id r) (pe_addr r) (ct_addrs c)\<rparr>)"
      using Cons.prems s assms(1) unfolding control_ok_def lru_laws_def by auto metis
    with Some s show ?thesis
      by (auto intro!: good_and_then control_unset_good assms(2) send_each_good Cons.IH)
  qed
qed simp

text \<open>After the first loop no record of the result is a queried unicast.\<close>

lemma send_each_frame:
  "send_each ms s = Ok x s' \<Longrightarrow> \<exists>n. fst s' = (fst s)\<lparr>ct_net := n\<rparr>"
proof (induction ms arbitrary: s)
  case Nil
  then show ?case by (auto intro!: exI [of _ "ct_net (fst s)"])
next
  case (Cons m ms)
  from Cons.prems obtain s1 where s1: "control_send m s = Ok () s1" "send_each ms s1 = Ok x s'"
    by (auto simp: and_then_Ok_iff)
  from s1(1) have "\<exists>n. fst s1 = (fst s)\<lparr>ct_net := n\<rparr>"
    by (auto simp: control_send_def lift_outcome_Ok_iff split: prod.splits)
  with Cons.IH [OF s1(2)] show ?case by auto
qed

lemma resolve_unicasts_done:
  assumes "resolve_unicasts l timer rs s = Ok x s'" and "hm_has (ct_unicasts (fst s')) i"
  shows "hm_has (ct_unicasts (fst s)) i \<and> i \<notin> pe_id ` set rs"
  using assms
proof (induction rs arbitrary: s)
  case (Cons r rs)
  obtain c t where s: "s = (c, t)" by (cases s)
  show ?case
  proof (cases "hm_get (ct_unicasts c) (pe_id r)")
    case None
    then have "resolve_unicasts l timer rs s = Ok x s'" using Cons.prems(1) s by simp
    from Cons.IH [OF this Cons.prems(2)] None s show ?thesis by (auto simp: hm_has_def)
  next
    case (Some querying)
    let ?c = "c\<lparr>ct_unicasts := hm_remove (pe_id r) (ct_unicasts c),
        ct_addrs := lru_push l (pe_id r) (pe_addr r) (ct_addrs c)\<rparr>"
    from Cons.prems(1) Some s obtain s1 s2 where
      s1: "control_unset timer (qu_timer querying) (?c, t) = Ok () s1"
      and s2: "send_each (map (SendTo (pe_addr r)) (qu_messages querying)) s1 = Ok () s2"
      and rest: "resolve_unicasts l timer rs s2 = Ok x s'"
      by (auto simp: and_then_Ok_iff)
    from s1 have "fst s1 = ?c" by (auto simp: control_unset_def lift_outcome_Ok_iff)
    with send_each_frame [OF s2] have "ct_unicasts (fst s2) = hm_remove (pe_id r) (ct_unicasts c)"
      by auto
    with Cons.IH [OF rest Cons.prems(2)] s show ?thesis by auto
  qed
qed simp

text \<open>The loop only removes unicasts, extends the cache and sends.\<close>

lemma resolve_unicasts_frame:
  assumes "resolve_unicasts l timer rs (c, t) = Ok x (c', t')"
  shows "ct_multicasts c' = ct_multicasts c \<and> ct_pending c' = ct_pending c \<and> ct_peer c' = ct_peer c \<and>
    (i \<notin> pe_id ` set rs \<longrightarrow> hm_get (ct_unicasts c') i = hm_get (ct_unicasts c) i)"
  using assms
proof (induction rs arbitrary: c t)
  case (Cons r rs)
  show ?case
  proof (cases "hm_get (ct_unicasts c) (pe_id r)")
    case None
    with Cons.prems have "resolve_unicasts l timer rs (c, t) = Ok x (c', t')" by simp
    from Cons.IH [OF this] show ?thesis by simp
  next
    case (Some querying)
    let ?c = "c\<lparr>ct_unicasts := hm_remove (pe_id r) (ct_unicasts c),
        ct_addrs := lru_push l (pe_id r) (pe_addr r) (ct_addrs c)\<rparr>"
    from Cons.prems Some obtain s1 c2 t2 where
      s1: "control_unset timer (qu_timer querying) (?c, t) = Ok () s1"
      and s2: "send_each (map (SendTo (pe_addr r)) (qu_messages querying)) s1 = Ok () (c2, t2)"
      and rest: "resolve_unicasts l timer rs (c2, t2) = Ok x (c', t')"
      by (auto simp: and_then_Ok_iff)
    from s1 have "fst s1 = ?c" by (auto simp: control_unset_def lift_outcome_Ok_iff)
    with send_each_frame [OF s2] obtain n where "c2 = ?c\<lparr>ct_net := n\<rparr>" by auto
    with Cons.IH [OF rest] show ?thesis by simp
  qed
qed simp

lemma finish_multicast_good:
  assumes "lru_laws l" and "timer_total timer" and "control_ok l (fst s)"
    and "\<And>i. hm_has (ct_unicasts (fst s)) i \<Longrightarrow> i \<notin> pe_id ` set (qr_closest upcall)"
  shows "good l (finish_multicast l timer upcall s)"
proof -
  obtain c t where s: "s = (c, t)" by (cases s)
  let ?cache = "fold (\<lambda>r. lru_push l (pe_id r) (pe_addr r)) (qr_closest upcall) (ct_addrs c)"
  let ?c = "c\<lparr>ct_multicasts := hm_remove (qr_target upcall) (ct_multicasts c), ct_addrs := ?cache\<rparr>"
  have cached: "i \<in> pe_id ` set rs \<or> lru_contains l i cache"
    if "lru_contains l i (fold (\<lambda>r. lru_push l (pe_id r) (pe_addr r)) rs cache)" for i rs cache
    using that
  proof (induction rs arbitrary: cache)
    case (Cons r rs)
    have "lru_contains l i (fold (\<lambda>r. lru_push l (pe_id r) (pe_addr r)) rs
        (lru_push l (pe_id r) (pe_addr r) cache))" using Cons.prems by simp
    from Cons.IH [OF this] assms(1) show ?case
      unfolding lru_laws_def by (metis image_insert insertCI list.simps(15))
  qed simp
  have "\<not> lru_contains l i ?cache" if "hm_has (ct_unicasts c) i" for i
    using cached [of i "qr_closest upcall" "ct_addrs c"] assms(3) assms(4) [of i] that s
    by (auto simp: control_ok_def)
  then have "control_ok l ?c" using assms(3) s by (auto simp: control_ok_def)
  then show ?thesis
    using s assms(3)
    by (auto simp: finish_multicast_def split: option.split
        intro!: good_and_then control_unset_good assms(2) send_each_good)
qed

lemma finish_multicast_frame:
  assumes "finish_multicast l timer upcall s = Ok x s'"
  shows "ct_unicasts (fst s') = ct_unicasts (fst s) \<and> \<not> hm_has (ct_multicasts (fst s')) (qr_target upcall)"
proof (cases "hm_get (ct_multicasts (fst s)) (qr_target upcall)")
  case None
  with assms show ?thesis by (cases s) (auto simp: finish_multicast_def hm_has_def)
next
  case (Some querying)
  obtain c t where s: "s = (c, t)" by (cases s)
  let ?c = "c\<lparr>ct_multicasts := hm_remove (qr_target upcall) (ct_multicasts c),
     ct_addrs := fold (\<lambda>r. lru_push l (pe_id r) (pe_addr r)) (qr_closest upcall) (ct_addrs c)\<rparr>"
  from assms Some s obtain s1 where
    s1: "control_unset timer (qm_timer querying) (?c, t) = Ok () s1"
    and s2: "send_each (map (\<lambda>(num, m). SendEach (map pe_addr (take num (qr_closest upcall))) m)
      (qm_messages querying)) s1 = Ok x s'"
    by (auto simp: finish_multicast_def and_then_Ok_iff)
  from s1 have "fst s1 = ?c" by (auto simp: control_unset_def lift_outcome_Ok_iff)
  with send_each_frame [OF s2] s show ?thesis by auto
qed

lemma start_pending_good:
  assumes "timer_total timer" and "control_ok l (fst s)"
    and "\<not> hm_has (ct_unicasts (fst s)) target" and "\<not> hm_has (ct_multicasts (fst s)) target"
  shows "good l (start_pending timer target s)"
proof -
  obtain c t where s: "s = (c, t)" by (cases s)
  let ?c = "c\<lparr>ct_pending := hm_remove target (ct_pending c)\<rparr>"
  have "control_ok l ?c" using assms(2) s by (auto simp: control_ok_def)
  from start_multicast_good [OF assms(1) this] assms s show ?thesis
    by (auto simp: start_pending_def Let_def control_ok_def split: option.split)
qed

lemma on_query_result_good:
  assumes "lru_laws l" and "timer_total timer" and "control_ok l (fst s)"
  shows "good l (on_query_result l timer upcall s)"
  unfolding on_query_result_def
proof (rule good_and_then [OF resolve_unicasts_good [OF assms]], goal_cases)
  case (1 x s1)
  obtain c t where s1: "s1 = (c, t)" by (cases s1)
  have ok: "control_ok l c" using 1(2) s1 by simp
  have gone: "i \<notin> pe_id ` set (qr_closest upcall)" if "hm_has (ct_unicasts c) i" for i
    using resolve_unicasts_done [OF 1(1)] that s1 by auto
  show ?case
  proof (cases "qr_status upcall = Progress")
    case True
    with ok s1 show ?thesis by simp
  next
    case False
    show ?thesis
    proof (cases "hm_get (ct_unicasts c) (qr_target upcall)")
      case (Some querying)
      let ?c = "c\<lparr>ct_unicasts := hm_remove (qr_target upcall) (ct_unicasts c)\<rparr>"
      have "control_ok l ?c" using ok by (auto simp: control_ok_def)
      moreover have "\<not> lru_contains l (qr_target upcall) (ct_addrs c)"
        using ok Some by (auto simp: control_ok_def hm_has_def)
      ultimately show ?thesis
        using False Some s1 control_unset_good [OF assms(2), of l "(?c, t)" "qu_timer querying"]
        by (auto simp: control_unset_def lift_outcome_Ok_iff intro!: good_and_then)
    next
      case None
      have "good l (and_then (finish_multicast l timer upcall (c, t))
          (\<lambda>_. start_pending timer (qr_target upcall)))"
        using finish_multicast_frame [of l timer upcall "(c, t)"] None ok gone
        by (intro good_and_then finish_multicast_good assms start_pending_good) (auto simp: hm_has_def)
      with False None s1 show ?thesis by simp
    qed
  qed
qed

lemma control_keeps:
  assumes "lru_laws l" and "timer_total timer" and "control_ok l (fst s)"
  shows "good l (control_on_event l timer e s)"
  using assms
  by (cases e) (simp_all add: on_unicast_good on_multicast_good on_query_result_good on_query_timeout_def)

lemma control_run_keeps:
  assumes "lru_laws l" and "timer_total timer" and "control_ok l (fst s)"
  shows "control_ok l (fst (control_run l timer es s))"
  using assms(3)
proof (induction es arbitrary: s)
  case (Cons e es)
  with control_keeps [OF assms(1,2) Cons.prems, of e] show ?case by (simp add: good_def)
qed simp

end
