(* ===== verification/Kad_Correct.thy ===== *)
theory Kad_Correct
  imports Kad_Refresh Kad_Control
begin

text \<open>
  What the Kademlia peer and the control of its net guarantee, and where the code falls short: the
  properties of \<open>src/src/kademlia.rs\<close> and \<open>src/src/net/kademlia.rs\<close>, with concrete peers for the
  witnesses.
\<close>

section \<open>Concrete peers\<close>

definition sample_peer_id :: "u8 \<Rightarrow> peer_id" where
  "sample_peer_id b = b # replicate 31 0"

definition sample_known :: "u8 \<Rightarrow> nat known_peer" where
  "sample_known b = \<lparr>pe_id = sample_peer_id b, pe_key = [b], pe_addr = unat b\<rparr>"

definition counting_timer :: "('e, nat) rich_timer" where
  "counting_timer =
     \<lparr>rt_set = (\<lambda>_ _ t. Ok (of_nat t) (Suc t)), rt_unset = (\<lambda>_ t. Ok () t)\<rparr>"

lemma length_sample_peer_id [simp]: "length (sample_peer_id b) = 32"
  by (simp add: sample_peer_id_def)

lemma sample_peer_id_inject [simp]: "sample_peer_id a = sample_peer_id b \<longleftrightarrow> a = b"
  by (simp add: sample_peer_id_def)

lemma sample_known_id [simp]: "pe_id (sample_known b) = sample_peer_id b"
  by (simp add: sample_known_def)

section \<open>The routing table\<close>

definition seeded :: "('k, 'a) peer_record \<Rightarrow> ('k, 'a) peer_record list \<Rightarrow> ('k, 'a) buckets" where
  "seeded origin rs = fold (\<lambda>r b. after (buckets_insert r b)) rs (buckets_new origin)"

lemma seeded_ok:
  assumes "length (pe_id origin) = 32" and "list_all (\<lambda>r. length (pe_id r) = 32) rs"
  shows "buckets_ok (seeded origin rs)"
proof -
  have "buckets_ok (fold (\<lambda>r b. after (buckets_insert r b)) rs b)"
    if "buckets_ok b" for b :: "('a, 'b) buckets"
    using that assms(2) by (induction rs arbitrary: b) (simp_all add: buckets_insert_keeps)
  with buckets_new_ok [OF assms(1)] show ?thesis by (simp add: seeded_def)
qed

text \<open>C8: \<open>find_closest\<close> never fails its assertions on a table made by insertions, and it returns
  exactly the requested number of known peers closest to the target, the origin included, in order
  of increasing distance.\<close>

theorem kad_find_closest:
  assumes "length (pe_id origin) = 32" and "list_all (\<lambda>r. length (pe_id r) = 32) rs"
    and "length target = 32" and "0 < num"
  shows "find_closest target num (seeded origin rs) =
    Inr (take num (sort_key (\<lambda>r. distance (pe_id r) target) (all_records (seeded origin rs))))"
  by (rule find_closest_sorted [OF seeded_ok [OF assms(1,2)] assms(3,4)])

theorem kad_find_closest_witness:
  "find_closest (sample_peer_id 9) 5 (seeded (sample_known 0) [sample_known 1, sample_known 2]) =
    Inr (take 5 (sort_key (\<lambda>r. distance (pe_id r) (sample_peer_id 9))
      (all_records (seeded (sample_known 0) [sample_known 1, sample_known 2]))))"
  by (rule kad_find_closest) simp_all

text \<open>C9: A peer's state stays well-formed whatever it receives: every bucket holds at most 20
  records and 20 cached ones, all in the bucket of their distance; every query keeps its records
  sorted and contacts known peers only, at most 30 at a time and none twice.\<close>

theorem kad_peer_invariant:
  assumes "length (pe_id origin) = 32" and "list_all (\<lambda>r. length (pe_id r) = 32) rs"
    and "list_all (\<lambda>(e, _). kad_event_wf e) es"
  shows "peer_ok (fst (peer_run env timer es
    (peer_new (seeded origin rs) net upcall crypto_worker called, t)))"
  by (rule peer_run_keeps) (simp_all add: peer_new_ok seeded_ok assms)

definition sample_env :: "nat kad_env" where
  "sample_env =
     \<lparr>ke_lib = \<lparr>lib_sha256 = (\<lambda>_. sample_peer_id 1), lib_secp_secret = Some, lib_secp_public = id,
                lib_secp_sign = (\<lambda>_ _. []), lib_secp_verify = (\<lambda>_ _ _. True),
                lib_schnorr_expand = Some, lib_schnorr_public = id,
                lib_schnorr_sign = (\<lambda>_ _. []), lib_schnorr_verify = (\<lambda>_ _ _. True)\<rparr>,
      ke_key_feed = id, ke_addr_feed = (\<lambda>_. [])\<rparr>"

definition sample_find_peer :: "u8 \<Rightarrow> nat find_peer peer_verifiable" where
  "sample_find_peer b =
     \<lparr>inner = \<lparr>fp_target = sample_peer_id b, fp_count = 1, fp_record = sample_known 0\<rparr>,
      signature = []\<rparr>"

definition sample_peer :: "(nat, nat) peer" where
  "sample_peer =
     peer_new (seeded (sample_known 0) []) open_sink open_sink (Inline [] open_sink) open_sink"

theorem kad_peer_invariant_witness:
  "peer_ok (fst (peer_run sample_env counting_timer
     [(KCrypto (SignedFindPeer (sample_find_peer 2)), \<lambda>_. ([], 0), \<lambda>_. []),
      (KCrypto (VerifiedFindPeer (sample_find_peer 3)), \<lambda>_. ([], 0), \<lambda>_. [])]
     (peer_new (seeded (sample_known 0) [sample_known 1]) open_sink open_sink
       (Inline [] open_sink) (open_sink :: nat sink), 0)))"
  by (rule kad_peer_invariant) (simp_all add: find_peer_wf_def sample_find_peer_def)

section \<open>The result of a query\<close>

text \<open>What a reply that goes up was: a step of its query.\<close>

lemma query_report_upcall:
  assumes "query_report env rng pick target closest status p = Ok () p'"
    and "sent (p_upcall p') = sent (p_upcall p) @ [qr]"
  shows "qr = \<lparr>qr_status = status, qr_target = target, qr_closest = closest\<rparr> \<and>
    p_query_states p' = p_query_states p"
proof (cases "p_on_bootstrap p = None")
  case True
  with assms show ?thesis
    by (auto simp: query_report_def lift_outcome_Ok_iff split: if_splits)
next
  case False
  have call: "p_upcall q = p_upcall p1" if "call_bootstrap p1 = Ok () q" for p1 q :: "('a, 'b) peer"
    using that by (auto simp: call_bootstrap_def lift_outcome_Ok_iff split: option.splits)
  have "p_upcall p' = p_upcall p"
  proof (cases "status \<noteq> Progress \<and> p_refresh_targets p = {}")
    case True
    with False assms(1) obtain p1 where p1: "refresh_buckets env rng pick p = Ok () p1"
      "(if p_refresh_targets p1 = {} then call_bootstrap p1 else Ok () p1) = Ok () p'"
      by (auto simp: query_report_def and_then_Ok_iff)
    from p1(1) have "p_upcall p1 = p_upcall p" by (rule refresh_buckets_frame) simp
    with p1(2) call [of p1 p'] show ?thesis by (simp split: if_splits)
  next
    case other: False
    with False assms(1) show ?thesis
      by (auto simp: query_report_def Let_def start_next_refresh_def split: if_splits
          elim!: start_query_frame dest!: call)
  qed
  with assms(2) show ?thesis by simp
qed

lemma peer_insert_frame:
  assumes "peer_insert r p = Ok () q"
  shows "p_upcall q = p_upcall p" "p_query_states q = p_query_states p" "p_record q = p_record p"
  using assms by (auto simp: peer_insert_def lift_outcome_Ok_iff)

lemma query_step_upcall:
  "query_step timer target state (p, t) = Ok status (q, t') \<Longrightarrow> p_upcall q = p_upcall p"
  by (cases rule: query_step_cases [of state timer target p t]) auto

lemma reported_step:
  fixes p p' :: "('a, 'f) peer"
  assumes "peer_ok p" and "find_peer_ok_wf (inner vm)"
    and "on_verified_find_peer_ok env rng pick timer vm (p, t) = Ok () (p', t')"
    and "sent (p_upcall p') = sent (p_upcall p) @ [qr]"
  obtains state records state3 t1 t2 and p1 p2 :: "('a, 'f) peer" where
    "hm_get (p_query_states p) (fo_target (inner vm)) = Some state"
    "merge_closest (fo_target (inner vm)) (fo_closest (inner vm)) (qs_records state) = Ok () records"
    "state3 = state\<lparr>qs_contacting := hm_remove (pe_id (fo_record (inner vm))) (qs_contacting state),
       qs_contacted := insert (pe_id (fo_record (inner vm))) (qs_contacted state),
       qs_records := records\<rparr>"
    "query_ok (fo_target (inner vm)) state" "query_ok (fo_target (inner vm)) state3"
    "query_step timer (fo_target (inner vm)) state3 (p1, t1) = Ok (qr_status qr) (p2, t2)"
    "qr_target qr = fo_target (inner vm)" "qr_closest qr = contacted_closest state3"
    "p_query_states p' = p_query_states p2"
  using assms(3)
proof (cases rule: on_verified_find_peer_ok_cases [of vm p env rng pick timer t])
  case (ignored p1)
  with assms(3,4) peer_insert_frame(1) [of "fo_record (inner vm)" p p1] show thesis by simp
next
  case (stepped p1 state x t1 records state3)
  let ?target = "fo_target (inner vm)"
  let ?q = "store ?target state3 (store ?target
    (state\<lparr>qs_contacting := hm_remove (pe_id (fo_record (inner vm))) (qs_contacting state)\<rparr>) p1)"
  note frame = peer_insert_frame [OF stepped(1)]
  have state: "hm_get (p_query_states p) ?target = Some state" using stepped(2) frame(2) by simp
  with assms(1) have ok: "query_ok ?target state" by (simp add: peer_ok_def)
  have ok3: "query_ok ?target state3"
    using query_ok_reply(2) [OF ok stepped(3), of "fo_closest (inner vm)"] assms(2) stepped(4,5)
    by (simp add: find_peer_ok_wf_def)
  from trans [OF stepped(6) [symmetric] assms(3)] obtain status p2 t2 where
    step: "query_step timer ?target state3 (?q, t1) = Ok status (p2, t2)"
    and report: "query_report env rng pick ?target (contacted_closest state3) status p2 = Ok () p'"
    unfolding and_then_Ok_iff by (auto simp: lift_outcome_Ok_iff)
  have "p_upcall p2 = p_upcall p" using query_step_upcall [OF step] frame(1) by simp
  with query_report_upcall [OF report, of qr] assms(4)
  have "qr = \<lparr>qr_status = status, qr_target = ?target, qr_closest = contacted_closest state3\<rparr>"
    "p_query_states p' = p_query_states p2" by auto
  with that [OF state stepped(4,5) ok ok3, of ?q t1 p2 t2] step show thesis by simp
qed (use assms(3) in simp_all)

text \<open>\<open>exactly_closest target known n rs\<close>: \<open>rs\<close> are the \<open>n\<close> peers of \<open>known\<close> closest to \<open>target\<close>.\<close>

definition exactly_closest ::
  "peer_id \<Rightarrow> 'a known_peer set \<Rightarrow> nat \<Rightarrow> 'a known_peer list \<Rightarrow> bool" where
  "exactly_closest target known n rs \<longleftrightarrow>
     length rs = n \<and> sorted_wrt (nearer target) rs \<and> set rs \<subseteq> known \<and>
     (\<forall>r\<in>known - set rs. \<forall>c\<in>set rs. nearer target c r)"

lemma exactly_closest_take:
  assumes "sorted_wrt (nearer target) rs" and "n \<le> length rs"
  shows "exactly_closest target (set rs) n (take n rs)"
proof -
  have "sorted_wrt (nearer target) (take n rs @ drop n rs)" using assms(1) by simp
  then have "\<forall>c\<in>set (take n rs). \<forall>r\<in>set (drop n rs). nearer target c r"
    unfolding sorted_wrt_append by blast
  moreover have "set rs = set (take n rs) \<union> set (drop n rs)"
    by (metis append_take_drop_id set_append)
  ultimately show ?thesis
    using assms by (auto simp: exactly_closest_def sorted_wrt_take)
qed

text \<open>C10: A query that converges reports as many peers as were asked for; each of them has answered,
  and they are the closest ones to the target of all peers the query has heard of, the last reply
  included. The query is over.\<close>

theorem kad_converge_closest:
  fixes p p' :: "('a, 'f) peer"
  assumes "peer_ok p" and "find_peer_ok_wf (inner vm)"
    and "on_verified_find_peer_ok env rng pick timer vm (p, t) = Ok () (p', t')"
    and "sent (p_upcall p') = sent (p_upcall p) @ [qr]" and "qr_status qr = Converge"
  shows "\<exists>state. hm_get (p_query_states p) (fo_target (inner vm)) = Some state \<and>
    exactly_closest (fo_target (inner vm)) (set (qs_records state) \<union> set (fo_closest (inner vm)))
      (fp_count (inner (qs_find_peer state))) (qr_closest qr) \<and>
    list_all (\<lambda>r. pe_id r \<in> insert (pe_id (fo_record (inner vm))) (qs_contacted state))
      (qr_closest qr) \<and>
    hm_get (p_query_states p') (fo_target (inner vm)) = None"
proof -
  let ?target = "fo_target (inner vm)"
  obtain state records state3 t1 t2 and p1 p2 :: "('a, 'f) peer" where
    state: "hm_get (p_query_states p) ?target = Some state"
    and merge: "merge_closest ?target (fo_closest (inner vm)) (qs_records state) = Ok () records"
    and state3: "state3 = state\<lparr>qs_contacting := hm_remove (pe_id (fo_record (inner vm)))
       (qs_contacting state), qs_contacted := insert (pe_id (fo_record (inner vm)))
       (qs_contacted state), qs_records := records\<rparr>"
    and ok: "query_ok ?target state" "query_ok ?target state3"
    and step: "query_step timer ?target state3 (p1, t1) = Ok (qr_status qr) (p2, t2)"
    and target: "qr_target qr = ?target"
    and qr: "qr_closest qr = contacted_closest state3" "p_query_states p' = p_query_states p2"
    by (rule reported_step [OF assms(1-4)])
  let ?n = "fp_count (inner (qs_find_peer state))"
  have sets: "set records = set (qs_records state) \<union> set (fo_closest (inner vm))"
    using merge_closest_keeps [of ?target "qs_records state" "fo_closest (inner vm)"] ok(1) assms(2)
      merge by (auto simp: query_ok_def find_peer_ok_wf_def)
  have srt: "sorted_wrt (nearer ?target) records" using ok(2) state3 by (simp add: query_ok_def)
  from query_step_Converge [OF step [unfolded assms(5)]] state3 qr
  have c: "qr_closest qr = take ?n records" "?n \<le> length records"
    "list_all (\<lambda>r. pe_id r \<in> insert (pe_id (fo_record (inner vm))) (qs_contacted state))
      (qr_closest qr)" "hm_get (p_query_states p') ?target = None"
    by (auto simp: qr(1))
  from exactly_closest_take [OF srt c(2)] have "exactly_closest ?target
      (set (qs_records state) \<union> set (fo_closest (inner vm))) ?n (qr_closest qr)"
    unfolding c(1) sets .
  with state c(3,4) show ?thesis by blast
qed

definition sample_query :: "nat query_state" where
  "sample_query =
     \<lparr>qs_find_peer = sample_find_peer 2, qs_records = [sample_known 1],
      qs_contacting = [(sample_peer_id 1, 0)], qs_contacted = {sample_peer_id 0}\<rparr>"

definition sample_querying :: "(nat, nat) peer" where
  "sample_querying = sample_peer\<lparr>p_query_states := [(sample_peer_id 2, sample_query)]\<rparr>"

definition sample_reply :: "nat find_peer_ok peer_verifiable" where
  "sample_reply =
     \<lparr>inner = \<lparr>fo_seq = 1, fo_target = sample_peer_id 2, fo_closest = [sample_known 5],
               fo_record = sample_known 1\<rparr>, signature = []\<rparr>"

lemma sample_peer_ok: "peer_ok sample_peer"
  by (simp add: sample_peer_def peer_new_ok seeded_ok)

lemma sample_querying_ok: "peer_ok sample_querying"
  using sample_peer_ok
  by (auto simp: sample_querying_def peer_ok_def query_ok_def sample_query_def sample_find_peer_def
      ids_ok_def num_concurrency_def hm_wf_def)

lemma from_le_zeros: "from_le (replicate n 0) = 0"
  by (induction n) simp_all

lemma sample_distance: "distance (sample_peer_id a) (sample_peer_id b) = ucast (a XOR b)"
  by (simp add: distance_def sample_peer_id_def from_le_zeros unsigned_xor_eq)

lemma sample_merge:
  "merge_closest (sample_peer_id 2) [sample_known 5] [sample_known 1] =
     Ok () [sample_known 1, sample_known 5]"
  by (simp add: search_by_key_def sample_distance Let_def)

lemma sample_insert:
  obtains b where "peer_insert (sample_known 1) sample_querying = Ok () (sample_querying\<lparr>p_buckets := b\<rparr>)"
proof -
  have "pe_id (sample_known 1) \<noteq> pe_id (bk_origin (p_buckets sample_querying))"
    by (simp add: sample_querying_def sample_peer_def peer_new_def seeded_def buckets_new_def)
  moreover have "buckets_ok (p_buckets sample_querying)"
    using sample_querying_ok by (simp add: peer_ok_def)
  ultimately obtain i where "buckets_insert (sample_known 1) (p_buckets sample_querying) =
      Ok () (p_buckets sample_querying\<lparr>bk_distances := (bk_distances (p_buckets sample_querying))
        [i := bucket_insert (sample_known 1) (bk_distances (p_buckets sample_querying) ! i)]\<rparr>)"
    using buckets_insert_result [of "p_buckets sample_querying" "sample_known 1"] by auto
  then show thesis by (intro that) (simp add: peer_insert_def)
qed

lemma sample_converges:
  "\<exists>p' t'. on_verified_find_peer_ok sample_env (\<lambda>_. ([], 0)) (\<lambda>_. []) counting_timer sample_reply
     (sample_querying, 0) = Ok () (p', t') \<and>
   sent (p_upcall p') = sent (p_upcall sample_querying) @
     [\<lparr>qr_status = Converge, qr_target = sample_peer_id 2, qr_closest = [sample_known 1]\<rparr>]"
proof (rule sample_insert)
  fix b assume "peer_insert (sample_known 1) sample_querying = Ok () (sample_querying\<lparr>p_buckets := b\<rparr>)"
  then show ?thesis
    by (simp add: on_verified_find_peer_ok_def sample_reply_def sample_querying_def sample_query_def
        sample_merge counting_timer_def query_step_def sample_find_peer_def query_report_def
        contacted_closest_def sample_peer_def peer_new_def open_sink_def Let_def
        del: merge_closest.simps)
qed

theorem kad_converge_closest_witness:
  "exactly_closest (sample_peer_id 2) (set (qs_records sample_query) \<union> set [sample_known 5])
    (fp_count (inner (qs_find_peer sample_query))) [sample_known 1]"
proof -
  have "find_peer_ok_wf (inner sample_reply)"
    by (simp add: find_peer_ok_wf_def sample_reply_def ids_ok_def)
  moreover obtain p' t' where "on_verified_find_peer_ok sample_env (\<lambda>_. ([], 0)) (\<lambda>_. [])
      counting_timer sample_reply (sample_querying, 0) = Ok () (p', t')"
    "sent (p_upcall p') = sent (p_upcall sample_querying) @
       [\<lparr>qr_status = Converge, qr_target = sample_peer_id 2, qr_closest = [sample_known 1]\<rparr>]"
    using sample_converges by blast
  ultimately have "\<exists>state. hm_get (p_query_states sample_querying) (fo_target (inner sample_reply)) =
      Some state \<and>
    exactly_closest (fo_target (inner sample_reply))
      (set (qs_records state) \<union> set (fo_closest (inner sample_reply)))
      (fp_count (inner (qs_find_peer state))) [sample_known 1]"
    using kad_converge_closest [OF sample_querying_ok, of sample_reply sample_env
      "\<lambda>_. ([], 0)" "\<lambda>_. []" counting_timer 0 p' t'
      "\<lparr>qr_status = Converge, qr_target = sample_peer_id 2, qr_closest = [sample_known 1]\<rparr>"]
    by auto
  then show ?thesis
    by (simp add: sample_reply_def sample_querying_def)
qed

text \<open>A query is halted only when nothing is left to ask: every peer it has heard of has answered,
  all of them are reported, and they are fewer than were asked for. While it only makes progress it
  stays registered with a request in flight, so a later reply or timeout concerns it.\<close>

theorem kad_query_exhausted:
  assumes "query_ok target state"
    and "query_step timer target state (p, t) = Ok status (p', t')"
  shows "(status = Halted \<longrightarrow> contacted_closest state = qs_records state \<and>
      list_all (\<lambda>r. pe_id r \<in> qs_contacted state) (qs_records state) \<and>
      length (qs_records state) < fp_count (inner (qs_find_peer state)) \<and>
      hm_get (p_query_states p') target = None) \<and>
    (status = Progress \<longrightarrow> (\<exists>state'. hm_get (p_query_states p') target = Some state' \<and>
      query_ok target state' \<and> qs_contacting state' \<noteq> []))"
  using query_step_Halted [of timer target state p t p' t'] query_step_Progress [of timer target state p t p' t']
    assms by auto

definition sample_exhausted :: "nat query_state" where
  "sample_exhausted =
     \<lparr>qs_find_peer = sample_find_peer 2\<lparr>inner := (inner (sample_find_peer 2))\<lparr>fp_count := 5\<rparr>\<rparr>,
      qs_records = [sample_known 1], qs_contacting = [],
      qs_contacted = {sample_peer_id 0, sample_peer_id 1}\<rparr>"

theorem kad_query_exhausted_witness:
  "\<exists>p' t'. query_step counting_timer (sample_peer_id 2) sample_exhausted (sample_peer, 0) =
      Ok Halted (p', t') \<and>
    contacted_closest sample_exhausted = qs_records sample_exhausted \<and>
    hm_get (p_query_states p') (sample_peer_id 2) = None"
proof -
  have "query_ok (sample_peer_id 2) sample_exhausted"
    by (simp add: query_ok_def sample_exhausted_def sample_find_peer_def ids_ok_def)
  moreover have "contact_more counting_timer (sample_peer_id 2) [] (sample_exhausted, 0) =
      Ok [] (sample_exhausted, 0)"
    by (simp add: contact_more.simps next_to_contact_def sample_exhausted_def num_concurrency_def)
  then obtain p' t' where "query_step counting_timer (sample_peer_id 2) sample_exhausted
      (sample_peer, 0) = Ok Halted (p', t')"
    by (auto simp: query_step_def sample_exhausted_def sample_find_peer_def)
  ultimately show ?thesis
    using kad_query_exhausted [of "sample_peer_id 2" sample_exhausted counting_timer sample_peer 0
      Halted p' t'] by auto
qed

section \<open>A query that nobody can answer\<close>

lemma lonely_records:
  assumes "list_all (\<lambda>bucket. b_records bucket = []) (bk_distances b)"
  shows "all_records b = [bk_origin b]"
  using assms by (simp add: all_records_def list_all_iff)

text \<open>A peer that knows nobody does not reject a query, as the check for empty buckets means to:
  the check never fires because the origin itself is always found. The query is registered with
  nobody to contact, no message is sent, and no reply ever reports a result or ends it.\<close>

theorem kad_lonely_query_hangs:
  assumes "peer_ok p" and "find_peer_wf (inner m)" and "\<not> closed (p_net p)"
    and "list_all (\<lambda>bucket. b_records bucket = []) (bk_distances (p_buckets p))"
    and "hm_get (p_query_states p) (fp_target (inner m)) = None"
    and "fo_target (inner vm) = fp_target (inner m)"
    and "q = fst (after (on_signed_find_peer timer m (p, t)))"
    and "q' = fst (after (on_verified_find_peer_ok env rng pick timer vm (q, t)))"
  shows "on_signed_find_peer timer m (p, t) = Ok () (q, t) \<and>
    sent (p_net q) = sent (p_net p) @ [ToEach [] m] \<and>
    p_upcall q' = p_upcall p \<and> hm_has (p_query_states q') (fp_target (inner m))"
proof -
  let ?target = "fp_target (inner m)" and ?num = "max (fp_count (inner m)) num_concurrency"
  define state where "state = \<lparr>qs_find_peer = m, qs_records = [p_record p], qs_contacting = [],
    qs_contacted = {pe_id (p_record p)}\<rparr>"
  have ok: "buckets_ok (p_buckets p)" "p_record p = bk_origin (p_buckets p)"
    using assms(1) by (simp_all add: peer_ok_def)
  have num: "0 < ?num" by (simp add: num_concurrency_def)
  have closest: "find_closest ?target ?num (p_buckets p) = Inr [p_record p]"
    using find_closest_sorted [OF ok(1) _ num, of ?target] lonely_records [OF assms(4)] assms(2) ok(2) num
    by (simp add: find_peer_wf_def)
  have signed: "on_signed_find_peer timer m (p, t) = Ok () ((store ?target state p)
      \<lparr>p_net := (p_net p)\<lparr>sent := sent (p_net p) @ [ToEach [] m]\<rparr>\<rparr>, t)"
    using closest assms(3,5) by (simp add: on_signed_find_peer_def state_def Let_def)
  then have q: "q = (store ?target state p)
      \<lparr>p_net := (p_net p)\<lparr>sent := sent (p_net p) @ [ToEach [] m]\<rparr>\<rparr>"
    unfolding assms(7) by simp
  have "p_upcall q' = p_upcall q \<and> hm_has (p_query_states q') ?target"
  proof (cases "peer_insert (fo_record (inner vm)) q")
    case (Err e q1)
    then have "p_upcall q1 = p_upcall q" "p_query_states q1 = p_query_states q"
      by (cases "buckets_insert (fo_record (inner vm)) (p_buckets q)"; auto simp: peer_insert_def)+
    with Err show ?thesis
      by (simp add: assms(8) on_verified_find_peer_ok_def Let_def q hm_has_def)
  next
    case (Ok u q1)
    from peer_insert_frame [of "fo_record (inner vm)" q q1] Ok
    have "p_upcall q1 = p_upcall q" "p_query_states q1 = p_query_states q" by simp_all
    with Ok show ?thesis
      by (simp add: assms(8) on_verified_find_peer_ok_def Let_def q assms(6) state_def)
  qed
  with signed q show ?thesis by simp
qed

theorem kad_lonely_query_hangs_witness:
  "on_signed_find_peer counting_timer (sample_find_peer 2) (sample_peer, 0) =
     Ok () (fst (after (on_signed_find_peer counting_timer (sample_find_peer 2) (sample_peer, 0))), 0)"
proof -
  have 1: "list_all (\<lambda>bucket. b_records bucket = []) (bk_distances (p_buckets sample_peer))"
    by (simp add: sample_peer_def peer_new_def seeded_def buckets_new_def bucket_default_def list_all_iff)
  have 2: "\<not> closed (p_net sample_peer)"
    "hm_get (p_query_states sample_peer) (fp_target (inner (sample_find_peer 2))) = None"
    by (simp_all add: sample_peer_def peer_new_def open_sink_def)
  have 3: "find_peer_wf (inner (sample_find_peer 2))"
    "fo_target (inner sample_reply) = fp_target (inner (sample_find_peer 2))"
    by (simp_all add: sample_find_peer_def find_peer_wf_def sample_reply_def)
  show ?thesis
    by (rule conjunct1 [OF kad_lonely_query_hangs
      [OF sample_peer_ok 3(1) 2(1) 1 2(2) 3(2) refl refl,
        where env = sample_env and rng = "\<lambda>_. ([], 0)" and pick = "\<lambda>_. []"]])
qed

section \<open>Refreshing and bootstrapping\<close>

lemma kad_refresh_targets_aux:
  assumes "peer_ok p" and "rng_ok rng" and "p_on_bootstrap p = Some f"
    and "refresh_buckets env rng pick p = Ok () p'"
  shows "\<exists>start. 0 < start \<and> start < 256 \<and> b_records (bk_distances (p_buckets p) ! start) \<noteq> [] \<and>
    list_all (\<lambda>i. b_records (bk_distances (p_buckets p) ! i) = []) [1..<start] \<and>
    p_refresh_targets p' = p_refresh_targets p \<union> set (map (refresh_target rng p) [start..<256]) \<and>
    list_all (\<lambda>i. index (p_buckets p) (refresh_target rng p i) = Inr i) [start..<256]"
proof -
  have ok: "buckets_ok (p_buckets p)" "p_record p = bk_origin (p_buckets p)"
    "length (pe_id (p_record p)) = 32"
    using assms(1) buckets_ok_D(1) by (auto simp: peer_ok_def)
  from assms(4) show ?thesis
  proof (rule refresh_buckets_frame)
    fix w r start
    assume p': "p' = p\<lparr>p_refresh_targets := r, p_crypto_worker := w\<rparr>"
      and each: "refresh_each rng [start..<256] p = Ok () (p\<lparr>p_refresh_targets := r\<rparr>)"
      and "(if p_on_bootstrap p \<noteq> None then skip_empty (p_buckets p) 0 else Inr 0) = Inr start"
    then have scan: "skip_empty (p_buckets p) 0 = Inr start" using assms(3) by simp
    with buckets_ok_D(2) [OF ok(1)] have start: "0 < start" "start < 256"
      "b_records (bk_distances (p_buckets p) ! start) \<noteq> []"
      "\<forall>j. 0 < j \<and> j < start \<longrightarrow> b_records (bk_distances (p_buckets p) ! j) = []"
      by (simp_all add: skip_empty_Inr)
    have "list_all (\<lambda>i. i < 256) [start..<256]" by (simp add: list_all_iff)
    from refresh_each_all [OF ok(3,2) assms(2) this] each
    have "p\<lparr>p_refresh_targets := r\<rparr> =
        p\<lparr>p_refresh_targets := p_refresh_targets p \<union> set (map (refresh_target rng p) [start..<256])\<rparr>"
      by simp
    from arg_cong [OF this, of p_refresh_targets]
    have "r = p_refresh_targets p \<union> set (map (refresh_target rng p) [start..<256])" by simp
    with start p' refresh_target_in_bucket [OF ok(3,2) assms(2)] show ?thesis
      by (intro exI [of _ start]) (simp add: list_all_iff)
  qed
qed

text \<open>When the buckets are refreshed after a bootstrap, a target is drawn in every bucket from the
  first non-empty one behind bucket 0 up to the last, each target in its own bucket, so the
  assertion on it never fails. The non-empty bucket is refreshed as well, and bucket 0 is never looked
  at.\<close>

theorem kad_refresh_targets:
  assumes "peer_ok p" and "rng_ok rng" and "p_on_bootstrap p = Some f"
    and "refresh_buckets env rng pick p = Ok () p'"
  shows "\<exists>start. 0 < start \<and> start < 256 \<and> b_records (bk_distances (p_buckets p) ! start) \<noteq> [] \<and>
    list_all (\<lambda>i. b_records (bk_distances (p_buckets p) ! i) = []) [1..<start] \<and>
    p_refresh_targets p' = p_refresh_targets p \<union> set (map (refresh_target rng p) [start..<256]) \<and>
    list_all (\<lambda>i. index (p_buckets p) (refresh_target rng p i) = Inr i) [start..<256]"
  by (rule kad_refresh_targets_aux [OF assms])

definition sample_rng :: rng where
  "sample_rng i = (replicate (i div 8) 0, 2 ^ (i mod 8))"

lemma sample_rng_ok: "rng_ok sample_rng"
  by (simp add: rng_ok_def sample_rng_def)

definition sample_booting :: "(nat, nat) peer" where
  "sample_booting =
     (peer_new (seeded (sample_known 0) [sample_known 2]) open_sink open_sink
       (Inline [] open_sink) open_sink)\<lparr>p_on_bootstrap := Some 7\<rparr>"

lemma sample_booting_ok: "peer_ok sample_booting"
proof -
  have "buckets_ok (seeded (sample_known 0) [sample_known 2])" by (simp add: seeded_ok)
  from peer_new_ok [OF this] show ?thesis by (simp add: sample_booting_def)
qed

lemma sample_booting_fields: "p_on_bootstrap sample_booting = Some 7"
  "p_refresh_targets sample_booting = {}" "p_crypto_worker sample_booting = Inline [] open_sink"
  "p_record sample_booting = bk_origin (p_buckets sample_booting)"
  "p_query_states sample_booting = []"
  by (simp_all add: sample_booting_def peer_new_def)

lemma sample_booting_index: "index (buckets_new (sample_known 0)) (sample_peer_id 2) = Inr 1"
proof (rule index_of_top)
  show "top_bit (distance (pe_id (bk_origin (buckets_new (sample_known 0)))) (sample_peer_id 2)) 1"
    by (simp add: buckets_new_def sample_distance top_bit_def bit_2_iff)
qed

lemma sample_booting_scan: "skip_empty (p_buckets sample_booting) 0 = Inr 1"
proof -
  have "p_buckets sample_booting = after (buckets_insert (sample_known 2) (buckets_new (sample_known 0)))"
    by (simp add: sample_booting_def peer_new_def seeded_def)
  also have "\<dots> = (buckets_new (sample_known 0))\<lparr>bk_distances :=
      (bk_distances (buckets_new (sample_known 0)))
        [1 := bucket_insert (sample_known 2) (bk_distances (buckets_new (sample_known 0)) ! 1)]\<rparr>"
    using sample_booting_index by (simp add: buckets_insert_def) (simp add: buckets_new_def)
  finally show ?thesis
    by (simp add: skip_empty_Inr buckets_new_def bucket_insert_def bucket_size_def Let_def
        bucket_default_def)
qed

lemma sample_booting_refreshes:
  "\<exists>p'. refresh_buckets sample_env sample_rng (\<lambda>_. sample_peer_id 4) sample_booting = Ok () p'"
proof -
  have ok: "buckets_ok (p_buckets sample_booting)" "length (pe_id (p_record sample_booting)) = 32"
    using sample_booting_ok buckets_ok_D(1) by (auto simp: peer_ok_def)
  have "list_all (\<lambda>i. i < 256) [1..<256]" by (simp add: list_all_iff)
  from refresh_each_all [OF ok(2) sample_booting_fields(4) sample_rng_ok this] sample_booting_scan
  show ?thesis
    by (simp add: refresh_buckets_def sample_booting_fields start_next_refresh_def start_query_def
        peer_submit_def submit_def kad_run_work_def open_sink_def del: upt_Suc)
qed

theorem kad_refresh_targets_witness:
  "\<exists>p' start. refresh_buckets sample_env sample_rng (\<lambda>_. sample_peer_id 4) sample_booting = Ok () p' \<and>
    0 < start \<and> p_refresh_targets p' = p_refresh_targets sample_booting \<union>
      set (map (refresh_target sample_rng sample_booting) [start..<256])"
proof -
  from sample_booting_refreshes obtain p' where
    p': "refresh_buckets sample_env sample_rng (\<lambda>_. sample_peer_id 4) sample_booting = Ok () p'" ..
  from kad_refresh_targets [OF sample_booting_ok sample_rng_ok sample_booting_fields(1) p'] p'
  show ?thesis by blast
qed

text \<open>What can panic in a report.\<close>

lemma panics_and_then:
  "panics (and_then m f) \<longleftrightarrow> panics m \<or> (\<exists>a s. m = Ok a s \<and> panics (f a s))"
  by (cases m) (auto simp: panics_Err)

lemma start_query_no_panic: "\<not> panics (start_query env target num p)"
  by (auto simp: start_query_def peer_submit_def submit_def kad_run_work_def
      split: worker.split option.split)

text \<open>A bootstrap panics exactly when the peer has learnt of nobody beyond bucket 0: the scan for
  a non-empty bucket then indexes the array out of bounds. Nothing else in the refresh can fail an
  assertion.\<close>

theorem kad_bootstrap_panics:
  assumes "peer_ok p" and "rng_ok rng" and "p_on_bootstrap p = Some f"
    and "p_refresh_targets p = {}" and "status \<noteq> Progress"
  shows "panics (query_report env rng pick target closest status p) \<longleftrightarrow>
    list_all (\<lambda>i. b_records (bk_distances (p_buckets p) ! i) = []) [1..<256]"
proof -
  have ok: "buckets_ok (p_buckets p)" "p_record p = bk_origin (p_buckets p)"
    "length (pe_id (p_record p)) = 32" "length (bk_distances (p_buckets p)) = 256"
    using assms(1) buckets_ok_D(1,2) by (auto simp: peer_ok_def)
  show ?thesis
  proof (cases "skip_empty (p_buckets p) 0")
    case (Inl e)
    with skip_empty_panics [OF Inl] skip_empty_Inl [OF Inl] ok(4) assms(3-5) show ?thesis
      by (auto simp: query_report_def refresh_buckets_def list_all_iff)
  next
    case (Inr start)
    then have start: "0 < start" "start < 256" "b_records (bk_distances (p_buckets p) ! start) \<noteq> []"
      using ok(4) by (simp_all add: skip_empty_Inr)
    let ?p = "p\<lparr>p_refresh_targets := set (map (refresh_target rng p) [start..<256])\<rparr>"
    have "list_all (\<lambda>i. i < 256) [start..<256]" by (simp add: list_all_iff)
    from refresh_each_all [OF ok(3,2) assms(2) this] assms(4)
    have each: "refresh_each rng [start..<256] p = Ok () ?p" by simp
    have ne: "p_refresh_targets ?p \<noteq> {}" using start(2) by (simp del: upt_Suc)
    have refresh: "refresh_buckets env rng pick p =
        start_query env (pick (p_refresh_targets ?p)) bucket_size ?p"
      using Inr each ne assms(3) by (simp add: refresh_buckets_def start_next_refresh_def del: upt_Suc)
    have "\<not> panics (query_report env rng pick target closest status p)"
      using assms(3-5) ne start_query_no_panic [of env "pick (p_refresh_targets ?p)" bucket_size ?p]
      by (auto simp: query_report_def refresh panics_and_then simp del: upt_Suc elim!: start_query_frame)
    with start show ?thesis by (auto simp: list_all_iff)
  qed
qed

theorem kad_bootstrap_panics_witness:
  "\<not> panics (query_report sample_env sample_rng (\<lambda>_. []) (sample_peer_id 0) [] Converge sample_booting)"
  using kad_bootstrap_panics [OF sample_booting_ok sample_rng_ok sample_booting_fields(1,2),
      of Converge sample_env "\<lambda>_. []" "sample_peer_id 0" "[]"] sample_booting_scan
  by (auto simp: skip_empty_Inr list_all_iff)

text \<open>\<open>bootstrap\<close> only looks for running queries, not for one whose \<open>FindPeer\<close> is still being
  signed, so it can start beside a user's query. If that query ends first it draws the refresh
  targets, and when the bootstrap's own query ends its target, the peer's id, is not among them: the
  assertion that it is fails.\<close>

theorem kad_bootstrap_race:
  assumes "peer_ok p" and "rng_ok rng" and "p_on_bootstrap p = Some f"
    and "p_refresh_targets p = {}" and "status \<noteq> Progress" and "status' \<noteq> Progress"
    and "query_report env rng pick target closest status p = Ok () q"
    and "p_refresh_targets q' = p_refresh_targets q" and "p_on_bootstrap q' = Some f"
  shows "query_report env rng' pick' (pe_id (p_record p)) closest' status' q' =
    Err (Panic ''assertion failed: removed'') q'"
proof -
  from assms(3-5,7) obtain p1 where p1: "refresh_buckets env rng pick p = Ok () p1"
    "(if p_refresh_targets p1 = {} then call_bootstrap p1 else Ok () p1) = Ok () q"
    by (auto simp: query_report_def and_then_Ok_iff)
  from kad_refresh_targets_aux [OF assms(1-3) p1(1)] obtain start where start: "start < 256"
    "p_refresh_targets p1 = set (map (refresh_target rng p) [start..<256])"
    "list_all (\<lambda>i. index (p_buckets p) (refresh_target rng p i) = Inr i) [start..<256]"
    using assms(4) by auto
  then have ne: "p_refresh_targets p1 \<noteq> {}" by auto
  have own: "index (p_buckets p) (pe_id (p_record p)) \<noteq> Inr i" for i
    using assms(1) index_Inr [of "p_buckets p" "pe_id (p_record p)" i]
    by (auto simp: peer_ok_def top_bit_def distance_def)
  from ne p1(2) have "q = p1" by simp
  have "pe_id (p_record p) \<notin> p_refresh_targets p1"
  proof
    assume "pe_id (p_record p) \<in> p_refresh_targets p1"
    then obtain i where "start \<le> i" "i < 256" "pe_id (p_record p) = refresh_target rng p i"
      using start(2) by auto
    with start(3) own [of i] show False by (simp add: list_all_iff)
  qed
  with \<open>q = p1\<close> ne assms(6,8,9) show ?thesis by (simp add: query_report_def)
qed

theorem kad_bootstrap_race_witness:
  "\<exists>q. query_report sample_env sample_rng (\<lambda>_. sample_peer_id 4) (sample_peer_id 9) [] Halted
      sample_booting = Ok () q \<and>
    query_report sample_env sample_rng (\<lambda>_. sample_peer_id 4) (pe_id (p_record sample_booting)) []
      Converge q = Err (Panic ''assertion failed: removed'') q"
proof -
  from sample_booting_refreshes obtain q where
    q: "refresh_buckets sample_env sample_rng (\<lambda>_. sample_peer_id 4) sample_booting = Ok () q" ..
  from kad_refresh_targets_aux [OF sample_booting_ok sample_rng_ok sample_booting_fields(1) q]
  have "p_refresh_targets q \<noteq> {}" by auto
  with q sample_booting_fields have report: "query_report sample_env sample_rng
      (\<lambda>_. sample_peer_id 4) (sample_peer_id 9) [] Halted sample_booting = Ok () q"
    by (simp add: query_report_def)
  from q have "p_on_bootstrap q = Some 7"
    by (rule refresh_buckets_frame) (simp add: sample_booting_fields)
  from kad_bootstrap_race [OF sample_booting_ok sample_rng_ok sample_booting_fields(1,2) _ _ report
      refl this, of Converge sample_rng "\<lambda>_. sample_peer_id 4" "[]"] report
  show ?thesis by blast
qed

lemma bootstrap_beside_query:
  assumes "p_query_states p = []" and "p_refresh_targets p = {}" and "p_on_bootstrap p = None"
    and "on_query env target num (p, t) = Ok () (q, t')"
  shows "bootstrap env f q = start_query env (pe_id (p_record q)) bucket_size
    (q\<lparr>p_on_bootstrap := Some f\<rparr>)"
  using assms by (auto simp: on_query_def bootstrap_def lift_outcome_Ok_iff elim!: start_query_frame)

section \<open>The control of the peer net\<close>

text \<open>C11: Whatever unicasts, multicasts, results and timeouts it handles, the control never fails one
  of its assertions: a target is queried for unicasts or for a multicast, never both, the address of
  a queried unicast is never cached, and a pending list is never empty.\<close>

theorem control_never_panics:
  assumes "lru_laws l" and "timer_total timer"
  shows "\<not> panics (control_on_event l timer e (control_run l timer es (control_new cache net peer, t)))"
proof -
  have "control_ok l (fst (control_new cache net peer, t))"
    by (simp add: control_ok_def control_new_def)
  from control_keeps [OF assms control_run_keeps [OF assms this]] show ?thesis
    by (simp add: good_def)
qed

text \<open>A cache of unbounded size as an association list.\<close>

definition list_lru :: "('a, (peer_id, 'a) hmap) lru" where
  "list_lru = \<lparr>lru_get = (\<lambda>k c. (hm_get c k, c)), lru_push = hm_insert,
     lru_contains = (\<lambda>k c. hm_has c k)\<rparr>"

lemma list_lru_laws: "lru_laws list_lru"
  by (simp add: lru_laws_def list_lru_def hm_has_def)

lemma counting_timer_total: "timer_total counting_timer"
  by (simp add: timer_total_def counting_timer_def)

theorem control_never_panics_witness:
  "\<not> panics (control_on_event list_lru counting_timer
     (CResult \<lparr>qr_status = Halted, qr_target = sample_peer_id 5, qr_closest = [sample_known 1]\<rparr>)
     (control_run list_lru counting_timer [CUnicast (sample_peer_id 5) (1 :: nat)]
       (control_new [] open_sink open_sink, 0)))"
  by (rule control_never_panics [OF list_lru_laws counting_timer_total])

text \<open>When the query of a unicast ends without finding its target, the handler returns before the
  pending multicasts of the same target are started: they stay queued although no query for the
  target is running any more.\<close>

theorem control_forgets_pending:
  assumes "control_ok l c" and "hm_get (ct_unicasts c) target = Some querying"
    and "hm_get (ct_pending c) target = Some pending"
    and "target \<notin> pe_id ` set closest" and "status \<noteq> Progress"
    and "on_query_result l timer \<lparr>qr_status = status, qr_target = target, qr_closest = closest\<rparr> (c, t) =
      Ok () (c', t')"
  shows "hm_get (ct_pending c') target = Some pending \<and> \<not> hm_has (ct_unicasts c') target \<and>
    \<not> hm_has (ct_multicasts c') target \<and> sent (ct_peer c') = sent (ct_peer c)"
proof -
  let ?upcall = "\<lparr>qr_status = status, qr_target = target, qr_closest = closest\<rparr>"
  from assms(6) obtain c1 t1 where
    resolve: "resolve_unicasts l timer closest (c, t) = Ok () (c1, t1)"
    by (auto simp: on_query_result_def and_then_Ok_iff)
  note frame = resolve_unicasts_frame [OF resolve]
  have "hm_get (ct_unicasts c1) target = Some querying"
    using frame assms(2,4) by simp
  with resolve assms(5,6) obtain "c' = c1\<lparr>ct_unicasts := hm_remove target (ct_unicasts c1)\<rparr>"
    by (auto simp: on_query_result_def and_then_Ok_iff control_unset_def lift_outcome_Ok_iff
        split: if_splits)
  with frame assms(1-3) show ?thesis by (auto simp: control_ok_def hm_has_def)
qed

definition sample_control :: "(nat, nat, (peer_id, nat) hmap) control \<times> nat" where
  "sample_control = control_run list_lru counting_timer
     [CUnicast (sample_peer_id 5) 1, CMulticast (sample_peer_id 5) 3 2]
     (control_new [] open_sink open_sink, 0)"

lemmas control_eval = on_unicast_def on_multicast_def on_query_result_def control_query_def
  control_send_def control_unset_def control_new_def list_lru_def counting_timer_def open_sink_def
  push_pending_def finish_multicast_def start_pending_def Let_def

lemma sample_control_eval:
  "sample_control = ((control_new [] open_sink open_sink)
     \<lparr>ct_peer := open_sink\<lparr>sent := [(sample_peer_id 5, 1)]\<rparr>,
      ct_unicasts := [(sample_peer_id 5, \<lparr>qu_messages = [1], qu_timer = 0\<rparr>)],
      ct_pending := [(sample_peer_id 5, [(3, 2)])]\<rparr>, 1)"
  by (simp add: sample_control_def control_eval hm_has_def)

theorem control_forgets_pending_witness:
  "\<exists>c' t'. on_query_result list_lru counting_timer
      \<lparr>qr_status = Halted, qr_target = sample_peer_id 5, qr_closest = []\<rparr> sample_control =
      Ok () (c', t') \<and>
    hm_get (ct_pending c') (sample_peer_id 5) = Some [(3, 2)] \<and>
    \<not> hm_has (ct_multicasts c') (sample_peer_id 5)"
proof -
  obtain c t where s: "sample_control = (c, t)" by (cases sample_control)
  have "control_ok list_lru c"
    using s unfolding sample_control_eval
    by (auto simp: control_ok_def control_new_def list_lru_def hm_wf_def hm_has_def split: if_splits)
  moreover have "hm_get (ct_unicasts c) (sample_peer_id 5) = Some \<lparr>qu_messages = [1], qu_timer = 0\<rparr>"
    "hm_get (ct_pending c) (sample_peer_id 5) = Some [(3, 2)]"
    using s by (auto simp: sample_control_eval)
  moreover obtain c' t' where "on_query_result list_lru counting_timer
      \<lparr>qr_status = Halted, qr_target = sample_peer_id 5, qr_closest = []\<rparr> (c, t) = Ok () (c', t')"
    using s by (auto simp: sample_control_eval control_eval hm_has_def)
  ultimately show ?thesis
    using control_forgets_pending [of list_lru c "sample_peer_id 5" _ "[(3, 2)]" "[]" Halted
        counting_timer t c' t'] s by simp
qed

text \<open>A multicast can be served by the result of an older unicast query. The unicast to a target is
  resolved early by another query's progress; a multicast to three peers then starts a second query
  for the same target; the end of the first query, asked for one peer, is taken for the second: the
  message goes to one peer only and is dropped from the table.\<close>

theorem control_short_multicast:
  "let c = fst (control_run list_lru counting_timer
      [CUnicast (sample_peer_id 5) (1 :: nat),
       CResult \<lparr>qr_status = Progress, qr_target = sample_peer_id 9, qr_closest = [sample_known 5]\<rparr>,
       CMulticast (sample_peer_id 5) 3 2,
       CResult \<lparr>qr_status = Converge, qr_target = sample_peer_id 5, qr_closest = [sample_known 5]\<rparr>]
      (control_new [] open_sink open_sink, 0))
   in sent (ct_peer c) = [(sample_peer_id 5, 1), (sample_peer_id 5, 3)] \<and>
     sent (ct_net c) = [SendTo 5 1, SendEach [5] 2] \<and> ct_multicasts c = [] \<and> ct_pending c = []"
  by (simp add: control_eval hm_has_def sample_known_def)

end
