(* ===== verification/Unreplicated.thy ===== *)
theory Unreplicated
  imports Net Timers
begin

text \<open>
  \<open>src/src/unreplicated.rs\<close>: the client and the single replica of the unreplicated service, without
  its module \<open>check\<close> (see \<open>Unrep_Check\<close>).

  The nets and the upcall are channels, the timer service is the record \<open>plain_timer\<close> of the two
  operations of the trait \<open>Timer\<close>, the app its function \<open>execute\<close>.

  The lemmas: whatever requests the replica gets, in whatever order and however often, there is one
  log of executed requests (\<open>served\<close>): the state of the app is the log applied to the initial state,
  the sequence numbers of each client increase along it, and every reply is the result that the log
  has for its request.
\<close>

section \<open>Messages and the timer service\<close>

record unrep_reply =
  ur_seq :: u32
  ur_result :: payload

record 't plain_timer =
  pt_set :: "duration \<Rightarrow> 't \<Rightarrow> (timer_id, 't) outcome"
  pt_unset :: "timer_id \<Rightarrow> 't \<Rightarrow> (unit, 't) outcome"

section \<open>Client\<close>

record unrep_invoke =
  ui_op :: payload
  ui_resend_timer :: timer_id

record 'a unrep_client =
  uc_id :: u32
  uc_addr :: 'a
  uc_seq :: u32
  uc_invoke :: "unrep_invoke option"
  uc_net :: "(u8 \<times> 'a request) sink"
  uc_upcall :: "(u32 \<times> payload) sink"

definition unrep_client_new ::
  "u32 \<Rightarrow> 'a \<Rightarrow> (u8 \<times> 'a request) sink \<Rightarrow> (u32 \<times> payload) sink \<Rightarrow> 'a unrep_client" where
  "unrep_client_new i addr net upcall =
     \<lparr>uc_id = i, uc_addr = addr, uc_seq = 0, uc_invoke = None, uc_net = net, uc_upcall = upcall\<rparr>"

definition unrep_do_send :: "'a unrep_client \<Rightarrow> (unit, 'a unrep_client) outcome" where
  "unrep_do_send c =
     (case uc_invoke c of
        None \<Rightarrow> Err (Panic ''called unwrap on a None value'') c
      | Some invoke \<Rightarrow>
          lift_outcome (\<lambda>n. c\<lparr>uc_net := n\<rparr>)
            (push_sink
               (0, \<lparr>rq_client_id = uc_id c, rq_client_addr = uc_addr c, rq_seq = uc_seq c,
                    rq_op = ui_op invoke\<rparr>)
               (uc_net c)))"

definition unrep_on_invoke ::
  "'t plain_timer \<Rightarrow> payload \<Rightarrow> 'a unrep_client \<times> 't \<Rightarrow> (unit, 'a unrep_client \<times> 't) outcome" where
  "unrep_on_invoke timer op s =
     (case s of (c, t) \<Rightarrow>
        if uc_invoke c \<noteq> None then Err (Bail ''concurrent invocation'') (c, t)
        else
          let c1 = c\<lparr>uc_seq := uc_seq c + 1\<rparr> in
          and_then (lift_outcome (Pair c1) (pt_set timer 1000 t)) (\<lambda>resend_timer (c1, t').
            lift_outcome (\<lambda>c. (c, t'))
              (unrep_do_send
                (c1\<lparr>uc_invoke := Some \<lparr>ui_op = op, ui_resend_timer = resend_timer\<rparr>\<rparr>))))"

definition unrep_client_on_timer ::
  "timer_id \<Rightarrow> 'a unrep_client \<Rightarrow> (unit, 'a unrep_client) outcome" where
  "unrep_client_on_timer timer_id c =
     (case uc_invoke c of
        None \<Rightarrow> Err (Panic ''called unwrap on a None value'') c
      | Some invoke \<Rightarrow>
          if ui_resend_timer invoke \<noteq> timer_id then Err (Panic ''assertion failed'') c
          else unrep_do_send c)"

definition unrep_on_reply ::
  "'t plain_timer \<Rightarrow> unrep_reply \<Rightarrow> 'a unrep_client \<times> 't \<Rightarrow>
   (unit, 'a unrep_client \<times> 't) outcome" where
  "unrep_on_reply timer reply s =
     (case s of (c, t) \<Rightarrow>
        if ur_seq reply \<noteq> uc_seq c then Ok () (c, t)
        else case uc_invoke c of
            None \<Rightarrow> Ok () (c, t)
          | Some invoke \<Rightarrow>
              let c1 = c\<lparr>uc_invoke := None\<rparr> in
              and_then (lift_outcome (Pair c1) (pt_unset timer (ui_resend_timer invoke) t))
                (\<lambda>_ (c1, t'). lift_outcome (\<lambda>u. (c1\<lparr>uc_upcall := u\<rparr>, t'))
                   (push_sink (uc_id c1, ur_result reply) (uc_upcall c1))))"

datatype unrep_client_event = UInvoke payload | UClientIngress unrep_reply

fun unrep_client_on_event ::
  "'t plain_timer \<Rightarrow> unrep_client_event \<Rightarrow> 'a unrep_client \<times> 't \<Rightarrow>
   (unit, 'a unrep_client \<times> 't) outcome" where
  "unrep_client_on_event timer (UInvoke op) s = unrep_on_invoke timer op s"
| "unrep_client_on_event timer (UClientIngress reply) s = unrep_on_reply timer reply s"

definition unrep_to_client_on_buf ::
  "(bytes \<Rightarrow> error + unrep_reply) \<Rightarrow> bytes \<Rightarrow> unrep_client_event sink \<Rightarrow>
   (unit, unrep_client_event sink) outcome" where
  "unrep_to_client_on_buf de buf sender =
     (case de buf of Inl e \<Rightarrow> Err e sender | Inr m \<Rightarrow> push_sink (UClientIngress m) sender)"

section \<open>Replica\<close>

record ('a, 'app) unrep_replica =
  urep_replies :: "(u32, unrep_reply) hmap"
  urep_app :: 'app
  urep_net :: "('a \<times> unrep_reply) sink"

definition unrep_replica_new :: "'app \<Rightarrow> ('a \<times> unrep_reply) sink \<Rightarrow> ('a, 'app) unrep_replica" where
  "unrep_replica_new app net = \<lparr>urep_replies = [], urep_app = app, urep_net = net\<rparr>"

definition unrep_reply_to ::
  "'a \<Rightarrow> unrep_reply \<Rightarrow> ('a, 'app) unrep_replica \<Rightarrow> (unit, ('a, 'app) unrep_replica) outcome" where
  "unrep_reply_to addr reply r =
     lift_outcome (\<lambda>n. r\<lparr>urep_net := n\<rparr>) (push_sink (addr, reply) (urep_net r))"

definition unrep_on_request ::
  "(payload \<Rightarrow> 'app \<Rightarrow> (payload, 'app) outcome) \<Rightarrow> 'a request \<Rightarrow> ('a, 'app) unrep_replica \<Rightarrow>
   (unit, ('a, 'app) unrep_replica) outcome" where
  "unrep_on_request execute request r =
     (let run =
        and_then (lift_outcome (\<lambda>a. r\<lparr>urep_app := a\<rparr>) (execute (rq_op request) (urep_app r)))
          (\<lambda>result r1.
            let reply = \<lparr>ur_seq = rq_seq request, ur_result = result\<rparr> in
            unrep_reply_to (rq_client_addr request) reply
              (r1\<lparr>urep_replies := hm_insert (rq_client_id request) reply (urep_replies r1)\<rparr>))
      in case hm_get (urep_replies r) (rq_client_id request) of
           Some reply \<Rightarrow>
             if rq_seq request < ur_seq reply then Ok () r
             else if ur_seq reply = rq_seq request then
               unrep_reply_to (rq_client_addr request) reply r
             else run
         | None \<Rightarrow> run)"

datatype 'a unrep_replica_event = UIngress "'a request" | Dummy

fun unrep_replica_on_event ::
  "(payload \<Rightarrow> 'app \<Rightarrow> (payload, 'app) outcome) \<Rightarrow> 'a unrep_replica_event \<Rightarrow>
   ('a, 'app) unrep_replica \<Rightarrow> (unit, ('a, 'app) unrep_replica) outcome" where
  "unrep_replica_on_event execute (UIngress request) r = unrep_on_request execute request r"
| "unrep_replica_on_event execute Dummy r =
     Err (Panic ''internal error: entered unreachable code'') r"

definition unrep_replica_on_timer ::
  "timer_id \<Rightarrow> ('a, 'app) unrep_replica \<Rightarrow> (unit, ('a, 'app) unrep_replica) outcome" where
  "unrep_replica_on_timer i r = Err (Panic ''internal error: entered unreachable code'') r"

definition unrep_to_replica_on_buf ::
  "(bytes \<Rightarrow> error + 'a request) \<Rightarrow> bytes \<Rightarrow> 'a unrep_replica_event sink \<Rightarrow>
   (unit, 'a unrep_replica_event sink) outcome" where
  "unrep_to_replica_on_buf de buf sender =
     (case de buf of Inl e \<Rightarrow> Err e sender | Inr m \<Rightarrow> push_sink (UIngress m) sender)"

text \<open>A run of the replica.\<close>

fun unrep_requests ::
  "(payload \<Rightarrow> 'app \<Rightarrow> (payload, 'app) outcome) \<Rightarrow> 'a request list \<Rightarrow> ('a, 'app) unrep_replica \<Rightarrow>
   (unit, ('a, 'app) unrep_replica) outcome" where
  "unrep_requests execute [] r = Ok () r"
| "unrep_requests execute (rq # rqs) r =
     and_then (unrep_replica_on_event execute (UIngress rq) r) (\<lambda>_. unrep_requests execute rqs)"

section \<open>The log of a replica\<close>

text \<open>The operations one after the other, with their results.\<close>

fun apply_ops ::
  "(payload \<Rightarrow> 'app \<Rightarrow> (payload, 'app) outcome) \<Rightarrow> payload list \<Rightarrow> 'app \<Rightarrow>
   (payload list, 'app) outcome" where
  "apply_ops execute [] app = Ok [] app"
| "apply_ops execute (op # ops) app =
     and_then (execute op app) (\<lambda>result app.
       and_then (apply_ops execute ops app) (\<lambda>results. Ok (result # results)))"

lemma apply_ops_snoc:
  assumes "apply_ops execute ops app = Ok results app'" and "execute op app' = Ok result app''"
  shows "apply_ops execute (ops @ [op]) app = Ok (results @ [result]) app''"
  using assms
proof (induction ops arbitrary: app results)
  case (Cons o1 ops)
  then obtain r1 app1 rs where "execute o1 app = Ok r1 app1" "apply_ops execute ops app1 = Ok rs app'"
    "results = r1 # rs" by (auto simp: and_then_Ok_iff)
  with Cons.IH [of app1 rs] Cons.prems(2) show ?case by simp
qed simp

type_synonym 'a unrep_log = "('a request \<times> payload) list"

definition logged_for :: "u32 \<Rightarrow> 'a unrep_log \<Rightarrow> 'a unrep_log" where
  "logged_for i log = filter (\<lambda>(rq, _). rq_client_id rq = i) log"

definition log_reply :: "'a request \<times> payload \<Rightarrow> unrep_reply" where
  "log_reply x = \<lparr>ur_seq = rq_seq (fst x), ur_result = snd x\<rparr>"

definition last_logged :: "u32 \<Rightarrow> 'a unrep_log \<Rightarrow> unrep_reply option" where
  "last_logged i log =
     (if logged_for i log = [] then None else Some (log_reply (last (logged_for i log))))"

definition served ::
  "(payload \<Rightarrow> 'app \<Rightarrow> (payload, 'app) outcome) \<Rightarrow> 'app \<Rightarrow> 'a unrep_log \<Rightarrow>
   ('a, 'app) unrep_replica \<Rightarrow> bool" where
  "served execute app0 log r \<longleftrightarrow>
     apply_ops execute (map (rq_op \<circ> fst) log) app0 = Ok (map snd log) (urep_app r) \<and>
     (\<forall>i. hm_get (urep_replies r) i = last_logged i log) \<and>
     (\<forall>i. sorted_wrt (<) (map (rq_seq \<circ> fst) (logged_for i log)))"

lemma logged_for_simps [simp]:
  "logged_for i [] = []"
  "logged_for i (log @ [(rq, result)]) =
     logged_for i log @ (if rq_client_id rq = i then [(rq, result)] else [])"
  by (simp_all add: logged_for_def)

lemma logged_for_mem: "x \<in> set (logged_for i log) \<longleftrightarrow> x \<in> set log \<and> rq_client_id (fst x) = i"
  by (auto simp: logged_for_def)

lemma sorted_wrt_last:
  "sorted_wrt (<) (xs :: 'k::order list) \<Longrightarrow> x \<in> set xs \<Longrightarrow> x \<le> last xs"
  by (induction xs) (auto simp: less_imp_le)

lemma last_logged_Some:
  assumes "last_logged i log = Some reply"
  shows "\<exists>rq. (rq, ur_result reply) \<in> set log \<and> rq_client_id rq = i \<and> rq_seq rq = ur_seq reply"
proof -
  from assms have "last (logged_for i log) \<in> set (logged_for i log)"
    and r: "reply = log_reply (last (logged_for i log))"
    by (auto simp: last_logged_def split: if_splits)
  then show ?thesis
    by (intro exI [of _ "fst (last (logged_for i log))"]) (simp add: logged_for_mem log_reply_def)
qed

text \<open>A request either is in the log already or is appended to it.\<close>

lemma served_request:
  assumes "served execute app0 log r" and "unrep_on_request execute rq r = Ok () r'"
  obtains (old) reply where "hm_get (urep_replies r) (rq_client_id rq) = Some reply"
      "rq_seq rq < ur_seq reply" "r' = r"
  | (again) reply where "hm_get (urep_replies r) (rq_client_id rq) = Some reply"
      "rq_seq rq = ur_seq reply"
      "r' = r\<lparr>urep_net := (urep_net r)\<lparr>sent := sent (urep_net r) @ [(rq_client_addr rq, reply)]\<rparr>\<rparr>"
  | (executed) result where "served execute app0 (log @ [(rq, result)]) r'"
      "case hm_get (urep_replies r) (rq_client_id rq) of
         None \<Rightarrow> True | Some reply \<Rightarrow> ur_seq reply < rq_seq rq"
      "urep_net r' = (urep_net r)\<lparr>sent := sent (urep_net r) @
         [(rq_client_addr rq, \<lparr>ur_seq = rq_seq rq, ur_result = result\<rparr>)]\<rparr>"
proof (cases "case hm_get (urep_replies r) (rq_client_id rq) of
    None \<Rightarrow> True | Some reply \<Rightarrow> ur_seq reply < rq_seq rq")
  case False
  with assms(2) old again show thesis
    by (auto simp: unrep_on_request_def unrep_reply_to_def Let_def not_less order.order_iff_strict
        split: option.splits if_splits)
next
  case True
  then have "and_then (lift_outcome (\<lambda>a. r\<lparr>urep_app := a\<rparr>) (execute (rq_op rq) (urep_app r)))
      (\<lambda>result r1. unrep_reply_to (rq_client_addr rq) \<lparr>ur_seq = rq_seq rq, ur_result = result\<rparr>
        (r1\<lparr>urep_replies := hm_insert (rq_client_id rq) \<lparr>ur_seq = rq_seq rq, ur_result = result\<rparr>
          (urep_replies r1)\<rparr>)) = Ok () r'"
    using assms(2)
    by (cases "hm_get (urep_replies r) (rq_client_id rq)")
      (auto simp: unrep_on_request_def Let_def dest: order.asym split: if_splits)
  then obtain result app' where run: "execute (rq_op rq) (urep_app r) = Ok result app'"
    "r' = r\<lparr>urep_app := app',
      urep_replies := hm_insert (rq_client_id rq) \<lparr>ur_seq = rq_seq rq, ur_result = result\<rparr> (urep_replies r),
      urep_net := (urep_net r)\<lparr>sent := sent (urep_net r) @
         [(rq_client_addr rq, \<lparr>ur_seq = rq_seq rq, ur_result = result\<rparr>)]\<rparr>\<rparr>"
    by (auto simp: and_then_Ok_iff lift_outcome_Ok_iff unrep_reply_to_def split: if_splits)
  let ?log = "log @ [(rq, result)]"
  have "\<forall>i. last_logged i ?log =
      (if i = rq_client_id rq then Some \<lparr>ur_seq = rq_seq rq, ur_result = result\<rparr> else last_logged i log)"
    by (auto simp: last_logged_def log_reply_def)
  moreover have "sorted_wrt (<) (map (rq_seq \<circ> fst) (logged_for i ?log))" for i
  proof -
    have s: "sorted_wrt (<) (map (rq_seq \<circ> fst) (logged_for i log))"
      and g: "hm_get (urep_replies r) i = last_logged i log"
      using assms(1) by (simp_all add: served_def)
    have "\<forall>x\<in>set (logged_for i log). rq_seq (fst x) < rq_seq rq" if i: "rq_client_id rq = i"
    proof
      fix x
      assume x: "x \<in> set (logged_for i log)"
      then have n: "logged_for i log \<noteq> []" by auto
      then have "rq_seq (fst (last (logged_for i log))) < rq_seq rq"
        using True g i by (simp add: last_logged_def log_reply_def)
      moreover have "rq_seq (fst x) \<le> rq_seq (fst (last (logged_for i log)))"
        using sorted_wrt_last [OF s, of "rq_seq (fst x)"] x n by (auto simp: last_map)
      ultimately show "rq_seq (fst x) < rq_seq rq" by simp
    qed
    with s show ?thesis by (auto simp: sorted_wrt_append)
  qed
  ultimately have "served execute app0 ?log r'"
    using assms(1) apply_ops_snoc [of execute "map (rq_op \<circ> fst) log" app0 "map snd log" "urep_app r"
        "rq_op rq" result app'] run
    by (auto simp: served_def)
  with True run(2) executed show thesis by simp
qed

lemma served_new: "served execute app [] (unrep_replica_new app net)"
  by (simp add: served_def unrep_replica_new_def last_logged_def)

text \<open>
  The replies a replica has sent answer one of the requests \<open>rqs\<close>, with the result of the log for the
  same client and sequence number.
\<close>

definition replies_logged :: "'a request set \<Rightarrow> 'a unrep_log \<Rightarrow> ('a, 'app) unrep_replica \<Rightarrow> bool" where
  "replies_logged rqs log r \<longleftrightarrow>
     (\<forall>x\<in>set (sent (urep_net r)). \<exists>rq\<in>rqs. rq_client_addr rq = fst x \<and> rq_seq rq = ur_seq (snd x) \<and>
        (\<exists>y\<in>set log. rq_client_id (fst y) = rq_client_id rq \<and> rq_seq (fst y) = rq_seq rq \<and>
           snd y = ur_result (snd x)))"

definition logged_since :: "'a unrep_log \<Rightarrow> 'a request \<Rightarrow> bool" where
  "logged_since log rq \<longleftrightarrow>
     (\<exists>x\<in>set log. rq_client_id (fst x) = rq_client_id rq \<and> rq_seq rq \<le> rq_seq (fst x))"

lemma replies_logged_mono:
  "replies_logged rqs log r \<Longrightarrow> rqs \<subseteq> rqs' \<Longrightarrow> replies_logged rqs' log r"
  by (fastforce simp: replies_logged_def)

lemma served_requests:
  assumes "served execute app0 log r" and "replies_logged seen log r"
    and "unrep_requests execute rqs r = Ok () r'"
  shows "\<exists>log'. served execute app0 (log @ log') r' \<and> replies_logged (seen \<union> set rqs) (log @ log') r' \<and>
    fst ` set log' \<subseteq> set rqs \<and> list_all (logged_since (log @ log')) rqs"
  using assms
proof (induction rqs arbitrary: log r seen)
  case Nil
  then show ?case by (intro exI [of _ "[]"]) simp
next
  case (Cons rq rqs)
  then obtain r1 where r1: "unrep_on_request execute rq r = Ok () r1"
    "unrep_requests execute rqs r1 = Ok () r'" by (auto simp: and_then_Ok_iff)
  have g: "hm_get (urep_replies r) (rq_client_id rq) = last_logged (rq_client_id rq) log"
    using Cons.prems(1) by (simp add: served_def)
  have "\<exists>new. served execute app0 (log @ new) r1 \<and> replies_logged (insert rq seen) (log @ new) r1 \<and>
    fst ` set new \<subseteq> {rq} \<and> logged_since (log @ new) rq"
    using Cons.prems(1) r1(1)
  proof (cases rule: served_request)
    case (old reply)
    with last_logged_Some [of "rq_client_id rq" log reply] g
    have "logged_since log rq" by (force simp: logged_since_def)
    with old Cons.prems(1) replies_logged_mono [OF Cons.prems(2) subset_insertI] show ?thesis
      by (intro exI [of _ "[]"]) simp
  next
    case (again reply)
    with last_logged_Some [of "rq_client_id rq" log reply] g obtain y where
      y: "y \<in> set log" "rq_client_id (fst y) = rq_client_id rq" "rq_seq (fst y) = rq_seq rq"
      "snd y = ur_result reply" by force
    then have "logged_since log rq" by (auto simp: logged_since_def)
    moreover have "replies_logged (insert rq seen) log r1"
      using replies_logged_mono [OF Cons.prems(2) subset_insertI [of seen rq]] again y
      by (auto simp: replies_logged_def)
    moreover have "served execute app0 log r1" using Cons.prems(1) again by (simp add: served_def)
    ultimately show ?thesis by (intro exI [of _ "[]"]) simp
  next
    case (executed result)
    have "replies_logged (insert rq seen) (log @ [(rq, result)]) r1"
      using Cons.prems(2) executed(3) unfolding replies_logged_def by fastforce
    with executed(1) show ?thesis
      by (intro exI [of _ "[(rq, result)]"]) (simp add: logged_since_def)
  qed
  then obtain new where new: "served execute app0 (log @ new) r1"
    "replies_logged (insert rq seen) (log @ new) r1"
    "fst ` set new \<subseteq> {rq}" "logged_since (log @ new) rq" by blast
  from Cons.IH [OF new(1,2) r1(2)] obtain log' where
    "served execute app0 ((log @ new) @ log') r'"
    "replies_logged (insert rq seen \<union> set rqs) ((log @ new) @ log') r'"
    "fst ` set log' \<subseteq> set rqs" "list_all (logged_since ((log @ new) @ log')) rqs" by blast
  moreover have "logged_since ((log @ new) @ log') rq" using new(4) by (auto simp: logged_since_def)
  ultimately show ?case using new(3) by (intro exI [of _ "new @ log'"]) auto
qed

section \<open>The property\<close>

text \<open>C14: Whatever requests the replica of the unreplicated service handles, in whatever order and with
  whatever repetitions: there is a log of some of them, with results, such that the app is in the
  state after the log, the requests of each client are executed at most once each and with
  increasing sequence numbers (\<open>served\<close>), every reply goes to the address of a request that was
  received and carries the result that the log has for its client and sequence number
  (\<open>replies_logged\<close>), and every request is in the log or not newer than a request of its client in it
  (\<open>logged_since\<close>).
\<close>

theorem unrep_at_most_once:
  assumes "unrep_requests execute rqs (unrep_replica_new app0 open_sink) = Ok () r"
  shows "\<exists>log. served execute app0 log r \<and> fst ` set log \<subseteq> set rqs \<and>
    replies_logged (set rqs) log r \<and> list_all (logged_since log) rqs"
proof -
  have "replies_logged {} [] (unrep_replica_new app0 open_sink :: ('a, 'b) unrep_replica)"
    by (simp add: replies_logged_def unrep_replica_new_def open_sink_def)
  from served_requests [OF served_new this assms] show ?thesis by auto
qed

text \<open>Three requests of a client and one of another, one of them twice; the app counts.\<close>

definition sample_unrep_request :: "u32 \<Rightarrow> u32 \<Rightarrow> unit request" where
  "sample_unrep_request i seq = \<lparr>rq_client_id = i, rq_client_addr = (), rq_seq = seq, rq_op = []\<rparr>"

definition count_execute :: "payload \<Rightarrow> nat \<Rightarrow> (payload, nat) outcome" where
  "count_execute op n = Ok [of_nat n] (Suc n)"

theorem unrep_at_most_once_witness:
  "\<exists>log r. unrep_requests count_execute
      [sample_unrep_request 1 1, sample_unrep_request 1 1, sample_unrep_request 2 1, sample_unrep_request 1 2, sample_unrep_request 1 1]
      (unrep_replica_new 0 open_sink) = Ok () r \<and>
    served count_execute 0 log r \<and> urep_app r = 3 \<and>
    map (ur_result \<circ> snd) (sent (urep_net r)) = [[0], [0], [1], [2]]"
proof -
  let ?run = "unrep_requests count_execute
      [sample_unrep_request 1 1, sample_unrep_request 1 1, sample_unrep_request 2 1, sample_unrep_request 1 2, sample_unrep_request 1 1]
      (unrep_replica_new 0 open_sink)"
  have run: "?run = Ok () (after ?run) \<and> urep_app (after ?run) = 3 \<and>
    map (ur_result \<circ> snd) (sent (urep_net (after ?run))) = [[0], [0], [1], [2]]"
    by (simp add: unrep_on_request_def unrep_replica_new_def unrep_reply_to_def sample_unrep_request_def
        count_execute_def open_sink_def Let_def)
  with unrep_at_most_once [of count_execute _ 0 "after ?run"] show ?thesis by metis
qed

end
