(* ===== verification/Workloads.thy ===== *)
theory Workloads
  imports Net Timers
begin

text \<open>
  \<open>src/src/workload.rs\<close>: the trait \<open>Workload\<close> as a record of its two methods, the combinators
  \<open>Iter\<close>, \<open>OpLatency\<close>, \<open>Recorded\<close>, \<open>Total\<close> and \<open>Check\<close>, and \<open>CloseLoop\<close>, which sends one
  operation after the other.

  \<open>Instant::now()\<close> is the argument \<open>now\<close> of both methods. The callback \<open>stop\<close> is a value; calling
  it records it on the channel \<open>cl_stopped\<close>. The counter of \<open>Total\<close> is atomic: the values its failed
  exchanges read are an argument.

  The locale \<open>scripted\<close> is what \<open>CloseLoop\<close> relies on: a workload that hands out the operations of a
  script and takes their results. In it, a closed loop sends exactly the script, in order, and is
  done after the last result. \<open>Iter\<close>, \<open>Recorded\<close> and \<open>Check\<close> interpret it.
\<close>

section \<open>The trait and its combinators\<close>

record ('w, 'at) workload =
  wl_next :: "instant \<Rightarrow> 'w \<Rightarrow> ((payload \<times> 'at) option, 'w) outcome"
  wl_result :: "instant \<Rightarrow> payload \<Rightarrow> 'at \<Rightarrow> 'w \<Rightarrow> (unit, 'w) outcome"

text \<open>An \<open>Iterator\<close> is its state with the function \<open>next\<close>; a list is one.\<close>

type_synonym ('x, 'i) iterator = "'i \<Rightarrow> ('x \<times> 'i) option"

fun list_iterator :: "('x, 'x list) iterator" where
  "list_iterator [] = None"
| "list_iterator (x # xs) = Some (x, xs)"

definition iter_next ::
  "(payload, 'i) iterator \<Rightarrow> instant \<Rightarrow> 'i \<Rightarrow> ((payload \<times> unit) option, 'i) outcome" where
  "iter_next it now i =
     (case it i of None \<Rightarrow> Ok None i | Some (op, i') \<Rightarrow> Ok (Some (op, ())) i')"

definition iter_result :: "instant \<Rightarrow> payload \<Rightarrow> unit \<Rightarrow> 'i \<Rightarrow> (unit, 'i) outcome" where
  "iter_result now result attach i = Ok () i"

definition iter_workload :: "(payload, 'i) iterator \<Rightarrow> ('i, unit) workload" where
  "iter_workload it = \<lparr>wl_next = iter_next it, wl_result = iter_result\<rparr>"

record 'w op_latency =
  ol_inner :: 'w
  ol_latencies :: "duration list"

definition op_latency_new :: "'w \<Rightarrow> 'w op_latency" where
  "op_latency_new w = \<lparr>ol_inner = w, ol_latencies = []\<rparr>"

definition op_latency_workload ::
  "('w, 'at) workload \<Rightarrow> ('w op_latency, instant \<times> 'at) workload" where
  "op_latency_workload wl =
     \<lparr>wl_next = (\<lambda>now w.
        and_then (lift_outcome (\<lambda>i. w\<lparr>ol_inner := i\<rparr>) (wl_next wl now (ol_inner w)))
          (\<lambda>r. Ok (map_option (\<lambda>(op, attach). (op, (now, attach))) r))),
      wl_result = (\<lambda>now result (start, attach) w.
        let w1 = w\<lparr>ol_latencies := ol_latencies w @ [now - start]\<rparr> in
        lift_outcome (\<lambda>i. w1\<lparr>ol_inner := i\<rparr>) (wl_result wl now result attach (ol_inner w1)))\<rparr>"

record 'w recorded =
  rec_inner :: 'w
  rec_invocations :: "(payload \<times> payload) list"

definition recorded_new :: "'w \<Rightarrow> 'w recorded" where
  "recorded_new w = \<lparr>rec_inner = w, rec_invocations = []\<rparr>"

definition recorded_workload ::
  "('w, 'at) workload \<Rightarrow> ('w recorded, payload \<times> 'at) workload" where
  "recorded_workload wl =
     \<lparr>wl_next = (\<lambda>now w.
        and_then (lift_outcome (\<lambda>i. w\<lparr>rec_inner := i\<rparr>) (wl_next wl now (rec_inner w)))
          (\<lambda>r. Ok (map_option (\<lambda>(op, attach). (op, (op, attach))) r))),
      wl_result = (\<lambda>now result (op, attach) w.
        let w1 = w\<lparr>rec_invocations := rec_invocations w @ [(op, result)]\<rparr> in
        lift_outcome (\<lambda>i. w1\<lparr>rec_inner := i\<rparr>) (wl_result wl now result attach (rec_inner w1)))\<rparr>"

text \<open>
  \<open>Total\<close>: the loop reloads the counter when its exchange fails; \<open>fails\<close> are the values read then.
  \<open>Some n\<close> is the value a successful exchange replaced by \<open>n - 1\<close>.
\<close>

fun total_take :: "u32 list \<Rightarrow> u32 \<Rightarrow> u32 option" where
  "total_take [] remain_count = (if remain_count = 0 then None else Some remain_count)"
| "total_take (n # fails) remain_count =
     (if remain_count = 0 then None else total_take fails n)"

record 'w total =
  tot_inner :: 'w
  tot_remain_count :: u32

definition total_new :: "'w \<Rightarrow> u32 \<Rightarrow> 'w total" where
  "total_new w n = \<lparr>tot_inner = w, tot_remain_count = n\<rparr>"

definition total_next ::
  "('w, 'at) workload \<Rightarrow> u32 list \<Rightarrow> instant \<Rightarrow> 'w total \<Rightarrow>
   ((payload \<times> 'at) option, 'w total) outcome" where
  "total_next wl fails now w =
     (case total_take fails (tot_remain_count w) of
        None \<Rightarrow> Ok None w
      | Some n \<Rightarrow>
          let w1 = w\<lparr>tot_remain_count := n - 1\<rparr> in
          lift_outcome (\<lambda>i. w1\<lparr>tot_inner := i\<rparr>) (wl_next wl now (tot_inner w1)))"

definition total_workload :: "('w, 'at) workload \<Rightarrow> ('w total, 'at) workload" where
  "total_workload wl =
     \<lparr>wl_next = total_next wl [],
      wl_result = (\<lambda>now result attach w.
        lift_outcome (\<lambda>i. w\<lparr>tot_inner := i\<rparr>) (wl_result wl now result attach (tot_inner w)))\<rparr>"

record 'i check =
  ck_inner :: 'i
  ck_expected :: "payload option"

definition check_new :: "'i \<Rightarrow> 'i check" where
  "check_new i = \<lparr>ck_inner = i, ck_expected = None\<rparr>"

definition check_next ::
  "(payload \<times> payload, 'i) iterator \<Rightarrow> instant \<Rightarrow> 'i check \<Rightarrow>
   ((payload \<times> unit) option, 'i check) outcome" where
  "check_next it now w =
     (case it (ck_inner w) of
        None \<Rightarrow> Ok None w
      | Some ((op, expected_result), i) \<Rightarrow>
          let w1 = w\<lparr>ck_inner := i, ck_expected := Some expected_result\<rparr> in
          if ck_expected w \<noteq> None then Err (Bail ''only support close loop'') w1
          else Ok (Some (op, ())) w1)"

definition check_result ::
  "instant \<Rightarrow> payload \<Rightarrow> unit \<Rightarrow> 'i check \<Rightarrow> (unit, 'i check) outcome" where
  "check_result now result attach w =
     (case ck_expected w of
        None \<Rightarrow> Err (Bail ''missing invocation'') w
      | Some expected_result \<Rightarrow>
          let w1 = w\<lparr>ck_expected := None\<rparr> in
          if result = expected_result then Ok () w1
          else Err (Bail ''UnexpectedResult'') w1)"

definition check_workload :: "(payload \<times> payload, 'i) iterator \<Rightarrow> ('i check, unit) workload" where
  "check_workload it = \<lparr>wl_next = check_next it, wl_result = check_result\<rparr>"

section \<open>CloseLoop\<close>

record ('w, 'at, 'f) close_loop =
  cl_sender :: "payload sink"
  cl_workload :: 'w
  cl_attach :: "'at option"
  cl_stop :: "'f option"
  cl_done :: bool
  cl_stopped :: "'f sink"

definition close_loop_new :: "payload sink \<Rightarrow> 'w \<Rightarrow> 'f sink \<Rightarrow> ('w, 'at, 'f) close_loop" where
  "close_loop_new sender w stopped =
     \<lparr>cl_sender = sender, cl_workload = w, cl_attach = None, cl_stop = None, cl_done = False,
      cl_stopped = stopped\<rparr>"

definition close_loop_clone ::
  "('w, 'at, 'f) close_loop \<Rightarrow> error + ('w, 'at, 'f) close_loop" where
  "close_loop_clone l =
     (if cl_stop l \<noteq> None then Inl (Panic ''cannot clone CloseLoop with some `stop`'')
      else Inr (l\<lparr>cl_stop := None\<rparr>))"

definition close_loop_send :: "payload \<Rightarrow> ('w, 'at, 'f) close_loop \<Rightarrow> (unit, ('w, 'at, 'f) close_loop) outcome" where
  "close_loop_send op l = lift_outcome (\<lambda>c. l\<lparr>cl_sender := c\<rparr>) (push_sink op (cl_sender l))"

definition on_init ::
  "('w, 'at) workload \<Rightarrow> instant \<Rightarrow> ('w, 'at, 'f) close_loop \<Rightarrow>
   (unit, ('w, 'at, 'f) close_loop) outcome" where
  "on_init wl now l =
     and_then (lift_outcome (\<lambda>w. l\<lparr>cl_workload := w\<rparr>) (wl_next wl now (cl_workload l)))
       (\<lambda>next l1.
         case next of
           None \<Rightarrow> Err (Bail ''not enough op'') l1
         | Some (op, attach) \<Rightarrow>
             let l2 = l1\<lparr>cl_attach := Some attach\<rparr> in
             if cl_attach l1 \<noteq> None then Err (Bail ''duplicated launch'') l2
             else close_loop_send op l2)"

definition on_invoke_ok ::
  "('w, 'at) workload \<Rightarrow> instant \<Rightarrow> payload \<Rightarrow> ('w, 'at, 'f) close_loop \<Rightarrow>
   (unit, ('w, 'at, 'f) close_loop) outcome" where
  "on_invoke_ok wl now result l =
     (case cl_attach l of
        None \<Rightarrow> Err (Bail ''missing workload attach'') l
      | Some attach \<Rightarrow>
          let l1 = l\<lparr>cl_attach := None\<rparr> in
          and_then (lift_outcome (\<lambda>w. l1\<lparr>cl_workload := w\<rparr>)
              (wl_result wl now result attach (cl_workload l1))) (\<lambda>_ l2.
          and_then (lift_outcome (\<lambda>w. l2\<lparr>cl_workload := w\<rparr>) (wl_next wl now (cl_workload l2)))
            (\<lambda>next l3.
              case next of
                Some (op, attach) \<Rightarrow> close_loop_send op (l3\<lparr>cl_attach := Some attach\<rparr>)
              | None \<Rightarrow>
                  let l4 = l3\<lparr>cl_done := True\<rparr> in
                  case cl_stop l4 of
                    None \<Rightarrow> Ok () l4
                  | Some stop \<Rightarrow>
                      lift_outcome (\<lambda>c. l4\<lparr>cl_stop := None, cl_stopped := c\<rparr>)
                        (push_sink stop (cl_stopped l4)))))"

text \<open>\<open>OnTimer\<close> is \<open>unreachable!\<close>: the loop sets no timer.\<close>

definition close_loop_on_timer ::
  "timer_id \<Rightarrow> ('w, 'at, 'f) close_loop \<Rightarrow> (unit, ('w, 'at, 'f) close_loop) outcome" where
  "close_loop_on_timer i l = Err (Panic ''internal error: entered unreachable code'') l"

text \<open>Results that arrive one after the other.\<close>

fun close_loop_results ::
  "('w, 'at) workload \<Rightarrow> (instant \<times> payload) list \<Rightarrow> ('w, 'at, 'f) close_loop \<Rightarrow>
   (unit, ('w, 'at, 'f) close_loop) outcome" where
  "close_loop_results wl [] l = Ok () l"
| "close_loop_results wl ((now, result) # rs) l =
     and_then (on_invoke_ok wl now result l) (\<lambda>_. close_loop_results wl rs)"

section \<open>Scripted workloads\<close>

text \<open>
  \<open>script w\<close> are the operations to come, \<open>given w at\<close> that the operation of attachment \<open>at\<close> is
  outstanding, and \<open>takes w result\<close> that its result is acceptable.
\<close>

locale scripted =
  fixes wl :: "('w, 'at) workload"
    and script :: "'w \<Rightarrow> payload list"
    and idle :: "'w \<Rightarrow> bool"
    and given :: "'w \<Rightarrow> 'at \<Rightarrow> bool"
    and takes :: "'w \<Rightarrow> payload \<Rightarrow> bool"
  assumes next_op: "\<lbrakk>idle w; script w = op # ops\<rbrakk> \<Longrightarrow>
      \<exists>at w'. wl_next wl now w = Ok (Some (op, at)) w' \<and> script w' = ops \<and> given w' at"
    and next_none: "\<lbrakk>idle w; script w = []\<rbrakk> \<Longrightarrow>
      \<exists>w'. wl_next wl now w = Ok None w' \<and> script w' = [] \<and> idle w'"
    and result_ok: "\<lbrakk>given w at; takes w result\<rbrakk> \<Longrightarrow>
      \<exists>w'. wl_result wl now result at w = Ok () w' \<and> script w' = script w \<and> idle w'"
begin

definition waiting :: "('w, 'at, 'f) close_loop \<Rightarrow> bool" where
  "waiting l \<longleftrightarrow> (\<exists>at. cl_attach l = Some at \<and> given (cl_workload l) at) \<and>
     \<not> closed (cl_sender l) \<and> \<not> closed (cl_stopped l) \<and> \<not> cl_done l"

lemma init_waits:
  assumes "idle (cl_workload l)" and "script (cl_workload l) = op # ops" and "cl_attach l = None"
    and "\<not> closed (cl_sender l)" and "\<not> closed (cl_stopped l)" and "\<not> cl_done l"
  obtains l' where "on_init wl now l = Ok () l'" "waiting l'" "script (cl_workload l') = ops"
    "sent (cl_sender l') = sent (cl_sender l) @ [op]"
proof -
  from next_op [OF assms(1,2), of now] obtain at w' where
    "wl_next wl now (cl_workload l) = Ok (Some (op, at)) w'" "script w' = ops" "given w' at" by blast
  with assms that show thesis
    by (simp add: on_init_def close_loop_send_def waiting_def)
qed

text \<open>A result is taken and the next operation sent; without one the loop is done.\<close>

lemma result_sends:
  assumes "waiting l" and "takes (cl_workload l) result"
  obtains l' where "on_invoke_ok wl now result l = Ok () l'"
    "case script (cl_workload l) of
       op # ops \<Rightarrow> waiting l' \<and> script (cl_workload l') = ops \<and>
         sent (cl_sender l') = sent (cl_sender l) @ [op]
     | [] \<Rightarrow> cl_done l' \<and> cl_sender l' = cl_sender l \<and> cl_attach l' = None \<and>
         sent (cl_stopped l') = sent (cl_stopped l) @
           (case cl_stop l of None \<Rightarrow> [] | Some f \<Rightarrow> [f])"
proof -
  from assms(1) obtain at where at: "cl_attach l = Some at" "given (cl_workload l) at"
    by (auto simp: waiting_def)
  from result_ok [OF at(2) assms(2), of now] obtain w where
    w: "wl_result wl now result at (cl_workload l) = Ok () w" "script w = script (cl_workload l)"
    "idle w" by blast
  show thesis
  proof (cases "script (cl_workload l)")
    case Nil
    with next_none [OF w(3), of now] w(2) obtain w' where "wl_next wl now w = Ok None w'" by auto
    with assms(1) at w Nil that show thesis
      by (cases "cl_stop l") (simp_all add: on_invoke_ok_def waiting_def Let_def)
  next
    case (Cons op ops)
    with next_op [OF w(3), of op ops now] w(2) obtain at' w' where
      "wl_next wl now w = Ok (Some (op, at')) w'" "script w' = ops" "given w' at'" by auto
    with assms(1) at w Cons that show thesis
      by (simp add: on_invoke_ok_def close_loop_send_def waiting_def Let_def)
  qed
qed

text \<open>When every result is acceptable, a loop sends the rest of its script and is then done.\<close>

lemma results_send_script:
  assumes "waiting l" and "\<And>w r. takes w r" and "length rs \<le> Suc (length (script (cl_workload l)))"
  shows "\<exists>l'. close_loop_results wl rs l = Ok () l' \<and>
    sent (cl_sender l') = sent (cl_sender l) @ take (length rs) (script (cl_workload l)) \<and>
    (cl_done l' \<longleftrightarrow> length rs = Suc (length (script (cl_workload l))))"
  using assms(1,3)
proof (induction rs arbitrary: l)
  case Nil
  then show ?case by (auto simp: waiting_def)
next
  case (Cons r rs)
  obtain now result where r: "r = (now, result)" by (cases r)
  show ?case
  proof (rule result_sends [OF Cons.prems(1) assms(2), of now result])
    fix l1
    assume l1: "on_invoke_ok wl now result l = Ok () l1"
      "case script (cl_workload l) of
         op # ops \<Rightarrow> waiting l1 \<and> script (cl_workload l1) = ops \<and>
           sent (cl_sender l1) = sent (cl_sender l) @ [op]
       | [] \<Rightarrow> cl_done l1 \<and> cl_sender l1 = cl_sender l \<and> cl_attach l1 = None \<and>
           sent (cl_stopped l1) = sent (cl_stopped l) @
             (case cl_stop l of None \<Rightarrow> [] | Some f \<Rightarrow> [f])"
    show ?thesis
    proof (cases "script (cl_workload l)")
      case Nil
      with l1 r Cons.prems(2) show ?thesis by simp
    next
      case (Cons op ops)
      with l1 Cons.prems(2) Cons.IH [of l1] r show ?thesis by auto
    qed
  qed
qed

text \<open>\<open>Total\<close> cuts the script off.\<close>

lemma total_scripted:
  "scripted (total_workload wl) (\<lambda>w. take (unat (tot_remain_count w)) (script (tot_inner w)))
    (\<lambda>w. idle (tot_inner w)) (\<lambda>w at. given (tot_inner w) at) (\<lambda>w r. takes (tot_inner w) r)"
proof (rule scripted.intro)
  fix w :: "'w total" and op ops now
  assume i: "idle (tot_inner w)" and s: "take (unat (tot_remain_count w)) (script (tot_inner w)) = op # ops"
  then have n: "tot_remain_count w \<noteq> 0" by auto
  then have u: "unat (tot_remain_count w) = Suc (unat (tot_remain_count w - 1))"
    by (metis unat_Suc_word add_diff_cancel_right' diff_add_cancel eq_neg_iff_add_eq_0)
  with s obtain ops' where ops': "script (tot_inner w) = op # ops'" by (cases "script (tot_inner w)") auto
  from next_op [OF i ops', of now] obtain at w' where
    "wl_next wl now (tot_inner w) = Ok (Some (op, at)) w'" "script w' = ops'" "given w' at" by blast
  with n u s ops' show "\<exists>at w'. wl_next (total_workload wl) now w = Ok (Some (op, at)) w' \<and>
      take (unat (tot_remain_count w')) (script (tot_inner w')) = ops \<and> given (tot_inner w') at"
    by (simp add: total_workload_def total_next_def Let_def)
next
  fix w :: "'w total" and now
  assume i: "idle (tot_inner w)" and s: "take (unat (tot_remain_count w)) (script (tot_inner w)) = []"
  show "\<exists>w'. wl_next (total_workload wl) now w = Ok None w' \<and>
      take (unat (tot_remain_count w')) (script (tot_inner w')) = [] \<and> idle (tot_inner w')"
  proof (cases "tot_remain_count w = 0")
    case True
    with i show ?thesis by (simp add: total_workload_def total_next_def)
  next
    case False
    then have "script (tot_inner w) = []" using s by (simp add: unat_eq_zero)
    from next_none [OF i this, of now] False show ?thesis
      by (auto simp: total_workload_def total_next_def Let_def)
  qed
next
  fix w :: "'w total" and at result now
  assume "given (tot_inner w) at" "takes (tot_inner w) result"
  from result_ok [OF this, of now] show "\<exists>w'. wl_result (total_workload wl) now result at w = Ok () w' \<and>
      take (unat (tot_remain_count w')) (script (tot_inner w')) =
        take (unat (tot_remain_count w)) (script (tot_inner w)) \<and> idle (tot_inner w')"
    by (auto simp: total_workload_def)
qed

text \<open>\<open>Recorded\<close> keeps the script.\<close>

lemma recorded_scripted:
  "scripted (recorded_workload wl) (\<lambda>w. script (rec_inner w)) (\<lambda>w. idle (rec_inner w))
    (\<lambda>w at. given (rec_inner w) (snd at)) (\<lambda>w r. takes (rec_inner w) r)"
proof (rule scripted.intro)
  fix w :: "'w recorded" and op ops now
  assume "idle (rec_inner w)" "script (rec_inner w) = op # ops"
  from next_op [OF this, of now] show "\<exists>at w'. wl_next (recorded_workload wl) now w = Ok (Some (op, at)) w' \<and>
      script (rec_inner w') = ops \<and> given (rec_inner w') (snd at)"
    by (force simp: recorded_workload_def)
next
  fix w :: "'w recorded" and now
  assume "idle (rec_inner w)" "script (rec_inner w) = []"
  from next_none [OF this, of now] show "\<exists>w'. wl_next (recorded_workload wl) now w = Ok None w' \<and>
      script (rec_inner w') = [] \<and> idle (rec_inner w')"
    by (force simp: recorded_workload_def)
next
  fix w :: "'w recorded" and at :: "payload \<times> 'at" and result now
  assume "given (rec_inner w) (snd at)" "takes (rec_inner w) result"
  from result_ok [OF this, of now] show "\<exists>w'. wl_result (recorded_workload wl) now result at w = Ok () w' \<and>
      script (rec_inner w') = script (rec_inner w) \<and> idle (rec_inner w')"
    by (cases at) (force simp: recorded_workload_def)
qed

end

text \<open>\<open>Iter\<close>: every result is accepted.\<close>

interpretation iter: scripted "iter_workload list_iterator" "\<lambda>ops. ops" "\<lambda>_. True" "\<lambda>_ _. True"
  "\<lambda>_ _. True"
  by unfold_locales (auto simp: iter_workload_def iter_next_def iter_result_def)

text \<open>\<open>Check\<close>: a result is accepted when it is the expected one.\<close>

interpretation checked: scripted "check_workload list_iterator" "\<lambda>w. map fst (ck_inner w)"
  "\<lambda>w. ck_expected w = None" "\<lambda>w _. ck_expected w \<noteq> None" "\<lambda>w r. ck_expected w = Some r"
proof unfold_locales
  fix w :: "(payload \<times> payload) list check" and op ops now
  assume "ck_expected w = None" "map fst (ck_inner w) = op # ops"
  then show "\<exists>at w'. wl_next (check_workload list_iterator) now w = Ok (Some (op, at)) w' \<and>
      map fst (ck_inner w') = ops \<and> ck_expected w' \<noteq> None"
    by (cases "ck_inner w") (auto simp: check_workload_def check_next_def Let_def)
qed (auto simp: check_workload_def check_next_def check_result_def Let_def)

text \<open>\<open>Recorded\<close> over either: the script is the inner one, and the invocation is recorded.\<close>

interpretation recorded: scripted "recorded_workload (check_workload list_iterator)"
  "\<lambda>w. map fst (ck_inner (rec_inner w))" "\<lambda>w. ck_expected (rec_inner w) = None"
  "\<lambda>w _. ck_expected (rec_inner w) \<noteq> None" "\<lambda>w r. ck_expected (rec_inner w) = Some r"
  by (rule checked.recorded_scripted)

text \<open>\<open>Total\<close> over \<open>Iter\<close>: the script is cut off after the count.\<close>

interpretation total: scripted "total_workload (iter_workload list_iterator)"
  "\<lambda>w. take (unat (tot_remain_count w)) (tot_inner w)" "\<lambda>_. True" "\<lambda>_ _. True" "\<lambda>_ _. True"
  by (rule iter.total_scripted)

section \<open>The properties\<close>

text \<open>A loop over \<open>Recorded\<close> over \<open>Check\<close> that waits for the result of \<open>op\<close>.\<close>

definition awaits_result ::
  "payload \<times> payload \<Rightarrow> (payload \<times> payload) list \<Rightarrow> (payload \<times> payload) list \<Rightarrow>
   ((payload \<times> payload) list check recorded, payload \<times> unit, 'f) close_loop \<Rightarrow> bool" where
  "awaits_result x rest invocations l \<longleftrightarrow>
     cl_workload l = \<lparr>rec_inner = \<lparr>ck_inner = rest, ck_expected = Some (snd x)\<rparr>,
                      rec_invocations = invocations\<rparr> \<and>
     cl_attach l = Some (fst x, ()) \<and> \<not> closed (cl_sender l) \<and> cl_stop l = None \<and> \<not> cl_done l"

abbreviation recorded_check :: "((payload \<times> payload) list check recorded, payload \<times> unit) workload" where
  "recorded_check \<equiv> recorded_workload (check_workload list_iterator)"

lemma check_step:
  assumes "awaits_result x rest invocations l"
  shows "if result = snd x then
      \<exists>l'. on_invoke_ok recorded_check now result l = Ok () l' \<and>
        (case rest of
           [] \<Rightarrow> cl_done l' \<and> cl_sender l' = cl_sender l \<and>
             rec_invocations (cl_workload l') = invocations @ [x]
         | y # ys \<Rightarrow> awaits_result y ys (invocations @ [x]) l' \<and>
             sent (cl_sender l') = sent (cl_sender l) @ [fst y])
    else \<exists>l'. on_invoke_ok recorded_check now result l = Err (Bail ''UnexpectedResult'') l'"
  using assms
  by (cases x; cases rest)
    (auto simp: awaits_result_def on_invoke_ok_def recorded_workload_def check_workload_def check_result_def
      check_next_def close_loop_send_def Let_def)

lemma check_steps:
  assumes "awaits_result x rest invocations l" and "length rs \<le> Suc (length rest)"
  shows "if map snd rs = take (length rs) (map snd (x # rest)) then
      \<exists>l'. close_loop_results recorded_check rs l = Ok () l' \<and>
        sent (cl_sender l') = sent (cl_sender l) @ map fst (take (length rs) rest) \<and>
        rec_invocations (cl_workload l') = invocations @ take (length rs) (x # rest) \<and>
        (cl_done l' \<longleftrightarrow> length rs = Suc (length rest))
    else \<exists>l'. close_loop_results recorded_check rs l = Err (Bail ''UnexpectedResult'') l'"
  using assms
proof (induction rs arbitrary: x rest invocations l)
  case Nil
  then show ?case by (auto simp: awaits_result_def)
next
  case (Cons r rs)
  obtain now result where r: "r = (now, result)" by (cases r)
  note step = check_step [OF Cons.prems(1), of result now]
  show ?case
  proof (cases "result = snd x")
    case False
    with step r show ?thesis by auto
  next
    case True
    with step obtain l1 where l1: "on_invoke_ok recorded_check now result l = Ok () l1"
      "case rest of
         [] \<Rightarrow> cl_done l1 \<and> cl_sender l1 = cl_sender l \<and>
           rec_invocations (cl_workload l1) = invocations @ [x]
       | y # ys \<Rightarrow> awaits_result y ys (invocations @ [x]) l1 \<and>
           sent (cl_sender l1) = sent (cl_sender l) @ [fst y]" by auto
    show ?thesis
    proof (cases rest)
      case Nil
      with l1 r True Cons.prems(2) show ?thesis by simp
    next
      case (Cons y ys)
      with l1 Cons.prems(2) Cons.IH [of y ys "invocations @ [x]" l1] r True show ?thesis
        by (auto split: if_splits)
    qed
  qed
qed

text \<open>C12: A \<open>CloseLoop\<close> over \<open>Recorded\<close> over \<open>Check\<close> sends one operation after the other, each after the
  result of the one before; it fails exactly when a result is not the expected one; until then it has
  recorded every invocation with its result, and it is done exactly after the last result.
\<close>

theorem close_loop_checks:
  assumes "xs \<noteq> []" and "length rs \<le> length xs"
  shows "let run = and_then (on_init recorded_check now
        (close_loop_new open_sink (recorded_new (check_new xs)) open_sink :: (_, _, 'f) close_loop))
        (\<lambda>_. close_loop_results recorded_check rs)
    in if map snd rs = take (length rs) (map snd xs) then
         \<exists>l. run = Ok () l \<and> sent (cl_sender l) = map fst (take (Suc (length rs)) xs) \<and>
           rec_invocations (cl_workload l) = take (length rs) xs \<and>
           (cl_done l \<longleftrightarrow> length rs = length xs)
       else \<exists>l. run = Err (Bail ''UnexpectedResult'') l"
proof -
  obtain x rest where xs: "xs = x # rest" using assms(1) by (cases xs) auto
  obtain l :: "(_, _, 'f) close_loop" where l: "on_init recorded_check now
      (close_loop_new open_sink (recorded_new (check_new xs)) open_sink) = Ok () l"
    "awaits_result x rest [] l" "sent (cl_sender l) = [fst x]"
    by (cases x) (simp add: xs on_init_def close_loop_new_def recorded_new_def check_new_def
        recorded_workload_def check_workload_def check_next_def close_loop_send_def open_sink_def
        awaits_result_def Let_def)
  with check_steps [OF l(2), of rs] assms(2) xs show ?thesis
    by (auto simp: Let_def)
qed

theorem close_loop_checks_witness:
  "let run = and_then (on_init recorded_check 0
        (close_loop_new open_sink (recorded_new (check_new [([1], [2]), ([3], [4])])) open_sink
          :: (_, _, unit) close_loop))
        (\<lambda>_. close_loop_results recorded_check [(1, [2])])
    in \<exists>l. run = Ok () l \<and> sent (cl_sender l) = [[1], [3]] \<and>
         rec_invocations (cl_workload l) = [([1], [2])] \<and> \<not> cl_done l"
  using close_loop_checks [of "[([1], [2]), ([3], [4])]" "[(1, [2])]" 0, where 'f = unit]
  by (simp add: Let_def)

text \<open>A \<open>CloseLoop\<close> over \<open>Total\<close> with count \<open>n\<close> over an iterator sends the first \<open>n\<close> operations, or all
  when there are fewer, whatever results it gets, and is then done.
\<close>

theorem close_loop_total:
  assumes "ops \<noteq> []" and "n \<noteq> 0" and "length rs = min (unat n) (length ops)"
  shows "\<exists>l. and_then (on_init (total_workload (iter_workload list_iterator)) now
        (close_loop_new open_sink (total_new ops n) open_sink :: (_, _, 'f) close_loop))
        (\<lambda>_. close_loop_results (total_workload (iter_workload list_iterator)) rs) = Ok () l \<and>
      sent (cl_sender l) = take (unat n) ops \<and> cl_done l"
proof -
  let ?l = "close_loop_new open_sink (total_new ops n) open_sink :: (_, _, 'f) close_loop"
  from assms obtain op rest where script: "take (unat n) ops = op # rest"
    by (cases "take (unat n) ops") (auto simp: unat_eq_zero)
  have w: "cl_workload ?l = total_new ops n" "cl_attach ?l = None" "\<not> closed (cl_sender ?l)"
    "\<not> closed (cl_stopped ?l)" "\<not> cl_done ?l" "sent (cl_sender ?l) = []"
    by (simp_all add: close_loop_new_def open_sink_def)
  show ?thesis
  proof (rule total.init_waits [of ?l op rest now])
    fix l
    assume l: "on_init (total_workload (iter_workload list_iterator)) now ?l = Ok () l"
      "total.waiting l"
      "take (unat (tot_remain_count (cl_workload l))) (tot_inner (cl_workload l)) = rest"
      "sent (cl_sender l) = sent (cl_sender ?l) @ [op]"
    have "length rs = Suc (length rest)"
      using assms(3) script by (metis length_Cons length_take min.commute)
    with total.results_send_script [OF l(2), of rs] l(3,4) w script show ?thesis
      by (auto simp: l(1))
  qed (use script in \<open>simp_all add: total_new_def close_loop_new_def open_sink_def\<close>)
qed

theorem close_loop_total_witness:
  "\<exists>l. and_then (on_init (total_workload (iter_workload list_iterator)) 0
        (close_loop_new open_sink (total_new [[1], [2], [3]] 2) open_sink :: (_, _, unit) close_loop))
        (\<lambda>_. close_loop_results (total_workload (iter_workload list_iterator)) [(0, []), (0, [])]) =
          Ok () l \<and>
      sent (cl_sender l) = [[1], [2]] \<and> cl_done l"
  using close_loop_total [of "[[1], [2], [3]]" 2 "[(0, []), (0, [])]" 0, where 'f = unit] by simp

end
