(* ===== verification/Apps.thy ===== *)
theory Apps
  imports Workloads "HOL-Library.Char_ord" "HOL-Library.List_Lexorder"
begin

text \<open>
  The applications: \<open>src/src/app/kvstore.rs\<close> (\<open>KVStore\<close>, and \<open>InfinitePutGet\<close>, the workload that
  knows the results to expect) and \<open>src/src/app/btree.rs\<close> (\<open>BTreeMap\<close>, on the operations of
  \<open>src/src/app/ycsb.rs\<close>).

  A \<open>String\<close> is its UTF-8 bytes, as characters; \<open>std::collections::BTreeMap\<close> is an association list
  sorted by key. \<open>serde_json\<close> and \<open>bincode\<close> are libraries: the record \<open>codec\<close> holds the four
  conversions, \<open>codec_ok\<close> that they round-trip. The hash function of \<open>rustc_hash\<close> is a parameter.

  The lemmas: both stores implement a finite map (\<open>bt_apply_refines\<close>); clients of \<open>InfinitePutGet\<close>
  in distinct namespaces always see the results they expect.
\<close>

section \<open>Ordered maps\<close>

type_synonym 'v btree = "(string \<times> 'v) list"

fun bt_insert :: "string \<Rightarrow> 'v \<Rightarrow> 'v btree \<Rightarrow> 'v btree" where
  "bt_insert k v [] = [(k, v)]"
| "bt_insert k v ((k', v') # m) =
     (if k < k' then (k, v) # (k', v') # m
      else if k = k' then (k, v) # m
      else (k', v') # bt_insert k v m)"

fun bt_remove :: "string \<Rightarrow> 'v btree \<Rightarrow> 'v btree" where
  "bt_remove k [] = []"
| "bt_remove k ((k', v') # m) = (if k = k' then m else (k', v') # bt_remove k m)"

definition bt_range :: "string \<Rightarrow> 'v btree \<Rightarrow> 'v btree" where
  "bt_range k m = dropWhile (\<lambda>(k', _). k' < k) m"

definition bt_ok :: "'v btree \<Rightarrow> bool" where
  "bt_ok m \<longleftrightarrow> sorted_wrt (<) (map fst m)"

lemma bt_ok_simps [simp]:
  "bt_ok []" "bt_ok ((k, v) # m) \<longleftrightarrow> fst ` set m \<subseteq> {k<..} \<and> bt_ok m"
  by (auto simp: bt_ok_def)

lemma bt_insert_get: "map_of (bt_insert k v m) = (map_of m)(k \<mapsto> v)"
  by (induction m rule: bt_insert.induct [of _ k v]) (auto simp: fun_eq_iff)

lemma bt_insert_keys: "fst ` set (bt_insert k v m) = insert k (fst ` set m)"
  by (induction k v m rule: bt_insert.induct) auto

lemma bt_insert_ok: "bt_ok m \<Longrightarrow> bt_ok (bt_insert k v m)"
proof (induction k v m rule: bt_insert.induct)
  case (2 k v k' v' m)
  from 2(2) have m: "fst ` set m \<subseteq> {k'<..}" "bt_ok m" by simp_all
  have "fst ` set m \<subseteq> {k<..}" if "k < k'"
    using m(1) that by (auto dest: less_trans)
  with 2 m show ?case by (auto simp: bt_insert_keys simp del: image_subset_iff)
qed simp

lemma bt_get_above: "bt_ok ((k, v) # m) \<Longrightarrow> map_of m k = None"
  by (auto simp: map_of_eq_None_iff)

lemma bt_remove_get:
  assumes "bt_ok m"
  shows "map_of (bt_remove k m) = (map_of m)(k := None)"
  using assms
proof (induction k m rule: bt_remove.induct)
  case (2 k k' v' m)
  then show ?case using bt_get_above [of k' v' m] by (auto simp: fun_eq_iff)
qed simp

lemma bt_remove_keys: "fst ` set (bt_remove k m) \<subseteq> fst ` set m"
  by (induction k m rule: bt_remove.induct) auto

lemma bt_remove_ok: "bt_ok m \<Longrightarrow> bt_ok (bt_remove k m)"
proof (induction k m rule: bt_remove.induct)
  case (2 k k' v' m)
  then have "fst ` set (bt_remove k m) \<subseteq> {k'<..}"
    using bt_remove_keys [of k m] by (intro subset_trans [OF bt_remove_keys]) simp
  with 2 show ?case by (simp del: image_subset_iff)
qed simp

lemma bt_range_filter: "bt_ok m \<Longrightarrow> bt_range k m = filter (\<lambda>(k', _). k \<le> k') m"
proof (induction m)
  case (Cons kv m)
  obtain k' v' where kv: "kv = (k', v')" by (cases kv)
  show ?case
  proof (cases "k' < k")
    case True
    with Cons kv show ?thesis by (simp add: bt_range_def)
  next
    case False
    then have k: "k \<le> k'" by simp
    have "k \<le> fst p" if "p \<in> set m" for p
    proof -
      have "k' < fst p" using Cons.prems kv that by auto
      with k show ?thesis by (rule order.trans [OF _ less_imp_le])
    qed
    then have "filter (\<lambda>(k', _). k \<le> k') m = m" by (auto simp: filter_id_conv)
    with False kv k show ?thesis by (simp add: bt_range_def)
  qed
qed (simp add: bt_range_def)

section \<open>Codecs\<close>

record ('op, 'r) codec =
  dec_op :: "bytes \<Rightarrow> error + 'op"
  enc_op :: "'op \<Rightarrow> error + bytes"
  enc_result :: "'r \<Rightarrow> error + bytes"

definition codec_ok :: "('op, 'r) codec \<Rightarrow> bool" where
  "codec_ok c \<longleftrightarrow> (\<forall>op. \<exists>b. enc_op c op = Inr b \<and> dec_op c b = Inr op) \<and>
     (\<forall>r. \<exists>b. enc_result c r = Inr b)"

text \<open>\<open>App::execute\<close>: decode the operation, apply it, encode the result.\<close>

definition app_execute ::
  "('op, 'r) codec \<Rightarrow> ('op \<Rightarrow> 's \<Rightarrow> ('r, 's) outcome) \<Rightarrow> payload \<Rightarrow> 's \<Rightarrow> (payload, 's) outcome" where
  "app_execute c apply_op op s =
     (case dec_op c op of
        Inl e \<Rightarrow> Err e s
      | Inr op \<Rightarrow>
          and_then (apply_op op s) (\<lambda>result s.
            case enc_result c result of Inl e \<Rightarrow> Err e s | Inr b \<Rightarrow> Ok b s))"

section \<open>KVStore\<close>

datatype kv_op = Put string string | Get string | Append string string

datatype kv_result = PutOk | GetResult string | KetyNotFound | AppendResult string

fun kv_apply :: "kv_op \<Rightarrow> string btree \<Rightarrow> (kv_result, string btree) outcome" where
  "kv_apply (Put key value) store = Ok PutOk (bt_insert key value store)"
| "kv_apply (Get key) store =
     (case map_of store key of
        Some value \<Rightarrow> Ok (GetResult value) store
      | None \<Rightarrow> Ok KetyNotFound store)"
| "kv_apply (Append key postfix) store =
     (let value = (case map_of store key of Some v \<Rightarrow> v | None \<Rightarrow> []) @ postfix
      in Ok (AppendResult value) (bt_insert key value store))"

definition kv_new :: "string btree" where
  "kv_new = []"

definition kv_execute ::
  "(kv_op, kv_result) codec \<Rightarrow> payload \<Rightarrow> string btree \<Rightarrow> (payload, string btree) outcome" where
  "kv_execute c = app_execute c kv_apply"

section \<open>BTreeMap\<close>

datatype ycsb_op =
    Read string
  | Scan string nat
  | Update string nat string
  | Insert string "string list"
  | Delete string

datatype ycsb_result = ReadOk "string list" | NotFound | ScanOk "string list list" | YOk

text \<open>The checksum of a field: \<open>format!("{:x}", hash & 0xf)\<close>.\<close>

definition hex_digit :: "nat \<Rightarrow> char" where
  "hex_digit n = ''0123456789abcdef'' ! n"

definition checksum :: "(string \<Rightarrow> nat) \<Rightarrow> string \<Rightarrow> string" where
  "checksum fx value = [hex_digit (fx value mod 16)]"

fun bt_apply ::
  "(string \<Rightarrow> nat) \<Rightarrow> ycsb_op \<Rightarrow> string list btree \<Rightarrow>
   (ycsb_result, string list btree) outcome" where
  "bt_apply fx (Read key) m =
     (case map_of m key of Some values \<Rightarrow> Ok (ReadOk values) m | None \<Rightarrow> Ok NotFound m)"
| "bt_apply fx (Update key field value) m =
     (case map_of m key of
        Some values \<Rightarrow>
          if field < length values then Ok YOk (bt_insert key (values[field := value]) m)
          else Err (Panic ''index out of bounds'') m
      | None \<Rightarrow> Ok NotFound m)"
| "bt_apply fx (Insert key values) m = Ok YOk (bt_insert key values m)"
| "bt_apply fx (Scan key num) m =
     Ok (ScanOk (take num (map (\<lambda>(_, values). map (checksum fx) values) (bt_range key m)))) m"
| "bt_apply fx (Delete key) m =
     (if map_of m key \<noteq> None then Ok YOk (bt_remove key m) else Ok NotFound m)"

definition btree_execute ::
  "(string \<Rightarrow> nat) \<Rightarrow> (ycsb_op, ycsb_result) codec \<Rightarrow> payload \<Rightarrow> string list btree \<Rightarrow>
   (payload, string list btree) outcome" where
  "btree_execute fx c = app_execute c (bt_apply fx)"

section \<open>The map both implement\<close>

fun kv_spec :: "kv_op \<Rightarrow> (string \<rightharpoonup> string) \<Rightarrow> kv_result \<times> (string \<rightharpoonup> string)" where
  "kv_spec (Put key value) m = (PutOk, m(key \<mapsto> value))"
| "kv_spec (Get key) m = ((case m key of Some v \<Rightarrow> GetResult v | None \<Rightarrow> KetyNotFound), m)"
| "kv_spec (Append key postfix) m =
     (let v = (case m key of Some v \<Rightarrow> v | None \<Rightarrow> []) @ postfix in (AppendResult v, m(key \<mapsto> v)))"

fun ycsb_spec ::
  "(string \<Rightarrow> nat) \<Rightarrow> ycsb_op \<Rightarrow> (string \<rightharpoonup> string list) \<Rightarrow>
   (ycsb_result \<times> (string \<rightharpoonup> string list)) option" where
  "ycsb_spec fx (Read key) m = Some (case m key of Some v \<Rightarrow> ReadOk v | None \<Rightarrow> NotFound, m)"
| "ycsb_spec fx (Update key field value) m =
     (case m key of
        None \<Rightarrow> Some (NotFound, m)
      | Some v \<Rightarrow> if field < length v then Some (YOk, m(key \<mapsto> v[field := value])) else None)"
| "ycsb_spec fx (Insert key v) m = Some (YOk, m(key \<mapsto> v))"
| "ycsb_spec fx (Scan key num) m =
     Some (ScanOk (map (\<lambda>k. map (checksum fx) (the (m k)))
       (take num (sorted_list_of_set {k \<in> dom m. key \<le> k}))), m)"
| "ycsb_spec fx (Delete key) m =
     Some (if m key \<noteq> None then (YOk, m(key := None)) else (NotFound, m))"

lemma kv_apply_refines:
  "\<exists>r m'. kv_apply op m = Ok r m' \<and> kv_spec op (map_of m) = (r, map_of m') \<and> (bt_ok m \<longrightarrow> bt_ok m')"
  by (cases op) (auto simp: bt_insert_get bt_insert_ok Let_def split: option.split)

lemma bt_keys: "bt_ok m \<Longrightarrow> sorted_list_of_set (dom (map_of m)) = map fst m"
  unfolding bt_ok_def strict_sorted_iff dom_map_of_conv_image_fst list.set_map [symmetric]
  by (metis sorted_list_of_set.idem_if_sorted_distinct)

lemma bt_scan:
  assumes "bt_ok m"
  shows "map (\<lambda>(_, v). f v) (bt_range k m) =
    map (\<lambda>k. f (the (map_of m k))) (sorted_list_of_set {k' \<in> dom (map_of m). k \<le> k'})"
proof -
  have d: "distinct (map fst m)" using assms by (simp add: bt_ok_def strict_sorted_iff)
  let ?r = "filter (\<lambda>(k', _). k \<le> k') m"
  have "bt_ok ?r" using assms by (auto simp: bt_ok_def sorted_wrt_map intro: sorted_wrt_filter)
  moreover have "dom (map_of ?r) = {k' \<in> dom (map_of m). k \<le> k'}"
    by (force simp: dom_map_of_conv_image_fst)
  ultimately have "sorted_list_of_set {k' \<in> dom (map_of m). k \<le> k'} = map fst ?r"
    using bt_keys [of ?r] by simp
  moreover have "map (\<lambda>(_, v). f v) ?r = map (\<lambda>k. f (the (map_of m k))) (map fst ?r)"
    using d by (auto simp: map_of_is_SomeI)
  ultimately show ?thesis by (simp add: bt_range_filter [OF assms])
qed

lemma bt_apply_refines:
  assumes "bt_ok m"
  shows "case ycsb_spec fx op (map_of m) of
      Some (r, m'') \<Rightarrow> (\<exists>m'. bt_apply fx op m = Ok r m' \<and> map_of m' = m'' \<and> bt_ok m')
    | None \<Rightarrow> bt_apply fx op m = Err (Panic ''index out of bounds'') m"
  using assms
  by (cases op)
    (auto simp: bt_insert_get bt_insert_ok bt_remove_get bt_remove_ok bt_scan take_map
      split: option.split)

section \<open>InfinitePutGet\<close>

record put_get =
  pg_namespace :: string
  pg_values :: "string list"
  pg_should_get :: bool

definition put_get_new :: "string \<Rightarrow> put_get" where
  "put_get_new namespace =
     \<lparr>pg_namespace = namespace, pg_values = replicate 5 [], pg_should_get = False\<rparr>"

definition pg_key :: "string \<Rightarrow> nat \<Rightarrow> string" where
  "pg_key namespace i = namespace @ ''-'' @ [''01234'' ! i]"

text \<open>\<open>Iterator::next\<close> with the index and the value it draws.\<close>

definition put_get_next :: "nat \<Rightarrow> string \<Rightarrow> put_get \<Rightarrow> (kv_op \<times> kv_result) \<times> put_get" where
  "put_get_next i value w =
     (if pg_should_get w then
        ((Get (pg_key (pg_namespace w) i),
          if pg_values w ! i = [] then KetyNotFound else GetResult (pg_values w ! i)),
         w\<lparr>pg_should_get := False\<rparr>)
      else
        ((Put (pg_key (pg_namespace w) i) value, PutOk),
         w\<lparr>pg_values := (pg_values w)[i := value], pg_should_get := True\<rparr>))"

text \<open>The payloads: \<open>serde_json::to_vec(..).unwrap()\<close> twice.\<close>

definition put_get_payloads ::
  "(kv_op, kv_result) codec \<Rightarrow> kv_op \<times> kv_result \<Rightarrow> error + (payload \<times> payload)" where
  "put_get_payloads c x =
     (case (enc_op c (fst x), enc_result c (snd x)) of
        (Inr op, Inr result) \<Rightarrow> Inr (op, result)
      | _ \<Rightarrow> Inl (Panic ''called unwrap on an Err value''))"

text \<open>\<open>static_workload\<close>: every round is encoded first; the first failure is the result.\<close>

fun static_payloads ::
  "(kv_op, kv_result) codec \<Rightarrow> (kv_op \<times> kv_result) list \<Rightarrow> error + (payload \<times> payload) list" where
  "static_payloads c [] = Inr []"
| "static_payloads c ((op, result) # rounds) =
     (case enc_op c op of
        Inl e \<Rightarrow> Inl e
      | Inr b \<Rightarrow>
          (case enc_result c result of
             Inl e \<Rightarrow> Inl e
           | Inr r \<Rightarrow>
               (case static_payloads c rounds of Inl e \<Rightarrow> Inl e | Inr ps \<Rightarrow> Inr ((b, r) # ps))))"

definition static_workload ::
  "(kv_op, kv_result) codec \<Rightarrow> (kv_op \<times> kv_result) list \<Rightarrow> error + (payload \<times> payload) list check" where
  "static_workload c rounds = map_sum (\<lambda>e. e) check_new (static_payloads c rounds)"

text \<open>
  Clients that take turns on one store: in each turn a client (by its index) draws, its operation is
  executed, and the result is compared with the expected one.
\<close>

definition put_get_turn ::
  "(kv_op, kv_result) codec \<Rightarrow> nat \<times> nat \<times> string \<Rightarrow> put_get list \<times> string btree \<Rightarrow>
   (bool, put_get list \<times> string btree) outcome" where
  "put_get_turn c turn s =
     (case (turn, s) of ((n, i, value), (ws, store)) \<Rightarrow>
        case put_get_next i value (ws ! n) of (x, w) \<Rightarrow>
        let ws1 = ws[n := w] in
        case put_get_payloads c x of
          Inl e \<Rightarrow> Err e (ws1, store)
        | Inr (op, expected) \<Rightarrow>
            and_then (lift_outcome (Pair ws1) (kv_execute c op store)) (\<lambda>result s.
              Ok (result = expected) s))"

fun put_get_turns ::
  "(kv_op, kv_result) codec \<Rightarrow> (nat \<times> nat \<times> string) list \<Rightarrow> put_get list \<times> string btree \<Rightarrow>
   (bool list, put_get list \<times> string btree) outcome" where
  "put_get_turns c [] s = Ok [] s"
| "put_get_turns c (x # xs) s =
     and_then (put_get_turn c x s) (\<lambda>b s.
       and_then (put_get_turns c xs s) (\<lambda>bs. Ok (b # bs)))"

definition turn_ok :: "nat \<Rightarrow> nat \<times> nat \<times> string \<Rightarrow> bool" where
  "turn_ok n turn \<longleftrightarrow> fst turn < n \<and> fst (snd turn) < 5 \<and> snd (snd turn) \<noteq> []"

text \<open>What a client remembers is what the store holds under its keys.\<close>

definition remembers :: "string btree \<Rightarrow> put_get \<Rightarrow> bool" where
  "remembers store w \<longleftrightarrow> length (pg_values w) = 5 \<and>
     (\<forall>i<5. map_of store (pg_key (pg_namespace w) i) =
        (if pg_values w ! i = [] then None else Some (pg_values w ! i)))"

definition put_get_agree :: "put_get list \<Rightarrow> string btree \<Rightarrow> bool" where
  "put_get_agree ws store \<longleftrightarrow> distinct (map pg_namespace ws) \<and> (\<forall>w\<in>set ws. remembers store w)"

lemma remembers_got [simp]: "remembers store (w\<lparr>pg_should_get := b\<rparr>) = remembers store w"
  by (simp add: remembers_def)

lemma pg_key_inject:
  assumes "i < 5" and "j < 5"
  shows "pg_key a i = pg_key b j \<longleftrightarrow> a = b \<and> i = j"
proof -
  have "''01234'' ! i = ''01234'' ! j \<longleftrightarrow> i = j"
    using assms by (auto simp: less_Suc_eq numeral_nat nth_Cons')
  then show ?thesis by (simp add: pg_key_def)
qed

lemma put_get_turn_agrees:
  assumes "codec_ok c" and "turn_ok (length ws) turn" and "put_get_agree ws store"
  obtains ws' store' where "put_get_turn c turn (ws, store) = Ok True (ws', store')"
    "length ws' = length ws" "put_get_agree ws' store'"
proof -
  obtain n i v where turn: "turn = (n, i, v)" by (cases turn)
  with assms(2) have n: "n < length ws" and i: "i < 5" and v: "v \<noteq> []"
    by (simp_all add: turn_ok_def)
  let ?w = "ws ! n" and ?key = "pg_key (pg_namespace (ws ! n)) i"
  from assms(3) n have d: "distinct (map pg_namespace ws)" and rem: "remembers store ?w"
    by (simp_all add: put_get_agree_def)
  from rem i have len: "length (pg_values ?w) = 5"
    and get: "map_of store ?key = (if pg_values ?w ! i = [] then None else Some (pg_values ?w ! i))"
    by (simp_all add: remembers_def)
  have other: "pg_namespace (ws ! m) \<noteq> pg_namespace ?w" if "m < length ws" "m \<noteq> n" for m
    using d that n by (auto simp: distinct_conv_nth)
  obtain op expected w where drawn: "put_get_next i v ?w = ((op, expected), w)"
    by (metis prod.exhaust)
  from assms(1) obtain b e where enc: "enc_op c op = Inr b" "dec_op c b = Inr op"
    "enc_result c expected = Inr e" unfolding codec_ok_def by metis
  show thesis
  proof (cases "pg_should_get ?w")
    case True
    then have w: "w = ?w\<lparr>pg_should_get := False\<rparr>" using drawn by (simp add: put_get_next_def)
    have "map pg_namespace (ws[n := w]) = map pg_namespace ws"
      using n w by (simp add: map_update list_update_same_conv)
    then have "put_get_agree (ws[n := w]) store"
      using assms(3) rem w set_update_subset_insert [of ws n w] by (auto simp: put_get_agree_def)
    moreover have "put_get_turn c turn (ws, store) = Ok True (ws[n := w], store)"
      using True drawn get enc turn
      by (auto simp: put_get_turn_def put_get_payloads_def put_get_next_def kv_execute_def
          app_execute_def split: if_splits)
    ultimately show thesis by (intro that [of "ws[n := w]" store]) simp_all
  next
    case False
    then have w: "w = ?w\<lparr>pg_values := (pg_values ?w)[i := v], pg_should_get := True\<rparr>"
      using drawn by (simp add: put_get_next_def)
    let ?store = "bt_insert ?key v store"
    have names: "map pg_namespace (ws[n := w]) = map pg_namespace ws"
      using n w by (simp add: map_update list_update_same_conv)
    have "remembers ?store w"
      using rem i v len w by (auto simp: remembers_def bt_insert_get pg_key_inject nth_list_update)
    moreover have "remembers ?store (ws ! m)" if "m < length ws" "m \<noteq> n" for m
    proof -
      have "remembers store (ws ! m)" using assms(3) that(1) by (simp add: put_get_agree_def)
      with other [OF that] i show ?thesis by (auto simp: remembers_def bt_insert_get pg_key_inject)
    qed
    ultimately have "\<forall>x\<in>set (ws[n := w]). remembers ?store x"
      using n by (auto simp: in_set_conv_nth nth_list_update)
    with names d have "put_get_agree (ws[n := w]) ?store" by (simp add: put_get_agree_def)
    moreover have "put_get_turn c turn (ws, store) = Ok True (ws[n := w], ?store)"
      using False drawn enc turn
      by (auto simp: put_get_turn_def put_get_payloads_def put_get_next_def kv_execute_def
          app_execute_def)
    ultimately show thesis by (intro that [of "ws[n := w]" ?store]) simp_all
  qed
qed

lemma put_get_turns_agree:
  assumes "codec_ok c" and "list_all (turn_ok (length ws)) turns" and "put_get_agree ws store"
  shows "\<exists>s'. put_get_turns c turns (ws, store) = Ok (map (\<lambda>_. True) turns) s'"
  using assms(2,3)
proof (induction turns arbitrary: ws store)
  case (Cons turn turns)
  then have "turn_ok (length ws) turn" by simp
  from put_get_turn_agrees [OF assms(1) this Cons.prems(2)] obtain ws' store' where
    "put_get_turn c turn (ws, store) = Ok True (ws', store')"
    "length ws' = length ws" "put_get_agree ws' store'" .
  with Cons.IH [of ws' store'] Cons.prems(1) show ?case by auto
qed simp

lemma put_get_new_agree:
  assumes "distinct namespaces"
  shows "put_get_agree (map put_get_new namespaces) kv_new"
proof -
  have "map (pg_namespace \<circ> put_get_new) namespaces = namespaces"
    by (simp add: put_get_new_def comp_def)
  moreover have "(replicate 5 []) ! i = []" if "i < 5" for i using that by simp
  ultimately show ?thesis using assms
    by (simp add: put_get_agree_def remembers_def put_get_new_def kv_new_def)
qed

section \<open>A concrete codec\<close>

text \<open>Strings with a mark before each character, numbers in unary, lists with their length.\<close>

fun put_str :: "string \<Rightarrow> bytes" where
  "put_str [] = [0]"
| "put_str (c # s) = 1 # of_nat (of_char c) # put_str s"

fun get_str :: "bytes \<Rightarrow> (string \<times> bytes) option" where
  "get_str (b # bs) =
     (if b = 0 then Some ([], bs)
      else case bs of
          [] \<Rightarrow> None
        | c # cs \<Rightarrow> map_option (\<lambda>(s, rest). (char_of (unat c) # s, rest)) (get_str cs))"
| "get_str [] = None"

fun put_nat :: "nat \<Rightarrow> bytes" where
  "put_nat 0 = [0]"
| "put_nat (Suc n) = 1 # put_nat n"

fun get_nat :: "bytes \<Rightarrow> (nat \<times> bytes) option" where
  "get_nat [] = None"
| "get_nat (b # bs) =
     (if b = 0 then Some (0, bs) else map_option (\<lambda>(n, rest). (Suc n, rest)) (get_nat bs))"

definition put_strs :: "string list \<Rightarrow> bytes" where
  "put_strs ss = put_nat (length ss) @ concat (map put_str ss)"

fun get_n_strs :: "nat \<Rightarrow> bytes \<Rightarrow> (string list \<times> bytes) option" where
  "get_n_strs 0 bs = Some ([], bs)"
| "get_n_strs (Suc n) bs =
     Option.bind (get_str bs) (\<lambda>(s, bs). map_option (\<lambda>(ss, rest). (s # ss, rest)) (get_n_strs n bs))"

definition get_strs :: "bytes \<Rightarrow> (string list \<times> bytes) option" where
  "get_strs bs = Option.bind (get_nat bs) (\<lambda>(n, bs). get_n_strs n bs)"

lemma get_put_str [simp]: "get_str (put_str s @ rest) = Some (s, rest)"
proof (induction s)
  case (Cons c s)
  have "of_char c < (256 :: nat)" by simp
  then have "unat (of_nat (of_char c) :: u8) = of_char c"
    by (simp add: unsigned_of_nat take_bit_nat_eq_self)
  with Cons show ?case by simp
qed simp

lemma get_put_nat [simp]: "get_nat (put_nat n @ rest) = Some (n, rest)"
  by (induction n) simp_all

lemma get_put_strs [simp]: "get_strs (put_strs ss @ rest) = Some (ss, rest)"
proof -
  have "get_n_strs (length ss) (concat (map put_str ss) @ rest) = Some (ss, rest)"
    by (induction ss) simp_all
  then show ?thesis by (simp add: get_strs_def put_strs_def)
qed

fun put_kv_op :: "kv_op \<Rightarrow> bytes" where
  "put_kv_op (Put key v) = 0 # put_str key @ put_str v"
| "put_kv_op (Get key) = 1 # put_str key"
| "put_kv_op (Append key v) = 2 # put_str key @ put_str v"

fun get_kv_op :: "bytes \<Rightarrow> kv_op option" where
  "get_kv_op [] = None"
| "get_kv_op (b # bs) = Option.bind (get_str bs) (\<lambda>(key, bs).
     if b = 1 then Some (Get key)
     else map_option (\<lambda>(v, _). if b = 0 then Put key v else Append key v) (get_str bs))"

fun put_kv_result :: "kv_result \<Rightarrow> bytes" where
  "put_kv_result PutOk = [0]"
| "put_kv_result (GetResult v) = 1 # put_str v"
| "put_kv_result KetyNotFound = [2]"
| "put_kv_result (AppendResult v) = 3 # put_str v"

fun put_ycsb_op :: "ycsb_op \<Rightarrow> bytes" where
  "put_ycsb_op (Read key) = 0 # put_str key"
| "put_ycsb_op (Scan key n) = 1 # put_str key @ put_nat n"
| "put_ycsb_op (Update key n v) = 2 # put_str key @ put_nat n @ put_str v"
| "put_ycsb_op (Insert key vs) = 3 # put_str key @ put_strs vs"
| "put_ycsb_op (Delete key) = 4 # put_str key"

fun get_ycsb_op :: "bytes \<Rightarrow> ycsb_op option" where
  "get_ycsb_op [] = None"
| "get_ycsb_op (b # bs) = Option.bind (get_str bs) (\<lambda>(key, bs).
     if b = 0 then Some (Read key)
     else if b = 1 then map_option (\<lambda>(n, _). Scan key n) (get_nat bs)
     else if b = 2 then Option.bind (get_nat bs) (\<lambda>(n, bs).
       map_option (\<lambda>(v, _). Update key n v) (get_str bs))
     else if b = 3 then map_option (\<lambda>(vs, _). Insert key vs) (get_strs bs)
     else Some (Delete key))"

fun put_ycsb_result :: "ycsb_result \<Rightarrow> bytes" where
  "put_ycsb_result (ReadOk vs) = 0 # put_strs vs"
| "put_ycsb_result NotFound = [1]"
| "put_ycsb_result (ScanOk vss) = 2 # concat (map put_strs vss)"
| "put_ycsb_result YOk = [3]"

definition or_bail :: "'x option \<Rightarrow> error + 'x" where
  "or_bail r = (case r of None \<Rightarrow> Inl (Bail ''decode'') | Some x \<Rightarrow> Inr x)"

definition plain_kv :: "(kv_op, kv_result) codec" where
  "plain_kv = \<lparr>dec_op = (\<lambda>bs. or_bail (get_kv_op bs)), enc_op = (\<lambda>op. Inr (put_kv_op op)),
               enc_result = (\<lambda>r. Inr (put_kv_result r))\<rparr>"

definition plain_ycsb :: "(ycsb_op, ycsb_result) codec" where
  "plain_ycsb = \<lparr>dec_op = (\<lambda>bs. or_bail (get_ycsb_op bs)), enc_op = (\<lambda>op. Inr (put_ycsb_op op)),
               enc_result = (\<lambda>r. Inr (put_ycsb_result r))\<rparr>"

lemma get_put_kv_op [simp]: "get_kv_op (put_kv_op op) = Some op"
  using get_put_str [where rest = "[]"] by (cases op) simp_all

lemma get_put_ycsb_op [simp]: "get_ycsb_op (put_ycsb_op op) = Some op"
  using get_put_str [where rest = "[]"] get_put_nat [where rest = "[]"] get_put_strs [where rest = "[]"]
  by (cases op) simp_all

lemma plain_decodes [simp]:
  "dec_op plain_kv (put_kv_op kop) = Inr kop" "dec_op plain_ycsb (put_ycsb_op yop) = Inr yop"
  by (simp_all add: plain_kv_def plain_ycsb_def or_bail_def)

lemma plain_kv_ok [simp]: "codec_ok plain_kv"
  by (simp add: codec_ok_def plain_kv_def or_bail_def)

lemma plain_ycsb_ok [simp]: "codec_ok plain_ycsb"
  by (simp add: codec_ok_def plain_ycsb_def or_bail_def)

section \<open>The properties\<close>

text \<open>C13: Both stores implement the map from keys to values: on an operation that decodes, \<open>KVStore\<close>
  returns the encoded result of the map's operation and holds the new map; so does \<open>BTreeMap\<close>,
  except for the update of a field that the record does not have, which panics. The entries stay
  sorted by key.
\<close>

theorem stores_refine_map:
  assumes "codec_ok kc" and "codec_ok yc" and "bt_ok store" and "bt_ok m"
    and "dec_op kc b = Inr kop" and "dec_op yc b' = Inr yop"
  shows "(\<exists>r out store'. kv_execute kc b store = Ok out store' \<and> enc_result kc r = Inr out \<and>
        kv_spec kop (map_of store) = (r, map_of store') \<and> bt_ok store') \<and>
    (case ycsb_spec fx yop (map_of m) of
       None \<Rightarrow> btree_execute fx yc b' m = Err (Panic ''index out of bounds'') m
     | Some (r, m'') \<Rightarrow> \<exists>out m'. btree_execute fx yc b' m = Ok out m' \<and> enc_result yc r = Inr out \<and>
         map_of m' = m'' \<and> bt_ok m')"
proof (intro conjI)
  from kv_apply_refines obtain r store' where
    "kv_apply kop store = Ok r store'" "kv_spec kop (map_of store) = (r, map_of store')"
    "bt_ok store \<longrightarrow> bt_ok store'" by blast
  moreover from assms(1) obtain out where "enc_result kc r = Inr out"
    by (auto simp: codec_ok_def)
  ultimately show "\<exists>r out store'. kv_execute kc b store = Ok out store' \<and> enc_result kc r = Inr out \<and>
      kv_spec kop (map_of store) = (r, map_of store') \<and> bt_ok store'"
    using assms(3,5) by (auto simp: kv_execute_def app_execute_def)
next
  have "\<exists>out. enc_result yc r = Inr out" for r using assms(2) by (auto simp: codec_ok_def)
  then show "case ycsb_spec fx yop (map_of m) of
       None \<Rightarrow> btree_execute fx yc b' m = Err (Panic ''index out of bounds'') m
     | Some (r, m'') \<Rightarrow> \<exists>out m'. btree_execute fx yc b' m = Ok out m' \<and> enc_result yc r = Inr out \<and>
         map_of m' = m'' \<and> bt_ok m'"
    using bt_apply_refines [OF assms(4), of fx yop] assms(6)
    by (cases "ycsb_spec fx yop (map_of m)") (force simp: btree_execute_def app_execute_def)+
qed

theorem stores_refine_map_witness:
  "(\<exists>out store'. kv_execute plain_kv (put_kv_op (Append ''a'' ''c'')) [(''a'', ''b'')] = Ok out store' \<and>
      map_of store' = [''a'' \<mapsto> ''bc'']) \<and>
   (\<exists>out m'. btree_execute length plain_ycsb (put_ycsb_op (Update ''k'' 1 ''z'')) [(''k'', [''x'', ''y''])] =
      Ok out m' \<and> map_of m' = [''k'' \<mapsto> [''x'', ''z'']])"
proof -
  have "bt_ok [(''a'', ''b'')]" "bt_ok [(''k'', [''x'', ''y''])]" by simp_all
  note stores_refine_map [OF plain_kv_ok plain_ycsb_ok this plain_decodes,
      where kop = "Append ''a'' ''c''" and yop = "Update ''k'' 1 ''z''" and fx = length]
  then show ?thesis
    by (auto simp: Let_def simp del: put_kv_op.simps put_ycsb_op.simps)
qed

text \<open>Clients of \<open>InfinitePutGet\<close> with distinct namespaces that take turns on one new \<open>KVStore\<close> see,
  for whatever keys and non-empty values they draw, exactly the results they expect: no turn fails
  and no result differs from the expected one.
\<close>

theorem put_get_always_expected:
  assumes "codec_ok c" and "distinct namespaces"
    and "list_all (turn_ok (length namespaces)) turns"
  shows "\<exists>s'. put_get_turns c turns (map put_get_new namespaces, kv_new) =
    Ok (map (\<lambda>_. True) turns) s'"
  using put_get_turns_agree [OF assms(1) _ put_get_new_agree [OF assms(2)]] assms(3) by simp

theorem put_get_always_expected_witness:
  "\<exists>s'. put_get_turns plain_kv [(0, 3, ''v''), (1, 3, ''w''), (0, 3, ''x''), (1, 2, ''y'')]
      (map put_get_new [''a'', ''b''], kv_new) = Ok [True, True, True, True] s'"
  using put_get_always_expected [of plain_kv "[''a'', ''b'']"
      "[(0, 3, ''v''), (1, 3, ''w''), (0, 3, ''x''), (1, 2, ''y'')]"]
  by (simp add: turn_ok_def)

end
