(* ===== verification/Unrep_Check.thy ===== *)
theory Unrep_Check
  imports Unreplicated Apps
begin

text \<open>
  The module \<open>check\<close> of \<open>src/src/unreplicated.rs\<close>: the state that the model checker explores, with
  clients, their closed loops and timers, the replica over a \<open>KVStore\<close> and the set of messages sent
  so far; the events of a state, \<open>step\<close>, \<open>launch\<close>, \<open>flush\<close> and the dry state.

  A \<open>BTreeSet\<close> of messages is a sorted list without repetitions; the order of messages is the derived
  one (\<open>event_key\<close>). A \<open>Transient\<close> buffer is a channel that never closes; draining it empties it. The
  loop of \<open>flush\<close> that delivers invocations and upcalls until none is left is \<open>flush_rerun\<close>; it ends.

  \<open>Instant::now()\<close> is the argument \<open>now\<close>, the same for all calls of one step.
\<close>

section \<open>Messages and their order\<close>

datatype addr = AddrClient nat | AddrReplica

datatype message = MRequest "addr request" | MReply unrep_reply

datatype message_event = MessageEvent (me_dest: addr) (me_message: message)

fun addr_key :: "addr \<Rightarrow> nat list" where
  "addr_key (AddrClient i) = [0, i]"
| "addr_key AddrReplica = [1]"

fun message_key :: "message \<Rightarrow> nat list list" where
  "message_key (MRequest rq) =
     [[0], [unat (rq_client_id rq)], addr_key (rq_client_addr rq), [unat (rq_seq rq)],
      map unat (rq_op rq)]"
| "message_key (MReply r) = [[1], [unat (ur_seq r)], map unat (ur_result r)]"

definition event_key :: "message_event \<Rightarrow> nat list list" where
  "event_key m = addr_key (me_dest m) # message_key (me_message m)"

lemma addr_key_inject [simp]: "addr_key a = addr_key b \<longleftrightarrow> a = b"
  by (cases a; cases b) auto

lemma map_unat_inject: "map unat (xs :: u8 list) = map unat ys \<longleftrightarrow> xs = ys"
  by (rule inj_map_eq_map) (simp add: inj_on_def word_unat_eq_iff)

lemma message_key_inject [simp]: "message_key m = message_key m' \<longleftrightarrow> m = m'"
  by (cases m; cases m') (auto simp: map_unat_inject word_unat_eq_iff [symmetric]
        intro: request.equality unrep_reply.equality)

lemma event_key_inject: "event_key x = event_key y \<longleftrightarrow> x = y"
  by (auto simp: event_key_def intro: message_event.expand)

instantiation message_event :: linorder
begin

definition less_eq_message_event :: "message_event \<Rightarrow> message_event \<Rightarrow> bool" where
  "less_eq_message_event x y \<longleftrightarrow> event_key x \<le> event_key y"

definition less_message_event :: "message_event \<Rightarrow> message_event \<Rightarrow> bool" where
  "less_message_event x y \<longleftrightarrow> event_key x < event_key y"

instance
proof
  fix x y z :: message_event
  show "x < y \<longleftrightarrow> x \<le> y \<and> \<not> y \<le> x" and "x \<le> x" and "x \<le> y \<or> y \<le> x"
    by (auto simp: less_eq_message_event_def less_message_event_def)
  show "x \<le> z" if "x \<le> y" "y \<le> z"
    using that by (auto simp: less_eq_message_event_def)
  show "x = y" if "x \<le> y" "y \<le> x"
    using that by (auto simp: less_eq_message_event_def event_key_inject)
qed

end

definition extend_messages :: "message_event list \<Rightarrow> message_event list \<Rightarrow> message_event list" where
  "extend_messages events new = fold insort_insert new events"

lemma set_extend_messages [simp]: "set (extend_messages events new) = set events \<union> set new"
  unfolding extend_messages_def by (induction new arbitrary: events) (auto simp: set_insort_insert)

section \<open>State\<close>

record ('w, 'at) client_state =
  cs_state :: "addr unrep_client"
  cs_timer :: linear_timer
  cs_close_loop :: "('w, 'at, unit) close_loop"

record ('w, 'at) check_state =
  ck_clients :: "('w, 'at) client_state list"
  ck_replica :: "(addr, string btree) unrep_replica"
  ck_message_events :: "message_event list"

datatype check_event = EvMessage message_event | EvTimer timer_id nat

definition check_state_new :: "('w, 'at) check_state" where
  "check_state_new =
     \<lparr>ck_clients = [], ck_replica = unrep_replica_new kv_new open_sink, ck_message_events = []\<rparr>"

definition check_client_id :: "nat \<Rightarrow> u32" where
  "check_client_id index = of_nat index + 1000"

definition push_client :: "'w \<Rightarrow> ('w, 'at) check_state \<Rightarrow> ('w, 'at) check_state" where
  "push_client workload s =
     (let index = length (ck_clients s) in
      s\<lparr>ck_clients := ck_clients s @
        [\<lparr>cs_state = unrep_client_new (check_client_id index) (AddrClient index) open_sink open_sink,
          cs_timer = linear_new,
          cs_close_loop = close_loop_new open_sink workload open_sink\<rparr>]\<rparr>)"

text \<open>\<open>Clone\<close>: a loop with some \<open>stop\<close> panics.\<close>

fun clone_clients ::
  "('w, 'at) client_state list \<Rightarrow> error + ('w, 'at) client_state list" where
  "clone_clients [] = Inr []"
| "clone_clients (c # cs) =
     (case close_loop_clone (cs_close_loop c) of
        Inl e \<Rightarrow> Inl e
      | Inr l \<Rightarrow> map_sum (\<lambda>e. e) (Cons (c\<lparr>cs_close_loop := l\<rparr>)) (clone_clients cs))"

definition check_clone :: "('w, 'at) check_state \<Rightarrow> error + ('w, 'at) check_state" where
  "check_clone s = map_sum (\<lambda>e. e) (\<lambda>cs. s\<lparr>ck_clients := cs\<rparr>) (clone_clients (ck_clients s))"

definition check_events :: "('w, 'at) check_state \<Rightarrow> check_event list" where
  "check_events s =
     map EvMessage (ck_message_events s) @
     concat (map (\<lambda>(index, client). map (\<lambda>i. EvTimer i index) (linear_events (cs_timer client)))
       (enumerate 0 (ck_clients s)))"

section \<open>flush\<close>

definition linear_service :: "linear_timer plain_timer" where
  "linear_service = \<lparr>pt_set = linear_set, pt_unset = linear_unset\<rparr>"

definition client_call ::
  "(addr unrep_client \<times> linear_timer \<Rightarrow> (unit, addr unrep_client \<times> linear_timer) outcome) \<Rightarrow>
   ('w, 'at) client_state \<Rightarrow> (unit, ('w, 'at) client_state) outcome" where
  "client_call f c =
     lift_outcome (\<lambda>(st, t). c\<lparr>cs_state := st, cs_timer := t\<rparr>) (f (cs_state c, cs_timer c))"

fun deliver_invokes ::
  "payload list \<Rightarrow> ('w, 'at) client_state \<Rightarrow> (unit, ('w, 'at) client_state) outcome" where
  "deliver_invokes [] c = Ok () c"
| "deliver_invokes (op # ops) c =
     and_then (client_call (unrep_on_invoke linear_service op) c) (\<lambda>_. deliver_invokes ops)"

fun deliver_upcalls ::
  "('w, 'at) workload \<Rightarrow> instant \<Rightarrow> (u32 \<times> payload) list \<Rightarrow> ('w, 'at) client_state \<Rightarrow>
   (unit, ('w, 'at) client_state) outcome" where
  "deliver_upcalls wl now [] c = Ok () c"
| "deliver_upcalls wl now ((_, result) # upcalls) c =
     and_then (lift_outcome (\<lambda>l. c\<lparr>cs_close_loop := l\<rparr>) (on_invoke_ok wl now result (cs_close_loop c)))
       (\<lambda>_. deliver_upcalls wl now upcalls)"

definition drain_sender :: "('w, 'at) client_state \<Rightarrow> ('w, 'at) client_state" where
  "drain_sender c =
     c\<lparr>cs_close_loop := (cs_close_loop c)\<lparr>cl_sender := (cl_sender (cs_close_loop c))\<lparr>sent := []\<rparr>\<rparr>\<rparr>"

definition drain_upcall :: "('w, 'at) client_state \<Rightarrow> ('w, 'at) client_state" where
  "drain_upcall c =
     c\<lparr>cs_state := (cs_state c)\<lparr>uc_upcall := (uc_upcall (cs_state c))\<lparr>sent := []\<rparr>\<rparr>\<rparr>"

definition drain_net :: "('w, 'at) client_state \<Rightarrow> ('w, 'at) client_state" where
  "drain_net c =
     c\<lparr>cs_state := (cs_state c)\<lparr>uc_net := (uc_net (cs_state c))\<lparr>sent := []\<rparr>\<rparr>\<rparr>"

abbreviation pending_invokes :: "('w, 'at) client_state \<Rightarrow> payload list" where
  "pending_invokes c \<equiv> sent (cl_sender (cs_close_loop c))"

abbreviation pending_upcalls :: "('w, 'at) client_state \<Rightarrow> (u32 \<times> payload) list" where
  "pending_upcalls c \<equiv> sent (uc_upcall (cs_state c))"

lemma unrep_on_invoke_Ok:
  assumes "unrep_on_invoke linear_service op (c, t) = Ok () (c', t')"
  shows "uc_invoke c = None \<and> (\<exists>i. c' = c\<lparr>uc_seq := uc_seq c + 1,
      uc_invoke := Some \<lparr>ui_op = op, ui_resend_timer = i\<rparr>,
      uc_net := (uc_net c)\<lparr>sent := sent (uc_net c) @
        [(0, \<lparr>rq_client_id = uc_id c, rq_client_addr = uc_addr c, rq_seq = uc_seq c + 1,
              rq_op = op\<rparr>)]\<rparr>\<rparr>)"
  using assms
  by (auto simp: unrep_on_invoke_def unrep_do_send_def Let_def and_then_Ok_iff
      lift_outcome_Ok_iff split: if_splits)

lemma deliver_invokes_keeps:
  "deliver_invokes ops c = Ok () c' \<Longrightarrow>
     cs_close_loop c' = cs_close_loop c \<and> uc_upcall (cs_state c') = uc_upcall (cs_state c)"
proof (induction ops arbitrary: c)
  case (Cons op ops)
  then obtain st t where "unrep_on_invoke linear_service op (cs_state c, cs_timer c) = Ok () (st, t)"
    "deliver_invokes ops (c\<lparr>cs_state := st, cs_timer := t\<rparr>) = Ok () c'"
    by (auto simp: client_call_def and_then_Ok_iff lift_outcome_Ok_iff)
  with Cons.IH [OF this(2)] unrep_on_invoke_Ok [OF this(1)] show ?case by auto
qed simp

lemma on_invoke_ok_sends:
  assumes "on_invoke_ok wl now result l = Ok () l'"
  shows "length (sent (cl_sender l')) \<le> Suc (length (sent (cl_sender l)))"
proof -
  from assms obtain at where at: "cl_attach l = Some at"
    by (auto simp: on_invoke_ok_def split: option.splits)
  then obtain w where w: "wl_result wl now result at (cl_workload l) = Ok () w"
    using assms by (cases "wl_result wl now result at (cl_workload l)")
      (auto simp: on_invoke_ok_def Let_def)
  then obtain r w' where "wl_next wl now w = Ok r w'"
    using assms at by (cases "wl_next wl now w") (auto simp: on_invoke_ok_def Let_def)
  with assms at w show ?thesis
    by (cases r)
      (auto simp: on_invoke_ok_def close_loop_send_def Let_def split: option.splits if_splits)
qed

lemma deliver_upcalls_sends:
  "deliver_upcalls wl now upcalls c = Ok () c' \<Longrightarrow>
     cs_state c' = cs_state c \<and> length (pending_invokes c') \<le> length (pending_invokes c) + length upcalls"
proof (induction upcalls arbitrary: c)
  case (Cons u upcalls)
  obtain i result where u: "u = (i, result)" by (cases u)
  with Cons.prems obtain l where "on_invoke_ok wl now result (cs_close_loop c) = Ok () l"
    "deliver_upcalls wl now upcalls (c\<lparr>cs_close_loop := l\<rparr>) = Ok () c'"
    by (auto simp: and_then_Ok_iff lift_outcome_Ok_iff)
  with Cons.IH [OF this(2)] on_invoke_ok_sends [OF this(1)] show ?case by simp
qed simp

lemma and_then_cong [fundef_cong]:
  "\<lbrakk>m = m'; \<And>a s. m' = Ok a s \<Longrightarrow> f a s = f' a s\<rbrakk> \<Longrightarrow> and_then m f = and_then m' f'"
  by (cases m') auto

text \<open>
  The loop of \<open>flush\<close>. Delivering an invocation makes no upcall, and an upcall at most one invocation,
  so it ends.
\<close>

function flush_rerun ::
  "('w, 'at) workload \<Rightarrow> instant \<Rightarrow> ('w, 'at) client_state \<Rightarrow> (unit, ('w, 'at) client_state) outcome" where
  "flush_rerun wl now c =
     (let invokes = pending_invokes c in
      and_then (deliver_invokes invokes (drain_sender c)) (\<lambda>_ c1.
        let upcalls = pending_upcalls c1 in
        and_then (deliver_upcalls wl now upcalls (drain_upcall c1)) (\<lambda>_ c2.
          if invokes = [] \<and> upcalls = [] then Ok () c2 else flush_rerun wl now c2)))"
  by pat_completeness auto
termination
proof (relation "measure (\<lambda>(wl, now, c). length (pending_invokes c) + 2 * length (pending_upcalls c))")
  fix wl :: "('w, 'at) workload" and now c invokes a c1 upcalls b c2
  assume i: "invokes = pending_invokes c" and c1: "deliver_invokes invokes (drain_sender c) = Ok a c1"
    and u: "upcalls = pending_upcalls c1"
    and c2: "deliver_upcalls wl now upcalls (drain_upcall c1) = Ok b c2"
    and more: "\<not> (invokes = [] \<and> upcalls = [])"
  from deliver_invokes_keeps [of invokes "drain_sender c" c1] c1
  have "pending_invokes c1 = []" and eq: "pending_upcalls c1 = pending_upcalls c"
    by (simp_all add: drain_sender_def)
  with deliver_upcalls_sends [of wl now upcalls "drain_upcall c1" c2] c2
  have "pending_upcalls c2 = []" "length (pending_invokes c2) \<le> length upcalls"
    by (simp_all add: drain_upcall_def)
  moreover have "length invokes + length upcalls > 0" using more by auto
  moreover have "length invokes = length (pending_invokes c)"
    "length upcalls = length (pending_upcalls c)" using i u eq by simp_all
  ultimately have "length (pending_invokes c2) + 2 * length (pending_upcalls c2) <
      length (pending_invokes c) + 2 * length (pending_upcalls c)"
    by (simp only: list.size)
  then show "((wl, now, c2), wl, now, c) \<in>
      measure (\<lambda>(wl, now, c). length (pending_invokes c) + 2 * length (pending_upcalls c))"
    by simp
qed simp

declare flush_rerun.simps [simp del]

definition client_messages :: "('w, 'at) client_state \<Rightarrow> message_event list" where
  "client_messages c =
     map (\<lambda>(_, rq). MessageEvent AddrReplica (MRequest rq)) (sent (uc_net (cs_state c)))"

fun flush_clients ::
  "('w, 'at) workload \<Rightarrow> instant \<Rightarrow> ('w, 'at) client_state list \<Rightarrow> message_event list \<Rightarrow>
   (unit, ('w, 'at) client_state list \<times> message_event list) outcome" where
  "flush_clients wl now [] events = Ok () ([], events)"
| "flush_clients wl now (c # cs) events =
     (let events' = extend_messages events (client_messages c) in
      case flush_rerun wl now (drain_net c) of
        Err e c' \<Rightarrow> Err e (c' # cs, events')
      | Ok _ c' \<Rightarrow> lift_outcome (\<lambda>(cs', es). (c' # cs', es)) (flush_clients wl now cs events'))"

definition replica_messages :: "(addr, 'app) unrep_replica \<Rightarrow> message_event list" where
  "replica_messages r = map (\<lambda>(addr, reply). MessageEvent addr (MReply reply)) (sent (urep_net r))"

definition check_flush ::
  "('w, 'at) workload \<Rightarrow> instant \<Rightarrow> ('w, 'at) check_state \<Rightarrow> (unit, ('w, 'at) check_state) outcome" where
  "check_flush wl now s =
     (let r = ck_replica s;
          s1 = s\<lparr>ck_message_events := extend_messages (ck_message_events s) (replica_messages r),
                 ck_replica := r\<lparr>urep_net := (urep_net r)\<lparr>sent := []\<rparr>\<rparr>\<rparr>
      in lift_outcome (\<lambda>(cs, events). s1\<lparr>ck_clients := cs, ck_message_events := events\<rparr>)
           (flush_clients wl now (ck_clients s1) (ck_message_events s1)))"

section \<open>step and launch\<close>

definition with_client ::
  "nat \<Rightarrow> (('w, 'at) client_state \<Rightarrow> (unit, ('w, 'at) client_state) outcome) \<Rightarrow>
   ('w, 'at) check_state \<Rightarrow> (unit, ('w, 'at) check_state) outcome" where
  "with_client index f s =
     (if index < length (ck_clients s) then
        lift_outcome (\<lambda>c. s\<lparr>ck_clients := (ck_clients s)[index := c]\<rparr>) (f (ck_clients s ! index))
      else Err (Panic ''index out of bounds'') s)"

fun check_dispatch ::
  "(kv_op, kv_result) codec \<Rightarrow> check_event \<Rightarrow> ('w, 'at) check_state \<Rightarrow>
   (unit, ('w, 'at) check_state) outcome" where
  "check_dispatch codec (EvMessage (MessageEvent AddrReplica (MRequest m))) s =
     lift_outcome (\<lambda>r. s\<lparr>ck_replica := r\<rparr>) (unrep_on_request (kv_execute codec) m (ck_replica s))"
| "check_dispatch codec (EvMessage (MessageEvent (AddrClient index) (MReply m))) s =
     with_client index (client_call (unrep_on_reply linear_service m)) s"
| "check_dispatch codec (EvTimer i index) s =
     with_client index (client_call (\<lambda>(c, t).
       and_then (lift_outcome (Pair c) (linear_step_timer i t)) (\<lambda>_ (c, t).
         lift_outcome (\<lambda>c. (c, t)) (unrep_client_on_timer i c)))) s"
| "check_dispatch codec _ s = Err (Bail ''unexpected event'') s"

definition check_step ::
  "('w, 'at) workload \<Rightarrow> (kv_op, kv_result) codec \<Rightarrow> instant \<Rightarrow> check_event \<Rightarrow>
   ('w, 'at) check_state \<Rightarrow> (unit, ('w, 'at) check_state) outcome" where
  "check_step wl codec now event s =
     and_then (check_dispatch codec event s) (\<lambda>_. check_flush wl now)"

fun launch_clients ::
  "('w, 'at) workload \<Rightarrow> instant \<Rightarrow> ('w, 'at) client_state list \<Rightarrow>
   (unit, ('w, 'at) client_state list) outcome" where
  "launch_clients wl now [] = Ok () []"
| "launch_clients wl now (c # cs) =
     (case lift_outcome (\<lambda>l. c\<lparr>cs_close_loop := l\<rparr>) (on_init wl now (cs_close_loop c)) of
        Err e c' \<Rightarrow> Err e (c' # cs)
      | Ok _ c' \<Rightarrow> lift_outcome (Cons c') (launch_clients wl now cs))"

definition check_launch ::
  "('w, 'at) workload \<Rightarrow> instant \<Rightarrow> ('w, 'at) check_state \<Rightarrow> (unit, ('w, 'at) check_state) outcome" where
  "check_launch wl now s =
     and_then (lift_outcome (\<lambda>cs. s\<lparr>ck_clients := cs\<rparr>) (launch_clients wl now (ck_clients s)))
       (\<lambda>_. check_flush wl now)"

section \<open>The dry state\<close>

record 't dry_client =
  dc_id :: u32
  dc_addr :: addr
  dc_seq :: u32
  dc_invoke :: "unrep_invoke option"
  dc_close_loop :: 't

record 't dry_state =
  ds_clients :: "'t dry_client list"
  ds_replies :: "(u32, unrep_reply) hmap"
  ds_app :: "string btree"
  ds_message_events :: "message_event list"

definition dry_close_loop :: "('w \<Rightarrow> 't) \<Rightarrow> ('w, 'at, 'f) close_loop \<Rightarrow> 't" where
  "dry_close_loop into l = into (cl_workload l)"

definition dry :: "('w \<Rightarrow> 't) \<Rightarrow> ('w, 'at) check_state \<Rightarrow> 't dry_state" where
  "dry into s =
     \<lparr>ds_clients = map (\<lambda>c. \<lparr>dc_id = uc_id (cs_state c), dc_addr = uc_addr (cs_state c),
        dc_seq = uc_seq (cs_state c), dc_invoke = uc_invoke (cs_state c),
        dc_close_loop = dry_close_loop into (cs_close_loop c)\<rparr>) (ck_clients s),
      ds_replies = urep_replies (ck_replica s), ds_app = urep_app (ck_replica s),
      ds_message_events = ck_message_events s\<rparr>"

text \<open>The states the checker reaches: \<open>n\<close> events after the launch.\<close>

inductive check_reach ::
  "('w, 'at) workload \<Rightarrow> (kv_op, kv_result) codec \<Rightarrow> 'w list \<Rightarrow> nat \<Rightarrow> ('w, 'at) check_state \<Rightarrow> bool"
  for wl codec ws where
  launched: "check_launch wl now (fold push_client ws check_state_new) = Ok () s \<Longrightarrow>
    check_reach wl codec ws 0 s"
| stepped: "\<lbrakk>check_reach wl codec ws n s; event \<in> set (check_events s);
     check_step wl codec now event s = Ok () s'\<rbrakk> \<Longrightarrow> check_reach wl codec ws (Suc n) s'"

end
