(* ===== verification/Unrep_Safety.thy ===== *)
theory Unrep_Safety
  imports Unrep_Check
begin

text \<open>
  What the states that the model checker explores have in common (\<open>src/src/unreplicated.rs\<close>, module
  \<open>check\<close>): there is one log of executed requests, and what each client has recorded is its part of
  that log, at most its last entry missing.

  A client goes through four phases: it is idle, an invocation is pending, its result waits for the
  closed loop, or the next operation waits for the client. \<open>flush\<close> leaves every client in one of the
  first two.
\<close>

section \<open>Phases of a client\<close>

type_synonym ('w, 'at) rec_client = "('w recorded, payload \<times> 'at) client_state"

definition entries :: "nat \<Rightarrow> addr unrep_log \<Rightarrow> (payload \<times> payload) list" where
  "entries i log = map (\<lambda>x. (rq_op (fst x), snd x)) (logged_for (check_client_id i) log)"

definition numbered :: "nat \<Rightarrow> addr unrep_log \<Rightarrow> bool" where
  "numbered i log \<longleftrightarrow>
     map (\<lambda>x. unat (rq_seq (fst x))) (logged_for (check_client_id i) log) = [1..<Suc (length (entries i log))]"

abbreviation seq_of :: "('w, 'at) client_state \<Rightarrow> nat" where
  "seq_of c \<equiv> unat (uc_seq (cs_state c))"

abbreviation invoke_of :: "('w, 'at) client_state \<Rightarrow> unrep_invoke option" where
  "invoke_of c \<equiv> uc_invoke (cs_state c)"

abbreviation invocations_of :: "('w, 'at) rec_client \<Rightarrow> (payload \<times> payload) list" where
  "invocations_of c \<equiv> rec_invocations (cl_workload (cs_close_loop c))"

datatype phase = Idle | Pending | Replied | Invoking

fun in_phase :: "phase \<Rightarrow> (payload \<times> payload) list \<Rightarrow> ('w, 'at) rec_client \<Rightarrow> bool" where
  "in_phase Idle E c \<longleftrightarrow> pending_upcalls c = [] \<and> pending_invokes c = [] \<and>
     invoke_of c = None \<and> seq_of c = length E \<and> invocations_of c = E"
| "in_phase Pending E c \<longleftrightarrow> pending_upcalls c = [] \<and> pending_invokes c = [] \<and>
     (\<exists>inv at. invoke_of c = Some inv \<and> cl_attach (cs_close_loop c) = Some (ui_op inv, at) \<and>
       (seq_of c = Suc (length E) \<and> invocations_of c = E \<or>
        seq_of c = length E \<and> E \<noteq> [] \<and> fst (last E) = ui_op inv \<and> invocations_of c = butlast E))"
| "in_phase Replied E c \<longleftrightarrow> pending_invokes c = [] \<and> invoke_of c = None \<and> E \<noteq> [] \<and>
     seq_of c = length E \<and> invocations_of c = butlast E \<and>
     (\<exists>i at. pending_upcalls c = [(i, snd (last E))] \<and>
       cl_attach (cs_close_loop c) = Some (fst (last E), at))"
| "in_phase Invoking E c \<longleftrightarrow> pending_upcalls c = [] \<and> invoke_of c = None \<and> seq_of c = length E \<and>
     invocations_of c = E \<and>
     (\<exists>op at. pending_invokes c = [op] \<and> cl_attach (cs_close_loop c) = Some (op, at))"

definition settled :: "(payload \<times> payload) list \<Rightarrow> ('w, 'at) rec_client \<Rightarrow> bool" where
  "settled E c \<longleftrightarrow> in_phase Idle E c \<or> in_phase Pending E c"

definition client_base :: "nat \<Rightarrow> ('w, 'at) client_state \<Rightarrow> bool" where
  "client_base i c \<longleftrightarrow> uc_id (cs_state c) = check_client_id i \<and> uc_addr (cs_state c) = AddrClient i"

text \<open>A request in flight is of an operation that was executed, or of the pending one.\<close>

definition request_ok ::
  "nat \<Rightarrow> (payload \<times> payload) list \<Rightarrow> ('w, 'at) client_state \<Rightarrow> addr request \<Rightarrow> bool" where
  "request_ok i E c rq \<longleftrightarrow> rq_client_addr rq = AddrClient i \<and> rq_client_id rq = check_client_id i \<and>
     1 \<le> unat (rq_seq rq) \<and> unat (rq_seq rq) \<le> seq_of c \<and>
     (unat (rq_seq rq) \<le> length E \<or> (\<exists>inv. invoke_of c = Some inv \<and> ui_op inv = rq_op rq))"

definition reply_ok :: "(payload \<times> payload) list \<Rightarrow> unrep_reply \<Rightarrow> bool" where
  "reply_ok E r \<longleftrightarrow> 1 \<le> unat (ur_seq r) \<and> unat (ur_seq r) \<le> length E \<and>
     ur_result r = snd (E ! (unat (ur_seq r) - 1))"

lemma settled_some_phase: "settled E c \<Longrightarrow> \<exists>p. in_phase p E c"
  unfolding settled_def by blast

lemma in_phase_cong:
  "cs_state c = cs_state d \<Longrightarrow> cs_close_loop c = cs_close_loop d \<Longrightarrow> in_phase p E c = in_phase p E d"
  by (cases p) simp_all

section \<open>What \<open>flush\<close> does to a client\<close>

lemma drain_sender_nothing [simp]: "pending_invokes c = [] \<Longrightarrow> drain_sender c = c"
  by (cases c; cases "cs_close_loop c"; cases "cl_sender (cs_close_loop c)") (simp add: drain_sender_def)

lemma drain_upcall_nothing [simp]: "pending_upcalls c = [] \<Longrightarrow> drain_upcall c = c"
  by (cases c; cases "cs_state c"; cases "uc_upcall (cs_state c)") (simp add: drain_upcall_def)

lemma flush_rerun_nothing:
  "pending_invokes c = [] \<Longrightarrow> pending_upcalls c = [] \<Longrightarrow> flush_rerun wl now c = Ok () c"
  by (subst flush_rerun.simps) simp

lemma recorded_result:
  assumes "on_invoke_ok (recorded_workload wl) now result l = Ok () l'"
    and "cl_attach l = Some (op, at)"
  shows "rec_invocations (cl_workload l') = rec_invocations (cl_workload l) @ [(op, result)]"
    and "sent (cl_sender l') = sent (cl_sender l) \<or>
      (\<exists>op' at'. cl_attach l' = Some (op', at') \<and> sent (cl_sender l') = sent (cl_sender l) @ [op'])"
proof -
  obtain i where r: "wl_result wl now result at (rec_inner (cl_workload l)) = Ok () i"
    using assms by (cases "wl_result wl now result at (rec_inner (cl_workload l))")
      (auto simp: on_invoke_ok_def recorded_workload_def Let_def)
  then obtain x i' where n: "wl_next wl now i = Ok x i'"
    using assms by (cases "wl_next wl now i") (auto simp: on_invoke_ok_def recorded_workload_def Let_def)
  from assms r n show "rec_invocations (cl_workload l') = rec_invocations (cl_workload l) @ [(op, result)]"
    by (cases x) (auto simp: on_invoke_ok_def recorded_workload_def close_loop_send_def Let_def
        split: option.splits if_splits)
  from assms r n show "sent (cl_sender l') = sent (cl_sender l) \<or>
      (\<exists>op' at'. cl_attach l' = Some (op', at') \<and> sent (cl_sender l') = sent (cl_sender l) @ [op'])"
    by (cases x) (auto simp: on_invoke_ok_def recorded_workload_def close_loop_send_def Let_def
        split: option.splits if_splits)
qed

text \<open>What a flush may do: nothing that matters, or the next invocation.\<close>

definition flushed :: "nat \<Rightarrow> (payload \<times> payload) list \<Rightarrow> ('w, 'at) rec_client \<Rightarrow> ('w, 'at) rec_client \<Rightarrow> bool" where
  "flushed i E c c' \<longleftrightarrow> settled E c' \<and> client_base i c' \<and>
     (seq_of c' = seq_of c \<and> invoke_of c' = invoke_of c \<and> uc_net (cs_state c') = uc_net (cs_state c) \<or>
      seq_of c' = Suc (seq_of c) \<and> seq_of c = length E \<and>
      (\<exists>rq. request_ok i E c' rq \<and>
         sent (uc_net (cs_state c')) = sent (uc_net (cs_state c)) @ [(0, rq)]))"

lemma flushed_same:
  "settled E c \<Longrightarrow> client_base i c \<Longrightarrow> flushed i E c c"
  by (simp add: flushed_def)

lemma flush_invoking:
  assumes "in_phase Invoking E c" and "client_base i c" and "Suc (seq_of c) < 2 ^ 32"
    and "flush_rerun (recorded_workload wl) now c = Ok () c'"
  shows "flushed i E c c'"
proof -
  from assms(1) obtain op at where c: "pending_invokes c = [op]"
    "cl_attach (cs_close_loop c) = Some (op, at)" "pending_upcalls c = []" by auto
  from assms(4) c obtain st t where
    call: "unrep_on_invoke linear_service op (cs_state c, cs_timer c) = Ok () (st, t)"
    and c1: "flush_rerun (recorded_workload wl) now
      (drain_upcall ((drain_sender c)\<lparr>cs_state := st, cs_timer := t\<rparr>)) = Ok () c' \<or>
      c' = drain_upcall ((drain_sender c)\<lparr>cs_state := st, cs_timer := t\<rparr>)"
    using unrep_on_invoke_Ok
    by (subst (asm) flush_rerun.simps)
      (fastforce simp: Let_def and_then_Ok_iff client_call_def lift_outcome_Ok_iff drain_sender_def
        split: if_splits)
  from unrep_on_invoke_Ok [OF call] obtain j where
    st: "st = (cs_state c)\<lparr>uc_seq := uc_seq (cs_state c) + 1,
      uc_invoke := Some \<lparr>ui_op = op, ui_resend_timer = j\<rparr>,
      uc_net := (uc_net (cs_state c))\<lparr>sent := sent (uc_net (cs_state c)) @
        [(0, \<lparr>rq_client_id = uc_id (cs_state c), rq_client_addr = uc_addr (cs_state c),
              rq_seq = uc_seq (cs_state c) + 1, rq_op = op\<rparr>)]\<rparr>\<rparr>" by blast
  let ?c = "(drain_sender c)\<lparr>cs_state := st, cs_timer := t\<rparr>"
  have "pending_upcalls ?c = []" "pending_invokes ?c = []"
    using c st by (simp_all add: drain_sender_def)
  with c1 have c': "c' = ?c" by (auto simp: flush_rerun_nothing)
  have k: "unat (uc_seq (cs_state c) + 1) = Suc (seq_of c)"
    using assms(3) by (simp add: unat_word_ariths)
  have "settled E c'"
    using assms(1) c c' st k by (auto simp: settled_def drain_sender_def)
  moreover have "client_base i c'" using assms(2) c' st by (simp add: client_base_def)
  ultimately show ?thesis
    using assms(1,2) c' st k by (auto simp: flushed_def request_ok_def client_base_def)
qed

lemma flush_replied:
  assumes "in_phase Replied E c" and "client_base i c" and "Suc (seq_of c) < 2 ^ 32"
    and "flush_rerun (recorded_workload wl) now c = Ok () c'"
  shows "flushed i E c c'"
proof -
  from assms(1) obtain j at where c: "pending_upcalls c = [(j, snd (last E))]"
    "cl_attach (cs_close_loop c) = Some (fst (last E), at)" "pending_invokes c = []" by auto
  from assms(4) c obtain l where
    l: "on_invoke_ok (recorded_workload wl) now (snd (last E)) (cs_close_loop (drain_upcall c)) = Ok () l"
    and c1: "flush_rerun (recorded_workload wl) now ((drain_upcall c)\<lparr>cs_close_loop := l\<rparr>) = Ok () c'"
    by (subst (asm) flush_rerun.simps)
      (auto simp: Let_def and_then_Ok_iff lift_outcome_Ok_iff)
  let ?c = "(drain_upcall c)\<lparr>cs_close_loop := l\<rparr>"
  have loop: "cs_close_loop (drain_upcall c) = cs_close_loop c" by (simp add: drain_upcall_def)
  from recorded_result [OF l] c have
    inv: "rec_invocations (cl_workload l) = invocations_of c @ [last E]"
    and out: "sent (cl_sender l) = [] \<or>
      (\<exists>op' at'. cl_attach l = Some (op', at') \<and> sent (cl_sender l) = [op'])"
    by (auto simp: loop)
  have base: "client_base i ?c" "seq_of ?c = seq_of c" "invoke_of ?c = invoke_of c"
    "uc_net (cs_state ?c) = uc_net (cs_state c)"
    using assms(2) by (simp_all add: client_base_def drain_upcall_def)
  from out show ?thesis
  proof
    assume e: "sent (cl_sender l) = []"
    then have "in_phase Idle E ?c" using assms(1) inv by (simp add: drain_upcall_def)
    moreover from this have "c' = ?c" using c1 by (simp add: flush_rerun_nothing)
    ultimately show ?thesis using base by (simp add: flushed_def settled_def)
  next
    assume "\<exists>op' at'. cl_attach l = Some (op', at') \<and> sent (cl_sender l) = [op']"
    then have "in_phase Invoking E ?c" using assms(1) inv by (auto simp: drain_upcall_def)
    from flush_invoking [OF this base(1) _ c1] assms(3) base(2) have f: "flushed i E ?c c'" by simp
    with base show ?thesis unfolding flushed_def by metis
  qed
qed

lemma flush_phase:
  assumes "in_phase p E c" and "client_base i c" and "Suc (seq_of c) < 2 ^ 32"
    and "flush_rerun (recorded_workload wl) now c = Ok () c'"
  shows "flushed i E c c'"
proof (cases p)
  case Replied
  with assms show ?thesis using flush_replied by blast
next
  case Invoking
  with assms show ?thesis using flush_invoking by blast
qed (use assms in \<open>auto simp: flush_rerun_nothing flushed_def settled_def\<close>)

section \<open>The whole state\<close>

fun message_ok :: "addr unrep_log \<Rightarrow> ('w, 'at) client_state list \<Rightarrow> message_event \<Rightarrow> bool" where
  "message_ok log cs (MessageEvent AddrReplica (MRequest rq)) \<longleftrightarrow>
     (\<exists>i<length cs. request_ok i (entries i log) (cs ! i) rq)"
| "message_ok log cs (MessageEvent (AddrClient i) (MReply r)) \<longleftrightarrow>
     i < length cs \<and> reply_ok (entries i log) r"
| "message_ok log cs _ \<longleftrightarrow> False"

definition in_flight :: "('w, 'at) check_state \<Rightarrow> message_event set" where
  "in_flight s = set (ck_message_events s) \<union> set (replica_messages (ck_replica s)) \<union>
     (\<Union>c\<in>set (ck_clients s). set (client_messages c))"

definition clients_ok ::
  "((payload \<times> payload) list \<Rightarrow> ('w, 'at) rec_client \<Rightarrow> bool) \<Rightarrow> nat \<Rightarrow> addr unrep_log \<Rightarrow>
   ('w, 'at) rec_client list \<Rightarrow> bool" where
  "clients_ok P n log cs \<longleftrightarrow>
     (\<forall>i<length cs. numbered i log \<and> client_base i (cs ! i) \<and> P (entries i log) (cs ! i) \<and>
        seq_of (cs ! i) \<le> n)"

definition coherent ::
  "((payload \<times> payload) list \<Rightarrow> ('w, 'at) rec_client \<Rightarrow> bool) \<Rightarrow> (kv_op, kv_result) codec \<Rightarrow>
   nat \<Rightarrow> addr unrep_log \<Rightarrow> ('w recorded, payload \<times> 'at) check_state \<Rightarrow> bool" where
  "coherent P codec n log s \<longleftrightarrow> served (kv_execute codec) kv_new log (ck_replica s) \<and>
     clients_ok P n log (ck_clients s) \<and> (\<forall>m\<in>in_flight s. message_ok log (ck_clients s) m)"

abbreviation some_phase :: "(payload \<times> payload) list \<Rightarrow> ('w, 'at) rec_client \<Rightarrow> bool" where
  "some_phase E c \<equiv> \<exists>p. in_phase p E c"

text \<open>A message stays in order when the requests of each client do.\<close>

lemma message_ok_mono:
  assumes "message_ok log cs m" and "length cs' = length cs"
    and "\<And>i rq. i < length cs \<Longrightarrow> request_ok i (entries i log) (cs ! i) rq \<Longrightarrow>
      request_ok i (entries i log') (cs' ! i) rq"
    and "\<And>i r. i < length cs \<Longrightarrow> reply_ok (entries i log) r \<Longrightarrow> reply_ok (entries i log') r"
  shows "message_ok log' cs' m"
  using assms by (cases "(log, cs, m)" rule: message_ok.cases) auto

subsection \<open>flush\<close>

lemma drain_net_keeps [simp]:
  "in_phase p E (drain_net c) = in_phase p E c" "client_base i (drain_net c) = client_base i c"
  "uc_seq (cs_state (drain_net c)) = uc_seq (cs_state c)" "invoke_of (drain_net c) = invoke_of c"
  "sent (uc_net (cs_state (drain_net c))) = []"
  by (cases p; simp add: drain_net_def client_base_def)+

lemma flush_clients_Ok:
  "flush_clients wl now cs events = Ok () (cs', events') \<Longrightarrow>
     length cs' = length cs \<and>
     (\<forall>i<length cs. flush_rerun wl now (drain_net (cs ! i)) = Ok () (cs' ! i)) \<and>
     set events' = set events \<union> (\<Union>c\<in>set cs. set (client_messages c))"
proof (induction cs arbitrary: events cs')
  case (Cons c cs)
  let ?events = "extend_messages events (client_messages c)"
  from Cons.prems obtain c1 cs1 where c1: "flush_rerun wl now (drain_net c) = Ok () c1"
    "flush_clients wl now cs ?events = Ok () (cs1, events')" "cs' = c1 # cs1"
    by (auto simp: Let_def lift_outcome_Ok_iff split: outcome.splits)
  with Cons.IH [OF c1(2)] show ?case by (auto simp: less_Suc_eq_0_disj)
qed simp

lemma flushed_request_ok:
  assumes "flushed i E c c'" and "request_ok i E c rq"
  shows "request_ok i E c' rq"
  using assms by (auto simp: flushed_def request_ok_def)

lemma flush_coherent:
  assumes "coherent some_phase codec n log s" and "Suc n < 2 ^ 32"
    and "check_flush (recorded_workload wl) now s = Ok () s'"
  shows "coherent settled codec (Suc n) log s'"
proof -
  let ?cs = "ck_clients s" and ?r = "ck_replica s"
  let ?events = "extend_messages (ck_message_events s) (replica_messages ?r)"
  from assms(3) obtain cs' events' where
    f: "flush_clients (recorded_workload wl) now ?cs ?events = Ok () (cs', events')"
    and s': "ck_clients s' = cs'" "ck_message_events s' = events'"
      "ck_replica s' = ?r\<lparr>urep_net := (urep_net ?r)\<lparr>sent := []\<rparr>\<rparr>"
    by (auto simp: check_flush_def Let_def lift_outcome_Ok_iff)
  from flush_clients_Ok [OF f] have len: "length cs' = length ?cs"
    and each: "\<And>i. i < length ?cs \<Longrightarrow>
      flush_rerun (recorded_workload wl) now (drain_net (?cs ! i)) = Ok () (cs' ! i)"
    and ev: "set events' = in_flight s" by (auto simp: in_flight_def)
  from assms(1) have c: "\<And>i. i < length ?cs \<Longrightarrow> numbered i log \<and> client_base i (?cs ! i) \<and>
      some_phase (entries i log) (?cs ! i) \<and> seq_of (?cs ! i) \<le> n"
    by (auto simp: coherent_def clients_ok_def)
  have fl: "flushed i (entries i log) (drain_net (?cs ! i)) (cs' ! i)" if i: "i < length ?cs" for i
  proof -
    from c [OF i] obtain p where "in_phase p (entries i log) (drain_net (?cs ! i))" by auto
    from flush_phase [OF this _ _ each [OF i], of i] c [OF i] assms(2) show ?thesis by simp
  qed
  have req: "request_ok i (entries i log) (cs' ! i) rq"
    if i: "i < length ?cs" and r: "request_ok i (entries i log) (?cs ! i) rq" for i rq
  proof -
    from r have "request_ok i (entries i log) (drain_net (?cs ! i)) rq" by (simp add: request_ok_def)
    with flushed_request_ok [OF fl [OF i]] show ?thesis by simp
  qed
  have "clients_ok settled (Suc n) log cs'"
    unfolding clients_ok_def len
  proof (intro allI impI)
    fix i
    assume i: "i < length ?cs"
    from fl [OF i] c [OF i] show "numbered i log \<and> client_base i (cs' ! i) \<and>
        settled (entries i log) (cs' ! i) \<and> seq_of (cs' ! i) \<le> Suc n"
      by (auto simp: flushed_def)
  qed
  moreover have "message_ok log cs' m" if "m \<in> in_flight s" for m
    using message_ok_mono [OF _ len req] assms(1) that by (auto simp: coherent_def)
  moreover have "message_ok log cs' m" if m: "c \<in> set cs'" "m \<in> set (client_messages c)" for c m
  proof -
    from m(1) len obtain i where i: "i < length ?cs" "c = cs' ! i" by (auto simp: in_set_conv_nth)
    with fl [OF i(1)] m(2) obtain rq where "m = MessageEvent AddrReplica (MRequest rq)"
      "request_ok i (entries i log) (cs' ! i) rq" by (auto simp: flushed_def client_messages_def)
    with i len show ?thesis by auto
  qed
  ultimately show ?thesis
    using assms(1) s' ev
    by (auto simp: coherent_def in_flight_def replica_messages_def served_def)
qed

subsection \<open>The replica\<close>

lemma check_client_id_inject:
  assumes "i < 2 ^ 32" and "j < 2 ^ 32"
  shows "check_client_id i = check_client_id j \<longleftrightarrow> i = j"
proof -
  have "unat (of_nat k :: u32) = k" if "k < 2 ^ 32" for k
    using that by (simp add: unsigned_of_nat take_bit_nat_eq_self)
  then have "(of_nat i :: u32) = of_nat j \<longleftrightarrow> i = j" using assms by metis
  then show ?thesis by (simp add: check_client_id_def)
qed

lemma entries_snoc:
  "entries i (log @ [(rq, result)]) =
     entries i log @ (if rq_client_id rq = check_client_id i then [(rq_op rq, result)] else [])"
  by (simp add: entries_def)

lemma length_entries: "length (entries i log) = length (logged_for (check_client_id i) log)"
  by (simp add: entries_def)

lemma numbered_last:
  assumes "numbered i log" and "last_logged (check_client_id i) log = Some reply"
  shows "entries i log \<noteq> []" and "unat (ur_seq reply) = length (entries i log)"
    and "ur_result reply = snd (last (entries i log))"
proof -
  let ?L = "logged_for (check_client_id i) log"
  from assms(2) have n: "?L \<noteq> []" and r: "reply = log_reply (last ?L)"
    by (auto simp: last_logged_def split: if_splits)
  from n show e: "entries i log \<noteq> []" by (simp add: entries_def)
  from n r show "ur_result reply = snd (last (entries i log))"
    by (simp add: entries_def last_map log_reply_def)
  have "last (map (\<lambda>x. unat (rq_seq (fst x))) ?L) = length (entries i log)"
    using assms(1) e by (simp add: numbered_def Suc_le_eq)
  with n r show "unat (ur_seq reply) = length (entries i log)" by (simp add: last_map log_reply_def)
qed

lemma numbered_snoc:
  assumes "numbered i log" and "unat (rq_seq rq) = Suc (length (entries i log))"
  shows "numbered i (log @ [(rq, result)])"
  using assms by (simp add: numbered_def entries_snoc)

text \<open>An executed request of a settled client is its pending invocation.\<close>

lemma executed_pending:
  assumes "settled E c" and "request_ok i E c rq" and "length E < unat (rq_seq rq)"
  shows "in_phase Pending E c" and "seq_of c = Suc (length E)" and "unat (rq_seq rq) = Suc (length E)"
    and "in_phase Pending (E @ [(rq_op rq, result)]) c"
  using assms by (auto simp: settled_def request_ok_def)

lemma request_coherent:
  assumes "coherent settled codec n log s" and "length (ck_clients s) \<le> 2 ^ 32"
    and "MessageEvent AddrReplica (MRequest rq) \<in> in_flight s"
    and "unrep_on_request (kv_execute codec) rq (ck_replica s) = Ok () r'"
  shows "\<exists>log'. coherent settled codec n log' (s\<lparr>ck_replica := r'\<rparr>)"
proof -
  let ?cs = "ck_clients s" and ?r = "ck_replica s"
  from assms(1,3) have "message_ok log ?cs (MessageEvent AddrReplica (MRequest rq))"
    unfolding coherent_def by blast
  then obtain i where i: "i < length ?cs" and rq: "request_ok i (entries i log) (?cs ! i) rq" by auto
  then have rid: "rq_client_id rq = check_client_id i" and addr: "rq_client_addr rq = AddrClient i"
    by (simp_all add: request_ok_def)
  from assms(1) i have sv: "served (kv_execute codec) kv_new log ?r"
    and num: "numbered i log" and st: "settled (entries i log) (?cs ! i)"
    by (auto simp: coherent_def clients_ok_def)
  from sv have get: "hm_get (urep_replies ?r) (rq_client_id rq) = last_logged (check_client_id i) log"
    by (simp add: served_def rid)
  from sv assms(4) show ?thesis
  proof (cases rule: served_request)
    case old
    with assms(1) show ?thesis by (intro exI [of _ log]) simp
  next
    case (again reply)
    with get numbered_last [OF num, of reply] have "reply_ok (entries i log) reply"
      by (auto simp: reply_ok_def last_conv_nth Suc_le_eq)
    with again assms(1) i addr show ?thesis
      by (intro exI [of _ log]) (auto simp: coherent_def in_flight_def replica_messages_def served_def)
  next
    case (executed result)
    let ?log = "log @ [(rq, result)]"
    have long: "length (entries i log) < unat (rq_seq rq)"
    proof (cases "last_logged (check_client_id i) log")
      case None
      then have "entries i log = []"
        by (simp add: last_logged_def entries_def split: if_splits)
      with rq show ?thesis by (simp add: request_ok_def)
    next
      case (Some reply)
      with executed(2) get numbered_last(2) [OF num Some] show ?thesis by (simp add: word_less_nat_alt)
    qed
    note pending = executed_pending [OF st rq long]
    have other: "entries j ?log = entries j log" "numbered j ?log = numbered j log"
      if j: "j < length ?cs" "j \<noteq> i" for j
    proof -
      have "rq_client_id rq \<noteq> check_client_id j"
        using check_client_id_inject [of i j] assms(2) i j rid by simp
      then show "entries j ?log = entries j log" by (simp add: entries_snoc)
      with \<open>rq_client_id rq \<noteq> check_client_id j\<close> show "numbered j ?log = numbered j log"
        by (simp add: numbered_def)
    qed
    have same: "entries i ?log = entries i log @ [(rq_op rq, result)]"
      by (simp add: entries_snoc rid)
    have "clients_ok settled n ?log ?cs"
      unfolding clients_ok_def
    proof (intro allI impI)
      fix j
      assume j: "j < length ?cs"
      from assms(1) j have c: "numbered j log \<and> client_base j (?cs ! j) \<and>
          settled (entries j log) (?cs ! j) \<and> seq_of (?cs ! j) \<le> n"
        by (auto simp: coherent_def clients_ok_def)
      show "numbered j ?log \<and> client_base j (?cs ! j) \<and> settled (entries j ?log) (?cs ! j) \<and>
          seq_of (?cs ! j) \<le> n"
      proof (cases "j = i")
        case True
        with c same pending(4) numbered_snoc [OF num pending(3)] show ?thesis
          by (simp only: settled_def) blast
      qed (use c other j in simp)
    qed
    moreover have "message_ok ?log ?cs m" if "m \<in> in_flight s" for m
    proof (rule message_ok_mono [of log ?cs])
      show "message_ok log ?cs m" using assms(1) that by (simp add: coherent_def)
      show "request_ok j (entries j ?log) (?cs ! j) rq'"
        if "j < length ?cs" "request_ok j (entries j log) (?cs ! j) rq'" for j rq'
        using that other [of j] same by (cases "j = i") (auto simp: request_ok_def)
      show "reply_ok (entries j ?log) r" if "j < length ?cs" "reply_ok (entries j log) r" for j r
        using that other [of j] same by (cases "j = i") (auto simp: reply_ok_def nth_append)
    qed simp
    moreover have "message_ok ?log ?cs
        (MessageEvent (rq_client_addr rq) (MReply \<lparr>ur_seq = rq_seq rq, ur_result = result\<rparr>))"
      using i addr pending(3) same by (simp add: reply_ok_def)
    ultimately show ?thesis
      using executed assms(1)
      by (intro exI [of _ ?log]) (auto simp: coherent_def in_flight_def replica_messages_def)
  qed
qed

subsection \<open>The clients\<close>

lemma client_coherent:
  assumes "coherent settled codec n log s" and i: "i < length (ck_clients s)"
    and "some_phase (entries i log) c'" and "client_base i c'" and "seq_of c' = seq_of (ck_clients s ! i)"
    and req: "\<And>rq. request_ok i (entries i log) (ck_clients s ! i) rq \<Longrightarrow> request_ok i (entries i log) c' rq"
    and out: "\<And>m. m \<in> set (client_messages c') \<Longrightarrow>
      m \<in> in_flight s \<or> (\<exists>rq. m = MessageEvent AddrReplica (MRequest rq) \<and> request_ok i (entries i log) c' rq)"
  shows "coherent some_phase codec n log (s\<lparr>ck_clients := (ck_clients s)[i := c']\<rparr>)"
proof -
  let ?cs = "ck_clients s"
  let ?cs' = "?cs[i := c']"
  have "clients_ok some_phase n log ?cs'"
    using assms(1,3,4,5) i settled_some_phase
    by (fastforce simp: coherent_def clients_ok_def nth_list_update simp del: in_phase.simps)
  moreover have ok: "message_ok log ?cs' m" if "m \<in> in_flight s" for m
  proof (rule message_ok_mono [of log ?cs])
    show "message_ok log ?cs m" using assms(1) that by (simp add: coherent_def)
    show "request_ok j (entries j log) (?cs' ! j) rq"
      if "j < length ?cs" "request_ok j (entries j log) (?cs ! j) rq" for j rq
      using that req by (cases "j = i") auto
  qed simp_all
  moreover have "message_ok log ?cs' m" if m: "m \<in> set (client_messages c)" "c \<in> set ?cs'" for c m
  proof -
    consider "c \<in> set ?cs" | "c = c'" using m(2) set_update_subset_insert by fastforce
    then show ?thesis
    proof cases
      case 1
      with m(1) have "m \<in> in_flight s" by (auto simp: in_flight_def)
      then show ?thesis by (rule ok)
    next
      case 2
      then consider "m \<in> in_flight s" |
          rq where "m = MessageEvent AddrReplica (MRequest rq)" "request_ok i (entries i log) c' rq"
        using out [of m] m(1) by blast
      then show ?thesis
      proof cases
        case 1
        then show ?thesis by (rule ok)
      next
        case 2
        with i show ?thesis by (auto intro!: exI [of _ i])
      qed
    qed
  qed
  ultimately show ?thesis
    using assms(1) by (auto simp: coherent_def in_flight_def)
qed

lemma unrep_on_reply_cases:
  assumes "unrep_on_reply linear_service reply (c, t) = Ok () (c', t')"
  obtains (ignored) "c' = c"
  | (taken) inv where "ur_seq reply = uc_seq c" "uc_invoke c = Some inv"
      "c' = c\<lparr>uc_invoke := None,
        uc_upcall := (uc_upcall c)\<lparr>sent := sent (uc_upcall c) @ [(uc_id c, ur_result reply)]\<rparr>\<rparr>"
  using assms
  by (auto simp: unrep_on_reply_def Let_def and_then_Ok_iff lift_outcome_Ok_iff
      split: if_splits option.splits)

lemma reply_taken:
  assumes "in_phase Pending E c" and "reply_ok E reply" and "ur_seq reply = uc_seq (cs_state c)"
    and "cs_state c' = (cs_state c)\<lparr>uc_invoke := None,
        uc_upcall := (uc_upcall (cs_state c))\<lparr>sent := sent (uc_upcall (cs_state c)) @
          [(uc_id (cs_state c), ur_result reply)]\<rparr>\<rparr>"
    and "cs_close_loop c' = cs_close_loop c"
  shows "in_phase Replied E c'" and "seq_of c = length E"
  using assms by (auto simp: reply_ok_def last_conv_nth)

lemma reply_coherent:
  assumes "coherent settled codec n log s" and i: "i < length (ck_clients s)"
    and "reply_ok (entries i log) reply"
    and "client_call (unrep_on_reply linear_service reply) (ck_clients s ! i) = Ok () c'"
  shows "coherent some_phase codec n log (s\<lparr>ck_clients := (ck_clients s)[i := c']\<rparr>)"
proof -
  let ?c = "ck_clients s ! i"
  from assms(1) i have st: "settled (entries i log) ?c" and base: "client_base i ?c"
    by (auto simp: coherent_def clients_ok_def)
  have fl: "m \<in> in_flight s" if "m \<in> set (client_messages ?c)" for m
    using that i by (auto simp: in_flight_def)
  from assms(4) obtain st' t' where
    call: "unrep_on_reply linear_service reply (cs_state ?c, cs_timer ?c) = Ok () (st', t')"
    and c': "c' = ?c\<lparr>cs_state := st', cs_timer := t'\<rparr>"
    by (auto simp: client_call_def lift_outcome_Ok_iff)
  from call show ?thesis
  proof (cases rule: unrep_on_reply_cases)
    case ignored
    have "some_phase (entries i log) c'"
      using settled_some_phase [OF st] in_phase_cong [of c' ?c] ignored c' by auto
    with ignored c' base fl show ?thesis
      by (intro client_coherent [OF assms(1) i]) (auto simp: client_base_def request_ok_def client_messages_def)
  next
    case (taken inv)
    with st have p: "in_phase Pending (entries i log) ?c" by (auto simp: settled_def)
    have r: "in_phase Replied (entries i log) c'" "seq_of ?c = length (entries i log)"
      using reply_taken [OF p assms(3), of c'] taken c' by simp_all
    then have "some_phase (entries i log) c'" by blast
    with taken c' base fl r(2) show ?thesis
      by (intro client_coherent [OF assms(1) i]) (auto simp: client_base_def request_ok_def client_messages_def)
  qed
qed

lemma timer_coherent:
  assumes "coherent settled codec n log s" and i: "i < length (ck_clients s)"
    and "client_call (\<lambda>(c, t). and_then (lift_outcome (Pair c) (linear_step_timer j t)) (\<lambda>_ (c, t).
         lift_outcome (\<lambda>c. (c, t)) (unrep_client_on_timer j c))) (ck_clients s ! i) = Ok () c'"
  shows "coherent some_phase codec n log (s\<lparr>ck_clients := (ck_clients s)[i := c']\<rparr>)"
proof -
  let ?c = "ck_clients s ! i"
  from assms(1) i have st: "settled (entries i log) ?c" and base: "client_base i ?c"
    by (auto simp: coherent_def clients_ok_def)
  have fl: "m \<in> in_flight s" if "m \<in> set (client_messages ?c)" for m
    using that i by (auto simp: in_flight_def)
  from assms(3) obtain st' t' inv where inv: "invoke_of ?c = Some inv"
    and st': "st' = (cs_state ?c)\<lparr>uc_net := (uc_net (cs_state ?c))\<lparr>sent := sent (uc_net (cs_state ?c)) @
      [(0, \<lparr>rq_client_id = uc_id (cs_state ?c), rq_client_addr = uc_addr (cs_state ?c),
            rq_seq = uc_seq (cs_state ?c), rq_op = ui_op inv\<rparr>)]\<rparr>\<rparr>"
    and c': "c' = ?c\<lparr>cs_state := st', cs_timer := t'\<rparr>"
    by (auto simp: client_call_def lift_outcome_Ok_iff and_then_Ok_iff unrep_client_on_timer_def
        unrep_do_send_def split: option.splits if_splits)
  from st inv have p: "in_phase Pending (entries i log) ?c" by (auto simp: settled_def)
  then have "in_phase Pending (entries i log) c'" and "1 \<le> seq_of ?c"
    using c' st' by (auto simp: Suc_le_eq)
  moreover from this(1) have "some_phase (entries i log) c'" by blast
  ultimately show ?thesis
    using base c' st' inv fl
    by (intro client_coherent [OF assms(1) i]) (auto simp: client_base_def request_ok_def client_messages_def)
qed

subsection \<open>launch\<close>

definition fresh_client :: "nat \<Rightarrow> ('w, 'at) client_state \<Rightarrow> bool" where
  "fresh_client i c \<longleftrightarrow> client_base i c \<and> uc_seq (cs_state c) = 0 \<and> invoke_of c = None \<and>
     pending_upcalls c = [] \<and> pending_invokes c = [] \<and> client_messages c = [] \<and>
     cl_attach (cs_close_loop c) = None"

lemma check_state_new_simps [simp]:
  "ck_clients check_state_new = []" "ck_message_events check_state_new = []"
  "ck_replica check_state_new = unrep_replica_new kv_new open_sink"
  by (simp_all add: check_state_new_def)

lemma push_clients:
  "length (ck_clients (fold push_client ws s)) = length (ck_clients s) + length ws \<and>
   ck_replica (fold push_client ws s) = ck_replica s \<and>
   ck_message_events (fold push_client ws s) = ck_message_events s \<and>
   (\<forall>i<length (ck_clients s) + length ws.
     if i < length (ck_clients s) then ck_clients (fold push_client ws s) ! i = ck_clients s ! i
     else fresh_client i (ck_clients (fold push_client ws s) ! i) \<and>
       cl_workload (cs_close_loop (ck_clients (fold push_client ws s) ! i)) = ws ! (i - length (ck_clients s)))"
proof (induction ws arbitrary: s)
  case (Cons w ws)
  let ?s = "push_client w s"
  have len: "length (ck_clients ?s) = Suc (length (ck_clients s))"
    and keep: "ck_replica ?s = ck_replica s" "ck_message_events ?s = ck_message_events s"
    by (simp_all add: push_client_def Let_def)
  have old: "ck_clients ?s ! i = ck_clients s ! i" if "i < length (ck_clients s)" for i
    using that by (simp add: push_client_def Let_def nth_append)
  have new: "fresh_client (length (ck_clients s)) (ck_clients ?s ! length (ck_clients s)) \<and>
      cl_workload (cs_close_loop (ck_clients ?s ! length (ck_clients s))) = w"
    by (simp add: push_client_def Let_def fresh_client_def client_base_def unrep_client_new_def
        close_loop_new_def open_sink_def client_messages_def)
  note IH = Cons.IH [of ?s]
  show ?case
  proof (intro conjI allI impI)
    fix i
    assume i: "i < length (ck_clients s) + length (w # ws)"
    then have i': "i < length (ck_clients ?s) + length ws" by (simp add: len)
    consider "i < length (ck_clients s)" | "i = length (ck_clients s)" | "length (ck_clients s) < i"
      by linarith
    then show "if i < length (ck_clients s)
      then ck_clients (fold push_client (w # ws) s) ! i = ck_clients s ! i
      else fresh_client i (ck_clients (fold push_client (w # ws) s) ! i) \<and>
        cl_workload (cs_close_loop (ck_clients (fold push_client (w # ws) s) ! i)) =
          (w # ws) ! (i - length (ck_clients s))"
    proof cases
      case 1
      with IH i' old [OF 1] len show ?thesis by simp
    next
      case 2
      with IH i' new len show ?thesis by simp
    next
      case 3
      with IH i' len show ?thesis by (auto simp: nth_Cons' Suc_diff_Suc less_Suc_eq_le)
    qed
  qed (use IH len keep in simp_all)
qed simp

lemma launch_clients_Ok:
  "launch_clients wl now cs = Ok () cs' \<Longrightarrow> length cs' = length cs \<and>
     (\<forall>i<length cs. \<exists>l. on_init wl now (cs_close_loop (cs ! i)) = Ok () l \<and>
       cs' ! i = (cs ! i)\<lparr>cs_close_loop := l\<rparr>)"
proof (induction cs arbitrary: cs')
  case (Cons c cs)
  then obtain l cs1 where "on_init wl now (cs_close_loop c) = Ok () l" "launch_clients wl now cs = Ok () cs1"
    "cs' = c\<lparr>cs_close_loop := l\<rparr> # cs1"
    by (cases "on_init wl now (cs_close_loop c)") (auto simp: lift_outcome_Ok_iff)
  with Cons.IH [of cs1] show ?case by (auto simp: less_Suc_eq_0_disj)
qed simp

lemma recorded_init:
  assumes "on_init (recorded_workload wl) now l = Ok () l'"
  shows "rec_invocations (cl_workload l') = rec_invocations (cl_workload l) \<and>
    (\<exists>op at. cl_attach l' = Some (op, at) \<and> sent (cl_sender l') = sent (cl_sender l) @ [op])"
proof -
  obtain x i where n: "wl_next wl now (rec_inner (cl_workload l)) = Ok x i"
    using assms by (cases "wl_next wl now (rec_inner (cl_workload l))")
      (auto simp: on_init_def recorded_workload_def)
  with assms show ?thesis
    by (cases x) (auto simp: on_init_def recorded_workload_def close_loop_send_def Let_def
        split: if_splits)
qed

lemma launch_coherent:
  fixes wl :: "('w, 'at) workload"
  assumes "check_launch (recorded_workload wl) now (fold push_client (map recorded_new ws) check_state_new) = Ok () s"
  shows "length (ck_clients s) = length ws" and "coherent settled codec 1 [] s"
proof -
  let ?s = "fold push_client (map recorded_new ws) check_state_new ::
    ('w recorded, payload \<times> 'at) check_state"
  from assms obtain cs where
    cs: "launch_clients (recorded_workload wl) now (ck_clients ?s) = Ok () cs"
    and fl: "check_flush (recorded_workload wl) now (?s\<lparr>ck_clients := cs\<rparr>) = Ok () s"
    by (auto simp: check_launch_def and_then_Ok_iff lift_outcome_Ok_iff)
  from push_clients [of "map recorded_new ws" "check_state_new :: ('w recorded, payload \<times> 'at) check_state"]
  have
    len: "length (ck_clients ?s) = length ws"
    and r: "ck_replica ?s = unrep_replica_new kv_new open_sink" "ck_message_events ?s = []"
    and c: "\<And>i. i < length ws \<Longrightarrow> fresh_client i (ck_clients ?s ! i) \<and> invocations_of (ck_clients ?s ! i) = []"
    by (simp_all add: recorded_new_def)
  from launch_clients_Ok [OF cs] len have len': "length cs = length ws"
    and each: "\<And>i. i < length ws \<Longrightarrow> \<exists>l. on_init (recorded_workload wl) now
        (cs_close_loop (ck_clients ?s ! i)) = Ok () l \<and>
      cs ! i = (ck_clients ?s ! i)\<lparr>cs_close_loop := l\<rparr>" by auto
  have inv: "in_phase Invoking [] (cs ! i) \<and> client_base i (cs ! i) \<and> client_messages (cs ! i) = [] \<and>
      uc_seq (cs_state (cs ! i)) = 0" if i: "i < length ws" for i
  proof -
    from each [OF i] obtain l where l: "on_init (recorded_workload wl) now
        (cs_close_loop (ck_clients ?s ! i)) = Ok () l"
      "cs ! i = (ck_clients ?s ! i)\<lparr>cs_close_loop := l\<rparr>" by blast
    with recorded_init [OF l(1)] c [OF i] show ?thesis
      by (auto simp: fresh_client_def client_base_def client_messages_def)
  qed
  have "clients_ok some_phase 0 [] cs"
    unfolding clients_ok_def len'
  proof (intro allI impI)
    fix i
    assume i: "i < length ws"
    then show "numbered i [] \<and> client_base i (cs ! i) \<and> some_phase (entries i []) (cs ! i) \<and> seq_of (cs ! i) \<le> 0"
      using inv [OF i] by (auto simp: numbered_def entries_def simp del: in_phase.simps)
  qed
  moreover have "in_flight (?s\<lparr>ck_clients := cs\<rparr>) = {}"
    using inv len' r by (auto simp: in_flight_def in_set_conv_nth replica_messages_def
        unrep_replica_new_def open_sink_def)
  ultimately have "coherent some_phase codec 0 [] (?s\<lparr>ck_clients := cs\<rparr>)"
    by (simp add: coherent_def r served_new)
  from flush_coherent [OF this _ fl] show "coherent settled codec 1 [] s" by simp
  from fl flush_clients_Ok len' show "length (ck_clients s) = length ws"
    by (force simp: check_flush_def Let_def lift_outcome_Ok_iff)
qed

subsection \<open>All reachable states\<close>

lemma dispatch_coherent:
  assumes "coherent settled codec n log s" and "length (ck_clients s) \<le> 2 ^ 32"
    and "event \<in> set (check_events s)" and "check_dispatch codec event s = Ok () s'"
  shows "length (ck_clients s') = length (ck_clients s)"
    and "\<exists>log'. coherent some_phase codec n log' s'"
proof -
  have "length (ck_clients s') = length (ck_clients s) \<and> (\<exists>log'. coherent some_phase codec n log' s')"
    using assms
  proof (induction codec event s rule: check_dispatch.induct)
    case (1 codec rq s)
    then obtain r where r: "unrep_on_request (kv_execute codec) rq (ck_replica s) = Ok () r"
      "s' = s\<lparr>ck_replica := r\<rparr>" by (auto simp: lift_outcome_Ok_iff)
    from 1(3) have "MessageEvent AddrReplica (MRequest rq) \<in> in_flight s"
      by (auto simp: check_events_def in_flight_def)
    from request_coherent [OF 1(1,2) this r(1)] obtain log' where
      "coherent settled codec n log' s'" by (auto simp: r(2))
    then have "coherent some_phase codec n log' s'"
      using settled_some_phase by (fastforce simp: coherent_def clients_ok_def simp del: in_phase.simps)
    with r(2) show ?case by auto
  next
    case (2 codec i reply s)
    from 2(3) have "MessageEvent (AddrClient i) (MReply reply) \<in> in_flight s"
      by (auto simp: check_events_def in_flight_def)
    with 2(1) have "message_ok log (ck_clients s) (MessageEvent (AddrClient i) (MReply reply))"
      unfolding coherent_def by blast
    then have i: "i < length (ck_clients s)" and ok: "reply_ok (entries i log) reply" by simp_all
    from 2(4) i obtain c where
      "client_call (unrep_on_reply linear_service reply) (ck_clients s ! i) = Ok () c"
      "s' = s\<lparr>ck_clients := (ck_clients s)[i := c]\<rparr>"
      by (auto simp: with_client_def lift_outcome_Ok_iff)
    with reply_coherent [OF 2(1) i ok this(1)] show ?case by auto
  next
    case (3 codec j i s)
    from 3(4) obtain c where i: "i < length (ck_clients s)" and
      "client_call (\<lambda>(c, t). and_then (lift_outcome (Pair c) (linear_step_timer j t)) (\<lambda>_ (c, t).
         lift_outcome (\<lambda>c. (c, t)) (unrep_client_on_timer j c))) (ck_clients s ! i) = Ok () c"
      "s' = s\<lparr>ck_clients := (ck_clients s)[i := c]\<rparr>"
      by (auto simp: with_client_def lift_outcome_Ok_iff split: if_splits)
    with timer_coherent [OF 3(1) i this(2)] show ?case by auto
  qed simp_all
  then show "length (ck_clients s') = length (ck_clients s)"
    and "\<exists>log'. coherent some_phase codec n log' s'" by auto
qed

lemma flush_length:
  "check_flush wl now s = Ok () s' \<Longrightarrow> length (ck_clients s') = length (ck_clients s)"
  using flush_clients_Ok by (force simp: check_flush_def Let_def lift_outcome_Ok_iff)

lemma reach_coherent:
  assumes "check_reach (recorded_workload wl) codec (map recorded_new ws) n s"
    and "Suc n < 2 ^ 32" and "length ws \<le> 2 ^ 32"
  shows "length (ck_clients s) = length ws \<and> (\<exists>log. coherent settled codec (Suc n) log s)"
  using assms
proof (induction rule: check_reach.induct)
  case (launched now s)
  from launch_coherent [OF launched(1)] show ?case by auto
next
  case (stepped n s event now s')
  then obtain log where len: "length (ck_clients s) = length ws"
    and co: "coherent settled codec (Suc n) log s" by auto
  from stepped(3) obtain s1 where s1: "check_dispatch codec event s = Ok () s1"
    "check_flush (recorded_workload wl) now s1 = Ok () s'"
    by (auto simp: check_step_def and_then_Ok_iff)
  from dispatch_coherent [OF co _ stepped(2) s1(1)] len stepped.prems(2) obtain log' where
    "length (ck_clients s1) = length ws" "coherent some_phase codec (Suc n) log' s1" by auto
  with flush_coherent [OF this(2) _ s1(2)] flush_length [OF s1(2)] stepped.prems(1) show ?case by auto
qed

section \<open>The properties\<close>

text \<open>C15: In every state that the model checker explores, whatever it delivers, delivers again, reorders
  or never delivers and whichever timers it fires: one sequence of executed requests explains
  everything. The store is the one after that sequence; the requests of each client occur in it with
  the sequence numbers 1, 2, ... and so exactly once; and what the client has recorded are its
  operations in that order with the results of that sequence, all or all but the last one.
\<close>

theorem check_linear:
  assumes "check_reach (recorded_workload wl) codec (map recorded_new ws) n s"
    and "Suc n < 2 ^ 32" and "length ws \<le> 2 ^ 32"
  shows "\<exists>log. apply_ops (kv_execute codec) (map (rq_op \<circ> fst) log) kv_new =
      Ok (map snd log) (urep_app (ck_replica s)) \<and>
    length (ck_clients s) = length ws \<and>
    list_all (\<lambda>i. numbered i log \<and>
      invocations_of (ck_clients s ! i) \<in> {entries i log, butlast (entries i log)}) [0..<length ws]"
proof -
  from reach_coherent [OF assms] obtain log where len: "length (ck_clients s) = length ws"
    and co: "coherent settled codec (Suc n) log s" by blast
  from co len have "numbered i log \<and> settled (entries i log) (ck_clients s ! i)" if "i < length ws" for i
    using that by (auto simp: coherent_def clients_ok_def)
  moreover have "invocations_of c \<in> {E, butlast E}" if "settled E c" for E c
    using that by (auto simp: settled_def)
  ultimately have "list_all (\<lambda>i. numbered i log \<and>
      invocations_of (ck_clients s ! i) \<in> {entries i log, butlast (entries i log)}) [0..<length ws]"
    by (force simp: list_all_iff)
  with co len show ?thesis by (auto simp: coherent_def served_def)
qed

text \<open>
  One client that appends twice: its timer fires, the request is executed, the reply arrives. A run
  checks that each event is one of those offered.
\<close>

fun check_run ::
  "('w, 'at) workload \<Rightarrow> (kv_op, kv_result) codec \<Rightarrow> check_event list \<Rightarrow> ('w, 'at) check_state \<Rightarrow>
   (unit, ('w, 'at) check_state) outcome" where
  "check_run wl codec [] s = Ok () s"
| "check_run wl codec (event # events) s =
     (if event \<in> set (check_events s)
      then and_then (check_step wl codec 0 event s) (\<lambda>_. check_run wl codec events)
      else Err (Bail ''no such event'') s)"

lemma check_run_reach:
  "check_run wl codec events s = Ok () s' \<Longrightarrow> check_reach wl codec ws n s \<Longrightarrow>
     check_reach wl codec ws (n + length events) s'"
proof (induction events arbitrary: s n)
  case (Cons event events)
  then obtain s1 where "event \<in> set (check_events s)" "check_step wl codec 0 event s = Ok () s1"
    "check_run wl codec events s1 = Ok () s'"
    by (auto simp: and_then_Ok_iff split: if_splits)
  from Cons.IH [OF this(3) stepped [OF Cons.prems(2) this(1,2)]] show ?case by simp
qed simp

definition sample_append :: payload where
  "sample_append = put_kv_op (Append ''a'' ''b'')"

definition sample_launch :: "(unit, (payload list recorded, payload \<times> unit) check_state) outcome" where
  "sample_launch = check_launch (recorded_workload (iter_workload list_iterator)) 0
     (fold push_client (map recorded_new [[sample_append, sample_append]]) check_state_new)"

definition sample_check_events :: "check_event list" where
  "sample_check_events =
     [EvTimer 1 0,
      EvMessage (MessageEvent AddrReplica (MRequest \<lparr>rq_client_id = 1000, rq_client_addr = AddrClient 0,
        rq_seq = 1, rq_op = sample_append\<rparr>)),
      EvMessage (MessageEvent (AddrClient 0) (MReply \<lparr>ur_seq = 1,
        ur_result = put_kv_result (AppendResult ''b'')\<rparr>))]"

definition sample_run :: "(unit, (payload list recorded, payload \<times> unit) check_state) outcome" where
  "sample_run = and_then sample_launch
     (\<lambda>_. check_run (recorded_workload (iter_workload list_iterator)) plain_kv sample_check_events)"

lemma sample_runs:
  "is_ok sample_run"
  "invocations_of (ck_clients (after sample_run) ! 0) = [(sample_append, put_kv_result (AppendResult ''b''))]"
  by code_simp+

lemma sample_launched:
  obtains s0 s where "sample_launch = Ok () s0" "sample_run = Ok () s"
    "check_run (recorded_workload (iter_workload list_iterator)) plain_kv sample_check_events s0 = Ok () s"
    "invocations_of (ck_clients s ! 0) = [(sample_append, put_kv_result (AppendResult ''b''))]"
proof -
  from sample_runs(1) obtain s where s: "sample_run = Ok () s" by (auto simp: is_ok_iff)
  from this [unfolded sample_run_def and_then_Ok_iff] obtain s0 where "sample_launch = Ok () s0"
    "check_run (recorded_workload (iter_workload list_iterator)) plain_kv sample_check_events s0 = Ok () s"
    by (metis (full_types) old.unit.exhaust)
  from that [OF this(1) s this(2)] sample_runs(2) [unfolded s after.simps] show thesis by simp
qed

theorem check_linear_witness:
  "\<exists>s log. sample_run = Ok () s \<and>
    apply_ops (kv_execute plain_kv) (map (rq_op \<circ> fst) log) kv_new = Ok (map snd log) (urep_app (ck_replica s)) \<and>
    numbered 0 log \<and>
    [(sample_append, put_kv_result (AppendResult ''b''))] \<in> {entries 0 log, butlast (entries 0 log)}"
proof (rule sample_launched)
  fix s0 s
  assume s: "sample_launch = Ok () s0" "sample_run = Ok () s"
    "check_run (recorded_workload (iter_workload list_iterator)) plain_kv sample_check_events s0 = Ok () s"
    "invocations_of (ck_clients s ! 0) = [(sample_append, put_kv_result (AppendResult ''b''))]"
  from launched [OF s(1) [unfolded sample_launch_def]] have
    "check_reach (recorded_workload (iter_workload list_iterator)) plain_kv
       (map recorded_new [[sample_append, sample_append]]) 0 s0" .
  from check_linear [OF check_run_reach [OF s(3) this]] have
    "\<exists>log. apply_ops (kv_execute plain_kv) (map (rq_op \<circ> fst) log) kv_new =
        Ok (map snd log) (urep_app (ck_replica s)) \<and> numbered 0 log \<and>
      invocations_of (ck_clients s ! 0) \<in> {entries 0 log, butlast (entries 0 log)}"
    by (auto simp: sample_check_events_def)
  then show ?thesis using s(2) by (simp only: s(4)) blast
qed

text \<open>After \<open>launch\<close> no message can be delivered, although every client has sent its first request:
  \<open>flush\<close> collects what a client has sent before it hands it the invocations of its closed loop. The
  first events of every exploration are timers.
\<close>

theorem check_launch_silent:
  fixes wl :: "('w, 'at) workload"
  assumes "check_launch wl now (fold push_client ws check_state_new) = Ok () s"
  shows "ck_message_events s = [] \<and> list_all (\<lambda>event. case event of EvTimer _ _ \<Rightarrow> True | _ \<Rightarrow> False) (check_events s)"
proof -
  let ?s = "fold push_client ws check_state_new :: ('w, 'at) check_state"
  from assms obtain cs where
    cs: "launch_clients wl now (ck_clients ?s) = Ok () cs"
    and fl: "check_flush wl now (?s\<lparr>ck_clients := cs\<rparr>) = Ok () s"
    by (auto simp: check_launch_def and_then_Ok_iff lift_outcome_Ok_iff)
  from push_clients [of ws "check_state_new :: ('w, 'at) check_state"] have
    len: "length (ck_clients ?s) = length ws" and r: "replica_messages (ck_replica ?s) = []"
    "ck_message_events ?s = []"
    and c: "\<And>i. i < length ws \<Longrightarrow> client_messages (ck_clients ?s ! i) = []"
    by (simp_all add: fresh_client_def replica_messages_def unrep_replica_new_def open_sink_def)
  have "client_messages c = []" if "c \<in> set cs" for c
  proof -
    from that obtain i where i: "i < length cs" "c = cs ! i" by (auto simp: in_set_conv_nth)
    with launch_clients_Ok [OF cs] obtain l where "c = (ck_clients ?s ! i)\<lparr>cs_close_loop := l\<rparr>" by auto
    then have "client_messages c = client_messages (ck_clients ?s ! i)" by (simp add: client_messages_def)
    with c [of i] i launch_clients_Ok [OF cs] len show ?thesis by simp
  qed
  moreover from fl obtain cs' events' where
    "flush_clients wl now cs (extend_messages [] []) = Ok () (cs', events')" "ck_message_events s = events'"
    by (auto simp: check_flush_def Let_def lift_outcome_Ok_iff r)
  ultimately have "set (ck_message_events s) = {}"
    using flush_clients_Ok [of wl now cs "extend_messages [] []" cs' events'] by simp
  then show ?thesis by (auto simp: check_events_def list_all_iff)
qed

theorem check_launch_silent_witness:
  "\<exists>s. sample_launch = Ok () s \<and> ck_message_events s = [] \<and>
     sent (uc_net (cs_state (ck_clients s ! 0))) \<noteq> []"
proof (rule sample_launched)
  fix s0
  assume s: "sample_launch = Ok () s0"
  have "sent (uc_net (cs_state (ck_clients (after sample_launch) ! 0))) \<noteq> []" by code_simp
  from this [unfolded s after.simps] check_launch_silent [OF s [unfolded sample_launch_def]] s
  show ?thesis by blast
qed

end
