(* ===== verification/Search.thy ===== *)
theory Search
  imports Prelude
begin

text \<open>
  \<open>src/src/search.rs\<close>: the trait \<open>State\<close>, breadth-first search with any number of workers, the trace
  of a discovered state, and the probe of the random depth-first search.

  A worker is its local depth with a program counter; the shared state holds the map of discovered
  dry states (\<open>DashMap\<close>, in insertion order), the two queues that the workers swap after each depth,
  the result and the flag. \<open>bfs_move\<close> is one atomic step: of one worker, or of the barrier when all
  workers wait at it. The duration limit is outside: \<open>bfs_result\<close> takes what was reported, if anything.

  The lemmas: whatever is reported is real, with a trace that the explored system has
  (\<open>Search_Correct\<close>); with one worker \<open>SpaceExhausted\<close> means that every reachable state was covered.
\<close>

section \<open>State and settings\<close>

record ('s, 'e) state_trait =
  st_events :: "'s \<Rightarrow> 'e list"
  st_step :: "'e \<Rightarrow> 's \<Rightarrow> (unit, 's) outcome"

definition st_steps :: "('s, 'e) state_trait \<Rightarrow> 's \<Rightarrow> (error + 's) list" where
  "st_steps st s =
     map (\<lambda>event. case st_step st event s of Ok _ system \<Rightarrow> Inr system | Err e _ \<Rightarrow> Inl e)
       (st_events st s)"

record 's settings =
  se_invariant :: "'s \<Rightarrow> error + unit"
  se_goal :: "'s \<Rightarrow> bool"
  se_prune :: "'s \<Rightarrow> bool"
  se_max_depth :: "nat option"

text \<open>A search: the system, its settings, and \<open>Into<T>\<close>, the dry state.\<close>

record ('s, 't, 'e) search =
  sr_state :: "('s, 'e) state_trait"
  sr_settings :: "'s settings"
  sr_into :: "'s \<Rightarrow> 't"

datatype ('s, 't, 'e) search_result =
    SErr "('e \<times> 't) list" 'e error
  | SInvariantViolation "('e \<times> 't) list" error
  | SGoalFound 's
  | SSpaceExhausted
  | STimeout

datatype ('s, 'e) search_worker_result =
    WError 's 'e error
  | WInvariantViolation 's error
  | WGoalFound 's
  | WSpaceExhausted

section \<open>Traces\<close>

record ('t, 'e) state_info =
  si_prev :: "('e \<times> 't) option"
  si_depth :: nat

type_synonym ('t, 'e) discovered = "('t, ('t, 'e) state_info) hmap"

text \<open>\<open>trace\<close> calls itself once per link; \<open>length discovered\<close> calls are enough.\<close>

fun search_trace :: "nat \<Rightarrow> ('t, 'e) discovered \<Rightarrow> 't \<Rightarrow> error + ('e \<times> 't) list" where
  "search_trace 0 discovered target = Inl (Panic ''stack overflow'')"
| "search_trace (Suc fuel) discovered target =
     (case hm_get discovered target of
        None \<Rightarrow> Inl (Panic ''called unwrap on a None value'')
      | Some info \<Rightarrow>
          (case si_prev info of
             None \<Rightarrow> Inr []
           | Some (prev_event, prev_state) \<Rightarrow>
               (case search_trace fuel discovered prev_state of
                  Inl e \<Rightarrow> Inl e
                | Inr trace \<Rightarrow> Inr (trace @ [(prev_event, target)]))))"

definition bfs_result ::
  "('s \<Rightarrow> 't) \<Rightarrow> ('t, 'e) discovered \<Rightarrow> ('s, 'e) search_worker_result option \<Rightarrow>
   error + ('s, 't, 'e) search_result" where
  "bfs_result into discovered result =
     (let trace = search_trace (Suc (length discovered)) discovered in
      case result of
        None \<Rightarrow> Inr STimeout
      | Some (WError state event err) \<Rightarrow>
          (case trace (into state) of Inl e \<Rightarrow> Inl e | Inr tr \<Rightarrow> Inr (SErr tr event err))
      | Some (WInvariantViolation state err) \<Rightarrow>
          (case trace (into state) of Inl e \<Rightarrow> Inl e | Inr tr \<Rightarrow> Inr (SInvariantViolation tr err))
      | Some (WGoalFound state) \<Rightarrow> Inr (SGoalFound state)
      | Some WSpaceExhausted \<Rightarrow> Inr SSpaceExhausted)"

section \<open>Breadth-first search\<close>

datatype ('s, 't, 'e) bfs_pc =
    Popping
  | Working 's 't "'e list"
  | AtBarrier
  | Passed bool
  | Checking
  | Exited
  | Panicked

record ('s, 't, 'e) bfs =
  bf_discovered :: "('t, 'e) discovered"
  bf_even :: "('s \<times> 't) list"
  bf_odd :: "('s \<times> 't) list"
  bf_depth :: nat
  bf_result :: "('s, 'e) search_worker_result option"
  bf_finished :: bool
  bf_workers :: "(nat \<times> ('s, 't, 'e) bfs_pc) list"

text \<open>At depth \<open>d\<close> a worker pops from the queue of the parity of \<open>d\<close> and pushes to the other one.\<close>

definition bf_queue :: "nat \<Rightarrow> ('s, 't, 'e) bfs \<Rightarrow> ('s \<times> 't) list" where
  "bf_queue d b = (if even d then bf_even b else bf_odd b)"

definition set_queue :: "nat \<Rightarrow> ('s \<times> 't) list \<Rightarrow> ('s, 't, 'e) bfs \<Rightarrow> ('s, 't, 'e) bfs" where
  "set_queue d q b = (if even d then b\<lparr>bf_even := q\<rparr> else b\<lparr>bf_odd := q\<rparr>)"

definition bfs_new :: "('s, 't, 'e) search \<Rightarrow> nat \<Rightarrow> 's \<Rightarrow> ('s, 't, 'e) bfs" where
  "bfs_new sr num_worker initial =
     \<lparr>bf_discovered = [(sr_into sr initial, \<lparr>si_prev = None, si_depth = 0\<rparr>)],
      bf_even = [(initial, sr_into sr initial)], bf_odd = [], bf_depth = 0, bf_result = None,
      bf_finished = False, bf_workers = replicate num_worker (0, Popping)\<rparr>"

definition search_finish ::
  "('s, 'e) search_worker_result \<Rightarrow> ('s, 't, 'e) bfs \<Rightarrow> ('s, 't, 'e) bfs" where
  "search_finish result b =
     b\<lparr>bf_result := Some (case bf_result b of None \<Rightarrow> result | Some r \<Rightarrow> r), bf_finished := True\<rparr>"

text \<open>The body of the loop over the events; the flag says whether it breaks.\<close>

definition explore_event ::
  "('s, 't, 'e) search \<Rightarrow> nat \<Rightarrow> 's \<Rightarrow> 't \<Rightarrow> 'e \<Rightarrow> ('s, 't, 'e) bfs \<Rightarrow> bool \<times> ('s, 't, 'e) bfs" where
  "explore_event sr local_depth state dry_state event b =
     (case st_step (sr_state sr) event state of
        Err err _ \<Rightarrow> (True, search_finish (WError state event err) b)
      | Ok _ next_state \<Rightarrow>
          let next_dry_state = sr_into sr next_state in
          if hm_has (bf_discovered b) next_dry_state then (False, b)
          else
            let b1 = b\<lparr>bf_discovered := hm_insert next_dry_state
                  \<lparr>si_prev = Some (event, dry_state), si_depth = local_depth + 1\<rparr> (bf_discovered b)\<rparr>
            in case se_invariant (sr_settings sr) next_state of
                 Inl err \<Rightarrow> (True, search_finish (WInvariantViolation next_state err) b1)
               | Inr _ \<Rightarrow>
                   if se_goal (sr_settings sr) next_state
                   then (True, search_finish (WGoalFound next_state) b1)
                   else if se_max_depth (sr_settings sr) \<noteq> Some (local_depth + 1) \<and>
                           \<not> se_prune (sr_settings sr) next_state
                   then (False, set_queue (Suc local_depth)
                          (bf_queue (Suc local_depth) b1 @ [(next_state, next_dry_state)]) b1)
                   else (False, b1))"

text \<open>One step of a worker; at the barrier, and when it is done, it has none.\<close>

fun worker_step ::
  "('s, 't, 'e) search \<Rightarrow> nat \<times> ('s, 't, 'e) bfs_pc \<Rightarrow> ('s, 't, 'e) bfs \<Rightarrow>
   ((nat \<times> ('s, 't, 'e) bfs_pc) \<times> ('s, 't, 'e) bfs) option" where
  "worker_step sr (d, Popping) b =
     (case bf_queue d b of
        [] \<Rightarrow> Some ((d, AtBarrier), b)
      | (state, dry_state) # q \<Rightarrow>
          Some ((d, Working state dry_state (st_events (sr_state sr) state)), set_queue d q b))"
| "worker_step sr (d, Working state dry_state (event # events)) b =
     (case explore_event sr d state dry_state event b of
        (stop, b') \<Rightarrow> Some ((d, if stop then AtBarrier else Working state dry_state events), b'))"
| "worker_step sr (d, Working state dry_state []) b =
     Some ((d, if bf_finished b then AtBarrier else Popping), b)"
| "worker_step sr (d, AtBarrier) b = None"
| "worker_step sr (d, Passed is_leader) b =
     (if bf_finished b then Some ((d, Exited), b)
      else Some ((d, Checking), if is_leader then b\<lparr>bf_depth := d + 1\<rparr> else b))"
| "worker_step sr (d, Checking) b =
     (if bf_queue (Suc d) b = [] then Some ((d, Exited), search_finish WSpaceExhausted b)
      else if se_max_depth (sr_settings sr) = Some (d + 1) then Some ((d, Panicked), b)
      else Some ((Suc d, Popping), b))"
| "worker_step sr (d, Exited) b = None"
| "worker_step sr (d, Panicked) b = None"

datatype bfs_choice = WorkerMove nat | Release nat

fun bfs_move :: "('s, 't, 'e) search \<Rightarrow> bfs_choice \<Rightarrow> ('s, 't, 'e) bfs \<Rightarrow> ('s, 't, 'e) bfs option" where
  "bfs_move sr (WorkerMove i) b =
     (if i < length (bf_workers b) then
        map_option (\<lambda>(w, b'). b'\<lparr>bf_workers := (bf_workers b)[i := w]\<rparr>)
          (worker_step sr (bf_workers b ! i) b)
      else None)"
| "bfs_move sr (Release leader) b =
     (if leader < length (bf_workers b) \<and> list_all (\<lambda>w. snd w = AtBarrier) (bf_workers b)
      then Some (b\<lparr>bf_workers :=
        map (\<lambda>(i, d, _). (d, Passed (i = leader))) (enumerate 0 (bf_workers b))\<rparr>)
      else None)"

fun bfs_run :: "('s, 't, 'e) search \<Rightarrow> bfs_choice list \<Rightarrow> ('s, 't, 'e) bfs \<Rightarrow> ('s, 't, 'e) bfs option" where
  "bfs_run sr [] b = Some b"
| "bfs_run sr (m # ms) b = Option.bind (bfs_move sr m b) (bfs_run sr ms)"

section \<open>Random depth-first search\<close>

text \<open>
  One probe of a worker. The events chosen at random are given by their indices; when they run out
  the probe goes on. The flag \<open>search_finished\<close> of the other workers is \<open>stops\<close>, at each depth.
\<close>

fun random_probe ::
  "('s, 't, 'e) search \<Rightarrow> (nat \<Rightarrow> bool) \<Rightarrow> nat list \<Rightarrow> nat \<Rightarrow> 's \<Rightarrow> ('e \<times> 't) list \<Rightarrow>
   ('s, 't, 'e) search_result option" where
  "random_probe sr stops [] depth state trace = None"
| "random_probe sr stops (c # cs) depth state trace =
     (case st_events (sr_state sr) state of
        [] \<Rightarrow> None
      | events \<Rightarrow>
          let event = events ! (c mod length events) in
          case st_step (sr_state sr) event state of
            Err err _ \<Rightarrow> Some (SErr trace event err)
          | Ok _ state' \<Rightarrow>
              let trace' = trace @ [(event, sr_into sr state')] in
              case se_invariant (sr_settings sr) state' of
                Inl err \<Rightarrow> Some (SInvariantViolation trace' err)
              | Inr _ \<Rightarrow>
                  if se_goal (sr_settings sr) state' then Some (SGoalFound state')
                  else if se_prune (sr_settings sr) state' \<or>
                      se_max_depth (sr_settings sr) = Some (depth + 1) \<or> stops depth
                  then None
                  else random_probe sr stops cs (depth + 1) state' trace')"

end
