(* ===== verification/Search_Correct.thy ===== *)
theory Search_Correct
  imports Search
begin

text \<open>
  The searches of \<open>src/src/search.rs\<close> are sound with any number of workers: what is reported is a
  reachable state with a trace that the system has. With one worker, and dry states that determine
  the behaviour, \<open>SpaceExhausted\<close> means that every reachable state was covered. With two workers a
  search may hang at its barrier after the result was found.
\<close>

section \<open>Reachable states and paths\<close>

inductive reaches :: "('s, 'e) state_trait \<Rightarrow> 's \<Rightarrow> 's \<Rightarrow> bool" for st s0 where
  reaches_init: "reaches st s0 s0"
| reaches_step: "\<lbrakk>reaches st s0 s; event \<in> set (st_events st s); st_step st event s = Ok () s'\<rbrakk> \<Longrightarrow>
    reaches st s0 s'"

text \<open>A link of a trace: some reachable state with the first dry state steps to one with the second.\<close>

definition linked :: "('s, 't, 'e) search \<Rightarrow> 's \<Rightarrow> 't \<Rightarrow> 'e \<Rightarrow> 't \<Rightarrow> bool" where
  "linked sr s0 t event u \<longleftrightarrow>
     (\<exists>s s'. reaches (sr_state sr) s0 s \<and> sr_into sr s = t \<and> event \<in> set (st_events (sr_state sr) s) \<and>
        st_step (sr_state sr) event s = Ok () s' \<and> sr_into sr s' = u)"

fun trace_path :: "('s, 't, 'e) search \<Rightarrow> 's \<Rightarrow> 't \<Rightarrow> ('e \<times> 't) list \<Rightarrow> 't \<Rightarrow> bool" where
  "trace_path sr s0 t [] u \<longleftrightarrow> t = u"
| "trace_path sr s0 t ((event, t') # tr) u \<longleftrightarrow> linked sr s0 t event t' \<and> trace_path sr s0 t' tr u"

lemma trace_path_snoc:
  "trace_path sr s0 t (tr @ [(event, u)]) v \<longleftrightarrow>
     (\<exists>t'. trace_path sr s0 t tr t' \<and> linked sr s0 t' event u) \<and> u = v"
  by (induction tr arbitrary: t) auto

section \<open>Soundness\<close>

text \<open>Each discovered dry state links to one that was discovered before.\<close>

fun discovered_ok :: "('s, 't, 'e) search \<Rightarrow> 's \<Rightarrow> ('t, 'e) discovered \<Rightarrow> bool" where
  "discovered_ok sr s0 [] \<longleftrightarrow> True"
| "discovered_ok sr s0 ((t, info) # older) \<longleftrightarrow> discovered_ok sr s0 older \<and> t \<notin> fst ` set older \<and>
     (case si_prev info of
        None \<Rightarrow> t = sr_into sr s0
      | Some (event, t') \<Rightarrow> t' \<in> fst ` set older \<and> linked sr s0 t' event t)"

definition result_ok ::
  "('s, 't, 'e) search \<Rightarrow> 's \<Rightarrow> ('t, 'e) discovered \<Rightarrow> ('s, 'e) search_worker_result \<Rightarrow> bool" where
  "result_ok sr s0 m r \<longleftrightarrow>
     (case r of
        WError s event err \<Rightarrow> reaches (sr_state sr) s0 s \<and> event \<in> set (st_events (sr_state sr) s) \<and>
          (\<exists>s'. st_step (sr_state sr) event s = Err err s') \<and> hm_has m (sr_into sr s)
      | WInvariantViolation s err \<Rightarrow> reaches (sr_state sr) s0 s \<and>
          se_invariant (sr_settings sr) s = Inl err \<and> hm_has m (sr_into sr s)
      | WGoalFound s \<Rightarrow> reaches (sr_state sr) s0 s \<and> se_goal (sr_settings sr) s
      | WSpaceExhausted \<Rightarrow> True)"

definition queued_ok :: "('s, 't, 'e) search \<Rightarrow> 's \<Rightarrow> ('t, 'e) discovered \<Rightarrow> 's \<times> 't \<Rightarrow> bool" where
  "queued_ok sr s0 m x \<longleftrightarrow> reaches (sr_state sr) s0 (fst x) \<and> sr_into sr (fst x) = snd x \<and>
     hm_has m (snd x)"

definition worker_ok ::
  "('s, 't, 'e) search \<Rightarrow> 's \<Rightarrow> ('t, 'e) discovered \<Rightarrow> nat \<times> ('s, 't, 'e) bfs_pc \<Rightarrow> bool" where
  "worker_ok sr s0 m w \<longleftrightarrow>
     (case snd w of
        Working s t events \<Rightarrow> queued_ok sr s0 m (s, t) \<and> set events \<subseteq> set (st_events (sr_state sr) s)
      | _ \<Rightarrow> True)"

definition shared_ok :: "('s, 't, 'e) search \<Rightarrow> 's \<Rightarrow> ('s, 't, 'e) bfs \<Rightarrow> bool" where
  "shared_ok sr s0 b \<longleftrightarrow> discovered_ok sr s0 (rev (bf_discovered b)) \<and>
     list_all (queued_ok sr s0 (bf_discovered b)) (bf_even b @ bf_odd b) \<and>
     pred_option (result_ok sr s0 (bf_discovered b)) (bf_result b)"

definition bfs_ok :: "('s, 't, 'e) search \<Rightarrow> 's \<Rightarrow> ('s, 't, 'e) bfs \<Rightarrow> bool" where
  "bfs_ok sr s0 b \<longleftrightarrow> shared_ok sr s0 b \<and> list_all (worker_ok sr s0 (bf_discovered b)) (bf_workers b)"

text \<open>More discovered states keep what is in order.\<close>

definition grows :: "('t, 'e) discovered \<Rightarrow> ('t, 'e) discovered \<Rightarrow> bool" where
  "grows m m' \<longleftrightarrow> (\<forall>t. hm_has m t \<longrightarrow> hm_has m' t)"

lemma grows_refl [simp]: "grows m m"
  by (simp add: grows_def)

lemma grows_ok:
  assumes "grows m m'"
  shows "queued_ok sr s0 m x \<Longrightarrow> queued_ok sr s0 m' x"
    and "worker_ok sr s0 m w \<Longrightarrow> worker_ok sr s0 m' w"
    and "result_ok sr s0 m r \<Longrightarrow> result_ok sr s0 m' r"
  using assms
  by (auto simp: grows_def queued_ok_def worker_ok_def result_ok_def
      split: bfs_pc.splits search_worker_result.splits)

lemma grows_list:
  assumes "grows m m'"
  shows "list_all (queued_ok sr s0 m) q \<Longrightarrow> list_all (queued_ok sr s0 m') q"
    and "list_all (worker_ok sr s0 m) ws \<Longrightarrow> list_all (worker_ok sr s0 m') ws"
    and "pred_option (result_ok sr s0 m) r \<Longrightarrow> pred_option (result_ok sr s0 m') r"
  by (auto elim!: list.pred_mono_strong option.pred_mono_strong intro: grows_ok [OF assms])

lemma update_new: "map_of m k = None \<Longrightarrow> AList.update k v m = m @ [(k, v)]"
  by (induction m) (auto split: if_splits)

lemma search_finish_ok:
  assumes "shared_ok sr s0 b" and "result_ok sr s0 (bf_discovered b) r"
  shows "shared_ok sr s0 (search_finish r b)"
  using assms by (auto simp: shared_ok_def search_finish_def split: option.splits)

lemma explore_event_ok:
  assumes "shared_ok sr s0 b" and "queued_ok sr s0 (bf_discovered b) (s, t)"
    and "event \<in> set (st_events (sr_state sr) s)" and "explore_event sr d s t event b = (stop, b')"
  shows "shared_ok sr s0 b' \<and> grows (bf_discovered b) (bf_discovered b') \<and> bf_workers b' = bf_workers b"
proof (cases "st_step (sr_state sr) event s")
  case (Err err x)
  with assms(2,3) have "result_ok sr s0 (bf_discovered b) (WError s event err)"
    by (simp add: result_ok_def queued_ok_def)
  from search_finish_ok [OF assms(1) this] Err assms(4) show ?thesis
    by (auto simp: explore_event_def search_finish_def)
next
  case (Ok u s')
  then have step: "st_step (sr_state sr) event s = Ok () s'" by simp
  let ?t' = "sr_into sr s'" and ?m = "bf_discovered b"
  from assms(2,3) step have reach: "reaches (sr_state sr) s0 s'" and link: "linked sr s0 t event ?t'"
    by (auto simp: queued_ok_def linked_def intro: reaches_step)
  show ?thesis
  proof (cases "hm_has ?m ?t'")
    case True
    with step assms(1,4) show ?thesis by (auto simp: explore_event_def Let_def)
  next
    case False
    let ?m1 = "hm_insert ?t' \<lparr>si_prev = Some (event, t), si_depth = d + 1\<rparr> ?m"
    let ?b1 = "b\<lparr>bf_discovered := ?m1\<rparr>"
    have g: "grows ?m ?m1" by (simp add: grows_def)
    have m1: "?m1 = ?m @ [(?t', \<lparr>si_prev = Some (event, t), si_depth = d + 1\<rparr>)]"
      using False by (simp add: hm_has_def update_new)
    have "?t' \<notin> fst ` set ?m" using False by (simp add: hm_has_def map_of_eq_None_iff)
    moreover have "t \<in> fst ` set ?m"
      using assms(2) by (simp add: queued_ok_def hm_has_def map_of_eq_None_iff)
    ultimately have "discovered_ok sr s0 (rev ?m1)"
      using assms(1) link unfolding m1 by (simp add: shared_ok_def)
    with assms(1) grows_list [OF g, of sr s0] have ok1: "shared_ok sr s0 ?b1"
      by (simp add: shared_ok_def)
    have q: "queued_ok sr s0 ?m1 (s', ?t')" using reach by (simp add: queued_ok_def)
    from ok1 q have push: "shared_ok sr s0 (set_queue (Suc d) (bf_queue (Suc d) ?b1 @ [(s', ?t')]) ?b1)"
      by (auto simp: shared_ok_def set_queue_def bf_queue_def)
    show ?thesis
    proof (cases "se_invariant (sr_settings sr) s'")
      case (Inl err)
      have "result_ok sr s0 ?m1 (WInvariantViolation s' err)"
        using reach Inl by (simp add: result_ok_def)
      with search_finish_ok [OF ok1] g Inl False step assms(4) show ?thesis
        by (auto simp: explore_event_def Let_def search_finish_def)
    next
      case (Inr x)
      show ?thesis
      proof (cases "se_goal (sr_settings sr) s'")
        case True
        have "result_ok sr s0 ?m1 (WGoalFound s')" using reach True by (simp add: result_ok_def)
        with search_finish_ok [OF ok1] g Inr True False step assms(4) show ?thesis
          by (auto simp: explore_event_def Let_def search_finish_def)
      next
        case no_goal: False
        with Inr False step assms(4) ok1 push g show ?thesis
          by (auto simp: explore_event_def Let_def set_queue_def split: if_splits)
      qed
    qed
  qed
qed

lemma worker_step_ok:
  assumes "shared_ok sr s0 b" and "worker_ok sr s0 (bf_discovered b) w"
    and "worker_step sr w b = Some (w', b')"
  shows "shared_ok sr s0 b' \<and> worker_ok sr s0 (bf_discovered b') w' \<and>
    grows (bf_discovered b) (bf_discovered b') \<and> bf_workers b' = bf_workers b"
  using assms
proof (induction sr w b rule: worker_step.induct)
  case (1 sr d b)
  then show ?case
    by (auto simp: worker_ok_def shared_ok_def bf_queue_def set_queue_def split: list.splits if_splits)
next
  case (2 sr d s t event events b)
  from 2(2) have q: "queued_ok sr s0 (bf_discovered b) (s, t)"
    and e: "event \<in> set (st_events (sr_state sr) s)"
    "set events \<subseteq> set (st_events (sr_state sr) s)" by (auto simp: worker_ok_def)
  obtain stop b1 where ex: "explore_event sr d s t event b = (stop, b1)"
    by (cases "explore_event sr d s t event b")
  from explore_event_ok [OF 2(1) q e(1) ex] grows_ok(1) [OF _ q, of "bf_discovered b1"] 2(3) ex e(2)
  show ?case by (auto simp: worker_ok_def)
next
  case (6 sr d b)
  have "result_ok sr s0 (bf_discovered b) WSpaceExhausted" by (simp add: result_ok_def)
  from search_finish_ok [OF 6(1) this] 6 show ?case
    by (auto simp: worker_ok_def search_finish_def split: if_splits)
qed (auto simp: worker_ok_def shared_ok_def split: if_splits)

lemma bfs_move_ok:
  assumes "bfs_ok sr s0 b" and "bfs_move sr m b = Some b'"
  shows "bfs_ok sr s0 b'"
proof (cases m)
  case (WorkerMove i)
  with assms(2) obtain w b1 where i: "i < length (bf_workers b)"
    and w: "worker_step sr (bf_workers b ! i) b = Some (w, b1)"
    and b': "b' = b1\<lparr>bf_workers := (bf_workers b)[i := w]\<rparr>" by (auto split: if_splits)
  from assms(1) i have "shared_ok sr s0 b" "worker_ok sr s0 (bf_discovered b) (bf_workers b ! i)"
    by (auto simp: bfs_ok_def list_all_length)
  from worker_step_ok [OF this w] have ok: "shared_ok sr s0 b1" "worker_ok sr s0 (bf_discovered b1) w"
    "grows (bf_discovered b) (bf_discovered b1)" by auto
  from assms(1) have "list_all (worker_ok sr s0 (bf_discovered b1)) (bf_workers b)"
    unfolding bfs_ok_def by (blast intro: grows_list(2) [OF ok(3)])
  with ok i show ?thesis
    by (auto simp: bfs_ok_def shared_ok_def b' list_all_length nth_list_update)
next
  case (Release k)
  with assms show ?thesis
    by (auto simp: bfs_ok_def shared_ok_def list_all_iff worker_ok_def in_set_enumerate_eq split: if_splits)
qed

lemma bfs_new_ok: "bfs_ok sr s0 (bfs_new sr n s0)"
  by (auto simp: bfs_ok_def shared_ok_def bfs_new_def worker_ok_def queued_ok_def hm_has_def
      list_all_iff intro: reaches_init)

lemma bfs_run_ok:
  "bfs_ok sr s0 b \<Longrightarrow> bfs_run sr ms b = Some b' \<Longrightarrow> bfs_ok sr s0 b'"
  by (induction ms arbitrary: b) (auto simp: bind_eq_Some_conv intro: bfs_move_ok)

text \<open>The trace of a discovered state is a path from the initial one.\<close>

lemma trace_ok:
  assumes "discovered_ok sr s0 (rev m)" and "t \<in> fst ` set m" and "length m < fuel"
  shows "\<exists>tr. search_trace fuel (m @ newer) t = Inr tr \<and> trace_path sr s0 (sr_into sr s0) tr t"
  using assms
proof (induction m arbitrary: t fuel newer rule: rev_induct)
  case (snoc x m)
  obtain u info where x: "x = (u, info)" by (cases x)
  obtain fuel' where fuel: "fuel = Suc fuel'" using snoc.prems(3) by (cases fuel) auto
  from snoc.prems(1) x have ok: "discovered_ok sr s0 (rev m)" and new: "u \<notin> fst ` set m" by simp_all
  show ?case
  proof (cases "t \<in> fst ` set m")
    case True
    from snoc.IH [OF ok True, of fuel "x # newer"] snoc.prems(3) show ?thesis by simp
  next
    case False
    with snoc.prems(2) x have t: "t = u" by auto
    with False have get: "map_of ((m @ [x]) @ newer) t = Some info"
      using x by (simp add: map_add_def map_of_eq_None_iff [symmetric] del: map_of_append)
        (simp add: map_of_append map_add_def map_of_eq_None_iff [THEN iffD2])
    show ?thesis
    proof (cases "si_prev info")
      case None
      with snoc.prems(1) x t get fuel show ?thesis by simp
    next
      case (Some p)
      obtain event t' where p: "p = (event, t')" by (cases p)
      with snoc.prems(1) x Some have t': "t' \<in> fst ` set m" "linked sr s0 t' event u" by simp_all
      from snoc.IH [OF ok t'(1), of fuel' "x # newer"] snoc.prems(3) fuel obtain tr where
        "search_trace fuel' (m @ x # newer) t' = Inr tr" "trace_path sr s0 (sr_into sr s0) tr t'" by auto
      with get Some p fuel t t'(2) show ?thesis
        by (auto simp: trace_path_snoc)
    qed
  qed
qed simp

section \<open>One worker covers everything\<close>

text \<open>States with the same dry state behave alike.\<close>

definition alike :: "('s, 't, 'e) search \<Rightarrow> 's \<Rightarrow> 's \<Rightarrow> bool" where
  "alike sr s u \<longleftrightarrow> set (st_events (sr_state sr) s) = set (st_events (sr_state sr) u) \<and>
     (\<forall>e. case (st_step (sr_state sr) e s, st_step (sr_state sr) e u) of
        (Ok _ s', Ok _ u') \<Rightarrow> sr_into sr s' = sr_into sr u' | (Err _ _, Err _ _) \<Rightarrow> True | _ \<Rightarrow> False) \<and>
     se_invariant (sr_settings sr) s = se_invariant (sr_settings sr) u \<and>
     se_goal (sr_settings sr) s = se_goal (sr_settings sr) u"

definition dry_faithful :: "('s, 't, 'e) search \<Rightarrow> bool" where
  "dry_faithful sr \<longleftrightarrow> (\<forall>s u. sr_into sr s = sr_into sr u \<longrightarrow> alike sr s u)"

definition unlimited :: "('s, 't, 'e) search \<Rightarrow> bool" where
  "unlimited sr \<longleftrightarrow> se_max_depth (sr_settings sr) = None \<and> se_prune (sr_settings sr) = (\<lambda>_. False)"

definition leads_into :: "('s, 't, 'e) search \<Rightarrow> ('t, 'e) discovered \<Rightarrow> 's \<Rightarrow> 'e \<Rightarrow> bool" where
  "leads_into sr m s e \<longleftrightarrow>
     (case st_step (sr_state sr) e s of Ok _ s' \<Rightarrow> hm_has m (sr_into sr s') | Err _ _ \<Rightarrow> False)"

definition closed_in :: "('s, 't, 'e) search \<Rightarrow> ('t, 'e) discovered \<Rightarrow> 't \<Rightarrow> bool" where
  "closed_in sr m t \<longleftrightarrow> (\<exists>s. sr_into sr s = t \<and> list_all (leads_into sr m s) (st_events (sr_state sr) s))"

definition fine :: "('s, 't, 'e) search \<Rightarrow> 's \<Rightarrow> 't \<Rightarrow> bool" where
  "fine sr s0 t \<longleftrightarrow> t = sr_into sr s0 \<or>
     (\<exists>s. sr_into sr s = t \<and> se_invariant (sr_settings sr) s = Inr () \<and> \<not> se_goal (sr_settings sr) s)"

definition all_fine :: "('s, 't, 'e) search \<Rightarrow> 's \<Rightarrow> ('t, 'e) discovered \<Rightarrow> bool" where
  "all_fine sr s0 m \<longleftrightarrow> hm_has m (sr_into sr s0) \<and> (\<forall>t. hm_has m t \<longrightarrow> fine sr s0 t)"

fun pending_of :: "('s, 't, 'e) bfs_pc \<Rightarrow> 't set" where
  "pending_of (Working s t events) = {t}"
| "pending_of _ = {}"

definition pending :: "('s, 't, 'e) bfs \<Rightarrow> ('s, 't, 'e) bfs_pc \<Rightarrow> 't set" where
  "pending b pc = snd ` set (bf_even b) \<union> snd ` set (bf_odd b) \<union> pending_of pc"

fun pc_ok :: "('s, 't, 'e) search \<Rightarrow> ('t, 'e) discovered \<Rightarrow> ('s \<times> 't) list \<Rightarrow> ('s, 't, 'e) bfs_pc \<Rightarrow> bool" where
  "pc_ok sr m q Popping \<longleftrightarrow> True"
| "pc_ok sr m q (Working s t events) \<longleftrightarrow> sr_into sr s = t \<and>
     (\<exists>seen. st_events (sr_state sr) s = seen @ events \<and> list_all (leads_into sr m s) seen)"
| "pc_ok sr m q AtBarrier \<longleftrightarrow> q = []"
| "pc_ok sr m q (Passed l) \<longleftrightarrow> q = []"
| "pc_ok sr m q Checking \<longleftrightarrow> q = []"
| "pc_ok sr m q Exited \<longleftrightarrow> False"
| "pc_ok sr m q Panicked \<longleftrightarrow> False"

definition complete :: "('s, 't, 'e) search \<Rightarrow> 's \<Rightarrow> ('t, 'e) discovered \<Rightarrow> bool" where
  "complete sr s0 m \<longleftrightarrow> all_fine sr s0 m \<and> (\<forall>t. hm_has m t \<longrightarrow> closed_in sr m t)"

definition progress :: "('s, 't, 'e) search \<Rightarrow> 's \<Rightarrow> ('s, 't, 'e) bfs \<Rightarrow> nat \<times> ('s, 't, 'e) bfs_pc \<Rightarrow> bool" where
  "progress sr s0 b w \<longleftrightarrow>
     (if bf_finished b then
        (case bf_result b of
           Some WSpaceExhausted \<Rightarrow> snd w = Exited \<and> complete sr s0 (bf_discovered b)
         | Some _ \<Rightarrow> True | None \<Rightarrow> False)
      else bf_result b = None \<and> pc_ok sr (bf_discovered b) (bf_queue (fst w) b) (snd w) \<and>
        all_fine sr s0 (bf_discovered b) \<and>
        (\<forall>t. hm_has (bf_discovered b) t \<longrightarrow>
           t \<in> pending b (snd w) \<or> closed_in sr (bf_discovered b) t))"

lemma leads_into_grows:
  "grows m m' \<Longrightarrow> leads_into sr m s e \<Longrightarrow> leads_into sr m' s e"
  by (auto simp: leads_into_def grows_def split: outcome.splits)

lemma closed_in_grows: "grows m m' \<Longrightarrow> closed_in sr m t \<Longrightarrow> closed_in sr m' t"
  unfolding closed_in_def by (blast intro: list.pred_mono_strong leads_into_grows)

lemma progress_same:
  assumes "bf_discovered b' = bf_discovered b" "bf_even b' = bf_even b" "bf_odd b' = bf_odd b"
    "bf_result b' = bf_result b" "bf_finished b' = bf_finished b"
  shows "progress sr s0 b' w = progress sr s0 b w"
  unfolding progress_def bf_queue_def pending_def assms ..

text \<open>What one event does when it does not break.\<close>

lemma explore_event_cases:
  assumes "explore_event sr d s t event b = (stop, b')" and "unlimited sr" and "\<not> bf_finished b"
    and "bf_result b = None"
  obtains (stopped) r where "stop" "bf_finished b'" "bf_result b' = Some r" "r \<noteq> WSpaceExhausted"
  | (known) "\<not> stop" "b' = b" "leads_into sr (bf_discovered b) s event"
  | (pushed) s' where "\<not> stop" "st_step (sr_state sr) event s = Ok () s'"
      "bf_discovered b' = hm_insert (sr_into sr s') \<lparr>si_prev = Some (event, t), si_depth = d + 1\<rparr> (bf_discovered b)"
      "fine sr s0 (sr_into sr s')" "bf_finished b' = bf_finished b" "bf_result b' = bf_result b"
      "bf_even b' = (if even d then bf_even b else bf_even b @ [(s', sr_into sr s')])"
      "bf_odd b' = (if even d then bf_odd b @ [(s', sr_into sr s')] else bf_odd b)"
proof (cases "st_step (sr_state sr) event s")
  case (Err err x)
  with assms stopped show thesis by (auto simp: explore_event_def search_finish_def)
next
  case (Ok u s')
  show thesis
  proof (cases "hm_has (bf_discovered b) (sr_into sr s')")
    case True
    with assms Ok known show thesis by (auto simp: explore_event_def leads_into_def Let_def)
  next
    case new: False
    show thesis
    proof (cases "se_invariant (sr_settings sr) s'")
      case (Inl err)
      with assms Ok new stopped show thesis
        by (auto simp: explore_event_def search_finish_def Let_def)
    next
      case (Inr x)
      show thesis
      proof (cases "se_goal (sr_settings sr) s'")
        case True
        with assms Ok new Inr stopped show thesis
          by (auto simp: explore_event_def search_finish_def Let_def)
      next
        case False
        with Inr have "fine sr s0 (sr_into sr s')" by (auto simp: fine_def)
        with assms Ok new Inr False pushed [of s'] show thesis
          by (auto simp: explore_event_def Let_def unlimited_def set_queue_def bf_queue_def split: if_splits)
      qed
    qed
  qed
qed

lemma working_progress:
  assumes "progress sr s0 b (d, Working s t (event # events))" and "unlimited sr" and "\<not> bf_finished b"
    and "explore_event sr d s t event b = (stop, b')"
  shows "progress sr s0 b' (d, if stop then AtBarrier else Working s t events)"
proof -
  let ?m = "bf_discovered b"
  from assms(1,3) obtain seen where none: "bf_result b = None" and into: "sr_into sr s = t"
    and seen: "st_events (sr_state sr) s = seen @ event # events" "list_all (leads_into sr ?m s) seen"
    and ok: "all_fine sr s0 ?m"
    and pend: "\<And>u. hm_has ?m u \<Longrightarrow> u \<in> pending b (Working s t (event # events)) \<or> closed_in sr ?m u"
    by (auto simp: progress_def)
  show ?thesis
  proof (cases rule: explore_event_cases [OF assms(4,2,3) none, where ?s0.0 = s0,
      case_names stopped known pushed])
    case (stopped r)
    then show ?thesis by (simp add: progress_def split: search_worker_result.splits)
  next
    case known
    have "pc_ok sr ?m (bf_queue d b) (Working s t events)"
      using into seen known(3) by (auto intro: exI [of _ "seen @ [event]"])
    with known assms(3) none ok pend show ?thesis by (auto simp: progress_def pending_def)
  next
    case (pushed s')
    let ?m' = "bf_discovered b'"
    have g: "grows ?m ?m'" using pushed(3) by (simp add: grows_def)
    have "leads_into sr ?m' s event" using pushed(2,3) by (simp add: leads_into_def)
    moreover have "list_all (leads_into sr ?m' s) seen"
      by (rule list.pred_mono_strong [OF seen(2)]) (rule leads_into_grows [OF g])
    ultimately have "list_all (leads_into sr ?m' s) (seen @ [event])" by simp
    with into seen(1) have "pc_ok sr ?m' (bf_queue d b') (Working s t events)"
      by (auto intro!: exI [of _ "seen @ [event]"])
    moreover have "all_fine sr s0 ?m'" using ok pushed(3,4) by (auto simp: all_fine_def)
    moreover have "u \<in> pending b' (Working s t events) \<or> closed_in sr ?m' u" if "hm_has ?m' u" for u
    proof (cases "u = sr_into sr s'")
      case True
      with pushed(7,8) show ?thesis by (auto simp: pending_def)
    next
      case False
      with that pushed(3) have "hm_has ?m u" by simp
      with pend [of u] closed_in_grows [OF g, of sr u] pushed(7,8) show ?thesis
        by (auto simp: pending_def)
    qed
    ultimately show ?thesis using pushed(1,5,6) assms(3) none by (simp add: progress_def)
  qed
qed

lemma worker_progress:
  assumes "progress sr s0 b w" and "unlimited sr" and "shared_ok sr s0 b"
    and "worker_step sr w b = Some (w', b')"
  shows "progress sr s0 b' w'"
proof (cases "bf_finished b")
  case True
  obtain d pc where w: "w = (d, pc)" by (cases w)
  from assms(1) True obtain r where r: "bf_result b = Some r"
    and e: "r = WSpaceExhausted \<Longrightarrow> pc = Exited"
    using w by (cases "bf_result b") (auto simp: progress_def split: search_worker_result.splits)
  have "r \<noteq> WSpaceExhausted" using e assms(4) w by auto
  moreover have "bf_finished b' \<and> bf_result b' = Some r"
    using assms(4) w True r
  proof (induction sr w b rule: worker_step.induct)
    case (2 sr d s t event events b)
    then show ?case
      by (auto simp: explore_event_def search_finish_def set_queue_def Let_def
          split: outcome.splits sum.splits if_splits)
  qed (auto simp: set_queue_def search_finish_def split: list.splits if_splits)
  ultimately show ?thesis by (simp add: progress_def split: search_worker_result.splits)
next
  case running: False
  show ?thesis
    using assms running
  proof (induction sr w b rule: worker_step.induct)
    case (1 sr d b)
    show ?case
    proof (cases "bf_queue d b")
      case Nil
      with 1 show ?thesis by (auto simp: progress_def pending_def)
    next
      case (Cons x q)
      obtain s t where x: "x = (s, t)" by (cases x)
      from 1(3) Cons x have "sr_into sr s = t"
        by (auto simp: shared_ok_def bf_queue_def queued_ok_def split: if_splits)
      with 1 Cons x show ?thesis
        by (auto simp: progress_def pending_def bf_queue_def set_queue_def split: if_splits)
    qed
  next
    case (2 sr d s t event events b)
    obtain stop b1 where ex: "explore_event sr d s t event b = (stop, b1)"
      by (cases "explore_event sr d s t event b")
    from working_progress [OF 2(1,2,5) ex] 2(4) ex show ?case by auto
  next
    case (3 sr d s t b)
    then have "closed_in sr (bf_discovered b) t"
      by (auto simp: progress_def closed_in_def)
    with 3 show ?case by (auto simp: progress_def pending_def)
  next
    case (5 sr d is_leader b)
    then have "progress sr s0 b (d, Checking)" by (auto simp: progress_def pending_def)
    with 5 progress_same [of "b\<lparr>bf_depth := d + 1\<rparr>" b] show ?case by (auto split: if_splits)
  next
    case (6 sr d b)
    show ?case
    proof (cases "bf_queue (Suc d) b = []")
      case True
      with 6 have "bf_even b = []" "bf_odd b = []"
        by (auto simp: progress_def bf_queue_def split: if_splits)
      with 6 True show ?thesis
        by (auto simp: progress_def search_finish_def complete_def pending_def)
    next
      case False
      with 6 show ?thesis by (auto simp: progress_def pending_def unlimited_def)
    qed
  qed simp_all
qed

lemma single_run:
  assumes "bfs_ok sr s0 b" and "bf_workers b = [w]" and "progress sr s0 b w" and "unlimited sr"
    and "bfs_run sr ms b = Some b'"
  shows "\<exists>w'. bf_workers b' = [w'] \<and> progress sr s0 b' w'"
  using assms
proof (induction ms arbitrary: b w)
  case (Cons m ms)
  then obtain b1 where m: "bfs_move sr m b = Some b1" and run: "bfs_run sr ms b1 = Some b'"
    by (auto simp: bind_eq_Some_conv)
  have ok1: "bfs_ok sr s0 b1" by (rule bfs_move_ok [OF Cons.prems(1) m])
  have "\<exists>w1. bf_workers b1 = [w1] \<and> progress sr s0 b1 w1"
  proof (cases m)
    case (WorkerMove i)
    with m Cons.prems(2) obtain w1 b2 where "worker_step sr w b = Some (w1, b2)"
      "b1 = b2\<lparr>bf_workers := [w1]\<rparr>" by (auto split: if_splits)
    moreover have "shared_ok sr s0 b" using Cons.prems(1) by (simp add: bfs_ok_def)
    ultimately show ?thesis
      using worker_progress [OF Cons.prems(3,4)] progress_same [of b1 b2] by auto
  next
    case (Release k)
    with m Cons.prems(2) obtain d where w: "w = (d, AtBarrier)"
      and b1: "b1 = b\<lparr>bf_workers := [(d, Passed True)]\<rparr>"
      by (cases w) (auto split: if_splits)
    have "progress sr s0 b (d, Passed True)" using Cons.prems(3) w
      by (auto simp: progress_def pending_def split: option.splits search_worker_result.splits)
    with b1 progress_same [of b1 b] show ?thesis by auto
  qed
  then obtain w1 where "bf_workers b1 = [w1]" "progress sr s0 b1 w1" by blast
  from Cons.IH [OF ok1 this Cons.prems(4) run] show ?case .
qed auto

lemma complete_reaches:
  assumes "complete sr s0 m" and "dry_faithful sr" and "reaches (sr_state sr) s0 s"
  shows "hm_has m (sr_into sr s) \<and> list_all (\<lambda>e. is_ok (st_step (sr_state sr) e s)) (st_events (sr_state sr) s)"
proof -
  have step: "event \<in> set (st_events (sr_state sr) s) \<Longrightarrow>
      \<exists>s'. st_step (sr_state sr) event s = Ok () s' \<and> hm_has m (sr_into sr s')"
    if has: "hm_has m (sr_into sr s)" for s event
  proof -
    assume e: "event \<in> set (st_events (sr_state sr) s)"
    from assms(1) has obtain u where u: "sr_into sr u = sr_into sr s"
      "list_all (leads_into sr m u) (st_events (sr_state sr) u)"
      by (auto simp: complete_def closed_in_def)
    with assms(2) have a: "alike sr s u" by (simp add: dry_faithful_def)
    with e u(2) have "leads_into sr m u event" by (auto simp: alike_def list_all_iff)
    moreover from a have "case (st_step (sr_state sr) event s, st_step (sr_state sr) event u) of
        (Ok _ s', Ok _ u') \<Rightarrow> sr_into sr s' = sr_into sr u' | (Err _ _, Err _ _) \<Rightarrow> True | _ \<Rightarrow> False"
      unfolding alike_def by blast
    ultimately show ?thesis
      by (cases "st_step (sr_state sr) event s")
        (auto simp: leads_into_def split: outcome.splits)
  qed
  have "hm_has m (sr_into sr s)"
    using assms(3)
  proof induction
    case reaches_init
    from assms(1) show ?case by (simp add: complete_def all_fine_def)
  next
    case (reaches_step s event s')
    with step [of s event] show ?case by auto
  qed
  with step show ?thesis by (fastforce simp: list_all_iff is_ok_iff)
qed

section \<open>What is reported\<close>

definition report_ok :: "('s, 't, 'e) search \<Rightarrow> 's \<Rightarrow> ('s, 't, 'e) search_result \<Rightarrow> bool" where
  "report_ok sr s0 r \<longleftrightarrow>
     (case r of
        SErr tr event err \<Rightarrow> \<exists>s s'. reaches (sr_state sr) s0 s \<and> event \<in> set (st_events (sr_state sr) s) \<and>
          st_step (sr_state sr) event s = Err err s' \<and> trace_path sr s0 (sr_into sr s0) tr (sr_into sr s)
      | SInvariantViolation tr err \<Rightarrow> \<exists>s. reaches (sr_state sr) s0 s \<and>
          se_invariant (sr_settings sr) s = Inl err \<and> trace_path sr s0 (sr_into sr s0) tr (sr_into sr s)
      | SGoalFound s \<Rightarrow> reaches (sr_state sr) s0 s \<and> se_goal (sr_settings sr) s
      | _ \<Rightarrow> True)"

lemma bfs_result_ok:
  assumes "bfs_ok sr s0 b"
  shows "\<exists>r. bfs_result (sr_into sr) (bf_discovered b) (bf_result b) = Inr r \<and> report_ok sr s0 r"
proof -
  let ?m = "bf_discovered b"
  have tr: "\<exists>tr. search_trace (Suc (length ?m)) ?m t = Inr tr \<and> trace_path sr s0 (sr_into sr s0) tr t"
    if "hm_has ?m t" for t
  proof -
    have "discovered_ok sr s0 (rev ?m)" using assms by (simp add: bfs_ok_def shared_ok_def)
    moreover have "t \<in> fst ` set ?m" using that by (simp add: hm_has_def map_of_eq_None_iff)
    ultimately show ?thesis using trace_ok [of sr s0 ?m t "Suc (length ?m)" "[]"] by simp
  qed
  from assms have "pred_option (result_ok sr s0 ?m) (bf_result b)" by (simp add: bfs_ok_def shared_ok_def)
  then show ?thesis
    by (cases "bf_result b"; cases "the (bf_result b)")
      (auto simp: bfs_result_def result_ok_def report_ok_def dest!: tr simp del: search_trace.simps, blast)
qed

lemma random_probe_ok:
  assumes "reaches (sr_state sr) s0 s" and "trace_path sr s0 (sr_into sr s0) trace (sr_into sr s)"
    and "random_probe sr stops cs depth s trace = Some r"
  shows "report_ok sr s0 r"
  using assms
proof (induction cs arbitrary: depth s trace)
  case (Cons c cs)
  define event where "event = st_events (sr_state sr) s ! (c mod length (st_events (sr_state sr) s))"
  have ne: "st_events (sr_state sr) s \<noteq> []" using Cons.prems(3) by (auto split: list.splits)
  then have e: "event \<in> set (st_events (sr_state sr) s)" by (simp add: event_def)
  have eq: "random_probe sr stops (c # cs) depth s trace =
    (case st_step (sr_state sr) event s of
       Err err _ \<Rightarrow> Some (SErr trace event err)
     | Ok _ state' \<Rightarrow>
         let trace' = trace @ [(event, sr_into sr state')] in
         case se_invariant (sr_settings sr) state' of
           Inl err \<Rightarrow> Some (SInvariantViolation trace' err)
         | Inr _ \<Rightarrow>
             if se_goal (sr_settings sr) state' then Some (SGoalFound state')
             else if se_prune (sr_settings sr) state' \<or>
                 se_max_depth (sr_settings sr) = Some (depth + 1) \<or> stops depth
             then None
             else random_probe sr stops cs (depth + 1) state' trace')"
    using ne by (cases "st_events (sr_state sr) s") (simp_all add: event_def Let_def split: outcome.split)
  show ?case
  proof (cases "st_step (sr_state sr) event s")
    case (Err err s')
    with Cons.prems(3) have "r = SErr trace event err" by (simp add: eq del: random_probe.simps)
    with Cons.prems(1,2) e Err show ?thesis by (simp add: report_ok_def) blast
  next
    case (Ok u s')
    then have "st_step (sr_state sr) event s = Ok () s'" by simp
    with Cons.prems(1,2) e have reach: "reaches (sr_state sr) s0 s'"
      and path: "trace_path sr s0 (sr_into sr s0) (trace @ [(event, sr_into sr s')]) (sr_into sr s')"
      by (auto simp: trace_path_snoc linked_def intro: reaches_step)
    from Cons.IH [OF reach path] Cons.prems(3) Ok reach path show ?thesis
      by (auto simp: eq report_ok_def Let_def split: sum.splits if_splits simp del: random_probe.simps)
  qed
qed simp

section \<open>The properties\<close>

text \<open>C16: What a search reports is real, with any number of workers and any interleaving of them, and for
  the random probes: a goal is reachable, a violation or an error happens in a reachable state, and the
  trace leads from the initial state to it by steps of the system, state by state up to the dry
  state. Looking up the trace never fails.
\<close>

theorem search_sound:
  assumes "bfs_run sr ms (bfs_new sr n s0) = Some b"
    and "random_probe sr stops cs 0 s0 [] = Some probed"
  shows "(\<exists>r. bfs_result (sr_into sr) (bf_discovered b) (bf_result b) = Inr r \<and> report_ok sr s0 r) \<and>
    report_ok sr s0 probed"
  using bfs_result_ok [OF bfs_run_ok [OF bfs_new_ok assms(1)]]
    random_probe_ok [OF reaches_init _ assms(2)] by simp

text \<open>A chain of states \<open>0\<close> to \<open>3\<close>, one of which violates the invariant or is the goal.\<close>

definition chain_search :: "nat \<Rightarrow> nat \<Rightarrow> (nat, nat, unit) search" where
  "chain_search bad goal =
     \<lparr>sr_state = \<lparr>st_events = (\<lambda>s. if s < 3 then [()] else []), st_step = (\<lambda>_ s. Ok () (Suc s))\<rparr>,
      sr_settings = \<lparr>se_invariant = (\<lambda>s. if s = bad then Inl (Bail ''bad'') else Inr ()),
        se_goal = (\<lambda>s. s = goal), se_prune = (\<lambda>_. False), se_max_depth = None\<rparr>,
      sr_into = (\<lambda>s. s)\<rparr>"

definition depth_moves :: "bfs_choice list" where
  "depth_moves = replicate 4 (WorkerMove 0) @ [Release 0, WorkerMove 0, WorkerMove 0]"

theorem search_sound_witness:
  "\<exists>b. bfs_run (chain_search 2 9) (depth_moves @ [WorkerMove 0, WorkerMove 0]) (bfs_new (chain_search 2 9) 1 0) = Some b \<and>
     bf_result b = Some (WInvariantViolation 2 (Bail ''bad'')) \<and>
     (\<exists>r. bfs_result (\<lambda>s. s) (bf_discovered b) (bf_result b) = Inr r \<and> report_ok (chain_search 2 9) 0 r) \<and>
     report_ok (chain_search 2 9) 0 (SInvariantViolation [((), 1), ((), 2)] (Bail ''bad''))"
proof -
  let ?run = "bfs_run (chain_search 2 9) (depth_moves @ [WorkerMove 0, WorkerMove 0]) (bfs_new (chain_search 2 9) 1 0)"
  have "map_option bf_result ?run = Some (Some (WInvariantViolation 2 (Bail ''bad'')))" by code_simp
  then obtain b where b: "?run = Some b" "bf_result b = Some (WInvariantViolation 2 (Bail ''bad''))" by blast
  have "random_probe (chain_search 2 9) (\<lambda>_. False) [0, 0, 0] 0 0 [] =
      Some (SInvariantViolation [((), 1), ((), 2)] (Bail ''bad''))" by code_simp
  from search_sound [OF b(1) this] b show ?thesis by (auto simp: chain_search_def)
qed

text \<open>C17: With one worker, without depth limit and pruning, and when states with the same dry state
  behave alike: if the search reports \<open>SpaceExhausted\<close>, then in every reachable state every event
  succeeds, and every reachable state with another dry state than the initial one satisfies the
  invariant and is no goal. (The initial state itself is never checked.)
\<close>

theorem search_exhaustive:
  assumes "bfs_run sr ms (bfs_new sr 1 s0) = Some b" and "bf_result b = Some WSpaceExhausted"
    and "dry_faithful sr" and "unlimited sr" and "reaches (sr_state sr) s0 s"
  shows "list_all (\<lambda>e. is_ok (st_step (sr_state sr) e s)) (st_events (sr_state sr) s) \<and>
    (sr_into sr s = sr_into sr s0 \<or>
      se_invariant (sr_settings sr) s = Inr () \<and> \<not> se_goal (sr_settings sr) s)"
proof -
  have "progress sr s0 (bfs_new sr 1 s0) (0, Popping)"
    by (auto simp: progress_def bfs_new_def all_fine_def fine_def pending_def hm_has_def)
  from single_run [OF bfs_new_ok _ this assms(4,1)] have
    "\<exists>w. progress sr s0 b w" by (auto simp: bfs_new_def)
  with assms(2) have c: "complete sr s0 (bf_discovered b)"
    by (auto simp: progress_def split: if_splits)
  note all = complete_reaches [OF this assms(3,5)]
  with c have "fine sr s0 (sr_into sr s)" by (simp add: complete_def all_fine_def)
  then have "sr_into sr s = sr_into sr s0 \<or>
      se_invariant (sr_settings sr) s = Inr () \<and> \<not> se_goal (sr_settings sr) s"
    using assms(3) unfolding fine_def dry_faithful_def alike_def by metis
  with all show ?thesis by blast
qed

definition exhausting_moves :: "bfs_choice list" where
  "exhausting_moves = concat (replicate 3 depth_moves) @
     [WorkerMove 0, WorkerMove 0, WorkerMove 0, Release 0, WorkerMove 0, WorkerMove 0]"

theorem search_exhaustive_witness:
  "\<exists>b. bfs_run (chain_search 9 9) exhausting_moves (bfs_new (chain_search 9 9) 1 0) = Some b \<and>
     bf_result b = Some WSpaceExhausted \<and>
     se_invariant (sr_settings (chain_search 9 9)) 1 = Inr () \<and> \<not> se_goal (sr_settings (chain_search 9 9)) 1"
proof -
  let ?run = "bfs_run (chain_search 9 9) exhausting_moves (bfs_new (chain_search 9 9) 1 0)"
  have "map_option bf_result ?run = Some (Some WSpaceExhausted)" by code_simp
  then obtain b where b: "?run = Some b" "bf_result b = Some WSpaceExhausted" by blast
  have d: "dry_faithful (chain_search 9 9)" "unlimited (chain_search 9 9)"
    by (auto simp: dry_faithful_def alike_def unlimited_def chain_search_def)
  have "reaches (sr_state (chain_search 9 9)) 0 1"
    by (rule reaches_step [OF reaches_init, of "()"]) (simp_all add: chain_search_def)
  from search_exhaustive [OF b d this] b show ?thesis by (auto simp: chain_search_def)
qed

text \<open>With two workers a search can hang after it has found its result: one worker passes the
  barrier, finds the goal in the next depth and waits at the barrier again; the other one, which
  was slower to leave the barrier, sees the flag and exits. No move is left, and the one at the
  barrier never exits, so joining the workers does not return.
\<close>

theorem search_barrier_hangs:
  "\<exists>ms b. bfs_run (chain_search 9 2) ms (bfs_new (chain_search 9 2) 2 0) = Some b \<and>
     bf_result b = Some (WGoalFound 2) \<and> snd (bf_workers b ! 0) = Exited \<and>
     snd (bf_workers b ! 1) = AtBarrier \<and> (\<forall>m. bfs_move (chain_search 9 2) m b = None)"
proof -
  let ?ms = "[WorkerMove 0, WorkerMove 0, WorkerMove 0, WorkerMove 0, WorkerMove 1, Release 0,
    WorkerMove 1, WorkerMove 1, WorkerMove 1, WorkerMove 1, WorkerMove 0]"
  let ?run = "bfs_run (chain_search 9 2) ?ms (bfs_new (chain_search 9 2) 2 0)"
  have "map_option (\<lambda>b. (bf_result b, bf_workers b)) ?run =
      Some (Some (WGoalFound 2), [(0, Exited), (1, AtBarrier)])" by code_simp
  then obtain b where b: "?run = Some b" "bf_result b = Some (WGoalFound 2)"
    "bf_workers b = [(0, Exited), (1, AtBarrier)]" by auto
  have "bfs_move (chain_search 9 2) m b = None" for m
    by (cases m) (auto simp: b(3) less_Suc_eq nth_Cons')
  with b show ?thesis by (intro exI [of _ ?ms] exI [of _ b]) simp
qed

end
