(* ===== verification/Bulk.thy ===== *)
theory Bulk
  imports Net Timers
begin

text \<open>
  \<open>src/src/bulk.rs\<close>, the bulk transfer service: offers, accepts, and the session behind them.

  \<^item> \<open>Offer\<close>, \<open>Accept\<close>, \<open>Serve\<close>, \<open>RecvOffer\<close> and \<open>Event\<close> are records and a datatype; the
    service is the channel to its session. A \<open>CancellationToken\<close> is a number; which tokens are
    cancelled is known to both sides and is an argument of the step that looks at it.
  \<^item> \<open>session\<close> is a \<open>select!\<close> loop: an input is one branch of it (\<open>bulk_select\<close>), taken when its
    future is ready (\<open>bulk_ready\<close>). A spawned task is an entry of the list of its \<open>JoinSet\<close>;
    the bytes the network brings it, or the cancellation, are part of the input that joins it.
  \<^item> A closure \<open>into_recv_event\<close> may panic (that of \<open>reject\<close> does): it returns a sum.
\<close>

type_synonym token = nat

record ('d, 'm) offer =
  of_dest :: 'd
  of_message :: 'm
  of_buf :: payload
  of_cancel :: "token option"

record ('x, 'n) accept =
  ac_serve_internal :: "'x \<times> u32"
  ac_expect_len :: "usize option"
  ac_into_recv_event :: "payload \<Rightarrow> error + 'n"
  ac_cancel :: "token option"

record ('m, 'x) serve =
  sv_message :: 'm
  sv_addr :: 'x
  sv_id :: u32

record ('m, 'x) recv_offer =
  ro_inner :: 'm
  ro_serve_internal :: "('x \<times> u32) option"

datatype ('d, 'm, 'x, 'n) bulk_event =
    BOffer "('d, 'm) offer"
  | BAccept "('x, 'n) accept"
  | BRecvServe "('m, 'x) serve"

section \<open>The service\<close>

definition bulk_offer ::
  "'d \<Rightarrow> 'm \<Rightarrow> payload \<Rightarrow> token option \<Rightarrow> ('d, 'm, 'x, 'n) bulk_event sink \<Rightarrow>
   (unit, ('d, 'm, 'x, 'n) bulk_event sink) outcome" where
  "bulk_offer dest message buf cancel blob =
     push_sink (BOffer \<lparr>of_dest = dest, of_message = message, of_buf = buf, of_cancel = cancel\<rparr>) blob"

definition bulk_accept ::
  "usize option \<Rightarrow> (payload \<Rightarrow> error + 'n) \<Rightarrow> token option \<Rightarrow>
   ('m, 'x) recv_offer \<times> ('d, 'm, 'x, 'n) bulk_event sink \<Rightarrow>
   (unit, ('m, 'x) recv_offer \<times> ('d, 'm, 'x, 'n) bulk_event sink) outcome" where
  "bulk_accept expect_len into_recv_event cancel s =
     (case s of (recv_offer, blob) \<Rightarrow>
        case ro_serve_internal recv_offer of
          None \<Rightarrow> Err (Bail ''the offer has already been accepted/rejected'') (recv_offer, blob)
        | Some serve_internal \<Rightarrow>
            lift_outcome (Pair (recv_offer\<lparr>ro_serve_internal := None\<rparr>))
              (push_sink (BAccept \<lparr>ac_serve_internal = serve_internal, ac_expect_len = expect_len,
                 ac_into_recv_event = into_recv_event, ac_cancel = cancel\<rparr>) blob))"

text \<open>\<open>reject\<close>: the new token \<open>cancel\<close> is cancelled once the accept is sent.\<close>

definition bulk_reject ::
  "token \<Rightarrow> (('m, 'x) recv_offer \<times> ('d, 'm, 'x, 'n) bulk_event sink) \<times> token list \<Rightarrow>
   (unit, (('m, 'x) recv_offer \<times> ('d, 'm, 'x, 'n) bulk_event sink) \<times> token list) outcome" where
  "bulk_reject cancel s =
     (case s of (p, cancelled) \<Rightarrow>
        and_then
          (lift_outcome (\<lambda>p. (p, cancelled))
            (bulk_accept None (\<lambda>_. Inl (Panic ''unreachable'')) (Some cancel) p))
          (\<lambda>_ (p, cancelled). Ok () (p, cancel # cancelled)))"

section \<open>The session\<close>

datatype ('m, 'x, 'n) bulk_upcall = UOffer "('m, 'x) recv_offer" | UReceived 'n

record ('d, 'm, 'x, 'n) bulk_session =
  bs_addr :: 'x
  bs_id :: u32
  bs_pending :: "(u32, payload \<times> token option) hmap"
  bs_cancel_tasks :: "(u32 \<times> token option) list"
  bs_recv_tasks :: "('x, 'n) accept list"
  bs_send_tasks :: "(payload \<times> token option) list"
  bs_net :: "('d \<times> ('m, 'x) serve) sink"
  bs_upcall :: "('m, 'x, 'n) bulk_upcall sink"

definition bulk_new ::
  "'x \<Rightarrow> ('d \<times> ('m, 'x) serve) sink \<Rightarrow> ('m, 'x, 'n) bulk_upcall sink \<Rightarrow>
   ('d, 'm, 'x, 'n) bulk_session" where
  "bulk_new addr net upcall =
     \<lparr>bs_addr = addr, bs_id = 0, bs_pending = [], bs_cancel_tasks = [], bs_recv_tasks = [],
      bs_send_tasks = [], bs_net = net, bs_upcall = upcall\<rparr>"

definition send_upcall ::
  "('m, 'x, 'n) bulk_upcall \<Rightarrow> ('d, 'm, 'x, 'n) bulk_session \<Rightarrow>
   (unit, ('d, 'm, 'x, 'n) bulk_session) outcome" where
  "send_upcall m s = lift_outcome (\<lambda>u. s\<lparr>bs_upcall := u\<rparr>) (push_sink m (bs_upcall s))"

fun on_bulk_event ::
  "('d, 'm, 'x, 'n) bulk_event \<Rightarrow> ('d, 'm, 'x, 'n) bulk_session \<Rightarrow>
   (unit, ('d, 'm, 'x, 'n) bulk_session) outcome" where
  "on_bulk_event (BOffer offer) s =
     (let i = bs_id s + 1;
          s1 = s\<lparr>bs_id := i,
                 bs_pending := hm_insert i (of_buf offer, of_cancel offer) (bs_pending s),
                 bs_cancel_tasks := bs_cancel_tasks s @ [(i, of_cancel offer)]\<rparr>
      in lift_outcome (\<lambda>n. s1\<lparr>bs_net := n\<rparr>)
           (push_sink (of_dest offer, \<lparr>sv_message = of_message offer, sv_addr = bs_addr s1, sv_id = i\<rparr>)
             (bs_net s1)))"
| "on_bulk_event (BRecvServe serve) s =
     send_upcall (UOffer \<lparr>ro_inner = sv_message serve,
                          ro_serve_internal = Some (sv_addr serve, sv_id serve)\<rparr>) s"
| "on_bulk_event (BAccept accept) s = Ok () (s\<lparr>bs_recv_tasks := bs_recv_tasks s @ [accept]\<rparr>)"

text \<open>
  The receiving task. \<open>arrived\<close> is an error of the connection, or the bytes the other side wrote
  before it closed the stream.
\<close>

definition read_stream :: "usize option \<Rightarrow> payload \<Rightarrow> error + payload" where
  "read_stream expect_len arrived =
     (case expect_len of
        Some n \<Rightarrow> if n \<le> length arrived then Inr (take n arrived) else Inl (Bail ''early eof'')
      | None \<Rightarrow> Inr arrived)"

datatype recv_end = Finished "error + payload" | Cancelled

fun recv_task :: "('x, 'n) accept \<Rightarrow> recv_end \<Rightarrow> error + 'n option" where
  "recv_task accept Cancelled = Inr None"
| "recv_task accept (Finished (Inl err)) = Inr None"
| "recv_task accept (Finished (Inr arrived)) =
     (case read_stream (ac_expect_len accept) arrived of
        Inl err \<Rightarrow> Inr None
      | Inr buf \<Rightarrow> (case ac_into_recv_event accept buf of
            Inl panic \<Rightarrow> Inl panic
          | Inr recv_event \<Rightarrow> Inr (Some recv_event)))"

text \<open>A connection came in; \<open>read\<close> is the id read from it, if it could be read.\<close>

definition on_bulk_stream ::
  "u32 option \<Rightarrow> ('d, 'm, 'x, 'n) bulk_session \<Rightarrow> (unit, ('d, 'm, 'x, 'n) bulk_session) outcome" where
  "on_bulk_stream read s =
     (case read of
        None \<Rightarrow> Ok () s
      | Some i \<Rightarrow>
          case hm_get (bs_pending s) i of
            None \<Rightarrow> Ok () s
          | Some (buf, cancel) \<Rightarrow>
              Ok () (s\<lparr>bs_pending := hm_remove i (bs_pending s),
                       bs_send_tasks := bs_send_tasks s @ [(buf, cancel)]\<rparr>))"

definition on_join_recv ::
  "nat \<Rightarrow> recv_end \<Rightarrow> ('d, 'm, 'x, 'n) bulk_session \<Rightarrow>
   (unit, ('d, 'm, 'x, 'n) bulk_session) outcome" where
  "on_join_recv k finish s =
     (let s1 = s\<lparr>bs_recv_tasks := remove_at k (bs_recv_tasks s)\<rparr> in
      case recv_task (bs_recv_tasks s ! k) finish of
        Inl panic \<Rightarrow> Err panic s1
      | Inr None \<Rightarrow> Ok () s1
      | Inr (Some recv_event) \<Rightarrow> send_upcall (UReceived recv_event) s1)"

definition on_join_cancel ::
  "nat \<Rightarrow> ('d, 'm, 'x, 'n) bulk_session \<Rightarrow> (unit, ('d, 'm, 'x, 'n) bulk_session) outcome" where
  "on_join_cancel k s =
     Ok () (s\<lparr>bs_cancel_tasks := remove_at k (bs_cancel_tasks s),
              bs_pending := hm_remove (fst (bs_cancel_tasks s ! k)) (bs_pending s)\<rparr>)"

datatype ('d, 'm, 'x, 'n) bulk_input =
    BEvent "('d, 'm, 'x, 'n) bulk_event"
  | BStream "u32 option"
  | BJoinSend nat
  | BJoinRecv nat recv_end
  | BJoinCancel nat

fun bulk_select ::
  "('d, 'm, 'x, 'n) bulk_input \<Rightarrow> ('d, 'm, 'x, 'n) bulk_session \<Rightarrow>
   (unit, ('d, 'm, 'x, 'n) bulk_session) outcome" where
  "bulk_select (BEvent e) s = on_bulk_event e s"
| "bulk_select (BStream read) s = on_bulk_stream read s"
| "bulk_select (BJoinSend k) s = Ok () (s\<lparr>bs_send_tasks := remove_at k (bs_send_tasks s)\<rparr>)"
| "bulk_select (BJoinRecv k finish) s = on_join_recv k finish s"
| "bulk_select (BJoinCancel k) s = on_join_cancel k s"

text \<open>
  When a branch can be taken: a receiving task ends by cancellation only when it has a token and the
  token is cancelled; a cancelling task ends when its token is cancelled or, without one, when its
  2.5 seconds are over, which can be at any time here.
\<close>

fun bulk_ready ::
  "token list \<Rightarrow> ('d, 'm, 'x, 'n) bulk_input \<Rightarrow> ('d, 'm, 'x, 'n) bulk_session \<Rightarrow> bool" where
  "bulk_ready cancelled (BEvent e) s = True"
| "bulk_ready cancelled (BStream read) s = True"
| "bulk_ready cancelled (BJoinSend k) s = (k < length (bs_send_tasks s))"
| "bulk_ready cancelled (BJoinRecv k finish) s =
     (k < length (bs_recv_tasks s) \<and>
      (finish \<noteq> Cancelled \<or> (case ac_cancel (bs_recv_tasks s ! k) of
                               Some t \<Rightarrow> t \<in> set cancelled
                             | None \<Rightarrow> False)))"
| "bulk_ready cancelled (BJoinCancel k) s =
     (k < length (bs_cancel_tasks s) \<and>
      (case snd (bs_cancel_tasks s ! k) of Some t \<Rightarrow> t \<in> set cancelled | None \<Rightarrow> True))"

text \<open>A run: the branches taken in turn, each with the tokens cancelled by then.\<close>

fun bulk_run ::
  "(token list \<times> ('d, 'm, 'x, 'n) bulk_input) list \<Rightarrow> ('d, 'm, 'x, 'n) bulk_session \<Rightarrow>
   (unit, ('d, 'm, 'x, 'n) bulk_session) outcome" where
  "bulk_run [] s = Ok () s"
| "bulk_run ((cancelled, e) # es) s =
     (if bulk_ready cancelled e s
      then and_then (bulk_select e s) (\<lambda>_. bulk_run es)
      else bulk_run es s)"

text \<open>
  What a run offered, in order; and the buffers of the sending tasks it started, each with the id
  that the connection asked for.
\<close>

definition bulk_offers ::
  "(token list \<times> ('d, 'm, 'x, 'n) bulk_input) list \<Rightarrow> ('d, 'm) offer list" where
  "bulk_offers es =
     concat (map (\<lambda>(_, e). case e of BEvent (BOffer offer) \<Rightarrow> [offer] | _ \<Rightarrow> []) es)"

definition requested :: "('d, 'm, 'x, 'n) bulk_input \<Rightarrow> u32 option" where
  "requested e = (case e of BStream read \<Rightarrow> read | _ \<Rightarrow> None)"

definition served_by ::
  "('d, 'm, 'x, 'n) bulk_input \<Rightarrow> ('d, 'm, 'x, 'n) bulk_session \<Rightarrow>
   ('d, 'm, 'x, 'n) bulk_session \<Rightarrow> (u32 option \<times> payload) list" where
  "served_by e s s' =
     map (\<lambda>(buf, _). (requested e, buf)) (drop (length (bs_send_tasks s)) (bs_send_tasks s'))"

fun bulk_served ::
  "(token list \<times> ('d, 'm, 'x, 'n) bulk_input) list \<Rightarrow> ('d, 'm, 'x, 'n) bulk_session \<Rightarrow>
   (u32 option \<times> payload) list" where
  "bulk_served [] s = []"
| "bulk_served ((cancelled, e) # es) s =
     (if bulk_ready cancelled e s
      then served_by e s (after (bulk_select e s)) @
        (case bulk_select e s of Ok _ s' \<Rightarrow> bulk_served es s' | Err _ _ \<Rightarrow> [])
      else bulk_served es s)"

section \<open>An offer is served at most once\<close>

definition offers_of :: "('d, 'm, 'x, 'n) bulk_input \<Rightarrow> ('d, 'm) offer list" where
  "offers_of e = (case e of BEvent (BOffer offer) \<Rightarrow> [offer] | _ \<Rightarrow> [])"

lemma bulk_offers_simps [simp]:
  "bulk_offers [] = []"
  "bulk_offers ((cancelled, e) # es) = offers_of e @ bulk_offers es"
  by (simp_all add: bulk_offers_def offers_of_def)

definition offered :: "('d, 'm) offer list \<Rightarrow> u32 \<Rightarrow> payload \<Rightarrow> bool" where
  "offered offs i buf \<longleftrightarrow>
     0 < unat i \<and> unat i \<le> length offs \<and> of_buf (offs ! (unat i - 1)) = buf"

lemma offered_append: "offered offs i buf \<Longrightarrow> offered (offs @ offs') i buf"
  by (auto simp: offered_def nth_append)

lemma unat_next_u32:
  assumes "Suc n < 2 ^ 32"
  shows "unat (word_of_nat n + 1 :: u32) = Suc n"
proof -
  have "(word_of_nat n + 1 :: u32) = word_of_nat (Suc n)" by simp
  also have "unat (word_of_nat (Suc n) :: u32) = Suc n"
    using assms by (simp add: unat_of_nat del: of_nat_Suc)
  finally show ?thesis .
qed

lemma offered_last:
  assumes "length (offs @ [x]) < 2 ^ 32"
  shows "offered (offs @ [x]) (word_of_nat (length offs) + 1) (of_buf x)"
  using unat_next_u32 [of "length offs"] assms
  by (simp add: offered_def nth_append del: One_nat_def)

text \<open>
  Ids count the offers; what is pending, and what was served and is not pending any more, has the
  buffer of the offer of its number.
\<close>

definition bulk_inv ::
  "('d, 'm) offer list \<Rightarrow> (u32 option \<times> payload) list \<Rightarrow>
   ('d, 'm, 'x, 'n) bulk_session \<Rightarrow> bool" where
  "bulk_inv offs srv s \<longleftrightarrow>
     bs_id s = word_of_nat (length offs) \<and>
     (\<forall>i buf c. hm_get (bs_pending s) i = Some (buf, c) \<longrightarrow> offered offs i buf) \<and>
     (\<forall>(r, buf) \<in> set srv. \<exists>i. r = Some i \<and> offered offs i buf \<and> hm_get (bs_pending s) i = None) \<and>
     distinct (map fst srv)"

lemma bulk_inv_new: "bulk_inv [] [] (bulk_new addr net upcall)"
  by (simp add: bulk_inv_def bulk_new_def)

lemma bulk_inv_same:
  assumes "bulk_inv offs srv s" and "bs_id s' = bs_id s" and "bs_pending s' = bs_pending s"
  shows "bulk_inv offs srv s'"
  using assms by (simp add: bulk_inv_def)

lemma bulk_inv_remove:
  assumes "bulk_inv offs srv s" and "bs_id s' = bs_id s"
    and "bs_pending s' = hm_remove i (bs_pending s)"
  shows "bulk_inv offs srv s'"
  using assms by (fastforce simp: bulk_inv_def split: if_splits)

lemma bulk_inv_serve:
  assumes "bulk_inv offs srv s" and "hm_get (bs_pending s) i = Some (buf, c)"
    and "bs_id s' = bs_id s" and "bs_pending s' = hm_remove i (bs_pending s)"
  shows "bulk_inv offs (srv @ [(Some i, buf)]) s'"
proof -
  have "Some i \<notin> fst ` set srv" using assms(1,2) by (fastforce simp: bulk_inv_def)
  with bulk_inv_remove [OF assms(1,3,4)] assms show ?thesis by (auto simp: bulk_inv_def)
qed

lemma not_offered_next:
  assumes "length (offs @ [x]) < 2 ^ 32"
  shows "\<not> offered offs (word_of_nat (length offs) + 1) buf"
  using unat_next_u32 [of "length offs"] assms by (simp add: offered_def)

lemma bulk_inv_offer:
  assumes inv: "bulk_inv offs srv s" and len: "length (offs @ [x]) < 2 ^ 32"
    and "bs_id s' = bs_id s + 1"
    and "bs_pending s' = hm_insert (bs_id s + 1) (of_buf x, of_cancel x) (bs_pending s)"
  shows "bulk_inv (offs @ [x]) srv s'"
proof -
  have i: "bs_id s = word_of_nat (length offs)" using inv by (simp add: bulk_inv_def)
  have served: "\<forall>(r, buf) \<in> set srv.
      \<exists>j. r = Some j \<and> offered (offs @ [x]) j buf \<and> hm_get (bs_pending s') j = None"
  proof clarify
    fix r buf assume "(r, buf) \<in> set srv"
    with inv obtain j where "r = Some j" "offered offs j buf" "hm_get (bs_pending s) j = None"
      by (fastforce simp: bulk_inv_def)
    with assms(4) i not_offered_next [OF len, of buf]
    show "\<exists>j. r = Some j \<and> offered (offs @ [x]) j buf \<and> hm_get (bs_pending s') j = None"
      by (auto intro: offered_append)
  qed
  have pending: "offered (offs @ [x]) j buf" if "hm_get (bs_pending s') j = Some (buf, c)" for j buf c
    using inv that assms(4) i offered_last [OF len]
    by (auto simp: bulk_inv_def intro: offered_append split: if_splits)
  have "distinct (map fst srv)" "bs_id s' = word_of_nat (length (offs @ [x]))"
    using inv assms(3) i by (simp_all add: bulk_inv_def)
  with served pending show ?thesis unfolding bulk_inv_def by blast
qed

lemma bulk_inv_served:
  assumes "bulk_inv offs srv s"
  shows "distinct (map fst srv)"
    and "\<forall>(r, buf) \<in> set srv. \<exists>i. r = Some i \<and> offered (offs @ later) i buf"
proof -
  show "distinct (map fst srv)" using assms by (simp add: bulk_inv_def)
  show "\<forall>(r, buf) \<in> set srv. \<exists>i. r = Some i \<and> offered (offs @ later) i buf"
  proof clarify
    fix r buf assume "(r, buf) \<in> set srv"
    with assms obtain i where "r = Some i" "offered offs i buf" by (fastforce simp: bulk_inv_def)
    then show "\<exists>i. r = Some i \<and> offered (offs @ later) i buf" by (auto intro: offered_append)
  qed
qed

lemma send_upcall_keeps:
  "bs_id (after (send_upcall m s)) = bs_id s"
  "bs_pending (after (send_upcall m s)) = bs_pending s"
  "bs_send_tasks (after (send_upcall m s)) = bs_send_tasks s"
  by (simp_all add: send_upcall_def)

lemma served_by_none: "bs_send_tasks s' = bs_send_tasks s \<Longrightarrow> served_by e s s' = []"
  by (simp add: served_by_def)

lemma bulk_inv_step:
  assumes inv: "bulk_inv offs srv s" and len: "length (offs @ offers_of e) < 2 ^ 32"
  shows "bulk_inv (offs @ offers_of e) (srv @ served_by e s (after (bulk_select e s)))
    (after (bulk_select e s))"
proof (cases e)
  case (BEvent x)
  show ?thesis
  proof (cases x)
    case (BOffer y)
    with BEvent len have "length (offs @ [y]) < 2 ^ 32" by (simp add: offers_of_def)
    from bulk_inv_offer [OF inv this, of "after (bulk_select e s)"] show ?thesis
      using BEvent BOffer by (simp add: offers_of_def served_by_none Let_def)
  qed (use BEvent inv in \<open>auto simp: offers_of_def served_by_none send_upcall_keeps
         intro: bulk_inv_same\<close>)
next
  case (BStream read)
  show ?thesis
  proof (cases "\<exists>i buf c. read = Some i \<and> hm_get (bs_pending s) i = Some (buf, c)")
    case True
    then obtain i buf c where "read = Some i" and get: "hm_get (bs_pending s) i = Some (buf, c)"
      by blast
    with BStream bulk_inv_serve [OF inv get, of "after (bulk_select e s)"] show ?thesis
      by (simp add: offers_of_def served_by_def requested_def on_bulk_stream_def)
  next
    case False
    then show ?thesis
      using BStream inv
      by (cases read)
        (auto simp: offers_of_def served_by_none on_bulk_stream_def split: option.splits)
  qed
next
  case (BJoinRecv k finish)
  have "bs_id (after (on_join_recv k finish s)) = bs_id s \<and>
      bs_pending (after (on_join_recv k finish s)) = bs_pending s \<and>
      bs_send_tasks (after (on_join_recv k finish s)) = bs_send_tasks s"
    by (auto simp: on_join_recv_def Let_def send_upcall_keeps split: sum.split option.split)
  then show ?thesis
    using BJoinRecv inv by (auto simp: offers_of_def served_by_none intro: bulk_inv_same)
next
  case (BJoinSend k)
  then show ?thesis
    using inv by (auto simp: offers_of_def served_by_def remove_at_def intro: bulk_inv_same)
qed (use inv in \<open>auto simp: offers_of_def served_by_none on_join_cancel_def
       intro: bulk_inv_same bulk_inv_remove\<close>)

lemma bulk_inv_run:
  assumes "bulk_inv offs srv s" and "length (offs @ bulk_offers es) < 2 ^ 32"
  shows "distinct (map fst (srv @ bulk_served es s)) \<and>
    (\<forall>(r, buf) \<in> set (srv @ bulk_served es s).
       \<exists>i. r = Some i \<and> offered (offs @ bulk_offers es) i buf)"
  using assms
proof (induction es arbitrary: offs srv s)
  case Nil
  with bulk_inv_served [of offs srv s] bulk_inv_served(2) [of offs srv s "[]"] show ?case by simp
next
  case (Cons p es)
  obtain cancelled e where p: "p = (cancelled, e)" by (cases p)
  have len: "length (offs @ offers_of e) < 2 ^ 32" using Cons.prems(2) p by simp
  show ?case
  proof (cases "bulk_ready cancelled e s")
    case False
    have *: "bulk_inv (offs @ offers_of e) srv s" if "offers_of e = []"
      using that Cons.prems(1) by simp
    have "offers_of e = []"
      using False by (cases e) (auto simp: offers_of_def)
    with Cons.IH [OF Cons.prems(1)] Cons.prems(2) p False show ?thesis by simp
  next
    case True
    note inv = bulk_inv_step [OF Cons.prems(1) len]
    show ?thesis
    proof (cases "bulk_select e s")
      case (Ok u s')
      with inv have inv': "bulk_inv (offs @ offers_of e) (srv @ served_by e s s') s'" by simp
      have len': "length ((offs @ offers_of e) @ bulk_offers es) < 2 ^ 32"
        using Cons.prems(2) p by simp
      from Cons.IH [OF inv' len'] p Ok True show ?thesis by simp
    next
      case (Err err s')
      with inv have inv': "bulk_inv (offs @ offers_of e) (srv @ served_by e s s') s'" by simp
      from p Err True have "bulk_served (p # es) s = served_by e s s'"
        and "offs @ bulk_offers (p # es) = (offs @ offers_of e) @ bulk_offers es"
        by simp_all
      with bulk_inv_served(1) [OF inv'] bulk_inv_served(2) [OF inv', of "bulk_offers es"]
      show ?thesis by simp
    qed
  qed
qed

text \<open>C22: an offer is served at most once, with its own bytes. In any run of the bulk session with
  fewer than 2^32 offers, whatever connections come in and whatever is cancelled or times out, every
  sending task the session starts is for the id a connection asked for, no two are for the same id,
  and the buffer the task is given to write is that of the offer that was given this number.\<close>

theorem bulk_serves_once:
  assumes "length (bulk_offers es) < 2 ^ 32"
  shows "distinct (map fst (bulk_served es (bulk_new addr net upcall))) \<and>
    (\<forall>(r, buf) \<in> set (bulk_served es (bulk_new addr net upcall)).
       \<exists>i. r = Some i \<and> offered (bulk_offers es) i buf)"
  using bulk_inv_run [OF bulk_inv_new, of es addr net upcall] assms by simp

definition sample_offers :: "(token list \<times> (nat, nat, nat, nat) bulk_input) list" where
  "sample_offers =
     [([], BEvent (BOffer \<lparr>of_dest = 7, of_message = 1, of_buf = [1, 2], of_cancel = None\<rparr>)),
      ([], BEvent (BOffer \<lparr>of_dest = 8, of_message = 2, of_buf = [3], of_cancel = Some 0\<rparr>)),
      ([], BStream (Some 2)), ([], BStream (Some 2)), ([], BStream (Some 1))]"

theorem bulk_serves_once_witness:
  "bulk_served sample_offers (bulk_new 0 open_sink open_sink) = [(Some 2, [3]), (Some 1, [1, 2])] \<and>
   distinct (map fst (bulk_served sample_offers (bulk_new 0 open_sink open_sink)))"
proof
  show "bulk_served sample_offers (bulk_new 0 open_sink open_sink) = [(Some 2, [3]), (Some 1, [1, 2])]"
    by code_simp
  have "length (bulk_offers sample_offers) < 2 ^ 32" by (simp add: sample_offers_def offers_of_def)
  from conjunct1 [OF bulk_serves_once [OF this]]
  show "distinct (map fst (bulk_served sample_offers (bulk_new 0 open_sink open_sink)))" .
qed

section \<open>Cancelled, late and rejected transfers\<close>

text \<open>A transfer that is cut short. The module's comment promises that a cancellation is a
  silent fail on the other side. When only the first \<open>k\<close> bytes of an offered buffer arrive before the
  sender closes the connection, a receiver that expects a length gets nothing if bytes are missing;
  but a receiver without an expected length is handed the \<open>k\<close> bytes, even none at all, as a
  completed transfer.\<close>

theorem bulk_cut_transfer:
  assumes "j < length (bs_recv_tasks s)" and "k < length buf"
    and "ac_expect_len (bs_recv_tasks s ! j) \<in> {None, Some (length buf)}"
    and "ac_into_recv_event (bs_recv_tasks s ! j) (take k buf) = Inr recv_event"
  shows "on_join_recv j (Finished (Inr (take k buf))) s =
    (let s1 = s\<lparr>bs_recv_tasks := remove_at j (bs_recv_tasks s)\<rparr> in
     if ac_expect_len (bs_recv_tasks s ! j) = None then send_upcall (UReceived recv_event) s1
     else Ok () s1)"
  using assms by (auto simp: on_join_recv_def read_stream_def Let_def)

definition sample_receiver :: "usize option \<Rightarrow> (nat, nat, nat, payload) bulk_session" where
  "sample_receiver expect_len =
     (bulk_new 0 open_sink open_sink)\<lparr>bs_recv_tasks :=
       [\<lparr>ac_serve_internal = (5, 1), ac_expect_len = expect_len, ac_into_recv_event = Inr,
         ac_cancel = None\<rparr>]\<rparr>"

theorem bulk_cut_transfer_witness:
  "sent (bs_upcall (after (on_join_recv 0 (Finished (Inr (take 0 [1, 2]))) (sample_receiver None)))) =
     [UReceived []] \<and>
   sent (bs_upcall (after (on_join_recv 0 (Finished (Inr (take 0 [1, 2])))
     (sample_receiver (Some 2))))) = []"
  using bulk_cut_transfer [of 0 "sample_receiver None" 0 "[1, 2]" "[]"]
    bulk_cut_transfer [of 0 "sample_receiver (Some 2)" 0 "[1, 2]" "[]"]
  by (simp add: sample_receiver_def bulk_new_def send_upcall_def open_sink_def)

text \<open>Reliable, but only for 2.5 seconds. An offer made without a token, whose receiver never
  cancels, is forgotten when its timeout task ends: a connection that asks for it afterwards is
  closed and gets no byte, although the module's comment promises that a transfer neither side
  cancels always finishes.\<close>

theorem bulk_timeout_drops:
  assumes "\<not> closed (bs_net s)" and "of_cancel x = None"
    and "on_bulk_event (BOffer x) s = Ok () s'"
  shows "bulk_ready [] (BJoinCancel (length (bs_cancel_tasks s))) s' \<and>
    (\<exists>s2. bulk_select (BJoinCancel (length (bs_cancel_tasks s))) s' = Ok () s2 \<and>
      on_bulk_stream (Some (bs_id s')) s2 = Ok () s2)"
  using assms
  by (auto simp: Let_def on_join_cancel_def on_bulk_stream_def)

theorem bulk_timeout_drops_witness:
  "bulk_ready [] (BJoinCancel 0)
     (after (on_bulk_event (BOffer \<lparr>of_dest = 7, of_message = 1, of_buf = [1], of_cancel = None\<rparr>)
       (bulk_new 0 open_sink open_sink :: (nat, nat, nat, nat) bulk_session)))"
  using bulk_timeout_drops [of "bulk_new 0 open_sink open_sink :: (nat, nat, nat, nat) bulk_session"
      "\<lparr>of_dest = 7, of_message = 1, of_buf = [1], of_cancel = None\<rparr>"]
  by (simp add: bulk_new_def open_sink_def Let_def)

text \<open>
  An offer is answered once: after an accept or a reject that went through, another one is refused
  and sends nothing.
\<close>

lemma bulk_accept_takes:
  assumes "bulk_accept expect into cancel (ro, blob) = Ok () (ro', blob')"
  shows "ro_serve_internal ro' = None"
  using assms by (auto simp: bulk_accept_def lift_outcome_Ok_iff split: option.splits)

lemma bulk_accept_twice:
  assumes "bulk_accept expect into cancel (ro, blob) = Ok () (ro', blob')"
  shows "bulk_accept expect2 into2 cancel2 (ro', blob') =
    Err (Bail ''the offer has already been accepted/rejected'') (ro', blob')"
  using bulk_accept_takes [OF assms] by (simp add: bulk_accept_def)

text \<open>
  A reject races with its own cancellation: when the session takes the accept and the sender's bytes
  come in before the token is cancelled, joining the task panics and the session ends.
\<close>

lemma bulk_reject_race:
  assumes "ro_serve_internal ro = Some x" and "\<not> closed blob"
    and "bulk_reject t ((ro, blob), ts) = Ok () ((ro', blob'), ts')"
  shows "\<exists>accept. sent blob' = sent blob @ [BAccept accept] \<and> ts' = t # ts \<and>
    on_bulk_event (BAccept accept) s = Ok () (s\<lparr>bs_recv_tasks := bs_recv_tasks s @ [accept]\<rparr>) \<and>
    on_join_recv (length (bs_recv_tasks s)) (Finished (Inr arrived))
      (s\<lparr>bs_recv_tasks := bs_recv_tasks s @ [accept]\<rparr>) = Err (Panic ''unreachable'') s"
  using assms
  by (auto simp: bulk_reject_def bulk_accept_def on_join_recv_def Let_def read_stream_def
      remove_at_def)

end
