(* ===== verification/Entropy.thy ===== *)
theory Entropy
  imports Bulk Kad_Peer
begin

text \<open>
  \<open>src/crates/entropy/src/lib.rs\<close>: the storage peer with all its handlers, the routing of received
  messages, and the file system session \<open>fs::session\<close>.

  \<^item> A chunk is a 256-bit target. \<open>wirehair\<close> is a library: its encoder and decoder are types \<open>'enc\<close>
    and \<open>'dec\<close> with the operations in a record \<open>chunk_codec\<close>. The hash feeds, the crypto library and
    \<open>Preimage::target\<close> are in \<open>entropy_env\<close>.
  \<^item> What the peer sends is on channels: the net, the bulk service (\<open>Bulk\<close>), the upcall, the file
    system. The codec worker is a \<open>worker\<close> of \<open>Net\<close> and its closures are \<open>codec_work\<close>.
  \<^item> A \<open>CancellationToken\<close> is a number: \<open>et_next_token\<close> is the next new one and \<open>et_cancelled\<close> holds
    those cancelled.
  \<^item> The random index of \<open>Invite\<close> comes with the event. A \<open>HashSet\<close> is a list without duplicates;
    the first key of a \<open>HashMap\<close> in its iteration order is the one \<open>ee_pick\<close> chooses.
\<close>

type_synonym chunk = "u8 list"

section \<open>Messages\<close>

record invite =
  iv_chunk :: chunk
  iv_peer_id :: peer_id

record invite_ok =
  io_chunk :: chunk
  io_index :: u32
  io_proof :: unit
  io_peer_id :: peer_id

record send_fragment =
  sf_chunk :: chunk
  sf_index :: u32
  sf_peer_id :: "peer_id option"

record fragment_available =
  fa_chunk :: chunk
  fa_peer_id :: peer_id
  fa_peer_key :: bytes

record pull =
  pl_chunk :: chunk
  pl_peer_id :: peer_id

datatype entropy_send =
    SendInvite chunk usize invite
  | SendInviteOk peer_id invite_ok
  | SendAvailable peer_id "fragment_available peer_verifiable"
  | SendPull chunk usize pull

datatype 'k entropy_upcall = UpPutOk 'k | UpGetOk 'k payload

datatype download_ok = DownloadOk chunk u32 payload

datatype fs_event = Store chunk u32 payload | Load chunk u32 bool

datatype fs_upcall = StoreOk chunk | LoadOk chunk u32 payload

section \<open>The codec and its worker\<close>

record ('enc, 'dec) chunk_codec =
  cd_new_encoder :: "payload \<Rightarrow> u32 \<Rightarrow> error + 'enc"
  cd_encode :: "'enc \<Rightarrow> u32 \<Rightarrow> error + payload"
  cd_new_decoder :: "usize \<Rightarrow> u32 \<Rightarrow> error + 'dec"
  cd_decode :: "'dec \<Rightarrow> u32 \<Rightarrow> payload \<Rightarrow> error + bool \<times> 'dec"
  cd_into_encoder :: "'dec \<Rightarrow> error + 'enc"
  cd_recover :: "'dec \<Rightarrow> error + payload"

datatype ('enc, 'dec) codec_event =
    NewEncoder chunk 'enc
  | Encode chunk u32 payload
  | Decode chunk 'dec
  | Recover chunk payload
  | RecoverEncode chunk payload

datatype ('enc, 'dec) codec_work =
    EncoderWork chunk payload u32
  | EncodeWork chunk u32 'enc
  | DecodeWork chunk u32 payload "u32 option" 'dec

fun codec_work_event ::
  "('enc, 'dec) chunk_codec \<Rightarrow> ('enc, 'dec) codec_work \<Rightarrow> error + ('enc, 'dec) codec_event" where
  "codec_work_event cd (EncoderWork chunk buf fragment_len) =
     (case cd_new_encoder cd buf fragment_len of
        Inl e \<Rightarrow> Inl e
      | Inr encoder \<Rightarrow> Inr (NewEncoder chunk encoder))"
| "codec_work_event cd (EncodeWork chunk idx encoder) =
     (case cd_encode cd encoder idx of
        Inl e \<Rightarrow> Inl e
      | Inr fragment \<Rightarrow> Inr (Encode chunk idx fragment))"
| "codec_work_event cd (DecodeWork chunk idx fragment encode_index decoder) =
     (case cd_decode cd decoder idx fragment of
        Inl e \<Rightarrow> Inl e
      | Inr (False, decoder) \<Rightarrow> Inr (Decode chunk decoder)
      | Inr (True, decoder) \<Rightarrow>
          (case encode_index of
             Some idx \<Rightarrow>
               (case cd_into_encoder cd decoder of
                  Inl e \<Rightarrow> Inl e
                | Inr encoder \<Rightarrow>
                    (case cd_encode cd encoder idx of
                       Inl e \<Rightarrow> Inl e
                     | Inr fragment \<Rightarrow> Inr (RecoverEncode chunk fragment)))
           | None \<Rightarrow>
               (case cd_recover cd decoder of
                  Inl e \<Rightarrow> Inl e
                | Inr buf \<Rightarrow> Inr (Recover chunk buf))))"

type_synonym ('enc, 'dec) codec_worker =
  "(unit, ('enc, 'dec) codec_work, ('enc, 'dec) codec_event) worker"

definition codec_run ::
  "('enc, 'dec) chunk_codec \<Rightarrow> ('enc, 'dec) codec_work \<Rightarrow> unit \<Rightarrow> ('enc, 'dec) codec_event sink \<Rightarrow>
   (unit, ('enc, 'dec) codec_event sink) outcome" where
  "codec_run cd work state sender =
     (case codec_work_event cd work of
        Inl e \<Rightarrow> Err e sender
      | Inr event \<Rightarrow> push_sink event sender)"

section \<open>The peer\<close>

record ('k, 'enc, 'dec) entropy_env =
  ee_codec :: "('enc, 'dec) chunk_codec"
  ee_lib :: crypto_lib
  ee_key_feed :: "bytes \<Rightarrow> bytes"
  ee_target :: "'k \<Rightarrow> chunk"
  ee_pick :: "u32 list \<Rightarrow> nat"

record ('k, 'enc) upload_state =
  up_preimage :: 'k
  up_encoder :: "'enc option"
  up_pending :: "(u32, peer_id) hmap"
  up_available :: "peer_id list"
  up_cancel :: token

record 'dec recover_state =
  rv_decoder :: "'dec option"
  rv_pending :: "(u32, payload) hmap"
  rv_received :: "u32 list"
  rv_cancel :: token

record ('k, 'dec) download_state =
  dl_preimage :: 'k
  dl_recover :: "'dec recover_state"

datatype 'dec persist_status = Recovering "'dec recover_state" | Storing | Available

record 'dec persist_state =
  ps_index :: u32
  ps_status :: "'dec persist_status"
  ps_notify :: "peer_id option"

type_synonym 'x blob = "(peer_id, send_fragment, 'x, download_ok) bulk_event sink"

record ('k, 'x, 'enc, 'dec) entropy =
  et_id :: peer_id
  et_fragment_len :: u32
  et_chunk_k :: usize
  et_chunk_n :: usize
  et_chunk_m :: usize
  et_uploads :: "(chunk, ('k, 'enc) upload_state) hmap"
  et_downloads :: "(chunk, ('k, 'dec) download_state) hmap"
  et_persists :: "(chunk, 'dec persist_state) hmap"
  et_pending_pulls :: "(chunk, peer_id list) hmap"
  et_net :: "entropy_send sink"
  et_blob :: "'x blob"
  et_upcall :: "'k entropy_upcall sink"
  et_codec_worker :: "('enc, 'dec) codec_worker"
  et_fs :: "fs_event sink"
  et_keypair :: bytes
  et_next_token :: token
  et_cancelled :: "token list"

definition entropy_new ::
  "peer_id \<Rightarrow> bytes \<Rightarrow> u32 \<Rightarrow> usize \<Rightarrow> usize \<Rightarrow> usize \<Rightarrow> entropy_send sink \<Rightarrow> 'x blob \<Rightarrow>
   'k entropy_upcall sink \<Rightarrow> ('enc, 'dec) codec_worker \<Rightarrow> fs_event sink \<Rightarrow>
   ('k, 'x, 'enc, 'dec) entropy" where
  "entropy_new i keypair fragment_len chunk_k chunk_n chunk_m net blob upcall worker fs =
     \<lparr>et_id = i, et_fragment_len = fragment_len, et_chunk_k = chunk_k, et_chunk_n = chunk_n,
      et_chunk_m = chunk_m, et_uploads = [], et_downloads = [], et_persists = [],
      et_pending_pulls = [], et_net = net, et_blob = blob, et_upcall = upcall,
      et_codec_worker = worker, et_fs = fs, et_keypair = keypair, et_next_token = 0,
      et_cancelled = []\<rparr>"

text \<open>\<open>fragment_len as usize * chunk_k.get()\<close>; both numbers fit, their product may wrap.\<close>

definition chunk_len :: "('k, 'x, 'enc, 'dec) entropy \<Rightarrow> usize" where
  "chunk_len p = unat (ucast (et_fragment_len p) * word_of_nat (et_chunk_k p) :: u64)"

definition recover_new ::
  "('k, 'enc, 'dec) entropy_env \<Rightarrow> ('k, 'x, 'enc, 'dec) entropy \<Rightarrow>
   ('dec recover_state, ('k, 'x, 'enc, 'dec) entropy) outcome" where
  "recover_new env p =
     (case cd_new_decoder (ee_codec env) (chunk_len p) (et_fragment_len p) of
        Inl e \<Rightarrow> Err e p
      | Inr decoder \<Rightarrow>
          Ok \<lparr>rv_decoder = Some decoder, rv_pending = [], rv_received = [],
              rv_cancel = et_next_token p\<rparr> (p\<lparr>et_next_token := et_next_token p + 1\<rparr>))"

definition et_send ::
  "entropy_send \<Rightarrow> ('k, 'x, 'enc, 'dec) entropy \<Rightarrow> (unit, ('k, 'x, 'enc, 'dec) entropy) outcome" where
  "et_send m p = lift_outcome (\<lambda>c. p\<lparr>et_net := c\<rparr>) (push_sink m (et_net p))"

definition et_call ::
  "'k entropy_upcall \<Rightarrow> ('k, 'x, 'enc, 'dec) entropy \<Rightarrow>
   (unit, ('k, 'x, 'enc, 'dec) entropy) outcome" where
  "et_call m p = lift_outcome (\<lambda>c. p\<lparr>et_upcall := c\<rparr>) (push_sink m (et_upcall p))"

definition et_file ::
  "fs_event \<Rightarrow> ('k, 'x, 'enc, 'dec) entropy \<Rightarrow> (unit, ('k, 'x, 'enc, 'dec) entropy) outcome" where
  "et_file m p = lift_outcome (\<lambda>c. p\<lparr>et_fs := c\<rparr>) (push_sink m (et_fs p))"

definition et_submit ::
  "('k, 'enc, 'dec) entropy_env \<Rightarrow> ('enc, 'dec) codec_work \<Rightarrow> ('k, 'x, 'enc, 'dec) entropy \<Rightarrow>
   (unit, ('k, 'x, 'enc, 'dec) entropy) outcome" where
  "et_submit env work p =
     lift_outcome (\<lambda>w. p\<lparr>et_codec_worker := w\<rparr>)
       (submit (codec_run (ee_codec env)) work (et_codec_worker p))"

definition et_offer ::
  "peer_id \<Rightarrow> send_fragment \<Rightarrow> payload \<Rightarrow> token option \<Rightarrow> ('k, 'x, 'enc, 'dec) entropy \<Rightarrow>
   (unit, ('k, 'x, 'enc, 'dec) entropy) outcome" where
  "et_offer dest message buf cancel p =
     lift_outcome (\<lambda>c. p\<lparr>et_blob := c\<rparr>) (bulk_offer dest message buf cancel (et_blob p))"

definition et_accept ::
  "(send_fragment, 'x) recv_offer \<Rightarrow> token \<Rightarrow> ('k, 'x, 'enc, 'dec) entropy \<Rightarrow>
   (unit, ('k, 'x, 'enc, 'dec) entropy) outcome" where
  "et_accept offer cancel p =
     lift_outcome (\<lambda>(_, c). p\<lparr>et_blob := c\<rparr>)
       (bulk_accept (Some (unat (et_fragment_len p)))
         (\<lambda>buf. Inr (DownloadOk (sf_chunk (ro_inner offer)) (sf_index (ro_inner offer)) buf))
         (Some cancel) (offer, et_blob p))"

definition fragment_available_feed ::
  "('k, 'enc, 'dec) entropy_env \<Rightarrow> fragment_available \<Rightarrow> bytes" where
  "fragment_available_feed env m =
     hash_bytes (fa_chunk m) @ hash_bytes (fa_peer_id m) @ ee_key_feed env (fa_peer_key m)"

definition et_public_key ::
  "('k, 'enc, 'dec) entropy_env \<Rightarrow> ('k, 'x, 'enc, 'dec) entropy \<Rightarrow> bytes" where
  "et_public_key env p = lib_schnorr_public (ee_lib env) (et_keypair p)"

definition send_available ::
  "('k, 'enc, 'dec) entropy_env \<Rightarrow> peer_id \<Rightarrow> chunk \<Rightarrow> ('k, 'x, 'enc, 'dec) entropy \<Rightarrow>
   (unit, ('k, 'x, 'enc, 'dec) entropy) outcome" where
  "send_available env dest chunk p =
     et_send (SendAvailable dest (peer_sign (ee_lib env) (fragment_available_feed env)
       (et_keypair p)
       \<lparr>fa_chunk = chunk, fa_peer_id = et_id p, fa_peer_key = et_public_key env p\<rparr>)) p"

section \<open>Uploading\<close>

definition on_put ::
  "('k, 'enc, 'dec) entropy_env \<Rightarrow> 'k \<Rightarrow> payload \<Rightarrow> ('k, 'x, 'enc, 'dec) entropy \<Rightarrow>
   (unit, ('k, 'x, 'enc, 'dec) entropy) outcome" where
  "on_put env preimage buf p =
     (if length buf \<noteq> chunk_len p then Err (Bail ''expect chunk len'') p
      else
        let chunk = ee_target env preimage;
            replaced = hm_get (et_uploads p) chunk;
            p1 = p\<lparr>et_uploads := hm_insert chunk
                     \<lparr>up_preimage = preimage, up_encoder = None, up_pending = [],
                      up_available = [], up_cancel = et_next_token p\<rparr> (et_uploads p),
                   et_next_token := et_next_token p + 1\<rparr>
        in if replaced \<noteq> None then Err (Bail ''duplicated upload chunk'') p1
           else et_submit env (EncoderWork chunk buf (et_fragment_len p1)) p1)"

definition on_new_encoder ::
  "chunk \<Rightarrow> 'enc \<Rightarrow> ('k, 'x, 'enc, 'dec) entropy \<Rightarrow>
   (unit, ('k, 'x, 'enc, 'dec) entropy) outcome" where
  "on_new_encoder chunk encoder p =
     (case hm_get (et_uploads p) chunk of
        None \<Rightarrow> Ok () p
      | Some state \<Rightarrow>
          let p1 = p\<lparr>et_uploads :=
                       hm_insert chunk (state\<lparr>up_encoder := Some encoder\<rparr>) (et_uploads p)\<rparr>
          in if up_encoder state \<noteq> None then
               Err (Panic ''assertion failed: replaced.is_none()'') p1
             else et_send (SendInvite chunk (et_chunk_m p1)
                    \<lparr>iv_chunk = chunk, iv_peer_id = et_id p1\<rparr>) p1)"

definition on_invite_ok ::
  "('k, 'enc, 'dec) entropy_env \<Rightarrow> invite_ok \<Rightarrow> ('k, 'x, 'enc, 'dec) entropy \<Rightarrow>
   (unit, ('k, 'x, 'enc, 'dec) entropy) outcome" where
  "on_invite_ok env invite_ok p =
     (case hm_get (et_uploads p) (io_chunk invite_ok) of
        Some state \<Rightarrow>
          if hm_has (up_pending state) (io_index invite_ok) then Ok () p
          else
            let p1 = p\<lparr>et_uploads := hm_insert (io_chunk invite_ok)
                         (state\<lparr>up_pending := hm_insert (io_index invite_ok)
                            (io_peer_id invite_ok) (up_pending state)\<rparr>) (et_uploads p)\<rparr>
            in (case up_encoder state of
                  None \<Rightarrow> Err (Panic ''called Option::unwrap() on a None value'') p1
                | Some encoder \<Rightarrow>
                    et_submit env
                      (EncodeWork (io_chunk invite_ok) (io_index invite_ok) encoder) p1)
      | None \<Rightarrow> Ok () p)"

definition on_encode ::
  "chunk \<Rightarrow> u32 \<Rightarrow> payload \<Rightarrow> ('k, 'x, 'enc, 'dec) entropy \<Rightarrow>
   (unit, ('k, 'x, 'enc, 'dec) entropy) outcome" where
  "on_encode chunk idx fragment p =
     (case hm_get (et_uploads p) chunk of
        None \<Rightarrow> Ok () p
      | Some state \<Rightarrow>
          (case hm_get (up_pending state) idx of
             None \<Rightarrow> Ok () p
           | Some peer_id \<Rightarrow>
               et_offer peer_id \<lparr>sf_chunk = chunk, sf_index = idx, sf_peer_id = Some (et_id p)\<rparr>
                 fragment (Some (up_cancel state)) p))"

definition on_fragment_available ::
  "('k, 'enc, 'dec) entropy_env \<Rightarrow> fragment_available peer_verifiable \<Rightarrow>
   ('k, 'x, 'enc, 'dec) entropy \<Rightarrow> (unit, ('k, 'x, 'enc, 'dec) entropy) outcome" where
  "on_fragment_available env message p =
     (let fa = inner message; chunk = fa_chunk fa in
      case hm_get (et_uploads p) chunk of
        None \<Rightarrow> Ok () p
      | Some state \<Rightarrow>
          if fa_peer_id fa = sha256 (ee_lib env) (ee_key_feed env) (fa_peer_key fa) \<and>
             peer_verify (ee_lib env) (fragment_available_feed env) (fa_peer_key fa) message \<noteq> Inr ()
          then Ok () p
          else
            let state1 = state\<lparr>up_available := List.insert (fa_peer_id fa) (up_available state)\<rparr>
            in if length (up_available state1) = et_chunk_n p then
                 et_call (UpPutOk (up_preimage state1))
                   (p\<lparr>et_uploads := hm_remove chunk (et_uploads p),
                      et_cancelled := up_cancel state1 # et_cancelled p\<rparr>)
               else Ok () (p\<lparr>et_uploads := hm_insert chunk state1 (et_uploads p)\<rparr>))"

section \<open>Recovering a chunk from its fragments\<close>

definition submit_decode ::
  "('k, 'enc, 'dec) entropy_env \<Rightarrow> chunk \<Rightarrow> u32 \<Rightarrow> payload \<Rightarrow> u32 option \<Rightarrow>
   'dec recover_state \<times> ('enc, 'dec) codec_worker \<Rightarrow>
   (unit, 'dec recover_state \<times> ('enc, 'dec) codec_worker) outcome" where
  "submit_decode env chunk idx fragment encode_index s =
     (case s of (r, w) \<Rightarrow>
        case rv_decoder r of
          Some decoder \<Rightarrow>
            lift_outcome (Pair (r\<lparr>rv_decoder := None\<rparr>))
              (submit (codec_run (ee_codec env))
                (DecodeWork chunk idx fragment encode_index decoder) w)
        | None \<Rightarrow> Ok () (r\<lparr>rv_pending := hm_insert idx fragment (rv_pending r)\<rparr>, w))"

definition recover_on_decode ::
  "('k, 'enc, 'dec) entropy_env \<Rightarrow> chunk \<Rightarrow> 'dec \<Rightarrow> u32 option \<Rightarrow>
   'dec recover_state \<times> ('enc, 'dec) codec_worker \<Rightarrow>
   (unit, 'dec recover_state \<times> ('enc, 'dec) codec_worker) outcome" where
  "recover_on_decode env chunk decoder encode_index s =
     (case s of (r, w) \<Rightarrow>
        let r1 = r\<lparr>rv_decoder := Some decoder\<rparr> in
        if rv_decoder r \<noteq> None then Err (Panic ''assertion failed: replaced.is_none()'') (r1, w)
        else if rv_pending r1 = [] then Ok () (r1, w)
        else
          let (idx, fragment) =
                rv_pending r1 ! (ee_pick env (map fst (rv_pending r1)) mod length (rv_pending r1))
          in submit_decode env chunk idx fragment encode_index
               (r1\<lparr>rv_pending := hm_remove idx (rv_pending r1)\<rparr>, w))"

text \<open>Where the recovering state lives: in a download or in a persisted chunk.\<close>

definition put_download ::
  "chunk \<Rightarrow> ('k, 'dec) download_state \<Rightarrow> ('k, 'x, 'enc, 'dec) entropy \<Rightarrow>
   'dec recover_state \<times> ('enc, 'dec) codec_worker \<Rightarrow> ('k, 'x, 'enc, 'dec) entropy" where
  "put_download chunk state p s =
     p\<lparr>et_downloads := hm_insert chunk (state\<lparr>dl_recover := fst s\<rparr>) (et_downloads p),
       et_codec_worker := snd s\<rparr>"

definition put_persist ::
  "chunk \<Rightarrow> 'dec persist_state \<Rightarrow> ('k, 'x, 'enc, 'dec) entropy \<Rightarrow>
   'dec recover_state \<times> ('enc, 'dec) codec_worker \<Rightarrow> ('k, 'x, 'enc, 'dec) entropy" where
  "put_persist chunk state p s =
     p\<lparr>et_persists := hm_insert chunk (state\<lparr>ps_status := Recovering (fst s)\<rparr>) (et_persists p),
       et_codec_worker := snd s\<rparr>"

definition on_download_ok ::
  "('k, 'enc, 'dec) entropy_env \<Rightarrow> download_ok \<Rightarrow> ('k, 'x, 'enc, 'dec) entropy \<Rightarrow>
   (unit, ('k, 'x, 'enc, 'dec) entropy) outcome" where
  "on_download_ok env m p =
     (case m of DownloadOk chunk idx fragment \<Rightarrow>
        case hm_get (et_downloads p) chunk of
          Some state \<Rightarrow>
            lift_outcome (put_download chunk state p)
              (submit_decode env chunk idx fragment None (dl_recover state, et_codec_worker p))
        | None \<Rightarrow>
            (case hm_get (et_persists p) chunk of
               None \<Rightarrow> Ok () p
             | Some state \<Rightarrow>
                 (case ps_status state of
                    Recovering recover \<Rightarrow>
                      if idx = ps_index state then
                        et_file (Store chunk (ps_index state) fragment)
                          (p\<lparr>et_persists := hm_insert chunk (state\<lparr>ps_status := Storing\<rparr>)
                               (et_persists p)\<rparr>)
                      else if idx \<notin> set (rv_received recover) then
                        lift_outcome (put_persist chunk state p)
                          (submit_decode env chunk idx fragment (Some (ps_index state))
                            (recover\<lparr>rv_received := List.insert idx (rv_received recover)\<rparr>,
                             et_codec_worker p))
                      else Ok () p
                  | _ \<Rightarrow> Ok () p)))"

definition on_decode ::
  "('k, 'enc, 'dec) entropy_env \<Rightarrow> chunk \<Rightarrow> 'dec \<Rightarrow> ('k, 'x, 'enc, 'dec) entropy \<Rightarrow>
   (unit, ('k, 'x, 'enc, 'dec) entropy) outcome" where
  "on_decode env chunk decoder p =
     (case hm_get (et_downloads p) chunk of
        Some state \<Rightarrow>
          lift_outcome (put_download chunk state p)
            (recover_on_decode env chunk decoder None (dl_recover state, et_codec_worker p))
      | None \<Rightarrow>
          (case hm_get (et_persists p) chunk of
             None \<Rightarrow> Ok () p
           | Some state \<Rightarrow>
               (case ps_status state of
                  Recovering recover \<Rightarrow>
                    lift_outcome (put_persist chunk state p)
                      (recover_on_decode env chunk decoder (Some (ps_index state))
                        (recover, et_codec_worker p))
                | _ \<Rightarrow> Err (Panic ''internal error: entered unreachable code'') p)))"

section \<open>Persisting a fragment\<close>

definition on_invite ::
  "('k, 'enc, 'dec) entropy_env \<Rightarrow> u32 \<Rightarrow> invite \<Rightarrow> ('k, 'x, 'enc, 'dec) entropy \<Rightarrow>
   (unit, ('k, 'x, 'enc, 'dec) entropy) outcome" where
  "on_invite env idx invite p =
     (if iv_peer_id invite = et_id p then Ok () p
      else and_then (recover_new env p) (\<lambda>recover p1.
        et_send (SendInviteOk (iv_peer_id invite)
          \<lparr>io_chunk = iv_chunk invite, io_index = idx, io_proof = (), io_peer_id = et_id p1\<rparr>)
          (p1\<lparr>et_persists := hm_or_insert (iv_chunk invite)
                \<lparr>ps_index = idx, ps_status = Recovering recover, ps_notify = None\<rparr>
                (et_persists p1)\<rparr>)))"

definition on_recv_offer ::
  "('k, 'enc, 'dec) entropy_env \<Rightarrow> (send_fragment, 'x) recv_offer \<Rightarrow>
   ('k, 'x, 'enc, 'dec) entropy \<Rightarrow> (unit, ('k, 'x, 'enc, 'dec) entropy) outcome" where
  "on_recv_offer env offer p =
     (let send_fragment = ro_inner offer; chunk = sf_chunk send_fragment in
      case hm_get (et_downloads p) chunk of
        Some state \<Rightarrow> et_accept offer (rv_cancel (dl_recover state)) p
      | None \<Rightarrow>
          (case hm_get (et_persists p) chunk of
             None \<Rightarrow> Ok () p
           | Some state \<Rightarrow>
               (case ps_status state of
                  Recovering recover \<Rightarrow>
                    if sf_index send_fragment = ps_index state then
                      if ps_notify state \<noteq> None then
                        Err (Panic ''assertion failed: state.notify.is_none()'') p
                      else (case sf_peer_id send_fragment of
                          None \<Rightarrow> Err (Bail ''expected peer id in SendFragment'') p
                        | Some peer_id \<Rightarrow>
                            et_accept offer (rv_cancel recover)
                              (p\<lparr>et_persists := hm_insert chunk
                                   (state\<lparr>ps_notify := Some peer_id\<rparr>) (et_persists p)\<rparr>))
                    else et_accept offer (rv_cancel recover) p
                | _ \<Rightarrow>
                    (case sf_peer_id send_fragment of
                       None \<Rightarrow> Ok () p
                     | Some peer_id \<Rightarrow>
                         if sf_index send_fragment \<noteq> ps_index state then
                           Err (Panic ''assertion failed: left == right'') p
                         else send_available env peer_id chunk p))))"

definition on_store_ok ::
  "('k, 'enc, 'dec) entropy_env \<Rightarrow> chunk \<Rightarrow> ('k, 'x, 'enc, 'dec) entropy \<Rightarrow>
   (unit, ('k, 'x, 'enc, 'dec) entropy) outcome" where
  "on_store_ok env chunk p =
     (case hm_get (et_persists p) chunk of
        None \<Rightarrow> Ok () p
      | Some state \<Rightarrow>
          let p1 = p\<lparr>et_persists := hm_insert chunk
                       (state\<lparr>ps_status := Available, ps_notify := None\<rparr>) (et_persists p)\<rparr>
          in (case ps_notify state of
                None \<Rightarrow> Ok () p1
              | Some peer_id \<Rightarrow> send_available env peer_id chunk p1))"

definition on_recover_encode ::
  "chunk \<Rightarrow> payload \<Rightarrow> ('k, 'x, 'enc, 'dec) entropy \<Rightarrow>
   (unit, ('k, 'x, 'enc, 'dec) entropy) outcome" where
  "on_recover_encode chunk fragment p =
     (case hm_get (et_persists p) chunk of
        None \<Rightarrow> Ok () p
      | Some state \<Rightarrow>
          let p1 = p\<lparr>et_persists :=
                       hm_insert chunk (state\<lparr>ps_status := Storing\<rparr>) (et_persists p)\<rparr>
          in (case ps_status state of
                Recovering recover \<Rightarrow>
                  et_file (Store chunk (ps_index state) fragment)
                    (p1\<lparr>et_cancelled := rv_cancel recover # et_cancelled p1\<rparr>)
              | _ \<Rightarrow> Err (Panic ''internal error: entered unreachable code'') p1))"

section \<open>Downloading\<close>

definition on_get ::
  "('k, 'enc, 'dec) entropy_env \<Rightarrow> 'k \<Rightarrow> ('k, 'x, 'enc, 'dec) entropy \<Rightarrow>
   (unit, ('k, 'x, 'enc, 'dec) entropy) outcome" where
  "on_get env preimage p =
     (let chunk = ee_target env preimage in
      and_then (recover_new env p) (\<lambda>recover p1.
        let replaced = hm_get (et_downloads p1) chunk;
            p2 = p1\<lparr>et_downloads := hm_insert chunk
                      \<lparr>dl_preimage = preimage, dl_recover = recover\<rparr> (et_downloads p1)\<rparr>
        in if replaced \<noteq> None then Err (Bail ''duplicated download chunk'') p2
           else et_send (SendPull chunk (et_chunk_m p2)
                  \<lparr>pl_chunk = chunk, pl_peer_id = et_id p2\<rparr>) p2))"

definition on_pull ::
  "pull \<Rightarrow> ('k, 'x, 'enc, 'dec) entropy \<Rightarrow> (unit, ('k, 'x, 'enc, 'dec) entropy) outcome" where
  "on_pull pull p =
     (case hm_get (et_persists p) (pl_chunk pull) of
        None \<Rightarrow> Ok () p
      | Some state \<Rightarrow>
          (case ps_status state of
             Available \<Rightarrow>
               et_file (Load (pl_chunk pull) (ps_index state) True)
                 (p\<lparr>et_pending_pulls := hm_insert (pl_chunk pull)
                      ((case hm_get (et_pending_pulls p) (pl_chunk pull) of
                          None \<Rightarrow> [] | Some l \<Rightarrow> l) @ [pl_peer_id pull])
                      (et_pending_pulls p)\<rparr>)
           | _ \<Rightarrow> Ok () p))"

fun offer_each ::
  "send_fragment \<Rightarrow> payload \<Rightarrow> peer_id list \<Rightarrow> ('k, 'x, 'enc, 'dec) entropy \<Rightarrow>
   (unit, ('k, 'x, 'enc, 'dec) entropy) outcome" where
  "offer_each send_fragment fragment [] p = Ok () p"
| "offer_each send_fragment fragment (peer_id # pending) p =
     and_then (et_offer peer_id send_fragment fragment None p)
       (\<lambda>_. offer_each send_fragment fragment pending)"

definition on_load_ok ::
  "chunk \<Rightarrow> u32 \<Rightarrow> payload \<Rightarrow> ('k, 'x, 'enc, 'dec) entropy \<Rightarrow>
   (unit, ('k, 'x, 'enc, 'dec) entropy) outcome" where
  "on_load_ok chunk idx fragment p =
     (case hm_get (et_pending_pulls p) chunk of
        None \<Rightarrow> Ok () p
      | Some pending \<Rightarrow>
          offer_each \<lparr>sf_chunk = chunk, sf_index = idx, sf_peer_id = None\<rparr> fragment pending
            (p\<lparr>et_pending_pulls := hm_remove chunk (et_pending_pulls p)\<rparr>))"

definition on_recover ::
  "chunk \<Rightarrow> payload \<Rightarrow> ('k, 'x, 'enc, 'dec) entropy \<Rightarrow>
   (unit, ('k, 'x, 'enc, 'dec) entropy) outcome" where
  "on_recover chunk buf p =
     (case hm_get (et_downloads p) chunk of
        Some state \<Rightarrow>
          et_call (UpGetOk (dl_preimage state) buf)
            (p\<lparr>et_downloads := hm_remove chunk (et_downloads p),
               et_cancelled := rv_cancel (dl_recover state) # et_cancelled p\<rparr>)
      | None \<Rightarrow> Ok () p)"

section \<open>Events\<close>

datatype ('k, 'x, 'enc, 'dec) entropy_event =
    EvPut 'k payload
  | EvGet 'k
  | EvInvite u32 invite
  | EvInviteOk invite_ok
  | EvPull pull
  | EvAvailable "fragment_available peer_verifiable"
  | EvOffer "(send_fragment, 'x) recv_offer"
  | EvDownloadOk download_ok
  | EvCodec "('enc, 'dec) codec_event"
  | EvFs fs_upcall

fun on_codec_event ::
  "('k, 'enc, 'dec) entropy_env \<Rightarrow> ('enc, 'dec) codec_event \<Rightarrow> ('k, 'x, 'enc, 'dec) entropy \<Rightarrow>
   (unit, ('k, 'x, 'enc, 'dec) entropy) outcome" where
  "on_codec_event env (NewEncoder chunk encoder) p = on_new_encoder chunk encoder p"
| "on_codec_event env (Encode chunk idx fragment) p = on_encode chunk idx fragment p"
| "on_codec_event env (Decode chunk decoder) p = on_decode env chunk decoder p"
| "on_codec_event env (Recover chunk buf) p = on_recover chunk buf p"
| "on_codec_event env (RecoverEncode chunk fragment) p = on_recover_encode chunk fragment p"

fun entropy_on_event ::
  "('k, 'enc, 'dec) entropy_env \<Rightarrow> ('k, 'x, 'enc, 'dec) entropy_event \<Rightarrow>
   ('k, 'x, 'enc, 'dec) entropy \<Rightarrow> (unit, ('k, 'x, 'enc, 'dec) entropy) outcome" where
  "entropy_on_event env (EvPut preimage buf) p = on_put env preimage buf p"
| "entropy_on_event env (EvGet preimage) p = on_get env preimage p"
| "entropy_on_event env (EvInvite idx invite) p = on_invite env idx invite p"
| "entropy_on_event env (EvInviteOk invite_ok) p = on_invite_ok env invite_ok p"
| "entropy_on_event env (EvPull pull) p = on_pull pull p"
| "entropy_on_event env (EvAvailable m) p = on_fragment_available env m p"
| "entropy_on_event env (EvOffer offer) p = on_recv_offer env offer p"
| "entropy_on_event env (EvDownloadOk m) p = on_download_ok env m p"
| "entropy_on_event env (EvCodec e) p = on_codec_event env e p"
| "entropy_on_event env (EvFs (StoreOk chunk)) p = on_store_ok env chunk p"
| "entropy_on_event env (EvFs (LoadOk chunk idx fragment)) p = on_load_ok chunk idx fragment p"

fun entropy_run ::
  "('k, 'enc, 'dec) entropy_env \<Rightarrow> ('k, 'x, 'enc, 'dec) entropy_event list \<Rightarrow>
   ('k, 'x, 'enc, 'dec) entropy \<Rightarrow> (unit, ('k, 'x, 'enc, 'dec) entropy) outcome" where
  "entropy_run env [] p = Ok () p"
| "entropy_run env (e # es) p = and_then (entropy_on_event env e p) (\<lambda>_. entropy_run env es)"

section \<open>Routing received messages\<close>

datatype ('a, 'x) entropy_message =
    MInvite invite
  | MInviteOk invite_ok
  | MPull pull
  | MAvailable "fragment_available peer_verifiable"
  | MFindPeer "'a find_peer peer_verifiable"
  | MFindPeerOk "'a find_peer_ok peer_verifiable"
  | MBlobServe "(send_fragment, 'x) serve"

datatype entropy_recv =
    RecvInvite invite
  | RecvInviteOk invite_ok
  | RecvPull pull
  | RecvAvailable "fragment_available peer_verifiable"

datatype 'a kad_recv =
    RecvFindPeer "'a find_peer peer_verifiable"
  | RecvFindPeerOk "'a find_peer_ok peer_verifiable"

record ('a, 'x) entropy_senders =
  es_entropy :: "entropy_recv sink"
  es_kademlia :: "'a kad_recv sink"
  es_blob :: "(send_fragment, 'x) serve sink"

definition entropy_on_buf ::
  "(bytes \<Rightarrow> error + ('a, 'x) entropy_message) \<Rightarrow> bytes \<Rightarrow> ('a, 'x) entropy_senders \<Rightarrow>
   (unit, ('a, 'x) entropy_senders) outcome" where
  "entropy_on_buf de buf s =
     (let to_entropy = (\<lambda>m. lift_outcome (\<lambda>c. s\<lparr>es_entropy := c\<rparr>) (push_sink m (es_entropy s)));
          to_kademlia = (\<lambda>m. lift_outcome (\<lambda>c. s\<lparr>es_kademlia := c\<rparr>) (push_sink m (es_kademlia s)))
      in case de buf of
           Inl e \<Rightarrow> Err e s
         | Inr (MInvite m) \<Rightarrow> to_entropy (RecvInvite m)
         | Inr (MInviteOk m) \<Rightarrow> to_entropy (RecvInviteOk m)
         | Inr (MPull m) \<Rightarrow> to_entropy (RecvPull m)
         | Inr (MAvailable m) \<Rightarrow> to_entropy (RecvAvailable m)
         | Inr (MFindPeer m) \<Rightarrow> to_kademlia (RecvFindPeer m)
         | Inr (MFindPeerOk m) \<Rightarrow> to_kademlia (RecvFindPeerOk m)
         | Inr (MBlobServe m) \<Rightarrow>
             lift_outcome (\<lambda>c. s\<lparr>es_blob := c\<rparr>) (push_sink m (es_blob s)))"

end
