(* ===== verification/Entropy_Fs.thy ===== *)
theory Entropy_Fs
  imports Entropy
begin

text \<open>
  \<open>src/crates/entropy/src/lib.rs\<close>, module \<open>fs\<close>: the session that stores and loads fragments, and the
  node it makes with the peer.

  \<^item> The directory \<open>path\<close> is a map from chunks to the files of their sub-directory, themselves a map
    from the index in the file's name to the content.
  \<^item> A spawned task is a value that says what it still has to do; a step of it is one file system
    call, so tasks interleave at their \<open>await\<close> points. \<open>create_dir\<close> fails on a directory that exists,
    \<open>write\<close>, \<open>read\<close> and \<open>remove_dir_all\<close> fail when the directory or file is missing.
  \<^item> A failed task ends the session when it is joined.
\<close>

datatype store_task =
    StoreCreate chunk u32 payload
  | StoreWrite chunk u32 payload
  | StoreDone chunk
  | StoreFailed

datatype load_task =
    LoadRead chunk u32 bool
  | LoadRemove chunk u32 payload
  | LoadDone chunk u32 payload
  | LoadFailed

record fs_session =
  fs_dirs :: "(chunk, (u32, payload) hmap) hmap"
  fs_store_tasks :: "store_task list"
  fs_load_tasks :: "load_task list"
  fs_upcalls :: "fs_upcall sink"

definition fs_new :: "fs_upcall sink \<Rightarrow> fs_session" where
  "fs_new upcall =
     \<lparr>fs_dirs = [], fs_store_tasks = [], fs_load_tasks = [], fs_upcalls = upcall\<rparr>"

fun fs_on_event :: "fs_event \<Rightarrow> fs_session \<Rightarrow> fs_session" where
  "fs_on_event (Store chunk idx fragment) s =
     s\<lparr>fs_store_tasks := fs_store_tasks s @ [StoreCreate chunk idx fragment]\<rparr>"
| "fs_on_event (Load chunk idx taken) s =
     s\<lparr>fs_load_tasks := fs_load_tasks s @ [LoadRead chunk idx taken]\<rparr>"

type_synonym dirs = "(chunk, (u32, payload) hmap) hmap"

fun store_step :: "store_task \<Rightarrow> dirs \<Rightarrow> store_task \<times> dirs" where
  "store_step (StoreCreate chunk idx fragment) dirs =
     (if hm_has dirs chunk then (StoreFailed, dirs)
      else (StoreWrite chunk idx fragment, hm_insert chunk [] dirs))"
| "store_step (StoreWrite chunk idx fragment) dirs =
     (case hm_get dirs chunk of
        None \<Rightarrow> (StoreFailed, dirs)
      | Some files \<Rightarrow> (StoreDone chunk, hm_insert chunk (hm_insert idx fragment files) dirs))"
| "store_step (StoreDone chunk) dirs = (StoreDone chunk, dirs)"
| "store_step StoreFailed dirs = (StoreFailed, dirs)"

fun load_step :: "load_task \<Rightarrow> dirs \<Rightarrow> load_task \<times> dirs" where
  "load_step (LoadRead chunk idx taken) dirs =
     (case hm_get dirs chunk of
        None \<Rightarrow> (LoadFailed, dirs)
      | Some files \<Rightarrow>
          (case hm_get files idx of
             None \<Rightarrow> (LoadFailed, dirs)
           | Some fragment \<Rightarrow>
               (if taken then LoadRemove chunk idx fragment else LoadDone chunk idx fragment,
                dirs)))"
| "load_step (LoadRemove chunk idx fragment) dirs =
     (if hm_has dirs chunk then (LoadDone chunk idx fragment, hm_remove chunk dirs)
      else (LoadFailed, dirs))"
| "load_step (LoadDone chunk idx fragment) dirs = (LoadDone chunk idx fragment, dirs)"
| "load_step LoadFailed dirs = (LoadFailed, dirs)"

text \<open>The branches of the loop, and a step of a task in between.\<close>

datatype fs_input =
    FsRecv fs_event
  | FsStepStore nat
  | FsStepLoad nat
  | FsJoinStore nat
  | FsJoinLoad nat

definition fs_send :: "fs_upcall \<Rightarrow> fs_session \<Rightarrow> (unit, fs_session) outcome" where
  "fs_send m s = lift_outcome (\<lambda>c. s\<lparr>fs_upcalls := c\<rparr>) (push_sink m (fs_upcalls s))"

fun fs_join_store :: "store_task \<Rightarrow> fs_session \<Rightarrow> (unit, fs_session) outcome" where
  "fs_join_store (StoreDone chunk) s = fs_send (StoreOk chunk) s"
| "fs_join_store _ s = Err (Bail ''store failed'') s"

fun fs_join_load :: "load_task \<Rightarrow> fs_session \<Rightarrow> (unit, fs_session) outcome" where
  "fs_join_load (LoadDone chunk idx fragment) s = fs_send (LoadOk chunk idx fragment) s"
| "fs_join_load _ s = Err (Bail ''load failed'') s"

fun fs_select :: "fs_input \<Rightarrow> fs_session \<Rightarrow> (unit, fs_session) outcome" where
  "fs_select (FsRecv e) s = Ok () (fs_on_event e s)"
| "fs_select (FsStepStore k) s =
     (let (t, dirs) = store_step (fs_store_tasks s ! k) (fs_dirs s)
      in Ok () (s\<lparr>fs_store_tasks := (fs_store_tasks s)[k := t], fs_dirs := dirs\<rparr>))"
| "fs_select (FsStepLoad k) s =
     (let (t, dirs) = load_step (fs_load_tasks s ! k) (fs_dirs s)
      in Ok () (s\<lparr>fs_load_tasks := (fs_load_tasks s)[k := t], fs_dirs := dirs\<rparr>))"
| "fs_select (FsJoinStore k) s =
     fs_join_store (fs_store_tasks s ! k)
       (s\<lparr>fs_store_tasks := remove_at k (fs_store_tasks s)\<rparr>)"
| "fs_select (FsJoinLoad k) s =
     fs_join_load (fs_load_tasks s ! k)
       (s\<lparr>fs_load_tasks := remove_at k (fs_load_tasks s)\<rparr>)"

fun store_finished :: "store_task \<Rightarrow> bool" where
  "store_finished (StoreDone _) = True"
| "store_finished StoreFailed = True"
| "store_finished _ = False"

fun load_finished :: "load_task \<Rightarrow> bool" where
  "load_finished (LoadDone _ _ _) = True"
| "load_finished LoadFailed = True"
| "load_finished _ = False"

fun fs_ready :: "fs_input \<Rightarrow> fs_session \<Rightarrow> bool" where
  "fs_ready (FsRecv e) s = True"
| "fs_ready (FsStepStore k) s = (k < length (fs_store_tasks s))"
| "fs_ready (FsStepLoad k) s = (k < length (fs_load_tasks s))"
| "fs_ready (FsJoinStore k) s =
     (k < length (fs_store_tasks s) \<and> store_finished (fs_store_tasks s ! k))"
| "fs_ready (FsJoinLoad k) s =
     (k < length (fs_load_tasks s) \<and> load_finished (fs_load_tasks s ! k))"

section \<open>A node: peer, codec worker and file system session\<close>

text \<open>
  The peer's spawned codec works run in any order, each once; the file system session takes the
  peer's events in order, and the peer its upcalls. \<open>nd_worked\<close> are the positions of the works that
  ran, \<open>nd_filed\<close> and \<open>nd_called\<close> count the events and upcalls taken.
\<close>

record ('k, 'x, 'enc, 'dec) node =
  nd_peer :: "('k, 'x, 'enc, 'dec) entropy"
  nd_fs :: fs_session
  nd_worked :: "nat list"
  nd_filed :: nat
  nd_called :: nat

definition works :: "('k, 'x, 'enc, 'dec) entropy \<Rightarrow> ('enc, 'dec) codec_work list" where
  "works p = (case et_codec_worker p of Spawn sender \<Rightarrow> sent sender | _ \<Rightarrow> [])"

datatype ('k, 'x, 'enc, 'dec) node_input =
    NdEvent "('k, 'x, 'enc, 'dec) entropy_event"
  | NdWork nat
  | NdFile
  | NdFs fs_input
  | NdCall

definition node_deliver ::
  "('k, 'enc, 'dec) entropy_env \<Rightarrow> ('k, 'x, 'enc, 'dec) entropy_event \<Rightarrow>
   ('k, 'x, 'enc, 'dec) node \<Rightarrow> (unit, ('k, 'x, 'enc, 'dec) node) outcome" where
  "node_deliver env e s =
     lift_outcome (\<lambda>p. s\<lparr>nd_peer := p\<rparr>) (entropy_on_event env e (nd_peer s))"

fun node_on_input ::
  "('k, 'enc, 'dec) entropy_env \<Rightarrow> ('k, 'x, 'enc, 'dec) node_input \<Rightarrow>
   ('k, 'x, 'enc, 'dec) node \<Rightarrow> (unit, ('k, 'x, 'enc, 'dec) node) outcome" where
  "node_on_input env (NdEvent e) s = node_deliver env e s"
| "node_on_input env (NdWork k) s =
     (if k \<in> set (nd_worked s) \<or> length (works (nd_peer s)) \<le> k then Ok () s
      else
        let s1 = s\<lparr>nd_worked := k # nd_worked s\<rparr> in
        case codec_work_event (ee_codec env) (works (nd_peer s) ! k) of
          Inl err \<Rightarrow> Err err s1
        | Inr e \<Rightarrow> node_deliver env (EvCodec e) s1)"
| "node_on_input env NdFile s =
     (if length (sent (et_fs (nd_peer s))) \<le> nd_filed s then Ok () s
      else Ok () (s\<lparr>nd_filed := Suc (nd_filed s),
                    nd_fs := fs_on_event (sent (et_fs (nd_peer s)) ! nd_filed s) (nd_fs s)\<rparr>))"
| "node_on_input env (NdFs i) s =
     (if fs_ready i (nd_fs s)
      then lift_outcome (\<lambda>f. s\<lparr>nd_fs := f\<rparr>) (fs_select i (nd_fs s))
      else Ok () s)"
| "node_on_input env NdCall s =
     (if length (sent (fs_upcalls (nd_fs s))) \<le> nd_called s then Ok () s
      else node_deliver env (EvFs (sent (fs_upcalls (nd_fs s)) ! nd_called s))
             (s\<lparr>nd_called := Suc (nd_called s)\<rparr>))"

text \<open>Inputs of a node: from outside, or a step of its own; no event is made up.\<close>

fun is_outer :: "('k, 'x, 'enc, 'dec) node_input \<Rightarrow> bool" where
  "is_outer (NdEvent (EvCodec _)) = False"
| "is_outer (NdEvent (EvFs _)) = False"
| "is_outer (NdFs (FsRecv _)) = False"
| "is_outer _ = True"

fun node_run ::
  "('k, 'enc, 'dec) entropy_env \<Rightarrow> ('k, 'x, 'enc, 'dec) node_input list \<Rightarrow>
   ('k, 'x, 'enc, 'dec) node \<Rightarrow> (unit, ('k, 'x, 'enc, 'dec) node) outcome" where
  "node_run env [] s = Ok () s"
| "node_run env (i # is) s =
     (if is_outer i then and_then (node_on_input env i s) (\<lambda>_. node_run env is)
      else node_run env is s)"

definition node_new ::
  "('k, 'x, 'enc, 'dec) entropy \<Rightarrow> ('k, 'x, 'enc, 'dec) node" where
  "node_new p = \<lparr>nd_peer = p, nd_fs = fs_new open_sink, nd_worked = [], nd_filed = 0, nd_called = 0\<rparr>"

end
