(* ===== verification/Entropy_Correct.thy ===== *)
theory Entropy_Correct
  imports Entropy_Fs
begin

text \<open>
  The storage peer and its node: what the peer keeps of its state, when a put is reported, what is
  stored and served, and that the data of a chunk is preserved from the put to the get.
\<close>

named_theorems et_after \<open>the state after the effects of a handler\<close>

declare push_sink.simps [simp del]

lemma after_push_closed [et_after]:
  "after (push_sink m c) = (if closed c then c else c\<lparr>sent := sent c @ [m]\<rparr>)"
  by (simp add: push_sink.simps)

lemma after_et_send [et_after]:
  "after (et_send m p) = p\<lparr>et_net := after (push_sink m (et_net p))\<rparr>"
  by (simp add: et_send_def)

lemma after_et_call [et_after]:
  "after (et_call m p) = p\<lparr>et_upcall := after (push_sink m (et_upcall p))\<rparr>"
  by (simp add: et_call_def)

lemma after_et_file [et_after]:
  "after (et_file m p) = p\<lparr>et_fs := after (push_sink m (et_fs p))\<rparr>"
  by (simp add: et_file_def)

lemma after_et_submit [et_after]:
  "after (et_submit env w p) =
     p\<lparr>et_codec_worker := after (submit (codec_run (ee_codec env)) w (et_codec_worker p))\<rparr>"
  by (simp add: et_submit_def)

lemma after_et_offer [et_after]:
  "after (et_offer dest m buf cancel p) =
     p\<lparr>et_blob := after (bulk_offer dest m buf cancel (et_blob p))\<rparr>"
  by (simp add: et_offer_def)

lemma after_et_accept [et_after]:
  "after (et_accept offer cancel p) =
     p\<lparr>et_blob := snd (after (bulk_accept (Some (unat (et_fragment_len p)))
         (\<lambda>buf. Inr (DownloadOk (sf_chunk (ro_inner offer)) (sf_index (ro_inner offer)) buf))
         (Some cancel) (offer, et_blob p)))\<rparr>"
  by (simp add: et_accept_def split_beta)

declare send_available_def [et_after]

text \<open>Handlers that only touch the recovering side, the files or the bulk service.\<close>

definition same_uploads ::
  "('k, 'x, 'enc, 'dec) entropy \<Rightarrow> ('k, 'x, 'enc, 'dec) entropy \<Rightarrow> bool" where
  "same_uploads p p' \<longleftrightarrow>
     et_chunk_n p' = et_chunk_n p \<and> et_uploads p' = et_uploads p \<and> et_upcall p' = et_upcall p"

lemma same_uploads_refl [simp]: "same_uploads p p"
  by (simp add: same_uploads_def)

lemma same_uploads_recover_new: "same_uploads p (after (recover_new env p))"
  by (auto simp: recover_new_def same_uploads_def split: sum.split)

lemma same_uploads_download_ok: "same_uploads p (after (on_download_ok env m p))"
  by (auto simp: on_download_ok_def same_uploads_def put_download_def put_persist_def et_after
      split: download_ok.split option.split persist_status.split)

lemma same_uploads_decode: "same_uploads p (after (on_decode env chunk d p))"
  by (auto simp: on_decode_def same_uploads_def put_download_def put_persist_def et_after
      split: option.split persist_status.split)

lemma same_uploads_invite: "same_uploads p (after (on_invite env idx m p))"
  by (auto simp: on_invite_def same_uploads_def recover_new_def et_after split: sum.split)

lemma same_uploads_recv_offer: "same_uploads p (after (on_recv_offer env offer p))"
  by (auto simp: on_recv_offer_def same_uploads_def Let_def et_after
      split: option.split persist_status.split)

lemma same_uploads_store_ok: "same_uploads p (after (on_store_ok env chunk p))"
  by (auto simp: on_store_ok_def same_uploads_def Let_def et_after split: option.split)

lemma same_uploads_recover_encode: "same_uploads p (after (on_recover_encode chunk f p))"
  by (auto simp: on_recover_encode_def same_uploads_def Let_def et_after
      split: option.split persist_status.split)

lemma same_uploads_get: "same_uploads p (after (on_get env k p))"
  by (auto simp: on_get_def same_uploads_def Let_def recover_new_def et_after split: sum.split)

lemma same_uploads_pull: "same_uploads p (after (on_pull m p))"
  by (auto simp: on_pull_def same_uploads_def et_after split: option.split persist_status.split)

lemma same_uploads_offer_each: "same_uploads p (after (offer_each m f ids p))"
proof (induction ids arbitrary: p)
  case (Cons i ids)
  show ?case
  proof (cases "et_offer i m f None p")
    case (Ok u q)
    then have "q = after (et_offer i m f None p)" by simp
    then have "same_uploads p q" by (simp add: et_after same_uploads_def)
    with Cons.IH [of q] Ok show ?thesis by (simp add: same_uploads_def)
  next
    case (Err e q)
    then have "q = after (et_offer i m f None p)" by simp
    with Err show ?thesis by (simp add: et_after same_uploads_def)
  qed
qed simp

lemma same_uploads_load_ok: "same_uploads p (after (on_load_ok chunk idx f p))"
proof (cases "hm_get (et_pending_pulls p) chunk")
  case (Some ids)
  then show ?thesis
    using same_uploads_offer_each [of "p\<lparr>et_pending_pulls := hm_remove chunk (et_pending_pulls p)\<rparr>"
        "\<lparr>sf_chunk = chunk, sf_index = idx, sf_peer_id = None\<rparr>" f ids]
    by (simp add: on_load_ok_def same_uploads_def)
qed (simp add: on_load_ok_def)

lemma same_uploads_encode: "same_uploads p (after (on_encode chunk idx f p))"
  by (auto simp: on_encode_def same_uploads_def et_after split: option.split)

lemmas same_uploads_handlers =
  same_uploads_download_ok same_uploads_decode same_uploads_invite same_uploads_recv_offer
  same_uploads_store_ok same_uploads_recover_encode same_uploads_get same_uploads_pull
  same_uploads_load_ok same_uploads_encode

lemma recover_new_Ok:
  assumes "recover_new env p = Ok r p'"
  shows "\<exists>d. cd_new_decoder (ee_codec env) (chunk_len p) (et_fragment_len p) = Inr d \<and>
    r = \<lparr>rv_decoder = Some d, rv_pending = [], rv_received = [], rv_cancel = et_next_token p\<rparr> \<and>
    p' = p\<lparr>et_next_token := et_next_token p + 1\<rparr>"
  using assms by (auto simp: recover_new_def split: sum.splits)

section \<open>Runs\<close>

text \<open>What an invariant of the state and of the events so far has to show.\<close>

lemma entropy_run_after:
  assumes "Q h p"
    and "\<And>h e p. Q h p \<Longrightarrow> Q (h @ [e]) (after (entropy_on_event env e p))"
    and "\<And>h h' p. Q h p \<Longrightarrow> Q (h @ h') p"
  shows "Q (h @ es) (after (entropy_run env es p))"
  using assms(1)
proof (induction es arbitrary: h p)
  case Nil
  then show ?case by simp
next
  case (Cons e es)
  have step: "Q (h @ [e]) (after (entropy_on_event env e p))"
    by (rule assms(2) [OF Cons.prems])
  show ?case
  proof (cases "entropy_on_event env e p")
    case (Ok u p')
    with step have "Q (h @ [e]) p'" by simp
    from Cons.IH [OF this] Ok show ?thesis by simp
  next
    case (Err err p')
    with assms(3) [OF step, of es] show ?thesis by simp
  qed
qed

section \<open>Uploads\<close>

text \<open>Whether \<open>m\<close> counts for an upload: what \<open>FragmentAvailable\<close>'s handler looks at.\<close>

definition available_counts ::
  "('k, 'enc, 'dec) entropy_env \<Rightarrow> fragment_available peer_verifiable \<Rightarrow> bool" where
  "available_counts env m \<longleftrightarrow>
     \<not> (fa_peer_id (inner m) = sha256 (ee_lib env) (ee_key_feed env) (fa_peer_key (inner m)) \<and>
        peer_verify (ee_lib env) (fragment_available_feed env) (fa_peer_key (inner m)) m \<noteq> Inr ())"

definition reported_by ::
  "('k, 'enc, 'dec) entropy_env \<Rightarrow> ('k, 'x, 'enc, 'dec) entropy_event list \<Rightarrow> chunk \<Rightarrow>
   peer_id \<Rightarrow> bool" where
  "reported_by env es chunk i \<longleftrightarrow>
     (\<exists>m. EvAvailable m \<in> set es \<and> fa_chunk (inner m) = chunk \<and> fa_peer_id (inner m) = i \<and>
          available_counts env m)"

definition uploads_inv ::
  "('k, 'enc, 'dec) entropy_env \<Rightarrow> usize \<Rightarrow> ('k, 'x, 'enc, 'dec) entropy_event list \<Rightarrow>
   ('k, 'x, 'enc, 'dec) entropy \<Rightarrow> bool" where
  "uploads_inv env n es p \<longleftrightarrow>
     et_chunk_n p = n \<and>
     (\<forall>chunk state. hm_get (et_uploads p) chunk = Some state \<longrightarrow>
        ee_target env (up_preimage state) = chunk \<and> distinct (up_available state) \<and>
        (0 < n \<longrightarrow> length (up_available state) < n) \<and>
        (\<forall>i \<in> set (up_available state). reported_by env es chunk i)) \<and>
     (\<forall>k. UpPutOk k \<in> set (sent (et_upcall p)) \<longrightarrow>
        (\<exists>ps. distinct ps \<and> length ps = n \<and>
              (\<forall>i \<in> set ps. reported_by env es (ee_target env k) i)))"

lemma reported_by_append: "reported_by env es c i \<Longrightarrow> reported_by env (es @ es') c i"
  by (auto simp: reported_by_def)

lemma uploads_inv_append: "uploads_inv env n es p \<Longrightarrow> uploads_inv env n (es @ es') p"
  unfolding uploads_inv_def by (meson reported_by_append)

lemma uploads_inv_frame:
  "uploads_inv env n es p \<Longrightarrow> same_uploads p p' \<Longrightarrow> uploads_inv env n es p'"
  by (simp add: uploads_inv_def same_uploads_def)

lemma uploads_inv_insert:
  assumes "uploads_inv env n es p" and "et_chunk_n p' = et_chunk_n p"
    and "et_uploads p' = hm_insert chunk state (et_uploads p)" and "et_upcall p' = et_upcall p"
    and "ee_target env (up_preimage state) = chunk" and "distinct (up_available state)"
    and "0 < n \<longrightarrow> length (up_available state) < n"
    and "\<forall>i \<in> set (up_available state). reported_by env es chunk i"
  shows "uploads_inv env n es p'"
  using assms by (auto simp: uploads_inv_def)

lemma uploads_inv_put:
  assumes "uploads_inv env n es p"
  shows "uploads_inv env n es (after (on_put env k buf p))"
proof (cases "length buf = chunk_len p")
  case True
  show ?thesis
    by (rule uploads_inv_insert [OF assms,
          where state = "\<lparr>up_preimage = k, up_encoder = None, up_pending = [],
            up_available = [], up_cancel = et_next_token p\<rparr>"])
      (use True in \<open>auto simp: on_put_def Let_def et_after\<close>)
qed (simp add: on_put_def assms)

lemma uploads_inv_new_encoder:
  assumes "uploads_inv env n es p"
  shows "uploads_inv env n es (after (on_new_encoder chunk encoder p))"
proof (cases "hm_get (et_uploads p) chunk")
  case (Some state)
  show ?thesis
    by (rule uploads_inv_insert [OF assms, where state = "state\<lparr>up_encoder := Some encoder\<rparr>"])
      (use Some assms in \<open>auto simp: on_new_encoder_def Let_def et_after uploads_inv_def\<close>)
qed (simp add: on_new_encoder_def assms)

lemma uploads_inv_invite_ok:
  assumes "uploads_inv env n es p"
  shows "uploads_inv env n es (after (on_invite_ok env m p))"
proof (cases "hm_get (et_uploads p) (io_chunk m)")
  case (Some state)
  show ?thesis
  proof (cases "hm_has (up_pending state) (io_index m)")
    case False
    show ?thesis
      by (rule uploads_inv_insert [OF assms, where state = "state\<lparr>up_pending :=
              hm_insert (io_index m) (io_peer_id m) (up_pending state)\<rparr>"])
        (use Some False assms in
          \<open>auto simp: on_invite_ok_def Let_def et_after uploads_inv_def split: option.split\<close>)
  qed (use Some assms in \<open>simp add: on_invite_ok_def\<close>)
qed (simp add: on_invite_ok_def assms)

lemma uploads_inv_recover:
  assumes "uploads_inv env n es p"
  shows "uploads_inv env n es (after (on_recover chunk buf p))"
  using assms
  by (auto simp: on_recover_def et_after uploads_inv_def split: option.split)

lemma uploads_inv_remove:
  assumes "uploads_inv env n es p" and "et_chunk_n p' = et_chunk_n p"
    and "et_uploads p' = hm_remove chunk (et_uploads p)"
    and "set (sent (et_upcall p')) \<subseteq> insert (UpPutOk k) (set (sent (et_upcall p)))"
    and "distinct ps \<and> length ps = n \<and> (\<forall>i \<in> set ps. reported_by env es (ee_target env k) i)"
  shows "uploads_inv env n es p'"
  using assms unfolding uploads_inv_def
  by (auto split: if_splits)

lemma uploads_inv_available:
  assumes inv: "uploads_inv env n es p"
  shows "uploads_inv env n (es @ [EvAvailable m]) (after (on_fragment_available env m p))"
proof -
  have inv': "uploads_inv env n (es @ [EvAvailable m]) p" by (rule uploads_inv_append [OF inv])
  let ?c = "fa_chunk (inner m)" and ?i = "fa_peer_id (inner m)"
  show ?thesis
  proof (cases "hm_get (et_uploads p) ?c")
    case None
    with inv' show ?thesis by (simp add: on_fragment_available_def Let_def)
  next
    case (Some state)
    show ?thesis
    proof (cases "available_counts env m")
      case False
      with Some inv' show ?thesis
        by (simp add: on_fragment_available_def Let_def available_counts_def)
    next
      case True
      let ?l = "List.insert ?i (up_available state)"
      have st: "ee_target env (up_preimage state) = ?c" "distinct (up_available state)"
        "0 < n \<longrightarrow> length (up_available state) < n" "et_chunk_n p = n"
        "\<forall>i \<in> set (up_available state). reported_by env (es @ [EvAvailable m]) ?c i"
        using inv' Some by (auto simp: uploads_inv_def)
      have rep: "reported_by env (es @ [EvAvailable m]) ?c ?i"
        using True by (auto simp: reported_by_def)
      have step: "after (on_fragment_available env m p) =
        (if length ?l = n
         then after (et_call (UpPutOk (up_preimage state))
                (p\<lparr>et_uploads := hm_remove ?c (et_uploads p),
                   et_cancelled := up_cancel state # et_cancelled p\<rparr>))
         else p\<lparr>et_uploads := hm_insert ?c (state\<lparr>up_available := ?l\<rparr>) (et_uploads p)\<rparr>)"
        using Some True st(4)
        by (auto simp: on_fragment_available_def Let_def available_counts_def)
      show ?thesis
      proof (cases "length ?l = n")
        case True
        then show ?thesis
          unfolding step
          by (simp only: if_True)
            (rule uploads_inv_remove [OF inv', where ps = ?l and k = "up_preimage state"],
              use st rep in \<open>auto simp: et_after\<close>)
      next
        case False
        have "0 < n \<longrightarrow> length ?l < n"
          using st(3) False by (auto simp: List.insert_def split: if_splits)
        then show ?thesis
          unfolding step using False st rep
          by (simp only: if_False)
            (rule uploads_inv_insert [OF inv', where state = "state\<lparr>up_available := ?l\<rparr>"], auto)
      qed
    qed
  qed
qed

lemma uploads_inv_event:
  assumes inv: "uploads_inv env n es p"
  shows "uploads_inv env n (es @ [e]) (after (entropy_on_event env e p))"
proof -
  have inv': "uploads_inv env n (es @ [e]) p" by (rule uploads_inv_append [OF inv])
  note frame = uploads_inv_frame [OF inv']
  show ?thesis
  proof (cases e)
    case (EvAvailable m)
    then show ?thesis using uploads_inv_available [OF inv] by simp
  next
    case (EvCodec x)
    then show ?thesis
      using inv' frame uploads_inv_new_encoder [OF inv'] uploads_inv_recover [OF inv']
      by (cases x) (simp_all add: same_uploads_handlers)
  next
    case (EvFs x)
    then show ?thesis using frame by (cases x) (simp_all add: same_uploads_handlers)
  qed (use inv' frame uploads_inv_put [OF inv'] uploads_inv_invite_ok [OF inv'] in
        \<open>simp_all add: same_uploads_handlers\<close>)
qed

text \<open>What is counted for a put: if the upcall got \<open>PutOk\<close> of a preimage then messages
  \<open>FragmentAvailable\<close> for its chunk with \<open>chunk_n\<close> different ids arrived, none of which failed the
  handler's verification.\<close>

lemma put_counted:
  assumes "p0 = entropy_new i key fl ck n m net blob open_sink worker fs"
    and "UpPutOk k \<in> set (sent (et_upcall (after (entropy_run env es p0))))"
  shows "\<exists>ps. distinct ps \<and> length ps = n \<and>
    (\<forall>j \<in> set ps. \<exists>msg. EvAvailable msg \<in> set es \<and> fa_chunk (inner msg) = ee_target env k \<and>
       fa_peer_id (inner msg) = j \<and> available_counts env msg)"
proof -
  have "uploads_inv env n [] p0"
    by (simp add: assms(1) entropy_new_def uploads_inv_def open_sink_def)
  from entropy_run_after [where Q = "uploads_inv env n", OF this uploads_inv_event uploads_inv_append]
  have "uploads_inv env n es (after (entropy_run env es p0))" by simp
  with assms(2) show ?thesis unfolding uploads_inv_def reported_by_def by blast
qed

text \<open>
  A code for the samples, with two fragments to a chunk: an even index stands for the first half of
  the chunk, an odd one for the second.
\<close>

type_synonym half_encoder = "payload \<times> u32"
type_synonym half_decoder = "u32 \<times> payload option \<times> payload option"

definition half_codec :: "(half_encoder, half_decoder) chunk_codec" where
  "half_codec =
     \<lparr>cd_new_encoder = (\<lambda>buf fl. Inr (buf, fl)),
      cd_encode = (\<lambda>(buf, fl) i.
        Inr (if even (unat i) then take (unat fl) buf else drop (unat fl) buf)),
      cd_new_decoder = (\<lambda>len fl. Inr (fl, None, None)),
      cd_decode = (\<lambda>(fl, a, b) i f.
        let a' = (if even (unat i) then Some f else a); b' = (if even (unat i) then b else Some f)
        in Inr (a' \<noteq> None \<and> b' \<noteq> None, (fl, a', b'))),
      cd_into_encoder = (\<lambda>(fl, a, b). case (a, b) of
          (Some x, Some y) \<Rightarrow> Inr (x @ y, fl) | _ \<Rightarrow> Inl (Bail ''incomplete'')),
      cd_recover = (\<lambda>(fl, a, b). case (a, b) of
          (Some x, Some y) \<Rightarrow> Inr (x @ y) | _ \<Rightarrow> Inl (Bail ''incomplete''))\<rparr>"

definition half_env :: "(nat, half_encoder, half_decoder) entropy_env" where
  "half_env =
     \<lparr>ee_codec = half_codec, ee_lib = plain_lib, ee_key_feed = (\<lambda>k. k),
      ee_target = (\<lambda>k. [of_nat k]), ee_pick = (\<lambda>_. 0)\<rparr>"

definition half_peer :: "peer_id \<Rightarrow> (nat, nat, half_encoder, half_decoder) entropy" where
  "half_peer i =
     entropy_new i i 2 2 2 3 open_sink open_sink open_sink (Spawn open_sink) open_sink"

definition sample_fa :: "peer_id \<Rightarrow> bytes \<Rightarrow> bytes \<Rightarrow> fragment_available peer_verifiable" where
  "sample_fa i key sig =
     \<lparr>inner = \<lparr>fa_chunk = [5], fa_peer_id = i, fa_peer_key = key\<rparr>, signature = sig\<rparr>"

definition sample_put :: "(nat, nat, half_encoder, half_decoder) entropy_event list" where
  "sample_put =
     [EvPut 5 [1, 2, 3, 4], EvCodec (NewEncoder [5] ([1, 2, 3, 4], 2)),
      EvAvailable (sample_fa [8] [8] (fragment_available_feed half_env
        \<lparr>fa_chunk = [5], fa_peer_id = [8], fa_peer_key = [8]\<rparr> @ [8])),
      EvAvailable (sample_fa [9] [9] []),
      EvAvailable (sample_fa [10] [10] (fragment_available_feed half_env
        \<lparr>fa_chunk = [5], fa_peer_id = [10], fa_peer_key = [10]\<rparr> @ [10]))]"

lemma forged_step:
  assumes "hm_get (et_uploads p) (fa_chunk (inner m)) = Some state"
    and "fa_peer_id (inner m) \<noteq> sha256 (ee_lib env) (ee_key_feed env) (fa_peer_key (inner m))"
    and "fa_peer_id (inner m) \<notin> set (up_available state)"
  shows "on_fragment_available env m p =
    (if Suc (length (up_available state)) = et_chunk_n p then
       et_call (UpPutOk (up_preimage state))
         (p\<lparr>et_uploads := hm_remove (fa_chunk (inner m)) (et_uploads p),
            et_cancelled := up_cancel state # et_cancelled p\<rparr>)
     else Ok () (p\<lparr>et_uploads := hm_insert (fa_chunk (inner m))
            (state\<lparr>up_available := fa_peer_id (inner m) # up_available state\<rparr>) (et_uploads p)\<rparr>))"
  using assms by (auto simp: on_fragment_available_def Let_def List.insert_def)

definition forged :: "('k, 'enc, 'dec) entropy_env \<Rightarrow> chunk \<Rightarrow>
  fragment_available peer_verifiable \<Rightarrow> bool" where
  "forged env chunk m \<longleftrightarrow> fa_chunk (inner m) = chunk \<and>
     fa_peer_id (inner m) \<noteq> sha256 (ee_lib env) (ee_key_feed env) (fa_peer_key (inner m))"

lemma forged_run:
  assumes "hm_get (et_uploads p) chunk = Some state" and "\<not> closed (et_upcall p)"
    and "ms \<noteq> []" and "length (up_available state) + length ms = et_chunk_n p"
    and "distinct (map (\<lambda>m. fa_peer_id (inner m)) ms)" and "list_all (forged env chunk) ms"
    and "\<forall>m \<in> set ms. fa_peer_id (inner m) \<notin> set (up_available state)"
  shows "\<exists>p'. entropy_run env (map EvAvailable ms) p = Ok () p' \<and>
    sent (et_upcall p') = sent (et_upcall p) @ [UpPutOk (up_preimage state)]"
  using assms
proof (induction ms arbitrary: p state)
  case (Cons m ms)
  have m: "fa_chunk (inner m) = chunk"
    "fa_peer_id (inner m) \<noteq> sha256 (ee_lib env) (ee_key_feed env) (fa_peer_key (inner m))"
    using Cons.prems(6) by (simp_all add: forged_def)
  note step = forged_step [of p m state env]
  show ?case
  proof (cases "ms = []")
    case True
    with Cons.prems step m show ?thesis
      by (simp add: et_call_def push_sink.simps)
  next
    case False
    let ?st = "state\<lparr>up_available := fa_peer_id (inner m) # up_available state\<rparr>"
    let ?p = "p\<lparr>et_uploads := hm_insert chunk ?st (et_uploads p)\<rparr>"
    from False have "0 < length ms" by simp
    with Cons.prems step m have "on_fragment_available env m p = Ok () ?p"
      by auto
    moreover have "\<exists>p'. entropy_run env (map EvAvailable ms) ?p = Ok () p' \<and>
        sent (et_upcall p') = sent (et_upcall ?p) @ [UpPutOk (up_preimage ?st)]"
      by (rule Cons.IH) (use Cons.prems False in \<open>auto simp: image_iff\<close>)
    ultimately show ?thesis by simp
  qed
qed simp

text \<open>C21: the check of \<open>FragmentAvailable\<close> lets forgeries through. The handler rejects a message
  only if its peer id is the digest of its key and the signature fails; a message whose peer id is
  not the digest of its key is taken as it is. So for an upload with no report yet, any \<open>chunk_n\<close>
  messages with different ids that match no key, whatever their signatures, make the peer report
  the put as done, although no peer stored anything.\<close>

theorem entropy_forged_put:
  assumes "hm_get (et_uploads p) chunk = Some state" and "up_available state = []"
    and "\<not> closed (et_upcall p)" and "length ms = et_chunk_n p" and "0 < et_chunk_n p"
    and "distinct (map (\<lambda>m. fa_peer_id (inner m)) ms)" and "list_all (forged env chunk) ms"
  shows "\<exists>p'. entropy_run env (map EvAvailable ms) p = Ok () p' \<and>
    sent (et_upcall p') = sent (et_upcall p) @ [UpPutOk (up_preimage state)]"
  using forged_run [OF assms(1,3), of ms env] assms(2,4-7) by (cases ms) auto

definition sample_uploading :: "(nat, nat, half_encoder, half_decoder) entropy" where
  "sample_uploading = after (entropy_run half_env (take 2 sample_put) (half_peer [7]))"

lemma sample_upload:
  "hm_get (et_uploads sample_uploading) [5] =
     Some \<lparr>up_preimage = 5, up_encoder = Some ([1, 2, 3, 4], 2), up_pending = [],
       up_available = [], up_cancel = 0\<rparr>"
  "\<not> closed (et_upcall sample_uploading)" "et_chunk_n sample_uploading = 2"
  by code_simp+

theorem entropy_forged_put_witness:
  "\<exists>p'. entropy_run half_env (map EvAvailable [sample_fa [1] [] [], sample_fa [2] [] []])
     sample_uploading = Ok () p' \<and>
   sent (et_upcall p') = sent (et_upcall sample_uploading) @ [UpPutOk 5]"
  using entropy_forged_put [OF sample_upload(1) _ sample_upload(2),
      of "[sample_fa [1] [] [], sample_fa [2] [] []]" half_env] sample_upload(3)
  by (simp add: sample_fa_def forged_def half_env_def sha256_def plain_lib_def)

end
