(* ===== verification/Entropy_Node.thy ===== *)
theory Entropy_Node
  imports Entropy_Correct
begin

text \<open>
  What a storage node stores, announces and serves: each chunk is stored at most once, a
  \<open>FragmentAvailable\<close> is sent only for a stored chunk, and a pull is served with what was stored.
\<close>

section \<open>The peer's side\<close>

fun is_store :: "chunk \<Rightarrow> fs_event \<Rightarrow> bool" where
  "is_store chunk (Store c idx fragment) = (c = chunk)"
| "is_store chunk (Load c idx taken) = False"

definition stores :: "('k, 'x, 'enc, 'dec) entropy \<Rightarrow> chunk \<Rightarrow> fs_event list" where
  "stores p chunk = filter (is_store chunk) (sent (et_fs p))"

definition stored :: "('k, 'x, 'enc, 'dec) entropy \<Rightarrow> chunk \<Rightarrow> u32 \<Rightarrow> payload \<Rightarrow> bool" where
  "stored p chunk idx fragment \<longleftrightarrow> Store chunk idx fragment \<in> set (sent (et_fs p))"

definition has_stored :: "('k, 'x, 'enc, 'dec) entropy \<Rightarrow> chunk \<Rightarrow> bool" where
  "has_stored p chunk \<longleftrightarrow> (\<exists>idx fragment. stored p chunk idx fragment)"

lemma has_storedI [intro]: "stored p chunk idx f \<Longrightarrow> has_stored p chunk"
  by (auto simp: has_stored_def)

definition persisted :: "chunk \<Rightarrow> 'dec persist_state option \<Rightarrow> fs_event list \<Rightarrow> bool" where
  "persisted chunk st l \<longleftrightarrow>
     (case st of
        None \<Rightarrow> l = []
      | Some state \<Rightarrow>
          (case ps_status state of
             Recovering _ \<Rightarrow> l = []
           | _ \<Rightarrow> \<exists>f. l = [Store chunk (ps_index state) f]))"

definition announced :: "('k, 'x, 'enc, 'dec) entropy \<Rightarrow> bool" where
  "announced p \<longleftrightarrow> (\<forall>dest m. SendAvailable dest m \<in> set (sent (et_net p)) \<longrightarrow>
     (\<exists>idx f. stored p (fa_chunk (inner m)) idx f))"

definition served :: "('k, 'x, 'enc, 'dec) entropy \<Rightarrow> bool" where
  "served p \<longleftrightarrow> (\<forall>offer. BOffer offer \<in> set (sent (et_blob p)) \<longrightarrow>
     sf_peer_id (of_message offer) = None \<longrightarrow>
     stored p (sf_chunk (of_message offer)) (sf_index (of_message offer)) (of_buf offer))"

definition persist_inv :: "('k, 'x, 'enc, 'dec) entropy \<Rightarrow> bool" where
  "persist_inv p \<longleftrightarrow> \<not> closed (et_fs p) \<and>
     (\<forall>chunk. persisted chunk (hm_get (et_persists p) chunk) (stores p chunk)) \<and>
     announced p \<and> served p"

lemma stored_stores: "stored p chunk idx f \<longleftrightarrow> Store chunk idx f \<in> set (stores p chunk)"
  by (simp add: stored_def stores_def)

text \<open>What an event may bring in: the file system's upcalls speak of stored fragments.\<close>

fun fs_event_ok ::
  "('k, 'x, 'enc, 'dec) entropy \<Rightarrow> ('k, 'x, 'enc, 'dec) entropy_event \<Rightarrow> bool" where
  "fs_event_ok p (EvFs (StoreOk chunk)) = has_stored p chunk"
| "fs_event_ok p (EvFs (LoadOk chunk idx f)) = stored p chunk idx f"
| "fs_event_ok p _ = True"

text \<open>The channels a handler may add to without touching what this is about.\<close>

definition same_persists ::
  "('k, 'x, 'enc, 'dec) entropy \<Rightarrow> ('k, 'x, 'enc, 'dec) entropy \<Rightarrow> bool" where
  "same_persists p p' \<longleftrightarrow> et_persists p' = et_persists p \<and> et_fs p' = et_fs p \<and>
     {m \<in> set (sent (et_net p')). \<exists>d a. m = SendAvailable d a} \<subseteq> set (sent (et_net p)) \<and>
     {m \<in> set (sent (et_blob p')). \<exists>x. m = BOffer x \<and> sf_peer_id (of_message x) = None} \<subseteq>
       set (sent (et_blob p))"

lemma persist_inv_frame:
  assumes "persist_inv p" and "same_persists p p'"
  shows "persist_inv p'"
  using assms
  by (fastforce simp: persist_inv_def same_persists_def announced_def served_def stored_def
      stores_def)

lemma after_accept_sent:
  "sent (snd (after (bulk_accept e f c (r, b)))) = sent b \<or>
   (\<exists>a. sent (snd (after (bulk_accept e f c (r, b)))) = sent b @ [BAccept a])"
  by (auto simp: bulk_accept_def et_after split: option.split)

lemma same_persists_put: "same_persists p (after (on_put env k buf p))"
  by (auto simp: on_put_def same_persists_def Let_def et_after)

lemma same_persists_new_encoder: "same_persists p (after (on_new_encoder c e p))"
  by (auto simp: on_new_encoder_def same_persists_def Let_def et_after split: option.split)

lemma same_persists_invite_ok: "same_persists p (after (on_invite_ok env m p))"
  by (auto simp: on_invite_ok_def same_persists_def Let_def et_after split: option.split)

lemma same_persists_encode: "same_persists p (after (on_encode c i f p))"
  by (auto simp: on_encode_def same_persists_def Let_def et_after bulk_offer_def split: option.split)

lemma same_persists_available: "same_persists p (after (on_fragment_available env m p))"
  by (auto simp: on_fragment_available_def same_persists_def Let_def et_after split: option.split)

lemma same_persists_get: "same_persists p (after (on_get env k p))"
  by (auto simp: on_get_def same_persists_def Let_def et_after recover_new_def split: sum.split)

lemma same_persists_recover: "same_persists p (after (on_recover c buf p))"
  by (auto simp: on_recover_def same_persists_def et_after split: option.split)

lemmas same_persists_handlers =
  same_persists_put same_persists_new_encoder same_persists_invite_ok same_persists_encode
  same_persists_available same_persists_get same_persists_recover

text \<open>A change of one entry, with what is sent along with it.\<close>

lemma persist_inv_entry:
  assumes "persist_inv p" and "\<not> closed (et_fs p')"
    and "et_persists p' = hm_insert chunk state (et_persists p)"
    and "sent (et_fs p') = sent (et_fs p) @ new" and "\<forall>c. c \<noteq> chunk \<longrightarrow> filter (is_store c) new = []"
    and "persisted chunk (Some state) (stores p' chunk)"
    and "announced p'" and "served p'"
  shows "persist_inv p'"
  using assms by (auto simp: persist_inv_def stores_def)

lemma announced_mono:
  assumes "announced p" and "set (sent (et_fs p)) \<subseteq> set (sent (et_fs p'))"
    and "\<forall>d m. SendAvailable d m \<in> set (sent (et_net p')) - set (sent (et_net p)) \<longrightarrow>
      (\<exists>i f. stored p' (fa_chunk (inner m)) i f)"
  shows "announced p'"
  using assms unfolding announced_def stored_def by blast

lemma served_mono:
  assumes "served p" and "set (sent (et_fs p)) \<subseteq> set (sent (et_fs p'))"
    and "\<forall>x. BOffer x \<in> set (sent (et_blob p')) - set (sent (et_blob p)) \<longrightarrow>
      stored p' (sf_chunk (of_message x)) (sf_index (of_message x)) (of_buf x)"
  shows "served p'"
  using assms unfolding served_def stored_def by blast

lemma persist_inv_parts:
  assumes "persist_inv p"
  shows "\<not> closed (et_fs p)" "announced p" "served p"
    "persisted chunk (hm_get (et_persists p) chunk) (stores p chunk)"
  using assms by (auto simp: persist_inv_def)

lemma persist_inv_download_ok:
  assumes inv: "persist_inv p"
  shows "persist_inv (after (on_download_ok env m p))"
proof -
  obtain chunk idx f where m: "m = DownloadOk chunk idx f" by (cases m)
  note parts = persist_inv_parts [OF inv]
  have frame: "persist_inv p'" if "same_persists p p'" for p'
    using persist_inv_frame [OF inv that] .
  show ?thesis
  proof (cases "hm_get (et_downloads p) chunk")
    case (Some st)
    show ?thesis
      by (rule frame) (use Some m in
        \<open>auto simp: on_download_ok_def same_persists_def put_download_def\<close>)
  next
    case None
    show ?thesis
    proof (cases "hm_get (et_persists p) chunk")
      case (Some state)
      show ?thesis
      proof (cases "ps_status state")
        case (Recovering r)
        then have no: "stores p chunk = []"
          using parts(4) [of chunk] Some by (simp add: persisted_def)
        show ?thesis
        proof (cases "idx = ps_index state")
          case True
          with None Some Recovering m parts(1) have eq: "after (on_download_ok env m p) =
              p\<lparr>et_persists := hm_insert chunk (state\<lparr>ps_status := Storing\<rparr>) (et_persists p),
                et_fs := et_fs p\<lparr>sent := sent (et_fs p) @ [Store chunk idx f]\<rparr>\<rparr>"
            by (simp add: on_download_ok_def et_after)
          show ?thesis
            unfolding eq
            by (rule persist_inv_entry [OF inv, where chunk = chunk and new = "[Store chunk idx f]"])
              (use True no parts(1) in \<open>auto simp: persisted_def stores_def
                intro: announced_mono [OF parts(2)] served_mono [OF parts(3)]\<close>)
        next
          case False
          show ?thesis
          proof (cases "idx \<in> set (rv_received r)")
            case True
            with None Some Recovering m False inv show ?thesis by (simp add: on_download_ok_def)
          next
            case fresh: False
            show ?thesis
              by (rule persist_inv_entry [OF inv, where chunk = chunk and new = "[]"])
                (use None Some Recovering m False fresh no parts(1) in
                  \<open>auto simp: on_download_ok_def put_persist_def persisted_def stores_def
                    intro: announced_mono [OF parts(2)] served_mono [OF parts(3)]\<close>)
          qed
        qed
      qed (use None Some m inv in \<open>simp_all add: on_download_ok_def\<close>)
    qed (use None m inv in \<open>simp add: on_download_ok_def\<close>)
  qed
qed

lemma persist_inv_decode:
  assumes inv: "persist_inv p"
  shows "persist_inv (after (on_decode env chunk d p))"
proof -
  note parts = persist_inv_parts [OF inv]
  show ?thesis
  proof (cases "hm_get (et_downloads p) chunk")
    case (Some st)
    show ?thesis
      by (rule persist_inv_frame [OF inv])
        (use Some in \<open>auto simp: on_decode_def same_persists_def put_download_def\<close>)
  next
    case None
    show ?thesis
    proof (cases "\<exists>state r. hm_get (et_persists p) chunk = Some state \<and> ps_status state = Recovering r")
      case True
      then obtain state r where st: "hm_get (et_persists p) chunk = Some state"
        "ps_status state = Recovering r" by blast
      then have no: "stores p chunk = []"
        using parts(4) [of chunk] by (simp add: persisted_def)
      show ?thesis
        by (rule persist_inv_entry [OF inv, where chunk = chunk and new = "[]"])
          (use None st no parts(1) in \<open>auto simp: on_decode_def put_persist_def persisted_def
            stores_def intro: announced_mono [OF parts(2)] served_mono [OF parts(3)]\<close>)
    next
      case False
      with None inv show ?thesis
        by (auto simp: on_decode_def split: option.split persist_status.split)
    qed
  qed
qed

lemma persist_inv_invite:
  assumes inv: "persist_inv p"
  shows "persist_inv (after (on_invite env idx m p))"
proof -
  note parts = persist_inv_parts [OF inv]
  show ?thesis
  proof (cases "iv_peer_id m \<noteq> et_id p \<and> hm_get (et_persists p) (iv_chunk m) = None \<and>
      is_ok (recover_new env p)")
    case True
    then obtain r p1 where r: "recover_new env p = Ok r p1" by (auto simp: is_ok_iff)
    from recover_new_Ok [OF r] have p1: "p1 = p\<lparr>et_next_token := et_next_token p + 1\<rparr>" by blast
    have no: "stores p (iv_chunk m) = []"
      using parts(4) [of "iv_chunk m"] True by (simp add: persisted_def)
    show ?thesis
      by (rule persist_inv_entry [OF inv, where chunk = "iv_chunk m" and new = "[]"])
        (use True r p1 no parts(1) in \<open>auto simp: on_invite_def hm_or_insert_def et_after
            persisted_def stores_def intro: announced_mono [OF parts(2)] served_mono [OF parts(3)]\<close>)
  next
    case False
    show ?thesis
      by (rule persist_inv_frame [OF inv])
        (use False in \<open>auto simp: on_invite_def same_persists_def hm_or_insert_def et_after
          recover_new_def split: option.split sum.split\<close>)
  qed
qed

lemma persist_inv_recv_offer:
  assumes inv: "persist_inv p"
  shows "persist_inv (after (on_recv_offer env offer p))"
proof -
  note parts = persist_inv_parts [OF inv]
  let ?c = "sf_chunk (ro_inner offer)"
  have accept: "same_persists q (after (et_accept offer t q))"
    for q :: "('a, 'b, 'c, 'd) entropy" and t
    using after_accept_sent [of "Some (unat (et_fragment_len q))"
        "\<lambda>buf. Inr (DownloadOk (sf_chunk (ro_inner offer)) (sf_index (ro_inner offer)) buf)"
        "Some t" offer "et_blob q"]
    by (auto simp: same_persists_def et_after)
  note accept_inv = persist_inv_frame [OF _ accept]
  show ?thesis
  proof (cases "hm_get (et_downloads p) ?c")
    case (Some st)
    then show ?thesis using accept_inv [OF inv] by (simp add: on_recv_offer_def Let_def)
  next
    case None
    show ?thesis
    proof (cases "hm_get (et_persists p) ?c")
      case (Some state)
      note here = None Some
      show ?thesis
      proof (cases "\<exists>r. ps_status state = Recovering r")
        case True
        then obtain r where r: "ps_status state = Recovering r" by blast
        have notify: "persist_inv (p\<lparr>et_persists := hm_insert ?c
            (state\<lparr>ps_notify := Some d\<rparr>) (et_persists p)\<rparr>)" for d
          by (rule persist_inv_entry [OF inv, where chunk = ?c and new = "[]"])
            (use here r parts(1) parts(4) [of ?c] in \<open>auto simp: persisted_def stores_def
              intro: announced_mono [OF parts(2)] served_mono [OF parts(3)]\<close>)
        show ?thesis
          using here r accept_inv [OF inv] accept_inv [OF notify] inv
          by (simp add: on_recv_offer_def Let_def split: option.split)
      next
        case False
        then obtain f where "stores p ?c = [Store ?c (ps_index state) f]"
          using parts(4) [of ?c] here by (auto simp: persisted_def split: persist_status.splits)
        then have "stored p ?c (ps_index state) f" by (simp add: stored_stores)
        then have st: "\<exists>i f. Store ?c i f \<in> set (sent (et_fs p))" by (auto simp: stored_def)
        have send: "persist_inv (after (send_available env d ?c p))" for d
        proof -
          have "announced (after (send_available env d ?c p))"
            by (rule announced_mono [OF parts(2)])
              (auto simp: et_after peer_sign_def stored_def st)
          then show ?thesis
            using inv by (auto simp: persist_inv_def et_after stores_def served_def stored_def)
        qed
        show ?thesis
          using here False inv send
          by (simp add: on_recv_offer_def Let_def split: option.split persist_status.split)
      qed
    qed (use None inv in \<open>simp add: on_recv_offer_def Let_def\<close>)
  qed
qed

lemma persist_inv_store_ok:
  assumes inv: "persist_inv p" and has: "has_stored p chunk"
  shows "persist_inv (after (on_store_ok env chunk p))"
proof (cases "hm_get (et_persists p) chunk")
  case (Some state)
  note parts = persist_inv_parts [OF inv]
  from has obtain i f where st: "stored p chunk i f" by (auto simp: has_stored_def)
  have kept: "persisted chunk (Some (state\<lparr>ps_status := Available, ps_notify := None\<rparr>))
      (stores p chunk)"
    using parts(4) [of chunk] Some st
    by (auto simp: persisted_def stored_stores split: persist_status.splits)
  have ex: "\<exists>i f. Store chunk i f \<in> set (sent (et_fs p))" using st by (auto simp: stored_def)
  have new: "announced (after (on_store_ok env chunk p))"
    by (rule announced_mono [OF parts(2)])
      (auto simp: Some on_store_ok_def Let_def et_after peer_sign_def stored_def ex
        split: option.splits if_splits)
  show ?thesis
    by (rule persist_inv_entry [OF inv, where chunk = chunk and new = "[]"])
      (use Some parts(1) kept new in \<open>auto simp: on_store_ok_def Let_def et_after stores_def
        split: option.split intro: served_mono [OF parts(3)]\<close>)
qed (use inv in \<open>simp add: on_store_ok_def\<close>)

lemma persist_inv_recover_encode:
  assumes inv: "persist_inv p"
  shows "persist_inv (after (on_recover_encode chunk f p))"
proof (cases "hm_get (et_persists p) chunk")
  case (Some state)
  note parts = persist_inv_parts [OF inv]
  show ?thesis
  proof (cases "\<exists>r. ps_status state = Recovering r")
    case True
    then have "stores p chunk = []"
      using parts(4) [of chunk] Some by (auto simp: persisted_def)
    then show ?thesis
      by (intro persist_inv_entry [OF inv, where chunk = chunk and
            state = "state\<lparr>ps_status := Storing\<rparr>" and new = "[Store chunk (ps_index state) f]"])
        (use Some True parts(1) in \<open>auto simp: on_recover_encode_def Let_def et_after
          persisted_def stores_def intro: announced_mono [OF parts(2)] served_mono [OF parts(3)]\<close>)
  next
    case False
    then have "persisted chunk (Some (state\<lparr>ps_status := Storing\<rparr>)) (stores p chunk)"
      using parts(4) [of chunk] Some by (auto simp: persisted_def split: persist_status.splits)
    then show ?thesis
      by (intro persist_inv_entry [OF inv, where chunk = chunk and
            state = "state\<lparr>ps_status := Storing\<rparr>" and new = "[]"])
        (use Some False parts(1) in \<open>auto simp: on_recover_encode_def Let_def stores_def
          split: persist_status.split intro: announced_mono [OF parts(2)]
          served_mono [OF parts(3)]\<close>)
  qed
qed (use inv in \<open>simp add: on_recover_encode_def\<close>)

lemma persist_inv_pull:
  assumes inv: "persist_inv p"
  shows "persist_inv (after (on_pull m p))"
proof -
  note parts = persist_inv_parts [OF inv]
  have "persist_inv (after (et_file (Load c i t) (p\<lparr>et_pending_pulls := x\<rparr>)))" for c i t x
    using inv
    by (auto simp: persist_inv_def et_after stores_def
        intro: announced_mono [OF parts(2)] served_mono [OF parts(3)])
  then show ?thesis
    using inv by (simp add: on_pull_def split: option.split persist_status.split)
qed

lemma persist_inv_offer_each:
  assumes "persist_inv p" and "stored p (sf_chunk m) (sf_index m) f"
  shows "persist_inv (after (offer_each m f ids p))"
  using assms
proof (induction ids arbitrary: p)
  case (Cons d ids)
  note parts = persist_inv_parts [OF Cons.prems(1)]
  let ?q = "after (et_offer d m f None p)"
  have served: "served ?q"
    by (rule served_mono [OF parts(3)])
      (use Cons.prems(2) in \<open>auto simp: et_after bulk_offer_def stored_def\<close>)
  have q: "persist_inv ?q" "stored ?q (sf_chunk m) (sf_index m) f"
    using Cons.prems served
    by (auto simp: persist_inv_def et_after bulk_offer_def stores_def stored_def announced_def)
  show ?case
    using q Cons.IH [OF q] by (cases "et_offer d m f None p") auto
qed simp

lemma persist_inv_load_ok:
  assumes inv: "persist_inv p" and "stored p chunk idx f"
  shows "persist_inv (after (on_load_ok chunk idx f p))"
proof (cases "hm_get (et_pending_pulls p) chunk")
  case (Some ids)
  have "persist_inv (p\<lparr>et_pending_pulls := hm_remove chunk (et_pending_pulls p)\<rparr>)"
    by (rule persist_inv_frame [OF inv]) (auto simp: same_persists_def)
  with persist_inv_offer_each [OF this] Some assms(2) show ?thesis
    by (simp add: on_load_ok_def stored_def)
qed (use inv in \<open>simp add: on_load_ok_def\<close>)

lemma persist_inv_event:
  assumes inv: "persist_inv p" and "fs_event_ok p e"
  shows "persist_inv (after (entropy_on_event env e p))"
proof -
  note handlers = persist_inv_download_ok persist_inv_decode persist_inv_invite
    persist_inv_recv_offer persist_inv_recover_encode persist_inv_pull
  note frame = persist_inv_frame [OF inv]
  show ?thesis
  proof (cases e)
    case (EvCodec x)
    then show ?thesis
      using inv frame by (cases x) (simp_all add: same_persists_handlers handlers)
  next
    case (EvFs x)
    then show ?thesis
      using inv assms(2) by (cases x) (auto intro: persist_inv_store_ok persist_inv_load_ok)
  qed (use inv frame in \<open>simp_all add: same_persists_handlers handlers\<close>)
qed

section \<open>The file system's side\<close>

definition files_grow ::
  "('k, 'x, 'enc, 'dec) entropy \<Rightarrow> ('k, 'x, 'enc, 'dec) entropy \<Rightarrow> bool" where
  "files_grow p p' \<longleftrightarrow> set (sent (et_fs p)) \<subseteq> set (sent (et_fs p'))"

lemma files_grow_offer_each: "et_fs (after (offer_each m f ids p)) = et_fs p"
proof (induction ids arbitrary: p)
  case (Cons d ids)
  have "et_fs (after (et_offer d m f None p)) = et_fs p" by (simp add: et_after)
  with Cons.IH show ?case by (cases "et_offer d m f None p") auto
qed simp

lemma files_grow_event: "files_grow p (after (entropy_on_event env e p))"
proof -
  have same: "files_grow p p'" if "same_persists p p'" for p'
    using that by (auto simp: files_grow_def same_persists_def)
  have other: "files_grow p (after (on_download_ok env m p))"
    "files_grow p (after (on_decode env c d p))" "files_grow p (after (on_invite env i v p))"
    "files_grow p (after (on_recv_offer env r p))" "files_grow p (after (on_store_ok env c p))"
    "files_grow p (after (on_recover_encode c f p))" "files_grow p (after (on_pull l p))"
    "files_grow p (after (on_load_ok c i f p))" for m c d i v r f l
    by (auto simp: files_grow_def on_download_ok_def on_decode_def on_invite_def on_recv_offer_def
        on_store_ok_def on_recover_encode_def on_pull_def on_load_ok_def Let_def et_after
        put_download_def put_persist_def recover_new_def files_grow_offer_each
        split: download_ok.splits option.splits persist_status.splits sum.splits)
  show ?thesis
  proof (cases e)
    case (EvCodec x)
    then show ?thesis using same other by (cases x) (simp_all add: same_persists_handlers)
  next
    case (EvFs x)
    then show ?thesis using other by (cases x) simp_all
  qed (use same other in \<open>simp_all add: same_persists_handlers\<close>)
qed

lemma stored_grows: "files_grow p p' \<Longrightarrow> stored p c i f \<Longrightarrow> stored p' c i f"
  by (auto simp: files_grow_def stored_def)

lemma has_stored_grows: "files_grow p p' \<Longrightarrow> has_stored p c \<Longrightarrow> has_stored p' c"
  unfolding has_stored_def using stored_grows by blast

fun store_task_ok :: "('k, 'x, 'enc, 'dec) entropy \<Rightarrow> store_task \<Rightarrow> bool" where
  "store_task_ok p (StoreCreate c i f) = stored p c i f"
| "store_task_ok p (StoreWrite c i f) = stored p c i f"
| "store_task_ok p (StoreDone c) = has_stored p c"
| "store_task_ok p StoreFailed = True"

fun load_task_ok :: "('k, 'x, 'enc, 'dec) entropy \<Rightarrow> load_task \<Rightarrow> bool" where
  "load_task_ok p (LoadRead c i t) = True"
| "load_task_ok p (LoadRemove c i f) = stored p c i f"
| "load_task_ok p (LoadDone c i f) = stored p c i f"
| "load_task_ok p LoadFailed = True"

fun upcall_ok :: "('k, 'x, 'enc, 'dec) entropy \<Rightarrow> fs_upcall \<Rightarrow> bool" where
  "upcall_ok p (StoreOk c) = has_stored p c"
| "upcall_ok p (LoadOk c i f) = stored p c i f"

definition dirs_ok :: "('k, 'x, 'enc, 'dec) entropy \<Rightarrow> dirs \<Rightarrow> bool" where
  "dirs_ok p dirs \<longleftrightarrow> (\<forall>c files i f. hm_get dirs c = Some files \<longrightarrow>
     hm_get files i = Some f \<longrightarrow> stored p c i f)"

definition fs_inv :: "('k, 'x, 'enc, 'dec) entropy \<Rightarrow> fs_session \<Rightarrow> bool" where
  "fs_inv p s \<longleftrightarrow> (\<forall>t \<in> set (fs_store_tasks s). store_task_ok p t) \<and>
     (\<forall>t \<in> set (fs_load_tasks s). load_task_ok p t) \<and> dirs_ok p (fs_dirs s) \<and>
     (\<forall>u \<in> set (sent (fs_upcalls s)). upcall_ok p u)"

lemma fs_inv_grows:
  assumes "files_grow p p'" and "fs_inv p s"
  shows "fs_inv p' s"
proof -
  have "store_task_ok p t \<Longrightarrow> store_task_ok p' t" for t
    using stored_grows [OF assms(1)] has_stored_grows [OF assms(1)] by (cases t) auto
  moreover have "load_task_ok p t \<Longrightarrow> load_task_ok p' t" for t
    using stored_grows [OF assms(1)] has_stored_grows [OF assms(1)] by (cases t) auto
  moreover have "upcall_ok p u \<Longrightarrow> upcall_ok p' u" for u
    using stored_grows [OF assms(1)] has_stored_grows [OF assms(1)] by (cases u) auto
  moreover have "dirs_ok p d \<Longrightarrow> dirs_ok p' d" for d
    using stored_grows [OF assms(1)] unfolding dirs_ok_def by blast
  ultimately show ?thesis using assms(2) by (simp add: fs_inv_def)
qed

lemma store_step_ok:
  assumes "store_task_ok p t" and "dirs_ok p d" and "store_step t d = (t', d')"
  shows "store_task_ok p t' \<and> dirs_ok p d'"
  using assms
  by (cases t) (auto simp: dirs_ok_def split: if_splits option.splits)

lemma load_step_ok:
  assumes "load_task_ok p t" and "dirs_ok p d" and "load_step t d = (t', d')"
  shows "load_task_ok p t' \<and> dirs_ok p d'"
  using assms
  by (cases t) (auto simp: dirs_ok_def split: if_splits option.splits)

lemma set_remove_at: "set (remove_at k xs) \<subseteq> set xs"
  by (auto simp: remove_at_def dest: in_set_takeD in_set_dropD)

lemma fs_inv_recv:
  assumes "fs_inv p s" and "e \<in> set (sent (et_fs p))"
  shows "fs_inv p (fs_on_event e s)"
  using assms by (cases e) (auto simp: fs_inv_def stored_def)

lemma fs_inv_send:
  assumes "fs_inv p s" and "upcall_ok p u"
  shows "fs_inv p (after (fs_send u s))"
  using assms by (auto simp: fs_inv_def fs_send_def et_after)

lemma fs_inv_select:
  assumes inv: "fs_inv p s" and "is_outer (NdFs i)" and ready: "fs_ready i s"
  shows "fs_inv p (after (fs_select i s))"
proof (cases i)
  case (FsRecv e)
  with assms(2) show ?thesis by simp
next
  case (FsStepStore k)
  obtain t d where step: "store_step (fs_store_tasks s ! k) (fs_dirs s) = (t, d)"
    by (cases "store_step (fs_store_tasks s ! k) (fs_dirs s)")
  have "store_task_ok p (fs_store_tasks s ! k)" "dirs_ok p (fs_dirs s)"
    using inv ready FsStepStore by (simp_all add: fs_inv_def)
  from store_step_ok [OF this step] inv step FsStepStore show ?thesis
    by (auto simp: fs_inv_def dest!: set_update_subset_insert [THEN subsetD])
next
  case (FsStepLoad k)
  obtain t d where step: "load_step (fs_load_tasks s ! k) (fs_dirs s) = (t, d)"
    by (cases "load_step (fs_load_tasks s ! k) (fs_dirs s)")
  have "load_task_ok p (fs_load_tasks s ! k)" "dirs_ok p (fs_dirs s)"
    using inv ready FsStepLoad by (simp_all add: fs_inv_def)
  from load_step_ok [OF this step] inv step FsStepLoad show ?thesis
    by (auto simp: fs_inv_def dest!: set_update_subset_insert [THEN subsetD])
next
  case (FsJoinStore k)
  let ?s = "s\<lparr>fs_store_tasks := remove_at k (fs_store_tasks s)\<rparr>"
  have "fs_inv p ?s" using inv set_remove_at by (fastforce simp: fs_inv_def)
  moreover have "store_task_ok p (fs_store_tasks s ! k)"
    using inv ready FsJoinStore by (simp add: fs_inv_def)
  ultimately show ?thesis
    using FsJoinStore fs_inv_send [of p ?s] by (cases "fs_store_tasks s ! k") auto
next
  case (FsJoinLoad k)
  let ?s = "s\<lparr>fs_load_tasks := remove_at k (fs_load_tasks s)\<rparr>"
  have "fs_inv p ?s" using inv set_remove_at by (fastforce simp: fs_inv_def)
  moreover have "load_task_ok p (fs_load_tasks s ! k)"
    using inv ready FsJoinLoad by (simp add: fs_inv_def)
  ultimately show ?thesis
    using FsJoinLoad fs_inv_send [of p ?s] by (cases "fs_load_tasks s ! k") auto
qed

section \<open>The node\<close>

definition node_inv :: "('k, 'x, 'enc, 'dec) node \<Rightarrow> bool" where
  "node_inv s \<longleftrightarrow> persist_inv (nd_peer s) \<and> fs_inv (nd_peer s) (nd_fs s)"

lemma node_inv_deliver:
  assumes "node_inv s" and "fs_event_ok (nd_peer s) e"
  shows "node_inv (after (node_deliver env e s))"
  using persist_inv_event [of "nd_peer s" e env] fs_inv_grows [OF files_grow_event, of "nd_peer s" "nd_fs s" env e]
    assms
  by (simp add: node_inv_def node_deliver_def)

lemma node_inv_input:
  assumes inv: "node_inv s" and outer: "is_outer i"
  shows "node_inv (after (node_on_input env i s))"
proof (cases i)
  case (NdEvent e)
  have "fs_event_ok (nd_peer s) e" using outer NdEvent by (cases e) auto
  with NdEvent node_inv_deliver [OF inv] show ?thesis by simp
next
  case (NdWork k)
  have "node_inv (s\<lparr>nd_worked := k # nd_worked s\<rparr>)" using inv by (simp add: node_inv_def)
  from node_inv_deliver [OF this] this NdWork inv show ?thesis
    by (auto simp: Let_def split: sum.split)
next
  case NdFile
  with inv show ?thesis
    by (auto simp: node_inv_def intro: fs_inv_recv)
next
  case (NdFs x)
  with inv outer fs_inv_select [of "nd_peer s" "nd_fs s" x] show ?thesis
    by (auto simp: node_inv_def)
next
  case NdCall
  show ?thesis
  proof (cases "nd_called s < length (sent (fs_upcalls (nd_fs s)))")
    case True
    let ?u = "sent (fs_upcalls (nd_fs s)) ! nd_called s"
    have "upcall_ok (nd_peer s) ?u" using inv True by (simp add: node_inv_def fs_inv_def)
    then have "fs_event_ok (nd_peer s) (EvFs ?u)" by (cases ?u) auto
    moreover have "node_inv (s\<lparr>nd_called := Suc (nd_called s)\<rparr>)" using inv by (simp add: node_inv_def)
    ultimately show ?thesis
      using True NdCall node_inv_deliver [of "s\<lparr>nd_called := Suc (nd_called s)\<rparr>" "EvFs ?u" env] by simp
  qed (use NdCall inv in simp)
qed

lemma node_run_after:
  assumes "P s" and "\<And>i s. P s \<Longrightarrow> is_outer i \<Longrightarrow> i \<in> set is \<Longrightarrow> P (after (node_on_input env i s))"
  shows "P (after (node_run env is s))"
  using assms
proof (induction "is" arbitrary: s)
  case (Cons i l)
  show ?case
  proof (cases "is_outer i")
    case True
    with Cons.prems have "P (after (node_on_input env i s))" by simp
    with Cons True show ?thesis by (cases "node_on_input env i s") auto
  qed (use Cons in simp)
qed simp

text \<open>A node announces and serves only what it stored. In any run of a storage node from its
  initial state, whatever messages, offers and downloads come in and however its codec works and
  its file system tasks interleave: it asks for at most one fragment to be stored per chunk; every
  \<open>FragmentAvailable\<close> it signs is for a chunk it asked to store; and every fragment it offers to a
  pulling peer is the one it stored, under the index it stored it.\<close>

theorem node_announces_stored:
  "let p = nd_peer (after (node_run env is
     (node_new (entropy_new i key fl ck n m open_sink open_sink upcall worker open_sink))))
   in (\<forall>chunk. length (stores p chunk) \<le> 1) \<and> announced p \<and> served p"
proof -
  let ?s = "node_new (entropy_new i key fl ck n m open_sink open_sink upcall worker open_sink)"
  have "node_inv ?s"
    by (simp add: node_inv_def node_new_def persist_inv_def fs_inv_def fs_new_def entropy_new_def
        open_sink_def persisted_def stores_def announced_def served_def dirs_ok_def)
  then have "node_inv (after (node_run env is ?s))"
    by (rule node_run_after) (rule node_inv_input)
  then have inv: "persist_inv (nd_peer (after (node_run env is ?s)))" by (simp add: node_inv_def)
  have "length (stores (nd_peer (after (node_run env is ?s))) c) \<le> 1" for c
    using persist_inv_parts(4) [OF inv, of c]
    by (auto simp: persisted_def split: option.splits persist_status.splits)
  with persist_inv_parts(2,3) [OF inv] show ?thesis by (simp add: Let_def)
qed

end
