(* ===== verification/Entropy_Data.thy ===== *)
theory Entropy_Data
  imports Entropy_Node
begin

text \<open>
  The data of a chunk, from the put to the get: as long as what comes in for the chunk are fragments
  of its encoding, what a node offers and stores for it are such fragments, and what a get returns
  is the chunk.
\<close>

section \<open>The code\<close>

record 'enc coded =
  co_chunk :: chunk
  co_buf :: payload
  co_enc :: 'enc
  co_len :: usize
  co_fl :: u32

definition frag :: "('enc, 'dec) chunk_codec \<Rightarrow> 'enc coded \<Rightarrow> u32 \<Rightarrow> payload \<Rightarrow> bool" where
  "frag cd co idx f \<longleftrightarrow> cd_encode cd (co_enc co) idx = Inr f"

text \<open>The decoders that were only given fragments of the chunk and are not complete.\<close>

inductive fed :: "('enc, 'dec) chunk_codec \<Rightarrow> 'enc coded \<Rightarrow> 'dec \<Rightarrow> bool" for cd co where
  fed_new: "cd_new_decoder cd (co_len co) (co_fl co) = Inr d \<Longrightarrow> fed cd co d"
| fed_add: "fed cd co d \<Longrightarrow> frag cd co idx f \<Longrightarrow> cd_decode cd d idx f = Inr (False, d') \<Longrightarrow>
    fed cd co d'"

text \<open>
  What the peer relies on of \<open>wirehair\<close>: a decoder given fragments of one chunk that reports
  completion recovers that chunk, and an encoder made from it makes the same fragments.
\<close>

definition codec_sound :: "('enc, 'dec) chunk_codec \<Rightarrow> 'enc coded \<Rightarrow> bool" where
  "codec_sound cd co \<longleftrightarrow>
     cd_new_encoder cd (co_buf co) (co_fl co) = Inr (co_enc co) \<and>
     (\<forall>d idx f d'. fed cd co d \<longrightarrow> frag cd co idx f \<longrightarrow> cd_decode cd d idx f = Inr (True, d') \<longrightarrow>
        (\<forall>x. cd_recover cd d' = Inr x \<longrightarrow> x = co_buf co) \<and>
        (\<forall>e j g. cd_into_encoder cd d' = Inr e \<longrightarrow> cd_encode cd e j = Inr g \<longrightarrow> frag cd co j g))"

section \<open>The peer\<close>

definition recover_ok ::
  "('enc, 'dec) chunk_codec \<Rightarrow> 'enc coded \<Rightarrow> chunk \<Rightarrow> 'dec recover_state \<Rightarrow> bool" where
  "recover_ok cd co chunk r \<longleftrightarrow> (chunk = co_chunk co \<longrightarrow>
     (\<forall>d. rv_decoder r = Some d \<longrightarrow> fed cd co d) \<and>
     (\<forall>(i, f) \<in> set (rv_pending r). frag cd co i f))"

definition persist_index ::
  "(chunk, 'dec persist_state) hmap \<Rightarrow> chunk \<Rightarrow> u32 option" where
  "persist_index ps chunk = map_option ps_index (hm_get ps chunk)"

fun work_ok ::
  "('enc, 'dec) chunk_codec \<Rightarrow> 'enc coded \<Rightarrow> u32 option \<Rightarrow> ('enc, 'dec) codec_work \<Rightarrow> bool" where
  "work_ok cd co pidx (EncoderWork chunk buf fl) =
     (chunk = co_chunk co \<longrightarrow> buf = co_buf co \<and> fl = co_fl co)"
| "work_ok cd co pidx (EncodeWork chunk idx encoder) =
     (chunk = co_chunk co \<longrightarrow> encoder = co_enc co)"
| "work_ok cd co pidx (DecodeWork chunk idx f encode_index d) =
     (chunk = co_chunk co \<longrightarrow> fed cd co d \<and> frag cd co idx f \<and>
        (encode_index = None \<or> encode_index = pidx))"

fun codec_event_ok ::
  "('enc, 'dec) chunk_codec \<Rightarrow> 'enc coded \<Rightarrow> u32 option \<Rightarrow> ('enc, 'dec) codec_event \<Rightarrow> bool" where
  "codec_event_ok cd co pidx (NewEncoder chunk e) = (chunk = co_chunk co \<longrightarrow> e = co_enc co)"
| "codec_event_ok cd co pidx (Encode chunk i f) = (chunk = co_chunk co \<longrightarrow> frag cd co i f)"
| "codec_event_ok cd co pidx (Decode chunk d) = (chunk = co_chunk co \<longrightarrow> fed cd co d)"
| "codec_event_ok cd co pidx (Recover chunk b) = (chunk = co_chunk co \<longrightarrow> b = co_buf co)"
| "codec_event_ok cd co pidx (RecoverEncode chunk f) =
     (chunk = co_chunk co \<longrightarrow> (\<exists>i. pidx = Some i \<and> frag cd co i f))"

lemma work_event_ok:
  assumes "codec_sound cd co" and "work_ok cd co pidx w" and "codec_work_event cd w = Inr e"
  shows "codec_event_ok cd co pidx e"
proof (cases w)
  case (DecodeWork chunk idx f ei d)
  show ?thesis
  proof (cases "chunk = co_chunk co")
    case True
    with assms(2) DecodeWork have d: "fed cd co d" "frag cd co idx f" "ei = None \<or> ei = pidx"
      by auto
    with assms(1) have fin: "cd_decode cd d idx f = Inr (True, d') \<Longrightarrow>
        (\<forall>x. cd_recover cd d' = Inr x \<longrightarrow> x = co_buf co) \<and>
        (\<forall>e j g. cd_into_encoder cd d' = Inr e \<longrightarrow> cd_encode cd e j = Inr g \<longrightarrow> frag cd co j g)"
      for d' unfolding codec_sound_def by blast
    show ?thesis
      using assms(3) DecodeWork d fin fed_add [OF d(1,2)]
      by (auto split: sum.splits bool.splits option.splits)
  next
    case False
    with assms(3) DecodeWork show ?thesis
      by (auto split: sum.splits bool.splits option.splits)
  qed
qed (use assms in \<open>auto simp: codec_sound_def frag_def split: sum.splits\<close>)

lemma work_ok_index:
  "work_ok cd co None w \<Longrightarrow> work_ok cd co pidx w"
  by (cases w) auto

text \<open>The invariant, one definition per field of the peer.\<close>

definition dt_uploads :: "'enc coded \<Rightarrow> (chunk, ('k, 'enc) upload_state) hmap \<Rightarrow> bool" where
  "dt_uploads co ups \<longleftrightarrow> (\<forall>st e. hm_get ups (co_chunk co) = Some st \<longrightarrow>
     up_encoder st = Some e \<longrightarrow> e = co_enc co)"

definition dt_downloads ::
  "('k, 'enc, 'dec) entropy_env \<Rightarrow> 'enc coded \<Rightarrow> (chunk, ('k, 'dec) download_state) hmap \<Rightarrow> bool" where
  "dt_downloads env co ds \<longleftrightarrow> (\<forall>chunk st. hm_get ds chunk = Some st \<longrightarrow>
     ee_target env (dl_preimage st) = chunk \<and> recover_ok (ee_codec env) co chunk (dl_recover st))"

definition dt_persists ::
  "('enc, 'dec) chunk_codec \<Rightarrow> 'enc coded \<Rightarrow> (chunk, 'dec persist_state) hmap \<Rightarrow> bool" where
  "dt_persists cd co ps \<longleftrightarrow> (\<forall>chunk st r. hm_get ps chunk = Some st \<longrightarrow>
     ps_status st = Recovering r \<longrightarrow> recover_ok cd co chunk r)"

definition dt_worker ::
  "('enc, 'dec) chunk_codec \<Rightarrow> 'enc coded \<Rightarrow> u32 option \<Rightarrow> ('enc, 'dec) codec_worker \<Rightarrow> bool" where
  "dt_worker cd co pidx w \<longleftrightarrow>
     (\<exists>sender. w = Spawn sender \<and> (\<forall>x \<in> set (sent sender). work_ok cd co pidx x))"

definition dt_files :: "('enc, 'dec) chunk_codec \<Rightarrow> 'enc coded \<Rightarrow> fs_event list \<Rightarrow> bool" where
  "dt_files cd co l \<longleftrightarrow> (\<forall>i f. Store (co_chunk co) i f \<in> set l \<longrightarrow> frag cd co i f)"

definition dt_blob ::
  "('enc, 'dec) chunk_codec \<Rightarrow> 'enc coded \<Rightarrow> (peer_id, send_fragment, 'x, download_ok) bulk_event list \<Rightarrow>
   bool" where
  "dt_blob cd co l \<longleftrightarrow> (\<forall>x. BOffer x \<in> set l \<longrightarrow> sf_chunk (of_message x) = co_chunk co \<longrightarrow>
     frag cd co (sf_index (of_message x)) (of_buf x))"

definition dt_upcall ::
  "('k, 'enc, 'dec) entropy_env \<Rightarrow> 'enc coded \<Rightarrow> 'k entropy_upcall list \<Rightarrow> bool" where
  "dt_upcall env co l \<longleftrightarrow> (\<forall>k b. UpGetOk k b \<in> set l \<longrightarrow> ee_target env k = co_chunk co \<longrightarrow>
     b = co_buf co)"

definition data_inv ::
  "('k, 'enc, 'dec) entropy_env \<Rightarrow> 'enc coded \<Rightarrow> ('k, 'x, 'enc, 'dec) entropy \<Rightarrow> bool" where
  "data_inv env co p \<longleftrightarrow>
     et_fragment_len p = co_fl co \<and> chunk_len p = co_len co \<and>
     dt_uploads co (et_uploads p) \<and> dt_downloads env co (et_downloads p) \<and>
     dt_persists (ee_codec env) co (et_persists p) \<and>
     dt_worker (ee_codec env) co (persist_index (et_persists p) (co_chunk co)) (et_codec_worker p) \<and>
     dt_files (ee_codec env) co (sent (et_fs p)) \<and> dt_blob (ee_codec env) co (sent (et_blob p)) \<and>
     dt_upcall env co (sent (et_upcall p))"

named_theorems dt_intros \<open>what the clauses keep\<close>

lemma dt_uploads_insert [dt_intros]:
  "dt_uploads co ups \<Longrightarrow> (chunk = co_chunk co \<Longrightarrow> \<forall>e. up_encoder st = Some e \<longrightarrow> e = co_enc co) \<Longrightarrow>
   dt_uploads co (hm_insert chunk st ups)"
  by (auto simp: dt_uploads_def)

lemma dt_uploads_remove [dt_intros]: "dt_uploads co ups \<Longrightarrow> dt_uploads co (hm_remove chunk ups)"
  by (auto simp: dt_uploads_def)

lemma dt_downloads_insert [dt_intros]:
  "dt_downloads env co ds \<Longrightarrow> ee_target env (dl_preimage st) = chunk \<Longrightarrow>
   recover_ok (ee_codec env) co chunk (dl_recover st) \<Longrightarrow> dt_downloads env co (hm_insert chunk st ds)"
  by (auto simp: dt_downloads_def)

lemma dt_downloads_remove [dt_intros]:
  "dt_downloads env co ds \<Longrightarrow> dt_downloads env co (hm_remove chunk ds)"
  by (auto simp: dt_downloads_def)

lemma dt_persists_insert [dt_intros]:
  "dt_persists cd co ps \<Longrightarrow> (\<And>r. ps_status st = Recovering r \<Longrightarrow> recover_ok cd co chunk r) \<Longrightarrow>
   dt_persists cd co (hm_insert chunk st ps)"
  by (auto simp: dt_persists_def)

lemma dt_worker_submit [dt_intros]:
  "dt_worker cd co pidx w \<Longrightarrow> work_ok cd co pidx x \<Longrightarrow>
   dt_worker cd co pidx (after (submit run x w))"
  by (auto simp: dt_worker_def submit_def et_after)

lemma dt_worker_index:
  "dt_worker cd co None w \<Longrightarrow> dt_worker cd co pidx w"
  by (auto simp: dt_worker_def intro: work_ok_index)

lemma dt_files_push [dt_intros]:
  "dt_files cd co (sent c) \<Longrightarrow> (\<And>i f. e = Store (co_chunk co) i f \<Longrightarrow> frag cd co i f) \<Longrightarrow>
   dt_files cd co (sent (after (push_sink e c)))"
  by (auto simp: dt_files_def et_after)

lemma dt_blob_offer [dt_intros]:
  "dt_blob cd co (sent c) \<Longrightarrow> (sf_chunk m = co_chunk co \<Longrightarrow> frag cd co (sf_index m) f) \<Longrightarrow>
   dt_blob cd co (sent (after (bulk_offer d m f t c)))"
  by (auto simp: dt_blob_def et_after bulk_offer_def)

lemma dt_blob_accept [dt_intros]:
  "dt_blob cd co (sent c) \<Longrightarrow> dt_blob cd co (sent (snd (after (bulk_accept e i t (r, c)))))"
  using after_accept_sent [of e i t r c] by (auto simp: dt_blob_def)

lemma dt_upcall_push [dt_intros]:
  "dt_upcall env co (sent c) \<Longrightarrow>
   (\<And>k b. e = UpGetOk k b \<Longrightarrow> ee_target env k = co_chunk co \<Longrightarrow> b = co_buf co) \<Longrightarrow>
   dt_upcall env co (sent (after (push_sink e c)))"
  by (auto simp: dt_upcall_def et_after)

lemma chunk_len_cong:
  "et_fragment_len p' = et_fragment_len p \<Longrightarrow> et_chunk_k p' = et_chunk_k p \<Longrightarrow>
   chunk_len p' = chunk_len p"
  by (simp add: chunk_len_def)

lemma set_hm_insert_subset: "set (hm_insert k v m) \<subseteq> insert (k, v) (set m)"
  by (induction m) auto

lemma submit_decode_ok:
  assumes "recover_ok cd co chunk r" and "dt_worker cd co pidx w"
    and "chunk = co_chunk co \<Longrightarrow> frag cd co i f \<and> (ei = None \<or> ei = pidx)"
  shows "recover_ok cd co chunk (fst (after (submit_decode env chunk i f ei (r, w)))) \<and>
    dt_worker cd co pidx (snd (after (submit_decode env chunk i f ei (r, w))))"
proof (cases "rv_decoder r")
  case None
  with assms set_hm_insert_subset [of i f "rv_pending r"] show ?thesis
    by (fastforce simp: submit_decode_def recover_ok_def)
next
  case (Some d)
  with assms show ?thesis
    by (auto simp: submit_decode_def recover_ok_def intro!: dt_worker_submit)
qed

lemma recover_on_decode_ok:
  assumes r: "recover_ok cd co chunk r" and w: "dt_worker cd co pidx w"
    and new: "chunk = co_chunk co \<Longrightarrow> fed cd co d \<and> (ei = None \<or> ei = pidx)"
  shows "recover_ok cd co chunk (fst (after (recover_on_decode env chunk d ei (r, w)))) \<and>
    dt_worker cd co pidx (snd (after (recover_on_decode env chunk d ei (r, w))))"
proof (cases "rv_decoder r = None \<and> rv_pending r \<noteq> []")
  case True
  let ?k = "ee_pick env (map fst (rv_pending r)) mod length (rv_pending r)"
  obtain i f where p: "rv_pending r ! ?k = (i, f)" by (cases "rv_pending r ! ?k")
  from True have "?k < length (rv_pending r)" by simp
  then have mem: "(i, f) \<in> set (rv_pending r)" by (metis nth_mem p)
  have r2: "recover_ok cd co chunk
      (r\<lparr>rv_decoder := Some d, rv_pending := hm_remove i (rv_pending r)\<rparr>)"
    using r new by (auto simp: recover_ok_def set_hm_remove)
  have fr: "chunk = co_chunk co \<Longrightarrow> frag cd co i f \<and> (ei = None \<or> ei = pidx)"
    using r new mem by (auto simp: recover_ok_def)
  from submit_decode_ok [OF r2 w fr] True p show ?thesis
    by (simp add: recover_on_decode_def Let_def)
next
  case False
  with r w new show ?thesis
    by (auto simp: recover_on_decode_def Let_def recover_ok_def)
qed

lemma persist_index_insert:
  "persist_index (hm_insert chunk st ps) c =
     (if c = chunk then Some (ps_index st) else persist_index ps c)"
  by (simp add: persist_index_def)

lemma persist_index_same:
  "hm_get ps chunk = Some state \<Longrightarrow> ps_index st = ps_index state \<Longrightarrow>
   persist_index (hm_insert chunk st ps) c = persist_index ps c"
  by (simp add: persist_index_def)

section \<open>What the handlers keep\<close>

lemma data_inv_put:
  assumes "data_inv env co p" and "ee_target env k = co_chunk co \<longrightarrow> buf = co_buf co"
  shows "data_inv env co (after (on_put env k buf p))"
  using assms
  by (auto simp: on_put_def data_inv_def Let_def et_after chunk_len_def intro!: dt_intros)

lemma data_inv_new_encoder:
  assumes "data_inv env co p" and "chunk = co_chunk co \<longrightarrow> e = co_enc co"
  shows "data_inv env co (after (on_new_encoder chunk e p))"
  using assms
  by (auto simp: on_new_encoder_def data_inv_def Let_def et_after chunk_len_def
      split: option.split intro!: dt_intros)

lemma data_inv_invite_ok:
  assumes "data_inv env co p"
  shows "data_inv env co (after (on_invite_ok env m p))"
  using assms
  by (auto simp: on_invite_ok_def data_inv_def Let_def et_after chunk_len_def dt_uploads_def
      split: option.split intro!: dt_worker_submit)

lemma data_inv_encode:
  assumes "data_inv env co p" and "chunk = co_chunk co \<longrightarrow> frag (ee_codec env) co i f"
  shows "data_inv env co (after (on_encode chunk i f p))"
  using assms
  by (auto simp: on_encode_def data_inv_def et_after chunk_len_def
      split: option.split intro!: dt_blob_offer)

lemma data_inv_available:
  assumes "data_inv env co p"
  shows "data_inv env co (after (on_fragment_available env m p))"
  using assms
  by (auto simp: on_fragment_available_def data_inv_def Let_def after_et_call chunk_len_def
      split: option.split intro!: dt_upcall_push dt_uploads_remove)
    (auto simp: dt_uploads_def)

lemma data_inv_recover:
  assumes "data_inv env co p" and "chunk = co_chunk co \<longrightarrow> b = co_buf co"
  shows "data_inv env co (after (on_recover chunk b p))"
  using assms
  by (auto simp: on_recover_def data_inv_def after_et_call chunk_len_def dt_downloads_def
      split: option.split intro!: dt_upcall_push)

lemma data_inv_recover_encode:
  assumes "data_inv env co p"
    and "chunk = co_chunk co \<longrightarrow>
      (\<exists>i. persist_index (et_persists p) (co_chunk co) = Some i \<and> frag (ee_codec env) co i f)"
  shows "data_inv env co (after (on_recover_encode chunk f p))"
proof (cases "hm_get (et_persists p) chunk")
  case (Some state)
  have "persist_index (et_persists p) chunk = Some (ps_index state)"
    using Some by (simp add: persist_index_def)
  with assms Some show ?thesis
    by (auto simp: on_recover_encode_def data_inv_def Let_def after_et_file chunk_len_def
        persist_index_same split: persist_status.split intro!: dt_files_push dt_persists_insert)
qed (use assms in \<open>simp add: on_recover_encode_def\<close>)

lemma data_inv_get:
  assumes "data_inv env co p"
  shows "data_inv env co (after (on_get env k p))"
proof (cases "recover_new env p")
  case (Ok r p1)
  from recover_new_Ok [OF Ok] obtain d where d:
    "cd_new_decoder (ee_codec env) (chunk_len p) (et_fragment_len p) = Inr d"
    "r = \<lparr>rv_decoder = Some d, rv_pending = [], rv_received = [], rv_cancel = et_next_token p\<rparr>"
    "p1 = p\<lparr>et_next_token := et_next_token p + 1\<rparr>" by blast
  have "recover_ok (ee_codec env) co c r" for c
    using d assms by (auto simp: recover_ok_def data_inv_def intro: fed_new)
  with Ok d assms show ?thesis
    by (auto simp: on_get_def data_inv_def Let_def after_et_send chunk_len_def
        intro!: dt_downloads_insert)
next
  case (Err e p1)
  then have "p1 = p" by (simp add: recover_new_def split: sum.splits)
  with Err assms show ?thesis by (simp add: on_get_def Let_def)
qed

lemma data_inv_pull:
  assumes "data_inv env co p"
  shows "data_inv env co (after (on_pull m p))"
  using assms
  by (auto simp: on_pull_def data_inv_def after_et_file chunk_len_def
      split: option.split persist_status.split intro!: dt_files_push)

lemma data_inv_offer_each:
  assumes "data_inv env co p"
    and "sf_chunk m = co_chunk co \<longrightarrow> frag (ee_codec env) co (sf_index m) f"
  shows "data_inv env co (after (offer_each m f ids p))"
  using assms
proof (induction ids arbitrary: p)
  case (Cons d ids)
  have "data_inv env co (after (et_offer d m f None p))"
    using Cons.prems by (auto simp: data_inv_def after_et_offer chunk_len_def intro!: dt_blob_offer)
  with Cons.IH Cons.prems(2) show ?case by (cases "et_offer d m f None p") auto
qed simp

lemma data_inv_load_ok:
  assumes "data_inv env co p" and "chunk = co_chunk co \<longrightarrow> frag (ee_codec env) co i f"
  shows "data_inv env co (after (on_load_ok chunk i f p))"
proof (cases "hm_get (et_pending_pulls p) chunk")
  case (Some ids)
  have "data_inv env co (p\<lparr>et_pending_pulls := hm_remove chunk (et_pending_pulls p)\<rparr>)"
    using assms(1) by (auto simp: data_inv_def chunk_len_def)
  from data_inv_offer_each [OF this, of "\<lparr>sf_chunk = chunk, sf_index = i, sf_peer_id = None\<rparr>" f ids]
    Some assms(2) show ?thesis
    by (simp add: on_load_ok_def)
qed (use assms in \<open>simp add: on_load_ok_def\<close>)

lemma data_inv_store_ok:
  assumes "data_inv env co p"
  shows "data_inv env co (after (on_store_ok env chunk p))"
  using assms
  by (auto simp: on_store_ok_def data_inv_def Let_def after_et_send send_available_def chunk_len_def
      persist_index_same split: option.split intro!: dt_persists_insert)

lemma data_inv_recv_offer:
  assumes "data_inv env co p"
  shows "data_inv env co (after (on_recv_offer env offer p))"
  using assms
  by (auto simp: on_recv_offer_def data_inv_def Let_def after_et_send after_et_accept
      send_available_def chunk_len_def persist_index_same
      split: option.split persist_status.split intro!: dt_persists_insert dt_blob_accept)
    (auto simp: dt_persists_def)

lemma data_inv_download_ok:
  assumes inv: "data_inv env co p"
    and "chunk = co_chunk co \<longrightarrow> frag (ee_codec env) co i f"
  shows "data_inv env co (after (on_download_ok env (DownloadOk chunk i f) p))"
proof -
  let ?pi = "persist_index (et_persists p) (co_chunk co)"
  have w: "dt_worker (ee_codec env) co ?pi (et_codec_worker p)" using inv by (simp add: data_inv_def)
  show ?thesis
  proof (cases "hm_get (et_downloads p) chunk")
    case (Some st)
    then have r: "recover_ok (ee_codec env) co chunk (dl_recover st)"
      "ee_target env (dl_preimage st) = chunk"
      using inv by (simp_all add: data_inv_def dt_downloads_def)
    have "chunk = co_chunk co \<Longrightarrow> frag (ee_codec env) co i f \<and> (None = None \<or> None = ?pi)"
      using assms(2) by simp
    from submit_decode_ok [OF r(1) w this, of env] Some r(2) inv show ?thesis
      by (auto simp: on_download_ok_def put_download_def data_inv_def chunk_len_def
          intro!: dt_downloads_insert)
  next
    case None
    show ?thesis
    proof (cases "\<exists>st r. hm_get (et_persists p) chunk = Some st \<and> ps_status st = Recovering r")
      case True
      then obtain st r where st: "hm_get (et_persists p) chunk = Some st"
        "ps_status st = Recovering r" by blast
      let ?r = "r\<lparr>rv_received := List.insert i (rv_received r)\<rparr>"
      have r: "recover_ok (ee_codec env) co chunk ?r"
        using inv st by (auto simp: data_inv_def dt_persists_def recover_ok_def)
      have "chunk = co_chunk co \<Longrightarrow> frag (ee_codec env) co i f \<and>
          (Some (ps_index st) = None \<or> Some (ps_index st) = ?pi)"
        using assms(2) st by (simp add: persist_index_def)
      note ok = submit_decode_ok [OF r w this, of env]
      show ?thesis
        using None st inv ok assms(2)
        by (auto simp: on_download_ok_def put_persist_def data_inv_def chunk_len_def after_et_file
            persist_index_same intro!: dt_persists_insert dt_files_push)
    next
      case False
      with None inv show ?thesis
        by (auto simp: on_download_ok_def split: option.split persist_status.split)
    qed
  qed
qed

lemma data_inv_decode:
  assumes inv: "data_inv env co p" and "chunk = co_chunk co \<longrightarrow> fed (ee_codec env) co d"
  shows "data_inv env co (after (on_decode env chunk d p))"
proof -
  let ?pi = "persist_index (et_persists p) (co_chunk co)"
  have w: "dt_worker (ee_codec env) co ?pi (et_codec_worker p)" using inv by (simp add: data_inv_def)
  show ?thesis
  proof (cases "hm_get (et_downloads p) chunk")
    case (Some st)
    then have r: "recover_ok (ee_codec env) co chunk (dl_recover st)"
      "ee_target env (dl_preimage st) = chunk"
      using inv by (simp_all add: data_inv_def dt_downloads_def)
    have "chunk = co_chunk co \<Longrightarrow> fed (ee_codec env) co d \<and> (None = None \<or> None = ?pi)"
      using assms(2) by simp
    from recover_on_decode_ok [OF r(1) w this, of env] Some r(2) inv show ?thesis
      by (auto simp: on_decode_def put_download_def data_inv_def chunk_len_def
          intro!: dt_downloads_insert)
  next
    case None
    show ?thesis
    proof (cases "\<exists>st r. hm_get (et_persists p) chunk = Some st \<and> ps_status st = Recovering r")
      case True
      then obtain st r where st: "hm_get (et_persists p) chunk = Some st"
        "ps_status st = Recovering r" by blast
      have r: "recover_ok (ee_codec env) co chunk r"
        using inv st by (auto simp: data_inv_def dt_persists_def)
      have "chunk = co_chunk co \<Longrightarrow> fed (ee_codec env) co d \<and>
          (Some (ps_index st) = None \<or> Some (ps_index st) = ?pi)"
        using assms(2) st by (simp add: persist_index_def)
      from recover_on_decode_ok [OF r w this, of env] None st inv show ?thesis
        by (auto simp: on_decode_def put_persist_def data_inv_def chunk_len_def
            persist_index_same intro!: dt_persists_insert)
    next
      case False
      with None inv show ?thesis
        by (auto simp: on_decode_def split: option.split persist_status.split)
    qed
  qed
qed

lemma data_inv_invite:
  assumes inv: "data_inv env co p"
  shows "data_inv env co (after (on_invite env i m p))"
proof (cases "recover_new env p")
  case (Ok r p1)
  from recover_new_Ok [OF Ok] obtain d where d:
    "cd_new_decoder (ee_codec env) (chunk_len p) (et_fragment_len p) = Inr d"
    "r = \<lparr>rv_decoder = Some d, rv_pending = [], rv_received = [], rv_cancel = et_next_token p\<rparr>"
    "p1 = p\<lparr>et_next_token := et_next_token p + 1\<rparr>" by blast
  have r: "recover_ok (ee_codec env) co c r" for c
    using d inv by (auto simp: recover_ok_def data_inv_def intro: fed_new)
  show ?thesis
  proof (cases "hm_get (et_persists p) (iv_chunk m)")
    case None
    have "dt_worker (ee_codec env) co (persist_index (hm_insert (iv_chunk m)
        \<lparr>ps_index = i, ps_status = Recovering r, ps_notify = None\<rparr> (et_persists p)) (co_chunk co))
      (et_codec_worker p)"
      using inv None by (auto simp: data_inv_def persist_index_def intro: dt_worker_index)
    with Ok d(3) r None inv show ?thesis
      by (auto simp: on_invite_def data_inv_def hm_or_insert_def after_et_send chunk_len_def
          intro!: dt_persists_insert)
  next
    case (Some st)
    with Ok d(3) inv show ?thesis
      by (auto simp: on_invite_def data_inv_def hm_or_insert_def after_et_send chunk_len_def)
  qed
next
  case (Err e p1)
  then have "p1 = p" by (simp add: recover_new_def split: sum.splits)
  with Err inv show ?thesis by (simp add: on_invite_def)
qed

text \<open>What may come in for the chunk: its own bytes, and fragments of its encoding.\<close>

fun data_event_ok ::
  "('k, 'enc, 'dec) entropy_env \<Rightarrow> 'enc coded \<Rightarrow> ('k, 'x, 'enc, 'dec) entropy \<Rightarrow>
   ('k, 'x, 'enc, 'dec) entropy_event \<Rightarrow> bool" where
  "data_event_ok env co p (EvPut k b) = (ee_target env k = co_chunk co \<longrightarrow> b = co_buf co)"
| "data_event_ok env co p (EvDownloadOk (DownloadOk chunk i f)) =
     (chunk = co_chunk co \<longrightarrow> frag (ee_codec env) co i f)"
| "data_event_ok env co p (EvCodec e) =
     codec_event_ok (ee_codec env) co (persist_index (et_persists p) (co_chunk co)) e"
| "data_event_ok env co p (EvFs (LoadOk chunk i f)) =
     (chunk = co_chunk co \<longrightarrow> frag (ee_codec env) co i f)"
| "data_event_ok env co p _ = True"

lemma data_inv_event:
  assumes inv: "data_inv env co p" and ok: "data_event_ok env co p e"
  shows "data_inv env co (after (entropy_on_event env e p))"
proof (cases e)
  case (EvCodec x)
  then show ?thesis
    using inv ok data_inv_new_encoder [OF inv] data_inv_encode [OF inv] data_inv_decode [OF inv]
      data_inv_recover [OF inv] data_inv_recover_encode [OF inv]
    by (cases x) simp_all
next
  case (EvFs x)
  then show ?thesis
    using ok data_inv_store_ok [OF inv] data_inv_load_ok [OF inv] by (cases x) simp_all
next
  case (EvDownloadOk x)
  then show ?thesis using ok data_inv_download_ok [OF inv] by (cases x) simp
next
  case (EvPut k b)
  then show ?thesis using ok data_inv_put [OF inv] by simp
qed (simp_all add: data_inv_get [OF inv] data_inv_invite [OF inv] data_inv_invite_ok [OF inv]
      data_inv_pull [OF inv] data_inv_available [OF inv] data_inv_recv_offer [OF inv])

section \<open>The node\<close>

text \<open>What may come in from outside: nothing else is assumed of the other nodes.\<close>

fun input_ok ::
  "('k, 'enc, 'dec) entropy_env \<Rightarrow> 'enc coded \<Rightarrow> ('k, 'x, 'enc, 'dec) node_input \<Rightarrow> bool" where
  "input_ok env co (NdEvent (EvPut k b)) = (ee_target env k = co_chunk co \<longrightarrow> b = co_buf co)"
| "input_ok env co (NdEvent (EvDownloadOk (DownloadOk chunk i f))) =
     (chunk = co_chunk co \<longrightarrow> frag (ee_codec env) co i f)"
| "input_ok env co _ = True"

lemma node_data_deliver:
  assumes "data_inv env co (nd_peer s)" and "data_event_ok env co (nd_peer s) e"
  shows "data_inv env co (nd_peer (after (node_deliver env e s)))"
  using data_inv_event [OF assms] by (simp add: node_deliver_def)

lemma node_data_input:
  assumes inv: "data_inv env co (nd_peer s)" and node: "node_inv s"
    and sound: "codec_sound (ee_codec env) co" and outer: "is_outer i" and ok: "input_ok env co i"
  shows "data_inv env co (nd_peer (after (node_on_input env i s)))"
proof (cases i)
  case (NdEvent e)
  have "data_event_ok env co (nd_peer s) e"
  proof (cases e)
    case (EvDownloadOk x)
    with ok NdEvent show ?thesis by (cases x) simp
  qed (use outer ok NdEvent in auto)
  with NdEvent node_data_deliver [OF inv] show ?thesis by simp
next
  case (NdWork k)
  let ?s = "s\<lparr>nd_worked := k # nd_worked s\<rparr>"
  have inv': "data_inv env co (nd_peer ?s)" using inv by simp
  show ?thesis
  proof (cases "k \<in> set (nd_worked s) \<or> length (works (nd_peer s)) \<le> k")
    case False
    then have "work_ok (ee_codec env) co (persist_index (et_persists (nd_peer s)) (co_chunk co))
        (works (nd_peer s) ! k)"
      using inv by (auto simp: data_inv_def dt_worker_def works_def)
    from work_event_ok [OF sound this] have "data_event_ok env co (nd_peer ?s) (EvCodec e)"
      if "codec_work_event (ee_codec env) (works (nd_peer s) ! k) = Inr e" for e
      using that by simp
    with node_data_deliver [OF inv'] inv False NdWork show ?thesis
      by (auto simp: Let_def split: sum.split)
  qed (use NdWork inv in simp)
next
  case NdCall
  let ?s = "s\<lparr>nd_called := Suc (nd_called s)\<rparr>"
  have inv': "data_inv env co (nd_peer ?s)" using inv by simp
  show ?thesis
  proof (cases "nd_called s < length (sent (fs_upcalls (nd_fs s)))")
    case True
    let ?u = "sent (fs_upcalls (nd_fs s)) ! nd_called s"
    have "upcall_ok (nd_peer s) ?u" using node True by (simp add: node_inv_def fs_inv_def)
    then have "data_event_ok env co (nd_peer ?s) (EvFs ?u)"
      using inv by (cases ?u) (auto simp: stored_def data_inv_def dt_files_def)
    from node_data_deliver [OF inv' this] True NdCall show ?thesis by simp
  qed (use NdCall inv in simp)
qed (use inv in \<open>auto\<close>)

text \<open>C18: the data of a chunk is preserved. Take any chunk with its encoding, and a code whose
  decoders recover what they were fed. In any run of a node, if what it is asked to put under the
  chunk's target is the chunk, and what it downloads for the chunk are fragments of its encoding,
  then every fragment it offers for the chunk, as uploader or to a puller, is the encoding's fragment
  of the offered index, every fragment it stores is, those it re-encoded included, and a get of the
  chunk returns exactly the chunk.\<close>

theorem entropy_data_preserved:
  assumes "codec_sound (ee_codec env) co" and "list_all (input_ok env co) is"
    and "co_fl co = fl" and "co_len co = unat (ucast fl * word_of_nat k :: u64)"
    and "p = nd_peer (after (node_run env is
      (node_new (entropy_new i key fl k n m open_sink open_sink open_sink (Spawn open_sink) open_sink))))"
  shows "dt_blob (ee_codec env) co (sent (et_blob p)) \<and>
    dt_files (ee_codec env) co (sent (et_fs p)) \<and> dt_upcall env co (sent (et_upcall p))"
proof -
  let ?s = "node_new (entropy_new i key fl k n m open_sink open_sink open_sink (Spawn open_sink) open_sink)"
  have inv: "data_inv env co (nd_peer ?s) \<and> node_inv ?s"
    using assms(3,4)
    by (simp add: node_new_def entropy_new_def data_inv_def chunk_len_def open_sink_def
        dt_uploads_def dt_downloads_def dt_persists_def dt_worker_def dt_files_def dt_blob_def
        dt_upcall_def node_inv_def persist_inv_def fs_inv_def fs_new_def persisted_def stores_def
        announced_def served_def dirs_ok_def)
  have "data_inv env co (nd_peer (after (node_run env is ?s))) \<and> node_inv (after (node_run env is ?s))"
    by (rule node_run_after [where P = "\<lambda>s. data_inv env co (nd_peer s) \<and> node_inv s", OF inv])
      (use assms(1,2) in \<open>auto simp: list_all_iff intro: node_data_input node_inv_input\<close>)
  with assms(5) show ?thesis by (simp add: data_inv_def)
qed

end
