(* ===== verification/Entropy_Types.thy ===== *)
theory Entropy_Types
  imports Entropy_Data
begin

text \<open>
  The shape of the storage peer's state: maps with one entry per key, under the key they belong to,
  sets without duplicates, tokens that were handed out.
\<close>

definition map_typed :: "('k \<Rightarrow> 'v \<Rightarrow> bool) \<Rightarrow> ('k, 'v) hmap \<Rightarrow> bool" where
  "map_typed P m \<longleftrightarrow> hm_wf m \<and> (\<forall>k v. hm_get m k = Some v \<longrightarrow> P k v)"

lemma map_typed_Nil [simp]: "map_typed P []"
  by (simp add: map_typed_def)

lemma map_typed_insert [intro]: "map_typed P m \<Longrightarrow> P k v \<Longrightarrow> map_typed P (hm_insert k v m)"
  by (auto simp: map_typed_def)

lemma map_typed_remove [intro]: "map_typed P m \<Longrightarrow> map_typed P (hm_remove k m)"
  by (auto simp: map_typed_def)

lemma map_typed_or_insert [intro]: "map_typed P m \<Longrightarrow> P k v \<Longrightarrow> map_typed P (hm_or_insert k v m)"
  by (auto simp: hm_or_insert_def split: option.split)

lemma map_typed_get: "map_typed P m \<Longrightarrow> hm_get m k = Some v \<Longrightarrow> P k v"
  by (simp add: map_typed_def)

lemma map_typed_mono: "map_typed P m \<Longrightarrow> (\<And>k v. P k v \<Longrightarrow> Q k v) \<Longrightarrow> map_typed Q m"
  by (auto simp: map_typed_def)

definition upload_typed ::
  "('k, 'enc, 'dec) entropy_env \<Rightarrow> token \<Rightarrow> chunk \<Rightarrow> ('k, 'enc) upload_state \<Rightarrow> bool" where
  "upload_typed env t chunk st \<longleftrightarrow> ee_target env (up_preimage st) = chunk \<and>
     hm_wf (up_pending st) \<and> distinct (up_available st) \<and> up_cancel st < t"

definition recover_typed :: "token \<Rightarrow> 'dec recover_state \<Rightarrow> bool" where
  "recover_typed t r \<longleftrightarrow> hm_wf (rv_pending r) \<and> distinct (rv_received r) \<and> rv_cancel r < t"

definition download_typed ::
  "('k, 'enc, 'dec) entropy_env \<Rightarrow> token \<Rightarrow> chunk \<Rightarrow> ('k, 'dec) download_state \<Rightarrow> bool" where
  "download_typed env t chunk st \<longleftrightarrow> ee_target env (dl_preimage st) = chunk \<and>
     recover_typed t (dl_recover st)"

definition persist_typed :: "token \<Rightarrow> chunk \<Rightarrow> 'dec persist_state \<Rightarrow> bool" where
  "persist_typed t chunk st \<longleftrightarrow> (\<forall>r. ps_status st = Recovering r \<longrightarrow> recover_typed t r)"

definition entropy_typed ::
  "('k, 'enc, 'dec) entropy_env \<Rightarrow> ('k, 'x, 'enc, 'dec) entropy \<Rightarrow> bool" where
  "entropy_typed env p \<longleftrightarrow>
     map_typed (upload_typed env (et_next_token p)) (et_uploads p) \<and>
     map_typed (download_typed env (et_next_token p)) (et_downloads p) \<and>
     map_typed (persist_typed (et_next_token p)) (et_persists p) \<and>
     map_typed (\<lambda>_ l. l \<noteq> []) (et_pending_pulls p) \<and>
     (\<forall>t \<in> set (et_cancelled p). t < et_next_token p)"

lemma typed_later:
  "upload_typed env t c u \<Longrightarrow> upload_typed env (Suc t) c u"
  "recover_typed t r \<Longrightarrow> recover_typed (Suc t) r"
  "download_typed env t c d \<Longrightarrow> download_typed env (Suc t) c d"
  "persist_typed t c s \<Longrightarrow> persist_typed (Suc t) c s"
  by (auto simp: upload_typed_def download_typed_def recover_typed_def persist_typed_def)

lemma entropy_typed_token:
  assumes "entropy_typed env p"
  shows "entropy_typed env (p\<lparr>et_next_token := et_next_token p + 1\<rparr>)"
  using assms by (fastforce simp: entropy_typed_def intro: map_typed_mono typed_later)

lemma entropy_typed_effects [simp]:
  "entropy_typed env (p\<lparr>et_net := a\<rparr>) = entropy_typed env p"
  "entropy_typed env (p\<lparr>et_blob := b\<rparr>) = entropy_typed env p"
  "entropy_typed env (p\<lparr>et_upcall := c\<rparr>) = entropy_typed env p"
  "entropy_typed env (p\<lparr>et_fs := d\<rparr>) = entropy_typed env p"
  "entropy_typed env (p\<lparr>et_codec_worker := e\<rparr>) = entropy_typed env p"
  by (simp_all add: entropy_typed_def)

lemmas effect_simps =
  after_et_send after_et_call after_et_file after_et_submit after_et_offer after_et_accept
  send_available_def

section \<open>One field at a time\<close>

lemma typed_uploads:
  "entropy_typed env p \<Longrightarrow> upload_typed env (et_next_token p) chunk st \<Longrightarrow>
   entropy_typed env (p\<lparr>et_uploads := hm_insert chunk st (et_uploads p)\<rparr>)"
  by (auto simp: entropy_typed_def)

lemma typed_downloads:
  "entropy_typed env p \<Longrightarrow> download_typed env (et_next_token p) chunk st \<Longrightarrow>
   entropy_typed env (p\<lparr>et_downloads := hm_insert chunk st (et_downloads p)\<rparr>)"
  by (auto simp: entropy_typed_def)

lemma typed_persists:
  "entropy_typed env p \<Longrightarrow> persist_typed (et_next_token p) chunk st \<Longrightarrow>
   entropy_typed env (p\<lparr>et_persists := hm_insert chunk st (et_persists p)\<rparr>)"
  by (auto simp: entropy_typed_def)

lemma typed_upload_get:
  "entropy_typed env p \<Longrightarrow> hm_get (et_uploads p) chunk = Some st \<Longrightarrow>
   upload_typed env (et_next_token p) chunk st"
  by (auto simp: entropy_typed_def map_typed_def)

lemma typed_download_get:
  "entropy_typed env p \<Longrightarrow> hm_get (et_downloads p) chunk = Some st \<Longrightarrow>
   download_typed env (et_next_token p) chunk st"
  by (auto simp: entropy_typed_def map_typed_def)

lemma typed_persist_get:
  "entropy_typed env p \<Longrightarrow> hm_get (et_persists p) chunk = Some st \<Longrightarrow>
   persist_typed (et_next_token p) chunk st"
  by (auto simp: entropy_typed_def map_typed_def)

section \<open>Handlers\<close>

lemma recover_new_typed:
  assumes "entropy_typed env p" and "recover_new env p = Ok r p1"
  shows "entropy_typed env p1 \<and> recover_typed (et_next_token p1) r"
  using recover_new_Ok [OF assms(2)] entropy_typed_token [OF assms(1)]
  by (auto simp: recover_typed_def)

lemma submit_decode_typed:
  "recover_typed t r \<Longrightarrow> recover_typed t (fst (after (submit_decode env c i f ei (r, w))))"
  by (auto simp: submit_decode_def recover_typed_def split: option.split)

lemma recover_on_decode_typed:
  "recover_typed t r \<Longrightarrow> recover_typed t (fst (after (recover_on_decode env c d ei (r, w))))"
  by (auto simp: recover_on_decode_def Let_def split_beta
      intro!: submit_decode_typed) (auto simp: recover_typed_def)

lemma typed_put:
  assumes "entropy_typed env p"
  shows "entropy_typed env (after (on_put env k buf p))"
proof -
  have "entropy_typed env (p\<lparr>et_uploads := hm_insert (ee_target env k)
      \<lparr>up_preimage = k, up_encoder = None, up_pending = [], up_available = [],
       up_cancel = et_next_token p\<rparr> (et_uploads p), et_next_token := et_next_token p + 1\<rparr>)"
    using typed_uploads [OF entropy_typed_token [OF assms], of "ee_target env k"
        "\<lparr>up_preimage = k, up_encoder = None, up_pending = [], up_available = [],
          up_cancel = et_next_token p\<rparr>"]
    by (simp add: upload_typed_def entropy_typed_def)
  with assms show ?thesis by (simp add: on_put_def Let_def effect_simps)
qed

lemma typed_upload_handlers:
  assumes "entropy_typed env p"
  shows "entropy_typed env (after (on_new_encoder chunk e p))"
    and "entropy_typed env (after (on_invite_ok env m p))"
    and "entropy_typed env (after (on_encode chunk i f p))"
proof -
  show "entropy_typed env (after (on_new_encoder chunk e p))"
    using assms typed_upload_get [OF assms, of chunk]
    by (auto simp: on_new_encoder_def Let_def effect_simps upload_typed_def
        split: option.split intro!: typed_uploads)
  show "entropy_typed env (after (on_invite_ok env m p))"
    using assms typed_upload_get [OF assms, of "io_chunk m"]
    by (auto simp: on_invite_ok_def Let_def effect_simps upload_typed_def
        split: option.split intro!: typed_uploads)
  show "entropy_typed env (after (on_encode chunk i f p))"
    using assms by (auto simp: on_encode_def effect_simps split: option.split)
qed

lemma typed_available:
  assumes "entropy_typed env p"
  shows "entropy_typed env (after (on_fragment_available env m p))"
proof (cases "hm_get (et_uploads p) (fa_chunk (inner m))")
  case (Some st)
  note st = typed_upload_get [OF assms Some]
  have "entropy_typed env (p\<lparr>et_uploads := hm_remove c (et_uploads p),
      et_cancelled := up_cancel st # et_cancelled p\<rparr>)" for c
    using assms st by (auto simp: entropy_typed_def upload_typed_def)
  with Some st assms show ?thesis
    by (auto simp: on_fragment_available_def Let_def effect_simps upload_typed_def
        intro!: typed_uploads)
qed (use assms in \<open>simp add: on_fragment_available_def Let_def\<close>)

lemma typed_recover:
  assumes "entropy_typed env p"
  shows "entropy_typed env (after (on_recover chunk b p))"
proof (cases "hm_get (et_downloads p) chunk")
  case (Some st)
  have "entropy_typed env (p\<lparr>et_downloads := hm_remove chunk (et_downloads p),
      et_cancelled := rv_cancel (dl_recover st) # et_cancelled p\<rparr>)"
    using assms typed_download_get [OF assms Some]
    by (auto simp: entropy_typed_def download_typed_def recover_typed_def)
  with Some show ?thesis by (simp add: on_recover_def effect_simps)
qed (use assms in \<open>simp add: on_recover_def\<close>)

lemma typed_recover_encode:
  assumes "entropy_typed env p"
  shows "entropy_typed env (after (on_recover_encode chunk f p))"
proof (cases "hm_get (et_persists p) chunk")
  case (Some st)
  have "entropy_typed env (p\<lparr>et_persists := hm_insert chunk (st\<lparr>ps_status := Storing\<rparr>)
      (et_persists p), et_cancelled := l @ et_cancelled p\<rparr>)" if "\<forall>x \<in> set l. x < et_next_token p" for l
    using assms that by (auto simp: entropy_typed_def persist_typed_def)
  from this [of "[]"] this [of "[x]" for x] Some typed_persist_get [OF assms Some] show ?thesis
    by (auto simp: on_recover_encode_def Let_def effect_simps persist_typed_def recover_typed_def
        split: persist_status.split)
qed (use assms in \<open>simp add: on_recover_encode_def\<close>)

lemma typed_get:
  assumes "entropy_typed env p"
  shows "entropy_typed env (after (on_get env k p))"
proof (cases "recover_new env p")
  case (Ok r p1)
  from recover_new_typed [OF assms Ok] Ok show ?thesis
    by (auto simp: on_get_def Let_def effect_simps download_typed_def intro!: typed_downloads)
next
  case (Err e p1)
  then have "p1 = p" by (simp add: recover_new_def split: sum.splits)
  with Err assms show ?thesis by (simp add: on_get_def Let_def)
qed

lemma typed_invite:
  assumes "entropy_typed env p"
  shows "entropy_typed env (after (on_invite env i m p))"
proof (cases "recover_new env p")
  case (Ok r p1)
  from recover_new_typed [OF assms Ok] have
    "entropy_typed env (p1\<lparr>et_persists := hm_or_insert (iv_chunk m)
       \<lparr>ps_index = i, ps_status = Recovering r, ps_notify = None\<rparr> (et_persists p1)\<rparr>)"
    by (auto simp: entropy_typed_def persist_typed_def)
  with Ok assms show ?thesis by (auto simp: on_invite_def effect_simps)
next
  case (Err e p1)
  then have "p1 = p" by (simp add: recover_new_def split: sum.splits)
  with Err assms show ?thesis by (simp add: on_invite_def)
qed

lemma typed_decoding:
  assumes "entropy_typed env p"
  shows "entropy_typed env (after (on_download_ok env m p))"
    and "entropy_typed env (after (on_decode env chunk d p))"
proof -
  have dl: "entropy_typed env (put_download c st p s)"
    if "hm_get (et_downloads p) c = Some st" "recover_typed (et_next_token p) (fst s)" for c st s
    using typed_downloads [OF assms, of c "st\<lparr>dl_recover := fst s\<rparr>"] that
      typed_download_get [OF assms that(1)]
    by (simp add: put_download_def download_typed_def)
  have ps: "entropy_typed env (put_persist c st p s)"
    if "recover_typed (et_next_token p) (fst s)" for c st s
    using typed_persists [OF assms, of c "st\<lparr>ps_status := Recovering (fst s)\<rparr>"] that
    by (simp add: put_persist_def persist_typed_def)
  have rc: "recover_typed (et_next_token p) r"
    if "hm_get (et_persists p) c = Some st" "ps_status st = Recovering r" for c st r
    using typed_persist_get [OF assms that(1)] that(2) by (simp add: persist_typed_def)
  have rc': "recover_typed (et_next_token p) (r\<lparr>rv_received := i # rv_received r\<rparr>)"
    if "hm_get (et_persists p) c = Some st" "ps_status st = Recovering r" "i \<notin> set (rv_received r)"
    for c st r i
    using rc [OF that(1,2)] that(3) by (simp add: recover_typed_def)
  have dr: "recover_typed (et_next_token p) (dl_recover st)"
    if "hm_get (et_downloads p) c = Some st" for c st
    using typed_download_get [OF assms that] by (simp add: download_typed_def)
  show "entropy_typed env (after (on_download_ok env m p))"
    using assms
    by (cases m) (auto simp: on_download_ok_def effect_simps persist_typed_def
        split: option.split persist_status.split
        intro!: dl ps submit_decode_typed rc' dr typed_persists)
  show "entropy_typed env (after (on_decode env chunk d p))"
    using assms
    by (auto simp: on_decode_def split: option.split persist_status.split
        intro!: dl ps recover_on_decode_typed rc dr)
qed

lemma typed_persist_handlers:
  assumes "entropy_typed env p"
  shows "entropy_typed env (after (on_recv_offer env offer p))"
    and "entropy_typed env (after (on_store_ok env chunk p))"
    and "entropy_typed env (after (on_pull q p))"
proof -
  show "entropy_typed env (after (on_recv_offer env offer p))"
    using assms typed_persist_get [OF assms, of "sf_chunk (ro_inner offer)"]
    by (auto simp: on_recv_offer_def Let_def effect_simps persist_typed_def
        split: option.split persist_status.split intro!: typed_persists)
  show "entropy_typed env (after (on_store_ok env chunk p))"
    using assms
    by (auto simp: on_store_ok_def Let_def effect_simps persist_typed_def
        split: option.split intro!: typed_persists)
  show "entropy_typed env (after (on_pull q p))"
    using assms
    by (auto simp: on_pull_def effect_simps entropy_typed_def
        split: option.split persist_status.split)
qed

lemma typed_offer_each:
  "entropy_typed env p \<Longrightarrow> entropy_typed env (after (offer_each m f ids p))"
proof (induction ids arbitrary: p)
  case (Cons d ids)
  then have "entropy_typed env (after (et_offer d m f None p))" by (simp add: effect_simps)
  with Cons.IH show ?case by (cases "et_offer d m f None p") auto
qed simp

lemma typed_load_ok:
  assumes "entropy_typed env p"
  shows "entropy_typed env (after (on_load_ok chunk i f p))"
proof (cases "hm_get (et_pending_pulls p) chunk")
  case (Some ids)
  have "entropy_typed env (p\<lparr>et_pending_pulls := hm_remove chunk (et_pending_pulls p)\<rparr>)"
    using assms by (auto simp: entropy_typed_def)
  from typed_offer_each [OF this] Some show ?thesis by (simp add: on_load_ok_def)
qed (use assms in \<open>simp add: on_load_ok_def\<close>)

lemma typed_event:
  assumes "entropy_typed env p"
  shows "entropy_typed env (after (entropy_on_event env e p))"
proof -
  note handlers = typed_put typed_upload_handlers typed_available typed_recover typed_recover_encode
    typed_get typed_invite typed_decoding typed_persist_handlers typed_load_ok
  show ?thesis
  proof (cases e)
    case (EvCodec x)
    then show ?thesis by (cases x) (simp_all add: handlers [OF assms])
  next
    case (EvFs x)
    then show ?thesis by (cases x) (simp_all add: handlers [OF assms])
  qed (simp_all add: handlers [OF assms])
qed

text \<open>C20: the peer's state is well formed. After any events from the initial state, errors and panics
  included: each map has one entry per key and every upload and download is under the target of its
  preimage; the available peers of an upload and the received indices of a recovery have no
  duplicates; every token held or cancelled was handed out; no list of waiting pulls is empty.\<close>

theorem entropy_well_typed:
  "entropy_typed env (after (entropy_run env es
     (entropy_new i key fl k n m net blob upcall worker fs)))"
proof -
  have "entropy_typed env (entropy_new i key fl k n m net blob upcall worker fs)"
    by (simp add: entropy_typed_def entropy_new_def)
  from entropy_run_after [where Q = "\<lambda>_. entropy_typed env", OF this typed_event]
  show ?thesis by simp
qed

end
