(* ===== verification/Entropy_Faults.thy ===== *)
theory Entropy_Faults
  imports Entropy_Data
begin

text \<open>
  The storage node at work on samples: data preserved through a get, and the runs in which a peer
  or its file system session fails.
\<close>

section \<open>The half code is sound\<close>

definition half_coded :: "half_encoder coded" where
  "half_coded = \<lparr>co_chunk = [5], co_buf = [1, 2, 3, 4], co_enc = ([1, 2, 3, 4], 2), co_len = 4,
     co_fl = 2\<rparr>"

lemma half_ops:
  "cd_new_encoder half_codec buf fl = Inr (buf, fl)"
  "cd_encode half_codec (buf, fl) i =
     Inr (if even (unat i) then take (unat fl) buf else drop (unat fl) buf)"
  "cd_new_decoder half_codec len fl = Inr (fl, None, None)"
  "cd_decode half_codec (fl, a, b) i f =
     Inr (if even (unat i) then (b \<noteq> None, fl, Some f, b) else (a \<noteq> None, fl, a, Some f))"
  "cd_into_encoder half_codec (fl, Some x, Some y) = Inr (x @ y, fl)"
  "cd_recover half_codec (fl, Some x, Some y) = Inr (x @ y)"
  by (auto simp: half_codec_def Let_def)

lemma half_coded_fields:
  "co_chunk half_coded = [5]" "co_buf half_coded = [1, 2, 3, 4]"
  "co_enc half_coded = ([1, 2, 3, 4], 2)" "co_len half_coded = 4" "co_fl half_coded = 2"
  by (simp_all add: half_coded_def)

lemma half_frag:
  "frag half_codec half_coded i f \<longleftrightarrow> f = (if even (unat i) then [1, 2] else [3, 4])"
  by (auto simp: frag_def half_ops half_coded_fields)

lemma half_fed:
  "fed half_codec half_coded d \<Longrightarrow>
   \<exists>a b. d = (2, a, b) \<and> (a = None \<or> a = Some [1, 2]) \<and> (b = None \<or> b = Some [3, 4])"
  by (induction rule: fed.induct)
    (auto simp: half_frag half_ops half_coded_fields split: if_splits)

lemma half_complete:
  assumes "fed half_codec half_coded d" and "frag half_codec half_coded i f"
    and "cd_decode half_codec d i f = Inr (True, d')"
  shows "d' = (2, Some [1, 2], Some [3, 4])"
  using half_fed [OF assms(1)] assms(2,3)
  by (auto simp: half_frag half_ops split: if_splits)

lemma half_sound: "codec_sound half_codec half_coded"
  unfolding codec_sound_def
proof (intro conjI allI impI)
  show "cd_new_encoder half_codec (co_buf half_coded) (co_fl half_coded) = Inr (co_enc half_coded)"
    by (simp add: half_ops half_coded_fields)
next
  fix d i f d' x
  assume "fed half_codec half_coded d" "frag half_codec half_coded i f"
    "cd_decode half_codec d i f = Inr (True, d')" and x: "cd_recover half_codec d' = Inr x"
  from half_complete [OF this(1-3)] x show "x = co_buf half_coded"
    by (simp add: half_ops half_coded_fields)
next
  fix d i f d' e j g
  assume "fed half_codec half_coded d" "frag half_codec half_coded i f"
    "cd_decode half_codec d i f = Inr (True, d')" and e: "cd_into_encoder half_codec d' = Inr e"
    "cd_encode half_codec e j = Inr g"
  from half_complete [OF this(1-3)] e show "frag half_codec half_coded j g"
    by (auto simp: half_ops half_frag)
qed

definition sample_get :: "(nat, nat, half_encoder, half_decoder) node_input list" where
  "sample_get =
     [NdEvent (EvGet 5), NdEvent (EvDownloadOk (DownloadOk [5] 3 [3, 4])),
      NdEvent (EvDownloadOk (DownloadOk [5] 8 [1, 2])), NdWork 0, NdWork 1]"

theorem entropy_data_preserved_witness:
  "sent (et_upcall (nd_peer (after (node_run half_env sample_get (node_new (half_peer [7])))))) =
     [UpGetOk 5 [1, 2, 3, 4]] \<and>
   dt_upcall half_env half_coded
     (sent (et_upcall (nd_peer (after (node_run half_env sample_get (node_new (half_peer [7])))))))"
proof
  show "sent (et_upcall (nd_peer (after (node_run half_env sample_get (node_new (half_peer [7])))))) =
     [UpGetOk 5 [1, 2, 3, 4]]" by code_simp
  have 1: "codec_sound (ee_codec half_env) half_coded" by (simp add: half_env_def half_sound)
  have 2: "list_all (input_ok half_env half_coded) sample_get"
    using half_frag by (simp add: sample_get_def half_env_def)
  have 3: "co_fl half_coded = 2" "co_len half_coded = unat (ucast (2 :: u32) * word_of_nat 2 :: u64)"
    by (simp_all add: half_coded_def)
  from entropy_data_preserved [OF 1 2 3, where i = "[7]" and key = "[7]" and n = 2 and m = 3]
  show "dt_upcall half_env half_coded
     (sent (et_upcall (nd_peer (after (node_run half_env sample_get (node_new (half_peer [7])))))))"
    unfolding half_peer_def by blast
qed

section \<open>Failing runs\<close>

text \<open>A decoding step that ends late panics. While a peer recovers its fragment of a chunk, let it
  download another fragment, which its codec worker starts to decode, and then its own fragment,
  which it stores. When the worker then reports that the decoder needs more, the handler reaches
  \<open>unreachable!()\<close>.\<close>

theorem entropy_decode_race:
  assumes "hm_get (et_downloads p) chunk = None" and "hm_get (et_persists p) chunk = Some st"
    and "ps_status st = Recovering r" and "rv_decoder r = Some d"
    and "j \<noteq> ps_index st" and "j \<notin> set (rv_received r)"
    and "et_codec_worker p = Spawn w" and "\<not> closed w" and "\<not> closed (et_fs p)"
  shows "\<exists>p1 p2. entropy_run env [EvDownloadOk (DownloadOk chunk j f)] p = Ok () p1 \<and>
    DecodeWork chunk j f (Some (ps_index st)) d \<in> set (works p1) \<and>
    entropy_run env [EvDownloadOk (DownloadOk chunk (ps_index st) g)] p1 = Ok () p2 \<and>
    entropy_run env [EvCodec (Decode chunk d')] p2 =
      Err (Panic ''internal error: entered unreachable code'') p2"
  using assms
  by (simp add: on_download_ok_def submit_decode_def submit_def push_sink.simps put_persist_def
      on_decode_def et_file_def works_def)

definition sample_persisting :: "(nat, nat, half_encoder, half_decoder) entropy" where
  "sample_persisting =
     after (entropy_run half_env [EvInvite 0 \<lparr>iv_chunk = [5], iv_peer_id = [9]\<rparr>] (half_peer [7]))"

lemma sample_persist:
  "hm_get (et_downloads sample_persisting) [5] = None"
  "hm_get (et_persists sample_persisting) [5] = Some \<lparr>ps_index = 0,
     ps_status = Recovering \<lparr>rv_decoder = Some (2, None, None), rv_pending = [], rv_received = [],
       rv_cancel = 0\<rparr>, ps_notify = None\<rparr>"
  "et_codec_worker sample_persisting = Spawn open_sink" "\<not> closed (et_fs sample_persisting)"
  by code_simp+

theorem entropy_decode_race_witness:
  "\<exists>p1 p2. entropy_run half_env [EvDownloadOk (DownloadOk [5] 1 [3, 4])] sample_persisting = Ok () p1 \<and>
    entropy_run half_env [EvDownloadOk (DownloadOk [5] 0 [1, 2])] p1 = Ok () p2 \<and>
    entropy_run half_env [EvCodec (Decode [5] (2, None, Some [3, 4]))] p2 =
      Err (Panic ''internal error: entered unreachable code'') p2"
  using entropy_decode_race [OF sample_persist(1,2) _ _ _ _ sample_persist(3) _ sample_persist(4),
      of "\<lparr>rv_decoder = Some (2, None, None), rv_pending = [], rv_received = [], rv_cancel = 0\<rparr>"
        "(2, None, None)" 1 half_env "[3, 4]" "[1, 2]" "(2, None, Some [3, 4])"]
  by (auto simp: open_sink_def simp del: entropy_run.simps)

text \<open>A second invitation makes the peer fail. The reply to each \<open>Invite\<close> carries a fresh random
  index, but the peer keeps that of the first. After two invitations to store the same chunk, with
  indices \<open>i\<close> and \<open>j\<close>, and once fragment \<open>i\<close> is stored, the fragment \<open>j\<close> that the second inviter
  offers, as it was told to, fails the handler's assertion.\<close>

theorem entropy_invited_twice_panics:
  assumes "cd_new_decoder (ee_codec env) (chunk_len p) (et_fragment_len p) = Inr d"
    and "hm_get (et_persists p) chunk = None" and "hm_get (et_downloads p) chunk = None"
    and "a \<noteq> et_id p" and "b \<noteq> et_id p" and "i \<noteq> j"
    and "\<not> closed (et_net p)" and "\<not> closed (et_fs p)"
  shows "\<exists>p1 p2. entropy_run env [EvInvite i \<lparr>iv_chunk = chunk, iv_peer_id = a\<rparr>,
      EvInvite j \<lparr>iv_chunk = chunk, iv_peer_id = b\<rparr>] p = Ok () p1 \<and>
    sent (et_net p1) = sent (et_net p) @
      [SendInviteOk a \<lparr>io_chunk = chunk, io_index = i, io_proof = (), io_peer_id = et_id p\<rparr>,
       SendInviteOk b \<lparr>io_chunk = chunk, io_index = j, io_proof = (), io_peer_id = et_id p\<rparr>] \<and>
    entropy_run env [EvDownloadOk (DownloadOk chunk i f), EvFs (StoreOk chunk)] p1 = Ok () p2 \<and>
    entropy_run env [EvOffer \<lparr>ro_inner = \<lparr>sf_chunk = chunk, sf_index = j, sf_peer_id = Some b\<rparr>,
      ro_serve_internal = x\<rparr>] p2 = Err (Panic ''assertion failed: left == right'') p2"
  using assms
  by (simp add: on_invite_def recover_new_def chunk_len_def hm_or_insert_def et_send_def
      push_sink.simps on_download_ok_def et_file_def on_store_ok_def on_recv_offer_def Let_def)

theorem entropy_invited_twice_panics_witness:
  "\<exists>p1. entropy_run half_env [EvInvite 1 \<lparr>iv_chunk = [5], iv_peer_id = [8]\<rparr>,
      EvInvite 2 \<lparr>iv_chunk = [5], iv_peer_id = [9]\<rparr>]
     (half_peer [7] :: (nat, nat, half_encoder, half_decoder) entropy) = Ok () p1"
  using entropy_invited_twice_panics [of half_env "half_peer [7]" "(2, None, None)" "[5]" "[8]" "[9]" 1 2
      "[]" None]
  by (auto simp: half_env_def half_codec_def half_peer_def entropy_new_def open_sink_def)

fun offered_fragment ::
  "(peer_id, send_fragment, 'x, download_ok) bulk_event \<Rightarrow> (peer_id \<times> chunk \<times> u32 \<times> payload) option" where
  "offered_fragment (BOffer x) =
     Some (of_dest x, sf_chunk (of_message x), sf_index (of_message x), of_buf x)"
| "offered_fragment _ = None"

definition store_inputs :: "(nat, nat, half_encoder, half_decoder) node_input list" where
  "store_inputs =
     [NdEvent (EvInvite 1 \<lparr>iv_chunk = [5], iv_peer_id = [9]\<rparr>),
      NdEvent (EvDownloadOk (DownloadOk [5] 1 [3, 4])), NdFile, NdFs (FsStepStore 0),
      NdFs (FsStepStore 0), NdFs (FsJoinStore 0), NdCall]"

definition pull_inputs :: "peer_id \<Rightarrow> (nat, nat, half_encoder, half_decoder) node_input list" where
  "pull_inputs i =
     [NdEvent (EvPull \<lparr>pl_chunk = [5], pl_peer_id = i\<rparr>), NdFile, NdFs (FsStepLoad 0),
      NdFs (FsStepLoad 0), NdFs (FsJoinLoad 0), NdCall]"

text \<open>A fragment can be pulled once. Loading a fragment for a pull deletes its file, but the peer
  goes on counting it as available: in this run of a node a chunk's fragment is stored and a first
  pull is served with it, and on a second pull the load fails, which ends the file system session.\<close>

theorem entropy_second_pull_fails:
  "is_ok (node_run half_env (store_inputs @ pull_inputs [8]) (node_new (half_peer [7]))) \<and>
   map offered_fragment (sent (et_blob (nd_peer (after
     (node_run half_env (store_inputs @ pull_inputs [8]) (node_new (half_peer [7]))))))) =
     [Some ([8], [5], 1, [3, 4])] \<and>
   (case node_run half_env (store_inputs @ pull_inputs [8] @ pull_inputs [6])
      (node_new (half_peer [7])) of
      Err e s \<Rightarrow> e = Bail ''load failed'' \<and>
        map_option ps_status (hm_get (et_persists (nd_peer s)) [5]) = Some Available
    | Ok _ _ \<Rightarrow> False)"
proof (intro conjI)
  show "is_ok (node_run half_env (store_inputs @ pull_inputs [8]) (node_new (half_peer [7])))"
    by code_simp
  show "map offered_fragment (sent (et_blob (nd_peer (after
     (node_run half_env (store_inputs @ pull_inputs [8]) (node_new (half_peer [7]))))))) =
     [Some ([8], [5], 1, [3, 4])]"
    by code_simp
  show "case node_run half_env (store_inputs @ pull_inputs [8] @ pull_inputs [6])
      (node_new (half_peer [7])) of
      Err e s \<Rightarrow> e = Bail ''load failed'' \<and>
        map_option ps_status (hm_get (et_persists (nd_peer s)) [5]) = Some Available
    | Ok _ _ \<Rightarrow> False"
    by code_simp
qed

end
