(* ===== verification/Entropy_Quorum.thy ===== *)
theory Entropy_Quorum
  imports Entropy_Node
begin

text \<open>
  What a finished put means across peers: the reports counted by the putting peer
  (\<open>Entropy_Correct\<close>) against what the reporting nodes did (\<open>Entropy_Node\<close>). The two meet in the
  signatures: a peer's key signs the bytes of its \<open>FragmentAvailable\<close> messages and of its kademlia
  messages, and nothing else (\<open>send_available\<close>, \<open>kad_work_event\<close>).
\<close>

section \<open>The bytes a peer's key signs\<close>

definition unmatched_id ::
  "('k, 'enc, 'dec) entropy_env \<Rightarrow> fragment_available peer_verifiable \<Rightarrow> bool" where
  "unmatched_id env m \<longleftrightarrow>
     fa_peer_id (inner m) \<noteq> sha256 (ee_lib env) (ee_key_feed env) (fa_peer_key (inner m))"

definition verified_available ::
  "('k, 'enc, 'dec) entropy_env \<Rightarrow> fragment_available peer_verifiable \<Rightarrow> bool" where
  "verified_available env m \<longleftrightarrow>
     peer_verify (ee_lib env) (fragment_available_feed env) (fa_peer_key (inner m)) m = Inr ()"

text \<open>Digests are arrays of 32 bytes.\<close>

definition arrays :: "fragment_available \<Rightarrow> bool" where
  "arrays m \<longleftrightarrow> length (fa_chunk m) = 32 \<and> length (fa_peer_id m) = 32"

definition signed_bytes ::
  "('k, 'enc, 'dec) entropy_env \<Rightarrow> 'a kad_env \<Rightarrow> peer_id \<Rightarrow> ('k, 'x, 'enc, 'dec) node \<Rightarrow>
   bytes set" where
  "signed_bytes env kenv j s =
     {fragment_available_feed env (inner m) | m.
        (\<exists>dest. SendAvailable dest m \<in> set (sent (et_net (nd_peer s)))) \<and> arrays (inner m)} \<union>
     {find_peer_feed kenv q | q. pe_id (fp_record q) = j \<and> length (fp_target q) = 32} \<union>
     {find_peer_ok_feed kenv q | q. length (fo_target q) = 32}"

definition length_prefix :: bytes where
  "length_prefix = write_usize 32"

lemma length_prefix_simps [simp]:
  "length length_prefix = 8" "length_prefix ! 4 = 0" "length_prefix ! 0 = 32"
  by code_simp+

lemma hash_bytes_32: "length bs = 32 \<Longrightarrow> hash_bytes bs = length_prefix @ bs"
  by (simp add: hash_bytes_def length_prefix_def)

text \<open>A \<open>FindPeerOk\<close> never writes the bytes of a \<open>FragmentAvailable\<close>: where the first has the length
  of its target, the second has the high half of the length of its chunk.\<close>

lemma find_peer_ok_not_available:
  assumes "arrays m" and "length (fo_target q) = 32"
  shows "fragment_available_feed env m \<noteq> find_peer_ok_feed kenv q"
proof
  assume "fragment_available_feed env m = find_peer_ok_feed kenv q"
  then have "length_prefix @ fa_chunk m @ hash_bytes (fa_peer_id m) @ ee_key_feed env (fa_peer_key m) =
    write_u32 (fo_seq q) @ length_prefix @ fo_target q @
      hash_slice (record_feed kenv) (fo_closest q) @ record_feed kenv (fo_record q)"
    using assms by (simp add: fragment_available_feed_def find_peer_ok_feed_def hash_bytes_32 arrays_def)
  from arg_cong [OF this, of "\<lambda>bs. bs ! 4"] show False by (simp add: nth_append)
qed

text \<open>A peer's \<open>FindPeer\<close> does so only if its id is four times the length prefix.\<close>

lemma find_peer_not_available:
  assumes "arrays m" and "length (fp_target q) = 32" and "pe_id (fp_record q) = fa_peer_id m"
    and eq: "fragment_available_feed env m = find_peer_feed kenv q"
  shows "fa_peer_id m = concat (replicate 4 length_prefix)"
proof -
  let ?w = length_prefix and ?j = "fa_peer_id m"
  let ?r = "ke_key_feed kenv (pe_key (fp_record q)) @ ke_addr_feed kenv (pe_addr (fp_record q))"
  have "?w @ fa_chunk m @ ?w @ ?j @ ee_key_feed env (fa_peer_key m) =
    ?w @ fp_target q @ write_usize (fp_count q) @ ?w @ ?j @ ?r"
    using eq assms(1-3)
    by (simp add: fragment_available_feed_def find_peer_feed_def record_feed_def hash_bytes_32 arrays_def)
  then have "?j @ ee_key_feed env (fa_peer_key m) = ?w @ ?j @ ?r"
    using assms(1,2) by (simp add: arrays_def append_feed_inject)
  from arg_cong [OF this, of "take 32"] assms(1) have j: "?j = ?w @ take 24 ?j"
    by (simp add: arrays_def)
  have "take 24 ?j = ?w @ take 16 ?j" using arg_cong [OF j, of "take 24"] by (simp add: min_def)
  moreover have "take 16 ?j = ?w @ take 8 ?j" using arg_cong [OF j, of "take 16"] by (simp add: min_def)
  moreover have "take 8 ?j = ?w" using arg_cong [OF j, of "take 8"] by simp
  ultimately have "?j = ?w @ ?w @ ?w @ ?w" using j by metis
  then show ?thesis by (simp add: numeral_eq_Suc)
qed

lemma available_feed_chunk:
  assumes "arrays m" and "arrays m'"
    and "fragment_available_feed env m = fragment_available_feed env m'"
  shows "fa_chunk m = fa_chunk m'"
  using assms by (simp add: fragment_available_feed_def hash_bytes_32 arrays_def append_feed_inject)

lemma signed_bytes_sent:
  assumes "fragment_available_feed env m \<in> signed_bytes env kenv (fa_peer_id m) s"
    and "arrays m" and "fa_peer_id m \<noteq> concat (replicate 4 length_prefix)"
  shows "\<exists>dest m'. SendAvailable dest m' \<in> set (sent (et_net (nd_peer s))) \<and>
    fa_chunk (inner m') = fa_chunk m"
  using assms(1) unfolding signed_bytes_def
proof (elim UnE CollectE exE conjE)
  fix m' :: "fragment_available peer_verifiable" and dest
  assume "fragment_available_feed env m = fragment_available_feed env (inner m')" "arrays (inner m')"
    "SendAvailable dest m' \<in> set (sent (et_net (nd_peer s)))"
  with assms(2) available_feed_chunk show ?thesis by metis
qed (use assms(2,3) find_peer_not_available find_peer_ok_not_available in blast)+

section \<open>The put\<close>

text \<open>A node of the peer \<open>j\<close>: reached from its initial state by some run.\<close>

definition node_of ::
  "('k, 'enc, 'dec) entropy_env \<Rightarrow> peer_id \<Rightarrow> ('k, 'x, 'enc, 'dec) node \<Rightarrow> bool" where
  "node_of env j s \<longleftrightarrow>
     (\<exists>key fl ck n m upcall worker is. s = after (node_run env is
        (node_new (entropy_new j key fl ck n m open_sink open_sink upcall worker open_sink))))"

lemma node_of_announced: "node_of env j s \<Longrightarrow> announced (nd_peer s)"
  unfolding node_of_def
proof (elim exE)
  fix key fl ck n m upcall worker "is"
  assume s: "s = after (node_run env is
    (node_new (entropy_new j key fl ck n m open_sink open_sink upcall worker open_sink)))"
  show "announced (nd_peer s)"
    using node_announces_stored [of env "is" j key fl ck n m upcall worker]
    unfolding s Let_def by blast
qed

text \<open>C19: a finished put was stored. Take a peer's run from its initial state, errors included, and a
  set \<open>H\<close> of honest nodes, each run from its own initial state under its id. Signatures are
  unforgeable for bytes: a verified \<open>FragmentAvailable\<close> whose key belongs to an honest id has bytes
  that this node's key signed. If the upcall got \<open>PutOk\<close> of a preimage, there are \<open>chunk_n\<close> different
  peer ids such that a \<open>FragmentAvailable\<close> of that id arrived for the preimage's chunk, and either its
  id is not the digest of its key (which the handler lets through, C21), or its signature verified
  and, if the peer is honest, its node asked its file system to store a fragment of the chunk. (An
  honest id is not the length prefix of an array repeated four times, for which a kademlia message
  has the same bytes.)\<close>

theorem entropy_put_quorum:
  fixes nodes :: "peer_id \<Rightarrow> ('k, 'y, 'enc, 'dec) node" and kenv :: "'a kad_env"
  assumes "p0 = entropy_new i key fl ck n m net blob open_sink worker fs"
    and "UpPutOk k \<in> set (sent (et_upcall (after (entropy_run env es p0))))"
    and "\<forall>msg. EvAvailable msg \<in> set es \<longrightarrow> arrays (inner msg)"
    and "\<forall>msg. EvAvailable msg \<in> set es \<and> fa_peer_id (inner msg) \<in> H \<and> \<not> unmatched_id env msg \<and>
      verified_available env msg \<longrightarrow>
      fragment_available_feed env (inner msg) \<in>
        signed_bytes env kenv (fa_peer_id (inner msg)) (nodes (fa_peer_id (inner msg)))"
    and "\<forall>j\<in>H. j \<noteq> concat (replicate 4 length_prefix) \<and> node_of env j (nodes j)"
  shows "\<exists>ps. distinct ps \<and> length ps = n \<and>
    (\<forall>j\<in>set ps. \<exists>msg. EvAvailable msg \<in> set es \<and> fa_peer_id (inner msg) = j \<and>
       fa_chunk (inner msg) = ee_target env k \<and>
       (unmatched_id env msg \<or>
        verified_available env msg \<and>
        (j \<in> H \<longrightarrow> has_stored (nd_peer (nodes j)) (ee_target env k))))"
proof -
  have stored: "has_stored (nd_peer (nodes (fa_peer_id (inner msg)))) (fa_chunk (inner msg))"
    if "EvAvailable msg \<in> set es" "fa_peer_id (inner msg) \<in> H" "\<not> unmatched_id env msg"
      "verified_available env msg" for msg
  proof -
    let ?j = "fa_peer_id (inner msg)"
    let ?p = "nd_peer (nodes ?j)"
    note honest = that(2)
    have signed: "fragment_available_feed env (inner msg) \<in> signed_bytes env kenv ?j (nodes ?j)"
      using assms(4) that by blast
    have "arrays (inner msg)" using assms(3) that(1) by blast
    moreover have "?j \<noteq> concat (replicate 4 length_prefix)" using assms(5) that(2) by blast
    ultimately obtain dest m' where
      sent: "SendAvailable dest m' \<in> set (sent (et_net ?p))" "fa_chunk (inner m') = fa_chunk (inner msg)"
      using signed_bytes_sent [OF signed] by blast
    have "announced ?p" using node_of_announced assms(5) honest by blast
    with sent show ?thesis unfolding announced_def has_stored_def by metis
  qed
  from put_counted [OF assms(1,2)] obtain ps where ps: "distinct ps" "length ps = n"
    "\<forall>j\<in>set ps. \<exists>msg. EvAvailable msg \<in> set es \<and> fa_chunk (inner msg) = ee_target env k \<and>
       fa_peer_id (inner msg) = j \<and> available_counts env msg" by blast
  have "\<exists>msg. EvAvailable msg \<in> set es \<and> fa_peer_id (inner msg) = j \<and>
       fa_chunk (inner msg) = ee_target env k \<and>
       (unmatched_id env msg \<or> verified_available env msg \<and>
        (j \<in> H \<longrightarrow> has_stored (nd_peer (nodes j)) (ee_target env k)))" if "j \<in> set ps" for j
  proof -
    from ps(3) that obtain msg where msg: "EvAvailable msg \<in> set es" "fa_peer_id (inner msg) = j"
      "fa_chunk (inner msg) = ee_target env k" "available_counts env msg" by blast
    from msg(4) have "unmatched_id env msg \<or> verified_available env msg"
      by (auto simp: available_counts_def unmatched_id_def verified_available_def)
    with msg(1-3) stored [OF msg(1)] show ?thesis by (intro exI [of _ msg]) auto
  qed
  with ps(1,2) show ?thesis by blast
qed

text \<open>
  A put of two reports for the sample: an honest node, which was invited, downloaded its fragment,
  stored it and announced it, and another peer with a signature that is not the honest node's.
\<close>

definition id_of :: "u8 \<Rightarrow> peer_id" where
  "id_of x = replicate 32 x"

definition wide_env :: "(nat, half_encoder, half_decoder) entropy_env" where
  "wide_env = half_env\<lparr>ee_target := (\<lambda>k. id_of (of_nat k))\<rparr>"

definition wide_peer :: "u8 \<Rightarrow> (nat, nat, half_encoder, half_decoder) entropy" where
  "wide_peer x =
     entropy_new (id_of x) (id_of x) 2 2 2 3 open_sink open_sink open_sink (Spawn open_sink) open_sink"

definition honest_inputs :: "(nat, nat, half_encoder, half_decoder) node_input list" where
  "honest_inputs =
     [NdEvent (EvInvite 1 \<lparr>iv_chunk = id_of 5, iv_peer_id = id_of 7\<rparr>),
      NdEvent (EvOffer \<lparr>ro_inner = \<lparr>sf_chunk = id_of 5, sf_index = 1, sf_peer_id = Some (id_of 7)\<rparr>,
        ro_serve_internal = Some (0, 1)\<rparr>),
      NdEvent (EvDownloadOk (DownloadOk (id_of 5) 1 [3, 4])), NdFile, NdFs (FsStepStore 0),
      NdFs (FsStepStore 0), NdFs (FsJoinStore 0), NdCall]"

definition honest_node :: "(nat, nat, half_encoder, half_decoder) node" where
  "honest_node = after (node_run wide_env honest_inputs (node_new (wide_peer 8)))"

definition available_of :: "u8 \<Rightarrow> fragment_available peer_verifiable" where
  "available_of x = peer_sign (ee_lib wide_env) (fragment_available_feed wide_env) (id_of x)
     \<lparr>fa_chunk = id_of 5, fa_peer_id = id_of x, fa_peer_key = id_of x\<rparr>"

definition honest_put :: "(nat, nat, half_encoder, half_decoder) entropy_event list" where
  "honest_put =
     [EvPut 5 [1, 2, 3, 4], EvCodec (NewEncoder (id_of 5) ([1, 2, 3, 4], 2)),
      EvAvailable (available_of 8), EvAvailable (available_of 10)]"

lemma honest_put_ok:
  "UpPutOk 5 \<in> set (sent (et_upcall (after (entropy_run wide_env honest_put (wide_peer 7)))))"
  by code_simp

lemma honest_announces:
  "SendAvailable (id_of 7) (available_of 8) \<in> set (sent (et_net (nd_peer honest_node)))"
  by code_simp

definition wide_kad :: "nat kad_env" where
  "wide_kad = \<lparr>ke_lib = plain_lib, ke_key_feed = (\<lambda>k. k), ke_addr_feed = (\<lambda>a. write_usize a)\<rparr>"

lemma available_of_simps:
  "arrays (inner (available_of x))" "fa_peer_id (inner (available_of x)) = id_of x"
  "fa_chunk (inner (available_of x)) = id_of 5" "\<not> unmatched_id wide_env (available_of x)"
  by (simp_all add: arrays_def available_of_def peer_sign_def id_of_def Let_def unmatched_id_def
      sha256_def wide_env_def half_env_def plain_lib_def)

lemma id_of_inject: "id_of x = id_of y \<longleftrightarrow> x = y"
  by (simp add: id_of_def numeral_eq_Suc)

lemma honest_put_events:
  "EvAvailable msg \<in> set honest_put \<longleftrightarrow> msg = available_of 8 \<or> msg = available_of 10"
  by (auto simp: honest_put_def)

theorem entropy_put_quorum_witness:
  "has_stored (nd_peer honest_node) (id_of 5)"
proof -
  let ?env = wide_env and ?H = "{id_of 8}" and ?nodes = "\<lambda>_ :: peer_id. honest_node"
  have arr: "\<forall>msg. EvAvailable msg \<in> set honest_put \<longrightarrow> arrays (inner msg)"
    by (auto simp: honest_put_events available_of_simps)
  have signed: "\<forall>msg. EvAvailable msg \<in> set honest_put \<and> fa_peer_id (inner msg) \<in> ?H \<and>
      \<not> unmatched_id ?env msg \<and> verified_available ?env msg \<longrightarrow>
      fragment_available_feed ?env (inner msg) \<in>
        signed_bytes ?env wide_kad (fa_peer_id (inner msg)) (?nodes (fa_peer_id (inner msg)))"
    unfolding signed_bytes_def using honest_announces available_of_simps(1) [of 8]
    by (auto simp: honest_put_events available_of_simps id_of_inject)
  have "node_of ?env (id_of 8) honest_node"
    unfolding node_of_def honest_node_def wide_peer_def by blast
  moreover have "id_of 8 \<noteq> concat (replicate 4 length_prefix)" by code_simp
  ultimately have honest: "\<forall>j\<in>?H. j \<noteq> concat (replicate 4 length_prefix) \<and> node_of ?env j (?nodes j)"
    by (simp only: ball_simps) simp
  from entropy_put_quorum [OF wide_peer_def honest_put_ok arr signed honest] obtain ps where
    ps: "distinct ps" "length ps = 2" and
    reports: "\<forall>j\<in>set ps. \<exists>msg. EvAvailable msg \<in> set honest_put \<and> fa_peer_id (inner msg) = j \<and>
      fa_chunk (inner msg) = ee_target ?env 5 \<and>
      (unmatched_id ?env msg \<or> verified_available ?env msg \<and>
       (j \<in> ?H \<longrightarrow> has_stored (nd_peer honest_node) (ee_target ?env 5)))" by blast
  have "set ps \<subseteq> {id_of 8, id_of 10}"
    using reports by (auto simp: honest_put_events available_of_simps)
  moreover have "card (set ps) = 2" using ps by (simp add: distinct_card)
  ultimately have "set ps = {id_of 8, id_of 10}"
    by (intro card_subset_eq) (auto simp: id_of_inject)
  with reports have "has_stored (nd_peer honest_node) (ee_target ?env 5)"
    by (auto simp: honest_put_events available_of_simps id_of_inject)
  then show ?thesis by (simp add: wide_env_def)
qed

end
