(* ===== verification/Ycsb.thy ===== *)
theory Ycsb
  imports Complex_Main Apps
begin

text \<open>
  \<open>src/src/app/ycsb.rs\<close>: the YCSB workload.

  \<^item> \<open>rand\<close>, \<open>rand_distr\<close> and \<open>rustc_hash\<close> are libraries: the record \<open>ycsb_lib\<close> holds what is drawn
    from a generator of type \<open>'r\<close> and the hash. A sample of \<open>Zeta\<close> above \<open>u64::MAX\<close> is \<open>None\<close>.
    Proportions are rationals, the literals of the source.
  \<^item> The \<open>Arc\<close> around \<open>InsertState\<close> is shared by the clones of a workload: it is a second component of
    the state, next to the workload.
  \<^item> The two rejection loops may not end: they are partial functions, and what draws is an option of
    an outcome, \<open>None\<close> for a loop that does not end. Between two draws of one loop the insert state is
    taken not to change.
  \<^item> \<open>Instant::now()\<close> is the argument \<open>now\<close>.
\<close>

section \<open>The keys inserted so far\<close>

record insert_state =
  ins_next_num :: usize
  ins_inserted :: "usize \<times> usize list"

definition ins_new :: "usize \<Rightarrow> insert_state" where
  "ins_new record_count = \<lparr>ins_next_num = record_count, ins_inserted = (record_count, [])\<rparr>"

definition take_next_num :: "insert_state \<Rightarrow> usize \<times> insert_state" where
  "take_next_num s = (ins_next_num s, s\<lparr>ins_next_num := (ins_next_num s + 1) mod 2 ^ 64\<rparr>)"

definition next_inserted_num :: "insert_state \<Rightarrow> usize" where
  "next_inserted_num s = fst (ins_inserted s)"

function ack_loop :: "usize \<Rightarrow> usize list \<Rightarrow> usize \<times> usize list" where
  "ack_loop next inserted =
     (if next + 1 \<in> set inserted then ack_loop (next + 1) (removeAll (next + 1) inserted)
      else (next + 1, inserted))"
  by pat_completeness auto
termination
  by (relation "measure (\<lambda>(_, inserted). length inserted)")
    (auto intro: length_removeAll_less)

declare ack_loop.simps [simp del]

definition ack :: "usize \<Rightarrow> insert_state \<Rightarrow> insert_state" where
  "ack n s =
     (case ins_inserted s of (next, inserted) \<Rightarrow>
        if n \<noteq> next then s\<lparr>ins_inserted := (next, List.insert n inserted)\<rparr>
        else s\<lparr>ins_inserted := ack_loop next inserted\<rparr>)"

section \<open>Settings\<close>

datatype settings_distr = DConstant | DUniform | DZipfian | DLatest

record workload_settings =
  ws_record_count :: usize
  ws_operation_count :: "usize option"
  ws_field_length :: usize
  ws_field_length_distr :: settings_distr
  ws_field_count :: usize
  ws_read_proportion :: rat
  ws_update_proportion :: rat
  ws_insert_proportion :: rat
  ws_rmw_proportion :: rat
  ws_scan_proportion :: rat
  ws_max_scan_length :: usize
  ws_scan_length_distr :: settings_distr
  ws_request_distr :: settings_distr
  ws_zero_padding :: usize

definition settings_new :: "usize \<Rightarrow> workload_settings" where
  "settings_new record_count =
     \<lparr>ws_record_count = record_count, ws_operation_count = None, ws_field_length = 100,
      ws_field_length_distr = DConstant, ws_field_count = 10, ws_read_proportion = 95 / 100,
      ws_update_proportion = 5 / 100, ws_insert_proportion = 0, ws_rmw_proportion = 0,
      ws_scan_proportion = 0, ws_max_scan_length = 1000, ws_scan_length_distr = DUniform,
      ws_request_distr = DUniform, ws_zero_padding = 20\<rparr>"

definition settings_new_a :: "usize \<Rightarrow> workload_settings" where
  "settings_new_a record_count =
     (settings_new record_count)\<lparr>ws_read_proportion := 5 / 10, ws_update_proportion := 5 / 10,
       ws_scan_proportion := 0, ws_insert_proportion := 0, ws_request_distr := DZipfian\<rparr>"

definition settings_new_b :: "usize \<Rightarrow> workload_settings" where
  "settings_new_b record_count =
     (settings_new record_count)\<lparr>ws_read_proportion := 95 / 100, ws_update_proportion := 5 / 100,
       ws_scan_proportion := 0, ws_insert_proportion := 0, ws_request_distr := DZipfian\<rparr>"

definition settings_new_c :: "usize \<Rightarrow> workload_settings" where
  "settings_new_c record_count =
     (settings_new record_count)\<lparr>ws_read_proportion := 1, ws_update_proportion := 0,
       ws_scan_proportion := 0, ws_insert_proportion := 0, ws_request_distr := DZipfian\<rparr>"

definition settings_new_d :: "usize \<Rightarrow> workload_settings" where
  "settings_new_d record_count =
     (settings_new record_count)\<lparr>ws_read_proportion := 95 / 100, ws_update_proportion := 0,
       ws_scan_proportion := 0, ws_insert_proportion := 5 / 100, ws_request_distr := DLatest\<rparr>"

definition settings_new_e :: "usize \<Rightarrow> workload_settings" where
  "settings_new_e record_count =
     (settings_new record_count)\<lparr>ws_read_proportion := 0, ws_update_proportion := 0,
       ws_scan_proportion := 95 / 100, ws_insert_proportion := 5 / 100,
       ws_request_distr := DZipfian, ws_max_scan_length := 100,
       ws_scan_length_distr := DUniform\<rparr>"

definition settings_new_f :: "usize \<Rightarrow> workload_settings" where
  "settings_new_f record_count =
     (settings_new record_count)\<lparr>ws_read_proportion := 5 / 10, ws_update_proportion := 0,
       ws_scan_proportion := 0, ws_insert_proportion := 0, ws_rmw_proportion := 5 / 10,
       ws_request_distr := DZipfian\<rparr>"

section \<open>Random numbers\<close>

record ('r, 'w) ycsb_lib =
  yl_uniform :: "usize \<Rightarrow> usize \<Rightarrow> 'r \<Rightarrow> usize \<times> 'r"
  yl_zeta :: "'r \<Rightarrow> u64 option \<times> 'r"
  yl_zipf_new :: "usize \<Rightarrow> error + unit"
  yl_zipf :: "usize \<Rightarrow> 'r \<Rightarrow> usize \<times> 'r"
  yl_weighted_new :: "rat list \<Rightarrow> error + 'w"
  yl_weighted :: "'w \<Rightarrow> 'r \<Rightarrow> usize \<times> 'r"
  yl_gen_range :: "usize \<Rightarrow> usize \<Rightarrow> 'r \<Rightarrow> usize \<times> 'r"
  yl_alphanumeric :: "'r \<Rightarrow> char \<times> 'r"
  yl_hash :: "u64 \<Rightarrow> u64"

datatype gen =
    GConstant usize
  | GUniform usize usize
  | GScrambledZipf usize usize
  | GZipf usize

definition gen_new ::
  "('r, 'w) ycsb_lib \<Rightarrow> settings_distr \<Rightarrow> usize \<Rightarrow> bool \<Rightarrow> error + gen" where
  "gen_new lib distr n scrambled =
     (case distr of
        DConstant \<Rightarrow> Inr (GConstant n)
      | DUniform \<Rightarrow>
          if n \<le> 1 then Inl (Panic ''Uniform::new called with low >= high'') else Inr (GUniform 1 n)
      | DZipfian \<Rightarrow>
          if scrambled then Inr (GScrambledZipf 0 n)
          else (case yl_zipf_new lib n of Inl e \<Rightarrow> Inl e | Inr _ \<Rightarrow> Inr (GZipf n))
      | DLatest \<Rightarrow> Inl (Bail ''unimplemented''))"

partial_function (option) zeta_loop ::
  "('r, 'w) ycsb_lib \<Rightarrow> 'r \<Rightarrow> (u64 \<times> 'r) option" where
  "zeta_loop lib rng =
     (case yl_zeta lib rng of
        (Some r, rng') \<Rightarrow> Some (r, rng')
      | (None, rng') \<Rightarrow> zeta_loop lib rng')"

definition scrambled_zipf ::
  "('r, 'w) ycsb_lib \<Rightarrow> usize \<Rightarrow> usize \<Rightarrow> 'r \<Rightarrow> (usize, 'r) outcome option" where
  "scrambled_zipf lib low item_count rng =
     (case zeta_loop lib rng of
        None \<Rightarrow> None
      | Some (r, rng') \<Rightarrow>
          if item_count = 0 then Some (Err (Panic ''attempt to divide by zero'') rng')
          else Some (Ok (low + unat (yl_hash lib r) mod item_count) rng'))"

fun gen_draw :: "('r, 'w) ycsb_lib \<Rightarrow> gen \<Rightarrow> 'r \<Rightarrow> (usize, 'r) outcome option" where
  "gen_draw lib (GConstant n) rng = Some (Ok n rng)"
| "gen_draw lib (GUniform low high) rng =
     (case yl_uniform lib low high rng of (x, rng') \<Rightarrow> Some (Ok x rng'))"
| "gen_draw lib (GScrambledZipf low item_count) rng = scrambled_zipf lib low item_count rng"
| "gen_draw lib (GZipf n) rng = (case yl_zipf lib n rng of (x, rng') \<Rightarrow> Some (Ok x rng'))"

section \<open>The workload\<close>

datatype transaction = TRead | TUpdate | TInsert | TScan | TReadModifyWrite

record ('r, 'w) ycsb =
  yw_rng :: 'r
  yw_settings :: workload_settings
  yw_insert_key_num :: usize
  yw_field_length :: gen
  yw_key_num :: gen
  yw_scan_len :: gen
  yw_transaction :: 'w
  yw_transaction_count :: usize
  yw_rmw_update :: "ycsb_op option"
  yw_latencies :: "duration list"
  yw_start :: "instant option"

type_synonym ('r, 'w) ycsb_state = "('r, 'w) ycsb \<times> insert_state"

definition ycsb_new ::
  "('r, 'w) ycsb_lib \<Rightarrow> 'r \<Rightarrow> workload_settings \<Rightarrow> error + ('r, 'w) ycsb_state" where
  "ycsb_new lib rng settings =
     (case gen_new lib (ws_field_length_distr settings) (ws_field_length settings) False of
        Inl e \<Rightarrow> Inl e
      | Inr field_length \<Rightarrow>
     (case (if ws_request_distr settings = DLatest
            then gen_new lib DZipfian (ws_record_count settings) False
            else gen_new lib (ws_request_distr settings) (ws_record_count settings) True) of
        Inl e \<Rightarrow> Inl e
      | Inr key_num \<Rightarrow>
     (case gen_new lib (ws_scan_length_distr settings) (ws_max_scan_length settings) False of
        Inl e \<Rightarrow> Inl e
      | Inr scan_len \<Rightarrow>
     (case yl_weighted_new lib [ws_read_proportion settings, ws_update_proportion settings,
             ws_insert_proportion settings, ws_scan_proportion settings,
             ws_rmw_proportion settings] of
        Inl e \<Rightarrow> Inl e
      | Inr transaction \<Rightarrow>
          Inr (\<lparr>yw_rng = rng, yw_settings = settings, yw_insert_key_num = 0,
                yw_field_length = field_length, yw_key_num = key_num, yw_scan_len = scan_len,
                yw_transaction = transaction, yw_transaction_count = 0, yw_rmw_update = None,
                yw_latencies = [], yw_start = None\<rparr>,
               ins_new (ws_record_count settings))))))"

definition transactions :: "transaction list" where
  "transactions = [TRead, TUpdate, TInsert, TScan, TReadModifyWrite]"

definition decimal_string :: "u64 \<Rightarrow> string" where
  "decimal_string w = map (\<lambda>b. char_of (unat b)) (decimal (unat w))"

definition build_key_name ::
  "('r, 'w) ycsb_lib \<Rightarrow> workload_settings \<Rightarrow> usize \<Rightarrow> string" where
  "build_key_name lib settings key_num =
     (let key = decimal_string (yl_hash lib (word_of_nat key_num))
      in ''user'' @ replicate (sub_usize (ws_zero_padding settings) (length key)) CHR ''0'' @ key)"

definition clone_reseed :: "'r \<Rightarrow> ('r, 'w) ycsb_state \<Rightarrow> ('r, 'w) ycsb_state" where
  "clone_reseed rng s = (fst s\<lparr>yw_rng := rng\<rparr>, snd s)"

text \<open>Sequencing of what may not end, and a draw from the workload's generator.\<close>

fun draw_then ::
  "('z, 's) outcome option \<Rightarrow> ('z \<Rightarrow> 's \<Rightarrow> ('y, 's) outcome option) \<Rightarrow> ('y, 's) outcome option" where
  "draw_then None f = None"
| "draw_then (Some (Err e s)) f = Some (Err e s)"
| "draw_then (Some (Ok a s)) f = f a s"

definition with_rng ::
  "('r \<Rightarrow> ('z, 'r) outcome option) \<Rightarrow> ('r, 'w) ycsb_state \<Rightarrow>
   ('z, ('r, 'w) ycsb_state) outcome option" where
  "with_rng f s = map_option (lift_outcome (\<lambda>r. (fst s\<lparr>yw_rng := r\<rparr>, snd s))) (f (yw_rng (fst s)))"

fun draw_chars :: "('r, 'w) ycsb_lib \<Rightarrow> nat \<Rightarrow> 'r \<Rightarrow> string \<times> 'r" where
  "draw_chars lib 0 rng = ([], rng)"
| "draw_chars lib (Suc n) rng =
     (let (c, rng1) = yl_alphanumeric lib rng; (cs, rng2) = draw_chars lib n rng1
      in (c # cs, rng2))"

definition build_value ::
  "('r, 'w) ycsb_lib \<Rightarrow> ('r, 'w) ycsb_state \<Rightarrow> (string, ('r, 'w) ycsb_state) outcome option" where
  "build_value lib s =
     draw_then (with_rng (gen_draw lib (yw_field_length (fst s))) s) (\<lambda>field_len s.
       if field_len = 0 then Some (Err (Panic ''assertion failed: left != right'') s)
       else with_rng (\<lambda>rng. case draw_chars lib field_len rng of (cs, rng') \<Rightarrow> Some (Ok cs rng')) s)"

definition startup_insert ::
  "('r, 'w) ycsb_lib \<Rightarrow> ('r, 'w) ycsb_state \<Rightarrow> (ycsb_op, ('r, 'w) ycsb_state) outcome option" where
  "startup_insert lib s =
     (let key = build_key_name lib (yw_settings (fst s)) (yw_insert_key_num (fst s));
          s1 = (fst s\<lparr>yw_insert_key_num := yw_insert_key_num (fst s) + 1\<rparr>, snd s)
      in draw_then (build_value lib s1) (\<lambda>value s2.
           Some (Ok (Insert key (replicate (ws_field_count (yw_settings (fst s2))) value)) s2)))"

text \<open>\<open>startup_ops\<close>: the iterator run to its end, its operations serialized with \<open>ser\<close>.\<close>

fun startup_take ::
  "('r, 'w) ycsb_lib \<Rightarrow> (ycsb_op \<Rightarrow> error + payload) \<Rightarrow> nat \<Rightarrow> ('r, 'w) ycsb_state \<Rightarrow>
   (payload list, ('r, 'w) ycsb_state) outcome option" where
  "startup_take lib ser 0 s = Some (Ok [] s)"
| "startup_take lib ser (Suc n) s =
     draw_then (startup_insert lib s) (\<lambda>op s1.
       case ser op of
         Inl e \<Rightarrow> Some (Err (Panic ''called Result::unwrap() on an Err value'') s1)
       | Inr p \<Rightarrow> draw_then (startup_take lib ser n s1) (\<lambda>ps s2. Some (Ok (p # ps) s2)))"

definition startup_ops ::
  "('r, 'w) ycsb_lib \<Rightarrow> (ycsb_op \<Rightarrow> error + payload) \<Rightarrow> ('r, 'w) ycsb_state \<Rightarrow>
   (payload list, ('r, 'w) ycsb_state) outcome option" where
  "startup_ops lib ser s = startup_take lib ser (ws_record_count (yw_settings (fst s))) s"

partial_function (option) key_loop ::
  "('r, 'w) ycsb_lib \<Rightarrow> gen \<Rightarrow> usize \<Rightarrow> 'r \<Rightarrow> (usize, 'r) outcome option" where
  "key_loop lib g bound rng =
     (case gen_draw lib g rng of
        None \<Rightarrow> None
      | Some (Err e rng') \<Rightarrow> Some (Err e rng')
      | Some (Ok key_num rng') \<Rightarrow>
          if bound \<le> key_num then key_loop lib g bound rng' else Some (Ok key_num rng'))"

definition choose_key_num ::
  "('r, 'w) ycsb_lib \<Rightarrow> ('r, 'w) ycsb_state \<Rightarrow> (usize, ('r, 'w) ycsb_state) outcome option" where
  "choose_key_num lib s =
     (if ws_request_distr (yw_settings (fst s)) = DLatest then
        draw_then (with_rng (gen_draw lib (yw_key_num (fst s))) s) (\<lambda>n s.
          Some (Ok (sub_usize (next_inserted_num (snd s)) n) s))
      else with_rng (key_loop lib (yw_key_num (fst s)) (next_inserted_num (snd s))) s)"

section \<open>Operations and results\<close>

definition draw_field ::
  "('r, 'w) ycsb_lib \<Rightarrow> transaction \<Rightarrow> ('r, 'w) ycsb_state \<Rightarrow>
   (usize, ('r, 'w) ycsb_state) outcome option" where
  "draw_field lib transaction s =
     (if transaction \<noteq> TInsert \<and> transaction \<noteq> TRead then
        if ws_field_count (yw_settings (fst s)) = 0 then
          Some (Err (Panic ''cannot sample empty range'') s)
        else with_rng (\<lambda>rng.
          case yl_gen_range lib 0 (ws_field_count (yw_settings (fst s))) rng of (x, rng') \<Rightarrow>
            Some (Ok x rng')) s
      else Some (Ok 0 s))"

definition draw_key_num ::
  "('r, 'w) ycsb_lib \<Rightarrow> transaction \<Rightarrow> ('r, 'w) ycsb_state \<Rightarrow>
   (usize, ('r, 'w) ycsb_state) outcome option" where
  "draw_key_num lib transaction s =
     (if transaction = TInsert then
        (case take_next_num (snd s) of (n, ins) \<Rightarrow> Some (Ok n (fst s, ins)))
      else choose_key_num lib s)"

fun transaction_op ::
  "('r, 'w) ycsb_lib \<Rightarrow> transaction \<Rightarrow> string \<Rightarrow> usize \<Rightarrow> ('r, 'w) ycsb_state \<Rightarrow>
   (ycsb_op, ('r, 'w) ycsb_state) outcome option" where
  "transaction_op lib TRead key_name field s = Some (Ok (Read key_name) s)"
| "transaction_op lib TUpdate key_name field s =
     draw_then (build_value lib s) (\<lambda>value s. Some (Ok (Update key_name field value) s))"
| "transaction_op lib TInsert key_name field s =
     draw_then (build_value lib s) (\<lambda>value s.
       Some (Ok (Insert key_name (replicate (ws_field_count (yw_settings (fst s))) value)) s))"
| "transaction_op lib TScan key_name field s =
     draw_then (with_rng (gen_draw lib (yw_scan_len (fst s))) s) (\<lambda>n s.
       Some (Ok (Scan key_name n) s))"
| "transaction_op lib TReadModifyWrite key_name field s =
     draw_then (build_value lib s) (\<lambda>value s.
       Some (Ok (Read key_name)
         (fst s\<lparr>yw_rmw_update := Some (Update key_name field value)\<rparr>, snd s)))"

definition new_transaction ::
  "('r, 'w) ycsb_lib \<Rightarrow> instant \<Rightarrow> ('r, 'w) ycsb_state \<Rightarrow>
   (ycsb_op \<times> usize, ('r, 'w) ycsb_state) outcome option" where
  "new_transaction lib now s =
     (let s1 = (fst s\<lparr>yw_start := Some now\<rparr>, snd s) in
      draw_then (with_rng (\<lambda>rng. case yl_weighted lib (yw_transaction (fst s1)) rng of (x, rng') \<Rightarrow>
          if x < length transactions then Some (Ok (transactions ! x) rng')
          else Some (Err (Panic ''index out of bounds'') rng')) s1) (\<lambda>transaction s2.
      draw_then (draw_field lib transaction s2) (\<lambda>field s3.
      draw_then (draw_key_num lib transaction s3) (\<lambda>key_num s4.
      draw_then (transaction_op lib transaction
          (build_key_name lib (yw_settings (fst s4)) key_num) field s4) (\<lambda>op s5.
        Some (Ok (op, key_num) s5))))))"

fun is_insert :: "ycsb_op \<Rightarrow> bool" where
  "is_insert (Insert _ _) = True"
| "is_insert _ = False"

definition op_payload ::
  "(ycsb_op \<Rightarrow> error + payload) \<Rightarrow> (ycsb_op \<times> usize) option \<Rightarrow> ('r, 'w) ycsb_state \<Rightarrow>
   ((payload \<times> usize option) option, ('r, 'w) ycsb_state) outcome option" where
  "op_payload ser r s =
     (case r of
        None \<Rightarrow> Some (Ok None s)
      | Some (op, key_num) \<Rightarrow>
          (case ser op of
             Inl e \<Rightarrow> Some (Err e s)
           | Inr p \<Rightarrow> Some (Ok (Some (p, if is_insert op then Some key_num else None)) s)))"

definition ycsb_next_op ::
  "('r, 'w) ycsb_lib \<Rightarrow> (ycsb_op \<Rightarrow> error + payload) \<Rightarrow> instant \<Rightarrow> ('r, 'w) ycsb_state \<Rightarrow>
   ((payload \<times> usize option) option, ('r, 'w) ycsb_state) outcome option" where
  "ycsb_next_op lib ser now s =
     draw_then
       (case yw_rmw_update (fst s) of
          Some op \<Rightarrow> Some (Ok (Some (op, 0)) (fst s\<lparr>yw_rmw_update := None\<rparr>, snd s))
        | None \<Rightarrow>
            if Some (yw_transaction_count (fst s)) = ws_operation_count (yw_settings (fst s))
            then Some (Ok None s)
            else draw_then (new_transaction lib now s) (\<lambda>r s. Some (Ok (Some r) s)))
       (op_payload ser)"

definition ycsb_on_result ::
  "(payload \<Rightarrow> error + ycsb_result) \<Rightarrow> instant \<Rightarrow> payload \<Rightarrow> usize option \<Rightarrow>
   ('r, 'w) ycsb_state \<Rightarrow> (unit, ('r, 'w) ycsb_state) outcome" where
  "ycsb_on_result de now result key_num s =
     (case de result of
        Inl e \<Rightarrow> Err e s
      | Inr r \<Rightarrow>
          if r = NotFound then Err (Bail ''expected NotFound'') s
          else
            let s1 = (case key_num of None \<Rightarrow> s | Some n \<Rightarrow> (fst s, ack n (snd s)));
                w = fst s1
            in if yw_rmw_update w = None then
                 (case yw_start w of
                    None \<Rightarrow> Err (Bail ''missing start instant'') s1
                  | Some start \<Rightarrow>
                      Ok () (w\<lparr>yw_start := None, yw_latencies := yw_latencies w @ [now - start]\<rparr>,
                             snd s1))
               else Ok () s1)"

end
