(* ===== verification/Ycsb_Correct.thy ===== *)
theory Ycsb_Correct
  imports Ycsb
begin

text \<open>
  The YCSB workload: which records count as inserted, that a key is chosen among them without a
  second draw, names of keys, latencies, and the operation count that never ends a run.
\<close>

section \<open>Acknowledged insertions\<close>

lemma ack_loop_spec:
  assumes "ack_loop nx l = (nx', l')"
  shows "nx < nx' \<and> nx' \<notin> set l \<and> (\<forall>x. nx < x \<and> x < nx' \<longrightarrow> x \<in> set l) \<and>
    (\<forall>x. nx' < x \<longrightarrow> (x \<in> set l' \<longleftrightarrow> x \<in> set l))"
  using assms
proof (induction "nx" l rule: ack_loop.induct)
  case (1 n l)
  show ?case
  proof (cases "n + 1 \<in> set l")
    case True
    then have "ack_loop (n + 1) (removeAll (n + 1) l) = (nx', l')"
      using "1.prems" by (simp add: ack_loop.simps [of n])
    from "1.IH" [OF True this] True show ?thesis
      by (auto simp: less_Suc_eq) (metis Suc_lessI)
  next
    case False
    then show ?thesis using "1.prems" by (auto simp: ack_loop.simps [of n])
  qed
qed

text \<open>What the state stands for: the set of numbers acknowledged.\<close>

definition ack_rel :: "usize \<Rightarrow> usize set \<Rightarrow> insert_state \<Rightarrow> bool" where
  "ack_rel record_count acked s \<longleftrightarrow>
     (let (nx, l) = ins_inserted s in
      record_count \<le> nx \<and> nx \<notin> acked \<and>
      (\<forall>x. record_count \<le> x \<and> x < nx \<longrightarrow> x \<in> acked) \<and>
      (\<forall>x. nx < x \<longrightarrow> (x \<in> set l \<longleftrightarrow> x \<in> acked)))"

lemma ack_rel_new: "ack_rel record_count {} (ins_new record_count)"
  by (simp add: ack_rel_def ins_new_def)

lemma ack_rel_ack:
  assumes "ack_rel rc acked s"
  shows "ack_rel rc (insert n acked) (ack n s)"
proof -
  obtain nx l where s: "ins_inserted s = (nx, l)" by (cases "ins_inserted s")
  show ?thesis
  proof (cases "n = nx")
    case False
    with assms s show ?thesis by (auto simp: ack_rel_def ack_def)
  next
    case True
    obtain nx' l' where loop: "ack_loop nx l = (nx', l')" by (cases "ack_loop nx l")
    note spec = ack_loop_spec [OF loop]
    have rel: "rc \<le> nx" "nx \<notin> acked" "\<forall>x. rc \<le> x \<and> x < nx \<longrightarrow> x \<in> acked"
      "\<forall>x. nx < x \<longrightarrow> (x \<in> set l \<longleftrightarrow> x \<in> acked)"
      using assms s by (simp_all add: ack_rel_def)
    have "\<forall>x. rc \<le> x \<and> x < nx' \<longrightarrow> x \<in> insert nx acked"
      using rel spec by (metis insert_iff linorder_neqE_nat)
    moreover have "\<forall>x. nx' < x \<longrightarrow> (x \<in> set l' \<longleftrightarrow> x \<in> insert nx acked)"
      using rel spec by auto
    moreover have "nx' \<notin> insert nx acked" "rc \<le> nx'" using rel spec by auto
    ultimately show ?thesis
      using True s loop by (simp add: ack_rel_def ack_def)
  qed
qed

lemma ack_rel_run: "ack_rel rc acked s \<Longrightarrow> ack_rel rc (acked \<union> set ns) (fold ack ns s)"
proof (induction ns arbitrary: acked s)
  case (Cons n ns)
  from Cons.IH [OF ack_rel_ack [OF Cons.prems, of n]] show ?case by simp
qed simp

text \<open>Acknowledgements are counted as a prefix. Whatever insertions are acknowledged, in whatever
  order and however often, \<open>next_inserted_num\<close> is the least number, from the record count on, that
  was not acknowledged: every key below it is in the store, and no acknowledgement is lost.\<close>

theorem ycsb_ack_prefix:
  "next_inserted_num (fold ack ns (ins_new record_count)) =
     (LEAST n. record_count \<le> n \<and> n \<notin> set ns)"
proof -
  have "ack_rel record_count (set ns) (fold ack ns (ins_new record_count))"
    using ack_rel_run [OF ack_rel_new, of record_count ns] by simp
  then show ?thesis
    by (intro Least_equality [symmetric])
      (auto simp: ack_rel_def next_inserted_num_def split: prod.splits intro: leI)
qed

lemma next_inserted_ge: "record_count \<le> next_inserted_num (fold ack ns (ins_new record_count))"
  using ack_rel_run [OF ack_rel_new, of record_count ns]
  by (auto simp: ack_rel_def next_inserted_num_def split: prod.splits)

section \<open>Choosing a key\<close>

lemma key_loop_once:
  assumes "\<And>e rng'. gen_draw lib g rng \<noteq> Some (Err e rng')"
    and "\<And>k rng'. gen_draw lib g rng = Some (Ok k rng') \<Longrightarrow> k < bound"
  shows "key_loop lib g bound rng = gen_draw lib g rng"
  using assms by (subst key_loop.simps) (auto split: option.split outcome.split simp: not_le)

definition uniform_lawful :: "('r, 'w) ycsb_lib \<Rightarrow> bool" where
  "uniform_lawful lib \<longleftrightarrow> (\<forall>low high rng. low < high \<longrightarrow>
     low \<le> fst (yl_uniform lib low high rng) \<and> fst (yl_uniform lib low high rng) < high)"

lemma gen_draw_bounded:
  assumes "uniform_lawful lib" and "gen_new lib distr n True = Inr g" and "distr \<noteq> DConstant"
    and "0 < n" and "gen_draw lib g rng = Some (Ok k rng')"
  shows "k < n"
  using assms
  by (auto simp: gen_new_def scrambled_zipf_def uniform_lawful_def
      split: settings_distr.splits if_splits option.splits prod.splits)
    (metis fst_conv not_less_eq_eq One_nat_def linorder_not_le)

lemma gen_draw_no_panic:
  assumes "gen_new lib distr n True = Inr g" and "0 < n"
  shows "gen_draw lib g rng \<noteq> Some (Err e rng')"
  using assms
  by (auto simp: gen_new_def scrambled_zipf_def
      split: settings_distr.splits if_splits option.splits prod.splits)

lemma key_loop_constant: "bound \<le> n \<Longrightarrow> key_loop lib (GConstant n) bound rng = None"
proof (rule ccontr)
  assume le: "bound \<le> n" and "key_loop lib (GConstant n) bound rng \<noteq> None"
  then obtain y where y: "key_loop lib (GConstant n) bound rng = Some y" by blast
  have "GConstant n = GConstant n \<longrightarrow> bound \<le> n \<longrightarrow> False"
    by (rule key_loop.raw_induct [OF _ y, where P = "\<lambda>lib g bound rng y. g = GConstant n \<longrightarrow> bound \<le> n \<longrightarrow> False"])
      (auto split: if_splits)
  with le show False by simp
qed

text \<open>C23: a key is chosen at the first draw. For a workload made from its settings and whatever
  insertions were acknowledged since: with uniform or Zipfian requests, the loop that rejects keys
  not yet inserted never draws twice, as its comment expects, and the key it returns is one of the
  records loaded at the start; with constant requests, before anything is inserted, it never
  returns.\<close>

theorem ycsb_key_choice:
  assumes "uniform_lawful lib" and "ycsb_new lib rng settings = Inr (w, ins)"
    and "0 < ws_record_count settings" and "ws_request_distr settings \<noteq> DLatest"
    and "s = (w'\<lparr>yw_settings := settings, yw_key_num := yw_key_num w\<rparr>, fold ack ns ins)"
  shows "if ws_request_distr settings = DConstant
    then ns = [] \<longrightarrow> choose_key_num lib s = None
    else choose_key_num lib s = with_rng (gen_draw lib (yw_key_num w)) s \<and>
      (\<forall>k s'. choose_key_num lib s = Some (Ok k s') \<longrightarrow>
        k < ws_record_count settings \<and> k < next_inserted_num (snd s'))"
proof -
  let ?n = "ws_record_count settings" and ?d = "ws_request_distr settings"
  have g: "gen_new lib ?d ?n True = Inr (yw_key_num w)" and ins: "ins = ins_new ?n"
    using assms(2,4) by (auto simp: ycsb_new_def split: sum.splits if_splits)
  have choose: "choose_key_num lib s =
      with_rng (key_loop lib (yw_key_num w) (next_inserted_num (snd s))) s"
    using assms(4,5) by (simp add: choose_key_num_def)
  show ?thesis
  proof (cases "?d = DConstant")
    case True
    have "ns = [] \<Longrightarrow> next_inserted_num (snd s) = ?n"
      using assms(5) ins by (simp add: next_inserted_num_def ins_new_def)
    moreover have "yw_key_num w = GConstant ?n" using True g by (simp add: gen_new_def)
    ultimately show ?thesis
      using True choose key_loop_constant [of ?n ?n lib "yw_rng (fst s)"] by (simp add: with_rng_def)
  next
    case False
    have ge: "?n \<le> next_inserted_num (snd s)" using assms(5) ins next_inserted_ge by simp
    note bounded = gen_draw_bounded [OF assms(1) g False assms(3)]
    have once: "key_loop lib (yw_key_num w) (next_inserted_num (snd s)) =
        gen_draw lib (yw_key_num w)"
    proof (rule ext)
      fix rng
      show "key_loop lib (yw_key_num w) (next_inserted_num (snd s)) rng =
          gen_draw lib (yw_key_num w) rng"
        by (rule key_loop_once)
          (use gen_draw_no_panic [OF g assms(3)] in blast, use bounded ge in \<open>meson less_le_trans\<close>)
    qed
    with choose have eq: "choose_key_num lib s = with_rng (gen_draw lib (yw_key_num w)) s" by simp
    have "k < ?n \<and> k < next_inserted_num (snd s')" if c: "choose_key_num lib s = Some (Ok k s')" for k s'
    proof -
      from c eq obtain r' where "gen_draw lib (yw_key_num w) (yw_rng (fst s)) = Some (Ok k r')"
        and "snd s' = snd s"
        by (auto simp: with_rng_def lift_outcome_Ok_iff)
      with bounded ge show ?thesis by fastforce
    qed
    with False eq show ?thesis by simp
  qed
qed

definition sample_lib :: "(nat, unit) ycsb_lib" where
  "sample_lib =
     \<lparr>yl_uniform = (\<lambda>low high r. (low + r mod (high - low), Suc r)),
      yl_zeta = (\<lambda>r. (Some (word_of_nat r), Suc r)), yl_zipf_new = (\<lambda>n. Inr ()),
      yl_zipf = (\<lambda>n r. (1 + r mod n, Suc r)), yl_weighted_new = (\<lambda>ws. Inr ()),
      yl_weighted = (\<lambda>_ r. (r mod 5, Suc r)), yl_gen_range = (\<lambda>low high r. (low, Suc r)),
      yl_alphanumeric = (\<lambda>r. (CHR ''a'', Suc r)), yl_hash = (\<lambda>x. x)\<rparr>"

definition sample_settings :: workload_settings where
  "sample_settings = (settings_new 10)\<lparr>ws_operation_count := Some 1\<rparr>"

definition sample_ycsb :: "nat \<Rightarrow> (nat, unit) ycsb_state" where
  "sample_ycsb seed = projr (ycsb_new sample_lib seed sample_settings)"

lemma sample_ycsb_new: "ycsb_new sample_lib seed sample_settings = Inr (sample_ycsb seed)"
  by (simp add: sample_ycsb_def ycsb_new_def sample_settings_def settings_new_def gen_new_def
      sample_lib_def)

lemma sample_lawful: "uniform_lawful sample_lib"
  by (auto simp: uniform_lawful_def sample_lib_def) (metis add.commute less_diff_conv mod_less_divisor zero_less_diff)

theorem ycsb_key_choice_witness:
  "\<exists>k s'. choose_key_num sample_lib (sample_ycsb 4) = Some (Ok k s') \<and> k < 10"
proof -
  have new: "ycsb_new sample_lib 4 sample_settings = Inr (fst (sample_ycsb 4), snd (sample_ycsb 4))"
    using sample_ycsb_new by simp
  have "ws_record_count sample_settings = 10" "ws_request_distr sample_settings = DUniform"
    and s: "sample_ycsb 4 = (fst (sample_ycsb 4)\<lparr>yw_settings := sample_settings,
      yw_key_num := yw_key_num (fst (sample_ycsb 4))\<rparr>, fold ack [] (snd (sample_ycsb 4)))"
    by (simp_all add: sample_ycsb_def ycsb_new_def sample_settings_def settings_new_def gen_new_def
        sample_lib_def)
  with ycsb_key_choice [OF sample_lawful new _ _ s]
  have 1: "choose_key_num sample_lib (sample_ycsb 4) =
      with_rng (gen_draw sample_lib (yw_key_num (fst (sample_ycsb 4)))) (sample_ycsb 4)"
    and 2: "\<And>k s'. choose_key_num sample_lib (sample_ycsb 4) = Some (Ok k s') \<Longrightarrow> k < 10"
    by auto
  have "\<exists>k s'. choose_key_num sample_lib (sample_ycsb 4) = Some (Ok k s')"
    unfolding 1 by (simp add: sample_ycsb_def ycsb_new_def sample_settings_def settings_new_def
        gen_new_def sample_lib_def with_rng_def)
  with 2 show ?thesis by blast
qed

section \<open>Names of keys\<close>

definition undecimal :: "u8 list \<Rightarrow> nat" where
  "undecimal ds = foldl (\<lambda>n d. 10 * n + (unat d - 48)) 0 ds"

lemma unat_digit: "d < 10 \<Longrightarrow> unat (nat_digit d) = 48 + d"
  by (simp add: nat_digit_def unat_of_nat del: of_nat_add)

lemma undecimal_decimal: "undecimal (decimal n) = n"
proof (induction n rule: decimal.induct)
  case (1 n)
  show ?case
  proof (cases "n < 10")
    case True
    then show ?thesis by (simp add: decimal.simps [of n] undecimal_def unat_digit)
  next
    case False
    with 1 show ?thesis by (simp add: decimal.simps [of n] undecimal_def unat_digit)
  qed
qed

lemma length_decimal: "n < 10 ^ Suc k \<Longrightarrow> length (decimal n) \<le> Suc k"
proof (induction k arbitrary: n)
  case 0
  then show ?case by (simp add: decimal.simps [of n])
next
  case (Suc k)
  then have "n div 10 < 10 ^ Suc k" by (simp add: less_mult_imp_div_less)
  with Suc.IH [OF this] show ?case by (simp add: decimal.simps [of n])
qed

lemma unat_u8_less: "unat (b :: u8) < 256"
proof -
  have "unat b < 2 ^ LENGTH(8)" by (rule unsigned_less)
  then show ?thesis by simp
qed

definition number_of_name :: "string \<Rightarrow> nat" where
  "number_of_name cs = foldl (\<lambda>n c. 10 * n + (of_char c - 48)) 0 cs"

lemma number_of_decimal: "number_of_name (decimal_string w) = unat w"
proof -
  have "(of_char (char_of (unat b) :: char) :: nat) = unat b" for b :: u8
    using unat_u8_less [of b] by simp
  then have "number_of_name (decimal_string w) = undecimal (decimal (unat w))"
    by (simp add: number_of_name_def decimal_string_def undecimal_def foldl_map)
  then show ?thesis by (simp add: undecimal_decimal)
qed

lemma number_of_padded: "number_of_name (replicate k CHR ''0'' @ cs) = number_of_name cs"
  by (induction k) (simp_all add: number_of_name_def)

lemma length_decimal_string: "length (decimal_string w) \<le> 20"
proof -
  have "unat w < 2 ^ LENGTH(64)" by (rule unsigned_less)
  then have "unat w < 10 ^ Suc 19" by simp
  from length_decimal [OF this] show ?thesis by (simp add: decimal_string_def)
qed

text \<open>Names of keys. With the default padding, or a larger one, the padding never underflows: all
  names have the same length, and the number of a name read back is the hash of the key number, so
  two records have the same name only if their numbers have the same hash.\<close>

theorem ycsb_key_names:
  assumes "20 \<le> ws_zero_padding settings"
  shows "length (build_key_name lib settings n) = 4 + ws_zero_padding settings \<and>
    number_of_name (drop 4 (build_key_name lib settings n)) = unat (yl_hash lib (word_of_nat n)) \<and>
    (build_key_name lib settings n = build_key_name lib settings m \<longleftrightarrow>
      yl_hash lib (word_of_nat n) = yl_hash lib (word_of_nat m))"
proof -
  have len: "length (build_key_name lib settings n) = 4 + ws_zero_padding settings"
    using assms length_decimal_string [of "yl_hash lib (word_of_nat n)"]
    by (simp add: build_key_name_def Let_def)
  have num: "number_of_name (drop 4 (build_key_name lib settings k)) =
      unat (yl_hash lib (word_of_nat k))" for k
    by (simp add: build_key_name_def Let_def number_of_padded number_of_decimal)
  from num [of n] num [of m] have "build_key_name lib settings n = build_key_name lib settings m \<Longrightarrow>
      yl_hash lib (word_of_nat n) = yl_hash lib (word_of_nat m)"
    by (metis word_unat_eq_iff)
  then show ?thesis using len num by (auto simp: build_key_name_def)
qed

theorem ycsb_key_names_witness:
  "length (build_key_name sample_lib sample_settings 7) = 24"
  using ycsb_key_names [of sample_settings sample_lib 7 7]
  by (simp add: sample_settings_def settings_new_def)

section \<open>Steps of the workload\<close>

lemma draw_then_Ok_iff:
  "draw_then m f = Some (Ok b t) \<longleftrightarrow> (\<exists>a s. m = Some (Ok a s) \<and> f a s = Some (Ok b t))"
  by (cases "(m, f)" rule: draw_then.cases) auto

lemma with_rng_Ok_iff:
  "with_rng f s = Some (Ok a t) \<longleftrightarrow>
     (\<exists>r. f (yw_rng (fst s)) = Some (Ok a r) \<and> t = (fst s\<lparr>yw_rng := r\<rparr>, snd s))"
  by (auto simp: with_rng_def lift_outcome_Ok_iff)

text \<open>A draw changes the generator only.\<close>

definition same_ycsb :: "('r, 'w) ycsb_state \<Rightarrow> ('r, 'w) ycsb_state \<Rightarrow> bool" where
  "same_ycsb s t \<longleftrightarrow> yw_settings (fst t) = yw_settings (fst s) \<and>
     yw_transaction_count (fst t) = yw_transaction_count (fst s) \<and>
     yw_latencies (fst t) = yw_latencies (fst s) \<and> yw_start (fst t) = yw_start (fst s)"

definition same_update :: "('r, 'w) ycsb_state \<Rightarrow> ('r, 'w) ycsb_state \<Rightarrow> bool" where
  "same_update s t \<longleftrightarrow> yw_rmw_update (fst t) = yw_rmw_update (fst s)"

lemmas same_defs = same_ycsb_def same_update_def

lemma build_value_Ok:
  "build_value lib s = Some (Ok v t) \<Longrightarrow> same_ycsb s t \<and> same_update s t"
  by (auto simp: build_value_def draw_then_Ok_iff with_rng_Ok_iff same_defs split: if_splits)

lemma draw_field_Ok:
  "draw_field lib tr s = Some (Ok v t) \<Longrightarrow> same_ycsb s t \<and> same_update s t"
  by (auto simp: draw_field_def with_rng_Ok_iff same_defs split: if_splits)

lemma draw_key_num_Ok:
  "draw_key_num lib tr s = Some (Ok v t) \<Longrightarrow> same_ycsb s t \<and> same_update s t"
  by (auto simp: draw_key_num_def choose_key_num_def take_next_num_def draw_then_Ok_iff
      with_rng_Ok_iff same_defs split: if_splits)

lemma transaction_op_Ok:
  "transaction_op lib tr key field s = Some (Ok op t) \<Longrightarrow>
   same_ycsb s t \<and> (same_update s t \<or>
     op = Read key \<and> (\<exists>v. yw_rmw_update (fst t) = Some (Update key field v)))"
  by (cases tr)
    (auto simp: draw_then_Ok_iff with_rng_Ok_iff same_defs dest!: build_value_Ok)

text \<open>A new transaction starts the clock; all else it changes is the generator and the update it may
  leave for the next call.\<close>

lemma new_transaction_Ok:
  assumes "new_transaction lib now s = Some (Ok x t)"
  shows "same_ycsb (fst s\<lparr>yw_start := Some now\<rparr>, snd s) t"
  using assms
  by (auto simp: new_transaction_def Let_def draw_then_Ok_iff with_rng_Ok_iff
      dest!: draw_field_Ok draw_key_num_Ok transaction_op_Ok)
    (auto simp: same_defs)

lemma op_payload_Ok:
  "op_payload ser r s = Some (Ok x t) \<Longrightarrow> t = s \<and> (x = None \<longleftrightarrow> r = None)"
  by (auto simp: op_payload_def split: option.splits sum.splits)

lemma ycsb_next_op_Ok:
  assumes "ycsb_next_op lib ser now s = Some (Ok (Some x) t)"
  shows "if yw_rmw_update (fst s) = None then same_ycsb (fst s\<lparr>yw_start := Some now\<rparr>, snd s) t
    else same_ycsb s t \<and> yw_rmw_update (fst t) = None"
proof (cases "yw_rmw_update (fst s)")
  case None
  obtain y where "new_transaction lib now s = Some (Ok y t)"
    using assms None
    by (auto simp: ycsb_next_op_def draw_then_Ok_iff dest!: op_payload_Ok split: if_splits)
  from new_transaction_Ok [OF this] None show ?thesis by simp
next
  case (Some op)
  with assms have "t = (fst s\<lparr>yw_rmw_update := None\<rparr>, snd s)"
    by (auto simp: ycsb_next_op_def draw_then_Ok_iff dest!: op_payload_Ok)
  with Some show ?thesis by (simp add: same_defs)
qed

lemma ycsb_next_op_None:
  assumes "ycsb_next_op lib ser now s = Some (Ok None t)"
  shows "t = s \<and> yw_rmw_update (fst s) = None \<and>
    ws_operation_count (yw_settings (fst s)) = Some (yw_transaction_count (fst s))"
  using assms
  by (auto simp: ycsb_next_op_def draw_then_Ok_iff dest!: op_payload_Ok
      split: if_splits option.splits)

lemma ycsb_on_result_Ok:
  assumes "ycsb_on_result de now p key s = Ok () t"
  shows "yw_settings (fst t) = yw_settings (fst s) \<and>
    yw_transaction_count (fst t) = yw_transaction_count (fst s)"
  using assms
  by (auto simp: ycsb_on_result_def Let_def split: sum.splits if_splits option.splits)

text \<open>
  One latency per transaction. Between transactions the clock is stopped, and after the read of a
  read-modify-write it runs. From such a state, the next operation and its result, if the operation
  found its record, always succeed and lead to such a state again; the latency of the transaction is
  recorded with its last operation, from the start of its first.
\<close>

definition clock_ok :: "('r, 'w) ycsb_state \<Rightarrow> bool" where
  "clock_ok s \<longleftrightarrow> (yw_start (fst s) = None \<longleftrightarrow> yw_rmw_update (fst s) = None)"

lemma ycsb_round:
  assumes "clock_ok s" and "ycsb_next_op lib ser now s = Some (Ok (Some (p, key)) t)"
    and "de q = Inr r" and "r \<noteq> NotFound"
  shows "\<exists>u. ycsb_on_result de later q key t = Ok () u \<and> clock_ok u \<and>
    yw_latencies (fst u) = yw_latencies (fst s) @
      (if yw_rmw_update (fst u) \<noteq> None then []
       else [later - (case yw_start (fst s) of None \<Rightarrow> now | Some start \<Rightarrow> start)])"
  using ycsb_next_op_Ok [OF assms(2)] assms(1,3,4)
  by (cases t) (auto simp: ycsb_on_result_def clock_ok_def Let_def same_defs split: option.splits if_splits)

inductive ycsb_reach ::
  "('r, 'w) ycsb_lib \<Rightarrow> (ycsb_op \<Rightarrow> error + payload) \<Rightarrow> (payload \<Rightarrow> error + ycsb_result) \<Rightarrow>
   workload_settings \<Rightarrow> ('r, 'w) ycsb_state \<Rightarrow> bool" for lib ser de settings where
  reach_new: "ycsb_new lib rng settings = Inr s \<Longrightarrow> ycsb_reach lib ser de settings s"
| reach_next: "ycsb_reach lib ser de settings s \<Longrightarrow> ycsb_next_op lib ser now s = Some (Ok x t) \<Longrightarrow>
    ycsb_reach lib ser de settings t"
| reach_result: "ycsb_reach lib ser de settings s \<Longrightarrow> ycsb_on_result de now p key s = Ok () t \<Longrightarrow>
    ycsb_reach lib ser de settings t"
| reach_shared: "ycsb_reach lib ser de settings (w, ins) \<Longrightarrow> ycsb_reach lib ser de settings (w, ins')"

lemma ycsb_reach_count:
  "ycsb_reach lib ser de settings s \<Longrightarrow>
   yw_transaction_count (fst s) = 0 \<and> yw_settings (fst s) = settings"
proof (induction rule: ycsb_reach.induct)
  case (reach_new rng s)
  then show ?case by (auto simp: ycsb_new_def split: sum.splits if_splits)
next
  case (reach_next s now x t)
  then show ?case
    by (cases x) (auto dest!: ycsb_next_op_None ycsb_next_op_Ok simp: same_defs split: if_splits)
next
  case (reach_result s now p key t)
  then show ?case by (auto dest!: ycsb_on_result_Ok)
next
  case (reach_shared w ins ins')
  then show ?case by simp
qed

text \<open>The operation count never ends a workload. No operation counts the transactions: in every
  state a workload can reach, whatever the other workloads sharing its keys do, it hands out another
  operation or fails, and with a positive operation count it never reports that it is done; with the
  count 0 it is done at once.\<close>

theorem ycsb_never_stops:
  assumes "ycsb_reach lib ser de settings s"
  shows "ycsb_next_op lib ser now s = Some (Ok None t) \<longrightarrow>
    ws_operation_count settings = Some 0 \<and> t = s"
  using ycsb_reach_count [OF assms] ycsb_next_op_None by fastforce

theorem ycsb_never_stops_witness:
  "ws_operation_count sample_settings = Some 1 \<and>
   ycsb_next_op sample_lib (\<lambda>_. Inr []) 0 (sample_ycsb 4) \<noteq> Some (Ok None (sample_ycsb 4))"
proof -
  have "ycsb_reach sample_lib (\<lambda>_. Inr []) (\<lambda>_. Inr NotFound) sample_settings (sample_ycsb 4)"
    by (rule reach_new [OF sample_ycsb_new])
  from ycsb_never_stops [OF this, of 0 "sample_ycsb 4"] show ?thesis
    by (auto simp: sample_settings_def)
qed

end
