(* ===== verification/Net_Session.thy ===== *)
theory Net_Session
  imports Net Timers Bytes
begin

text \<open>
  \<open>src/src/net/session.rs\<close>: the UDP net, the connection table \<open>Dispatch\<close> with its nets and timer,
  and what the TCP and QUIC protocols put on and take from a stream.

  \<^item> An unbounded channel is an entry of \<open>dp_channels\<close>, what was sent so far and whether the receiver
    is gone; the sender kept in a \<open>Connection\<close> is its number. The task that empties a channel may end
    at any time, which closes it.
  \<^item> The trait \<open>Protocol\<close> is a record of its two functions on a state \<open>'p\<close>, the tasks they spawn.
    \<open>connect\<close> also says whether the receiver it was given is still alive when it returns.
  \<^item> A stream is the bytes that arrive before it ends. \<open>on_buf\<close> is a handler on a state \<open>'s\<close>. \<open>bincode\<close>
    is a library: \<open>ser\<close> and \<open>de\<close> are parameters. A warning that is only logged is not modelled.
\<close>

section \<open>UDP\<close>

text \<open>\<open>recv_session\<close> on the results of \<open>recv_from\<close>; a datagram is cut to the buffer's 65536 bytes.\<close>

fun udp_recv_session ::
  "(bytes \<Rightarrow> 's \<Rightarrow> (unit, 's) outcome) \<Rightarrow> (error + bytes) list \<Rightarrow> 's \<Rightarrow> (unit, 's) outcome" where
  "udp_recv_session on_buf [] s = Ok () s"
| "udp_recv_session on_buf (Inl e # rs) s = Err e s"
| "udp_recv_session on_buf (Inr buf # rs) s =
     and_then (on_buf (take (2 ^ 16) buf) s) (\<lambda>_. udp_recv_session on_buf rs)"

text \<open>\<open>send\<close> spawns a task: it never fails.\<close>

definition udp_send :: "'a \<Rightarrow> bytes \<Rightarrow> ('a \<times> bytes) list \<Rightarrow> (unit, ('a \<times> bytes) list) outcome" where
  "udp_send dest buf tasks = Ok () (tasks @ [(dest, buf)])"

fun iter_send ::
  "('a \<Rightarrow> bytes \<Rightarrow> 'n \<Rightarrow> (unit, 'n) outcome) \<Rightarrow> 'a list \<Rightarrow> bytes \<Rightarrow> 'n \<Rightarrow> (unit, 'n) outcome" where
  "iter_send send [] buf n = Ok () n"
| "iter_send send (a # as) buf n = and_then (send a buf n) (\<lambda>_. iter_send send as buf)"

definition udp_send_all ::
  "'a list \<Rightarrow> bytes \<Rightarrow> ('a \<times> bytes) list \<Rightarrow> (unit, ('a \<times> bytes) list) outcome" where
  "udp_send_all = iter_send udp_send"

section \<open>The connection table\<close>

record connection =
  cn_sender :: nat
  cn_using :: bool

record ('a, 'i, 'p) protocol =
  pc_connect :: "'a \<Rightarrow> nat \<Rightarrow> 'p \<Rightarrow> bool \<times> 'p"
  pc_accept :: "'i \<Rightarrow> nat \<Rightarrow> 'p \<Rightarrow> 'a option \<times> 'p"

record ('a, 'p) dispatch =
  dp_protocol :: 'p
  dp_connections :: "('a, connection) hmap"
  dp_channels :: "bytes sink list"

definition dispatch_new :: "'p \<Rightarrow> ('a, 'p) dispatch" where
  "dispatch_new protocol = \<lparr>dp_protocol = protocol, dp_connections = [], dp_channels = []\<rparr>"

definition on_dispatch_init ::
  "(duration \<Rightarrow> 't \<Rightarrow> (timer_id, 't) outcome) \<Rightarrow> ('a, 'p) dispatch \<times> 't \<Rightarrow>
   (unit, ('a, 'p) dispatch \<times> 't) outcome" where
  "on_dispatch_init set_timer s =
     and_then (lift_outcome (Pair (fst s)) (set_timer 1000 (snd s))) (\<lambda>_. Ok ())"

text \<open>\<open>DispatchNet\<close> hands messages to the table.\<close>

definition dispatch_net_send ::
  "'a \<Rightarrow> bytes \<Rightarrow> ('a \<times> bytes) sink \<Rightarrow> (unit, ('a \<times> bytes) sink) outcome" where
  "dispatch_net_send dest message net = push_sink (dest, message) net"

definition dispatch_net_send_all ::
  "'a list \<Rightarrow> bytes \<Rightarrow> ('a \<times> bytes) sink \<Rightarrow> (unit, ('a \<times> bytes) sink) outcome" where
  "dispatch_net_send_all = iter_send dispatch_net_send"

text \<open>A channel of the protocol's own, with its first message unless the receiver is already gone.\<close>

definition dispatch_connect ::
  "('a, 'i, 'p) protocol \<Rightarrow> 'a \<Rightarrow> bytes \<Rightarrow> ('a, 'p) dispatch \<Rightarrow> ('a, 'p) dispatch" where
  "dispatch_connect pc remote buf d =
     (let k = length (dp_channels d);
          (alive, p) = pc_connect pc remote k (dp_protocol d);
          d1 = d\<lparr>dp_protocol := p\<rparr>
      in if alive then
           d1\<lparr>dp_channels := dp_channels d @ [\<lparr>sent = [buf], closed = False\<rparr>],
              dp_connections :=
                hm_insert remote \<lparr>cn_sender = k, cn_using = True\<rparr> (dp_connections d)\<rparr>
         else d1\<lparr>dp_channels := dp_channels d @ [\<lparr>sent = [], closed = True\<rparr>]\<rparr>)"

definition on_outgoing ::
  "('a, 'i, 'p) protocol \<Rightarrow> 'a \<Rightarrow> bytes \<Rightarrow> ('a, 'p) dispatch \<Rightarrow> (unit, ('a, 'p) dispatch) outcome" where
  "on_outgoing pc remote buf d =
     (case hm_get (dp_connections d) remote of
        Some connection \<Rightarrow>
          let k = cn_sender connection in
          (case push_sink buf (dp_channels d ! k) of
             Ok _ channel \<Rightarrow>
               Ok () (d\<lparr>dp_channels := (dp_channels d)[k := channel],
                        dp_connections := hm_insert remote (connection\<lparr>cn_using := True\<rparr>)
                          (dp_connections d)\<rparr>)
           | Err _ _ \<Rightarrow>
               Ok () (dispatch_connect pc remote buf
                 (d\<lparr>dp_connections := hm_remove remote (dp_connections d)\<rparr>)))
      | None \<Rightarrow> Ok () (dispatch_connect pc remote buf d))"

definition on_incoming ::
  "('a, 'i, 'p) protocol \<Rightarrow> 'i \<Rightarrow> ('a, 'p) dispatch \<Rightarrow> (unit, ('a, 'p) dispatch) outcome" where
  "on_incoming pc event d =
     (let k = length (dp_channels d);
          (remote, p) = pc_accept pc event k (dp_protocol d);
          d1 = d\<lparr>dp_protocol := p, dp_channels := dp_channels d @ [open_sink]\<rparr>
      in case remote of
           None \<Rightarrow> Ok () d1
         | Some remote \<Rightarrow>
             if hm_has (dp_connections d1) remote then Ok () d1
             else Ok () (d1\<lparr>dp_connections :=
               hm_insert remote \<lparr>cn_sender = k, cn_using = True\<rparr> (dp_connections d1)\<rparr>))"

definition on_dispatch_timer :: "('a, 'p) dispatch \<Rightarrow> (unit, ('a, 'p) dispatch) outcome" where
  "on_dispatch_timer d =
     (if dp_connections d = [] then Ok () d
      else Ok () (d\<lparr>dp_connections :=
        map (\<lambda>(remote, connection). (remote, connection\<lparr>cn_using := False\<rparr>))
          (hm_retain (\<lambda>_ connection. cn_using connection \<and>
             \<not> closed (dp_channels d ! cn_sender connection)) (dp_connections d))\<rparr>))"

text \<open>The events of the table, and the end of the task that empties a channel.\<close>

datatype ('a, 'i) dispatch_event =
    Outgoing 'a bytes
  | Incoming 'i
  | DispatchTimer
  | ReceiverGone nat

fun dispatch_on_event ::
  "('a, 'i, 'p) protocol \<Rightarrow> ('a, 'i) dispatch_event \<Rightarrow> ('a, 'p) dispatch \<Rightarrow>
   (unit, ('a, 'p) dispatch) outcome" where
  "dispatch_on_event pc (Outgoing remote buf) d = on_outgoing pc remote buf d"
| "dispatch_on_event pc (Incoming i) d = on_incoming pc i d"
| "dispatch_on_event pc DispatchTimer d = on_dispatch_timer d"
| "dispatch_on_event pc (ReceiverGone k) d =
     Ok () (if k < length (dp_channels d)
            then d\<lparr>dp_channels := (dp_channels d)[k := (dp_channels d ! k)\<lparr>closed := True\<rparr>]\<rparr> else d)"

fun dispatch_run ::
  "('a, 'i, 'p) protocol \<Rightarrow> ('a, 'i) dispatch_event list \<Rightarrow> ('a, 'p) dispatch \<Rightarrow>
   (unit, ('a, 'p) dispatch) outcome" where
  "dispatch_run pc [] d = Ok () d"
| "dispatch_run pc (e # es) d = and_then (dispatch_on_event pc e d) (\<lambda>_. dispatch_run pc es)"

section \<open>TCP\<close>

definition max_buf_len :: nat where
  "max_buf_len = 2 ^ 20"

definition tcp_preamble_len :: nat where
  "tcp_preamble_len = 16"

text \<open>\<open>write_u64\<close> and \<open>read_u64\<close> are big-endian.\<close>

definition be_u64 :: "nat \<Rightarrow> bytes" where
  "be_u64 n = rev (to_le 8 (word_of_nat n :: u64))"

definition of_be_u64 :: "bytes \<Rightarrow> nat" where
  "of_be_u64 bs = unat (from_le (rev bs) :: u64)"

definition tcp_preamble :: "('a option \<Rightarrow> error + bytes) \<Rightarrow> 'a option \<Rightarrow> error + bytes" where
  "tcp_preamble ser addr =
     (case ser addr of
        Inl e \<Rightarrow> Inl e
      | Inr preamble \<Rightarrow>
          if length preamble < tcp_preamble_len then
            Inr (preamble @ replicate (tcp_preamble_len - length preamble) 0)
          else Inl (Panic ''assertion failed: preamble.len() < TCP_PREAMBLE_LEN''))"

text \<open>
  \<open>read_task\<close> on the bytes of a stream that then ends: a header that is cut short ends the task
  without an error, a body that is cut short with one.
\<close>

function read_task ::
  "(bytes \<Rightarrow> 's \<Rightarrow> (unit, 's) outcome) \<Rightarrow> bytes \<Rightarrow> 's \<Rightarrow> (unit, 's) outcome" where
  "read_task on_buf stream s =
     (if length stream < 8 then Ok () s
      else
        let len = of_be_u64 (take 8 stream); rest = drop 8 stream in
        if max_buf_len < len then Err (Bail ''invalid buffer length'') s
        else if length rest < len then Err (Bail ''early eof'') s
        else
          (case on_buf (take len rest) s of
             Err e s' \<Rightarrow> Err e s'
           | Ok _ s' \<Rightarrow> read_task on_buf (drop len rest) s'))"
  by pat_completeness auto
termination
  by (relation "measure (\<lambda>(_, stream, _). length stream)") auto

declare read_task.simps [simp del]

text \<open>\<open>write_task\<close>: what it writes for the buffers it receives.\<close>

definition tcp_frame :: "bytes \<Rightarrow> bytes" where
  "tcp_frame buf = be_u64 (length buf) @ buf"

definition write_task :: "bytes list \<Rightarrow> bytes" where
  "write_task bufs = concat (map tcp_frame bufs)"

text \<open>The tasks spawned by \<open>connect\<close> and \<open>accept\<close>; \<open>connect\<close> sends the preamble first.\<close>

datatype ('a, 'h) tcp_task =
    TcpConnect 'a bytes nat
  | TcpRead 'h "'a option"
  | TcpWrite 'h nat 'a

record ('a, 'h) tcp =
  tcp_bytes :: bytes
  tcp_tasks :: "('a, 'h) tcp_task list"

definition tcp_connect :: "'a \<Rightarrow> nat \<Rightarrow> ('a, 'h) tcp \<Rightarrow> bool \<times> ('a, 'h) tcp" where
  "tcp_connect remote receiver p =
     (True, p\<lparr>tcp_tasks := tcp_tasks p @ [TcpConnect remote (tcp_bytes p) receiver]\<rparr>)"

definition tcp_accept ::
  "'a option \<times> 'h \<Rightarrow> nat \<Rightarrow> ('a, 'h) tcp \<Rightarrow> 'a option \<times> ('a, 'h) tcp" where
  "tcp_accept incoming receiver p =
     (case incoming of (preamble, stream) \<Rightarrow>
        (preamble, p\<lparr>tcp_tasks := tcp_tasks p @ TcpRead stream preamble #
           (case preamble of Some remote \<Rightarrow> [TcpWrite stream receiver remote] | None \<Rightarrow> [])\<rparr>))"

definition tcp_protocol :: "('a, 'a option \<times> 'h, ('a, 'h) tcp) protocol" where
  "tcp_protocol = \<lparr>pc_connect = tcp_connect, pc_accept = tcp_accept\<rparr>"

text \<open>
  The task \<open>connect\<close> spawned, once its connection is there or failed: what it writes first, and the
  tasks it leaves. A failed one drops the receiver.
\<close>

fun tcp_connect_task ::
  "error + 'h \<Rightarrow> ('a, 'h) tcp_task \<Rightarrow> bytes \<times> ('a, 'h) tcp_task list" where
  "tcp_connect_task (Inr stream) (TcpConnect remote preamble receiver) =
     (preamble, [TcpRead stream (Some remote), TcpWrite stream receiver remote])"
| "tcp_connect_task (Inl err) (TcpConnect remote preamble receiver) = ([], [])"
| "tcp_connect_task _ task = ([], [task])"

text \<open>
  One round of \<open>tcp_accept_session\<close>: the preamble read from an accepted stream, with the rest of the
  stream; \<open>None\<close> when the stream is given up.
\<close>

definition tcp_accept_one ::
  "(bytes \<Rightarrow> error + 'a option) \<Rightarrow> bytes \<Rightarrow> ('a option \<times> bytes) option" where
  "tcp_accept_one de stream =
     (if length stream < tcp_preamble_len then None
      else case de (take tcp_preamble_len stream) of
          Inl err \<Rightarrow> None
        | Inr preamble \<Rightarrow> Some (preamble, drop tcp_preamble_len stream))"

fun tcp_accept_session ::
  "(bytes \<Rightarrow> error + 'a option) \<Rightarrow> (error + bytes) list \<Rightarrow> ('a option \<times> bytes) sink \<Rightarrow>
   (unit, ('a option \<times> bytes) sink) outcome" where
  "tcp_accept_session de [] sender = Ok () sender"
| "tcp_accept_session de (Inl e # streams) sender = Err e sender"
| "tcp_accept_session de (Inr stream # streams) sender =
     (case tcp_accept_one de stream of
        None \<Rightarrow> tcp_accept_session de streams sender
      | Some incoming \<Rightarrow>
          and_then (push_sink incoming sender) (\<lambda>_. tcp_accept_session de streams))"

text \<open>\<open>simplex::Tcp\<close>: what one message puts on its own connection.\<close>

definition simplex_stream :: "('a option \<Rightarrow> error + bytes) \<Rightarrow> bytes \<Rightarrow> error + bytes" where
  "simplex_stream ser message =
     (case ser None of
        Inl e \<Rightarrow> Inl e
      | Inr preamble \<Rightarrow>
          Inr (take tcp_preamble_len (preamble @ replicate (tcp_preamble_len - length preamble) 0) @
               be_u64 (length message) @ message))"

section \<open>QUIC\<close>

text \<open>Each message is a stream of its own, read to its end unless it is too long.\<close>

definition quic_read_stream ::
  "(bytes \<Rightarrow> 's \<Rightarrow> (unit, 's) outcome) \<Rightarrow> error + bytes \<Rightarrow> 's \<Rightarrow> (unit, 's) outcome" where
  "quic_read_stream on_buf stream s =
     (case stream of
        Inl e \<Rightarrow> Err e s
      | Inr buf \<Rightarrow> if max_buf_len < length buf then Err (Bail ''stream too long'') s else on_buf buf s)"

datatype ('a, 'c) quic_task =
    QuicConnect 'a nat
  | QuicRead 'c
  | QuicWrite 'c nat

definition quic_connect ::
  "'a \<Rightarrow> nat \<Rightarrow> ('a, 'c) quic_task list \<Rightarrow> bool \<times> ('a, 'c) quic_task list" where
  "quic_connect remote receiver tasks = (True, tasks @ [QuicConnect remote receiver])"

fun quic_connect_task :: "error + 'c \<Rightarrow> ('a, 'c) quic_task \<Rightarrow> ('a, 'c) quic_task list" where
  "quic_connect_task (Inr connection) (QuicConnect remote receiver) =
     [QuicRead connection, QuicWrite connection receiver]"
| "quic_connect_task (Inl err) (QuicConnect remote receiver) = []"
| "quic_connect_task _ task = [task]"

text \<open>\<open>remote_address\<close> and \<open>is_unspecified\<close> are the library's.\<close>

definition quic_accept ::
  "('c \<Rightarrow> 'a) \<Rightarrow> ('a \<Rightarrow> bool) \<Rightarrow> 'c \<Rightarrow> nat \<Rightarrow> ('a, 'c) quic_task list \<Rightarrow>
   'a option \<times> ('a, 'c) quic_task list" where
  "quic_accept remote_address is_unspecified connection receiver tasks =
     (let remote = remote_address connection in
      (if is_unspecified remote then None else Some remote,
       tasks @ [QuicRead connection, QuicWrite connection receiver]))"

definition quic_protocol ::
  "('c \<Rightarrow> 'a) \<Rightarrow> ('a \<Rightarrow> bool) \<Rightarrow> ('a, 'c, ('a, 'c) quic_task list) protocol" where
  "quic_protocol remote_address is_unspecified =
     \<lparr>pc_connect = quic_connect, pc_accept = quic_accept remote_address is_unspecified\<rparr>"

fun quic_accept_session ::
  "(error + 'c) list \<Rightarrow> 'c sink \<Rightarrow> 'c sink" where
  "quic_accept_session [] sender = sender"
| "quic_accept_session (Inl e # conns) sender = quic_accept_session conns sender"
| "quic_accept_session (Inr conn # conns) sender =
     quic_accept_session conns (after (push_sink conn sender))"

end
