(* ===== verification/Net_Session_Correct.thy ===== *)
theory Net_Session_Correct
  imports Net_Session
begin

text \<open>
  The session nets: TCP framing round-trips and never tears a message, the connection table sends each
  message on exactly one channel of its remote, and reclaims idle connections.
\<close>

section \<open>Framing\<close>

fun deliver ::
  "(bytes \<Rightarrow> 's \<Rightarrow> (unit, 's) outcome) \<Rightarrow> bytes list \<Rightarrow> 's \<Rightarrow> (unit, 's) outcome" where
  "deliver on_buf [] s = Ok () s"
| "deliver on_buf (b # bs) s = and_then (on_buf b s) (\<lambda>_. deliver on_buf bs)"

lemma of_be_u64_be_u64: "n < 2 ^ 64 \<Longrightarrow> of_be_u64 (be_u64 n) = n"
  by (simp add: of_be_u64_def be_u64_def from_le_to_le unat_of_nat)

lemma length_be_u64 [simp]: "length (be_u64 n) = 8"
  by (simp add: be_u64_def)

lemma read_task_frame:
  assumes "length buf \<le> max_buf_len"
  shows "read_task on_buf (tcp_frame buf @ rest) s =
    (case on_buf buf s of Err e s' \<Rightarrow> Err e s' | Ok _ s' \<Rightarrow> read_task on_buf rest s')"
  using assms of_be_u64_be_u64 [of "length buf"]
  by (subst read_task.simps) (simp add: tcp_frame_def max_buf_len_def Let_def split: outcome.split)

lemma read_task_Nil: "read_task on_buf [] s = Ok () s"
  by (simp add: read_task.simps)

lemma read_write_task:
  "list_all (\<lambda>b. length b \<le> max_buf_len) bufs \<Longrightarrow>
   read_task on_buf (write_task bufs) s = deliver on_buf bufs s"
proof (induction bufs arbitrary: s)
  case Nil
  then show ?case by (simp add: write_task_def read_task_Nil)
next
  case (Cons b bs)
  then show ?case
    using read_task_frame [of b on_buf "write_task bs" s]
    by (simp add: write_task_def split: outcome.split)
qed

text \<open>A stream that is cut anywhere.\<close>

lemma read_task_cut_frame:
  assumes "n < length (tcp_frame buf)" and "length buf \<le> max_buf_len"
  shows "after (read_task on_buf (take n (tcp_frame buf)) s) = s"
proof (cases "n < 8")
  case True
  then show ?thesis by (simp add: read_task.simps tcp_frame_def)
next
  case False
  with assms(1) have "n - 8 < length buf" by (simp add: tcp_frame_def)
  with False assms of_be_u64_be_u64 [of "length buf"] show ?thesis
    by (subst read_task.simps) (simp add: tcp_frame_def max_buf_len_def Let_def)
qed

definition record_buf :: "bytes \<Rightarrow> bytes list \<Rightarrow> (unit, bytes list) outcome" where
  "record_buf b s = Ok () (s @ [b])"

lemma read_task_cut:
  "list_all (\<lambda>b. length b \<le> max_buf_len) bufs \<Longrightarrow>
   \<exists>k. after (read_task record_buf (take n (write_task bufs)) s) = s @ take k bufs"
proof (induction bufs arbitrary: s n)
  case Nil
  then show ?case by (simp add: write_task_def read_task_Nil)
next
  case (Cons b bs)
  show ?case
  proof (cases "n < length (tcp_frame b)")
    case True
    with read_task_cut_frame [OF True, of record_buf s] Cons.prems show ?thesis
      by (intro exI [of _ 0]) (simp add: write_task_def)
  next
    case False
    then have "take n (write_task (b # bs)) =
        tcp_frame b @ take (n - length (tcp_frame b)) (write_task bs)"
      by (simp add: write_task_def)
    with read_task_frame [of b record_buf "take (n - length (tcp_frame b)) (write_task bs)" s] Cons.prems
    have eq: "read_task record_buf (take n (write_task (b # bs))) s =
        read_task record_buf (take (n - length (tcp_frame b)) (write_task bs)) (s @ [b])"
      by (simp add: record_buf_def)
    from Cons.IH [of "n - length (tcp_frame b)" "s @ [b]"] Cons.prems
    obtain k where "after (read_task record_buf (take (n - length (tcp_frame b)) (write_task bs))
        (s @ [b])) = (s @ [b]) @ take k bs" by auto
    with eq show ?thesis by (intro exI [of _ "Suc k"]) simp
  qed
qed

definition bincode_lawful ::
  "('a option \<Rightarrow> error + bytes) \<Rightarrow> (bytes \<Rightarrow> error + 'a option) \<Rightarrow> bool" where
  "bincode_lawful ser de \<longleftrightarrow> (\<forall>a p rest. ser a = Inr p \<longrightarrow> de (p @ rest) = Inr a)"

text \<open>C24: TCP connections round-trip. Take a serializer whose output its deserializer reads back,
  whatever follows. The stream a peer with address \<open>addr\<close> opens, its preamble and then the frames of
  messages of at most 1 MiB, is accepted under exactly that address, and the reading task hands
  over exactly these messages, in order, until the handler fails; and if the stream breaks after any
  number of bytes, the messages handed over are the first ones, each whole.\<close>

theorem tcp_roundtrip:
  assumes "bincode_lawful ser de" and "tcp_preamble ser addr = Inr preamble"
    and "list_all (\<lambda>b. length b \<le> max_buf_len) bufs"
  shows "tcp_accept_one de (preamble @ write_task bufs) = Some (addr, write_task bufs) \<and>
    read_task on_buf (write_task bufs) s = deliver on_buf bufs s \<and>
    (\<exists>k. after (read_task record_buf (take n (write_task bufs)) []) = take k bufs)"
proof -
  obtain p where p: "ser addr = Inr p" "length p < tcp_preamble_len"
    "preamble = p @ replicate (tcp_preamble_len - length p) 0"
    using assms(2) by (auto simp: tcp_preamble_def split: sum.splits if_splits)
  then have "length preamble = tcp_preamble_len" by simp
  moreover have "de preamble = Inr addr"
    using assms(1) p unfolding bincode_lawful_def by blast
  ultimately have "tcp_accept_one de (preamble @ write_task bufs) = Some (addr, write_task bufs)"
    by (simp add: tcp_accept_one_def)
  with read_write_task [OF assms(3)] read_task_cut [OF assms(3), of n "[]"] show ?thesis by auto
qed

definition toy_ser :: "u8 option \<Rightarrow> error + bytes" where
  "toy_ser a = Inr (case a of None \<Rightarrow> [0] | Some x \<Rightarrow> [1, x])"

definition toy_de :: "bytes \<Rightarrow> error + u8 option" where
  "toy_de bs = (case bs of
     [] \<Rightarrow> Inl (Bail ''eof'')
   | b # rest \<Rightarrow>
       if b = 0 then Inr None
       else (case rest of [] \<Rightarrow> Inl (Bail ''eof'') | x # _ \<Rightarrow> Inr (Some x)))"

lemma toy_lawful: "bincode_lawful toy_ser toy_de"
  by (auto simp: bincode_lawful_def toy_ser_def toy_de_def split: option.splits)

theorem tcp_roundtrip_witness:
  "tcp_accept_one toy_de (([1, 9] @ replicate 14 0) @ write_task [[5, 6], []]) =
     Some (Some 9, write_task [[5, 6], []]) \<and>
   read_task record_buf (write_task [[5, 6], []]) [] = Ok () [[5, 6], []]"
proof -
  have "tcp_preamble toy_ser (Some 9) = Inr ([1, 9] @ replicate 14 0)"
    by (simp add: tcp_preamble_def toy_ser_def tcp_preamble_len_def)
  from tcp_roundtrip [OF toy_lawful this, of "[[5, 6], []]" record_buf "[]"] show ?thesis
    by (simp add: max_buf_len_def record_buf_def)
qed

text \<open>
  A message longer than 1 MiB is written like any other, but ends the reading task: it and
  everything after it is lost, without an error on the sending side.
\<close>

lemma oversized_ends_reading:
  assumes "max_buf_len < length buf" and "length buf < 2 ^ 64"
  shows "read_task on_buf (tcp_frame buf @ rest) s = Err (Bail ''invalid buffer length'') s"
  using assms of_be_u64_be_u64 [of "length buf"]
  by (subst read_task.simps) (simp add: tcp_frame_def Let_def)

section \<open>The connection table\<close>

definition dispatch_inv :: "('a, 'p) dispatch \<Rightarrow> bool" where
  "dispatch_inv d \<longleftrightarrow> hm_wf (dp_connections d) \<and>
     (\<forall>r c. hm_get (dp_connections d) r = Some c \<longrightarrow> cn_sender c < length (dp_channels d)) \<and>
     (\<forall>r c r' c'. hm_get (dp_connections d) r = Some c \<longrightarrow>
        hm_get (dp_connections d) r' = Some c' \<longrightarrow> r \<noteq> r' \<longrightarrow> cn_sender c \<noteq> cn_sender c')"

lemma dispatch_inv_new: "dispatch_inv (dispatch_new p)"
  by (simp add: dispatch_inv_def dispatch_new_def)

lemma dispatch_inv_parts:
  assumes "dispatch_inv d"
  shows "hm_wf (dp_connections d)"
    and "hm_get (dp_connections d) r = Some c \<Longrightarrow> cn_sender c < length (dp_channels d)"
    and "hm_get (dp_connections d) r = Some c \<Longrightarrow> hm_get (dp_connections d) r' = Some c' \<Longrightarrow> r \<noteq> r' \<Longrightarrow>
      cn_sender c \<noteq> cn_sender c'"
  using assms unfolding dispatch_inv_def by blast+

lemma dispatch_inv_fewer:
  assumes "dispatch_inv d" and "length (dp_channels d) \<le> length (dp_channels d')"
    and "hm_wf (dp_connections d')"
    and "\<And>r c'. hm_get (dp_connections d') r = Some c' \<Longrightarrow>
      \<exists>c. hm_get (dp_connections d) r = Some c \<and> cn_sender c = cn_sender c'"
  shows "dispatch_inv d'"
  unfolding dispatch_inv_def
proof (intro conjI allI impI)
  show "hm_wf (dp_connections d')" by (rule assms(3))
next
  fix r c
  assume "hm_get (dp_connections d') r = Some c"
  from assms(4) [OF this] dispatch_inv_parts(2) [OF assms(1)] assms(2)
  show "cn_sender c < length (dp_channels d')" by fastforce
next
  fix r c r' c'
  assume "hm_get (dp_connections d') r = Some c" "hm_get (dp_connections d') r' = Some c'" "r \<noteq> r'"
  with assms(4) dispatch_inv_parts(3) [OF assms(1)] show "cn_sender c \<noteq> cn_sender c'" by metis
qed

lemma dispatch_inv_fresh:
  assumes inv: "dispatch_inv d" and "length (dp_channels d') = Suc (length (dp_channels d))"
    and conns: "dp_connections d' =
      hm_insert r \<lparr>cn_sender = length (dp_channels d), cn_using = u\<rparr> (dp_connections d)"
  shows "dispatch_inv d'"
  unfolding dispatch_inv_def
proof (intro conjI allI impI)
  show "hm_wf (dp_connections d')" using dispatch_inv_parts(1) [OF inv] conns by simp
next
  fix x c
  assume "hm_get (dp_connections d') x = Some c"
  with conns assms(2) dispatch_inv_parts(2) [OF inv] show "cn_sender c < length (dp_channels d')"
    by (fastforce split: if_splits)
next
  fix x c x' c'
  assume "hm_get (dp_connections d') x = Some c" "hm_get (dp_connections d') x' = Some c'" "x \<noteq> x'"
  with conns dispatch_inv_parts(2,3) [OF inv] show "cn_sender c \<noteq> cn_sender c'"
    by (fastforce split: if_splits)
qed

lemma dispatch_inv_connect:
  assumes "dispatch_inv d"
  shows "dispatch_inv (dispatch_connect pc remote buf d)"
proof (cases "fst (pc_connect pc remote (length (dp_channels d)) (dp_protocol d))")
  case True
  then show ?thesis
    by (intro dispatch_inv_fresh [OF assms, where r = remote and u = True])
      (simp_all add: dispatch_connect_def Let_def split_beta)
next
  case False
  then show ?thesis
    by (intro dispatch_inv_fewer [OF assms])
      (simp_all add: dispatch_connect_def Let_def split_beta dispatch_inv_parts(1) [OF assms])
qed

lemma dispatch_inv_remove:
  "dispatch_inv d \<Longrightarrow> dispatch_inv (d\<lparr>dp_connections := hm_remove r (dp_connections d)\<rparr>)"
  by (rule dispatch_inv_fewer) (auto simp: dispatch_inv_parts(1) split: if_splits)

lemma hm_get_map_values:
  "hm_get (map (\<lambda>(k, v). (k, f v)) m) k = map_option f (hm_get m k)"
  by (induction m) auto

lemma hm_wf_map_values: "hm_wf (map (\<lambda>(k, v). (k, f v)) m) = hm_wf m"
  by (simp add: hm_wf_def comp_def split_beta)

lemma dispatch_inv_event:
  assumes inv: "dispatch_inv d"
  shows "dispatch_inv (after (dispatch_on_event pc e d))"
proof (cases e)
  case (Outgoing remote buf)
  show ?thesis
  proof (cases "hm_get (dp_connections d) remote")
    case None
    with Outgoing dispatch_inv_connect [OF inv] show ?thesis by (simp add: on_outgoing_def)
  next
    case (Some c)
    show ?thesis
    proof (cases "closed (dp_channels d ! cn_sender c)")
      case True
      with Some Outgoing dispatch_inv_connect [OF dispatch_inv_remove [OF inv]] show ?thesis
        by (simp add: on_outgoing_def Let_def)
    next
      case False
      with Some Outgoing dispatch_inv_parts(1) [OF inv] show ?thesis
        by (intro dispatch_inv_fewer [OF inv]) (auto simp: on_outgoing_def Let_def split: if_splits)
    qed
  qed
next
  case (Incoming i)
  obtain r p where acc: "pc_accept pc i (length (dp_channels d)) (dp_protocol d) = (r, p)"
    by (cases "pc_accept pc i (length (dp_channels d)) (dp_protocol d)")
  show ?thesis
  proof (cases "\<exists>x. r = Some x \<and> \<not> hm_has (dp_connections d) x")
    case True
    then obtain x where "r = Some x" "\<not> hm_has (dp_connections d) x" by blast
    with acc Incoming show ?thesis
      by (intro dispatch_inv_fresh [OF inv, where r = x and u = True])
        (simp_all add: on_incoming_def Let_def)
  next
    case False
    with acc Incoming dispatch_inv_parts(1) [OF inv] show ?thesis
      by (intro dispatch_inv_fewer [OF inv])
        (auto simp: on_incoming_def Let_def split: option.splits)
  qed
next
  case DispatchTimer
  with dispatch_inv_parts(1) [OF inv] show ?thesis
    by (intro dispatch_inv_fewer [OF inv])
      (auto simp: on_dispatch_timer_def hm_get_map_values hm_wf_map_values hm_get_retain
        split: option.splits if_splits)
next
  case (ReceiverGone k)
  with dispatch_inv_parts(1) [OF inv] show ?thesis
    by (intro dispatch_inv_fewer [OF inv]) (auto split: if_splits)
qed

lemma dispatch_inv_run: "dispatch_inv d \<Longrightarrow> dispatch_inv (after (dispatch_run pc es d))"
proof (induction es arbitrary: d)
  case (Cons e es)
  from dispatch_inv_event [OF Cons.prems, of pc e] Cons.IH show ?case
    by (cases "dispatch_on_event pc e d") simp_all
qed simp

definition chan :: "('a, 'p) dispatch \<Rightarrow> nat \<Rightarrow> bytes list" where
  "chan d k = (if k < length (dp_channels d) then sent (dp_channels d ! k) else [])"

text \<open>No other channel changed, and no other remote's connection has this one.\<close>

definition same_channels_but :: "nat \<Rightarrow> ('a, 'p) dispatch \<Rightarrow> ('a, 'p) dispatch \<Rightarrow> bool" where
  "same_channels_but k d d' \<longleftrightarrow> (\<forall>j. j \<noteq> k \<longrightarrow> chan d' j = chan d j)"

definition owned_by :: "'a \<Rightarrow> nat \<Rightarrow> ('a, 'p) dispatch \<Rightarrow> bool" where
  "owned_by remote k d \<longleftrightarrow>
     hm_get (dp_connections d) remote = Some \<lparr>cn_sender = k, cn_using = True\<rparr> \<and>
     (\<forall>r c. r \<noteq> remote \<longrightarrow> hm_get (dp_connections d) r = Some c \<longrightarrow> cn_sender c \<noteq> k)"

text \<open>The channel of a remote whose task is there to empty it.\<close>

definition live_channel :: "'a \<Rightarrow> ('a, 'p) dispatch \<Rightarrow> nat option" where
  "live_channel remote d =
     (case hm_get (dp_connections d) remote of
        Some c \<Rightarrow> if closed (dp_channels d ! cn_sender c) then None else Some (cn_sender c)
      | None \<Rightarrow> None)"

text \<open>
  What a message to \<open>remote\<close> does: it goes to the end of the live channel; without one, the protocol
  is told to connect with a new channel, and the message is the first of that channel and the
  connection the remote's, or the new channel is dead already.
\<close>

definition delivered ::
  "('a, 'i, 'p) protocol \<Rightarrow> 'a \<Rightarrow> bytes \<Rightarrow> ('a, 'p) dispatch \<Rightarrow> ('a, 'p) dispatch \<Rightarrow> bool" where
  "delivered pc remote buf d d' \<longleftrightarrow>
     (case live_channel remote d of
        Some k \<Rightarrow> same_channels_but k d d' \<and> chan d' k = chan d k @ [buf] \<and>
          owned_by remote k d' \<and> dp_protocol d' = dp_protocol d
      | None \<Rightarrow>
          let k = length (dp_channels d); connected = pc_connect pc remote k (dp_protocol d) in
          same_channels_but k d d' \<and> dp_protocol d' = snd connected \<and>
          (if fst connected then chan d' k = [buf] \<and> owned_by remote k d'
           else chan d' k = [] \<and> hm_get (dp_connections d') remote = None))"

lemma owned_byI:
  assumes "dispatch_inv d"
    and "hm_get (dp_connections d) remote = Some \<lparr>cn_sender = k, cn_using = True\<rparr>"
  shows "owned_by remote k d"
  using assms dispatch_inv_parts(3) [OF assms(1) _ assms(2)] by (fastforce simp: owned_by_def)

lemma dispatch_connect_chan:
  fixes pc :: "('a, 'i, 'p) protocol" and buf :: bytes and d :: "('a, 'p) dispatch" and remote :: 'a
  assumes inv: "dispatch_inv d" and "hm_get (dp_connections d) remote = None"
  defines "d' \<equiv> dispatch_connect pc remote buf d" and "k \<equiv> length (dp_channels d)"
  defines "connected \<equiv> pc_connect pc remote k (dp_protocol d)"
  shows "same_channels_but k d d'" "dp_protocol d' = snd connected"
    "if fst connected then chan d' k = [buf] \<and> owned_by remote k d'
     else chan d' k = [] \<and> hm_get (dp_connections d') remote = None"
proof -
  show "same_channels_but k d d'" "dp_protocol d' = snd connected"
    using assms(2)
    by (simp_all add: d'_def k_def connected_def same_channels_but_def dispatch_connect_def chan_def
        Let_def split_beta nth_append)
  have "chan d' k = (if fst connected then [buf] else [])"
    "hm_get (dp_connections d') remote =
       (if fst connected then Some \<lparr>cn_sender = k, cn_using = True\<rparr> else None)"
    using assms(2)
    by (simp_all add: d'_def k_def connected_def dispatch_connect_def chan_def Let_def split_beta)
  with owned_byI [OF dispatch_inv_connect [OF inv], of pc remote buf remote k]
  show "if fst connected then chan d' k = [buf] \<and> owned_by remote k d'
     else chan d' k = [] \<and> hm_get (dp_connections d') remote = None"
    by (auto simp: d'_def)
qed

lemma outgoing_delivered:
  assumes inv: "dispatch_inv d"
  shows "\<exists>d'. on_outgoing pc remote buf d = Ok () d' \<and> delivered pc remote buf d d'"
proof -
  let ?q = "d\<lparr>dp_connections := hm_remove remote (dp_connections d)\<rparr>"
  have q: "hm_get (dp_connections ?q) remote = None" "dispatch_inv ?q" "dp_channels ?q = dp_channels d"
    "dp_protocol ?q = dp_protocol d" "\<And>j. chan ?q j = chan d j"
    using dispatch_inv_remove [OF inv] by (simp_all add: chan_def)
  show ?thesis
  proof (cases "hm_get (dp_connections d) remote")
    case None
    have "on_outgoing pc remote buf d = Ok () (dispatch_connect pc remote buf d)"
      using None by (simp add: on_outgoing_def)
    moreover note dispatch_connect_chan [OF inv None, of pc buf]
    ultimately show ?thesis
      using None by (simp add: delivered_def live_channel_def Let_def)
  next
    case (Some c)
    show ?thesis
    proof (cases "closed (dp_channels d ! cn_sender c)")
      case True
      have "on_outgoing pc remote buf d = Ok () (dispatch_connect pc remote buf ?q)"
        using True Some by (simp add: on_outgoing_def Let_def)
      moreover note dispatch_connect_chan [OF q(2,1), of pc buf]
      ultimately show ?thesis
        using True Some q(3-5)
        by (simp add: delivered_def live_channel_def Let_def same_channels_but_def cong: if_cong)
    next
      case False
      let ?k = "cn_sender c"
      let ?d = "after (on_outgoing pc remote buf d)"
      have k: "?k < length (dp_channels d)" by (rule dispatch_inv_parts(2) [OF inv Some])
      have "dispatch_inv ?d" using dispatch_inv_event [OF inv, of pc "Outgoing remote buf"] by simp
      with False Some k show ?thesis
        by (auto simp: delivered_def live_channel_def on_outgoing_def Let_def same_channels_but_def
            chan_def intro: owned_byI)
    qed
  qed
qed

lemma delivered_uses:
  "delivered pc remote buf d d' \<Longrightarrow> hm_get (dp_connections d') remote = Some c \<Longrightarrow> cn_using c"
  by (auto simp: delivered_def owned_by_def Let_def split: option.splits if_splits)

text \<open>C25: one message, one channel. In any state the table's events lead to, a message to send never
  fails and is never dropped while it can be sent. If the remote has a connection whose channel is
  still emptied, the message goes to the end of that channel. Otherwise the protocol is told to
  connect, with a new channel: if its receiver is alive when the call returns, the message is the
  first of that channel, which becomes the remote's connection; only if it is dead at once the
  message is lost, and the remote has no connection. No other channel changes, and no other
  remote's connection shares the message's channel.\<close>

theorem dispatch_one_channel:
  "let d = after (dispatch_run pc es (dispatch_new p)) in
   case on_outgoing pc remote buf d of
     Err _ _ \<Rightarrow> False
   | Ok _ d' \<Rightarrow> delivered pc remote buf d d'"
proof -
  have "dispatch_inv (after (dispatch_run pc es (dispatch_new p)))"
    by (rule dispatch_inv_run [OF dispatch_inv_new])
  from outgoing_delivered [OF this, of pc remote buf] show ?thesis by (auto simp: Let_def)
qed

definition counting_protocol :: "(nat, nat, nat list) protocol" where
  "counting_protocol =
     \<lparr>pc_connect = (\<lambda>remote k dialled. (remote \<noteq> 0, dialled @ [remote])),
      pc_accept = (\<lambda>i k dialled. (Some i, dialled))\<rparr>"

theorem dispatch_one_channel_witness:
  "(case on_outgoing counting_protocol 7 [3] (dispatch_new []) of
      Err _ _ \<Rightarrow> False
    | Ok _ d \<Rightarrow> chan d 0 = [[3]] \<and> owned_by 7 0 d \<and> dp_protocol d = [7]) \<and>
   (case on_outgoing counting_protocol 7 [4]
        (after (dispatch_run counting_protocol [Outgoing 7 [3]] (dispatch_new []))) of
      Err _ _ \<Rightarrow> False
    | Ok _ d \<Rightarrow> chan d 0 = [[3], [4]] \<and> owned_by 7 0 d \<and> dp_protocol d = [7])"
proof
  have "live_channel 7 (dispatch_new [] :: (nat, nat list) dispatch) = None"
    by (simp add: live_channel_def dispatch_new_def)
  with dispatch_one_channel [of counting_protocol "[]" "[]" 7 "[3]"]
  show "case on_outgoing counting_protocol 7 [3] (dispatch_new []) of
      Err _ _ \<Rightarrow> False
    | Ok _ d \<Rightarrow> chan d 0 = [[3]] \<and> owned_by 7 0 d \<and> dp_protocol d = [7]"
    by (auto simp: delivered_def counting_protocol_def dispatch_new_def Let_def
        split: outcome.splits)
  let ?d = "after (dispatch_run counting_protocol [Outgoing 7 [3]] (dispatch_new []))"
  have "live_channel 7 ?d = Some 0" "chan ?d 0 = [[3]]" "dp_protocol ?d = [7]" by code_simp+
  with dispatch_one_channel [of counting_protocol "[Outgoing 7 [3]]" "[]" 7 "[4]"]
  show "case on_outgoing counting_protocol 7 [4] ?d of
      Err _ _ \<Rightarrow> False
    | Ok _ d \<Rightarrow> chan d 0 = [[3], [4]] \<and> owned_by 7 0 d \<and> dp_protocol d = [7]"
    by (auto simp: delivered_def Let_def split: outcome.splits)
qed

section \<open>Reclaiming\<close>

text \<open>Events that bring no traffic of a remote.\<close>

fun quiet :: "'a \<Rightarrow> ('a, 'i) dispatch_event \<Rightarrow> bool" where
  "quiet remote (Outgoing r buf) = (r \<noteq> remote)"
| "quiet remote (Incoming i) = False"
| "quiet remote _ = True"

definition idle :: "'a \<Rightarrow> ('a, 'p) dispatch \<Rightarrow> bool" where
  "idle remote d \<longleftrightarrow> (\<forall>c. hm_get (dp_connections d) remote = Some c \<longrightarrow> \<not> cn_using c)"

lemma idle_event:
  assumes "idle remote d" and "quiet remote e" and "hm_wf (dp_connections d)"
  shows "idle remote (after (dispatch_on_event pc e d))"
  using assms
  by (cases e) (auto simp: idle_def on_outgoing_def dispatch_connect_def on_dispatch_timer_def Let_def
      split_beta hm_get_map_values hm_get_retain split: option.splits if_splits outcome.splits)

lemma idle_run:
  "idle remote d \<Longrightarrow> list_all (quiet remote) es \<Longrightarrow> dispatch_inv d \<Longrightarrow>
   idle remote (after (dispatch_run pc es d))"
proof (induction es arbitrary: d)
  case (Cons e es)
  from idle_event [OF Cons.prems(1) _ dispatch_inv_parts(1) [OF Cons.prems(3)], of e pc]
    dispatch_inv_event [OF Cons.prems(3), of pc e] Cons.prems(2) Cons.IH
  show ?case by (cases "dispatch_on_event pc e d") simp_all
qed simp

lemma timer_idle:
  "hm_wf (dp_connections d) \<Longrightarrow> idle remote (after (on_dispatch_timer d))"
  by (auto simp: idle_def on_dispatch_timer_def hm_get_map_values hm_get_retain
      split: option.splits if_splits)

lemma timer_reclaims:
  "idle remote d \<Longrightarrow> hm_wf (dp_connections d) \<Longrightarrow>
   hm_get (dp_connections (after (on_dispatch_timer d))) remote = None"
  by (auto simp: idle_def on_dispatch_timer_def hm_get_map_values hm_get_retain
      split: option.splits if_splits)

lemma timer_keeps:
  assumes "hm_get (dp_connections d) remote = Some c" and "cn_using c"
    and "\<not> closed (dp_channels d ! cn_sender c)" and "hm_wf (dp_connections d)"
  shows "hm_get (dp_connections (after (on_dispatch_timer d))) remote = Some (c\<lparr>cn_using := False\<rparr>)"
  using assms
  by (auto simp: on_dispatch_timer_def hm_get_map_values hm_get_retain
      split: option.splits if_splits)

text \<open>Idle connections are reclaimed, busy ones are not. In any state of the table: a remote that
  gets no message between two ticks of the timer has no connection after the second; and a message
  that was put on a channel which stays open keeps its remote's connection through the next tick.\<close>

theorem dispatch_reclaims:
  assumes "d = after (dispatch_run pc es (dispatch_new p))"
  shows "(list_all (quiet remote) quiet_es \<longrightarrow>
      hm_get (dp_connections (after (on_dispatch_timer
        (after (dispatch_run pc quiet_es (after (on_dispatch_timer d))))))) remote = None) \<and>
    (on_outgoing pc remote buf d = Ok () d' \<longrightarrow>
      (case hm_get (dp_connections d') remote of
         Some c \<Rightarrow> closed (dp_channels d' ! cn_sender c) \<or>
           hm_get (dp_connections (after (on_dispatch_timer d'))) remote = Some (c\<lparr>cn_using := False\<rparr>)
       | None \<Rightarrow> True))"
proof (intro conjI impI)
  have inv: "dispatch_inv d" unfolding assms by (rule dispatch_inv_run [OF dispatch_inv_new])
  {
    assume quiet: "list_all (quiet remote) quiet_es"
    have tick: "dispatch_inv (after (on_dispatch_timer d))"
      using dispatch_inv_event [OF inv, of pc DispatchTimer] by simp
    have "idle remote (after (dispatch_run pc quiet_es (after (on_dispatch_timer d))))"
      by (rule idle_run [OF timer_idle quiet tick]) (rule dispatch_inv_parts(1) [OF inv])
    then show "hm_get (dp_connections (after (on_dispatch_timer
        (after (dispatch_run pc quiet_es (after (on_dispatch_timer d))))))) remote = None"
      by (rule timer_reclaims) (rule dispatch_inv_parts(1) [OF dispatch_inv_run [OF tick]])
  }
  {
    assume out: "on_outgoing pc remote buf d = Ok () d'"
    have wf: "hm_wf (dp_connections d')"
      using dispatch_inv_parts(1) [OF dispatch_inv_event [OF inv, of pc "Outgoing remote buf"]] out
      by simp
    from outgoing_delivered [OF inv, of pc remote buf] out
    have "hm_get (dp_connections d') remote = Some c \<Longrightarrow> cn_using c" for c
      by (auto simp: delivered_uses)
    with timer_keeps [OF _ _ _ wf] show "case hm_get (dp_connections d') remote of
         Some c \<Rightarrow> closed (dp_channels d' ! cn_sender c) \<or>
           hm_get (dp_connections (after (on_dispatch_timer d'))) remote = Some (c\<lparr>cn_using := False\<rparr>)
       | None \<Rightarrow> True"
      by (auto split: option.split)
  }
qed

definition sample_dispatch :: "(nat, (nat, nat) tcp) dispatch" where
  "sample_dispatch = after (dispatch_run tcp_protocol [Outgoing 4 [1], Outgoing 5 [2]]
     (dispatch_new \<lparr>tcp_bytes = [], tcp_tasks = []\<rparr>))"

theorem dispatch_reclaims_witness:
  "hm_get (dp_connections sample_dispatch) 4 \<noteq> None \<and>
   hm_get (dp_connections (after (on_dispatch_timer (after (dispatch_run
     (tcp_protocol :: (nat, nat option \<times> nat, (nat, nat) tcp) protocol) [Outgoing 5 [3]]
     (after (on_dispatch_timer sample_dispatch))))))) 4 = None"
proof
  show "hm_get (dp_connections sample_dispatch) 4 \<noteq> None" by code_simp
  from conjunct1 [OF dispatch_reclaims [OF sample_dispatch_def], of 4 "[Outgoing 5 [3]]"]
  show "hm_get (dp_connections (after (on_dispatch_timer (after (dispatch_run
     (tcp_protocol :: (nat, nat option \<times> nat, (nat, nat) tcp) protocol) [Outgoing 5 [3]]
     (after (on_dispatch_timer sample_dispatch))))))) 4 = None" by simp
qed

end
