(* ===== verification/Boson.thy ===== *)
theory Boson
  imports Prelude
begin

text \<open>
  Verifiable vector clocks, \<open>crates/boson/src/lib.rs\<close>. A \<open>Clock\<close> is a recursive plonky2 proof whose
  public inputs are \<open>S\<close> counters followed by the flattened verifier data of the circuit of the proofs
  it was made from. \<open>ClockCircuit::new\<close> adds the constraints that make \<open>increment\<close> need the secret of
  the incremented index and \<open>merge\<close> the pointwise maximum.

  plonky2 is third-party code: building, proving, verifying and the Poseidon hash are the fields of
  a record \<open>plonky\<close>, an argument of every definition that uses them. \<open>complete\<close> states what the
  prover documents (it proves exactly the assignments that satisfy the circuit, and what it proved
  verifies) and \<open>obtainable\<close> what soundness of the verifier means: an accepted proof was made from
  known secrets, published proofs and, for other circuits, anything at all. The circuit is modelled
  as the constraints \<open>new\<close> adds to the builder. The targets through which a witness is set are
  requested from a builder, over the common data of the inner circuit when the circuit is built and
  over its own when it is read back; the prover takes what is set through the targets the circuit
  was built with. A configuration is only passed on. Field elements are their canonical representatives.
\<close>

section \<open>Circuits, proofs and the proof system\<close>

type_synonym felt = nat
type_synonym hash_out = "felt list"

definition neg_one :: felt where
  "neg_one = 18446744069414584320"

record 'b proof_pis =
  pf_proof :: 'b
  public_inputs :: "felt list"

text \<open>What is given to the builder: a constant circuit (\<open>new_empty\<close>), or the clock circuit over the
  common data of an inner circuit, with \<open>S\<close> the number of keys.\<close>

datatype circuit = Empty_circuit nat | Clock_circuit circuit "hash_out list" hash_out

text \<open>The values of the targets of a clock circuit, all assigned; and a partial witness, as \<open>prove\<close> takes it.\<close>

record 'b wires =
  is_genesis :: bool
  verifier_data :: "felt list"
  proof1 :: "'b proof_pis"
  proof2 :: "'b proof_pis"
  updated_index :: felt
  updated_counter :: felt
  sig_in :: felt

record 'b partial_witness =
  pw_is_genesis :: "bool option"
  pw_verifier_data :: "felt list option"
  pw_proof1 :: "'b proof_pis option"
  pw_proof2 :: "'b proof_pis option"
  pw_updated_index :: "felt option"
  pw_updated_counter :: "felt option"
  pw_sig :: "felt option"

definition partial_witness_new :: "'b partial_witness" where
  "partial_witness_new =
     \<lparr>pw_is_genesis = None, pw_verifier_data = None, pw_proof1 = None, pw_proof2 = None,
      pw_updated_index = None, pw_updated_counter = None, pw_sig = None\<rparr>"

definition set_all :: "'b wires \<Rightarrow> 'b partial_witness" where
  "set_all w =
     \<lparr>pw_is_genesis = Some (is_genesis w), pw_verifier_data = Some (verifier_data w),
      pw_proof1 = Some (proof1 w), pw_proof2 = Some (proof2 w),
      pw_updated_index = Some (updated_index w), pw_updated_counter = Some (updated_counter w),
      pw_sig = Some (sig_in w)\<rparr>"

text \<open>
  The builder hands out targets on request. Builders, targets and configurations are plonky2's own
  values; numbers stand for them.
\<close>

type_synonym circuit_config = nat
type_synonym builder = nat
type_synonym target = nat

datatype 'cd target_request = NewBool | NewVerifierData nat | NewProof 'cd | NewTarget

record clock_targets =
  tg_is_genesis :: target
  tg_verifier_data :: target
  tg_proof1 :: target
  tg_proof2 :: target
  tg_updated_index :: target
  tg_updated_counter :: target
  tg_sig :: target

record ('b, 'cd) plonky =
  common :: "circuit \<Rightarrow> 'cd"
  config_of :: "'cd \<Rightarrow> circuit_config"
  cap_height :: "circuit_config \<Rightarrow> nat"
  builder_new :: "circuit_config \<Rightarrow> builder"
  builder_add :: "'cd target_request \<Rightarrow> builder \<Rightarrow> target \<times> builder"
  verifier_only :: "circuit \<Rightarrow> felt list"
  vdata_len :: nat
  prove :: "circuit \<Rightarrow> 'b partial_witness \<Rightarrow> error + 'b proof_pis"
  prove_foreign :: "circuit \<Rightarrow> clock_targets \<Rightarrow> 'b partial_witness \<Rightarrow> error + 'b proof_pis"
  verify_proof :: "'cd \<Rightarrow> felt list \<Rightarrow> 'b proof_pis \<Rightarrow> bool"
  hash_no_pad :: "felt list \<Rightarrow> hash_out"

section \<open>The constraints of \<open>ClockCircuit::new\<close>\<close>

fun num_public_inputs :: "nat \<Rightarrow> circuit \<Rightarrow> nat" where
  "num_public_inputs len (Empty_circuit n) = n"
| "num_public_inputs len (Clock_circuit inner keys dummy_key) = length keys + len"

definition connect_data :: "bool \<Rightarrow> felt list \<Rightarrow> felt list \<Rightarrow> bool" where
  "connect_data genesis pis output_data \<longleftrightarrow>
     list_all (\<lambda>(pi, target). (if genesis then pi else target) = pi) (zip pis output_data)"

definition select_key :: "felt \<Rightarrow> hash_out list \<Rightarrow> hash_out \<Rightarrow> hash_out" where
  "select_key ui keys dummy_key =
     fold (\<lambda>(i, key) upd. if ui = i then key else upd) (enumerate 0 keys) dummy_key"

definition selected_counter :: "'b wires \<Rightarrow> nat \<Rightarrow> felt \<Rightarrow> felt" where
  "selected_counter w i input1 = (if updated_index w = i then updated_counter w else input1)"

definition input_counters :: "nat \<Rightarrow> 'b wires \<Rightarrow> (nat \<times> felt \<times> felt) list" where
  "input_counters S w =
     enumerate 0 (zip (take S (public_inputs (proof1 w))) (take S (public_inputs (proof2 w))))"

definition range_checks :: "nat \<Rightarrow> 'b wires \<Rightarrow> bool" where
  "range_checks S w \<longleftrightarrow>
     list_all (\<lambda>(i, input1, input2). selected_counter w i input1 < 2 ^ 32 \<and> input2 < 2 ^ 32)
       (input_counters S w)"

definition output_counters :: "nat \<Rightarrow> 'b wires \<Rightarrow> felt list" where
  "output_counters S w =
     map (\<lambda>(i, input1, input2).
            let x1 = selected_counter w i input1;
                output = (if x1 \<le> input2 then input2 else x1)
            in if is_genesis w then 0 else output)
       (input_counters S w)"

text \<open>Everything but the two recursive verifications.\<close>

definition wires_ok :: "('b, 'cd) plonky \<Rightarrow> circuit \<Rightarrow> hash_out list \<Rightarrow> hash_out \<Rightarrow> 'b wires \<Rightarrow> bool" where
  "wires_ok P inner keys dummy_key w \<longleftrightarrow>
     length (verifier_data w) = vdata_len P \<and>
     length (public_inputs (proof1 w)) = num_public_inputs (vdata_len P) inner \<and>
     length (public_inputs (proof2 w)) = num_public_inputs (vdata_len P) inner \<and>
     connect_data (is_genesis w) (drop (length keys) (public_inputs (proof1 w))) (verifier_data w) \<and>
     connect_data (is_genesis w) (drop (length keys) (public_inputs (proof2 w))) (verifier_data w) \<and>
     range_checks (length keys) w \<and>
     hash_no_pad P [sig_in w] = select_key (updated_index w) keys dummy_key"

fun circuit_outputs :: "('b, 'cd) plonky \<Rightarrow> circuit \<Rightarrow> 'b wires \<Rightarrow> felt list option" where
  "circuit_outputs P (Empty_circuit n) w = Some (replicate n 0)"
| "circuit_outputs P (Clock_circuit inner keys dummy_key) w =
     (if wires_ok P inner keys dummy_key w \<and>
         verify_proof P (common P inner) (verifier_data w) (proof1 w) \<and>
         verify_proof P (common P inner) (verifier_data w) (proof2 w)
      then Some (output_counters (length keys) w @ verifier_data w)
      else None)"

section \<open>Targets\<close>

text \<open>
  The seven targets, requested in this order by \<open>ClockCircuit::new\<close> before anything else, over the
  common data of the inner circuit, and by \<open>ClockCircuitTargets::new\<close> over those of the circuit itself.
\<close>

definition clock_targets_new :: "('b, 'cd) plonky \<Rightarrow> circuit_config \<Rightarrow> 'cd \<Rightarrow> clock_targets" where
  "clock_targets_new P config cd =
     (let b0 = builder_new P config;
          (is_genesis, b1) = builder_add P NewBool b0;
          (verifier_data, b2) = builder_add P (NewVerifierData (cap_height P (config_of P cd))) b1;
          (proof1, b3) = builder_add P (NewProof cd) b2;
          (proof2, b4) = builder_add P (NewProof cd) b3;
          (updated_index, b5) = builder_add P NewTarget b4;
          (updated_counter, b6) = builder_add P NewTarget b5;
          (sig, b7) = builder_add P NewTarget b6
      in \<lparr>tg_is_genesis = is_genesis, tg_verifier_data = verifier_data, tg_proof1 = proof1,
          tg_proof2 = proof2, tg_updated_index = updated_index, tg_updated_counter = updated_counter,
          tg_sig = sig\<rparr>)"

text \<open>
  Proving with the inputs set through targets. Those that the circuit was built with set its inputs;
  what others set in it is up to plonky2.
\<close>

fun built_targets :: "('b, 'cd) plonky \<Rightarrow> circuit \<Rightarrow> clock_targets option" where
  "built_targets P (Empty_circuit n) = None"
| "built_targets P (Clock_circuit inner keys dummy_key) =
     Some (clock_targets_new P (config_of P (common P (Clock_circuit inner keys dummy_key))) (common P inner))"

definition prove_with ::
  "('b, 'cd) plonky \<Rightarrow> circuit \<Rightarrow> clock_targets \<Rightarrow> 'b partial_witness \<Rightarrow> error + 'b proof_pis" where
  "prove_with P circ t pw =
     (if built_targets P circ = Some t then prove P circ pw else prove_foreign P circ t pw)"

section \<open>Clocks\<close>

record 'b clock =
  clock_proof :: "'b proof_pis"

record clock_circuit =
  data :: circuit
  targets :: "clock_targets option"

definition clock_counters :: "nat \<Rightarrow> 'b clock \<Rightarrow> u32 list" where
  "clock_counters S c = map word_of_nat (take S (public_inputs (clock_proof c)))"

definition circuit_new_empty :: "nat \<Rightarrow> clock_circuit" where
  "circuit_new_empty n = \<lparr>data = Empty_circuit n, targets = None\<rparr>"

definition circuit_new ::
  "('b, 'cd) plonky \<Rightarrow> circuit_config \<Rightarrow> clock_circuit \<Rightarrow> hash_out list \<Rightarrow> hash_out \<Rightarrow> clock_circuit" where
  "circuit_new P config inner keys dummy_key =
     \<lparr>data = Clock_circuit (data inner) keys dummy_key,
      targets = Some (clock_targets_new P config (common P (data inner)))\<rparr>"

definition circuit_with_data :: "('b, 'cd) plonky \<Rightarrow> circuit_config \<Rightarrow> circuit \<Rightarrow> clock_circuit" where
  "circuit_with_data P config d =
     \<lparr>data = d, targets = Some (clock_targets_new P config (common P d))\<rparr>"

definition dummy_secret :: felt where
  "dummy_secret = neg_one"

definition clock_public_key :: "('b, 'cd) plonky \<Rightarrow> felt \<Rightarrow> hash_out" where
  "clock_public_key P secret = hash_no_pad P [secret]"

definition index_secret :: "nat \<Rightarrow> felt" where
  "index_secret i = 117418 + i"

definition genesis_circuit ::
  "('b, 'cd) plonky \<Rightarrow> circuit_config \<Rightarrow> hash_out list \<Rightarrow> clock_circuit" where
  "genesis_circuit P config keys =
     ((\<lambda>c. circuit_new P config c keys (clock_public_key P dummy_secret)) ^^ 4)
       (circuit_new_empty (length keys))"

text \<open>\<open>updated_index\<close> and \<open>updated_counter\<close> stay unset, as in the source.\<close>

definition genesis ::
  "('b, 'cd) plonky \<Rightarrow> circuit_config \<Rightarrow> hash_out list \<Rightarrow> error + 'b clock \<times> clock_circuit" where
  "genesis P config keys =
     (let cc = genesis_circuit P config keys;
          empty = circuit_new_empty (num_public_inputs (vdata_len P) (data cc))
      in case targets cc of
           None \<Rightarrow> Inl (Panic ''unwrap on None'')
         | Some t \<Rightarrow>
             (case prove P (data empty) partial_witness_new of
                Inl e \<Rightarrow> Inl e
              | Inr dummy_proof \<Rightarrow>
                  (case prove_with P (data cc) t
                          (partial_witness_new
                             \<lparr>pw_is_genesis := Some True,
                              pw_verifier_data := Some (verifier_only P (data empty)),
                              pw_proof1 := Some dummy_proof, pw_proof2 := Some dummy_proof,
                              pw_sig := Some dummy_secret\<rparr>) of
                     Inl e \<Rightarrow> Inl e
                   | Inr pf \<Rightarrow>
                       (let clock = \<lparr>clock_proof = pf\<rparr>
                        in if list_all (\<lambda>counter. counter = 0) (clock_counters (length keys) clock)
                           then Inr (clock, cc)
                           else Inl (Panic ''counter == 0'')))))"

definition with_proof_and_circuit ::
  "('b, 'cd) plonky \<Rightarrow> 'b proof_pis \<Rightarrow> circuit \<Rightarrow> circuit_config \<Rightarrow> 'b clock \<times> clock_circuit" where
  "with_proof_and_circuit P pf d config = (\<lparr>clock_proof = pf\<rparr>, circuit_with_data P config d)"

definition increment_wires ::
  "('b, 'cd) plonky \<Rightarrow> circuit \<Rightarrow> 'b proof_pis \<Rightarrow> nat \<Rightarrow> u32 \<Rightarrow> felt \<Rightarrow> 'b wires" where
  "increment_wires P circ pf i counter secret =
     \<lparr>is_genesis = False, verifier_data = verifier_only P circ, proof1 = pf, proof2 = pf,
      updated_index = i, updated_counter = unat counter, sig_in = secret\<rparr>"

definition increment ::
  "('b, 'cd) plonky \<Rightarrow> nat \<Rightarrow> 'b clock \<Rightarrow> nat \<Rightarrow> felt \<Rightarrow> clock_circuit \<Rightarrow> error + 'b clock" where
  "increment P S self i secret cc =
     (if length (clock_counters S self) \<le> i then Inl (Bail ''out of bound index'')
      else let counter = clock_counters S self ! i + 1
      in case targets cc of
           None \<Rightarrow> Inl (Panic ''unwrap on None'')
         | Some t \<Rightarrow>
             (case prove_with P (data cc) t
                     (set_all (increment_wires P (data cc) (clock_proof self) i counter secret)) of
                Inl e \<Rightarrow> Inl e
              | Inr pf \<Rightarrow>
                  (let clock = \<lparr>clock_proof = pf\<rparr>
                   in if list_all (\<lambda>(j, output, input). output = (if j = i then counter else input))
                           (enumerate 0 (zip (clock_counters S clock) (clock_counters S self)))
                      then Inr clock
                      else Inl (Panic ''output_counter''))))"

definition merge_wires ::
  "nat \<Rightarrow> felt list \<Rightarrow> 'b proof_pis \<Rightarrow> 'b proof_pis \<Rightarrow> 'b wires" where
  "merge_wires S vd p1 p2 =
     \<lparr>is_genesis = False, verifier_data = vd, proof1 = p1, proof2 = p2,
      updated_index = S + 1, updated_counter = unat (- 1 :: u32), sig_in = dummy_secret\<rparr>"

definition merge ::
  "('b, 'cd) plonky \<Rightarrow> nat \<Rightarrow> 'b clock \<Rightarrow> 'b clock \<Rightarrow> clock_circuit \<Rightarrow> error + 'b clock" where
  "merge P S self other cc =
     (case targets cc of
        None \<Rightarrow> Inl (Panic ''unwrap on None'')
      | Some t \<Rightarrow>
          (case prove_with P (data cc) t
                  (set_all (merge_wires S (verifier_only P (data cc))
                     (clock_proof self) (clock_proof other))) of
             Inl e \<Rightarrow> Inl e
           | Inr pf \<Rightarrow>
               (let clock = \<lparr>clock_proof = pf\<rparr>
                in if list_all (\<lambda>((output, input1), input2). output = max input1 input2)
                        (zip (zip (clock_counters S clock) (clock_counters S self))
                           (clock_counters S other))
                   then Inr clock
                   else Inl (Panic ''output_counter''))))"

definition clock_verify :: "('b, 'cd) plonky \<Rightarrow> 'b clock \<Rightarrow> clock_circuit \<Rightarrow> bool" where
  "clock_verify P self cc \<longleftrightarrow>
     verify_proof P (common P (data cc)) (verifier_only P (data cc)) (clock_proof self)"

end
