(* ===== verification/Boson_Correct.thy ===== *)
theory Boson_Correct
  imports Boson
begin

text \<open>
  What the clocks promise, under the two laws of the proof system. \<open>merge\<close> is the pointwise maximum
  and \<open>increment\<close> adds one at its index for who holds the secret, and fails otherwise; no clock that
  carries the circuit's own verifier data exceeds the published ones at an index whose secret is
  unknown; but \<open>verify\<close> does not look at that data and accepts counters nobody made.
\<close>

section \<open>The laws of the proof system\<close>

definition complete :: "('b, 'cd) plonky \<Rightarrow> bool" where
  "complete P \<longleftrightarrow>
     (\<forall>c w. case circuit_outputs P c w of
        None \<Rightarrow> (\<exists>e. prove P c (set_all w) = Inl e)
      | Some pis \<Rightarrow> (\<exists>pf. prove P c (set_all w) = Inr pf \<and> public_inputs pf = pis \<and>
           verify_proof P (common P c) (verifier_only P c) pf))"

lemma complete_Some:
  assumes "complete P" and "circuit_outputs P c w = Some pis"
  obtains pf where "prove P c (set_all w) = Inr pf" and "public_inputs pf = pis"
    and "verify_proof P (common P c) (verifier_only P c) pf"
proof -
  have "case circuit_outputs P c w of
        None \<Rightarrow> (\<exists>e. prove P c (set_all w) = Inl e)
      | Some pis \<Rightarrow> (\<exists>pf. prove P c (set_all w) = Inr pf \<and> public_inputs pf = pis \<and>
           verify_proof P (common P c) (verifier_only P c) pf)"
    using assms(1) unfolding complete_def by blast
  then show ?thesis using assms(2) that by auto
qed

lemma complete_None:
  assumes "complete P" and "circuit_outputs P c w = None"
  obtains e where "prove P c (set_all w) = Inl e"
proof -
  have "case circuit_outputs P c w of
        None \<Rightarrow> (\<exists>e. prove P c (set_all w) = Inl e)
      | Some pis \<Rightarrow> (\<exists>pf. prove P c (set_all w) = Inr pf \<and> public_inputs pf = pis \<and>
           verify_proof P (common P c) (verifier_only P c) pf)"
    using assms(1) unfolding complete_def by blast
  then show ?thesis using assms(2) that by auto
qed

text \<open>
  Which proofs somebody can have who knows the secrets \<open>known\<close> and has seen the proofs \<open>published\<close>:
  for the circuit \<open>Clock_circuit inner keys dummy_key\<close> those, and what its prover makes of such
  proofs; for every other circuit anything.
\<close>

inductive obtainable ::
  "('b, 'cd) plonky \<Rightarrow> circuit \<Rightarrow> hash_out list \<Rightarrow> hash_out \<Rightarrow> felt set \<Rightarrow> 'b proof_pis set \<Rightarrow>
     felt list \<Rightarrow> 'b proof_pis \<Rightarrow> bool"
  for P inner keys dummy_key known published
where
  seen: "pf \<in> published \<Longrightarrow> obtainable P inner keys dummy_key known published vd pf"
| foreign: "vd \<noteq> verifier_only P (Clock_circuit inner keys dummy_key) \<Longrightarrow>
     obtainable P inner keys dummy_key known published vd pf"
| proved: "\<lbrakk>wires_ok P inner keys dummy_key w; sig_in w \<in> known;
     obtainable P inner keys dummy_key known published (verifier_data w) (proof1 w);
     obtainable P inner keys dummy_key known published (verifier_data w) (proof2 w);
     public_inputs pf = output_counters (length keys) w @ verifier_data w\<rbrakk> \<Longrightarrow>
     obtainable P inner keys dummy_key known published
       (verifier_only P (Clock_circuit inner keys dummy_key)) pf"

section \<open>The circuit\<close>

lemma select_key_fold:
  "fold (\<lambda>(i, key) upd. if ui = i then key else upd) (enumerate n keys) k =
     (if n \<le> ui \<and> ui < n + length keys then keys ! (ui - n) else k)"
  by (induction keys arbitrary: n k) (auto simp: nth_Cons' Suc_le_eq)

lemma select_key_nth:
  "select_key ui keys k = (if ui < length keys then keys ! ui else k)"
  unfolding select_key_def select_key_fold by simp

lemma input_counters_length [simp]:
  assumes "S \<le> length (public_inputs (proof1 w))" and "S \<le> length (public_inputs (proof2 w))"
  shows "length (input_counters S w) = S"
  using assms by (simp add: input_counters_def min_def)

lemma input_counters_nth:
  assumes "S \<le> length (public_inputs (proof1 w))" and "S \<le> length (public_inputs (proof2 w))"
    and "i < S"
  shows "input_counters S w ! i = (i, public_inputs (proof1 w) ! i, public_inputs (proof2 w) ! i)"
  using assms by (simp add: input_counters_def nth_enumerate_eq)

text \<open>One output counter.\<close>

lemma output_counters_nth:
  assumes "S \<le> length (public_inputs (proof1 w))" and "S \<le> length (public_inputs (proof2 w))"
    and "i < S"
  shows "output_counters S w ! i =
    (if is_genesis w then 0
     else max (selected_counter w i (public_inputs (proof1 w) ! i)) (public_inputs (proof2 w) ! i))"
  using assms by (simp add: output_counters_def input_counters_nth max_def)

lemma output_counters_length [simp]:
  assumes "S \<le> length (public_inputs (proof1 w))" and "S \<le> length (public_inputs (proof2 w))"
  shows "length (output_counters S w) = S"
  using assms by (simp add: output_counters_def)

lemma range_checks_iff:
  assumes "S \<le> length (public_inputs (proof1 w))" and "S \<le> length (public_inputs (proof2 w))"
  shows "range_checks S w \<longleftrightarrow>
    (\<forall>i<S. selected_counter w i (public_inputs (proof1 w) ! i) < 4294967296 \<and>
       public_inputs (proof2 w) ! i < 4294967296)"
  using assms by (simp add: range_checks_def list_all_length input_counters_nth)

lemma list_all_eq_zip:
  "length xs = length ys \<Longrightarrow> list_all (\<lambda>(x, y). y = x) (zip xs ys) \<longleftrightarrow> xs = ys"
  by (induction rule: list_induct2) auto

lemma connect_data_iff:
  "length pis = length out \<Longrightarrow> connect_data g pis out \<longleftrightarrow> g \<or> pis = out"
  by (cases g) (simp_all add: connect_data_def list_all_eq_zip, simp add: list_all_length)

lemma connect_dataD: "connect_data False pis out \<Longrightarrow> length pis = length out \<Longrightarrow> pis = out"
  by (simp add: connect_data_iff)

section \<open>Clocks of a circuit\<close>

text \<open>
  The circuit is at least two levels deep, as the four rounds of \<open>genesis\<close> make it, so that the
  inner circuit has the verifier data among its public inputs; its proofs have the same common data
  as those of the inner circuit, which is what the rounds are iterated for.
\<close>

definition clock_circuit_ok ::
  "('b, 'cd) plonky \<Rightarrow> circuit \<Rightarrow> hash_out list \<Rightarrow> clock_circuit \<Rightarrow> bool" where
  "clock_circuit_ok P inner keys cc \<longleftrightarrow>
     targets cc = built_targets P (data cc) \<and> data cc = Clock_circuit inner keys (clock_public_key P dummy_secret) \<and>
     num_public_inputs (vdata_len P) inner = length keys + vdata_len P \<and>
     length (verifier_only P (data cc)) = vdata_len P \<and>
     common P (data cc) = common P inner"

lemma clock_circuit_okD:
  assumes "clock_circuit_ok P inner keys cc"
  shows "targets cc = built_targets P (data cc)" and "data cc = Clock_circuit inner keys (clock_public_key P dummy_secret)"
    and "num_public_inputs (vdata_len P) inner = length keys + vdata_len P"
    and "length (verifier_only P (data cc)) = vdata_len P"
    and "common P (data cc) = common P inner"
  using assms unfolding clock_circuit_ok_def by blast+

text \<open>The targets of such a circuit are the ones it was built with, and it is again such a circuit when
  its data are read back with its own configuration.\<close>

lemma clock_circuit_targets:
  assumes "clock_circuit_ok P inner keys cc"
  obtains t where "targets cc = Some t" and "\<And>pw. prove_with P (data cc) t pw = prove P (data cc) pw"
  using clock_circuit_okD(1,2) [OF assms] by (auto simp: prove_with_def)

lemma circuit_with_data_ok:
  assumes "clock_circuit_ok P inner keys cc" and "config = config_of P (common P (data cc))"
  shows "circuit_with_data P config (data cc) = cc"
  using clock_circuit_okD [OF assms(1)] assms(2) by (simp add: circuit_with_data_def)

definition clock_ok :: "('b, 'cd) plonky \<Rightarrow> nat \<Rightarrow> clock_circuit \<Rightarrow> 'b clock \<Rightarrow> bool" where
  "clock_ok P S cc c \<longleftrightarrow>
     clock_verify P c cc \<and> length (public_inputs (clock_proof c)) = S + vdata_len P \<and>
     drop S (public_inputs (clock_proof c)) = verifier_only P (data cc) \<and>
     list_all (\<lambda>x. x < 4294967296) (take S (public_inputs (clock_proof c)))"

lemma clock_counters_length:
  "clock_ok P S cc c \<Longrightarrow> length (clock_counters S c) = S"
  by (simp add: clock_ok_def clock_counters_def)

lemma clock_counters_nth:
  "clock_ok P S cc c \<Longrightarrow> i < S \<Longrightarrow>
     clock_counters S c ! i = word_of_nat (public_inputs (clock_proof c) ! i)"
  by (simp add: clock_ok_def clock_counters_def)

lemma unat_counter:
  "clock_ok P S cc c \<Longrightarrow> i < S \<Longrightarrow>
     unat (clock_counters S c ! i) = public_inputs (clock_proof c) ! i"
  by (simp add: clock_counters_nth)
    (simp add: clock_ok_def list_all_length unsigned_of_nat take_bit_nat_eq_self)

lemma counter_below:
  "clock_ok P S cc c \<Longrightarrow> i < S \<Longrightarrow> public_inputs (clock_proof c) ! i < 4294967296"
  by (simp add: clock_ok_def list_all_length)

text \<open>Not a genesis, over two clocks with the given verifier data: the circuit's own conditions.\<close>

lemma wires_ok_clocks:
  assumes "clock_circuit_ok P inner keys cc" and "\<not> is_genesis w"
    and "length (verifier_data w) = vdata_len P"
    and "length (public_inputs (proof1 w)) = length keys + vdata_len P"
    and "length (public_inputs (proof2 w)) = length keys + vdata_len P"
    and "drop (length keys) (public_inputs (proof1 w)) = verifier_data w"
    and "drop (length keys) (public_inputs (proof2 w)) = verifier_data w"
  shows "wires_ok P inner keys d w \<longleftrightarrow> range_checks (length keys) w \<and>
     hash_no_pad P [sig_in w] = select_key (updated_index w) keys d"
  using assms by (simp add: wires_ok_def clock_circuit_ok_def connect_data_iff)

lemma proved_clock:
  assumes cc: "clock_circuit_ok P inner keys cc" and P: "complete P"
    and out: "circuit_outputs P (data cc) w = Some (output_counters (length keys) w @ verifier_only P (data cc))"
    and len: "length keys \<le> length (public_inputs (proof1 w))"
      "length keys \<le> length (public_inputs (proof2 w))" and rng: "range_checks (length keys) w"
    and "\<not> is_genesis w"
  obtains pf where "prove P (data cc) (set_all w) = Inr pf"
    and "clock_ok P (length keys) cc \<lparr>clock_proof = pf\<rparr>"
    and "\<And>i. i < length keys \<Longrightarrow> public_inputs pf ! i =
        max (selected_counter w i (public_inputs (proof1 w) ! i)) (public_inputs (proof2 w) ! i)"
proof -
  from complete_Some [OF P out] obtain pf where pf: "prove P (data cc) (set_all w) = Inr pf"
    "public_inputs pf = output_counters (length keys) w @ verifier_only P (data cc)"
    "verify_proof P (common P (data cc)) (verifier_only P (data cc)) pf" .
  have nth: "output_counters (length keys) w ! i =
      max (selected_counter w i (public_inputs (proof1 w) ! i)) (public_inputs (proof2 w) ! i)"
    if "i < length keys" for i
    using that output_counters_nth [OF len that] assms(7) by simp
  have "list_all (\<lambda>x. x < 4294967296) (output_counters (length keys) w)"
    using rng len by (simp add: list_all_length nth range_checks_iff)
  moreover have "length (verifier_only P (data cc)) = vdata_len P"
    using cc by (rule clock_circuit_okD)
  ultimately have "clock_ok P (length keys) cc \<lparr>clock_proof = pf\<rparr>"
    using pf len by (simp add: clock_ok_def clock_verify_def)
  with pf nth len that show ?thesis by (simp add: nth_append)
qed


section \<open>The operations\<close>

lemma clock_circuit_outputs:
  assumes cc: "clock_circuit_ok P inner keys cc"
    and "\<not> is_genesis w" and vd: "verifier_data w = verifier_only P (data cc)"
    and c: "clock_ok P (length keys) cc c" "clock_ok P (length keys) cc d"
    and "proof1 w = clock_proof c" "proof2 w = clock_proof d"
  shows "circuit_outputs P (data cc) w =
    (if range_checks (length keys) w \<and>
        hash_no_pad P [sig_in w] = select_key (updated_index w) keys (clock_public_key P dummy_secret)
     then Some (output_counters (length keys) w @ verifier_only P (data cc)) else None)"
proof -
  have "verify_proof P (common P inner) (verifier_data w) (proof1 w)"
    and "verify_proof P (common P inner) (verifier_data w) (proof2 w)"
    using assms(3-7) clock_circuit_okD(5) [OF cc] by (simp_all add: clock_ok_def clock_verify_def)
  moreover have "wires_ok P inner keys (clock_public_key P dummy_secret) w \<longleftrightarrow>
      range_checks (length keys) w \<and>
      hash_no_pad P [sig_in w] = select_key (updated_index w) keys (clock_public_key P dummy_secret)"
    using assms(2-7) clock_circuit_okD(4) [OF cc]
    by (intro wires_ok_clocks [OF cc]) (simp_all add: clock_ok_def)
  moreover have "data cc = Clock_circuit inner keys (clock_public_key P dummy_secret)"
    using cc by (rule clock_circuit_okD)
  ultimately show ?thesis using vd by simp
qed

lemma merge_selected [simp]: "i < S \<Longrightarrow> selected_counter (merge_wires S vd p1 p2) i x = x"
  by (simp add: selected_counter_def merge_wires_def)

lemma merge_wires_simps [simp]:
  "is_genesis (merge_wires S vd p1 p2) = False" "verifier_data (merge_wires S vd p1 p2) = vd"
  "proof1 (merge_wires S vd p1 p2) = p1" "proof2 (merge_wires S vd p1 p2) = p2"
  "sig_in (merge_wires S vd p1 p2) = dummy_secret"
  "updated_index (merge_wires S vd p1 p2) = S + 1"
  by (simp_all add: merge_wires_def)

lemma increment_wires_simps [simp]:
  "is_genesis (increment_wires P circ pf i c s) = False"
  "verifier_data (increment_wires P circ pf i c s) = verifier_only P circ"
  "proof1 (increment_wires P circ pf i c s) = pf" "proof2 (increment_wires P circ pf i c s) = pf"
  "sig_in (increment_wires P circ pf i c s) = s"
  "updated_index (increment_wires P circ pf i c s) = i"
  by (simp_all add: increment_wires_def)

lemma increment_selected [simp]:
  "selected_counter (increment_wires P circ pf i c s) j x = (if j = i then unat c else x)"
  by (simp add: selected_counter_def increment_wires_def)

lemma counters_eq_map2:
  assumes "clock_ok P S cc a" and "clock_ok P S cc b" and "clock_ok P S cc c"
    and "\<And>i. i < S \<Longrightarrow> public_inputs (clock_proof c) ! i =
        max (public_inputs (clock_proof a) ! i) (public_inputs (clock_proof b) ! i)"
  shows "clock_counters S c = map2 max (clock_counters S a) (clock_counters S b)"
proof (rule nth_equalityI)
  show "length (clock_counters S c) = length (map2 max (clock_counters S a) (clock_counters S b))"
    using assms by (simp add: clock_counters_length)
next
  fix i assume "i < length (clock_counters S c)"
  then have i: "i < S" using assms by (simp add: clock_counters_length)
  have "unat (clock_counters S c ! i) = unat (max (clock_counters S a ! i) (clock_counters S b ! i))"
    using assms i by (simp add: unat_counter max_def word_le_nat_alt)
  then have "clock_counters S c ! i = max (clock_counters S a ! i) (clock_counters S b ! i)"
    by (simp only: word_unat_eq_iff)
  then show "clock_counters S c ! i = map2 max (clock_counters S a) (clock_counters S b) ! i"
    using assms i by (simp add: clock_counters_length)
qed

lemma merge_proves:
  assumes cc: "clock_circuit_ok P inner keys cc" and P: "complete P"
    and a: "clock_ok P (length keys) cc a" and b: "clock_ok P (length keys) cc b"
  obtains pf where
    "prove P (data cc) (set_all (merge_wires (length keys) (verifier_only P (data cc))
       (clock_proof a) (clock_proof b))) = Inr pf"
    and "clock_ok P (length keys) cc \<lparr>clock_proof = pf\<rparr>"
    and "clock_counters (length keys) \<lparr>clock_proof = pf\<rparr> =
      map2 max (clock_counters (length keys) a) (clock_counters (length keys) b)"
proof -
  define w where "w = merge_wires (length keys) (verifier_only P (data cc)) (clock_proof a) (clock_proof b)"
  have len: "length keys \<le> length (public_inputs (proof1 w))"
    "length keys \<le> length (public_inputs (proof2 w))"
    using a b by (simp_all add: w_def clock_ok_def)
  have rng: "range_checks (length keys) w"
    unfolding range_checks_iff [OF len]
    using counter_below [OF a] counter_below [OF b] by (simp add: w_def)
  have out: "circuit_outputs P (data cc) w =
      Some (output_counters (length keys) w @ verifier_only P (data cc))"
    using rng by (subst clock_circuit_outputs [OF cc _ _ a b])
      (simp_all add: w_def select_key_nth clock_public_key_def)
  from proved_clock [OF cc P out len rng] obtain pf where pf: "prove P (data cc) (set_all w) = Inr pf"
    "clock_ok P (length keys) cc \<lparr>clock_proof = pf\<rparr>"
    "\<And>i. i < length keys \<Longrightarrow> public_inputs pf ! i =
        max (selected_counter w i (public_inputs (proof1 w) ! i)) (public_inputs (proof2 w) ! i)"
    by (auto simp: w_def)
  have "clock_counters (length keys) \<lparr>clock_proof = pf\<rparr> =
      map2 max (clock_counters (length keys) a) (clock_counters (length keys) b)"
    using pf(3) by (intro counters_eq_map2 [OF a b pf(2)]) (simp add: w_def)
  with pf that show ?thesis by (simp add: w_def)
qed


lemma increment_outputs:
  assumes cc: "clock_circuit_ok P inner keys cc" and a: "clock_ok P (length keys) cc a"
    and i: "i < length keys"
  shows "circuit_outputs P (data cc) (increment_wires P (data cc) (clock_proof a) i n secret) =
    (if clock_public_key P secret = keys ! i
     then Some (output_counters (length keys)
                  (increment_wires P (data cc) (clock_proof a) i n secret) @ verifier_only P (data cc))
     else None)"
proof -
  define w where "w = increment_wires P (data cc) (clock_proof a) i n secret"
  have len: "length keys \<le> length (public_inputs (proof1 w))"
    "length keys \<le> length (public_inputs (proof2 w))"
    using a by (simp_all add: w_def clock_ok_def)
  have rng: "range_checks (length keys) w"
    unfolding range_checks_iff [OF len]
    using counter_below [OF a] unat_u32_less [of n] by (simp add: w_def)
  then show ?thesis using i
    by (subst clock_circuit_outputs [OF cc _ _ a a]) (simp_all add: w_def select_key_nth clock_public_key_def)
qed

text \<open>The prover's answer to the witness of \<open>increment\<close>.\<close>

lemma increment_proves:
  assumes cc: "clock_circuit_ok P inner keys cc" and P: "complete P"
    and a: "clock_ok P (length keys) cc a" and i: "i < length keys"
    and key: "clock_public_key P secret = keys ! i"
  obtains pf where
    "prove P (data cc) (set_all (increment_wires P (data cc) (clock_proof a) i n secret)) = Inr pf"
    and "clock_ok P (length keys) cc \<lparr>clock_proof = pf\<rparr>"
    and "clock_counters (length keys) \<lparr>clock_proof = pf\<rparr> =
      (clock_counters (length keys) a)[i := max n (clock_counters (length keys) a ! i)]"
proof -
  define w where "w = increment_wires P (data cc) (clock_proof a) i n secret"
  have len: "length keys \<le> length (public_inputs (proof1 w))"
    "length keys \<le> length (public_inputs (proof2 w))"
    using a by (simp_all add: w_def clock_ok_def)
  have rng: "range_checks (length keys) w"
    unfolding range_checks_iff [OF len]
    using counter_below [OF a] unat_u32_less [of n] by (simp add: w_def)
  have out: "circuit_outputs P (data cc) w =
      Some (output_counters (length keys) w @ verifier_only P (data cc))"
    unfolding w_def using key by (simp add: increment_outputs [OF cc a i])
  from proved_clock [OF cc P out len rng] obtain pf where pf: "prove P (data cc) (set_all w) = Inr pf"
    "clock_ok P (length keys) cc \<lparr>clock_proof = pf\<rparr>"
    "\<And>j. j < length keys \<Longrightarrow> public_inputs pf ! j =
        max (selected_counter w j (public_inputs (proof1 w) ! j)) (public_inputs (proof2 w) ! j)"
    by (auto simp: w_def)
  have "clock_counters (length keys) \<lparr>clock_proof = pf\<rparr> =
      (clock_counters (length keys) a)[i := max n (clock_counters (length keys) a ! i)]"
    (is "?l = ?r")
  proof (rule nth_equalityI)
    show "length ?l = length ?r"
      using a pf(2) by (simp add: clock_counters_length)
  next
    fix j assume "j < length ?l"
    then have j: "j < length keys" using pf(2) by (simp add: clock_counters_length)
    have "unat (?l ! j) = unat (?r ! j)"
      using a i j pf(3) [OF j] unat_counter [OF pf(2) j] unat_counter [OF a j] unat_counter [OF a i]
      by (cases "j = i") (simp_all add: w_def clock_counters_length max_def word_le_nat_alt)
    then show "?l ! j = ?r ! j" by (simp only: word_unat_eq_iff)
  qed
  with pf that show ?thesis by (simp add: w_def)
qed

section \<open>Properties\<close>

text \<open>Merging two clocks of a circuit succeeds; the result is a clock of the circuit again, which
  verifies, and its counters are the pointwise maximum.\<close>

theorem boson_merge:
  assumes "clock_circuit_ok P inner keys cc" and "complete P"
    and "clock_ok P (length keys) cc a" and "clock_ok P (length keys) cc b"
  shows "\<exists>c. merge P (length keys) a b cc = Inr c \<and> clock_ok P (length keys) cc c \<and>
    clock_counters (length keys) c =
      map2 max (clock_counters (length keys) a) (clock_counters (length keys) b)"
proof -
  from merge_proves [OF assms] obtain pf where pf:
    "prove P (data cc) (set_all (merge_wires (length keys) (verifier_only P (data cc))
       (clock_proof a) (clock_proof b))) = Inr pf"
    "clock_ok P (length keys) cc \<lparr>clock_proof = pf\<rparr>"
    "clock_counters (length keys) \<lparr>clock_proof = pf\<rparr> =
      map2 max (clock_counters (length keys) a) (clock_counters (length keys) b)" .
  have "list_all (\<lambda>((output, input1), input2). output = max input1 input2)
      (zip (zip (clock_counters (length keys) \<lparr>clock_proof = pf\<rparr>) (clock_counters (length keys) a))
         (clock_counters (length keys) b))"
    unfolding pf(3) by (simp add: list_all_length)
  moreover obtain t where "targets cc = Some t" "\<And>pw. prove_with P (data cc) t pw = prove P (data cc) pw"
    using clock_circuit_targets [OF assms(1)] by blast
  ultimately show ?thesis using pf by (simp add: merge_def)
qed

text \<open>C26: \<open>increment\<close> at an index of the clock returns exactly when the secret is the one of the
  index and the counter is not \<open>u32::MAX\<close>; then it returns a clock of the circuit with this counter
  one larger and the others unchanged. It ends in an error otherwise.\<close>

theorem boson_increment:
  assumes "clock_circuit_ok P inner keys cc" and "complete P"
    and "clock_ok P (length keys) cc a" and "i < length keys"
  shows "if clock_public_key P secret = keys ! i \<and> clock_counters (length keys) a ! i \<noteq> - 1
    then \<exists>c. increment P (length keys) a i secret cc = Inr c \<and> clock_ok P (length keys) cc c \<and>
      clock_counters (length keys) c =
        (clock_counters (length keys) a)[i := clock_counters (length keys) a ! i + 1]
    else \<exists>e. increment P (length keys) a i secret cc = Inl e"
proof -
  let ?n = "clock_counters (length keys) a ! i" and ?c = "clock_counters (length keys)"
  have len: "length (?c a) = length keys" using assms(3) by (rule clock_counters_length)
  obtain t where t: "targets cc = Some t" "\<And>pw. prove_with P (data cc) t pw = prove P (data cc) pw"
    using clock_circuit_targets [OF assms(1)] by blast
  show ?thesis
  proof (cases "clock_public_key P secret = keys ! i")
    case False
    with increment_outputs [OF assms(1,3,4)] complete_None [OF assms(2)] obtain e where
      "prove P (data cc) (set_all (increment_wires P (data cc) (clock_proof a) i (?n + 1) secret)) = Inl e"
      by metis
    with False len assms(4) t show ?thesis
      by (simp add: increment_def)
  next
    case True
    from increment_proves [OF assms(1-4) True, of "?n + 1"] obtain pf where pf:
      "prove P (data cc) (set_all (increment_wires P (data cc) (clock_proof a) i (?n + 1) secret)) = Inr pf"
      "clock_ok P (length keys) cc \<lparr>clock_proof = pf\<rparr>"
      "?c \<lparr>clock_proof = pf\<rparr> = (?c a)[i := max (?n + 1) ?n]" .
    have check: "list_all (\<lambda>(j, output, input). output = (if j = i then ?n + 1 else input))
        (enumerate 0 (zip (?c \<lparr>clock_proof = pf\<rparr>) (?c a))) \<longleftrightarrow> max (?n + 1) ?n = ?n + 1"
      unfolding pf(3) using len assms(4) by (auto simp: list_all_length nth_enumerate_eq nth_list_update)
    have ran: "increment P (length keys) a i secret cc =
        (if max (?n + 1) ?n = ?n + 1 then Inr \<lparr>clock_proof = pf\<rparr> else Inl (Panic ''output_counter''))"
      using len assms(4)
      by (simp only: increment_def Let_def t pf(1) check sum.case option.case if_False if_True
            linorder_not_le [THEN iffD2, OF assms(4)] not_True_eq_False)
    have "max (?n + 1) ?n = ?n + 1 \<longleftrightarrow> ?n \<noteq> - 1"
      using unat_Suc_word [of ?n] by (cases "?n = - 1") (simp_all add: max_def word_le_nat_alt)
    with True pf(2,3) show ?thesis
      unfolding ran by (cases "?n = - 1") simp_all
  qed
qed


lemma obtainable_bound:
  assumes "obtainable P inner keys dummy_key known published vd pf"
    and "num_public_inputs (vdata_len P) inner = length keys + vdata_len P"
    and "vd = verifier_only P (Clock_circuit inner keys dummy_key)"
    and "drop (length keys) (public_inputs pf) = vd"
    and "i < length keys" and "\<And>s. s \<in> known \<Longrightarrow> clock_public_key P s \<noteq> keys ! i"
    and "\<And>q. q \<in> published \<Longrightarrow> public_inputs q ! i \<le> B"
  shows "public_inputs pf ! i \<le> B"
  using assms
proof (induction rule: obtainable.induct)
  case (seen pf vd)
  then show ?case by simp
next
  case (foreign vd pf)
  then show ?case by simp
next
  case (proved w pf)
  have len: "length keys \<le> length (public_inputs (proof1 w))"
    "length keys \<le> length (public_inputs (proof2 w))"
    using proved.hyps(1) proved.prems(1) by (simp_all add: wires_ok_def)
  have vd: "verifier_data w = verifier_only P (Clock_circuit inner keys dummy_key)"
    using proved.hyps(5) proved.prems(3) len by simp
  have out: "public_inputs pf ! i = output_counters (length keys) w ! i"
    using proved.hyps(5) proved.prems(4) len by (simp add: nth_append)
  have key: "updated_index w \<noteq> i"
    using proved.hyps(1,2) proved.prems(4,5) by (auto simp: wires_ok_def select_key_nth clock_public_key_def)
  show ?case
  proof (cases "is_genesis w")
    case True
    then show ?thesis using out output_counters_nth [OF len proved.prems(4)] by simp
  next
    case False
    then have same: "drop (length keys) (public_inputs (proof1 w)) = verifier_data w"
      "drop (length keys) (public_inputs (proof2 w)) = verifier_data w"
      using proved.hyps(1) proved.prems(1) by (auto simp: wires_ok_def intro!: connect_dataD)
    from proved.IH(1) [OF proved.prems(1) vd same(1) proved.prems(4-6)]
      proved.IH(2) [OF proved.prems(1) vd same(2) proved.prems(4-6)] False key
    show ?thesis
      unfolding out by (simp add: output_counters_nth [OF len proved.prems(4)] selected_counter_def)
  qed
qed

text \<open>C27: who does not know the secret of an index cannot make a clock that exceeds, at this index, all
  clocks that were published, provided the accepted clock carries the verifier data of the circuit it
  is verified with.\<close>

theorem boson_unforgeable:
  assumes "data cc = Clock_circuit inner keys dummy_key"
    and "num_public_inputs (vdata_len P) inner = length keys + vdata_len P"
    and "\<And>pf. verify_proof P (common P (data cc)) (verifier_only P (data cc)) pf \<Longrightarrow>
      obtainable P inner keys dummy_key known published (verifier_only P (data cc)) pf"
    and "clock_verify P c cc"
    and "drop (length keys) (public_inputs (clock_proof c)) = verifier_only P (data cc)"
    and "i < length keys" and "\<And>s. s \<in> known \<Longrightarrow> clock_public_key P s \<noteq> keys ! i"
    and "\<And>q. q \<in> published \<Longrightarrow> public_inputs q ! i \<le> B"
  shows "public_inputs (clock_proof c) ! i \<le> B"
proof (rule obtainable_bound)
  show "obtainable P inner keys dummy_key known published (verifier_only P (data cc)) (clock_proof c)"
    using assms(3,4) by (simp add: clock_verify_def)
qed (use assms in auto)

text \<open>C28: \<open>verify\<close> leaves that data unchecked. Whoever has a clock of another circuit \<open>cm\<close> with the
  same common data (the same circuit over other keys) gets the honest circuit's prover to make a
  proof with the same counters that \<open>verify\<close> accepts, with no secret but the public dummy one; only
  the verifier data in its public inputs tells.\<close>

theorem boson_verify_forged:
  assumes cc: "clock_circuit_ok P inner keys cc" and P: "complete P"
    and cm: "common P (data cm) = common P inner"
    and m: "clock_ok P (length keys) cm m" and "length (verifier_only P (data cm)) = vdata_len P"
  shows "\<exists>pf. prove P (data cc) (set_all (merge_wires (length keys) (verifier_only P (data cm))
        (clock_proof m) (clock_proof m))) = Inr pf \<and>
      clock_verify P \<lparr>clock_proof = pf\<rparr> cc \<and>
      clock_counters (length keys) \<lparr>clock_proof = pf\<rparr> = clock_counters (length keys) m \<and>
      drop (length keys) (public_inputs pf) = verifier_only P (data cm)"
proof -
  let ?w = "merge_wires (length keys) (verifier_only P (data cm)) (clock_proof m) (clock_proof m)"
  let ?pis = "output_counters (length keys) ?w"
  have mlen: "length (public_inputs (clock_proof m)) = length keys + vdata_len P"
    and mdrop: "drop (length keys) (public_inputs (clock_proof m)) = verifier_only P (data cm)"
    and mver: "verify_proof P (common P inner) (verifier_only P (data cm)) (clock_proof m)"
    using m cm by (simp_all add: clock_ok_def clock_verify_def)
  have len: "length keys \<le> length (public_inputs (proof1 ?w))"
    "length keys \<le> length (public_inputs (proof2 ?w))"
    using mlen by simp_all
  have rng: "range_checks (length keys) ?w"
    unfolding range_checks_iff [OF len] using counter_below [OF m] by simp
  have "wires_ok P inner keys (clock_public_key P dummy_secret) ?w"
    by (subst wires_ok_clocks [OF cc])
      (use assms(5) mlen mdrop rng in \<open>simp_all add: select_key_nth clock_public_key_def\<close>)
  then have "circuit_outputs P (data cc) ?w = Some (?pis @ verifier_only P (data cm))"
    using mver by (simp add: clock_circuit_okD(2) [OF cc])
  from complete_Some [OF P this] obtain pf where pf: "prove P (data cc) (set_all ?w) = Inr pf"
    "public_inputs pf = ?pis @ verifier_only P (data cm)"
    "verify_proof P (common P (data cc)) (verifier_only P (data cc)) pf" .
  have "?pis = take (length keys) (public_inputs (clock_proof m))"
    by (rule nth_equalityI) (use mlen len in \<open>simp_all add: output_counters_nth\<close>)
  with pf len mlen show ?thesis by (simp add: clock_verify_def clock_counters_def)
qed


section \<open>A proof system that obeys the laws\<close>

text \<open>A proof is the verifier data of the circuit that proved it; the prover checks the witness.\<close>

definition sample_hash :: "felt list \<Rightarrow> hash_out" where
  "sample_hash xs = [sum_list xs + 7]"

definition sample_data :: "circuit \<Rightarrow> felt list" where
  "sample_data c = (case c of Empty_circuit n \<Rightarrow> [0] | Clock_circuit inner keys d \<Rightarrow> [sum_list (concat keys)])"

definition sample_base :: "(felt list, unit) plonky" where
  "sample_base =
     \<lparr>common = \<lambda>_. (), config_of = \<lambda>_. 0, cap_height = \<lambda>_. 0, builder_new = \<lambda>_. 0,
      builder_add = \<lambda>_ n. (n, n + 1), verifier_only = sample_data, vdata_len = 1,
      prove = \<lambda>_ _. Inl (Panic []), prove_foreign = \<lambda>_ _ _. Inl (Panic []), verify_proof = \<lambda>_ vd pf. pf_proof pf = vd,
      hash_no_pad = sample_hash\<rparr>"

definition all_set :: "'b partial_witness \<Rightarrow> 'b wires" where
  "all_set pw =
     \<lparr>is_genesis = the (pw_is_genesis pw), verifier_data = the (pw_verifier_data pw),
      proof1 = the (pw_proof1 pw), proof2 = the (pw_proof2 pw),
      updated_index = the (pw_updated_index pw), updated_counter = the (pw_updated_counter pw),
      sig_in = the (pw_sig pw)\<rparr>"

definition sample_plonky :: "(felt list, unit) plonky" where
  "sample_plonky = sample_base
     \<lparr>prove := \<lambda>c pw. case circuit_outputs sample_base c (all_set pw) of
        None \<Rightarrow> Inl (Panic ''partition'')
      | Some pis \<Rightarrow> Inr \<lparr>pf_proof = sample_data c, public_inputs = pis\<rparr>\<rparr>"

lemma all_set_set_all [simp]: "all_set (set_all w) = w"
  by (simp add: all_set_def set_all_def)

lemma circuit_outputs_prove [simp]: "circuit_outputs (P\<lparr>prove := f\<rparr>) c w = circuit_outputs P c w"
  by (cases c) (simp_all add: wires_ok_def)

lemma sample_complete: "complete sample_plonky"
  unfolding complete_def sample_plonky_def
  by (auto simp: split: option.splits) (simp_all add: sample_base_def)

definition sample_keys :: "nat \<Rightarrow> hash_out list" where
  "sample_keys n = map (\<lambda>i. clock_public_key sample_plonky (index_secret i + n)) [0, 1]"

definition sample_circuit :: "nat \<Rightarrow> clock_circuit" where
  "sample_circuit n = genesis_circuit sample_plonky 0 (sample_keys n)"

definition sample_inner :: "nat \<Rightarrow> circuit" where
  "sample_inner n = (case data (sample_circuit n) of Empty_circuit k \<Rightarrow> Empty_circuit k | Clock_circuit c keys d \<Rightarrow> c)"

definition sample_clock :: "nat \<Rightarrow> felt list \<Rightarrow> felt list clock" where
  "sample_clock n xs = \<lparr>clock_proof = \<lparr>pf_proof = sample_data (data (sample_circuit n)),
     public_inputs = xs @ sample_data (data (sample_circuit n))\<rparr>\<rparr>"

lemma sample_circuit_ok: "clock_circuit_ok sample_plonky (sample_inner n) (sample_keys n) (sample_circuit n)"
  by (simp add: clock_circuit_ok_def sample_circuit_def sample_inner_def genesis_circuit_def
      circuit_new_def numeral_eq_Suc sample_keys_def)
    (simp add: sample_plonky_def sample_base_def sample_data_def)

lemma sample_clock_ok:
  "x < 4294967296 \<Longrightarrow> y < 4294967296 \<Longrightarrow> clock_ok sample_plonky 2 (sample_circuit n) (sample_clock n [x, y])"
  by (simp add: clock_ok_def clock_verify_def sample_clock_def sample_plonky_def sample_base_def
      sample_data_def split: circuit.splits)


lemma sample_keys_length [simp]: "length (sample_keys n) = 2"
  by (simp add: sample_keys_def)

lemma sample_counters: "clock_counters 2 (sample_clock n [x, y]) = [word_of_nat x, word_of_nat y]"
  by (simp add: clock_counters_def sample_clock_def)

lemma boson_merge_witness:
  "\<exists>c. merge sample_plonky 2 (sample_clock 0 [3, 1]) (sample_clock 0 [2, 5]) (sample_circuit 0) = Inr c \<and>
     clock_ok sample_plonky 2 (sample_circuit 0) c \<and> clock_counters 2 c = [3, 5]"
  using boson_merge [OF sample_circuit_ok [of 0] sample_complete,
      of "sample_clock 0 [3, 1]" "sample_clock 0 [2, 5]"]
  by (simp add: sample_clock_ok sample_counters max_def)

lemma boson_increment_witness:
  "(\<exists>c. increment sample_plonky 2 (sample_clock 0 [3, 1]) 0 (index_secret 0) (sample_circuit 0) = Inr c \<and>
      clock_ok sample_plonky 2 (sample_circuit 0) c \<and> clock_counters 2 c = [4, 1]) \<and>
   (\<exists>e. increment sample_plonky 2 (sample_clock 0 [3, 1]) 0 (index_secret 1) (sample_circuit 0) = Inl e) \<and>
   (\<exists>e. increment sample_plonky 2 (sample_clock 0 [4294967295, 1]) 0 (index_secret 0)
      (sample_circuit 0) = Inl e)"
proof -
  have key: "clock_public_key sample_plonky (index_secret 0) = sample_keys 0 ! 0"
    "clock_public_key sample_plonky (index_secret 1) \<noteq> sample_keys 0 ! 0"
    by (simp_all add: sample_keys_def clock_public_key_def sample_plonky_def sample_base_def
        sample_hash_def index_secret_def)
  show ?thesis
    using boson_increment [OF sample_circuit_ok [of 0] sample_complete,
        of "sample_clock 0 [3, 1]" 0 "index_secret 0"]
      boson_increment [OF sample_circuit_ok [of 0] sample_complete,
        of "sample_clock 0 [3, 1]" 0 "index_secret 1"]
      boson_increment [OF sample_circuit_ok [of 0] sample_complete,
        of "sample_clock 0 [4294967295, 1]" 0 "index_secret 0"] key
    by (simp add: sample_clock_ok sample_counters)
qed

lemma boson_verify_forged_witness:
  "\<exists>pf. prove sample_plonky (data (sample_circuit 0))
       (set_all (merge_wires 2 (verifier_only sample_plonky (data (sample_circuit 5)))
          (clock_proof (sample_clock 5 [9, 7])) (clock_proof (sample_clock 5 [9, 7])))) = Inr pf \<and>
     clock_verify sample_plonky \<lparr>clock_proof = pf\<rparr> (sample_circuit 0) \<and>
     clock_counters 2 \<lparr>clock_proof = pf\<rparr> = [9, 7] \<and>
     drop 2 (public_inputs pf) = verifier_only sample_plonky (data (sample_circuit 5)) \<and>
     verifier_only sample_plonky (data (sample_circuit 5)) \<noteq>
       verifier_only sample_plonky (data (sample_circuit 0))"
proof -
  have "common sample_plonky (data (sample_circuit 5)) = common sample_plonky (sample_inner 0)"
    by simp
  moreover have "length (verifier_only sample_plonky (data (sample_circuit 5))) = vdata_len sample_plonky"
    using sample_circuit_ok [of 5] by (rule clock_circuit_okD)
  moreover have "verifier_only sample_plonky (data (sample_circuit 5)) \<noteq>
       verifier_only sample_plonky (data (sample_circuit 0))"
    by (simp add: sample_circuit_def genesis_circuit_def circuit_new_def numeral_eq_Suc sample_keys_def)
      (simp add: sample_plonky_def sample_base_def sample_data_def clock_public_key_def sample_hash_def
        index_secret_def)
  ultimately show ?thesis
    using boson_verify_forged [OF sample_circuit_ok [of 0] sample_complete,
        of "sample_circuit 5" "sample_clock 5 [9, 7]"]
    by (simp add: sample_clock_ok sample_counters)
qed

text \<open>For the bound: one published clock, and the merge of it with itself.\<close>

definition seen_clock :: "nat proof_pis" where
  "seen_clock = \<lparr>pf_proof = 0, public_inputs = [3, 6, 2]\<rparr>"

definition made_clock :: "nat proof_pis" where
  "made_clock = \<lparr>pf_proof = 1, public_inputs = [3, 6, 2]\<rparr>"

definition two_proofs :: "(nat, unit) plonky" where
  "two_proofs =
     \<lparr>common = \<lambda>_. (), config_of = \<lambda>_. 0, cap_height = \<lambda>_. 0, builder_new = \<lambda>_. 0,
      builder_add = \<lambda>_ n. (n, n + 1), verifier_only = \<lambda>_. [2], vdata_len = 1,
      prove = \<lambda>_ _. Inr made_clock, prove_foreign = \<lambda>_ _ _. Inl (Panic []), verify_proof = \<lambda>_ vd pf. pf = seen_clock \<or> pf = made_clock,
      hash_no_pad = sample_hash\<rparr>"

definition two_keys :: "hash_out list" where
  "two_keys = [[8], [9]]"

lemma made_clock_obtainable:
  "obtainable two_proofs (Clock_circuit (Empty_circuit 2) two_keys [5]) two_keys
     (clock_public_key two_proofs dummy_secret) {dummy_secret} {seen_clock} [2] made_clock"
proof -
  let ?o = "obtainable two_proofs (Clock_circuit (Empty_circuit 2) two_keys [5]) two_keys
     (clock_public_key two_proofs dummy_secret) {dummy_secret} {seen_clock}"
  let ?w = "merge_wires 2 [2] seen_clock seen_clock"
  have ok: "wires_ok two_proofs (Clock_circuit (Empty_circuit 2) two_keys [5]) two_keys
      (clock_public_key two_proofs dummy_secret) ?w"
    by (simp add: wires_ok_def two_proofs_def two_keys_def seen_clock_def merge_wires_def
        connect_data_def range_checks_def input_counters_def selected_counter_def select_key_nth
        clock_public_key_def)
  have out: "public_inputs made_clock = output_counters (length two_keys) ?w @ verifier_data ?w"
    by (simp add: made_clock_def two_keys_def output_counters_def input_counters_def merge_wires_def
        seen_clock_def selected_counter_def)
  have "?o (verifier_data ?w) (proof1 ?w)" "?o (verifier_data ?w) (proof2 ?w)"
    by (simp_all add: obtainable.seen)
  from obtainable.proved [OF ok _ this out] show ?thesis
    by (simp add: two_proofs_def)
qed

lemma boson_unforgeable_witness:
  "clock_verify two_proofs \<lparr>clock_proof = made_clock\<rparr>
     \<lparr>data = Clock_circuit (Clock_circuit (Empty_circuit 2) two_keys [5]) two_keys
        (clock_public_key two_proofs dummy_secret), targets = None\<rparr> \<and>
   public_inputs made_clock ! 0 \<le> 3"
proof -
  let ?cc = "\<lparr>data = Clock_circuit (Clock_circuit (Empty_circuit 2) two_keys [5]) two_keys
        (clock_public_key two_proofs dummy_secret), targets = None\<rparr>"
  have sound: "obtainable two_proofs (Clock_circuit (Empty_circuit 2) two_keys [5]) two_keys
      (clock_public_key two_proofs dummy_secret) {dummy_secret} {seen_clock}
      (verifier_only two_proofs (data ?cc)) pf"
    if "verify_proof two_proofs (common two_proofs (data ?cc)) (verifier_only two_proofs (data ?cc)) pf"
    for pf
    using that made_clock_obtainable by (auto simp: two_proofs_def intro: obtainable.seen)
  have ver: "clock_verify two_proofs \<lparr>clock_proof = made_clock\<rparr> ?cc"
    by (simp add: clock_verify_def two_proofs_def)
  have "public_inputs (clock_proof \<lparr>clock_proof = made_clock\<rparr>) ! 0 \<le> 3"
    by (rule boson_unforgeable [OF _ _ sound ver, where i = 0])
      (simp_all add: two_proofs_def two_keys_def made_clock_def seen_clock_def clock_public_key_def
        sample_hash_def dummy_secret_def neg_one_def)
  with ver show ?thesis by simp
qed

end
