(* ===== verification/Blocking.thy ===== *)
theory Blocking
  imports Unreplicated
begin

text \<open>
  \<open>src/src/event/blocking.rs\<close>, the event loop on a thread, and \<open>src/src/net/blocking.rs\<close>, the net on
  a blocking UDP socket.

  \<^item> A standard channel's receiving end is what will arrive and when, in order, and when the last
    sender is dropped, if ever. A queued message is received at once, whatever the timeout.
  \<^item> The loop never returns but with an error: \<open>blocking_run\<close> is its first iterations, one for each
    element of a list that says how long the handler of this iteration takes. \<open>None\<close> is a receive
    that blocks for ever.
  \<^item> The locale \<open>blocking_client\<close> is what the loop relies on of the state it runs: its handlers leave
    the timer consistent. The unreplicated replica, which \<open>bench-unreplicated\<close> runs this way,
    interprets it.
\<close>

section \<open>Channels\<close>

record 'm receiver =
  rx_arrivals :: "(instant \<times> 'm) list"
  rx_hangup :: "instant option"

datatype 'm received = Received 'm | TimedOut | Disconnected | Forever

definition blocking_send :: "'m \<Rightarrow> 'm sink \<Rightarrow> (unit, 'm sink) outcome" where
  "blocking_send event sender = push_sink event sender"

fun recv_timeout ::
  "duration \<Rightarrow> instant \<Rightarrow> 'm receiver \<Rightarrow> 'm received \<times> instant \<times> 'm receiver" where
  "recv_timeout timeout now rx =
     (case rx_arrivals rx of
        (at, m) # rest \<Rightarrow>
          if at \<le> now + timeout then (Received m, max now at, rx\<lparr>rx_arrivals := rest\<rparr>)
          else (TimedOut, now + timeout, rx)
      | [] \<Rightarrow>
          (case rx_hangup rx of
             Some at \<Rightarrow>
               if at \<le> now + timeout then (Disconnected, max now at, rx)
               else (TimedOut, now + timeout, rx)
           | None \<Rightarrow> (TimedOut, now + timeout, rx)))"

fun recv_blocking :: "instant \<Rightarrow> 'm receiver \<Rightarrow> 'm received \<times> instant \<times> 'm receiver" where
  "recv_blocking now rx =
     (case rx_arrivals rx of
        (at, m) # rest \<Rightarrow> (Received m, max now at, rx\<lparr>rx_arrivals := rest\<rparr>)
      | [] \<Rightarrow>
          (case rx_hangup rx of
             Some at \<Rightarrow> (Disconnected, max now at, rx)
           | None \<Rightarrow> (Forever, now, rx)))"

section \<open>The loop\<close>

type_synonym 's timed = "'s \<times> ordered_timer"

record ('m, 's) blocking_loop =
  bl_now :: instant
  bl_receiver :: "'m receiver"
  bl_timed :: "'s timed"

definition blocking_start :: "instant \<Rightarrow> 'm receiver \<Rightarrow> 's \<Rightarrow> ('m, 's) blocking_loop" where
  "blocking_start now rx s = \<lparr>bl_now = now, bl_receiver = rx, bl_timed = (s, ordered_new)\<rparr>"

definition blocking_wait ::
  "('m, 's) blocking_loop \<Rightarrow> 'm received \<times> instant \<times> 'm receiver" where
  "blocking_wait r =
     (case ordered_deadline (snd (bl_timed r)) of
        Some deadline \<Rightarrow> recv_timeout (deadline - bl_now r) (bl_now r) (bl_receiver r)
      | None \<Rightarrow> recv_blocking (bl_now r) (bl_receiver r))"

definition blocking_iter ::
  "(instant \<Rightarrow> 'm \<Rightarrow> 's timed \<Rightarrow> (unit, 's timed) outcome) \<Rightarrow>
   (instant \<Rightarrow> timer_id \<Rightarrow> 's timed \<Rightarrow> (unit, 's timed) outcome) \<Rightarrow> duration \<Rightarrow>
   ('m, 's) blocking_loop \<Rightarrow> (unit, ('m, 's) blocking_loop) outcome option" where
  "blocking_iter on_event on_timer lag r =
     (case blocking_wait r of (event, now, rx) \<Rightarrow>
        let put = (\<lambda>s. \<lparr>bl_now = now + lag, bl_receiver = rx, bl_timed = s\<rparr>) in
        case event of
          Received m \<Rightarrow> Some (lift_outcome put (on_event now m (bl_timed r)))
        | TimedOut \<Rightarrow>
            Some (lift_outcome put
              (and_then (lift_outcome (Pair (fst (bl_timed r))) (ordered_advance (snd (bl_timed r))))
                (on_timer now)))
        | Disconnected \<Rightarrow> Some (Err (Bail ''channel is empty and sending half is closed'') (put (bl_timed r)))
        | Forever \<Rightarrow> None)"

fun blocking_run ::
  "(instant \<Rightarrow> 'm \<Rightarrow> 's timed \<Rightarrow> (unit, 's timed) outcome) \<Rightarrow>
   (instant \<Rightarrow> timer_id \<Rightarrow> 's timed \<Rightarrow> (unit, 's timed) outcome) \<Rightarrow> duration list \<Rightarrow>
   ('m, 's) blocking_loop \<Rightarrow> (unit, ('m, 's) blocking_loop) outcome option" where
  "blocking_run on_event on_timer [] r = Some (Ok () r)"
| "blocking_run on_event on_timer (lag # lags) r =
     (case blocking_iter on_event on_timer lag r of
        None \<Rightarrow> None
      | Some (Err e r') \<Rightarrow> Some (Err e r')
      | Some (Ok _ r') \<Rightarrow> blocking_run on_event on_timer lags r')"

section \<open>The UDP net\<close>

text \<open>
  The socket's options, and the results of \<open>recv_from\<close> to come. \<open>recv\<close> sets the \<^bold>\<open>write\<close> timeout
  before each receive. How long a handler takes comes with the datagram.
\<close>

record udp_socket =
  us_read_timeout :: "duration option"
  us_write_timeout :: "duration option"

fun udp_recv_from ::
  "instant \<Rightarrow> (instant \<times> 'd) option \<Rightarrow> udp_socket \<Rightarrow> 'd received \<times> instant" where
  "udp_recv_from now None sock =
     (case us_read_timeout sock of None \<Rightarrow> (Forever, now) | Some t \<Rightarrow> (TimedOut, now + t))"
| "udp_recv_from now (Some (at, d)) sock =
     (case us_read_timeout sock of
        None \<Rightarrow> (Received d, max now at)
      | Some t \<Rightarrow> if at \<le> now + t then (Received d, max now at) else (TimedOut, now + t))"

text \<open>One pass of the loop's head: \<open>None\<close> when the deadline is over.\<close>

definition udp_before_recv :: "instant option \<Rightarrow> instant \<Rightarrow> udp_socket \<Rightarrow> udp_socket option" where
  "udp_before_recv deadline now sock =
     (case deadline of
        None \<Rightarrow> Some sock
      | Some d \<Rightarrow> if d - now = 0 then None else Some (sock\<lparr>us_write_timeout := Some (d - now)\<rparr>))"

fun blocking_udp_recv ::
  "(bytes \<Rightarrow> 's \<Rightarrow> (unit, 's) outcome) \<Rightarrow> instant option \<Rightarrow> instant \<Rightarrow>
   (instant \<times> (error + bytes) \<times> duration) list \<Rightarrow> udp_socket \<Rightarrow> 's \<Rightarrow>
   (instant, 's) outcome option" where
  "blocking_udp_recv on_buf deadline now [] sock s =
     (case udp_before_recv deadline now sock of
        None \<Rightarrow> Some (Ok now s)
      | Some sock1 \<Rightarrow>
          (case udp_recv_from now (None :: (instant \<times> unit) option) sock1 of
             (TimedOut, now1) \<Rightarrow> Some (Ok now1 s)
           | _ \<Rightarrow> None))"
| "blocking_udp_recv on_buf deadline now ((at, datagram, lag) # ds) sock s =
     (case udp_before_recv deadline now sock of
        None \<Rightarrow> Some (Ok now s)
      | Some sock1 \<Rightarrow>
          (case udp_recv_from now (Some (at, datagram)) sock1 of
             (TimedOut, now1) \<Rightarrow> Some (Ok now1 s)
           | (Received (Inl e), now1) \<Rightarrow> Some (Err e s)
           | (Received (Inr buf), now1) \<Rightarrow>
               (case on_buf (take (2 ^ 16) buf) s of
                  Err e s1 \<Rightarrow> Some (Err e s1)
                | Ok _ s1 \<Rightarrow> blocking_udp_recv on_buf deadline (now1 + lag) ds sock1 s1)
           | _ \<Rightarrow> None))"

definition blocking_udp_send ::
  "'a \<Rightarrow> bytes \<Rightarrow> ('a \<times> bytes) sink \<Rightarrow> (unit, ('a \<times> bytes) sink) outcome" where
  "blocking_udp_send dest buf socket = push_sink (dest, buf) socket"

fun blocking_udp_send_all ::
  "'a list \<Rightarrow> bytes \<Rightarrow> ('a \<times> bytes) sink \<Rightarrow> (unit, ('a \<times> bytes) sink) outcome" where
  "blocking_udp_send_all [] buf socket = Ok () socket"
| "blocking_udp_send_all (dest # rest) buf socket =
     and_then (blocking_udp_send dest buf socket) (\<lambda>_. blocking_udp_send_all rest buf)"


section \<open>What the loop relies on, and what it promises\<close>

definition timed_ok :: "'s timed \<Rightarrow> bool" where
  "timed_ok s \<longleftrightarrow> ordered_ok (snd s)"

locale blocking_client =
  fixes on_event :: "instant \<Rightarrow> 'm \<Rightarrow> 's timed \<Rightarrow> (unit, 's timed) outcome"
    and on_timer :: "instant \<Rightarrow> timer_id \<Rightarrow> 's timed \<Rightarrow> (unit, 's timed) outcome"
  assumes event_keeps: "timed_ok s \<Longrightarrow> timed_ok (after (on_event now m s))"
    and timer_keeps: "timed_ok s \<Longrightarrow> timed_ok (after (on_timer now i s))"
begin

lemma deadline_advance:
  assumes "timed_ok s" and "ordered_deadline (snd s) = Some d"
  obtains i st t where "ordered_advance (snd s) = Ok i t" "timed_ok (fst s, t)"
    "hm_get (ord_states (snd s)) i = Some st" "ts_deadline st = d"
    "\<forall>j st'. hm_get (ord_states (snd s)) j = Some st' \<longrightarrow> d \<le> ts_deadline st'"
proof -
  from assms(2) obtain i rest where "ord_deadlines (snd s) = (d, i) # rest"
    by (auto simp: ordered_deadline_def split: list.splits)
  with assms(1) obtain st where "hm_get (ord_states (snd s)) i = Some st"
    unfolding timed_ok_def ordered_ok_def by (metis list.set_intros(1))
  then have "ordered_live (snd s) \<noteq> {}"
    by (auto simp: ordered_live_def hm_has_def)
  with assms show ?thesis
    by (elim ordered_advance_ok [rotated]) (auto simp: timed_ok_def intro: that)
qed

lemma wait_timed_out:
  assumes "blocking_wait r = (TimedOut, now, rx)"
  obtains d where "ordered_deadline (snd (bl_timed r)) = Some d" "d \<le> now"
  using assms
  by (auto simp: blocking_wait_def split: option.splits list.splits if_splits intro: that)

lemma iter_keeps:
  assumes "timed_ok (bl_timed r)" and "blocking_iter on_event on_timer lag r = Some m"
  shows "timed_ok (bl_timed (after m))"
proof -
  obtain event now rx where w: "blocking_wait r = (event, now, rx)" by (cases "blocking_wait r")
  show ?thesis
  proof (cases event)
    case TimedOut
    with w obtain d where d: "ordered_deadline (snd (bl_timed r)) = Some d"
      by (auto elim: wait_timed_out)
    from deadline_advance [OF assms(1) d] obtain i st t where
      "ordered_advance (snd (bl_timed r)) = Ok i t" "timed_ok (fst (bl_timed r), t)" .
    with assms(2) w TimedOut show ?thesis
      by (auto simp: blocking_iter_def timer_keeps)
  qed (use assms w in \<open>auto simp: blocking_iter_def event_keeps\<close>)
qed

lemma run_keeps:
  "timed_ok (bl_timed r) \<Longrightarrow> blocking_run on_event on_timer lags r = Some m \<Longrightarrow>
     timed_ok (bl_timed (after m))"
proof (induction lags arbitrary: r)
  case (Cons lag lags)
  then show ?case
    by (auto split: option.splits outcome.splits dest: iter_keeps)
qed auto

lemma start_ok: "timed_ok (bl_timed (blocking_start now rx s))"
  by (simp add: blocking_start_def timed_ok_def ordered_ok_def ordered_new_def ordered_live_def
      hm_has_def)

lemma fires_due:
  assumes "blocking_run on_event on_timer lags (blocking_start now0 rx0 s) = Some m"
    and "blocking_wait (after m) = (TimedOut, now, rx)"
  shows "\<exists>i st t. ordered_advance (snd (bl_timed (after m))) = Ok i t \<and>
    hm_get (ord_states (snd (bl_timed (after m)))) i = Some st \<and> ts_deadline st \<le> now \<and>
    (\<forall>j st'. hm_get (ord_states (snd (bl_timed (after m)))) j = Some st' \<longrightarrow>
       ts_deadline st \<le> ts_deadline st')"
proof -
  have ok: "timed_ok (bl_timed (after m))" using start_ok assms(1) by (rule run_keeps)
  obtain d where d: "ordered_deadline (snd (bl_timed (after m))) = Some d" "d \<le> now"
    using assms(2) by (rule wait_timed_out)
  from deadline_advance [OF ok d(1)] obtain i st t where adv:
    "ordered_advance (snd (bl_timed (after m))) = Ok i t"
    "hm_get (ord_states (snd (bl_timed (after m)))) i = Some st" "ts_deadline st = d"
    "\<forall>j st'. hm_get (ord_states (snd (bl_timed (after m)))) j = Some st' \<longrightarrow> d \<le> ts_deadline st'" .
  then show ?thesis
    using d(2) by (intro exI [of _ i] exI [of _ st] exI [of _ t]) simp
qed

end

section \<open>A replica under the loop\<close>

definition untimed_event ::
  "('m \<Rightarrow> 's \<Rightarrow> (unit, 's) outcome) \<Rightarrow> instant \<Rightarrow> 'm \<Rightarrow> 's timed \<Rightarrow> (unit, 's timed) outcome" where
  "untimed_event on_event now m s = lift_outcome (\<lambda>x. (x, snd s)) (on_event m (fst s))"

interpretation unrep: blocking_client "untimed_event (unrep_replica_on_event execute)"
    "untimed_event unrep_replica_on_timer" for execute
  by unfold_locales (simp_all add: untimed_event_def timed_ok_def)

fun replica_events ::
  "(payload \<Rightarrow> 'app \<Rightarrow> (payload, 'app) outcome) \<Rightarrow> 'a unrep_replica_event list \<Rightarrow>
   ('a, 'app) unrep_replica \<Rightarrow> (unit, ('a, 'app) unrep_replica) outcome" where
  "replica_events execute [] r = Ok () r"
| "replica_events execute (e # es) r =
     and_then (unrep_replica_on_event execute e r) (\<lambda>_. replica_events execute es)"

fun served_by :: "(unit, ('m, 's) blocking_loop) outcome \<Rightarrow> (unit, 's) outcome" where
  "served_by (Ok _ r) = Ok () (fst (bl_timed r))"
| "served_by (Err e r) = Err e (fst (bl_timed r))"

lemma idle_iter:
  assumes "ordered_deadline t = None" and "rx_arrivals rx = (at, m) # rest"
  shows "blocking_iter on_event on_timer lag \<lparr>bl_now = now, bl_receiver = rx, bl_timed = (s, t)\<rparr> =
    Some (lift_outcome (\<lambda>s. \<lparr>bl_now = max now at + lag, bl_receiver = rx\<lparr>rx_arrivals := rest\<rparr>,
      bl_timed = s\<rparr>) (on_event (max now at) m (s, t)))"
  using assms by (simp add: blocking_iter_def blocking_wait_def)

lemma replica_idle_run:
  assumes "length lags \<le> length (rx_arrivals rx)"
  shows "map_option served_by (blocking_run (untimed_event (unrep_replica_on_event execute))
      (untimed_event unrep_replica_on_timer) lags
      \<lparr>bl_now = now, bl_receiver = rx, bl_timed = (s, ordered_new)\<rparr>) =
    Some (replica_events execute (map snd (take (length lags) (rx_arrivals rx))) s)"
  using assms
proof (induction lags arbitrary: now rx s)
  case (Cons lag lags)
  then obtain at m rest where rx: "rx_arrivals rx = (at, m) # rest"
    by (cases "rx_arrivals rx") auto
  have "ordered_deadline ordered_new = None" by (simp add: ordered_deadline_def ordered_new_def)
  note it = idle_iter [OF this rx]
  have len: "length lags \<le> length (rx_arrivals (rx\<lparr>rx_arrivals := rest\<rparr>))"
    using Cons.prems rx by simp
  from Cons.IH [OF len, of "max now at + lag"] rx show ?case
    by (cases "unrep_replica_on_event execute m s") (simp_all add: it untimed_event_def)
qed simp

text \<open>C29: the event loop and the replica together. Run by the blocking loop, the unreplicated replica
  handles the messages of its channel one by one in their order, however long the handlers take,
  exactly as if its handler were applied to them in sequence; it never reaches its \<open>on_timer\<close>, which
  is unreachable, and ends where the first handler fails.\<close>

theorem blocking_replica:
  assumes "length lags \<le> length (rx_arrivals rx)"
  shows "map_option served_by (blocking_run (untimed_event (unrep_replica_on_event execute))
      (untimed_event unrep_replica_on_timer) lags (blocking_start now rx s)) =
    Some (replica_events execute (map snd (take (length lags) (rx_arrivals rx))) s)"
  unfolding blocking_start_def by (rule replica_idle_run [OF assms])

text \<open>Timers under the blocking loop. For every program whose handlers leave the timer consistent, at
  whatever point of its run: when the loop gives up waiting for a message, \<open>advance\<close> succeeds, and
  the timer it fires is overdue and has the earliest deadline of all. No timer fires early, and the
  errors of \<open>advance\<close> never end the loop.\<close>

theorem blocking_fires_due:
  assumes "\<And>now m s. timed_ok s \<Longrightarrow> timed_ok (after (on_event now m s))"
    and "\<And>now i s. timed_ok s \<Longrightarrow> timed_ok (after (on_timer now i s))"
    and "blocking_run on_event on_timer lags (blocking_start now0 rx0 s) = Some m"
    and "blocking_wait (after m) = (TimedOut, now, rx)"
  shows "\<exists>i st t. ordered_advance (snd (bl_timed (after m))) = Ok i t \<and>
    hm_get (ord_states (snd (bl_timed (after m)))) i = Some st \<and> ts_deadline st \<le> now \<and>
    (\<forall>j st'. hm_get (ord_states (snd (bl_timed (after m)))) j = Some st' \<longrightarrow>
       ts_deadline st \<le> ts_deadline st')"
  by (rule blocking_client.fires_due [OF _ assms(3,4)])
    (unfold_locales, use assms(1,2) in auto)

text \<open>But it may fire late: as long as messages are queued no timer fires, however overdue.\<close>

lemma queued_iter:
  assumes "rx_arrivals (bl_receiver r) = (at, m) # rest" and "at \<le> bl_now r"
  shows "blocking_iter on_event on_timer lag r =
    Some (lift_outcome (\<lambda>s. \<lparr>bl_now = bl_now r + lag,
      bl_receiver = (bl_receiver r)\<lparr>rx_arrivals := rest\<rparr>, bl_timed = s\<rparr>)
      (on_event (bl_now r) m (bl_timed r)))"
  using assms by (simp add: blocking_iter_def blocking_wait_def max_def split: option.split)

theorem blocking_starves_timers:
  assumes "length lags \<le> length (rx_arrivals (bl_receiver r))"
    and "list_all (\<lambda>(at, m). at \<le> bl_now r) (rx_arrivals (bl_receiver r))"
  shows "blocking_run on_event on_timer lags r = blocking_run on_event on_timer' lags r"
  using assms
proof (induction lags arbitrary: r)
  case (Cons lag lags)
  then obtain at m rest where rx: "rx_arrivals (bl_receiver r) = (at, m) # rest" "at \<le> bl_now r"
    by (cases "rx_arrivals (bl_receiver r)") auto
  have "list_all (\<lambda>(a, m). a \<le> bl_now r + lag) rest"
    using Cons.prems(2) rx by (auto elim!: list.pred_mono_strong)
  with Cons rx show ?case
    by (cases "on_event (bl_now r) m (bl_timed r)") (simp_all add: queued_iter [OF rx])
qed simp

section \<open>The deadline of the UDP net\<close>

lemma udp_before_recv_cases:
  "udp_before_recv deadline now sock = None \<or>
   (\<exists>w. udp_before_recv deadline now sock = Some (sock\<lparr>us_write_timeout := w\<rparr>))"
  by (cases sock) (auto simp: udp_before_recv_def split: option.split)

text \<open>The deadline of \<open>recv\<close> is not kept. It is set as the write timeout of a socket that is only read:
  on a socket without a read timeout, a \<open>recv\<close> that still waits when all datagrams were handled
  before the deadline blocks for ever, while with no datagram and the deadline over it returns.\<close>

theorem udp_deadline_ignored:
  assumes "us_read_timeout sock = None" and "now < d"
  shows "blocking_udp_recv on_buf (Some d) now [] sock s = None \<and>
    blocking_udp_recv on_buf (Some d) d [] sock s = Some (Ok d s)"
  using assms by (simp add: udp_before_recv_def)

theorem udp_late_datagram:
  assumes "us_read_timeout sock = None" and "now < d" and "d \<le> at"
    and "on_buf (take (2 ^ 16) buf) s = Ok () s1"
  shows "blocking_udp_recv on_buf (Some d) now [(at, Inr buf, lag)] sock s = Some (Ok (at + lag) s1)"
  using assms by (simp add: udp_before_recv_def max_def)


section \<open>Samples\<close>

definition sample_inbox :: "unit unrep_replica_event receiver" where
  "sample_inbox = \<lparr>rx_arrivals = [(5, UIngress (sample_unrep_request 1 1)),
     (6, UIngress (sample_unrep_request 1 1)), (30, UIngress (sample_unrep_request 2 1))],
     rx_hangup = None\<rparr>"

lemma blocking_replica_witness:
  "map_option served_by (blocking_run
      (untimed_event (unrep_replica_on_event (\<lambda>op n. Ok op (n + 1))))
      (untimed_event unrep_replica_on_timer) [9, 0, 2]
      (blocking_start 0 sample_inbox (unrep_replica_new (0 :: nat) open_sink))) =
    Some (replica_events (\<lambda>op n. Ok op (n + 1)) (map snd (rx_arrivals sample_inbox))
      (unrep_replica_new 0 open_sink)) \<and>
   urep_app (after (replica_events (\<lambda>op n. Ok op (n + 1)) (map snd (rx_arrivals sample_inbox))
      (unrep_replica_new 0 (open_sink :: (unit \<times> unrep_reply) sink)))) = (2 :: nat)"
proof -
  have "length [9, 0, 2 :: nat] \<le> length (rx_arrivals sample_inbox)" by (simp add: sample_inbox_def)
  from blocking_replica [OF this, of "\<lambda>op n. Ok op (n + 1)" 0 "unrep_replica_new (0 :: nat) open_sink"]
  show ?thesis
    by (simp add: sample_inbox_def)
      (simp add: unrep_on_request_def unrep_replica_new_def unrep_reply_to_def
        sample_unrep_request_def open_sink_def Let_def)
qed

text \<open>A program that sets a timer of the period it receives.\<close>

definition sample_sets :: "instant \<Rightarrow> duration \<Rightarrow> unit timed \<Rightarrow> (unit, unit timed) outcome" where
  "sample_sets now period s =
     (if ord_id (snd s) = - 1 then Err (Panic ''overflow'') s
      else lift_outcome (Pair (fst s)) (and_then (ordered_set now period (snd s)) (\<lambda>_ t. Ok () t)))"

definition sample_ticks :: "instant \<Rightarrow> timer_id \<Rightarrow> unit timed \<Rightarrow> (unit, unit timed) outcome" where
  "sample_ticks now i s = Ok () s"

lemma sample_sets_ok:
  assumes "timed_ok s"
  shows "timed_ok (after (sample_sets now p s))"
proof (cases "ord_id (snd s) = - 1")
  case False
  then have "unat (ord_id (snd s)) \<noteq> unat (- 1 :: u32)" by (simp only: word_unat_eq_iff not_False_eq_True)
  with unat_u32_less [of "ord_id (snd s)"] have "0 < ids_left (ord_id (snd s))"
    by (simp add: ids_left_def unsigned_minus_1_eq_mask mask_eq_exp_minus_1)
  from ord.set_fresh [OF _ this, of now p] assms obtain i t where
    "ordered_set now p (snd s) = Ok i t" "ordered_ok t"
    unfolding timed_ok_def by auto
  with False show ?thesis by (simp add: sample_sets_def timed_ok_def)
qed (use assms in \<open>simp add: sample_sets_def\<close>)

lemma blocking_fires_due_witness:
  "\<exists>m. blocking_run sample_sets sample_ticks [2, 3]
       (blocking_start 0 \<lparr>rx_arrivals = [(1, 20), (2, 10), (99, 7)], rx_hangup = None\<rparr> ()) = Some m \<and>
     (\<exists>rx. blocking_wait (after m) = (TimedOut, 13, rx)) \<and>
     (\<exists>i st t. ordered_advance (snd (bl_timed (after m))) = Ok i t \<and>
        hm_get (ord_states (snd (bl_timed (after m)))) i = Some st \<and> ts_deadline st \<le> 13)"
proof -
  let ?rx = "\<lparr>rx_arrivals = [(1, 20), (2, 10), (99, 7 :: nat)], rx_hangup = None\<rparr>"
  let ?run = "blocking_run sample_sets sample_ticks [2, 3] (blocking_start 0 ?rx ())"
  have run: "\<exists>m rx. ?run = Some m \<and> blocking_wait (after m) = (TimedOut, 13, rx)"
    by (simp add: blocking_start_def blocking_iter_def blocking_wait_def sample_sets_def
        ordered_set_def ordered_new_def ordered_deadline_def insort_insert_key_def less_eq_prod_def)
  then obtain m rx where m: "?run = Some m" "blocking_wait (after m) = (TimedOut, 13, rx)" by blast
  have "timed_ok (after (sample_ticks now i s))" if "timed_ok s" for now i s
    using that by (simp add: sample_ticks_def)
  from blocking_fires_due [OF sample_sets_ok this m] m show ?thesis by auto
qed

end
