(* ===== verification/Check_Appends.thy ===== *)
theory Check_Appends
  imports Unrep_Safety "HOL-Library.Sublist"
begin

text \<open>
  \<open>examples/check-unreplicated.rs\<close>: the invariant \<open>append_linearizable\<close> that the example has the
  model checker test when several clients append to one key, and that it holds in every state.

  \<open>serde_json\<close> decodes results here, which the service never does: \<open>dec_result\<close> is a parameter
  next to the codec. Values of equal length are equal in every state, so the order in which
  \<open>sort_unstable_by_key\<close> leaves them does not matter; the model sorts stably.
\<close>

section \<open>The invariant of the example\<close>

definition append_value ::
  "(kv_op, kv_result) codec \<Rightarrow> (bytes \<Rightarrow> error + kv_result) \<Rightarrow> payload \<times> payload \<Rightarrow> error + string" where
  "append_value codec dec_result x =
     (case x of (op, result) \<Rightarrow>
        case dec_op codec op of
          Inl e \<Rightarrow> Inl e
        | Inr (Append _ value_end) \<Rightarrow>
            (case dec_result result of
               Inl e \<Rightarrow> Inl e
             | Inr (AppendResult value) \<Rightarrow>
                 if suffix value_end value then Inr value else Inl (Bail ''op get result'')
             | Inr _ \<Rightarrow> Inl (Bail ''unexpected result''))
        | Inr _ \<Rightarrow> Inl (Bail ''unexpected op''))"

fun all_values ::
  "(kv_op, kv_result) codec \<Rightarrow> (bytes \<Rightarrow> error + kv_result) \<Rightarrow> (payload \<times> payload) list \<Rightarrow>
   error + string list" where
  "all_values codec dec_result [] = Inr []"
| "all_values codec dec_result (x # xs) =
     (case append_value codec dec_result x of
        Inl e \<Rightarrow> Inl e
      | Inr value \<Rightarrow>
          (case all_values codec dec_result xs of Inl e \<Rightarrow> Inl e | Inr values \<Rightarrow> Inr (value # values)))"

fun windows_consistent :: "string list \<Rightarrow> error + unit" where
  "windows_consistent (prev_value # value # rest) =
     (if prefix prev_value value then windows_consistent (value # rest)
      else Inl (Bail ''value inconsistent with prev_value''))"
| "windows_consistent _ = Inr ()"

definition append_linearizable ::
  "(kv_op, kv_result) codec \<Rightarrow> (bytes \<Rightarrow> error + kv_result) \<Rightarrow>
   ('w recorded, 'at) check_state \<Rightarrow> error + unit" where
  "append_linearizable codec dec_result s =
     (case all_values codec dec_result
             (concat (map (\<lambda>c. rec_invocations (cl_workload (cs_close_loop c))) (ck_clients s))) of
        Inl e \<Rightarrow> Inl e
      | Inr all_results \<Rightarrow> windows_consistent (sort_key length all_results))"

text \<open>The clients of the example: each appends \<open>0\<close>, \<open>1\<close> and \<open>2\<close> to the same key.\<close>

fun encode_ops :: "(kv_op, kv_result) codec \<Rightarrow> kv_op list \<Rightarrow> error + payload list" where
  "encode_ops codec [] = Inr []"
| "encode_ops codec (op # ops) =
     (case enc_op codec op of
        Inl e \<Rightarrow> Inl e
      | Inr b \<Rightarrow> (case encode_ops codec ops of Inl e \<Rightarrow> Inl e | Inr bs \<Rightarrow> Inr (b # bs)))"

definition same_key_workload :: "(kv_op, kv_result) codec \<Rightarrow> error + payload list recorded" where
  "same_key_workload codec =
     map_sum (\<lambda>e. e) recorded_new (encode_ops codec (map (Append ''foo'') [''0'', ''1'', ''2'']))"

definition clients_done :: "('w, 'at) check_state \<Rightarrow> bool" where
  "clients_done s \<longleftrightarrow> list_all (\<lambda>c. cl_done (cs_close_loop c)) (ck_clients s)"

section \<open>Where operations come from\<close>

abbreviation append_workload :: "(payload list recorded, payload \<times> unit) workload" where
  "append_workload \<equiv> recorded_workload (iter_workload list_iterator)"

definition loop_ops ::
  "(payload \<Rightarrow> bool) \<Rightarrow> (payload list recorded, payload \<times> unit, 'f) close_loop \<Rightarrow> bool" where
  "loop_ops Q l \<longleftrightarrow> list_all Q (rec_inner (cl_workload l)) \<and>
     list_all (Q \<circ> fst) (rec_invocations (cl_workload l)) \<and>
     (\<forall>x. cl_attach l = Some x \<longrightarrow> Q (fst x))"

lemma next_ops:
  assumes "list_all Q (rec_inner w)" and "wl_next append_workload now w = Ok next w'"
  shows "rec_invocations w' = rec_invocations w \<and> list_all Q (rec_inner w') \<and>
    (\<forall>op x. next = Some (op, x) \<longrightarrow> fst x = op \<and> Q op)"
  using assms
  by (cases "rec_inner w") (auto simp: recorded_workload_def iter_workload_def iter_next_def)

lemma init_ops:
  assumes "loop_ops Q l" and "on_init append_workload now l = Ok () l'"
  shows "loop_ops Q l'"
proof -
  obtain r w where n: "wl_next append_workload now (cl_workload l) = Ok r w"
    using assms(2) by (cases "wl_next append_workload now (cl_workload l)") (auto simp: on_init_def)
  note ops = next_ops [OF _ n, of Q]
  from assms n show ?thesis
    by (cases r) (use ops in \<open>auto simp: loop_ops_def on_init_def close_loop_send_def Let_def
        lift_outcome_Ok_iff split: if_splits\<close>)
qed

lemma invoke_ok_ops:
  assumes "loop_ops Q l" and "on_invoke_ok append_workload now result l = Ok () l'"
  shows "loop_ops Q l'"
proof -
  from assms(2) obtain op where at: "cl_attach l = Some (op, ())"
    by (auto simp: on_invoke_ok_def split: option.splits)
  let ?w = "(cl_workload l)\<lparr>rec_invocations := rec_invocations (cl_workload l) @ [(op, result)]\<rparr>"
  have res: "wl_result append_workload now result (op, ()) (cl_workload l) = Ok () ?w"
    by (simp add: recorded_workload_def iter_workload_def iter_result_def)
  from assms(2) at res obtain r w where n: "wl_next append_workload now ?w = Ok r w"
    by (cases "wl_next append_workload now ?w") (auto simp: on_invoke_ok_def Let_def)
  note ops = next_ops [OF _ n, of Q]
  from assms at res n show ?thesis
    by (cases r) (use ops in \<open>auto simp: loop_ops_def on_invoke_ok_def close_loop_send_def Let_def
        lift_outcome_Ok_iff split: option.splits if_splits\<close>)
qed

lemma upcalls_ops:
  "deliver_upcalls append_workload now upcalls c = Ok () c' \<Longrightarrow> loop_ops Q (cs_close_loop c) \<Longrightarrow>
     loop_ops Q (cs_close_loop c')"
proof (induction upcalls arbitrary: c)
  case (Cons u upcalls)
  obtain i result where u: "u = (i, result)" by (cases u)
  with Cons.prems obtain l where l: "on_invoke_ok append_workload now result (cs_close_loop c) = Ok () l"
    "deliver_upcalls append_workload now upcalls (c\<lparr>cs_close_loop := l\<rparr>) = Ok () c'"
    by (auto simp: and_then_Ok_iff lift_outcome_Ok_iff)
  from Cons.IH [OF l(2)] invoke_ok_ops [OF Cons.prems(2) l(1)] show ?case by simp
qed simp

lemma flush_ops:
  "flush_rerun append_workload now c = Ok () c' \<Longrightarrow> loop_ops Q (cs_close_loop c) \<Longrightarrow>
     loop_ops Q (cs_close_loop c')"
proof (induction append_workload now c rule: flush_rerun.induct)
  case (1 now c)
  let ?i = "pending_invokes c"
  from "1.prems"(1) obtain c1 c2 where
    c1: "deliver_invokes ?i (drain_sender c) = Ok () c1"
    and c2: "deliver_upcalls append_workload now (pending_upcalls c1) (drain_upcall c1) = Ok () c2"
    and rest: "if ?i = [] \<and> pending_upcalls c1 = [] then c' = c2
      else flush_rerun append_workload now c2 = Ok () c'"
    by (subst (asm) flush_rerun.simps) (auto simp: Let_def and_then_Ok_iff split: if_splits)
  have "loop_ops Q (cs_close_loop c1)"
    using deliver_invokes_keeps [OF c1] "1.prems"(2) by (simp add: drain_sender_def loop_ops_def)
  then have "loop_ops Q (cs_close_loop (drain_upcall c1))" by (simp add: drain_upcall_def)
  with upcalls_ops [OF c2] have c2ops: "loop_ops Q (cs_close_loop c2)" by blast
  show ?case
  proof (cases "?i = [] \<and> pending_upcalls c1 = []")
    case True
    with rest c2ops show ?thesis by simp
  next
    case False
    with "1.hyps" [OF refl c1 refl c2 False] rest c2ops show ?thesis by auto
  qed
qed


text \<open>The operations of the clients satisfy \<open>Q\<close>, and the replica knows no other clients.\<close>

definition ops_inv ::
  "(payload \<Rightarrow> bool) \<Rightarrow> (payload list recorded, payload \<times> unit) check_state \<Rightarrow> bool" where
  "ops_inv Q s \<longleftrightarrow> (\<forall>i<length (ck_clients s). loop_ops Q (cs_close_loop (ck_clients s ! i))) \<and>
     (\<forall>id. hm_get (urep_replies (ck_replica s)) id \<noteq> None \<longrightarrow>
       (\<exists>i<length (ck_clients s). id = check_client_id i))"

lemma check_flush_ops:
  assumes "ops_inv Q s" and "check_flush append_workload now s = Ok () s'"
  shows "ops_inv Q s'"
proof -
  from assms(2) obtain cs' events' where
    f: "flush_clients append_workload now (ck_clients s)
      (extend_messages (ck_message_events s) (replica_messages (ck_replica s))) = Ok () (cs', events')"
    and s': "ck_clients s' = cs'" "urep_replies (ck_replica s') = urep_replies (ck_replica s)"
    by (auto simp: check_flush_def Let_def lift_outcome_Ok_iff)
  from flush_clients_Ok [OF f] have len: "length cs' = length (ck_clients s)"
    and each: "\<And>i. i < length (ck_clients s) \<Longrightarrow>
      flush_rerun append_workload now (drain_net (ck_clients s ! i)) = Ok () (cs' ! i)" by auto
  have "loop_ops Q (cs_close_loop (cs' ! i))" if i: "i < length (ck_clients s)" for i
    using flush_ops [OF each [OF i], of Q] assms(1) i by (simp add: ops_inv_def drain_net_def)
  with assms(1) len s' show ?thesis by (simp add: ops_inv_def)
qed

lemma client_call_loop: "client_call f c = Ok () c' \<Longrightarrow> cs_close_loop c' = cs_close_loop c"
  by (auto simp: client_call_def lift_outcome_Ok_iff)

lemma with_client_ops:
  assumes "with_client i (client_call f) s = Ok () s'" and "ops_inv Q s"
  shows "ops_inv Q s'"
proof -
  from assms(1) obtain c where i: "i < length (ck_clients s)"
    and c: "client_call f (ck_clients s ! i) = Ok () c"
    and s': "s' = s\<lparr>ck_clients := (ck_clients s)[i := c]\<rparr>"
    by (auto simp: with_client_def lift_outcome_Ok_iff split: if_splits)
  from client_call_loop [OF c] assms(2) i s' show ?thesis
    by (auto simp: ops_inv_def nth_list_update)
qed

lemma request_known:
  assumes "unrep_on_request execute rq r = Ok () r'" and "hm_get (urep_replies r') cid \<noteq> None"
  shows "hm_get (urep_replies r) cid \<noteq> None \<or> cid = rq_client_id rq"
  using assms
  by (auto simp: unrep_on_request_def unrep_reply_to_def Let_def and_then_Ok_iff lift_outcome_Ok_iff
      split: option.splits if_splits)

lemma dispatch_ops:
  assumes "coherent settled codec n log s" and "event \<in> set (check_events s)"
    and "check_dispatch codec event s = Ok () s'" and "ops_inv Q s"
  shows "ops_inv Q s'"
  using assms
proof (induction codec event s rule: check_dispatch.induct)
  case (1 codec rq s)
  then obtain r where r: "unrep_on_request (kv_execute codec) rq (ck_replica s) = Ok () r"
    "s' = s\<lparr>ck_replica := r\<rparr>" by (auto simp: lift_outcome_Ok_iff)
  from 1(2) have "MessageEvent AddrReplica (MRequest rq) \<in> in_flight s"
    by (auto simp: check_events_def in_flight_def)
  with 1(1) have "message_ok log (ck_clients s) (MessageEvent AddrReplica (MRequest rq))"
    unfolding coherent_def by blast
  then obtain i where "i < length (ck_clients s)" "rq_client_id rq = check_client_id i"
    by (auto simp: request_ok_def)
  moreover have "\<exists>i<length (ck_clients s). cid = check_client_id i"
    if "hm_get (urep_replies (ck_replica s)) cid \<noteq> None" for cid
    using 1(4) that unfolding ops_inv_def by blast
  ultimately have "\<exists>i<length (ck_clients s). cid = check_client_id i"
    if "hm_get (urep_replies r) cid \<noteq> None" for cid
    using request_known [OF r(1) that] by blast
  with 1(4) show ?case by (simp add: ops_inv_def r(2))
next
  case (2 codec i reply s)
  from 2(3) have "with_client i (client_call (unrep_on_reply linear_service reply)) s = Ok () s'" by simp
  from with_client_ops [OF this 2(4)] show ?case .
next
  case (3 codec j i s)
  show ?case by (rule with_client_ops [OF 3(3) [unfolded check_dispatch.simps] 3(4)])
qed simp_all

lemma launch_ops:
  assumes "check_launch append_workload now
      (fold push_client (map recorded_new ws) check_state_new) = Ok () s"
    and "list_all (list_all Q) ws"
  shows "ops_inv Q s"
proof -
  let ?s = "fold push_client (map recorded_new ws) check_state_new ::
    (payload list recorded, payload \<times> unit) check_state"
  from assms(1) obtain cs where cs: "launch_clients append_workload now (ck_clients ?s) = Ok () cs"
    and fl: "check_flush append_workload now (?s\<lparr>ck_clients := cs\<rparr>) = Ok () s"
    by (auto simp: check_launch_def and_then_Ok_iff lift_outcome_Ok_iff)
  from push_clients [of "map recorded_new ws" "check_state_new :: (payload list recorded, payload \<times> unit) check_state"]
  have len: "length (ck_clients ?s) = length ws"
    and r: "ck_replica ?s = unrep_replica_new kv_new open_sink"
    and c: "\<And>i. i < length ws \<Longrightarrow> cl_attach (cs_close_loop (ck_clients ?s ! i)) = None \<and>
      cl_workload (cs_close_loop (ck_clients ?s ! i)) = recorded_new (ws ! i)"
    by (auto simp: fresh_client_def)
  have "loop_ops Q (cs_close_loop (cs ! i))" if i: "i < length ws" for i
  proof -
    have "loop_ops Q (cs_close_loop (ck_clients ?s ! i))"
      using c [OF i] assms(2) i by (simp add: loop_ops_def recorded_new_def list_all_length)
    with init_ops launch_clients_Ok [OF cs] len i show ?thesis by fastforce
  qed
  with launch_clients_Ok [OF cs] len r have "ops_inv Q (?s\<lparr>ck_clients := cs\<rparr>)"
    by (simp add: ops_inv_def unrep_replica_new_def)
  with fl show ?thesis by (rule check_flush_ops [rotated])
qed

lemma reach_ops:
  assumes "check_reach append_workload codec (map recorded_new ws) n s"
    and "Suc n < 2 ^ 32" and "length ws \<le> 2 ^ 32" and "list_all (list_all Q) ws"
  shows "ops_inv Q s"
  using assms
proof (induction rule: check_reach.induct)
  case (launched now s)
  then show ?case by (blast intro: launch_ops)
next
  case (stepped n s event now s')
  from reach_coherent [OF stepped(1) _ stepped.prems(2)] stepped.prems(1) obtain log where
    "coherent settled codec (Suc n) log s" by auto
  moreover from stepped(3) obtain s1 where "check_dispatch codec event s = Ok () s1"
    "check_flush append_workload now s1 = Ok () s'"
    by (auto simp: check_step_def and_then_Ok_iff)
  moreover have "ops_inv Q s" using stepped.IH stepped.prems by simp
  ultimately show ?case using dispatch_ops [OF _ stepped(2)] check_flush_ops by blast
qed

text \<open>So every operation of the log satisfies \<open>Q\<close>.\<close>

lemma settled_ops:
  assumes "settled E c" and "loop_ops Q (cs_close_loop c)" and "(op, result) \<in> set E"
  shows "Q op"
proof -
  from assms(1) have "E = invocations_of c \<or> (\<exists>at. cl_attach (cs_close_loop c) = Some (fst (last E), at) \<and>
      E \<noteq> [] \<and> invocations_of c = butlast E)"
    by (auto simp: settled_def)
  then show ?thesis
  proof
    assume "E = invocations_of c"
    with assms(2,3) show ?thesis by (auto simp: loop_ops_def list_all_iff)
  next
    assume "\<exists>at. cl_attach (cs_close_loop c) = Some (fst (last E), at) \<and> E \<noteq> [] \<and>
      invocations_of c = butlast E"
    then obtain at where at: "cl_attach (cs_close_loop c) = Some (fst (last E), at)" "E \<noteq> []"
      "invocations_of c = butlast E" by blast
    from assms(3) at(2) have "(op, result) \<in> set (butlast E) \<or> (op, result) = last E"
      by (metis append_butlast_last_id in_set_conv_decomp rotate1.simps(2) set_ConsD set_rotate1)
    moreover have "op = fst (last E)" if "(op, result) = last E" using that by (metis fst_conv)
    ultimately show ?thesis using at assms(2) by (auto simp: loop_ops_def list_all_iff)
  qed
qed

lemma log_ops:
  assumes "coherent settled codec n log s" and "ops_inv Q s" and "x \<in> set log"
  shows "Q (rq_op (fst x))"
proof -
  have mem: "x \<in> set (logged_for (rq_client_id (fst x)) log)"
    using assms(3) by (simp add: logged_for_mem)
  then have "logged_for (rq_client_id (fst x)) log \<noteq> []" by auto
  then have "last_logged (rq_client_id (fst x)) log \<noteq> None" by (simp add: last_logged_def)
  with assms(1) have "hm_get (urep_replies (ck_replica s)) (rq_client_id (fst x)) \<noteq> None"
    by (simp add: coherent_def served_def)
  with assms(2) obtain i where i: "i < length (ck_clients s)" "rq_client_id (fst x) = check_client_id i"
    by (auto simp: ops_inv_def)
  with mem have "(rq_op (fst x), snd x) \<in> set (entries i log)" by (auto simp: entries_def)
  moreover have "settled (entries i log) (ck_clients s ! i)"
    using assms(1) i by (auto simp: coherent_def clients_ok_def)
  moreover have "loop_ops Q (cs_close_loop (ck_clients s ! i))"
    using assms(2) i by (simp add: ops_inv_def)
  ultimately show ?thesis using settled_ops by blast
qed


section \<open>Values of appends to one key\<close>

definition appends_to :: "(kv_op, kv_result) codec \<Rightarrow> string \<Rightarrow> payload \<Rightarrow> bool" where
  "appends_to codec key op \<longleftrightarrow>
     (case dec_op codec op of Inr (Append k _) \<Rightarrow> k = key | _ \<Rightarrow> False)"

lemma appends_toE:
  assumes "appends_to codec key op"
  obtains v where "dec_op codec op = Inr (Append key v)"
  using assms by (auto simp: appends_to_def split: sum.splits kv_op.splits)

text \<open>What one executed append answers, when \<open>final\<close> is the value at the end.\<close>

definition answers ::
  "(kv_op, kv_result) codec \<Rightarrow> string \<Rightarrow> payload \<Rightarrow> payload \<Rightarrow> bool" where
  "answers codec final op result \<longleftrightarrow>
     (\<exists>key v value. dec_op codec op = Inr (Append key v) \<and>
        enc_result codec (AppendResult value) = Inr result \<and> suffix v value \<and> prefix value final)"

definition value_of :: "string \<Rightarrow> string btree \<Rightarrow> string" where
  "value_of key m = (case map_of m key of Some v \<Rightarrow> v | None \<Rightarrow> [])"

lemma append_execute:
  assumes "appends_to codec key op" and "kv_execute codec op m = Ok result m'"
  obtains v where "dec_op codec op = Inr (Append key v)" and "value_of key m' = value_of key m @ v"
    and "enc_result codec (AppendResult (value_of key m')) = Inr result"
  using assms(1)
proof (rule appends_toE)
  fix v assume v: "dec_op codec op = Inr (Append key v)"
  with assms(2) show thesis
    by (intro that [OF v]) (auto simp: kv_execute_def app_execute_def Let_def value_of_def
        bt_insert_get split: sum.splits)
qed

lemma answers_all:
  assumes "apply_ops (kv_execute codec) ops m = Ok results m'" and "list_all (appends_to codec key) ops"
  shows "list_all2 (answers codec (value_of key m')) ops results \<and> prefix (value_of key m) (value_of key m')"
  using assms
proof (induction ops arbitrary: m results)
  case (Cons op ops)
  then obtain r m1 rs where r: "kv_execute codec op m = Ok r m1"
    "apply_ops (kv_execute codec) ops m1 = Ok rs m'" "results = r # rs"
    by (auto simp: and_then_Ok_iff)
  from Cons.prems(2) have "appends_to codec key op" by simp
  from append_execute [OF this r(1)] obtain v where v: "dec_op codec op = Inr (Append key v)"
    "value_of key m1 = value_of key m @ v"
    "enc_result codec (AppendResult (value_of key m1)) = Inr r" .
  from Cons.IH [OF r(2)] Cons.prems(2) have
    IH: "list_all2 (answers codec (value_of key m')) ops rs" "prefix (value_of key m1) (value_of key m')"
    by simp_all
  moreover have "answers codec (value_of key m') op r"
    unfolding answers_def using v IH(2)
    by (intro exI [of _ key] exI [of _ v] exI [of _ "value_of key m1"]) (auto simp: suffix_def)
  moreover have "prefix (value_of key m) (value_of key m')"
    using IH(2) v(2) by (metis prefix_order.trans prefixI)
  ultimately show ?case by (simp add: r(3))
qed simp

lemma answer_value:
  assumes "answers codec final op result"
    and "\<And>r b. enc_result codec r = Inr b \<Longrightarrow> dec_result b = Inr r"
  obtains u where "append_value codec dec_result (op, result) = Inr u" "prefix u final"
  using assms(1) unfolding answers_def
  by (elim exE conjE) (rule that; simp add: append_value_def assms(2))

lemma all_values_Ok:
  assumes "\<And>x. x \<in> set xs \<Longrightarrow> \<exists>value. append_value codec dec_result x = Inr value \<and> prefix value final"
  shows "\<exists>values. all_values codec dec_result xs = Inr values \<and> list_all (\<lambda>v. prefix v final) values"
  using assms
proof (induction xs)
  case (Cons x xs)
  from Cons.prems [of x] obtain u where "append_value codec dec_result x = Inr u"
    "prefix u final" by auto
  with Cons.IH Cons.prems show ?case by auto
qed simp

lemma windows_ok:
  assumes "list_all (\<lambda>v. prefix v final) vals" and "sorted (map length vals)"
  shows "windows_consistent vals = Inr ()"
  using assms
proof (induction vals rule: windows_consistent.induct)
  case (1 u v vs)
  then have "prefix u v" using prefix_length_prefix [of u final v] by simp
  with 1 show ?case by simp
qed simp_all

section \<open>The property\<close>

text \<open>C30: \<open>append_linearizable\<close>, the invariant of the example, holds in every state the model checker
  explores when each client appends to the same key: after any deliveries, losses, repetitions,
  reorderings and timeouts, every recorded result is of an append and ends with what was appended,
  and of any two recorded results the longer continues the shorter.\<close>

theorem check_appends_linearizable:
  assumes "check_reach append_workload codec (map recorded_new ws) n s"
    and "Suc n < 2 ^ 32" and "length ws \<le> 2 ^ 32"
    and "list_all (list_all (appends_to codec key)) ws"
    and "\<And>r b. enc_result codec r = Inr b \<Longrightarrow> dec_result b = Inr r"
  shows "append_linearizable codec dec_result s = Inr ()"
proof -
  from reach_coherent [OF assms(1-3)] obtain log where len: "length (ck_clients s) = length ws"
    and co: "coherent settled codec (Suc n) log s" by blast
  have inv: "ops_inv (appends_to codec key) s" using assms(1-4) by (rule reach_ops)
  let ?final = "value_of key (urep_app (ck_replica s))"
  have "list_all (appends_to codec key) (map (rq_op \<circ> fst) log)"
    using log_ops [OF co inv] by (simp add: list_all_iff)
  with answers_all [of codec "map (rq_op \<circ> fst) log" kv_new "map snd log"] co have
    ans: "list_all2 (answers codec ?final) (map (rq_op \<circ> fst) log) (map snd log)"
    by (simp add: coherent_def served_def)
  have logged: "answers codec ?final (rq_op (fst y)) (snd y)" if "y \<in> set log" for y
    using ans that by (auto simp: list_all2_map1 list_all2_map2 list_all2_same)
  have recorded: "answers codec ?final (fst x) (snd x)" if c: "c \<in> set (ck_clients s)" "x \<in> set (invocations_of c)" for c x
  proof -
    from c(1) obtain i where i: "i < length (ck_clients s)" "c = ck_clients s ! i"
      by (auto simp: in_set_conv_nth)
    with co have "settled (entries i log) c" by (auto simp: coherent_def clients_ok_def)
    then have "invocations_of c \<in> {entries i log, butlast (entries i log)}"
      by (auto simp: settled_def)
    with c(2) have "x \<in> set (entries i log)" by (auto dest: in_set_butlastD)
    then show ?thesis using logged by (auto simp: entries_def logged_for_mem)
  qed
  have "\<exists>value. append_value codec dec_result x = Inr value \<and> prefix value ?final"
    if x: "x \<in> set (concat (map invocations_of (ck_clients s)))" for x
  proof -
    from x obtain c where "c \<in> set (ck_clients s)" "x \<in> set (invocations_of c)" by auto
    from answer_value [OF recorded [OF this] assms(5)] obtain u where
      "append_value codec dec_result (fst x, snd x) = Inr u" "prefix u ?final" .
    then show ?thesis by simp
  qed
  from all_values_Ok [OF this] obtain vals where
    "all_values codec dec_result (concat (map invocations_of (ck_clients s))) = Inr vals"
    "list_all (\<lambda>v. prefix v ?final) vals" by blast
  moreover from this(2) have "windows_consistent (sort_key length vals) = Inr ()"
    by (intro windows_ok [of ?final]) (auto simp: list_all_iff)
  ultimately show ?thesis by (simp add: append_linearizable_def)
qed


text \<open>Two clients that append \<open>b\<close> and \<open>c\<close> to the key \<open>a\<close>, one after the other.\<close>

fun get_kv_result :: "bytes \<Rightarrow> kv_result option" where
  "get_kv_result [] = None"
| "get_kv_result (b # bs) =
     (if b = 0 then Some PutOk else if b = 2 then Some KetyNotFound
      else map_option (\<lambda>(v, _). if b = 1 then GetResult v else AppendResult v) (get_str bs))"

definition plain_result :: "bytes \<Rightarrow> error + kv_result" where
  "plain_result b = or_bail (get_kv_result b)"

lemma plain_result_enc: "enc_result plain_kv r = Inr b \<Longrightarrow> plain_result b = Inr r"
  using get_put_str [where rest = "[]"] by (cases r) (auto simp: plain_kv_def plain_result_def or_bail_def)

definition two_appends :: "payload list list" where
  "two_appends = [[put_kv_op (Append ''a'' ''b'')], [put_kv_op (Append ''a'' ''c'')]]"

definition two_appends_launch ::
  "(unit, (payload list recorded, payload \<times> unit) check_state) outcome" where
  "two_appends_launch = check_launch append_workload 0
     (fold push_client (map recorded_new two_appends) check_state_new)"

fun append_events :: "nat \<Rightarrow> string \<Rightarrow> string \<Rightarrow> check_event list" where
  "append_events i v result =
     [EvTimer 1 i,
      EvMessage (MessageEvent AddrReplica (MRequest \<lparr>rq_client_id = 1000 + of_nat i,
        rq_client_addr = AddrClient i, rq_seq = 1, rq_op = put_kv_op (Append ''a'' v)\<rparr>)),
      EvMessage (MessageEvent (AddrClient i) (MReply \<lparr>ur_seq = 1,
        ur_result = put_kv_result (AppendResult result)\<rparr>))]"

definition two_appends_run ::
  "(unit, (payload list recorded, payload \<times> unit) check_state) outcome" where
  "two_appends_run = and_then two_appends_launch (\<lambda>_.
     check_run append_workload plain_kv (append_events 1 ''c'' ''c'' @ append_events 0 ''b'' ''cb''))"

lemma two_appends_runs:
  "is_ok two_appends_run"
  "map invocations_of (ck_clients (after two_appends_run)) =
     [[(put_kv_op (Append ''a'' ''b''), put_kv_result (AppendResult ''cb''))],
      [(put_kv_op (Append ''a'' ''c''), put_kv_result (AppendResult ''c''))]]"
  by code_simp+

theorem check_appends_linearizable_witness:
  "\<exists>s. two_appends_run = Ok () s \<and> append_linearizable plain_kv plain_result s = Inr () \<and>
     map invocations_of (ck_clients s) =
     [[(put_kv_op (Append ''a'' ''b''), put_kv_result (AppendResult ''cb''))],
      [(put_kv_op (Append ''a'' ''c''), put_kv_result (AppendResult ''c''))]]"
proof -
  from two_appends_runs(1) obtain s where s: "two_appends_run = Ok () s" by (auto simp: is_ok_iff)
  from this [unfolded two_appends_run_def and_then_Ok_iff] obtain s0 where
    "two_appends_launch = Ok () s0"
    and run: "check_run append_workload plain_kv
      (append_events 1 ''c'' ''c'' @ append_events 0 ''b'' ''cb'') s0 = Ok () s"
    by (metis (full_types) old.unit.exhaust)
  then have "check_reach append_workload plain_kv (map recorded_new two_appends) 0 s0"
    by (intro launched) (simp add: two_appends_launch_def)
  from check_run_reach [OF run this] have
    "check_reach append_workload plain_kv (map recorded_new two_appends) 6 s"
    by (simp add: eval_nat_numeral)
  then have lin: "append_linearizable plain_kv plain_result s = Inr ()"
    by (rule check_appends_linearizable [where key = "''a''"])
      (simp_all add: plain_result_enc two_appends_def appends_to_def del: put_kv_op.simps)
  from s lin two_appends_runs(2) [unfolded s after.simps] show ?thesis
    by (intro exI [of _ s] conjI)
qed

end
