(* ===== verification/Check_Collatz.thy ===== *)
theory Check_Collatz
  imports Search_Correct
begin

text \<open>
  The random depth-first search as a whole (\<open>src/src/search.rs\<close>), what pruning means for both
  searches, and \<open>examples/check-collatz.rs\<close>, which searches backwards from 1 for a number that
  defeats the Collatz conjecture.

  A search never expands a pruned state, so it is the search of the system without the events of
  pruned states (\<open>unpruned\<close>). The example prunes numbers with the highest bit set: no doubling of
  a \<open>u64\<close> overflows, and a number the search finds leads to 1 by halving and tripling.
\<close>

section \<open>Random depth-first search\<close>

text \<open>
  The probes of all workers in the order in which they report: the choices of one probe, and when
  the flag \<open>search_finished\<close> stops it. \<open>get_or_insert\<close> keeps the first result.
\<close>

fun random_workers ::
  "('s, 't, 'e) search \<Rightarrow> 's \<Rightarrow> ((nat \<Rightarrow> bool) \<times> nat list) list \<Rightarrow> ('s, 't, 'e) search_result option" where
  "random_workers sr s0 [] = None"
| "random_workers sr s0 ((stops, choices) # probes) =
     (case random_probe sr stops choices 0 s0 [] of
        None \<Rightarrow> random_workers sr s0 probes
      | Some r \<Rightarrow> Some r)"

definition random_depth_first ::
  "('s, 't, 'e) search \<Rightarrow> 's \<Rightarrow> ((nat \<Rightarrow> bool) \<times> nat list) list \<Rightarrow> ('s, 't, 'e) search_result" where
  "random_depth_first sr s0 probes =
     (case random_workers sr s0 probes of None \<Rightarrow> STimeout | Some r \<Rightarrow> r)"

definition breadth_first ::
  "('s, 't, 'e) search \<Rightarrow> nat \<Rightarrow> 's \<Rightarrow> bfs_choice list \<Rightarrow> (error + ('s, 't, 'e) search_result) option" where
  "breadth_first sr num_worker s0 moves =
     map_option (\<lambda>b. bfs_result (sr_into sr) (bf_discovered b) (bf_result b))
       (bfs_run sr moves (bfs_new sr num_worker s0))"

lemma random_depth_first_ok: "report_ok sr s0 (random_depth_first sr s0 probes)"
proof -
  have "report_ok sr s0 r" if "random_workers sr s0 probes = Some r" for r
    using that
  proof (induction probes)
    case (Cons p probes)
    obtain stops choices where p: "p = (stops, choices)" by (cases p)
    have "report_ok sr s0 r" if "random_probe sr stops choices 0 s0 [] = Some r" for r
      by (rule random_probe_ok [OF reaches_init _ that]) simp
    with Cons p show ?case by (auto split: option.splits)
  qed simp
  then show ?thesis by (auto simp: random_depth_first_def report_ok_def split: option.split)
qed

section \<open>Pruning\<close>

definition unpruned :: "('s, 't, 'e) search \<Rightarrow> ('s, 't, 'e) search" where
  "unpruned sr = sr\<lparr>sr_state := (sr_state sr)\<lparr>st_events :=
     (\<lambda>s. if se_prune (sr_settings sr) s then [] else st_events (sr_state sr) s)\<rparr>\<rparr>"

lemma unpruned_simps [simp]:
  "sr_settings (unpruned sr) = sr_settings sr" "sr_into (unpruned sr) = sr_into sr"
  "st_step (sr_state (unpruned sr)) = st_step (sr_state sr)"
  by (simp_all add: unpruned_def)

definition queues_unpruned :: "('s, 't, 'e) search \<Rightarrow> ('s, 't, 'e) bfs \<Rightarrow> bool" where
  "queues_unpruned sr b \<longleftrightarrow>
     list_all (\<lambda>x. \<not> se_prune (sr_settings sr) (fst x)) (bf_even b @ bf_odd b)"

lemma queues_unpruned_queue:
  "queues_unpruned sr b \<longleftrightarrow> list_all (\<lambda>x. \<not> se_prune (sr_settings sr) (fst x)) (bf_queue d b) \<and>
     list_all (\<lambda>x. \<not> se_prune (sr_settings sr) (fst x)) (bf_queue (Suc d) b)"
  by (auto simp: queues_unpruned_def bf_queue_def)

lemma queues_unpruned_simps [simp]:
  "bf_queue d (set_queue d q b) = q" "bf_queue (Suc d) (set_queue d q b) = bf_queue (Suc d) b"
  "bf_queue (Suc d) (set_queue (Suc d) q b) = q" "bf_queue d (set_queue (Suc d) q b) = bf_queue d b"
  "queues_unpruned sr (b\<lparr>bf_workers := ws\<rparr>) = queues_unpruned sr b"
  "queues_unpruned sr (b\<lparr>bf_depth := n\<rparr>) = queues_unpruned sr b"
  "queues_unpruned sr (b\<lparr>bf_discovered := m\<rparr>) = queues_unpruned sr b"
  "bf_queue d (b\<lparr>bf_discovered := m\<rparr>) = bf_queue d b"
  "queues_unpruned sr (search_finish r b) = queues_unpruned sr b"
  "bf_queue d (search_finish r b) = bf_queue d b"
  by (simp_all add: bf_queue_def set_queue_def queues_unpruned_def search_finish_def)

lemma explore_unpruned:
  "explore_event (unpruned sr) d s t e b = explore_event sr d s t e b"
  by (auto simp: explore_event_def Let_def split: outcome.split sum.split)

lemma explore_queues:
  assumes "queues_unpruned sr b"
  shows "queues_unpruned sr (snd (explore_event sr d s t e b))"
proof -
  note q = queues_unpruned_queue [of sr _ d]
  show ?thesis
    using assms by (auto simp: explore_event_def Let_def q split: outcome.split sum.split)
qed

lemma worker_unpruned:
  assumes "queues_unpruned sr b"
  shows "worker_step (unpruned sr) w b = worker_step sr w b"
proof (cases "(sr, w, b)" rule: worker_step.cases)
  case (1 sr' d b')
  show ?thesis
  proof (cases "bf_queue d b")
    case (Cons x q)
    with assms have "\<not> se_prune (sr_settings sr) (fst x)"
      unfolding queues_unpruned_queue [of sr b d] by simp
    with 1 Cons show ?thesis by (cases x) (simp add: unpruned_def)
  qed (use 1 in simp)
qed (auto simp: explore_unpruned)

lemma worker_queues:
  assumes "queues_unpruned sr b" and "worker_step sr w b = Some (w', b')"
  shows "queues_unpruned sr b'"
  using assms
proof (cases "(sr, w, b)" rule: worker_step.cases)
  case (1 sr' d b'')
  with assms show ?thesis
    unfolding queues_unpruned_queue [of sr _ d] by (auto split: list.splits)
next
  case (2 sr' d s t e es b'')
  with assms explore_queues [OF assms(1), of d s t e] show ?thesis
    by (auto split: prod.splits)
qed (auto split: if_splits)

lemma run_unpruned:
  "queues_unpruned sr b \<Longrightarrow> bfs_run (unpruned sr) ms b = bfs_run sr ms b"
proof (induction ms arbitrary: b)
  case (Cons m ms)
  have eq: "bfs_move (unpruned sr) m b = bfs_move sr m b"
    by (cases m) (simp_all add: worker_unpruned [OF Cons.prems])
  have "queues_unpruned sr b'" if "bfs_move sr m b = Some b'" for b'
    using that Cons.prems by (cases m) (auto split: if_splits dest: worker_queues)
  with Cons.IH eq show ?case by (cases "bfs_move sr m b") simp_all
qed simp

lemma probe_unpruned:
  "\<not> se_prune (sr_settings sr) s \<Longrightarrow>
     random_probe (unpruned sr) stops cs d s tr = random_probe sr stops cs d s tr"
proof (induction cs arbitrary: d s tr)
  case (Cons c cs)
  then have "st_events (sr_state (unpruned sr)) s = st_events (sr_state sr) s"
    by (simp add: unpruned_def)
  with Cons.IH show ?case
    by (auto simp: Let_def split: list.split outcome.split sum.split)
qed simp

text \<open>So both searches report on the system without the events of pruned states.\<close>

lemma searches_unpruned:
  assumes "\<not> se_prune (sr_settings sr) s0"
  shows "breadth_first sr n s0 ms = Some (Inr r) \<Longrightarrow> report_ok (unpruned sr) s0 r"
    and "report_ok (unpruned sr) s0 (random_depth_first sr s0 probes)"
proof -
  have init: "bfs_new sr n s0 = bfs_new (unpruned sr) n s0" by (simp add: bfs_new_def)
  have "queues_unpruned sr (bfs_new sr n s0)" using assms by (simp add: queues_unpruned_def bfs_new_def)
  then have run: "bfs_run (unpruned sr) ms (bfs_new (unpruned sr) n s0) = bfs_run sr ms (bfs_new sr n s0)"
    using run_unpruned init by metis
  show "report_ok (unpruned sr) s0 r" if "breadth_first sr n s0 ms = Some (Inr r)"
    using that bfs_result_ok [OF bfs_run_ok [OF bfs_new_ok]] run
    by (fastforce simp: breadth_first_def)
  have "random_workers (unpruned sr) s0 ps = random_workers sr s0 ps" for ps
    by (induction ps) (auto simp: probe_unpruned [OF assms] split: option.split)
  then have "random_depth_first sr s0 probes = random_depth_first (unpruned sr) s0 probes"
    by (simp add: random_depth_first_def)
  then show "report_ok (unpruned sr) s0 (random_depth_first sr s0 probes)"
    using random_depth_first_ok by metis
qed

section \<open>The search for a Collatz counterexample\<close>

datatype collatz_event = Div2 | Mul3Add1

definition collatz_events :: "u64 \<Rightarrow> collatz_event list" where
  "collatz_events s = (if 1 < s \<and> (s - 1) mod 3 = 0 then [Div2, Mul3Add1] else [Div2])"

text \<open>The multiplication wraps; \<open>check_collatz_sound\<close> shows that the search never makes it wrap.\<close>

fun collatz_step :: "collatz_event \<Rightarrow> u64 \<Rightarrow> (unit, u64) outcome" where
  "collatz_step Div2 s = Ok () (s * 2)"
| "collatz_step Mul3Add1 s = Ok () ((s - 1) div 3)"

definition collatz_settings :: "u64 \<Rightarrow> u64 settings" where
  "collatz_settings challenging_n =
     \<lparr>se_invariant = (\<lambda>n. if n = challenging_n then Inl (Bail ''fail to defeat conjecture'') else Inr ()),
      se_goal = (\<lambda>_. False), se_prune = (\<lambda>n. bit n 63), se_max_depth = None\<rparr>"

definition collatz_search :: "u64 \<Rightarrow> (u64, u64, collatz_event) search" where
  "collatz_search challenging_n =
     \<lparr>sr_state = \<lparr>st_events = collatz_events, st_step = collatz_step\<rparr>,
      sr_settings = collatz_settings challenging_n, sr_into = (\<lambda>s. s)\<rparr>"

definition check_collatz ::
  "u64 \<Rightarrow> string option \<Rightarrow> nat \<Rightarrow> bfs_choice list \<Rightarrow> ((nat \<Rightarrow> bool) \<times> nat list) list \<Rightarrow>
   (error + (u64, u64, collatz_event) search_result) option" where
  "check_collatz challenging_n random num_worker moves probes =
     (if random = Some ''random''
      then Some (Inr (random_depth_first (collatz_search challenging_n) 1 probes))
      else breadth_first (collatz_search challenging_n) num_worker 1 moves)"

text \<open>
  The trace over the natural numbers: from the last number back to the first one by halving and by
  multiplying with three and adding one.
\<close>

fun collatz_trace :: "nat \<Rightarrow> (collatz_event \<times> u64) list \<Rightarrow> nat \<Rightarrow> bool" where
  "collatz_trace n [] m \<longleftrightarrow> n = m"
| "collatz_trace n ((Div2, t) # tr) m \<longleftrightarrow> unat t = 2 * n \<and> collatz_trace (unat t) tr m"
| "collatz_trace n ((Mul3Add1, t) # tr) m \<longleftrightarrow> 3 * unat t + 1 = n \<and> collatz_trace (unat t) tr m"

lemma unpruned_doubling:
  fixes s :: u64
  assumes "\<not> bit s 63"
  shows "unat (s * 2) = 2 * unat s"
proof -
  have "unat s < 2 ^ 63"
  proof (rule ccontr)
    assume "\<not> unat s < 2 ^ 63"
    moreover have "unat s < 2 ^ 64" using unsigned_less [of s] by simp
    ultimately have "unat s div 2 ^ 63 = 1" by (intro div_nat_eqI) simp_all
    then have "odd (unat s div 2 ^ 63)" by simp
    then have "bit (unat s) 63" by (simp add: bit_iff_odd)
    with assms show False by (simp add: bit_unsigned_iff)
  qed
  then show ?thesis by (simp add: unat_word_ariths mod_less)
qed

lemma unpruned_third:
  fixes s :: u64
  assumes "1 < s" and "(s - 1) mod 3 = 0"
  shows "Suc (3 * unat ((s - 1) div 3)) = unat s"
proof -
  have one: "unat (s - 1) = unat s - 1" using assms(1) by (intro unat_minus_one) auto
  have "unat ((s - 1) mod 3) = 0" using assms(2) by (simp only: unsigned_0)
  then have "unat (s - 1) mod 3 = 0" by (simp add: unat_mod)
  then have "3 * (unat (s - 1) div 3) = unat (s - 1)" by presburger
  moreover have "0 < unat s" using assms(1) by (simp add: word_less_nat_alt)
  ultimately show ?thesis using one by (simp add: unat_div)
qed

lemma collatz_linked:
  assumes "linked (unpruned (collatz_search c)) 1 t event u"
  shows "collatz_trace (unat t) [(event, u)] (unat u)"
proof -
  have prune: "\<not> bit t 63" and step: "collatz_step event t = Ok () u"
    and event: "event \<in> set (collatz_events t)"
    using assms
    by (simp_all add: linked_def unpruned_def collatz_search_def collatz_settings_def split: if_splits)
  show ?thesis
  proof (cases event)
    case Div2
    with step unpruned_doubling [OF prune] show ?thesis by simp
  next
    case Mul3Add1
    with event have "1 < t" "(t - 1) mod 3 = 0" by (simp_all add: collatz_events_def split: if_splits)
    with Mul3Add1 step unpruned_third [of t] show ?thesis by simp
  qed
qed

lemma collatz_trace_path:
  "trace_path (unpruned (collatz_search c)) 1 t tr u \<Longrightarrow> collatz_trace (unat t) tr (unat u)"
proof (induction tr arbitrary: t)
  case (Cons x tr)
  obtain event t' where x: "x = (event, t')" by (cases x)
  with Cons have "collatz_trace (unat t') tr (unat u)"
    and "collatz_trace (unat t) [(event, t')] (unat t')" by (auto intro: collatz_linked)
  with x show ?case by (cases event) auto
qed simp

text \<open>C31: The Collatz example, breadth-first with any number of workers or with random probes: what it
  reports is a violation, exhaustion or a timeout, and a reported trace leads from 1 to the given
  number by inverted steps that are exact on the natural numbers: every doubling is below \<open>2 ^ 64\<close>
  and every division by three has no remainder, as numbers with the highest bit set are pruned.
\<close>

theorem check_collatz_sound:
  assumes "check_collatz challenging_n random num_worker moves probes = Some (Inr r)"
  shows "r = SSpaceExhausted \<or> r = STimeout \<or>
    (\<exists>trace. r = SInvariantViolation trace (Bail ''fail to defeat conjecture'') \<and>
      collatz_trace 1 trace (unat challenging_n))"
proof -
  let ?sr = "collatz_search challenging_n"
  have init: "\<not> se_prune (sr_settings ?sr) 1"
    by (simp add: collatz_search_def collatz_settings_def bit_1_iff)
  have "report_ok (unpruned ?sr) 1 r"
    using assms searches_unpruned [OF init] by (auto simp: check_collatz_def split: if_splits)
  then show ?thesis
  proof (cases r)
    case (SErr tr event err)
    with \<open>report_ok _ _ _\<close> show ?thesis
      by (cases event) (auto simp: report_ok_def collatz_search_def)
  next
    case (SInvariantViolation tr err)
    with \<open>report_ok _ _ _\<close> show ?thesis
      using collatz_trace_path [of challenging_n 1 tr challenging_n]
      by (auto simp: report_ok_def collatz_search_def collatz_settings_def split: if_splits)
  qed (auto simp: report_ok_def collatz_search_def collatz_settings_def)
qed

theorem check_collatz_sound_witness:
  "\<exists>trace. random_depth_first (collatz_search 5) 1 [((\<lambda>_. False), [0, 1]), ((\<lambda>_. False), [0, 0, 0, 0, 1])] =
     SInvariantViolation trace (Bail ''fail to defeat conjecture'') \<and>
     collatz_trace 1 trace 5 \<and> length trace = 5"
proof -
  let ?tr = "[(Div2, 2), (Div2, 4), (Div2, 8), (Div2, 16), (Mul3Add1, 5)] :: (collatz_event \<times> u64) list"
  have "check_collatz 5 (Some ''random'') 1 [] [((\<lambda>_. False), [0, 1]), ((\<lambda>_. False), [0, 0, 0, 0, 1])] =
      Some (Inr (SInvariantViolation ?tr (Bail ''fail to defeat conjecture'')))"
    by code_simp
  from check_collatz_sound [OF this] this show ?thesis by (simp add: check_collatz_def)
qed

text \<open>
  The inverse of \<open>3 * n + 1\<close> is taken for even \<open>n\<close> too: from 7 the example goes to 2, whose Collatz
  successor is 1 and not 7.
\<close>

definition collatz :: "nat \<Rightarrow> nat" where
  "collatz n = (if even n then n div 2 else 3 * n + 1)"

lemma collatz_step_inexact:
  "collatz_events 7 = [Div2, Mul3Add1] \<and> collatz_step Mul3Add1 7 = Ok () 2 \<and> collatz 2 = 1"
  by code_simp

end
