(* ===== verification/Entropy_Server.thy ===== *)
theory Entropy_Server
  imports Entropy_Types
begin

text \<open>
  The server of the storage peers, \<open>src/crates/entropy/src/main.rs\<close>: starting and stopping the peers,
  the endpoints \<open>put-chunk\<close> and \<open>get-chunk\<close> with their pending requests, and the session that takes
  the peers' upcalls and answers the requests.

  A \<open>oneshot\<close> channel is a cell that says what its receiver would see; the pending maps hold the
  numbers of the cells. A handler that panics or returns early drops the ends it holds. The upcall
  session ends when it panics, and \<open>main\<close> with it: \<open>ea_session\<close>. Sockets, sessions of the other
  components of a peer and the HTTP layer are outside; what they send a peer arrives as an event.
\<close>

section \<open>Requests that wait for a peer\<close>

datatype 'v oneshot = Awaiting | Replied 'v | SenderGone | ReceiverGone

record 'v requests =
  rt_pending :: "(chunk, nat) hmap"
  rt_chans :: "'v oneshot list"

definition requests_new :: "'v requests" where
  "requests_new = \<lparr>rt_pending = [], rt_chans = []\<rparr>"

definition drop_receiver :: "nat \<Rightarrow> 'v requests \<Rightarrow> 'v requests" where
  "drop_receiver n r = r\<lparr>rt_chans := (rt_chans r)[n := ReceiverGone]\<rparr>"

definition drop_sender :: "nat \<Rightarrow> 'v requests \<Rightarrow> 'v requests" where
  "drop_sender n r =
     r\<lparr>rt_chans := (rt_chans r)[n := (case rt_chans r ! n of Awaiting \<Rightarrow> SenderGone | c \<Rightarrow> c)]\<rparr>"

text \<open>
  \<open>oneshot::channel\<close>, \<open>insert\<close>, \<open>assert!(replaced.is_none())\<close>: when the assertion fails the replaced
  sender and the new receiver are dropped, and the new sender stays in the map.
\<close>

definition open_request :: "chunk \<Rightarrow> 'v requests \<Rightarrow> (nat, 'v requests) outcome" where
  "open_request chunk r =
     (let n = length (rt_chans r);
          r1 = r\<lparr>rt_chans := rt_chans r @ [Awaiting], rt_pending := hm_insert chunk n (rt_pending r)\<rparr>
      in case hm_get (rt_pending r) chunk of
           Some replaced \<Rightarrow>
             Err (Panic ''assertion failed: replaced.is_none()'') (drop_receiver n (drop_sender replaced r1))
         | None \<Rightarrow> Ok n r1)"

text \<open>\<open>remove(&chunk).unwrap().send(v).unwrap()\<close>\<close>

definition answer_request :: "chunk \<Rightarrow> 'v \<Rightarrow> 'v requests \<Rightarrow> (unit, 'v requests) outcome" where
  "answer_request chunk v r =
     (case hm_get (rt_pending r) chunk of
        None \<Rightarrow> Err (Panic ''called Option::unwrap() on a None value'') r
      | Some n \<Rightarrow>
          let r1 = r\<lparr>rt_pending := hm_remove chunk (rt_pending r)\<rparr> in
          if rt_chans r ! n = Awaiting then Ok () (r1\<lparr>rt_chans := (rt_chans r)[n := Replied v]\<rparr>)
          else Err (Panic ''called Result::unwrap() on an Err value'') r1)"

section \<open>The state\<close>

text \<open>
  A peer's session: its queue of events, how it ended, and whether \<open>ok\<close> took it out of the \<open>JoinSet\<close>.
\<close>

type_synonym ('x, 'enc, 'dec) storage_peer = "(chunk, 'x, 'enc, 'dec) entropy"
type_synonym ('x, 'enc, 'dec) storage_event = "(chunk, 'x, 'enc, 'dec) entropy_event"

type_synonym 'ip socket_addr = "'ip \<times> 16 word"

record ('ip, 'x, 'enc, 'dec) peer_session =
  px_buckets :: "(bytes, 'ip socket_addr) buckets"
  px_queue :: "('x, 'enc, 'dec) storage_event list"
  px_peer :: "('x, 'enc, 'dec) storage_peer"
  px_result :: "error option"
  px_joined :: bool

record ('ip, 'x, 'enc, 'dec) entropy_app =
  ea_senders :: "('ip, 'x, 'enc, 'dec) peer_session list"
  ea_upcall :: "chunk entropy_upcall sink"
  ea_puts :: "unit requests"
  ea_gets :: "payload requests"
  ea_session :: "error option"

definition entropy_app_new :: "('ip, 'x, 'enc, 'dec) entropy_app" where
  "entropy_app_new =
     \<lparr>ea_senders = [], ea_upcall = open_sink, ea_puts = requests_new, ea_gets = requests_new,
      ea_session = None\<rparr>"

text \<open>The peers' preimages are the chunks: \<open>impl Preimage for [u8; 32]\<close>.\<close>

definition preimage_target :: "chunk \<Rightarrow> chunk" where
  "preimage_target chunk = chunk"

definition server_env :: "(chunk, 'enc, 'dec) entropy_env \<Rightarrow> (chunk, 'enc, 'dec) entropy_env" where
  "server_env env = env\<lparr>ee_target := preimage_target\<rparr>"

section \<open>The peers of a server\<close>

record 'ip start_config =
  sc_ips :: "'ip list"
  sc_ip_index :: nat
  sc_num_peer_per_ip :: nat
  sc_fragment_len :: u32
  sc_chunk_k :: usize
  sc_chunk_n :: usize
  sc_chunk_m :: usize

definition peer_addr :: "'ip \<Rightarrow> nat \<Rightarrow> 'ip socket_addr" where
  "peer_addr ip j = (ip, 4000 + of_nat j)"

text \<open>The keys come from one generator with a fixed seed: \<open>keys n\<close> is the \<open>n\<close>-th key it makes.\<close>

definition ip_records ::
  "(chunk, 'enc, 'dec) entropy_env \<Rightarrow> (nat \<Rightarrow> bytes) \<Rightarrow> 'ip start_config \<Rightarrow> nat \<Rightarrow>
   (bytes \<times> (bytes, 'ip socket_addr) peer_record) list" where
  "ip_records env keys config i =
     map (\<lambda>j. let crypto = keys (i * sc_num_peer_per_ip config + j)
              in (crypto, peer_record_new (ee_lib env) (ee_key_feed env)
                            (lib_schnorr_public (ee_lib env) crypto)
                            (peer_addr (sc_ips config ! i) j)))
       [0..<sc_num_peer_per_ip config]"

definition config_records ::
  "(chunk, 'enc, 'dec) entropy_env \<Rightarrow> (nat \<Rightarrow> bytes) \<Rightarrow> 'ip start_config \<Rightarrow>
   (bytes, 'ip socket_addr) peer_record list" where
  "config_records env keys config =
     concat (map (\<lambda>i. map snd (ip_records env keys config i)) [0..<length (sc_ips config)])"

definition local_peers ::
  "(chunk, 'enc, 'dec) entropy_env \<Rightarrow> (nat \<Rightarrow> bytes) \<Rightarrow> 'ip start_config \<Rightarrow>
   (bytes \<times> (bytes, 'ip socket_addr) peer_record) list" where
  "local_peers env keys config =
     (if sc_ip_index config < length (sc_ips config)
      then ip_records env keys config (sc_ip_index config) else [])"

text \<open>The routing table of one peer, from the records in the order of the shuffle.\<close>

fun fill_buckets ::
  "peer_id \<Rightarrow> (bytes, 'a) peer_record list \<Rightarrow> (bytes, 'a) buckets \<Rightarrow>
   (unit, (bytes, 'a) buckets) outcome" where
  "fill_buckets peer_id [] b = Ok () b"
| "fill_buckets peer_id (record # records) b =
     (if pe_id record = peer_id then fill_buckets peer_id records b
      else and_then (buckets_insert record b) (\<lambda>_. fill_buckets peer_id records))"

definition start_peer ::
  "(bytes \<Rightarrow> (bytes, 'ip socket_addr) peer_record list \<Rightarrow> (bytes, 'ip socket_addr) peer_record list) \<Rightarrow>
   (bytes, 'ip socket_addr) peer_record list \<Rightarrow> 'ip start_config \<Rightarrow>
   bytes \<times> (bytes, 'ip socket_addr) peer_record \<Rightarrow> ('ip, 'x, 'enc, 'dec) peer_session" where
  "start_peer shuffle records config lp =
     (case lp of (crypto, record) \<Rightarrow>
        let filled = fill_buckets (pe_id record) (shuffle crypto records) (buckets_new record) in
        \<lparr>px_buckets = after filled, px_queue = [],
         px_peer = entropy_new (pe_id record) crypto (sc_fragment_len config) (sc_chunk_k config)
           (sc_chunk_n config) (sc_chunk_m config) open_sink open_sink open_sink (Inline () open_sink)
           open_sink,
         px_result = (case filled of Ok _ _ \<Rightarrow> None | Err e _ \<Rightarrow> Some e), px_joined = False\<rparr>)"

definition start_peers ::
  "(chunk, 'enc, 'dec) entropy_env \<Rightarrow> (nat \<Rightarrow> bytes) \<Rightarrow>
   (bytes \<Rightarrow> (bytes, 'ip socket_addr) peer_record list \<Rightarrow> (bytes, 'ip socket_addr) peer_record list) \<Rightarrow>
   'ip start_config \<Rightarrow> ('ip, 'x, 'enc, 'dec) entropy_app \<Rightarrow>
   (unit, ('ip, 'x, 'enc, 'dec) entropy_app) outcome" where
  "start_peers env keys shuffle config s =
     (if list_all px_joined (ea_senders s)
      then Ok () (s\<lparr>ea_senders := ea_senders s @
             map (start_peer shuffle (config_records env keys config) config) (local_peers env keys config)\<rparr>)
      else Err (Panic ''assertion failed: peers.sessions.is_empty()'') s)"

definition stop_peers :: "('ip, 'x, 'enc, 'dec) entropy_app \<Rightarrow> ('ip, 'x, 'enc, 'dec) entropy_app" where
  "stop_peers s = s\<lparr>ea_senders := []\<rparr>"

text \<open>
  \<open>ok\<close>: one of the sessions that ended is taken and reported; which one is \<open>choice\<close>.
\<close>

definition app_ok ::
  "nat \<Rightarrow> ('ip, 'x, 'enc, 'dec) entropy_app \<Rightarrow> nat \<times> ('ip, 'x, 'enc, 'dec) entropy_app" where
  "app_ok choice s =
     (case filter (\<lambda>i. px_result (ea_senders s ! i) \<noteq> None \<and> \<not> px_joined (ea_senders s ! i))
             [0..<length (ea_senders s)] of
        [] \<Rightarrow> (200, s)
      | ended \<Rightarrow>
          let i = ended ! (choice mod length ended)
          in (500, s\<lparr>ea_senders := (ea_senders s)[i := (ea_senders s ! i)\<lparr>px_joined := True\<rparr>]\<rparr>))"

section \<open>The endpoints\<close>

definition send_to_peer ::
  "nat \<Rightarrow> ('x, 'enc, 'dec) storage_event \<Rightarrow> ('ip, 'x, 'enc, 'dec) entropy_app \<Rightarrow>
   (unit, ('ip, 'x, 'enc, 'dec) entropy_app) outcome" where
  "send_to_peer i event s =
     (if i < length (ea_senders s) then
        let h = ea_senders s ! i in
        if px_result h = None
        then Ok () (s\<lparr>ea_senders := (ea_senders s)[i := h\<lparr>px_queue := px_queue h @ [event]\<rparr>]\<rparr>)
        else Err (Bail ''channel closed'') s
      else Err (Panic ''index out of bounds'') s)"

text \<open>Up to where the handlers wait; they return the number of the cell they wait for.\<close>

definition put_chunk ::
  "(chunk, 'enc, 'dec) entropy_env \<Rightarrow> nat \<Rightarrow> error + payload \<Rightarrow> ('ip, 'x, 'enc, 'dec) entropy_app \<Rightarrow>
   (nat \<times> chunk, ('ip, 'x, 'enc, 'dec) entropy_app) outcome" where
  "put_chunk env peer_index body s =
     (case body of
        Inl e \<Rightarrow> Err e s
      | Inr buf \<Rightarrow>
          let chunk = sha256 (ee_lib env) hash_bytes buf in
          and_then (lift_outcome (\<lambda>r. s\<lparr>ea_puts := r\<rparr>) (open_request chunk (ea_puts s))) (\<lambda>n s1.
            case send_to_peer peer_index (EvPut chunk buf) s1 of
              Err e s2 \<Rightarrow> Err e (s2\<lparr>ea_puts := drop_receiver n (ea_puts s2)\<rparr>)
            | Ok _ s2 \<Rightarrow> Ok (n, chunk) s2))"

definition get_chunk ::
  "nat \<Rightarrow> error + chunk \<Rightarrow> ('ip, 'x, 'enc, 'dec) entropy_app \<Rightarrow>
   (nat \<times> chunk, ('ip, 'x, 'enc, 'dec) entropy_app) outcome" where
  "get_chunk peer_index parsed s =
     (case parsed of
        Inl e \<Rightarrow> Err e s
      | Inr chunk \<Rightarrow>
          and_then (lift_outcome (\<lambda>r. s\<lparr>ea_gets := r\<rparr>) (open_request chunk (ea_gets s))) (\<lambda>n s1.
            case send_to_peer peer_index (EvGet chunk) s1 of
              Err e s2 \<Rightarrow> Err e (s2\<lparr>ea_gets := drop_receiver n (ea_gets s2)\<rparr>)
            | Ok _ s2 \<Rightarrow> Ok (n, chunk) s2))"

text \<open>The response once the cell is filled, \<open>None\<close> while the request waits.\<close>

fun chunk_response :: "'v oneshot \<Rightarrow> (nat \<times> 'v option) option" where
  "chunk_response Awaiting = None"
| "chunk_response (Replied v) = Some (200, Some v)"
| "chunk_response SenderGone = Some (500, None)"
| "chunk_response ReceiverGone = None"

section \<open>The sessions\<close>

text \<open>A peer takes the next event of its queue; an error ends its session.\<close>

definition run_peer ::
  "(chunk, 'enc, 'dec) entropy_env \<Rightarrow> nat \<Rightarrow> ('ip, 'x, 'enc, 'dec) entropy_app \<Rightarrow>
   ('ip, 'x, 'enc, 'dec) entropy_app" where
  "run_peer env i s =
     (if i < length (ea_senders s) \<and> px_result (ea_senders s ! i) = None then
        let h = ea_senders s ! i in
        case px_queue h of
          [] \<Rightarrow> s
        | event # queue \<Rightarrow>
            let handled = entropy_on_event (server_env env) event ((px_peer h)\<lparr>et_upcall := ea_upcall s\<rparr>)
            in s\<lparr>ea_senders := (ea_senders s)[i := h\<lparr>px_queue := queue, px_peer := after handled,
                   px_result := (case handled of Ok _ _ \<Rightarrow> None | Err e _ \<Rightarrow> Some e)\<rparr>],
                 ea_upcall := et_upcall (after handled)\<rparr>
      else s)"

fun upcall_event ::
  "chunk entropy_upcall \<Rightarrow> ('ip, 'x, 'enc, 'dec) entropy_app \<Rightarrow> (unit, ('ip, 'x, 'enc, 'dec) entropy_app) outcome" where
  "upcall_event (UpPutOk chunk) s =
     lift_outcome (\<lambda>r. s\<lparr>ea_puts := r\<rparr>) (answer_request chunk () (ea_puts s))"
| "upcall_event (UpGetOk chunk buf) s =
     lift_outcome (\<lambda>r. s\<lparr>ea_gets := r\<rparr>) (answer_request chunk buf (ea_gets s))"

definition upcall_session :: "('ip, 'x, 'enc, 'dec) entropy_app \<Rightarrow> ('ip, 'x, 'enc, 'dec) entropy_app" where
  "upcall_session s =
     (case sent (ea_upcall s) of
        [] \<Rightarrow> s
      | upcall # rest \<Rightarrow>
          (case upcall_event upcall (s\<lparr>ea_upcall := (ea_upcall s)\<lparr>sent := rest\<rparr>\<rparr>) of
             Ok _ s1 \<Rightarrow> s1
           | Err e s1 \<Rightarrow> s1\<lparr>ea_session := Some e\<rparr>))"

section \<open>The server\<close>

text \<open>
  Puts and gets reach a peer only through the endpoints; everything else may arrive at any time.
\<close>

fun is_request :: "('k, 'x, 'enc, 'dec) entropy_event \<Rightarrow> bool" where
  "is_request (EvPut k buf) = True"
| "is_request (EvGet k) = True"
| "is_request _ = False"

datatype ('ip, 'x, 'enc, 'dec) server_cmd =
    PutChunk nat "error + payload"
  | GetChunk nat "error + chunk"
  | PeerHandles nat
  | Arrives nat "('x, 'enc, 'dec) storage_event"
  | UpcallHandled
  | PollOk nat
  | StartPeers "nat \<Rightarrow> bytes"
      "bytes \<Rightarrow> (bytes, 'ip socket_addr) peer_record list \<Rightarrow> (bytes, 'ip socket_addr) peer_record list"
      "'ip start_config"
  | StopPeers

fun server_step ::
  "(chunk, 'enc, 'dec) entropy_env \<Rightarrow> ('ip, 'x, 'enc, 'dec) server_cmd \<Rightarrow> ('ip, 'x, 'enc, 'dec) entropy_app \<Rightarrow>
   (unit, ('ip, 'x, 'enc, 'dec) entropy_app) outcome" where
  "server_step env (PutChunk i body) s = and_then (put_chunk env i body s) (\<lambda>_. Ok ())"
| "server_step env (GetChunk i parsed) s = and_then (get_chunk i parsed s) (\<lambda>_. Ok ())"
| "server_step env (PeerHandles i) s = Ok () (run_peer env i s)"
| "server_step env (Arrives i event) s =
     (if is_request event then Ok () s else Ok () (after (send_to_peer i event s)))"
| "server_step env UpcallHandled s = Ok () (upcall_session s)"
| "server_step env (PollOk choice) s = Ok () (snd (app_ok choice s))"
| "server_step env (StartPeers keys shuffle config) s = start_peers env keys shuffle config s"
| "server_step env StopPeers s = Ok () (stop_peers s)"

text \<open>A run: a handler that fails does not stop the server, the end of the upcall session does.\<close>

fun server_run ::
  "(chunk, 'enc, 'dec) entropy_env \<Rightarrow> ('ip, 'x, 'enc, 'dec) server_cmd list \<Rightarrow> ('ip, 'x, 'enc, 'dec) entropy_app \<Rightarrow>
   ('ip, 'x, 'enc, 'dec) entropy_app" where
  "server_run env [] s = s"
| "server_run env (cmd # cmds) s =
     (if ea_session s = None then server_run env cmds (after (server_step env cmd s)) else s)"

end
