(* ===== verification/Entropy_Server_Correct.thy ===== *)
theory Entropy_Server_Correct
  imports Entropy_Server
begin

text \<open>
  The server of the storage peers answers what it was asked: while no request fails, the upcall
  session finds a waiting request for every upcall. A request that fails instead leaves its entry
  behind, and that chunk can only end the server.

  The contract between a peer and the server is the locale \<open>answering\<close>: a peer does not announce
  more than it was asked for. Puts and gets are two interpretations of it on the peer's handlers.
\<close>

section \<open>What is owed\<close>

text \<open>
  Answers that are under way: upcalls in the channel, open operations of the peers, and requests in
  their queues. A peer whose session ended owes nothing.
\<close>

definition tally ::
  "(chunk entropy_upcall \<Rightarrow> chunk \<Rightarrow> bool) \<Rightarrow> (('x, 'enc, 'dec) storage_peer \<Rightarrow> chunk \<Rightarrow> bool) \<Rightarrow>
   ('x, 'enc, 'dec) storage_peer \<Rightarrow> chunk \<Rightarrow> nat" where
  "tally said opened p c =
     length (filter (\<lambda>u. said u c) (sent (et_upcall p))) + of_bool (opened p c)"

definition owed ::
  "(('x, 'enc, 'dec) storage_event \<Rightarrow> chunk \<Rightarrow> bool) \<Rightarrow> (('x, 'enc, 'dec) storage_peer \<Rightarrow> chunk \<Rightarrow> bool) \<Rightarrow>
   chunk \<Rightarrow> ('ip, 'x, 'enc, 'dec) peer_session \<Rightarrow> nat" where
  "owed asks opened c h =
     (if px_result h = None
      then length (filter (\<lambda>e. asks e c) (px_queue h)) + of_bool (opened (px_peer h) c) else 0)"

definition under_way ::
  "(chunk entropy_upcall \<Rightarrow> chunk \<Rightarrow> bool) \<Rightarrow> (('x, 'enc, 'dec) storage_event \<Rightarrow> chunk \<Rightarrow> bool) \<Rightarrow>
   (('x, 'enc, 'dec) storage_peer \<Rightarrow> chunk \<Rightarrow> bool) \<Rightarrow> ('ip, 'x, 'enc, 'dec) entropy_app \<Rightarrow> chunk \<Rightarrow> nat" where
  "under_way said asks opened s c =
     length (filter (\<lambda>u. said u c) (sent (ea_upcall s))) +
     sum_list (map (owed asks opened c) (ea_senders s))"

definition peers_typed ::
  "(chunk, 'enc, 'dec) entropy_env \<Rightarrow> ('ip, 'x, 'enc, 'dec) entropy_app \<Rightarrow> bool" where
  "peers_typed env s \<longleftrightarrow>
     list_all (\<lambda>h. entropy_typed (server_env env) (px_peer h)) (ea_senders s)"

lemma sum_list_update_nat:
  fixes xs :: "nat list"
  assumes "i < length xs"
  shows "sum_list (xs[i := y]) + xs ! i = sum_list xs + y"
  using assms
proof (induction xs arbitrary: i)
  case (Cons x xs)
  then show ?case by (cases i) auto
qed simp

lemma under_way_update:
  assumes "i < length (ea_senders s)"
  shows "under_way said asks opened (s\<lparr>ea_senders := (ea_senders s)[i := h]\<rparr>) c +
      owed asks opened c (ea_senders s ! i) =
    under_way said asks opened s c + owed asks opened c h"
  using sum_list_update_nat [of i "map (owed asks opened c) (ea_senders s)" "owed asks opened c h"] assms
  by (simp add: under_way_def map_update)

lemma under_way_frame [simp]:
  "under_way said asks opened (s\<lparr>ea_puts := r\<rparr>) = under_way said asks opened s"
  "under_way said asks opened (s\<lparr>ea_gets := q\<rparr>) = under_way said asks opened s"
  "under_way said asks opened (s\<lparr>ea_session := e\<rparr>) = under_way said asks opened s"
  by (simp_all add: under_way_def fun_eq_iff)

locale answering =
  fixes env :: "(chunk, 'enc, 'dec) entropy_env"
    and said :: "chunk entropy_upcall \<Rightarrow> chunk \<Rightarrow> bool"
    and asks :: "('x, 'enc, 'dec) storage_event \<Rightarrow> chunk \<Rightarrow> bool"
    and opened :: "('x, 'enc, 'dec) storage_peer \<Rightarrow> chunk \<Rightarrow> bool"
  assumes answers_once: "entropy_typed (server_env env) p \<Longrightarrow>
      tally said opened (after (entropy_on_event (server_env env) e p)) c
        \<le> tally said opened p c + of_bool (asks e c)"
    and asks_request: "asks e c \<Longrightarrow> is_request e"
    and opened_upcall: "opened (p\<lparr>et_upcall := u\<rparr>) c = opened p c"
    and opened_new: "\<not> opened (entropy_new i key fl k n m net blob upcall worker fs) c"
begin

lemma send_under_way:
  "under_way said asks opened (after (send_to_peer i e s)) c
     \<le> under_way said asks opened s c + of_bool (asks e c)"
proof (cases "i < length (ea_senders s) \<and> px_result (ea_senders s ! i) = None")
  case True
  let ?h = "(ea_senders s ! i)\<lparr>px_queue := px_queue (ea_senders s ! i) @ [e]\<rparr>"
  have "owed asks opened c ?h = owed asks opened c (ea_senders s ! i) + of_bool (asks e c)"
    using True by (simp add: owed_def)
  with under_way_update [of i s said asks opened ?h c] True show ?thesis
    by (simp add: send_to_peer_def Let_def)
qed (auto simp: send_to_peer_def Let_def)

lemma run_under_way:
  assumes "peers_typed env s"
  shows "under_way said asks opened (run_peer env i s) c \<le> under_way said asks opened s c"
proof (cases "i < length (ea_senders s) \<and> px_result (ea_senders s ! i) = None")
  case True
  let ?h = "ea_senders s ! i"
  show ?thesis
  proof (cases "px_queue ?h")
    case Nil
    with True show ?thesis by (simp add: run_peer_def)
  next
    case (Cons e q)
    let ?p = "(px_peer ?h)\<lparr>et_upcall := ea_upcall s\<rparr>"
    let ?m = "entropy_on_event (server_env env) e ?p"
    let ?h' = "?h\<lparr>px_queue := q, px_peer := after ?m,
        px_result := (case ?m of Ok _ _ \<Rightarrow> None | Err e _ \<Rightarrow> Some e)\<rparr>"
    let ?s = "s\<lparr>ea_upcall := et_upcall (after ?m)\<rparr>"
    have run: "run_peer env i s = ?s\<lparr>ea_senders := (ea_senders ?s)[i := ?h']\<rparr>"
      using True Cons by (simp add: run_peer_def Let_def)
    have "entropy_typed (server_env env) ?p"
      using assms True by (simp add: peers_typed_def list_all_length)
    from answers_once [OF this, of e c] have step:
      "length (filter (\<lambda>u. said u c) (sent (et_upcall (after ?m)))) + of_bool (opened (after ?m) c)
        \<le> length (filter (\<lambda>u. said u c) (sent (ea_upcall s))) + of_bool (opened (px_peer ?h) c) +
          of_bool (asks e c)"
      by (simp add: tally_def opened_upcall)
    have new: "owed asks opened c ?h'
        \<le> length (filter (\<lambda>e. asks e c) q) + of_bool (opened (after ?m) c)"
      by (simp add: owed_def split: outcome.split)
    have old: "owed asks opened c ?h =
        of_bool (asks e c) + length (filter (\<lambda>e. asks e c) q) + of_bool (opened (px_peer ?h) c)"
      using True Cons by (simp add: owed_def)
    have "under_way said asks opened ?s c + length (filter (\<lambda>u. said u c) (sent (ea_upcall s))) =
        under_way said asks opened s c + length (filter (\<lambda>u. said u c) (sent (et_upcall (after ?m))))"
      by (simp add: under_way_def)
    with under_way_update [of i ?s said asks opened ?h' c] True step new old show ?thesis
      unfolding run by simp
  qed
qed (auto simp: run_peer_def)

lemma started_owe_nothing: "owed asks opened c (start_peer shuffle records config lp) = 0"
  by (simp add: owed_def start_peer_def Let_def split_beta opened_new)

lemma start_under_way:
  "under_way said asks opened (after (start_peers env keys shuffle config s)) c =
     under_way said asks opened s c"
  by (simp add: under_way_def start_peers_def o_def started_owe_nothing)

lemma ok_under_way:
  "under_way said asks opened (snd (app_ok choice s)) c = under_way said asks opened s c"
proof (cases "fst (app_ok choice s) = 500")
  case True
  then obtain i where i: "i < length (ea_senders s)"
    "snd (app_ok choice s) = s\<lparr>ea_senders := (ea_senders s)[i := (ea_senders s ! i)\<lparr>px_joined := True\<rparr>]\<rparr>"
  proof (cases "filter (\<lambda>i. px_result (ea_senders s ! i) \<noteq> None \<and> \<not> px_joined (ea_senders s ! i))
      [0..<length (ea_senders s)]")
    case (Cons j js)
    have "(j # js) ! (choice mod length (j # js)) \<in> set (j # js)" by (rule nth_mem) simp
    then have "(j # js) ! (choice mod length (j # js)) < length (ea_senders s)"
      unfolding Cons [symmetric] by (simp only: set_filter mem_Collect_eq set_upt atLeastLessThan_iff)
    with Cons that show thesis by (simp add: app_ok_def Let_def)
  qed (simp add: app_ok_def)
  have "owed asks opened c ((ea_senders s ! i)\<lparr>px_joined := True\<rparr>) = owed asks opened c (ea_senders s ! i)"
    by (simp add: owed_def)
  with under_way_update [OF i(1), of said asks opened "(ea_senders s ! i)\<lparr>px_joined := True\<rparr>" c]
  show ?thesis by (simp add: i(2))
next
  case False
  then show ?thesis by (simp add: app_ok_def Let_def split: list.splits)
qed

lemma stop_under_way: "under_way said asks opened (stop_peers s) c \<le> under_way said asks opened s c"
  by (simp add: under_way_def stop_peers_def)

end

section \<open>Puts\<close>

fun said_put :: "chunk entropy_upcall \<Rightarrow> chunk \<Rightarrow> bool" where
  "said_put (UpPutOk k) c \<longleftrightarrow> k = c"
| "said_put (UpGetOk k buf) c \<longleftrightarrow> False"

fun asks_put :: "('x, 'enc, 'dec) storage_event \<Rightarrow> chunk \<Rightarrow> bool" where
  "asks_put (EvPut k buf) c \<longleftrightarrow> k = c"
| "asks_put _ c \<longleftrightarrow> False"

definition opened_put :: "('x, 'enc, 'dec) storage_peer \<Rightarrow> chunk \<Rightarrow> bool" where
  "opened_put p c \<longleftrightarrow> hm_has (et_uploads p) c"

lemma said_put_iff [simp]: "said_put u c \<longleftrightarrow> u = UpPutOk c"
  by (cases u) auto

lemma server_target [simp]: "ee_target (server_env env) = preimage_target" "preimage_target c = c"
  by (simp_all add: server_env_def preimage_target_def)

lemma sent_push_le:
  "length (filter P (sent (after (push_sink m q)))) \<le> length (filter P (sent q)) + of_bool (P m)"
  by (simp add: after_push_closed)

lemma same_uploads_tally: "same_uploads p p' \<Longrightarrow> tally said_put opened_put p' c = tally said_put opened_put p c"
  by (simp add: same_uploads_def tally_def opened_put_def)

lemma put_tally_put:
  "tally said_put opened_put (after (on_put (server_env env) k buf p)) c
     \<le> tally said_put opened_put p c + of_bool (k = c)"
  by (auto simp: on_put_def Let_def et_after tally_def opened_put_def)

lemma put_tally_uploads:
  "tally said_put opened_put (after (on_new_encoder chunk e p)) c = tally said_put opened_put p c"
  "tally said_put opened_put (after (on_invite_ok env m p)) c = tally said_put opened_put p c"
  "tally said_put opened_put (after (on_recover chunk b p)) c = tally said_put opened_put p c"
  by (auto simp: on_new_encoder_def on_invite_ok_def on_recover_def Let_def et_after tally_def
      opened_put_def hm_has_def split: option.split)

lemma put_tally_available:
  assumes "entropy_typed (server_env env) p"
  shows "tally said_put opened_put (after (on_fragment_available env' m p)) c \<le> tally said_put opened_put p c"
proof (cases "hm_get (et_uploads p) (fa_chunk (inner m))")
  case (Some st)
  have "up_preimage st = fa_chunk (inner m)"
    using typed_upload_get [OF assms Some] by (simp add: upload_typed_def)
  with Some show ?thesis
    by (auto simp: on_fragment_available_def Let_def et_after tally_def opened_put_def hm_has_def)
qed (simp add: on_fragment_available_def Let_def)

interpretation puts: answering env said_put asks_put
    "opened_put :: ('x, 'enc, 'dec) storage_peer \<Rightarrow> chunk \<Rightarrow> bool"
  for env :: "(chunk, 'enc, 'dec) entropy_env"
proof
  fix p :: "('x, 'enc, 'dec) storage_peer" and e :: "('x, 'enc, 'dec) storage_event" and c
  assume typed: "entropy_typed (server_env env) p"
  note frame = same_uploads_tally [THEN eq_refl]
  show "tally said_put opened_put (after (entropy_on_event (server_env env) e p)) c
      \<le> tally said_put opened_put p c + of_bool (asks_put e c)"
  proof (cases e)
    case (EvCodec x)
    then show ?thesis by (cases x) (simp_all add: put_tally_uploads frame same_uploads_handlers)
  next
    case (EvFs x)
    then show ?thesis by (cases x) (simp_all add: frame same_uploads_handlers)
  qed (simp_all add: put_tally_put put_tally_uploads put_tally_available [OF typed] frame
      same_uploads_handlers)
next
  show "is_request e" if "asks_put e c" for e :: "('x, 'enc, 'dec) storage_event" and c
    using that by (cases e) simp_all
qed (simp_all add: opened_put_def entropy_new_def)

section \<open>Gets\<close>

fun said_get :: "chunk entropy_upcall \<Rightarrow> chunk \<Rightarrow> bool" where
  "said_get (UpPutOk k) c \<longleftrightarrow> False"
| "said_get (UpGetOk k buf) c \<longleftrightarrow> k = c"

fun asks_get :: "('x, 'enc, 'dec) storage_event \<Rightarrow> chunk \<Rightarrow> bool" where
  "asks_get (EvGet k) c \<longleftrightarrow> k = c"
| "asks_get _ c \<longleftrightarrow> False"

definition opened_get :: "('x, 'enc, 'dec) storage_peer \<Rightarrow> chunk \<Rightarrow> bool" where
  "opened_get p c \<longleftrightarrow> hm_has (et_downloads p) c"

definition same_gets :: "('x, 'enc, 'dec) storage_peer \<Rightarrow> ('x, 'enc, 'dec) storage_peer \<Rightarrow> bool" where
  "same_gets p p' \<longleftrightarrow> (\<forall>c. tally said_get opened_get p' c = tally said_get opened_get p c)"

lemmas get_tally_simps = same_gets_def tally_def opened_get_def hm_has_def Let_def et_after

lemma same_gets_refl [simp]: "same_gets p p"
  by (simp add: same_gets_def)

lemma same_gets_uploads:
  "same_gets p (after (on_put env k buf p))"
  "same_gets p (after (on_new_encoder chunk e p))"
  "same_gets p (after (on_invite_ok env io p))"
  "same_gets p (after (on_encode chunk idx f p))"
  "same_gets p (after (on_fragment_available env m p))"
  by (auto simp: on_put_def on_new_encoder_def on_invite_ok_def on_encode_def
      on_fragment_available_def get_tally_simps split: option.split)

lemma same_gets_persists:
  "same_gets p (after (on_recv_offer env offer p))"
  "same_gets p (after (on_store_ok env chunk p))"
  "same_gets p (after (on_recover_encode chunk f p))"
  "same_gets p (after (on_pull q p))"
  by (auto simp: on_recv_offer_def on_store_ok_def on_recover_encode_def on_pull_def
      get_tally_simps split: option.split persist_status.split)

lemma same_gets_decoding:
  "same_gets p (after (on_invite env idx iv p))"
  "same_gets p (after (on_download_ok env m p))"
  "same_gets p (after (on_decode env chunk d p))"
  by (auto simp: on_invite_def recover_new_def on_download_ok_def on_decode_def put_download_def
      put_persist_def get_tally_simps
      split: sum.split download_ok.split option.split persist_status.split)

lemma same_gets_offer_each: "same_gets p (after (offer_each m f ids p))"
proof (induction ids arbitrary: p)
  case (Cons i ids)
  have step: "same_gets p (after (et_offer i m f None p))" by (simp add: get_tally_simps)
  show ?case
  proof (cases "et_offer i m f None p")
    case (Ok u q)
    with step Cons.IH [of q] show ?thesis by (simp add: same_gets_def)
  qed (use step in simp)
qed simp

lemma same_gets_load_ok: "same_gets p (after (on_load_ok chunk idx f p))"
proof (cases "hm_get (et_pending_pulls p) chunk")
  case (Some ids)
  have "same_gets p (p\<lparr>et_pending_pulls := hm_remove chunk (et_pending_pulls p)\<rparr>)"
    by (simp add: get_tally_simps)
  then show ?thesis
    using same_gets_offer_each [of "p\<lparr>et_pending_pulls := hm_remove chunk (et_pending_pulls p)\<rparr>"
        "\<lparr>sf_chunk = chunk, sf_index = idx, sf_peer_id = None\<rparr>" f ids] Some
    by (simp add: on_load_ok_def same_gets_def)
qed (simp add: on_load_ok_def)

lemma get_tally_get:
  "tally said_get opened_get (after (on_get (server_env env) k p)) c
     \<le> tally said_get opened_get p c + of_bool (k = c)"
  by (auto simp: on_get_def recover_new_def get_tally_simps split: sum.split)

lemma get_tally_recover:
  assumes "entropy_typed (server_env env) p"
  shows "tally said_get opened_get (after (on_recover chunk b p)) c \<le> tally said_get opened_get p c"
proof (cases "hm_get (et_downloads p) chunk")
  case (Some st)
  have "dl_preimage st = chunk"
    using typed_download_get [OF assms Some] by (simp add: download_typed_def)
  with Some show ?thesis by (auto simp: on_recover_def get_tally_simps)
qed (simp add: on_recover_def)

interpretation gets: answering env said_get asks_get
    "opened_get :: ('x, 'enc, 'dec) storage_peer \<Rightarrow> chunk \<Rightarrow> bool"
  for env :: "(chunk, 'enc, 'dec) entropy_env"
proof
  fix p :: "('x, 'enc, 'dec) storage_peer" and e :: "('x, 'enc, 'dec) storage_event" and c
  assume typed: "entropy_typed (server_env env) p"
  have frame: "tally said_get opened_get p' c \<le> tally said_get opened_get p c" if "same_gets p p'" for p'
    using that by (simp add: same_gets_def)
  note handlers = same_gets_uploads same_gets_persists same_gets_decoding same_gets_load_ok
  show "tally said_get opened_get (after (entropy_on_event (server_env env) e p)) c
      \<le> tally said_get opened_get p c + of_bool (asks_get e c)"
  proof (cases e)
    case (EvCodec x)
    then show ?thesis by (cases x) (simp_all add: get_tally_recover [OF typed] frame handlers)
  next
    case (EvFs x)
    then show ?thesis by (cases x) (simp_all add: frame handlers)
  qed (simp_all add: get_tally_get frame handlers)
next
  show "is_request e" if "asks_get e c" for e :: "('x, 'enc, 'dec) storage_event" and c
    using that by (cases e) simp_all
qed (simp_all add: opened_get_def entropy_new_def)

section \<open>Well-typed peers\<close>

lemma peers_typed_update:
  "peers_typed env s \<Longrightarrow> entropy_typed (server_env env) (px_peer h) \<Longrightarrow>
   peers_typed env (s\<lparr>ea_senders := (ea_senders s)[i := h]\<rparr>)"
  by (auto simp: peers_typed_def list_all_iff dest!: set_update_subset_insert [THEN subsetD])

lemma peers_typed_nth:
  "peers_typed env s \<Longrightarrow> i < length (ea_senders s) \<Longrightarrow>
   entropy_typed (server_env env) (px_peer (ea_senders s ! i))"
  by (simp add: peers_typed_def list_all_length)

lemma peers_typed_frame [simp]:
  "peers_typed env (s\<lparr>ea_upcall := u\<rparr>) = peers_typed env s"
  "peers_typed env (s\<lparr>ea_puts := r\<rparr>) = peers_typed env s"
  "peers_typed env (s\<lparr>ea_gets := q\<rparr>) = peers_typed env s"
  "peers_typed env (s\<lparr>ea_session := e\<rparr>) = peers_typed env s"
  by (simp_all add: peers_typed_def)

lemma peers_typed_send:
  "peers_typed env s \<Longrightarrow> peers_typed env (after (send_to_peer i e s))"
  by (auto simp: send_to_peer_def Let_def peers_typed_nth intro: peers_typed_update)

lemma peers_typed_run:
  assumes "peers_typed env s"
  shows "peers_typed env (run_peer env i s)"
proof (cases "i < length (ea_senders s) \<and> px_queue (ea_senders s ! i) \<noteq> []")
  case True
  then obtain e q where q: "px_queue (ea_senders s ! i) = e # q" by (auto simp: neq_Nil_conv)
  have "entropy_typed (server_env env) ((px_peer (ea_senders s ! i))\<lparr>et_upcall := ea_upcall s\<rparr>)"
    using peers_typed_nth [OF assms] True by simp
  from typed_event [OF this, of e] assms q show ?thesis
    by (auto simp: run_peer_def Let_def peers_typed_def list_all_length nth_list_update)
qed (use assms in \<open>auto simp: run_peer_def split: list.split\<close>)

lemma peers_typed_start:
  "peers_typed env s \<Longrightarrow> peers_typed env (after (start_peers env keys shuffle config s))"
  by (auto simp: start_peers_def peers_typed_def list_all_iff start_peer_def Let_def split_beta
      entropy_typed_def entropy_new_def)

lemma peers_typed_ok:
  assumes "peers_typed env s"
  shows "peers_typed env (snd (app_ok choice s))"
proof -
  have "peers_typed env (s\<lparr>ea_senders := (ea_senders s)[i := (ea_senders s ! i)\<lparr>px_joined := True\<rparr>]\<rparr>)" for i
    using assms peers_typed_nth [OF assms, of i]
    by (cases "i < length (ea_senders s)") (simp add: peers_typed_update, simp add: peers_typed_def not_less list_update_beyond)
  with assms show ?thesis by (simp add: app_ok_def Let_def split: list.split)
qed

section \<open>Requests that wait\<close>

definition requests_live :: "'v requests \<Rightarrow> bool" where
  "requests_live r \<longleftrightarrow>
     (\<forall>c n. hm_get (rt_pending r) c = Some n \<longrightarrow> n < length (rt_chans r) \<and> rt_chans r ! n = Awaiting \<and>
        (\<forall>c'. hm_get (rt_pending r) c' = Some n \<longrightarrow> c' = c))"

definition covered :: "'v requests \<Rightarrow> (chunk \<Rightarrow> nat) \<Rightarrow> bool" where
  "covered r owe \<longleftrightarrow> (\<forall>c. owe c \<le> of_bool (hm_has (rt_pending r) c))"

lemma covered_le: "covered r owe \<Longrightarrow> owe' \<le> owe \<Longrightarrow> covered r owe'"
  unfolding covered_def le_fun_def using le_trans by blast

lemma requests_liveD:
  assumes "requests_live r" and "hm_get (rt_pending r) c = Some n"
  shows "n < length (rt_chans r)" "rt_chans r ! n = Awaiting"
    "hm_get (rt_pending r) c' = Some n \<Longrightarrow> c' = c"
  using assms by (simp_all add: requests_live_def)

lemma open_request_ok:
  assumes live: "requests_live r" and "covered r owe" and "open_request chunk r = Ok n r'"
    and "\<And>c. owe' c \<le> owe c + of_bool (chunk = c)"
  shows "requests_live r' \<and> covered r' owe'"
proof -
  have new: "hm_get (rt_pending r) chunk = None"
    and chans: "rt_chans r' = rt_chans r @ [Awaiting]"
    and pending: "hm_get (rt_pending r') c = (if c = chunk then Some (length (rt_chans r))
      else hm_get (rt_pending r) c)" for c
    using assms(3) by (auto simp: open_request_def Let_def split: option.splits)
  have "n < length (rt_chans r') \<and> rt_chans r' ! n = Awaiting \<and> c' = c"
    if c: "hm_get (rt_pending r') c = Some n" and c': "hm_get (rt_pending r') c' = Some n" for c c' n
  proof (cases "c = chunk")
    case True
    with c have n: "n = length (rt_chans r)" by (simp add: pending)
    have "c' = chunk"
    proof (rule ccontr)
      assume "c' \<noteq> chunk"
      with c' have "n < length (rt_chans r)" using requests_liveD(1) [OF live] by (simp add: pending)
      with n show False by simp
    qed
    with True n show ?thesis by (simp add: chans)
  next
    case False
    with c have old: "hm_get (rt_pending r) c = Some n" by (simp add: pending)
    note d = requests_liveD [OF live old]
    with c' have "c' = c" by (auto simp: pending split: if_splits)
    with d(1,2) show ?thesis by (simp add: chans nth_append)
  qed
  then have "requests_live r'" unfolding requests_live_def by blast
  moreover have "owe' c \<le> of_bool (hm_has (rt_pending r') c)" for c
  proof -
    have "owe c \<le> of_bool (hm_has (rt_pending r) c)" using assms(2) by (simp add: covered_def)
    with assms(4) [of c] new show ?thesis by (cases "c = chunk") (simp_all add: hm_has_def pending)
  qed
  then have "covered r' owe'" by (simp add: covered_def)
  ultimately show ?thesis ..
qed

lemma answer_request_ok:
  assumes live: "requests_live r" and "hm_has (rt_pending r) chunk"
  obtains r' where "answer_request chunk v r = Ok () r'" "requests_live r'"
    "rt_pending r' = hm_remove chunk (rt_pending r)"
proof -
  from assms(2) obtain n where n: "hm_get (rt_pending r) chunk = Some n" by (auto simp: hm_has_def)
  note chunk = requests_liveD [OF live n]
  let ?r = "r\<lparr>rt_pending := hm_remove chunk (rt_pending r), rt_chans := (rt_chans r)[n := Replied v]\<rparr>"
  have "m < length (rt_chans ?r) \<and> rt_chans ?r ! m = Awaiting \<and> c' = c"
    if c: "hm_get (rt_pending ?r) c = Some m" and c': "hm_get (rt_pending ?r) c' = Some m" for c c' m
  proof -
    from c c' have old: "c \<noteq> chunk" "hm_get (rt_pending r) c = Some m" "hm_get (rt_pending r) c' = Some m"
      by (simp_all split: if_splits)
    note d = requests_liveD [OF live old(2)]
    from old(1,2) chunk(3) have "m \<noteq> n" by blast
    with d(1,2) d(3) [OF old(3)] show ?thesis by simp
  qed
  then have "requests_live ?r" unfolding requests_live_def by blast
  with that [of ?r] n chunk(2) show thesis by (simp add: answer_request_def Let_def)
qed

lemma covered_answered:
  assumes "covered r owe" and "owe' chunk + 1 \<le> owe chunk" and "\<And>c. owe' c \<le> owe c"
    and "rt_pending r' = hm_remove chunk (rt_pending r)"
  shows "covered r' owe' \<and> hm_has (rt_pending r) chunk"
proof -
  have bound: "owe c \<le> of_bool (hm_has (rt_pending r) c)" for c using assms(1) by (simp add: covered_def)
  from bound [of chunk] assms(2) have has: "hm_has (rt_pending r) chunk"
    by (cases "hm_has (rt_pending r) chunk") simp_all
  have "owe' c \<le> of_bool (hm_has (rt_pending r') c)" for c
    using bound [of c] assms(2) assms(3) [of c] has assms(4) by (cases "c = chunk") auto
  with has show ?thesis by (simp add: covered_def)
qed

section \<open>The server's invariant\<close>

definition app_inv ::
  "(chunk, 'enc, 'dec) entropy_env \<Rightarrow> ('ip, 'x, 'enc, 'dec) entropy_app \<Rightarrow> bool" where
  "app_inv env s \<longleftrightarrow> peers_typed env s \<and> ea_session s = None \<and>
     requests_live (ea_puts s) \<and> covered (ea_puts s) (under_way said_put asks_put opened_put s) \<and>
     requests_live (ea_gets s) \<and> covered (ea_gets s) (under_way said_get asks_get opened_get s)"

lemma app_inv_new: "app_inv env entropy_app_new"
  by (simp add: app_inv_def entropy_app_new_def peers_typed_def requests_live_def requests_new_def
      covered_def under_way_def open_sink_def)

lemma app_inv_less:
  assumes "app_inv env s" and "peers_typed env s'" and "ea_session s' = None"
    and "ea_puts s' = ea_puts s" and "ea_gets s' = ea_gets s"
    and "\<And>c. under_way said_put asks_put opened_put s' c \<le> under_way said_put asks_put opened_put s c"
    and "\<And>c. under_way said_get asks_get opened_get s' c \<le> under_way said_get asks_get opened_get s c"
  shows "app_inv env s'"
proof -
  have "covered (ea_puts s) (under_way said_put asks_put opened_put s')"
    by (rule covered_le [where owe = "under_way said_put asks_put opened_put s"])
      (use assms(1,6) in \<open>simp_all add: app_inv_def le_fun_def\<close>)
  moreover have "covered (ea_gets s) (under_way said_get asks_get opened_get s')"
    by (rule covered_le [where owe = "under_way said_get asks_get opened_get s"])
      (use assms(1,7) in \<open>simp_all add: app_inv_def le_fun_def\<close>)
  ultimately show ?thesis using assms(1-5) by (simp add: app_inv_def)
qed

lemma send_frame [simp]:
  "ea_puts (after (send_to_peer i e s)) = ea_puts s" "ea_gets (after (send_to_peer i e s)) = ea_gets s"
  "ea_session (after (send_to_peer i e s)) = ea_session s"
  "ea_upcall (after (send_to_peer i e s)) = ea_upcall s"
  by (simp_all add: send_to_peer_def Let_def)

lemma run_frame [simp]:
  "ea_puts (run_peer env i s) = ea_puts s" "ea_gets (run_peer env i s) = ea_gets s"
  "ea_session (run_peer env i s) = ea_session s"
  by (simp_all add: run_peer_def Let_def split: list.split)

lemma app_inv_put:
  assumes inv: "app_inv env s" and "put_chunk env i body s = Ok x s'"
  shows "app_inv env s'"
proof -
  obtain buf where body: "body = Inr buf" using assms(2) by (cases body) (simp_all add: put_chunk_def)
  let ?c = "sha256 (ee_lib env) hash_bytes buf" and ?e = "EvPut (sha256 (ee_lib env) hash_bytes buf) buf"
  obtain n r where r: "open_request ?c (ea_puts s) = Ok n r"
    and s': "send_to_peer i ?e (s\<lparr>ea_puts := r\<rparr>) = Ok () s'"
    using assms(2) unfolding put_chunk_def body
    by (cases "open_request ?c (ea_puts s)") (auto simp: Let_def split: outcome.splits)
  have eq: "s' = after (send_to_peer i ?e (s\<lparr>ea_puts := r\<rparr>))" by (simp add: s')
  have "under_way said_put asks_put opened_put s' c
      \<le> under_way said_put asks_put opened_put s c + of_bool (?c = c)" for c
    using puts.send_under_way [of i ?e "s\<lparr>ea_puts := r\<rparr>" c] by (simp add: eq)
  from open_request_ok [OF _ _ r this] inv have puts: "requests_live r"
    "covered r (under_way said_put asks_put opened_put s')" by (simp_all add: app_inv_def)
  have "under_way said_get asks_get opened_get s' \<le> under_way said_get asks_get opened_get s"
    using gets.send_under_way [of i ?e "s\<lparr>ea_puts := r\<rparr>"] by (simp add: eq le_fun_def)
  then have "covered (ea_gets s) (under_way said_get asks_get opened_get s')"
    by (rule covered_le [rotated]) (use inv in \<open>simp add: app_inv_def\<close>)
  with inv puts peers_typed_send [of env "s\<lparr>ea_puts := r\<rparr>" i ?e]
  show ?thesis by (simp add: app_inv_def eq)
qed

lemma app_inv_get:
  assumes inv: "app_inv env s" and "get_chunk i parsed s = Ok x s'"
  shows "app_inv env s'"
proof -
  obtain c where parsed: "parsed = Inr c" using assms(2) by (cases parsed) (simp_all add: get_chunk_def)
  let ?e = "EvGet c"
  obtain n r where r: "open_request c (ea_gets s) = Ok n r"
    and s': "send_to_peer i ?e (s\<lparr>ea_gets := r\<rparr>) = Ok () s'"
    using assms(2) unfolding get_chunk_def parsed
    by (cases "open_request c (ea_gets s)") (auto split: outcome.splits)
  have eq: "s' = after (send_to_peer i ?e (s\<lparr>ea_gets := r\<rparr>))" by (simp add: s')
  have "under_way said_get asks_get opened_get s' k
      \<le> under_way said_get asks_get opened_get s k + of_bool (c = k)" for k
    using gets.send_under_way [of i ?e "s\<lparr>ea_gets := r\<rparr>" k] by (simp add: eq)
  from open_request_ok [OF _ _ r this] inv have gets: "requests_live r"
    "covered r (under_way said_get asks_get opened_get s')" by (simp_all add: app_inv_def)
  have "under_way said_put asks_put opened_put s' \<le> under_way said_put asks_put opened_put s"
    using puts.send_under_way [of i ?e "s\<lparr>ea_gets := r\<rparr>"] by (simp add: eq le_fun_def)
  then have "covered (ea_puts s) (under_way said_put asks_put opened_put s')"
    by (rule covered_le [rotated]) (use inv in \<open>simp add: app_inv_def\<close>)
  with inv gets peers_typed_send [of env "s\<lparr>ea_gets := r\<rparr>" i ?e]
  show ?thesis by (simp add: app_inv_def eq)
qed

lemma under_way_pop:
  assumes "sent (ea_upcall s) = u # rest"
  shows "under_way said asks opened (s\<lparr>ea_upcall := (ea_upcall s)\<lparr>sent := rest\<rparr>\<rparr>) c + of_bool (said u c) =
    under_way said asks opened s c"
  by (simp add: under_way_def assms)

lemma app_inv_upcall:
  assumes inv: "app_inv env s"
  shows "app_inv env (upcall_session s)"
proof (cases "sent (ea_upcall s)")
  case Nil
  with inv show ?thesis by (simp add: upcall_session_def)
next
  case (Cons u rest)
  let ?s = "s\<lparr>ea_upcall := (ea_upcall s)\<lparr>sent := rest\<rparr>\<rparr>"
  note less = under_way_pop [OF Cons]
  let ?put = "under_way said_put asks_put opened_put" and ?get = "under_way said_get asks_get opened_get"
  have put_le: "?put ?s \<le> ?put s" and get_le: "?get ?s \<le> ?get s"
    using less [of said_put asks_put opened_put] less [of said_get asks_get opened_get]
    by (auto simp: le_fun_def intro: le_trans [OF le_add1 eq_refl])
  show ?thesis
  proof (cases u)
    case (UpPutOk c)
    have "under_way said_put asks_put opened_put ?s c + 1 \<le> under_way said_put asks_put opened_put s c"
      using less [of said_put asks_put opened_put c] by (simp add: UpPutOk)
    note cov = covered_answered [where owe = "?put s" and owe' = "?put ?s", OF _ this le_funD [OF put_le]]
    from inv cov [of "ea_puts s" "ea_puts s\<lparr>rt_pending := hm_remove c (rt_pending (ea_puts s))\<rparr>"]
    obtain r where r: "answer_request c () (ea_puts s) = Ok () r" "requests_live r"
      "rt_pending r = hm_remove c (rt_pending (ea_puts s))"
      by (auto simp: app_inv_def intro: answer_request_ok)
    have "covered (ea_gets s) (?get ?s)"
      by (rule covered_le [OF _ get_le]) (use inv in \<open>simp add: app_inv_def\<close>)
    with inv cov [of "ea_puts s" r] Cons UpPutOk r show ?thesis
      by (simp add: upcall_session_def app_inv_def)
  next
    case (UpGetOk c b)
    have "under_way said_get asks_get opened_get ?s c + 1 \<le> under_way said_get asks_get opened_get s c"
      using less [of said_get asks_get opened_get c] by (simp add: UpGetOk)
    note cov = covered_answered [where owe = "?get s" and owe' = "?get ?s", OF _ this le_funD [OF get_le]]
    from inv cov [of "ea_gets s" "ea_gets s\<lparr>rt_pending := hm_remove c (rt_pending (ea_gets s))\<rparr>"]
    obtain r where r: "answer_request c b (ea_gets s) = Ok () r" "requests_live r"
      "rt_pending r = hm_remove c (rt_pending (ea_gets s))"
      by (auto simp: app_inv_def intro: answer_request_ok)
    have "covered (ea_puts s) (?put ?s)"
      by (rule covered_le [OF _ put_le]) (use inv in \<open>simp add: app_inv_def\<close>)
    with inv cov [of "ea_gets s" r] Cons UpGetOk r show ?thesis
      by (simp add: upcall_session_def app_inv_def)
  qed
qed

lemma app_inv_step:
  assumes inv: "app_inv env s" and ok: "server_step env cmd s = Ok () s'"
  shows "app_inv env s'"
proof (cases cmd)
  case (PutChunk i body)
  with ok show ?thesis by (auto simp: and_then_Ok_iff intro: app_inv_put [OF inv])
next
  case (GetChunk i parsed)
  with ok show ?thesis by (auto simp: and_then_Ok_iff intro: app_inv_get [OF inv])
next
  case (PeerHandles i)
  have t: "peers_typed env s" "ea_session s = None" using inv by (simp_all add: app_inv_def)
  from PeerHandles ok have "s' = run_peer env i s" by simp
  with t show ?thesis
    by (auto intro!: app_inv_less [OF inv] peers_typed_run puts.run_under_way gets.run_under_way)
next
  case (Arrives i e)
  have t: "peers_typed env s" "ea_session s = None" using inv by (simp_all add: app_inv_def)
  show ?thesis
  proof (cases "is_request e")
    case True
    with Arrives ok inv show ?thesis by simp
  next
    case False
    then have "\<not> asks_put e c" "\<not> asks_get e c" for c
      using puts.asks_request gets.asks_request by blast+
    with puts.send_under_way [of i e s] gets.send_under_way [of i e s]
    have "app_inv env (after (send_to_peer i e s))"
      using t by (intro app_inv_less [OF inv]) (simp_all add: peers_typed_send)
    with False Arrives ok show ?thesis by simp
  qed
next
  case UpcallHandled
  with ok app_inv_upcall [OF inv] show ?thesis by simp
next
  case (PollOk choice)
  have t: "peers_typed env s" "ea_session s = None" using inv by (simp_all add: app_inv_def)
  have "ea_puts (snd (app_ok choice s)) = ea_puts s" "ea_gets (snd (app_ok choice s)) = ea_gets s"
    "ea_session (snd (app_ok choice s)) = ea_session s"
    by (simp_all add: app_ok_def Let_def split: list.split)
  with t have "app_inv env (snd (app_ok choice s))"
    by (intro app_inv_less [OF inv]) (simp_all add: peers_typed_ok puts.ok_under_way gets.ok_under_way)
  with PollOk ok show ?thesis by simp
next
  case (StartPeers keys shuffle config)
  have t: "peers_typed env s" "ea_session s = None" using inv by (simp_all add: app_inv_def)
  have "ea_puts (after (start_peers env keys shuffle config s)) = ea_puts s"
    "ea_gets (after (start_peers env keys shuffle config s)) = ea_gets s"
    "ea_session (after (start_peers env keys shuffle config s)) = ea_session s"
    by (simp_all add: start_peers_def)
  with t have "app_inv env (after (start_peers env keys shuffle config s))"
    by (intro app_inv_less [OF inv])
      (simp_all add: peers_typed_start puts.start_under_way gets.start_under_way)
  with StartPeers ok show ?thesis by simp
next
  case StopPeers
  have t: "peers_typed env s" "ea_session s = None" using inv by (simp_all add: app_inv_def)
  have "app_inv env (stop_peers s)"
    by (rule app_inv_less [OF inv])
      (use t in \<open>simp_all add: puts.stop_under_way gets.stop_under_way\<close>,
        simp_all add: stop_peers_def peers_typed_def)
  with StopPeers ok show ?thesis by simp
qed

text \<open>No handler fails in the run.\<close>

fun all_accepted ::
  "(chunk, 'enc, 'dec) entropy_env \<Rightarrow> ('ip, 'x, 'enc, 'dec) server_cmd list \<Rightarrow>
   ('ip, 'x, 'enc, 'dec) entropy_app \<Rightarrow> bool" where
  "all_accepted env [] s \<longleftrightarrow> True"
| "all_accepted env (cmd # cmds) s \<longleftrightarrow>
     is_ok (server_step env cmd s) \<and> all_accepted env cmds (after (server_step env cmd s))"

lemma app_inv_run:
  "app_inv env s \<Longrightarrow> all_accepted env cmds s \<Longrightarrow> app_inv env (server_run env cmds s)"
proof (induction cmds arbitrary: s)
  case (Cons cmd cmds)
  then obtain s' where "server_step env cmd s = Ok () s'" by (auto simp: is_ok_iff)
  with Cons app_inv_step [OF Cons.prems(1) this] show ?case by simp
qed simp

section \<open>Failed requests\<close>

text \<open>An entry whose receiver is gone.\<close>

definition poisoned :: "chunk \<Rightarrow> 'v requests \<Rightarrow> bool" where
  "poisoned c r \<longleftrightarrow>
     (case hm_get (rt_pending r) c of
        None \<Rightarrow> False
      | Some n \<Rightarrow> n < length (rt_chans r) \<and> rt_chans r ! n = ReceiverGone)"

lemma poisoned_Err:
  "open_request c r = Err e r' \<Longrightarrow> poisoned c r'"
  by (auto simp: open_request_def Let_def poisoned_def drop_receiver_def drop_sender_def split: option.splits)

lemma poisoned_dropped:
  "open_request c r = Ok n r' \<Longrightarrow> poisoned c (drop_receiver n r')"
  by (auto simp: open_request_def Let_def poisoned_def drop_receiver_def split: option.splits)

lemma update_same: "xs ! m = v \<Longrightarrow> m < length xs \<Longrightarrow> xs[n := v] ! m = v"
  by (cases "n = m") simp_all

lemma poisoned_drop_receiver: "poisoned c r \<Longrightarrow> poisoned c (drop_receiver n r)"
  by (auto simp: poisoned_def drop_receiver_def update_same split: option.splits)

lemma poisoned_open:
  assumes "poisoned c r"
  shows "poisoned c (after (open_request c' r))"
proof (cases "open_request c' r")
  case (Err e r')
  show ?thesis
  proof (cases "c' = c")
    case False
    with assms Err show ?thesis
      by (auto simp: open_request_def Let_def poisoned_def drop_receiver_def drop_sender_def nth_append
          nth_list_update split: option.splits)
  qed (use poisoned_Err Err in auto)
next
  case (Ok n r')
  then have "hm_get (rt_pending r) c' = None" by (simp add: open_request_def Let_def split: option.splits)
  moreover from this assms have "c' \<noteq> c" by (auto simp: poisoned_def)
  ultimately show ?thesis
    using assms by (auto simp: open_request_def Let_def poisoned_def nth_append split: option.splits)
qed

lemma poisoned_refuses: "poisoned c r \<Longrightarrow> \<exists>r'. open_request c r = Err (Panic ''assertion failed: replaced.is_none()'') r'"
  by (auto simp: poisoned_def open_request_def Let_def split: option.splits)

lemma poisoned_answer:
  assumes "poisoned c r"
  shows "(if c' = c then \<not> is_ok (answer_request c' v r) else poisoned c (after (answer_request c' v r)))"
proof (cases "hm_get (rt_pending r) c'")
  case (Some n)
  obtain m where m: "hm_get (rt_pending r) c = Some m" "m < length (rt_chans r)" "rt_chans r ! m = ReceiverGone"
    using assms by (auto simp: poisoned_def split: option.splits)
  show ?thesis
  proof (cases "c' = c")
    case True
    with m show ?thesis by (simp add: answer_request_def)
  next
    case False
    show ?thesis
    proof (cases "rt_chans r ! n = Awaiting")
      case True
      with m have "n \<noteq> m" by auto
      with False True Some m show ?thesis by (simp add: answer_request_def Let_def poisoned_def)
    qed (use False Some m in \<open>simp add: answer_request_def Let_def poisoned_def\<close>)
  qed
qed (use assms in \<open>auto simp: answer_request_def poisoned_def\<close>)

lemma send_Err: "send_to_peer i e s = Err err s' \<Longrightarrow> s' = s"
  by (auto simp: send_to_peer_def Let_def split: if_splits)

lemma send_Ok: "send_to_peer i e s = Ok u s' \<Longrightarrow> ea_puts s' = ea_puts s \<and> ea_gets s' = ea_gets s"
  by (auto simp: send_to_peer_def Let_def split: if_splits)

lemma stuck_put:
  assumes "poisoned c (ea_puts s)"
  shows "poisoned c (ea_puts (after (put_chunk env i body s)))"
proof (cases body)
  case (Inr buf)
  let ?c = "sha256 (ee_lib env) hash_bytes buf"
  note p = poisoned_open [OF assms, of ?c]
  show ?thesis
  proof (cases "open_request ?c (ea_puts s)")
    case (Ok n r)
    with p show ?thesis
      by (auto simp: put_chunk_def Inr Let_def poisoned_drop_receiver dest: send_Err send_Ok
          split: outcome.split)
  qed (use p in \<open>simp add: put_chunk_def Inr Let_def\<close>)
qed (use assms in \<open>simp add: put_chunk_def\<close>)

lemma get_puts: "ea_puts (after (get_chunk i parsed s)) = ea_puts s"
proof (cases parsed)
  case (Inr c)
  show ?thesis
  proof (cases "open_request c (ea_gets s)")
    case (Ok n r)
    let ?m = "send_to_peer i (EvGet c) (s\<lparr>ea_gets := r\<rparr>)"
    have "ea_puts (after ?m) = ea_puts s" by simp
    with Ok show ?thesis
      by (cases ?m) (simp_all add: get_chunk_def Inr)
  qed (simp add: get_chunk_def Inr)
qed (simp add: get_chunk_def)

lemma stuck_step:
  assumes "poisoned c (ea_puts s)"
  shows "ea_session (after (server_step env cmd s)) \<noteq> None \<or> poisoned c (ea_puts (after (server_step env cmd s)))"
proof (cases cmd)
  case (PutChunk i body)
  then show ?thesis using stuck_put [OF assms, of env i body]
    by (cases "put_chunk env i body s") simp_all
next
  case (GetChunk i parsed)
  then show ?thesis using get_puts [of i parsed s] assms
    by (cases "get_chunk i parsed s") simp_all
next
  case UpcallHandled
  show ?thesis
  proof (cases "sent (ea_upcall s)")
    case (Cons u rest)
    let ?s = "s\<lparr>ea_upcall := (ea_upcall s)\<lparr>sent := rest\<rparr>\<rparr>"
    show ?thesis
    proof (cases u)
      case (UpPutOk c')
      from poisoned_answer [OF assms, of c' "()"] show ?thesis
        by (cases "answer_request c' () (ea_puts s)")
          (auto simp: UpcallHandled upcall_session_def Cons UpPutOk split: if_splits)
    next
      case (UpGetOk c' b)
      from assms show ?thesis
        by (cases "answer_request c' b (ea_gets s)")
          (auto simp: UpcallHandled upcall_session_def Cons UpGetOk)
    qed
  qed (use assms in \<open>simp add: UpcallHandled upcall_session_def\<close>)
qed (use assms in \<open>auto simp: app_ok_def Let_def start_peers_def stop_peers_def split: list.split\<close>)

lemma stuck_run:
  "poisoned c (ea_puts s) \<Longrightarrow>
   ea_session (server_run env cmds s) \<noteq> None \<or> poisoned c (ea_puts (server_run env cmds s))"
proof (induction cmds arbitrary: s)
  case (Cons cmd cmds)
  show ?case
  proof (cases "ea_session s")
    case None
    from stuck_step [OF Cons.prems, of env cmd] show ?thesis
    proof
      assume ended: "ea_session (after (server_step env cmd s)) \<noteq> None"
      then have "server_run env cmds (after (server_step env cmd s)) = after (server_step env cmd s)"
        by (cases cmds) auto
      with ended show ?thesis using None by simp
    next
      assume "poisoned c (ea_puts (after (server_step env cmd s)))"
      from Cons.IH [OF this] None show ?thesis by simp
    qed
  qed simp
qed simp

section \<open>The properties\<close>

fun upcall_expected :: "('ip, 'x, 'enc, 'dec) entropy_app \<Rightarrow> chunk entropy_upcall \<Rightarrow> bool" where
  "upcall_expected s (UpPutOk c) =
     (case hm_get (rt_pending (ea_puts s)) c of None \<Rightarrow> False | Some n \<Rightarrow> rt_chans (ea_puts s) ! n = Awaiting)"
| "upcall_expected s (UpGetOk c buf) =
     (case hm_get (rt_pending (ea_gets s)) c of None \<Rightarrow> False | Some n \<Rightarrow> rt_chans (ea_gets s) ! n = Awaiting)"

lemma covered_has:
  "covered r owe \<Longrightarrow> 0 < owe c \<Longrightarrow> requests_live r \<Longrightarrow>
   \<exists>n. hm_get (rt_pending r) c = Some n \<and> rt_chans r ! n = Awaiting"
  using requests_liveD(2) [of r c] by (cases "hm_get (rt_pending r) c") (auto simp: covered_def hm_has_def dest: spec [of _ c])

text \<open>C32: The server and its storage peers, with any interleaving of requests, messages, failing peers, restarts
  and upcalls: as long as no request is refused, the session that takes the peers' upcalls does not
  panic, and for every upcall under way the request it answers is pending and its client waits.
  So a peer announces a put or a get at most once, and only if it was asked for.\<close>

theorem server_upcalls_expected:
  assumes "all_accepted env cmds entropy_app_new"
  shows "ea_session (server_run env cmds entropy_app_new) = None \<and>
    list_all (upcall_expected (server_run env cmds entropy_app_new))
      (sent (ea_upcall (server_run env cmds entropy_app_new)))"
proof -
  let ?s = "server_run env cmds entropy_app_new"
  have inv: "app_inv env ?s" by (rule app_inv_run [OF app_inv_new assms])
  have "upcall_expected ?s u" if u: "u \<in> set (sent (ea_upcall ?s))" for u
  proof (cases u)
    case (UpPutOk c)
    with u have "filter (\<lambda>u. said_put u c) (sent (ea_upcall ?s)) \<noteq> []" by (auto simp: filter_empty_conv)
    then have pos: "0 < under_way said_put asks_put opened_put ?s c" by (simp add: under_way_def)
    have "covered (ea_puts ?s) (under_way said_put asks_put opened_put ?s)" "requests_live (ea_puts ?s)"
      using inv by (simp_all add: app_inv_def)
    from covered_has [OF this(1) pos this(2)] UpPutOk show ?thesis by auto
  next
    case (UpGetOk c b)
    with u have "filter (\<lambda>u. said_get u c) (sent (ea_upcall ?s)) \<noteq> []"
      by (auto simp: filter_empty_conv intro!: bexI [of _ u])
    then have pos: "0 < under_way said_get asks_get opened_get ?s c" by (simp add: under_way_def)
    have "covered (ea_gets ?s) (under_way said_get asks_get opened_get ?s)" "requests_live (ea_gets ?s)"
      using inv by (simp_all add: app_inv_def)
    from covered_has [OF this(1) pos this(2)] UpGetOk show ?thesis by auto
  qed
  then show ?thesis using inv by (simp add: app_inv_def list_all_iff)
qed

text \<open>One peer for which a single report is enough.\<close>

definition half_chunk_env :: "(chunk, half_encoder, half_decoder) entropy_env" where
  "half_chunk_env =
     \<lparr>ee_codec = half_codec, ee_lib = plain_lib, ee_key_feed = (\<lambda>k. k), ee_target = preimage_target,
      ee_pick = (\<lambda>_. 0)\<rparr>"

type_synonym sample_cmd = "(nat, nat, half_encoder, half_decoder) server_cmd"

definition sample_start :: sample_cmd where
  "sample_start = StartPeers (\<lambda>_. [7]) (\<lambda>_ records. records)
     \<lparr>sc_ips = [1], sc_ip_index = 0, sc_num_peer_per_ip = 1, sc_fragment_len = 2, sc_chunk_k = 2,
      sc_chunk_n = 1, sc_chunk_m = 3\<rparr>"

definition sample_buf :: payload where
  "sample_buf = [1, 2, 3, 4]"

definition sample_report :: sample_cmd where
  "sample_report = Arrives 0 (EvAvailable
     \<lparr>inner = \<lparr>fa_chunk = hash_bytes sample_buf, fa_peer_id = [8], fa_peer_key = []\<rparr>, signature = []\<rparr>)"

definition sample_put_run :: "sample_cmd list" where
  "sample_put_run = [sample_start, PutChunk 0 (Inr sample_buf), PeerHandles 0, sample_report, PeerHandles 0]"

theorem server_upcalls_expected_witness:
  "sent (ea_upcall (server_run half_chunk_env sample_put_run entropy_app_new)) = [UpPutOk (hash_bytes sample_buf)] \<and>
   upcall_expected (server_run half_chunk_env sample_put_run entropy_app_new) (UpPutOk (hash_bytes sample_buf))"
proof -
  have ok: "all_accepted half_chunk_env sample_put_run entropy_app_new" by code_simp
  have "sent (ea_upcall (server_run half_chunk_env sample_put_run entropy_app_new)) = [UpPutOk (hash_bytes sample_buf)]"
    by code_simp
  with server_upcalls_expected [OF ok] show ?thesis by simp
qed

text \<open>C33: A put that is refused after its body was read, as another put of the chunk is pending, the
  peer index is out of range or the peer is gone, leaves an entry whose receiver is dropped. From
  then on, whatever happens, restarts of the peers included: every further put of that chunk is
  refused, and a peer that reports the chunk ends the upcall session and with it the server.\<close>

theorem refused_put_sticks:
  assumes "put_chunk env i (Inr buf) s = Err e s'" and "c = sha256 (ee_lib env) hash_bytes buf"
  shows "ea_session (server_run env cmds s') \<noteq> None \<or>
    poisoned c (ea_puts (server_run env cmds s')) \<and>
    \<not> is_ok (put_chunk env j (Inr buf) (server_run env cmds s')) \<and>
    (ea_upcall (server_run env cmds s') = u\<lparr>sent := UpPutOk c # rest\<rparr> \<longrightarrow>
      ea_session (upcall_session (server_run env cmds s')) \<noteq> None)"
proof -
  have "poisoned c (ea_puts s')"
  proof (cases "open_request c (ea_puts s)")
    case (Err e' r)
    with assms poisoned_Err [OF Err] show ?thesis by (auto simp: put_chunk_def Let_def)
  next
    case (Ok n r)
    with assms poisoned_dropped [OF Ok] show ?thesis
      by (auto simp: put_chunk_def Let_def dest: send_Err split: outcome.splits)
  qed
  from stuck_run [OF this, of env cmds] show ?thesis
  proof
    let ?s = "server_run env cmds s'"
    assume p: "poisoned c (ea_puts ?s)"
    from poisoned_refuses [OF p] obtain r where
      "open_request c (ea_puts ?s) = Err (Panic ''assertion failed: replaced.is_none()'') r" by blast
    then have refused: "\<not> is_ok (put_chunk env j (Inr buf) ?s)"
      using assms(2) by (simp add: put_chunk_def Let_def)
    from poisoned_answer [OF p, of c "()"] have "\<not> is_ok (answer_request c () (ea_puts ?s))" by simp
    then have "ea_session (upcall_session ?s) \<noteq> None" if "ea_upcall ?s = u\<lparr>sent := UpPutOk c # rest\<rparr>"
      using that by (cases "answer_request c () (ea_puts ?s)") (simp_all add: upcall_session_def)
    with p refused show ?thesis by blast
  qed simp
qed

text \<open>Two puts of one chunk: the second one is refused, the first client gets an error, and the report ends the server.\<close>

theorem refused_put_sticks_witness:
  "\<exists>s s' e. s = server_run half_chunk_env (take 2 sample_put_run) entropy_app_new \<and>
     put_chunk half_chunk_env 0 (Inr sample_buf) s = Err e s' \<and>
     rt_chans (ea_puts s') = [SenderGone, ReceiverGone] \<and>
     ea_session (upcall_session (server_run half_chunk_env (drop 2 sample_put_run) s')) \<noteq> None"
proof -
  let ?s = "server_run half_chunk_env (take 2 sample_put_run) entropy_app_new"
  let ?m = "put_chunk half_chunk_env 0 (Inr sample_buf) ?s"
  let ?t = "server_run half_chunk_env (drop 2 sample_put_run) (after ?m)"
  have err: "\<not> is_ok ?m" by code_simp
  then obtain e s' where m: "?m = Err e s'" by (cases ?m) auto
  have chans: "rt_chans (ea_puts (after ?m)) = [SenderGone, ReceiverGone]" by code_simp
  have "sent (ea_upcall ?t) = [UpPutOk (hash_bytes sample_buf)] \<and> ea_session ?t = None" by code_simp
  then have up: "ea_upcall ?t = (ea_upcall ?t)\<lparr>sent := UpPutOk (hash_bytes sample_buf) # []\<rparr>" "ea_session ?t = None"
    by simp_all
  have "hash_bytes sample_buf = sha256 (ee_lib half_chunk_env) hash_bytes sample_buf" by code_simp
  note sticks = refused_put_sticks [OF m this, where cmds = "drop 2 sample_put_run" and rest = "[]" and u = "ea_upcall ?t"]
  from m have "after ?m = s'" by simp
  with sticks up have "ea_session (upcall_session ?t) \<noteq> None" by metis
  with m chans show ?thesis by simp
qed

end
