(* ===== verification/Entropy_Start.thy ===== *)
theory Entropy_Start
  imports Entropy_Server
begin

text \<open>
  Starting the peers (\<open>start_peers\<close> and \<open>start_peer\<close> in \<open>src/crates/entropy/src/main.rs\<close>): all servers
  compute the same records, each keeps the peers of its own index, and every peer starts with a
  routing table that knows all the others as far as its buckets have room.
\<close>

section \<open>The records\<close>

lemma config_records_local:
  "config_records env keys config =
     concat (map (\<lambda>i. map snd (local_peers env keys (config\<lparr>sc_ip_index := i\<rparr>))) [0..<length (sc_ips config)])"
  by (auto simp: config_records_def local_peers_def ip_records_def intro!: arg_cong [of _ _ concat])

lemma local_records_known:
  "snd ` set (local_peers env keys config) \<subseteq> set (config_records env keys config)"
  by (auto simp: config_records_def local_peers_def)

text \<open>Ports do not repeat below \<open>2 ^ 16\<close> peers per address.\<close>

lemma peer_addr_inject:
  assumes "i < 65536" and "j < 65536"
  shows "peer_addr ip i = peer_addr ip' j \<longleftrightarrow> ip = ip' \<and> i = j"
proof -
  have "(of_nat i :: 16 word) = of_nat j \<longleftrightarrow> i = j"
    using assms by (simp add: word_unat_eq_iff unat_of_nat)
  then show ?thesis by (auto simp: peer_addr_def)
qed

section \<open>Filling the buckets\<close>

definition knows :: "('k, 'a) buckets \<Rightarrow> ('k, 'a) peer_record \<Rightarrow> bool" where
  "knows b r \<longleftrightarrow>
     (case index b (pe_id r) of
        Inl _ \<Rightarrow> False
      | Inr i \<Rightarrow> r \<in> set (b_records (bk_distances b ! i)) \<or>
          length (b_records (bk_distances b ! i)) = bucket_size)"

definition only_ids :: "peer_id set \<Rightarrow> ('k, 'a) buckets \<Rightarrow> bool" where
  "only_ids ids b \<longleftrightarrow> (\<forall>bucket \<in> set (bk_distances b). pe_id ` set (b_records bucket) \<subseteq> ids)"

lemma bucket_insert_fresh:
  assumes "pe_id r \<notin> pe_id ` set (b_records bucket)" and "length (b_records bucket) \<le> bucket_size"
  shows "b_records (bucket_insert r bucket) =
    (if length (b_records bucket) < bucket_size then b_records bucket @ [r] else b_records bucket)"
  using assms by (simp add: bucket_insert_def Let_def remove_id_absent)

lemma index_same_origin: "bk_origin b' = bk_origin b \<Longrightarrow> index b' t = index b t"
  by (simp add: index_def)

lemma insert_fresh:
  assumes ok: "buckets_ok b" and len: "length (pe_id r) = 32" and other: "pe_id r \<noteq> pe_id (bk_origin b)"
    and ids: "only_ids ids b" and fresh: "pe_id r \<notin> ids"
  obtains b' where "buckets_insert r b = Ok () b'" "buckets_ok b'" "bk_origin b' = bk_origin b"
    "only_ids (insert (pe_id r) ids) b'" "knows b' r" "\<And>q. knows b q \<Longrightarrow> knows b' q"
proof -
  from buckets_insert_result [OF ok len other] obtain i where i: "index b (pe_id r) = Inr i" "i < 256"
    and ins: "buckets_insert r b = Ok () (b\<lparr>bk_distances :=
       (bk_distances b)[i := bucket_insert r (bk_distances b ! i)]\<rparr>)"
    and ok': "buckets_ok (after (buckets_insert r b))" by blast
  let ?b = "b\<lparr>bk_distances := (bk_distances b)[i := bucket_insert r (bk_distances b ! i)]\<rparr>"
  have l: "i < length (bk_distances b)" using i buckets_ok_D(2) [OF ok] by simp
  have room: "length (b_records (bk_distances b ! i)) \<le> bucket_size"
    using buckets_ok_D(3) [OF ok i(2)] by (simp add: bucket_ok_def)
  have "pe_id r \<notin> pe_id ` set (b_records (bk_distances b ! i))"
    using ids fresh nth_mem [OF l] by (auto simp: only_ids_def)
  note rec = bucket_insert_fresh [OF this room]
  have "pe_id ` set (b_records (bk_distances b ! i)) \<subseteq> ids"
    using ids nth_mem [OF l] by (auto simp: only_ids_def)
  then have new: "pe_id ` set (b_records (bucket_insert r (bk_distances b ! i))) \<subseteq> insert (pe_id r) ids"
    by (auto simp: rec)
  have "only_ids (insert (pe_id r) ids) ?b"
    unfolding only_ids_def
  proof
    fix bucket
    assume "bucket \<in> set (bk_distances ?b)"
    then have "bucket = bucket_insert r (bk_distances b ! i) \<or> bucket \<in> set (bk_distances b)"
      by (auto dest!: set_update_subset_insert [THEN subsetD])
    then show "pe_id ` set (b_records bucket) \<subseteq> insert (pe_id r) ids"
      using new ids unfolding only_ids_def by blast
  qed
  moreover have "knows ?b r"
    using i l room by (auto simp: knows_def index_same_origin [of ?b b] rec)
  moreover have "knows ?b q" if "knows b q" for q
  proof -
    obtain j where j: "index b (pe_id q) = Inr j" using \<open>knows b q\<close> by (auto simp: knows_def split: sum.splits)
    show ?thesis
      using \<open>knows b q\<close> l room by (cases "j = i") (auto simp: knows_def j index_same_origin [of ?b b] rec)
  qed
  ultimately show thesis using that [of ?b] ins ok' by simp
qed

lemma fill_buckets_knows:
  assumes "buckets_ok b" and "\<forall>r \<in> set rs. length (pe_id r) = 32" and "only_ids ids b"
    and "distinct (map pe_id rs)" and "ids \<inter> pe_id ` set rs = {}"
  shows "\<exists>b'. fill_buckets (pe_id (bk_origin b)) rs b = Ok () b' \<and> buckets_ok b' \<and> bk_origin b' = bk_origin b \<and>
    only_ids (ids \<union> pe_id ` set rs) b' \<and> (\<forall>q. knows b q \<longrightarrow> knows b' q) \<and>
    (\<forall>r \<in> set rs. pe_id r \<noteq> pe_id (bk_origin b) \<longrightarrow> knows b' r)"
  using assms
proof (induction rs arbitrary: b ids)
  case Nil
  then show ?case by auto
next
  case (Cons r rs)
  show ?case
  proof (cases "pe_id r = pe_id (bk_origin b)")
    case True
    have "\<exists>b'. fill_buckets (pe_id (bk_origin b)) rs b = Ok () b' \<and> buckets_ok b' \<and> bk_origin b' = bk_origin b \<and>
      only_ids (ids \<union> pe_id ` set rs) b' \<and> (\<forall>q. knows b q \<longrightarrow> knows b' q) \<and>
      (\<forall>r \<in> set rs. pe_id r \<noteq> pe_id (bk_origin b) \<longrightarrow> knows b' r)"
      by (rule Cons.IH) (use Cons.prems in auto)
    then obtain b' where "fill_buckets (pe_id (bk_origin b)) rs b = Ok () b'" "buckets_ok b'"
      "bk_origin b' = bk_origin b" "only_ids (ids \<union> pe_id ` set rs) b'" "\<forall>q. knows b q \<longrightarrow> knows b' q"
      "\<forall>r \<in> set rs. pe_id r \<noteq> pe_id (bk_origin b) \<longrightarrow> knows b' r" by blast
    with True show ?thesis by (auto simp: only_ids_def)
  next
    case False
    from Cons.prems have "length (pe_id r) = 32" "pe_id r \<notin> ids" by auto
    from insert_fresh [OF Cons.prems(1) this(1) False Cons.prems(3) this(2)] obtain b1 where
      b1: "buckets_insert r b = Ok () b1" "buckets_ok b1" "bk_origin b1 = bk_origin b"
      "only_ids (insert (pe_id r) ids) b1" "knows b1 r" "\<And>q. knows b q \<Longrightarrow> knows b1 q" by blast
    have "\<exists>b'. fill_buckets (pe_id (bk_origin b1)) rs b1 = Ok () b' \<and> buckets_ok b' \<and> bk_origin b' = bk_origin b1 \<and>
      only_ids (insert (pe_id r) ids \<union> pe_id ` set rs) b' \<and> (\<forall>q. knows b1 q \<longrightarrow> knows b' q) \<and>
      (\<forall>r \<in> set rs. pe_id r \<noteq> pe_id (bk_origin b1) \<longrightarrow> knows b' r)"
      by (rule Cons.IH) (use Cons.prems b1 in auto)
    then obtain b' where "fill_buckets (pe_id (bk_origin b)) rs b1 = Ok () b'" "buckets_ok b'"
      "bk_origin b' = bk_origin b" "only_ids (insert (pe_id r) ids \<union> pe_id ` set rs) b'"
      "\<forall>q. knows b1 q \<longrightarrow> knows b' q" "\<forall>r \<in> set rs. pe_id r \<noteq> pe_id (bk_origin b) \<longrightarrow> knows b' r"
      using b1(3) by auto
    with False b1 show ?thesis by (intro exI [of _ b']) (auto simp: insert_commute)
  qed
qed

definition permutes :: "(bytes \<Rightarrow> 'r list \<Rightarrow> 'r list) \<Rightarrow> 'r list \<Rightarrow> bool" where
  "permutes shuffle rs \<longleftrightarrow> (\<forall>k. mset (shuffle k rs) = mset rs)"

text \<open>The new sessions of a server: what each of them starts with.\<close>

definition started_well ::
  "(bytes, 'ip socket_addr) peer_record list \<Rightarrow> ('ip, 'x, 'enc, 'dec) peer_session \<Rightarrow> bool" where
  "started_well records h \<longleftrightarrow>
     px_result h = None \<and> buckets_ok (px_buckets h) \<and> bk_origin (px_buckets h) \<in> set records \<and>
     et_id (px_peer h) = pe_id (bk_origin (px_buckets h)) \<and>
     list_all (\<lambda>r. pe_id r = et_id (px_peer h) \<or> knows (px_buckets h) r) records \<and>
     only_ids (pe_id ` set records) (px_buckets h)"

lemma start_peer_well:
  assumes "distinct (map pe_id records)" and "list_all (\<lambda>r. length (pe_id r) = 32) records"
    and "permutes shuffle records" and "snd lp \<in> set records"
  shows "started_well records (start_peer shuffle records config lp)"
proof -
  obtain crypto r where lp: "lp = (crypto, r)" by (cases lp)
  let ?rs = "shuffle crypto records"
  have rs: "mset ?rs = mset records" using assms(3) by (simp add: permutes_def)
  then have set: "set ?rs = set records" using mset_eq_setD by blast
  have "mset (map pe_id ?rs) = mset (map pe_id records)" using rs by simp
  with assms(1) have dist: "distinct (map pe_id ?rs)" using mset_eq_imp_distinct_iff by blast
  have r: "r \<in> set records" using assms(4) lp by simp
  have len: "\<forall>q \<in> set ?rs. length (pe_id q) = 32" using assms(2) set by (simp add: list_all_iff)
  have none: "only_ids {} (buckets_new r)"
    by (auto simp: only_ids_def buckets_new_def bucket_default_def)
  from len r set have "buckets_ok (buckets_new r)" by (auto intro: buckets_new_ok)
  from fill_buckets_knows [OF this len none dist] obtain b' where
    "fill_buckets (pe_id r) ?rs (buckets_new r) = Ok () b'" "buckets_ok b'" "bk_origin b' = r"
    "only_ids (pe_id ` set records) b'" "\<forall>q \<in> set records. pe_id q \<noteq> pe_id r \<longrightarrow> knows b' q"
    unfolding set by (auto simp: buckets_new_def)
  with r show ?thesis
    by (auto simp: started_well_def start_peer_def lp Let_def list_all_iff entropy_new_def)
qed

text \<open>Starting the peers of a server, when the ids of all peers differ: no peer fails; each has its own
  record as the origin of a well-formed routing table, which holds peers of the configuration
  only and knows every other one, unless the bucket for its distance is full.\<close>

theorem start_peers_tables:
  fixes s :: "('ip, 'x, 'enc, 'dec) entropy_app"
  assumes "distinct (map pe_id (config_records env keys config))"
    and "list_all (\<lambda>r. length (pe_id r) = 32) (config_records env keys config)"
    and "permutes shuffle (config_records env keys config)"
    and "start_peers env keys shuffle config s = Ok () s'"
  shows "\<exists>hs. ea_senders s' = ea_senders s @ hs \<and>
    list_all (started_well (config_records env keys config)) hs \<and>
    map (\<lambda>h. bk_origin (px_buckets h)) hs = map snd (local_peers env keys config)"
proof -
  let ?rs = "config_records env keys config" and ?lps = "local_peers env keys config"
  let ?start = "start_peer shuffle ?rs config :: _ \<Rightarrow> ('ip, 'x, 'enc, 'dec) peer_session"
  let ?hs = "map ?start ?lps"
  have well: "started_well ?rs (?start lp) \<and>
      bk_origin (px_buckets (?start lp)) = snd lp" if "lp \<in> set ?lps" for lp
  proof -
    have known: "snd lp \<in> set ?rs" using that local_records_known [of env keys config] by auto
    have w: "started_well ?rs (?start lp)" by (rule start_peer_well [OF assms(1-3) known])
    have "et_id (px_peer (?start lp)) = pe_id (snd lp)"
      by (simp add: start_peer_def split_beta Let_def entropy_new_def)
    with w have "pe_id (bk_origin (px_buckets (?start lp))) = pe_id (snd lp)"
      unfolding started_well_def by metis
    moreover have "bk_origin (px_buckets (?start lp)) \<in> set ?rs"
      using w unfolding started_well_def by blast
    ultimately show ?thesis
      using w \<open>snd lp \<in> set ?rs\<close> assms(1) by (auto simp: distinct_map dest: inj_onD)
  qed
  have "ea_senders s' = ea_senders s @ ?hs"
    using assms(4) by (auto simp: start_peers_def split: if_splits)
  moreover have "list_all (started_well ?rs) ?hs" using well by (simp add: list_all_iff)
  moreover have "map (\<lambda>h. bk_origin (px_buckets h)) ?hs = map snd ?lps" using well by simp
  ultimately show ?thesis by blast
qed

text \<open>Two servers with two peers each.\<close>

definition sample_config :: "nat start_config" where
  "sample_config = \<lparr>sc_ips = [1, 2], sc_ip_index = 1, sc_num_peer_per_ip = 2, sc_fragment_len = 2,
     sc_chunk_k = 2, sc_chunk_n = 2, sc_chunk_m = 3\<rparr>"

definition start_keys :: "nat \<Rightarrow> bytes" where
  "start_keys n = of_nat (Suc n) # replicate 31 0"

definition unit_env :: "(chunk, unit, unit) entropy_env" where
  "unit_env =
     \<lparr>ee_codec = \<lparr>cd_new_encoder = (\<lambda>_ _. Inr ()), cd_encode = (\<lambda>_ _. Inr []), cd_new_decoder = (\<lambda>_ _. Inr ()),
        cd_decode = (\<lambda>_ _ _. Inr (False, ())), cd_into_encoder = (\<lambda>_. Inr ()), cd_recover = (\<lambda>_. Inr [])\<rparr>,
      ee_lib = plain_lib, ee_key_feed = (\<lambda>k. k), ee_target = preimage_target, ee_pick = (\<lambda>_. 0)\<rparr>"

theorem start_peers_tables_witness:
  "\<exists>hs. ea_senders (after (start_peers unit_env start_keys (\<lambda>_ rs. rs) sample_config
      (entropy_app_new :: (nat, unit, unit, unit) entropy_app))) = hs \<and> length hs = 2 \<and>
    list_all (started_well (config_records unit_env start_keys sample_config)) hs"
proof -
  let ?m = "start_peers unit_env start_keys (\<lambda>_ rs. rs) sample_config (entropy_app_new :: (nat, unit, unit, unit) entropy_app)"
  have ok: "?m = Ok () (after ?m)" by (simp add: start_peers_def entropy_app_new_def)
  have "distinct (map pe_id (config_records unit_env start_keys sample_config))"
    "list_all (\<lambda>r. length (pe_id r) = 32) (config_records unit_env start_keys sample_config)" by code_simp+
  from start_peers_tables [OF this _ ok] obtain hs where hs:
    "ea_senders (after ?m) = ea_senders (entropy_app_new :: (nat, unit, unit, unit) entropy_app) @ hs"
    "list_all (started_well (config_records unit_env start_keys sample_config)) hs"
    "map (\<lambda>h. bk_origin (px_buckets h)) hs = map snd (local_peers unit_env start_keys sample_config)"
    by (auto simp: permutes_def)
  have "length (local_peers unit_env start_keys sample_config) = 2" by code_simp
  with arg_cong [OF hs(3), of length] hs(1,2) show ?thesis by (simp add: entropy_app_new_def)
qed

end
