(* ===== verification/Entropy_Cluster.thy ===== *)
theory Entropy_Cluster
  imports Entropy_Start
begin

text \<open>
  The start of all servers by the controller, \<open>latency_benchmark\<close> and \<open>start_peers_session\<close> in
  \<open>src/tools/entropy-control/src/main.rs\<close>: every server gets the same configuration but for its index,
  and together they run every peer once.
\<close>

definition num_peer_per_ip :: nat where
  "num_peer_per_ip = 100"

definition start_peers_config ::
  "'ip list \<Rightarrow> nat \<Rightarrow> u32 \<Rightarrow> usize \<Rightarrow> usize \<Rightarrow> usize \<Rightarrow> 'ip start_config" where
  "start_peers_config public_ips i fragment_len chunk_k chunk_n chunk_m =
     \<lparr>sc_ips = public_ips, sc_ip_index = i, sc_num_peer_per_ip = num_peer_per_ip,
      sc_fragment_len = fragment_len, sc_chunk_k = chunk_k, sc_chunk_n = chunk_n, sc_chunk_m = chunk_m\<rparr>"

text \<open>The servers, in the order of the instances, each asked once.\<close>

definition start_cluster ::
  "(chunk, 'enc, 'dec) entropy_env \<Rightarrow> (nat \<Rightarrow> bytes) \<Rightarrow>
   (bytes \<Rightarrow> (bytes, 'ip socket_addr) peer_record list \<Rightarrow> (bytes, 'ip socket_addr) peer_record list) \<Rightarrow>
   'ip list \<Rightarrow> u32 \<Rightarrow> usize \<Rightarrow> usize \<Rightarrow> usize \<Rightarrow> ('ip, 'x, 'enc, 'dec) entropy_app list \<Rightarrow>
   (unit, ('ip, 'x, 'enc, 'dec) entropy_app) outcome list" where
  "start_cluster env keys shuffle public_ips fragment_len chunk_k chunk_n chunk_m apps =
     map (\<lambda>(i, s). start_peers env keys shuffle
         (start_peers_config public_ips i fragment_len chunk_k chunk_n chunk_m) s)
       (enumerate 0 apps)"

lemma start_peers_config_simps [simp]:
  "sc_ips (start_peers_config ips i fl k n m) = ips"
  "sc_num_peer_per_ip (start_peers_config ips i fl k n m) = num_peer_per_ip"
  "(start_peers_config ips j fl k n m)\<lparr>sc_ip_index := i\<rparr> = start_peers_config ips i fl k n m"
  by (simp_all add: start_peers_config_def)

text \<open>All servers compute the same records.\<close>

lemma cluster_records:
  "config_records env keys (start_peers_config ips i fl k n m) =
     config_records env keys (start_peers_config ips 0 fl k n m)"
  by (simp add: config_records_def ip_records_def)

lemma record_addr [simp]: "pe_addr (peer_record_new lib feed k a) = a"
  by (simp add: peer_record_new_def)

lemma record_addrs:
  "map pe_addr (config_records env keys (start_peers_config ips i fl k n m)) =
     concat (map (\<lambda>ip. map (peer_addr ip) [0..<num_peer_per_ip]) ips)"
proof -
  have "map pe_addr (config_records env keys (start_peers_config ips i fl k n m)) =
      concat (map (\<lambda>i. map (peer_addr (ips ! i)) [0..<num_peer_per_ip]) [0..<length ips])"
    by (simp add: config_records_def ip_records_def map_concat comp_def Let_def)
  also have "\<dots> = concat (map (\<lambda>ip. map (peer_addr ip) [0..<num_peer_per_ip]) (map ((!) ips) [0..<length ips]))"
    by (simp add: comp_def)
  finally show ?thesis by (simp only: map_nth)
qed

lemma addrs_distinct: "distinct ips \<Longrightarrow> distinct (concat (map (\<lambda>ip. map (peer_addr ip) [0..<num_peer_per_ip]) ips))"
proof (induction ips)
  case (Cons ip ips)
  have "distinct (map (peer_addr ip) [0..<num_peer_per_ip])"
    by (auto simp: distinct_map inj_on_def peer_addr_inject num_peer_per_ip_def)
  moreover have "peer_addr ip i \<noteq> peer_addr ip' j" "peer_addr ip' j \<noteq> peer_addr ip i" if "ip' \<in> set ips" for ip' i j
    using Cons.prems that by (auto simp: peer_addr_def)
  ultimately show ?case using Cons by auto
qed simp

lemma started_server:
  fixes env :: "(chunk, 'enc, 'dec) entropy_env"
  assumes "distinct (map pe_id (config_records env keys config))"
    and "list_all (\<lambda>r. length (pe_id r) = 32) (config_records env keys config)"
    and "permutes shuffle (config_records env keys config)"
  shows "\<exists>s :: ('ip, 'x, 'enc, 'dec) entropy_app. start_peers env keys shuffle config entropy_app_new = Ok () s \<and>
    list_all (started_well (config_records env keys config)) (ea_senders s) \<and>
    map (\<lambda>h. bk_origin (px_buckets h)) (ea_senders s) = map snd (local_peers env keys config)"
proof -
  let ?m = "start_peers env keys shuffle config (entropy_app_new :: ('ip, 'x, 'enc, 'dec) entropy_app)"
  have ok: "?m = Ok () (after ?m)" by (simp add: start_peers_def entropy_app_new_def)
  from start_peers_tables [OF assms ok] obtain hs where hs: "ea_senders (after ?m) = hs"
    "list_all (started_well (config_records env keys config)) hs"
    "map (\<lambda>h. bk_origin (px_buckets h)) hs = map snd (local_peers env keys config)"
    by (auto simp: entropy_app_new_def)
  with ok show ?thesis by blast
qed

text \<open>C34: The cluster after the start. The controller asks one fresh server per address, each with the same
  configuration but for its index. If the addresses and the ids of the peers differ, then no server
  and no peer fails, every peer of the configuration runs exactly once over all servers, no two at
  one address and port, and each has a well-formed routing table, itself the origin, that holds peers
  of the cluster only and knows every other one, unless the bucket for its distance is full.\<close>

theorem cluster_started:
  fixes env :: "(chunk, 'enc, 'dec) entropy_env" and public_ips :: "'ip list"
  assumes records: "records = config_records env keys (start_peers_config public_ips 0 fragment_len chunk_k chunk_n chunk_m)"
    and "distinct public_ips" and "distinct (map pe_id records)"
    and "list_all (\<lambda>r. length (pe_id r) = 32) records" and "permutes shuffle records"
  shows "\<exists>apps :: ('ip, 'x, 'enc, 'dec) entropy_app list.
    start_cluster env keys shuffle public_ips fragment_len chunk_k chunk_n chunk_m
      (replicate (length public_ips) entropy_app_new) = map (Ok ()) apps \<and>
    concat (map (\<lambda>s. map (\<lambda>h. bk_origin (px_buckets h)) (ea_senders s)) apps) = records \<and>
    list_all (\<lambda>s. list_all (started_well records) (ea_senders s)) apps \<and>
    distinct (map pe_addr records)"
proof -
  let ?config = "\<lambda>i. start_peers_config public_ips i fragment_len chunk_k chunk_n chunk_m"
  have same: "config_records env keys (?config i) = records" for i
    unfolding records by (rule cluster_records)
  have "\<exists>s :: ('ip, 'x, 'enc, 'dec) entropy_app. start_peers env keys shuffle (?config i) entropy_app_new = Ok () s \<and>
      list_all (started_well records) (ea_senders s) \<and>
      map (\<lambda>h. bk_origin (px_buckets h)) (ea_senders s) = map snd (local_peers env keys (?config i))" for i
    using started_server [of env keys "?config i" shuffle] assms(3-5) unfolding same by blast
  then obtain app :: "nat \<Rightarrow> ('ip, 'x, 'enc, 'dec) entropy_app" where app:
    "\<And>i. start_peers env keys shuffle (?config i) entropy_app_new = Ok () (app i)"
    "\<And>i. list_all (started_well records) (ea_senders (app i))"
    "\<And>i. map (\<lambda>h. bk_origin (px_buckets h)) (ea_senders (app i)) = map snd (local_peers env keys (?config i))"
    by metis
  have "concat (map (\<lambda>i. map snd (local_peers env keys (?config i))) [0..<length public_ips]) = records"
    unfolding records using config_records_local [of env keys "?config 0"] by simp
  moreover have "distinct (map pe_addr records)"
    unfolding records record_addrs by (rule addrs_distinct [OF assms(2)])
  ultimately show ?thesis
    by (intro exI [of _ "map app [0..<length public_ips]"])
      (use app(2) in \<open>simp add: start_cluster_def enumerate_replicate_eq app(1,3) comp_def list_all_iff\<close>)
qed

lemma plain_ids:
  "map pe_id (config_records unit_env start_keys (start_peers_config [ip] 0 fl k n m)) = map start_keys [0..<100]"
  by (simp add: config_records_def ip_records_def Let_def comp_def peer_record_new_def unit_env_def plain_lib_def
      sha256_def num_peer_per_ip_def)

theorem cluster_started_witness:
  "\<exists>apps :: (nat, unit, unit, unit) entropy_app list.
    start_cluster unit_env start_keys (\<lambda>_ rs. rs) [7] 100 32 80 88 (replicate 1 entropy_app_new) = map (Ok ()) apps \<and>
    distinct (map pe_addr (config_records unit_env start_keys (start_peers_config [7 :: nat] 0 100 32 80 88)))"
proof -
  let ?rs = "config_records unit_env start_keys (start_peers_config [7 :: nat] 0 100 32 80 88)"
  have small: "unat (of_nat (Suc i) :: u8) = Suc i" if "i < 100" for i
    using that by (simp add: unat_of_nat del: of_nat_Suc)
  have "i = j" if k: "start_keys i = start_keys j" and ij: "i < 100" "j < 100" for i j
  proof -
    from k have "unat (of_nat (Suc i) :: u8) = unat (of_nat (Suc j) :: u8)" unfolding start_keys_def list.inject by simp
    then show ?thesis using small [OF ij(1)] small [OF ij(2)] by linarith
  qed
  then have "inj_on start_keys {0..<100}" by (simp add: inj_on_def)
  then have "distinct (map pe_id ?rs)" unfolding plain_ids by (simp add: distinct_map)
  moreover have "list_all (\<lambda>x. length x = 32) (map pe_id ?rs)" unfolding plain_ids
    by (simp add: list_all_iff start_keys_def)
  then have "list_all (\<lambda>r. length (pe_id r) = 32) ?rs" by (simp add: list_all_iff)
  ultimately show ?thesis
    using cluster_started [OF refl, of "[7 :: nat]" unit_env start_keys 100 32 80 88 "\<lambda>_ rs. rs"]
    by (auto simp: permutes_def)
qed

end
