(* ===== verification/Entropy_Bench.thy ===== *)
theory Entropy_Bench
  imports Entropy_Faults
begin

text \<open>
  Storing and reading a large value through many peers: the benchmark endpoints of
  \<open>src/crates/entropy/src/main.rs\<close> and the controller \<open>src/tools/entropy-control/src/main.rs\<close> that drives
  them. A value is encoded into fragments, each is put at a peer and named by its answer; reading
  fetches the named fragments from any peers and decodes them.

  The HTTP requests are the record \<open>http\<close>; a \<open>JoinSet\<close> yields its tasks in the order that an argument
  \<open>arrange\<close> gives them. Random bytes, choices among peers and the replies of polls are arguments.
  Latencies are left out.
\<close>

section \<open>Requests and tasks\<close>

datatype peer_url = UrlIpfs string | UrlEntropy string nat

record http =
  ht_ipfs_add :: "string \<Rightarrow> payload \<Rightarrow> error + string"
  ht_ipfs_cat :: "string \<Rightarrow> string \<Rightarrow> error + payload"
  ht_put_chunk :: "string \<Rightarrow> nat \<Rightarrow> payload \<Rightarrow> error + string"
  ht_get_chunk :: "string \<Rightarrow> nat \<Rightarrow> string \<Rightarrow> error + payload"

fun put_at :: "http \<Rightarrow> peer_url \<Rightarrow> payload \<Rightarrow> error + string" where
  "put_at h (UrlIpfs url) buf = ht_ipfs_add h url buf"
| "put_at h (UrlEntropy url peer_index) buf = ht_put_chunk h url peer_index buf"

fun get_at :: "http \<Rightarrow> peer_url \<Rightarrow> string \<Rightarrow> error + payload" where
  "get_at h (UrlIpfs url) chunk = ht_ipfs_cat h url chunk"
| "get_at h (UrlEntropy url peer_index) chunk = ht_get_chunk h url peer_index chunk"

fun is_entropy :: "peer_url \<Rightarrow> bool" where
  "is_entropy (UrlIpfs url) \<longleftrightarrow> False"
| "is_entropy (UrlEntropy url peer_index) \<longleftrightarrow> True"

text \<open>\<open>while let Some(result) = join_next().await { push(result??) }\<close>\<close>

fun collect_results :: "(error + 'a) list \<Rightarrow> error + 'a list" where
  "collect_results [] = Inr []"
| "collect_results (Inl e # rs) = Inl e"
| "collect_results (Inr x # rs) = (case collect_results rs of Inl e \<Rightarrow> Inl e | Inr xs \<Rightarrow> Inr (x # xs))"

section \<open>Putting one fragment\<close>

definition put_task :: "http \<Rightarrow> payload \<Rightarrow> nat \<times> peer_url \<Rightarrow> error + string" where
  "put_task h buf t =
     (case t of (i, peer_url) \<Rightarrow>
        if is_entropy peer_url \<and> i \<noteq> 0 then Inl (Panic ''assertion failed: left == right'')
        else put_at h peer_url buf)"

fun same_chunk :: "string \<Rightarrow> (error + string) list \<Rightarrow> error + string" where
  "same_chunk chunk [] = Inr chunk"
| "same_chunk chunk (Inl e # rs) = Inl e"
| "same_chunk chunk (Inr also_chunk # rs) =
     (if also_chunk \<noteq> chunk then Inl (Bail ''inconsistent chunk among peers'') else same_chunk chunk rs)"

definition put_impl ::
  "http \<Rightarrow> ((nat \<times> peer_url) list \<Rightarrow> (nat \<times> peer_url) list) \<Rightarrow> peer_url list \<Rightarrow> payload \<Rightarrow> error + string" where
  "put_impl h arrange peer_url_group buf =
     (case map (put_task h buf) (arrange (enumerate 0 peer_url_group)) of
        [] \<Rightarrow> Inl (Bail ''no peer url for the chunk'')
      | Inl e # _ \<Rightarrow> Inl e
      | Inr chunk # rs \<Rightarrow> same_chunk chunk rs)"

section \<open>The benchmark operations\<close>

record put_config =
  pc_chunk_len :: u32
  pc_k :: usize
  pc_peer_urls :: "peer_url list list"

record put_result =
  pr_digest :: digest
  pr_chunks :: "(u32 \<times> string) list"

record get_config =
  gc_chunk_len :: u32
  gc_k :: usize
  gc_chunks :: "(u32 \<times> string) list"
  gc_peer_urls :: "peer_url list"

text \<open>\<open>chunk_len as usize * k.get()\<close>, which may wrap.\<close>

definition total_len :: "u32 \<Rightarrow> usize \<Rightarrow> usize" where
  "total_len len k = unat (ucast len * word_of_nat k :: u64)"

definition encode_task ::
  "('enc, 'dec) chunk_codec \<Rightarrow> http \<Rightarrow> ((nat \<times> peer_url) list \<Rightarrow> (nat \<times> peer_url) list) \<Rightarrow> 'enc \<Rightarrow>
   nat \<times> peer_url list \<Rightarrow> error + u32 \<times> string" where
  "encode_task cd h arrange encoder t =
     (case t of (idx, peer_url_group) \<Rightarrow>
        case cd_encode cd encoder (of_nat idx) of
          Inl e \<Rightarrow> Inl e
        | Inr buf \<Rightarrow>
            (case put_impl h arrange peer_url_group buf of
               Inl e \<Rightarrow> Inl e
             | Inr chunk \<Rightarrow> Inr (of_nat idx, chunk)))"

definition benchmark_put ::
  "crypto_lib \<Rightarrow> ('enc, 'dec) chunk_codec \<Rightarrow> http \<Rightarrow> ((nat \<times> peer_url) list \<Rightarrow> (nat \<times> peer_url) list) \<Rightarrow>
   ((nat \<times> peer_url list) list \<Rightarrow> (nat \<times> peer_url list) list) \<Rightarrow> payload \<Rightarrow> put_config \<Rightarrow>
   error + put_result" where
  "benchmark_put lib cd h arrange arrange_groups buf config =
     (let digest = sha256 lib hash_bytes buf in
      if pc_k config = 1 then
        (case pc_peer_urls config of
           [] \<Rightarrow> Inl (Panic ''index out of bounds'')
         | peer_url_group # _ \<Rightarrow>
             (case put_impl h arrange peer_url_group buf of
                Inl e \<Rightarrow> Inl e
              | Inr chunk \<Rightarrow> Inr \<lparr>pr_digest = digest, pr_chunks = [(0, chunk)]\<rparr>))
      else
        (case cd_new_encoder cd buf (pc_chunk_len config) of
           Inl e \<Rightarrow> Inl e
         | Inr encoder \<Rightarrow>
             (case collect_results (map (encode_task cd h arrange encoder)
                     (arrange_groups (enumerate 0 (pc_peer_urls config)))) of
                Inl e \<Rightarrow> Inl e
              | Inr chunks \<Rightarrow> Inr \<lparr>pr_digest = digest, pr_chunks = chunks\<rparr>)))"

type_synonym fetch = "(u32 \<times> string) \<times> peer_url"

definition get_task :: "http \<Rightarrow> fetch \<Rightarrow> error + u32 \<times> payload" where
  "get_task h t =
     (case t of ((idx, chunk), peer_url) \<Rightarrow>
        case get_at h peer_url chunk of Inl e \<Rightarrow> Inl e | Inr buf \<Rightarrow> Inr (idx, buf))"

fun decode_loop :: "('enc, 'dec) chunk_codec \<Rightarrow> 'dec \<Rightarrow> (error + u32 \<times> payload) list \<Rightarrow> error + payload" where
  "decode_loop cd decoder [] = Inl (Bail ''recover fail'')"
| "decode_loop cd decoder (Inl e # rs) = Inl e"
| "decode_loop cd decoder (Inr (idx, buf) # rs) =
     (case cd_decode cd decoder idx buf of
        Inl e \<Rightarrow> Inl e
      | Inr (True, decoder) \<Rightarrow> cd_recover cd decoder
      | Inr (False, decoder) \<Rightarrow> decode_loop cd decoder rs)"

text \<open>The digest of what was read.\<close>

definition benchmark_get ::
  "crypto_lib \<Rightarrow> ('enc, 'dec) chunk_codec \<Rightarrow> http \<Rightarrow> (fetch list \<Rightarrow> fetch list) \<Rightarrow> get_config \<Rightarrow>
   error + digest" where
  "benchmark_get lib cd h arrange config =
     (let results = map (get_task h) (arrange (zip (gc_chunks config) (gc_peer_urls config))) in
      if gc_k config = 1 then
        (case results of
           [] \<Rightarrow> Inl (Panic ''called Option::unwrap() on a None value'')
         | Inl e # _ \<Rightarrow> Inl e
         | Inr (idx, buf) # _ \<Rightarrow>
             if idx = 0 then Inr (sha256 lib hash_bytes buf)
             else Inl (Panic ''assertion failed: left == right''))
      else
        (case cd_new_decoder cd (total_len (gc_chunk_len config) (gc_k config)) (gc_chunk_len config) of
           Inl e \<Rightarrow> Inl e
         | Inr decoder \<Rightarrow>
             (case decode_loop cd decoder results of
                Inl e \<Rightarrow> Inl e
              | Inr buf \<Rightarrow> Inr (sha256 lib hash_bytes buf))))"

section \<open>Polling\<close>

text \<open>The tasks of a server that were started and not yet taken; \<open>None\<close> is still running.\<close>

record 'r benchmarks =
  bn_op_id :: u32
  bn_tasks :: "(u32, (error + 'r) option) hmap"

definition start_benchmark :: "'r benchmarks \<Rightarrow> u32 \<times> 'r benchmarks" where
  "start_benchmark b =
     (bn_op_id b, b\<lparr>bn_op_id := bn_op_id b + 1, bn_tasks := hm_insert (bn_op_id b) None (bn_tasks b)\<rparr>)"

definition finish_benchmark :: "u32 \<Rightarrow> error + 'r \<Rightarrow> 'r benchmarks \<Rightarrow> 'r benchmarks" where
  "finish_benchmark i r b = b\<lparr>bn_tasks := hm_insert i (Some r) (bn_tasks b)\<rparr>"

definition poll_benchmark :: "u32 \<Rightarrow> 'r benchmarks \<Rightarrow> (nat \<times> 'r option, 'r benchmarks) outcome" where
  "poll_benchmark i b =
     (case hm_get (bn_tasks b) i of
        None \<Rightarrow> Err (Panic ''no entry found for key'') b
      | Some None \<Rightarrow> Ok (200, None) b
      | Some (Some r) \<Rightarrow>
          Ok (case r of Inr result \<Rightarrow> (200, Some result) | Inl _ \<Rightarrow> (500, None))
            (b\<lparr>bn_tasks := hm_remove i (bn_tasks b)\<rparr>))"

text \<open>
  The controller's loop: it goes on after a timeout, stops at any other error, and waits while the
  result is \<open>None\<close>. Its value is \<open>None\<close> if the replies run out.
\<close>

datatype 'r poll_reply = PollTimeout | PollFailed error | PollReply "'r option"

fun poll_loop :: "'r poll_reply list \<Rightarrow> (error + 'r) option" where
  "poll_loop [] = None"
| "poll_loop (PollTimeout # ps) = poll_loop ps"
| "poll_loop (PollFailed e # ps) = Some (Inl e)"
| "poll_loop (PollReply None # ps) = poll_loop ps"
| "poll_loop (PollReply (Some r) # ps) = Some (Inr r)"

text \<open>What one poll brings: the request may be lost before or after the server handled it.\<close>

datatype poll_fate = LostBefore | LostAfter | Arrived

fun poll_once :: "u32 \<Rightarrow> poll_fate \<Rightarrow> 'r benchmarks \<Rightarrow> 'r poll_reply \<times> 'r benchmarks" where
  "poll_once i LostBefore b = (PollTimeout, b)"
| "poll_once i LostAfter b = (PollTimeout, after (poll_benchmark i b))"
| "poll_once i Arrived b =
     (case poll_benchmark i b of
        Err e b' \<Rightarrow> (PollFailed e, b')
      | Ok (code, result) b' \<Rightarrow>
          (if code = 200 then PollReply result else PollFailed (Bail ''500 Internal Server Error''), b'))"

fun poll_replies :: "u32 \<Rightarrow> poll_fate list \<Rightarrow> 'r benchmarks \<Rightarrow> 'r poll_reply list" where
  "poll_replies i [] b = []"
| "poll_replies i (f # fs) b = (case poll_once i f b of (r, b') \<Rightarrow> r # poll_replies i fs b')"

section \<open>The controller\<close>

function chunks_exact :: "nat \<Rightarrow> 'a list \<Rightarrow> 'a list list" where
  "chunks_exact n xs =
     (if n = 0 \<or> length xs < n then [] else take n xs # chunks_exact n (drop n xs))"
  by auto
termination by (relation "measure (\<lambda>(n, xs). length xs)") auto

declare chunks_exact.simps [simp del]

definition replication_factor :: "bool \<Rightarrow> nat" where
  "replication_factor ipfs = (if ipfs then 3 else 1)"

definition instance_peer_urls :: "bool \<Rightarrow> (string \<Rightarrow> nat \<Rightarrow> string) \<Rightarrow> (string \<Rightarrow> string) \<Rightarrow> string list \<Rightarrow> peer_url list" where
  "instance_peer_urls ipfs ipfs_url entropy_url ips =
     concat (map (\<lambda>ip. map (\<lambda>i. if ipfs then UrlIpfs (ipfs_url ip (5000 + i)) else UrlEntropy (entropy_url ip) i)
       [0..<100]) ips)"

text \<open>
  One operation: a put of random bytes through one server and a get through another one, with the
  outcomes of the two benchmarks as functions of the configurations that are posted.
\<close>

definition operation_session ::
  "bool \<Rightarrow> u32 \<Rightarrow> usize \<Rightarrow> usize \<Rightarrow> usize \<Rightarrow> peer_url list \<Rightarrow> (nat \<Rightarrow> peer_url list \<Rightarrow> peer_url list) \<Rightarrow>
   (nat \<Rightarrow> peer_url list \<Rightarrow> peer_url list) \<Rightarrow> (put_config \<Rightarrow> (error + put_result) option) \<Rightarrow>
   (get_config \<Rightarrow> (error + digest) option) \<Rightarrow> (error + unit) option" where
  "operation_session ipfs fragment_len chunk_k k n peer_urls choose_put choose_get run_put run_get =
     (let len = fragment_len * of_nat chunk_k;
          put_peer_urls = chunks_exact (replication_factor ipfs)
            (choose_put (n * replication_factor ipfs) peer_urls)
      in case run_put \<lparr>pc_chunk_len = len, pc_k = k, pc_peer_urls = put_peer_urls\<rparr> of
           None \<Rightarrow> None
         | Some (Inl e) \<Rightarrow> Some (Inl e)
         | Some (Inr result) \<Rightarrow>
             (case run_get \<lparr>gc_chunk_len = len, gc_k = k, gc_chunks = pr_chunks result,
                     gc_peer_urls = choose_get n peer_urls\<rparr> of
                None \<Rightarrow> None
              | Some (Inl e) \<Rightarrow> Some (Inl e)
              | Some (Inr digest) \<Rightarrow>
                  if digest = pr_digest result then Some (Inr ())
                  else Some (Inl (Bail ''digest mismatch''))))"

text \<open>A benchmark on a server and the controller's polls of it.\<close>

definition polled ::
  "'r benchmarks \<Rightarrow> poll_fate list \<Rightarrow> nat \<Rightarrow> error + 'r \<Rightarrow> (error + 'r) option" where
  "polled server fates running r =
     (let (i, b) = start_benchmark server
      in poll_loop (poll_replies i (take running fates) b @
           poll_replies i (drop running fates) (finish_benchmark i r b)))"

section \<open>Put and get of a fragment\<close>

definition arranges :: "('a list \<Rightarrow> 'a list) \<Rightarrow> bool" where
  "arranges arrange \<longleftrightarrow> (\<forall>xs. mset (arrange xs) = mset xs)"

lemma arranges_set: "arranges arrange \<Longrightarrow> set (arrange xs) = set xs"
  unfolding arranges_def using mset_eq_setD by blast

lemma arranges_Nil: "arranges arrange \<Longrightarrow> arrange xs = [] \<longleftrightarrow> xs = []"
  unfolding arranges_def by (metis mset_zero_iff)

lemma same_chunk_Inr: "same_chunk chunk rs = Inr c \<longleftrightarrow> c = chunk \<and> list_all (\<lambda>r. r = Inr chunk) rs"
  by (induction chunk rs rule: same_chunk.induct) auto

lemma put_impl_Inr:
  assumes "arranges arrange"
  shows "put_impl h arrange urls buf = Inr c \<longleftrightarrow>
    urls \<noteq> [] \<and> list_all (\<lambda>t. put_task h buf t = Inr c) (enumerate 0 urls)"
proof -
  let ?l = "arrange (enumerate 0 urls)"
  have "put_impl h arrange urls buf = Inr c \<longleftrightarrow> ?l \<noteq> [] \<and> list_all (\<lambda>t. put_task h buf t = Inr c) ?l"
    by (cases ?l) (auto simp: put_impl_def same_chunk_Inr list_all_iff split: sum.split)
  also have "\<dots> \<longleftrightarrow> enumerate 0 urls \<noteq> [] \<and> list_all (\<lambda>t. put_task h buf t = Inr c) (enumerate 0 urls)"
    using arranges_Nil [OF assms] by (simp add: list_all_iff arranges_set [OF assms])
  finally show ?thesis by (simp add: enumerate_eq_zip)
qed

lemma put_impl_put_at:
  assumes "arranges arrange" and "put_impl h arrange urls buf = Inr c"
  shows "\<exists>peer_url \<in> set urls. put_at h peer_url buf = Inr c"
proof -
  from assms(2) obtain u us where "urls = u # us" unfolding put_impl_Inr [OF assms(1)] by (cases urls) auto
  with assms(2) have "put_task h buf (0, u) = Inr c" unfolding put_impl_Inr [OF assms(1)] by simp
  with \<open>urls = u # us\<close> show ?thesis by (auto simp: put_task_def split: if_splits)
qed

lemma collect_results_Inr: "collect_results rs = Inr xs \<longleftrightarrow> rs = map Inr xs"
proof (induction rs arbitrary: xs rule: collect_results.induct)
  case (3 x rs)
  show ?case
  proof (cases "collect_results rs")
    case (Inl e)
    with 3 have "rs \<noteq> map Inr ys" for ys by (metis sum.distinct(1))
    with Inl show ?thesis by (auto simp: Cons_eq_map_conv)
  next
    case (Inr ys)
    with 3 [of ys] have "rs = map Inr ys" by blast
    moreover have "map Inr ys = map Inr zs \<longleftrightarrow> ys = zs" for zs :: "'a list"
      by (rule inj_map_eq_map) (simp add: inj_def)
    ultimately show ?thesis using Inr by (auto simp: Cons_eq_map_conv)
  qed
qed auto

section \<open>What was put is what is read\<close>

text \<open>
  The fragments of an operation, and the fault of a store that makes one unreadable: a fragment was
  put at one of the peers of the put and named by its answer, and one of the peers of the get served
  that name with other bytes.
\<close>

definition fragment_of ::
  "('enc, 'dec) chunk_codec \<Rightarrow> payload \<Rightarrow> put_config \<Rightarrow> u32 \<Rightarrow> payload \<Rightarrow> bool" where
  "fragment_of cd buf config i f \<longleftrightarrow>
     (if pc_k config = 1 then i = 0 \<and> f = buf
      else \<exists>encoder. cd_new_encoder cd buf (pc_chunk_len config) = Inr encoder \<and>
        cd_encode cd encoder i = Inr f)"

definition misserved ::
  "http \<Rightarrow> (u32 \<Rightarrow> payload \<Rightarrow> bool) \<Rightarrow> peer_url set \<Rightarrow> peer_url set \<Rightarrow> bool" where
  "misserved h fragment puts gets \<longleftrightarrow>
     (\<exists>i f chunk f'. fragment i f \<and> (\<exists>u \<in> puts. put_at h u f = Inr chunk) \<and>
        (\<exists>u \<in> gets. get_at h u chunk = Inr f') \<and> f' \<noteq> f)"

definition put_coded :: "payload \<Rightarrow> 'enc \<Rightarrow> put_config \<Rightarrow> 'enc coded" where
  "put_coded buf encoder config =
     \<lparr>co_chunk = [], co_buf = buf, co_enc = encoder,
      co_len = total_len (pc_chunk_len config) (pc_k config), co_fl = pc_chunk_len config\<rparr>"

lemma decode_loop_sound:
  assumes "codec_sound cd co" and "fed cd co d" and "decode_loop cd d rs = Inr buf"
    and "\<forall>(i, f) \<in> {x. Inr x \<in> set rs}. frag cd co i f"
  shows "buf = co_buf co"
  using assms(2-4)
proof (induction rs arbitrary: d)
  case (Cons r rs)
  from Cons.prems(2) obtain i f where r: "r = Inr (i, f)" by (cases r) auto
  then have f: "frag cd co i f" using Cons.prems(3) by auto
  show ?case
  proof (cases "cd_decode cd d i f")
    case (Inr x)
    obtain full d' where x: "x = (full, d')" by (cases x)
    show ?thesis
    proof (cases full)
      case True
      with Cons.prems(2) r Inr x have "cd_decode cd d i f = Inr (True, d')" "cd_recover cd d' = Inr buf"
        by simp_all
      with Cons.prems(1) f assms(1) show ?thesis unfolding codec_sound_def by blast
    next
      case False
      with Inr x f Cons.prems(1) have "fed cd co d'" by (auto intro: fed_add)
      with Cons.prems r Inr x False Cons.IH [of d'] show ?thesis by auto
    qed
  qed (use Cons.prems r in simp)
qed simp

lemma put_chunks_stored:
  assumes "arranges arrange" and "arranges arrange_groups" and "pc_k config \<noteq> 1"
    and "benchmark_put lib cd h arrange arrange_groups buf config = Inr r"
  obtains encoder where "cd_new_encoder cd buf (pc_chunk_len config) = Inr encoder"
    "\<And>i c. (i, c) \<in> set (pr_chunks r) \<Longrightarrow>
       \<exists>f. cd_encode cd encoder i = Inr f \<and>
         (\<exists>u \<in> set (concat (pc_peer_urls config)). put_at h u f = Inr c)"
    "pr_digest r = sha256 lib hash_bytes buf"
proof -
  obtain encoder where e: "cd_new_encoder cd buf (pc_chunk_len config) = Inr encoder"
    using assms(3,4) by (auto simp: benchmark_put_def Let_def split: sum.splits)
  let ?tasks = "map (encode_task cd h arrange encoder) (arrange_groups (enumerate 0 (pc_peer_urls config)))"
  obtain chunks where chunks: "collect_results ?tasks = Inr chunks" "pr_chunks r = chunks"
    "pr_digest r = sha256 lib hash_bytes buf"
    using assms(3,4) e by (auto simp: benchmark_put_def Let_def split: sum.splits)
  have "\<exists>f. cd_encode cd encoder i = Inr f \<and>
      (\<exists>u \<in> set (concat (pc_peer_urls config)). put_at h u f = Inr c)" if "(i, c) \<in> set (pr_chunks r)" for i c
  proof -
    have "Inr (i, c) \<in> set ?tasks"
      using chunks(1) that unfolding collect_results_Inr chunks(2) by simp
    then obtain t where t: "encode_task cd h arrange encoder t = Inr (i, c)"
      "t \<in> set (enumerate 0 (pc_peer_urls config))"
      using arranges_set [OF assms(2)] by auto
    then obtain j group where g: "t = (j, group)" "group \<in> set (pc_peer_urls config)"
      unfolding enumerate_eq_zip by (metis prod.collapse set_zip_rightD)
    from t(1) g(1) obtain f where "cd_encode cd encoder i = Inr f" "put_impl h arrange group f = Inr c"
      by (auto simp: encode_task_def split: sum.splits)
    with put_impl_put_at [OF assms(1)] g(2) show ?thesis by fastforce
  qed
  with that e chunks(3) show thesis by blast
qed

lemma get_results:
  assumes "arranges arrange" and "Inr (i, b) \<in> set (map (get_task h) (arrange (zip chunks urls)))"
  shows "\<exists>c. (i, c) \<in> set chunks \<and> (\<exists>u \<in> set urls. get_at h u c = Inr b)"
proof -
  from assms obtain t where t: "t \<in> set (zip chunks urls)" "get_task h t = Inr (i, b)"
    by (auto simp: arranges_set)
  obtain j c u where "t = ((j, c), u)" by (cases t) auto
  with t show ?thesis by (auto simp: get_task_def split: sum.splits dest: set_zip_leftD set_zip_rightD)
qed

lemma read_what_was_put:
  assumes a: "arranges arrange" "arranges arrange_groups" "arranges arrange_gets"
    and served: "\<not> misserved h (fragment_of cd buf config) (set (concat (pc_peer_urls config))) (set urls)"
    and codec: "\<And>encoder. cd_new_encoder cd buf (pc_chunk_len config) = Inr encoder \<Longrightarrow>
      codec_sound cd (put_coded buf encoder config)"
    and put: "benchmark_put lib cd h arrange arrange_groups buf config = Inr r"
    and get: "benchmark_get lib cd h arrange_gets \<lparr>gc_chunk_len = pc_chunk_len config, gc_k = pc_k config,
      gc_chunks = pr_chunks r, gc_peer_urls = urls\<rparr> = Inr d"
  shows "d = pr_digest r"
proof -
  let ?results = "map (get_task h) (arrange_gets (zip (pr_chunks r) urls))"
  let ?puts = "set (concat (pc_peer_urls config))"
  note res = get_results [OF a(3), of _ _ h "pr_chunks r" urls]
  have same: "f' = f" if "fragment_of cd buf config i f" "\<exists>u \<in> ?puts. put_at h u f = Inr c"
    "\<exists>u \<in> set urls. get_at h u c = Inr f'" for i f c f'
    using served that unfolding misserved_def by blast
  show ?thesis
  proof (cases "pc_k config = 1")
    case True
    from put True obtain group groups c where g: "pc_peer_urls config = group # groups"
      "put_impl h arrange group buf = Inr c" "r = \<lparr>pr_digest = sha256 lib hash_bytes buf, pr_chunks = [(0, c)]\<rparr>"
      by (auto simp: benchmark_put_def Let_def split: list.splits sum.splits)
    then have c: "\<exists>u \<in> ?puts. put_at h u buf = Inr c"
      using put_impl_put_at [OF a(1) g(2)] by auto
    from get True obtain i b rs where b: "?results = Inr (i, b) # rs" "d = sha256 lib hash_bytes b"
      by (auto simp: benchmark_get_def Let_def split: list.splits sum.splits if_splits)
    from b(1) have "Inr (i, b) \<in> set ?results" by simp
    from res [OF this] g(3) have "\<exists>u \<in> set urls. get_at h u c = Inr b" by auto
    with same [of 0 buf c b] True c have "b = buf" by (simp add: fragment_of_def)
    with b g(3) show ?thesis by simp
  next
    case False
    from put_chunks_stored [OF a(1,2) False put] obtain encoder where
      e: "cd_new_encoder cd buf (pc_chunk_len config) = Inr encoder"
      and stored: "\<And>i c. (i, c) \<in> set (pr_chunks r) \<Longrightarrow>
        \<exists>f. cd_encode cd encoder i = Inr f \<and> (\<exists>u \<in> ?puts. put_at h u f = Inr c)"
      and digest: "pr_digest r = sha256 lib hash_bytes buf" by blast
    let ?co = "put_coded buf encoder config"
    from get False obtain d0 b where d0: "cd_new_decoder cd (total_len (pc_chunk_len config) (pc_k config))
        (pc_chunk_len config) = Inr d0"
      and b: "decode_loop cd d0 ?results = Inr b" "d = sha256 lib hash_bytes b"
      by (auto simp: benchmark_get_def Let_def split: sum.splits)
    have "fed cd ?co d0" by (rule fed_new) (simp add: put_coded_def d0)
    moreover have "\<forall>(i, f) \<in> {x. Inr x \<in> set ?results}. frag cd ?co i f"
    proof clarify
      fix i f
      assume "Inr (i, f) \<in> set ?results"
      from res [OF this] obtain c where c: "(i, c) \<in> set (pr_chunks r)"
        "\<exists>u \<in> set urls. get_at h u c = Inr f" by blast
      from stored [OF c(1)] obtain g where g: "cd_encode cd encoder i = Inr g"
        "\<exists>u \<in> ?puts. put_at h u g = Inr c" by blast
      with same [of i g c f] c(2) False e have "f = g" by (auto simp: fragment_of_def)
      with g show "frag cd ?co i f" by (simp add: frag_def put_coded_def)
    qed
    ultimately have "b = co_buf ?co" using decode_loop_sound [OF codec [OF e]] b(1) by blast
    with b(2) digest show ?thesis by (simp add: put_coded_def)
  qed
qed

section \<open>Polls\<close>

lemma poll_loop_Some:
  "poll_loop ps = Some (Inr r) \<Longrightarrow> PollReply (Some r) \<in> set ps"
  by (induction ps rule: poll_loop.induct) auto

text \<open>Polling a task that is still running changes nothing.\<close>

lemma poll_running:
  assumes "hm_get (bn_tasks b) i = Some None"
  shows "poll_loop (poll_replies i fs b @ ps) = poll_loop ps"
proof (induction fs)
  case (Cons f fs)
  then show ?case using assms by (cases f) (simp_all add: poll_benchmark_def)
qed simp

text \<open>The first poll that the server handles after the end takes the result.\<close>

lemma poll_finished:
  assumes "hm_get (bn_tasks b) i = Some (Some r)"
  shows "poll_loop (poll_replies i (replicate n LostBefore @ f # fs) b) =
    (case f of
       LostBefore \<Rightarrow> poll_loop (poll_replies i fs b)
     | Arrived \<Rightarrow> Some (case r of Inr x \<Rightarrow> Inr x | Inl e \<Rightarrow> Inl (Bail ''500 Internal Server Error''))
     | LostAfter \<Rightarrow> poll_loop (poll_replies i fs (b\<lparr>bn_tasks := hm_remove i (bn_tasks b)\<rparr>)))"
  by (induction n) (auto simp: poll_benchmark_def assms split: poll_fate.split sum.split)

lemma poll_removed:
  assumes "hm_get (bn_tasks b) i = None" and "poll_loop (poll_replies i fs b) = Some x"
  shows "x = Inl (Panic ''no entry found for key'')"
  using assms
proof (induction fs)
  case (Cons f fs)
  then show ?case by (cases f) (auto simp: poll_benchmark_def)
qed simp

lemma poll_reply_finished:
  assumes "hm_get (bn_tasks b) i = Some (Some r)" and "poll_loop (poll_replies i fs b) = Some (Inr x)"
  shows "r = Inr x"
  using assms(2)
proof (induction fs)
  case (Cons f fs)
  show ?case
  proof (cases f)
    case LostAfter
    with Cons.prems assms(1) poll_removed [of "b\<lparr>bn_tasks := hm_remove i (bn_tasks b)\<rparr>" i fs]
    show ?thesis by (auto simp: poll_benchmark_def)
  qed (use Cons assms(1) in \<open>auto simp: poll_benchmark_def split: sum.splits\<close>)
qed simp

lemma polled_Inr:
  assumes "polled server fates running r = Some (Inr x)"
  shows "r = Inr x"
proof -
  obtain i b where s: "start_benchmark server = (i, b)" by (cases "start_benchmark server")
  then have "hm_get (bn_tasks b) i = Some None" by (auto simp: start_benchmark_def)
  note run = poll_running [OF this]
  have "hm_get (bn_tasks (finish_benchmark i r b)) i = Some (Some r)" by (simp add: finish_benchmark_def)
  from poll_reply_finished [OF this] assms s run show ?thesis by (simp add: polled_def)
qed

definition poll_errors :: "error set" where
  "poll_errors = {Bail ''500 Internal Server Error'', Panic ''no entry found for key''}"

lemma poll_loop_Inl: "poll_loop ps = Some (Inl e) \<Longrightarrow> PollFailed e \<in> set ps"
  by (induction ps rule: poll_loop.induct) auto

lemma poll_replies_failed: "PollFailed e \<in> set (poll_replies i fs b) \<Longrightarrow> e \<in> poll_errors"
proof (induction fs arbitrary: b)
  case (Cons f fs)
  then show ?case
    by (cases f) (auto simp: poll_benchmark_def poll_errors_def split: prod.splits option.splits sum.splits)
qed simp

lemma polled_Inl:
  assumes "polled server fates running r = Some (Inl e)"
  shows "e \<in> poll_errors"
  using poll_loop_Inl [of _ e] poll_replies_failed [of e] assms
  by (auto simp: polled_def split: prod.splits) fastforce

text \<open>
  A poll takes the result away. When its reply is lost the controller polls again, and then the
  server panics: the result of a benchmark that succeeded is lost.
\<close>

lemma lost_reply_fails:
  assumes "hm_get (bn_tasks b) i = Some (Some r)" and "Arrived \<in> set fs"
  shows "poll_loop (poll_replies i (LostAfter # fs) b) = Some (Inl (Panic ''no entry found for key''))"
proof -
  let ?b = "b\<lparr>bn_tasks := hm_remove i (bn_tasks b)\<rparr>"
  have gone: "poll_benchmark i ?b = Err (Panic ''no entry found for key'') ?b"
    by (simp add: poll_benchmark_def)
  have "poll_loop (poll_replies i fs ?b) = Some (Inl (Panic ''no entry found for key''))"
    using assms(2)
  proof (induction fs)
    case (Cons f fs)
    then show ?case by (cases f) (simp_all add: gone)
  qed simp
  with assms(1) show ?thesis by (simp add: poll_benchmark_def split: sum.split)
qed

section \<open>The whole benchmark\<close>

text \<open>Watching one server after its peers were started; \<open>None\<close> while the session goes on.\<close>

datatype health = HealthOk | HealthTimeout | HealthError error

fun watch_peers :: "nat \<Rightarrow> health list \<Rightarrow> error option" where
  "watch_peers cnt [] = None"
| "watch_peers cnt (HealthOk # hs) = watch_peers 0 hs"
| "watch_peers cnt (HealthTimeout # hs) =
     (if cnt < 10 then watch_peers (cnt + 1) hs else Some (Bail ''operation timed out''))"
| "watch_peers cnt (HealthError e # hs) = Some e"

text \<open>What the controller asks for, in order, and how it ends.\<close>

datatype control_request = AskStart nat | AskOperation nat | AskStop nat

fun run_operations :: "(nat \<Rightarrow> error + unit) \<Rightarrow> nat \<Rightarrow> nat \<Rightarrow> (error + unit) \<times> control_request list" where
  "run_operations ops i 0 = (Inr (), [])"
| "run_operations ops i (Suc n) =
     (case ops i of
        Inl e \<Rightarrow> (Inl e, [AskOperation i])
      | Inr _ \<Rightarrow> (case run_operations ops (Suc i) n of (r, asked) \<Rightarrow> (r, AskOperation i # asked)))"

text \<open>\<open>failed\<close>: the start that ends with an error in the first 1.2 seconds, if one does.\<close>

definition latency_benchmark ::
  "bool \<Rightarrow> nat \<Rightarrow> nat \<Rightarrow> error option \<Rightarrow> (nat \<Rightarrow> error + unit) \<Rightarrow> (error + unit) list \<Rightarrow>
   (error + unit) \<times> control_request list" where
  "latency_benchmark ipfs num_instance num_total failed ops stops =
     (let started = (if ipfs then [] else map AskStart [0..<num_instance]) in
      if \<not> ipfs \<and> failed \<noteq> None then (Inl (the failed), started)
      else case run_operations ops 0 num_total of
             (Inl e, asked) \<Rightarrow> (Inl e, started @ asked)
           | (Inr _, asked) \<Rightarrow>
               if ipfs then (Inr (), started @ asked)
               else (case collect_results stops of Inl e \<Rightarrow> Inl e | Inr _ \<Rightarrow> Inr (),
                     started @ asked @ map AskStop [0..<num_instance]))"

lemma run_operations_never_stop:
  "run_operations ops i n = (r, asked) \<Longrightarrow> AskStop j \<notin> set asked"
  by (induction ops i n arbitrary: r asked rule: run_operations.induct)
    (fastforce split: sum.splits prod.splits)+

text \<open>The peers are stopped only if every operation succeeded.\<close>

lemma stopped_iff:
  assumes "latency_benchmark False num_instance num_total None ops stops = (r, asked)" and "j < num_instance"
  shows "AskStop j \<in> set asked \<longleftrightarrow> fst (run_operations ops 0 num_total) = Inr ()"
  using assms run_operations_never_stop [of ops 0 num_total]
  by (auto simp: latency_benchmark_def Let_def split: prod.splits sum.splits)

lemma watch_peers_patience:
  "watch_peers 0 (replicate 10 HealthTimeout @ hs) = watch_peers 10 hs"
  "watch_peers 10 (HealthTimeout # hs) = Some (Bail ''operation timed out'')"
  by (simp_all add: numeral_eq_Suc)

section \<open>The properties\<close>

text \<open>C35: an operation of the controller, end to end: random bytes are encoded, the fragments put at
  groups of peers, fetched by their names from other peers and decoded, each through a benchmark of
  a server that is polled over a connection that loses replies. Whatever the peers answer and in
  whatever order tasks end, the operation succeeds, fails with an error of a poll, or reports a digest
  mismatch; and it reports that only if the store was at fault: some fragment of this value was put at
  one of the peers chosen for the put and named, and one of the peers chosen for the get served other
  bytes under that name. The erasure code is relied on to return the encoded buffer when it decodes
  fragments of it.\<close>

theorem operation_blames_store:
  assumes "arranges arrange" and "arranges arrange_groups" and "arranges arrange_gets"
    and "\<And>encoder. cd_new_encoder cd buf (fragment_len * of_nat chunk_k) = Inr encoder \<Longrightarrow>
      codec_sound cd \<lparr>co_chunk = [], co_buf = buf, co_enc = encoder,
        co_len = total_len (fragment_len * of_nat chunk_k) k, co_fl = fragment_len * of_nat chunk_k\<rparr>"
    and "config = \<lparr>pc_chunk_len = fragment_len * of_nat chunk_k, pc_k = k,
      pc_peer_urls = chunks_exact (replication_factor ipfs)
        (choose_put (n * replication_factor ipfs) peer_urls)\<rparr>"
    and "operation_session ipfs fragment_len chunk_k k n peer_urls choose_put choose_get
      (\<lambda>config. polled server fates running (benchmark_put lib cd h arrange arrange_groups buf config))
      (\<lambda>config. polled server' fates' running' (benchmark_get lib cd h arrange_gets config)) = Some result"
  shows "result = Inr () \<or> (\<exists>e \<in> poll_errors. result = Inl e) \<or>
    result = Inl (Bail ''digest mismatch'') \<and>
    misserved h (fragment_of cd buf config) (set (concat (pc_peer_urls config)))
      (set (choose_get n peer_urls))"
proof -
  let ?len = "fragment_len * of_nat chunk_k :: u32"
  let ?pc = "\<lparr>pc_chunk_len = ?len, pc_k = k, pc_peer_urls = chunks_exact (replication_factor ipfs)
    (choose_put (n * replication_factor ipfs) peer_urls)\<rparr>"
  let ?put = "benchmark_put lib cd h arrange arrange_groups buf ?pc"
  let ?gc = "\<lambda>r. \<lparr>gc_chunk_len = ?len, gc_k = k, gc_chunks = pr_chunks r, gc_peer_urls = choose_get n peer_urls\<rparr>"
  let ?get = "\<lambda>r. benchmark_get lib cd h arrange_gets (?gc r)"
  have session: "Some result = (case polled server fates running ?put of
      None \<Rightarrow> None
    | Some (Inl e) \<Rightarrow> Some (Inl e)
    | Some (Inr r) \<Rightarrow>
        (case polled server' fates' running' (?get r) of
           None \<Rightarrow> None
         | Some (Inl e) \<Rightarrow> Some (Inl e)
         | Some (Inr d) \<Rightarrow> if d = pr_digest r then Some (Inr ()) else Some (Inl (Bail ''digest mismatch''))))"
    using assms(6) by (simp add: operation_session_def Let_def)
  show ?thesis
  proof (cases "polled server fates running ?put")
    case None
    with session show ?thesis by simp
  next
    case (Some put)
    show ?thesis
    proof (cases put)
      case (Inl e)
      with session Some polled_Inl [of server fates running ?put e] show ?thesis by auto
    next
      case (Inr r)
      have put: "?put = Inr r" using Some Inr by (auto intro: polled_Inr)
      show ?thesis
      proof (cases "polled server' fates' running' (?get r)")
        case None
        with session Some Inr show ?thesis by simp
      next
        case get: (Some g)
        show ?thesis
        proof (cases g)
          case (Inl e)
          with session Some Inr get polled_Inl [of server' fates' running' "?get r" e] show ?thesis by auto
        next
          case d: (Inr d)
          have "?get r = Inr d" using get d by (auto intro: polled_Inr)
          then have "d = pr_digest r" if "\<not> misserved h (fragment_of cd buf config)
              (set (concat (pc_peer_urls config))) (set (choose_get n peer_urls))"
            using read_what_was_put [OF assms(1-3) _ _ put, where urls = "choose_get n peer_urls" and d = d]
              that assms(4,5) by (simp add: put_coded_def)
          with session Some Inr get d show ?thesis by (auto split: if_splits)
        qed
      qed
    qed
  qed
qed

lemma codec_sound_chunk: "codec_sound cd (co\<lparr>co_chunk := c\<rparr>) \<longleftrightarrow> codec_sound cd co"
proof -
  have fr: "frag cd (co\<lparr>co_chunk := c\<rparr>) = frag cd co" by (simp add: frag_def fun_eq_iff)
  have "fed cd (co\<lparr>co_chunk := c\<rparr>) d \<longleftrightarrow> fed cd co d" for d
  proof
    show "fed cd co d" if "fed cd (co\<lparr>co_chunk := c\<rparr>) d"
      using that by induction (auto simp: fr intro: fed.intros)
    show "fed cd (co\<lparr>co_chunk := c\<rparr>) d" if "fed cd co d"
      using that by induction (auto simp: fr intro: fed.intros)
  qed
  with fr show ?thesis by (simp add: codec_sound_def)
qed

text \<open>Peers that name a chunk by its contents.\<close>

definition naming_http :: http where
  "naming_http =
     (let put = (\<lambda>buf. Inr (map (\<lambda>b. char_of (unat b)) buf)); get = (\<lambda>c. Inr (map (\<lambda>x. of_nat (of_char x)) c))
      in \<lparr>ht_ipfs_add = (\<lambda>_. put), ht_ipfs_cat = (\<lambda>_. get), ht_put_chunk = (\<lambda>_ _. put), ht_get_chunk = (\<lambda>_ _. get)\<rparr>)"

lemma byte_of_char: "(of_nat (of_char (char_of (unat b) :: char)) :: u8) = b"
proof -
  have "unat b < 2 ^ LENGTH(8)" by (rule unsigned_less)
  then have "unat b mod 256 = unat b" by simp
  then have "of_char (char_of (unat b) :: char) = unat b" by (simp only: of_char_of)
  then show ?thesis by simp
qed

lemma naming_serves: "\<not> misserved naming_http fragment puts gets"
proof -
  have "f' = f" if "put_at naming_http u f = Inr c" "get_at naming_http u' c = Inr f'" for u u' f c f'
  proof -
    from that(1) have c: "c = map (\<lambda>b. char_of (unat b)) f"
      by (cases u) (simp_all add: naming_http_def Let_def)
    from that(2) have "f' = map (\<lambda>x. of_nat (of_char x)) c"
      by (cases u') (simp_all add: naming_http_def Let_def)
    then show ?thesis unfolding c by (simp add: o_def byte_of_char del: of_char_of)
  qed
  then show ?thesis unfolding misserved_def by blast
qed

text \<open>Peers of which one loses the second half of what it serves.\<close>

definition losing_http :: http where
  "losing_http = naming_http\<lparr>ht_get_chunk := (\<lambda>url i c.
     if i = 1 then Inr [] else ht_get_chunk naming_http url i c)\<rparr>"

definition sample_operation :: "http \<Rightarrow> (error + unit) option" where
  "sample_operation h =
     operation_session False 1 2 2 2 [UrlEntropy ''a'' 0, UrlEntropy ''b'' 1] take (\<lambda>n us. rev (take n us))
       (\<lambda>config. polled \<lparr>bn_op_id = 0, bn_tasks = []\<rparr> [Arrived, LostBefore, Arrived] 1
          (benchmark_put plain_lib half_codec h rev rev [1, 2, 3, 4] config))
       (\<lambda>config. polled \<lparr>bn_op_id = 1, bn_tasks = []\<rparr> [Arrived] 0
          (benchmark_get plain_lib half_codec h rev config))"

theorem operation_blames_store_witness:
  "sample_operation naming_http = Some (Inr ()) \<and>
   sample_operation losing_http = Some (Inl (Bail ''digest mismatch'')) \<and>
   (\<exists>fragment. misserved losing_http fragment {UrlEntropy ''a'' 0, UrlEntropy ''b'' 1}
     {UrlEntropy ''b'' 1, UrlEntropy ''a'' 0})"
proof -
  have rev: "arranges rev" by (simp add: arranges_def)
  have sound: "codec_sound half_codec \<lparr>co_chunk = [], co_buf = [1, 2, 3, 4], co_enc = encoder,
      co_len = total_len (1 * of_nat 2) 2, co_fl = 1 * of_nat 2\<rparr>"
    if "cd_new_encoder half_codec [1, 2, 3, 4] (1 * of_nat 2) = Inr encoder" for encoder
  proof -
    have "encoder = ([1, 2, 3, 4], 2)" using that by (simp add: half_ops)
    moreover have "total_len (1 * of_nat 2) 2 = 4" by code_simp
    ultimately show ?thesis
      using half_sound codec_sound_chunk [where cd = half_codec and co = half_coded and c = "[]"] by (simp add: half_coded_def)
  qed
  have blamed: "result = Inr () \<or> (\<exists>e \<in> poll_errors. result = Inl e) \<or>
      result = Inl (Bail ''digest mismatch'') \<and>
      (\<exists>fragment. misserved h fragment {UrlEntropy ''a'' 0, UrlEntropy ''b'' 1}
        {UrlEntropy ''b'' 1, UrlEntropy ''a'' 0})"
    if "sample_operation h = Some result" for h result
    using operation_blames_store [OF rev rev rev sound refl that [unfolded sample_operation_def]]
    by (auto simp: chunks_exact.simps replication_factor_def)
  have "sample_operation naming_http \<noteq> None"
    "sample_operation naming_http \<noteq> Some (Inl (Bail ''500 Internal Server Error''))"
    "sample_operation naming_http \<noteq> Some (Inl (Panic ''no entry found for key''))" by code_simp+
  with blamed [of naming_http] have "sample_operation naming_http = Some (Inr ())"
    by (auto simp: poll_errors_def naming_serves)
  moreover have losing: "sample_operation losing_http = Some (Inl (Bail ''digest mismatch''))"
    by code_simp
  moreover from blamed [OF losing] have "\<exists>fragment. misserved losing_http fragment
      {UrlEntropy ''a'' 0, UrlEntropy ''b'' 1} {UrlEntropy ''b'' 1, UrlEntropy ''a'' 0}"
    by (auto simp: poll_errors_def)
  ultimately show ?thesis by blast
qed

end
