(* ===== verification/Sqlite.thy ===== *)
theory Sqlite
  imports Ycsb_Correct
begin

text \<open>
  \<open>src/src/app/sqlite.rs\<close>: the YCSB application on an SQL database.

  SQLite is a library: the record \<open>sql\<close> opens a database and runs a statement with its parameters.
  The statements are the strings that the source builds. \<open>sql_documented\<close> is what is relied on of them,
  over the rows of the table: a key and its fields. The mutex around the connection is left out, as
  no holder of it panics.

  Against the map that \<open>BTreeMap\<close> implements: results of reads and scans start with the key and miss
  the last field, as \<open>SELECT *\<close> yields the key as column 0.
\<close>

section \<open>Statements\<close>

datatype sql_value = Text string | Integer nat

type_synonym sql_row = "string option list"

record 'db sql =
  sql_open :: "error + 'db"
  sql_execute :: "string \<Rightarrow> sql_value list \<Rightarrow> 'db \<Rightarrow> error + nat \<times> 'db"
  sql_query :: "string \<Rightarrow> sql_value list \<Rightarrow> 'db \<Rightarrow> error + sql_row list"

definition show_nat :: "nat \<Rightarrow> string" where
  "show_nat n = map (\<lambda>b. char_of (unat b)) (decimal n)"

fun join_strings :: "string \<Rightarrow> string list \<Rightarrow> string" where
  "join_strings sep [] = []"
| "join_strings sep [s] = s"
| "join_strings sep (s # ss) = s @ sep @ join_strings sep ss"

definition stmt_create :: "usize \<Rightarrow> string" where
  "stmt_create field_count =
     ''CREATE TABLE users (ycsb_key VARCHAR PRIMARY KEY, '' @
     join_strings '', '' (map (\<lambda>i. ''field'' @ show_nat i @ '' VARCHAR'') [0..<field_count]) @ '');''"

definition stmt_select :: string where
  "stmt_select = ''SELECT * FROM users WHERE ycsb_key = ?1''"

definition stmt_update :: "nat \<Rightarrow> string" where
  "stmt_update field = ''UPDATE users SET field'' @ show_nat field @ '' = ?2 WHERE ycsb_key = ?1''"

definition stmt_insert :: "usize \<Rightarrow> string" where
  "stmt_insert field_count =
     ''INSERT INTO users (ycsb_key, '' @
     join_strings '', '' (map (\<lambda>i. ''field'' @ show_nat i) [0..<field_count]) @ '') VALUES('' @
     join_strings '', '' (map (\<lambda>i. ''?'' @ show_nat (i + 1)) [0..<field_count + 1]) @ '')''"

definition stmt_scan :: string where
  "stmt_scan = ''SELECT * FROM users WHERE ycsb_key >= ?1 ORDER BY ycsb_key LIMIT ?2''"

definition stmt_delete :: string where
  "stmt_delete = ''DELETE FROM users WHERE ycsb_key = ?1''"

section \<open>The application\<close>

definition sqlite_new :: "'db sql \<Rightarrow> usize \<Rightarrow> error + 'db" where
  "sqlite_new sql field_count =
     (case sql_open sql of
        Inl e \<Rightarrow> Inl e
      | Inr db \<Rightarrow> map_sum id snd (sql_execute sql (stmt_create field_count) [] db))"

text \<open>\<open>row.get(i)\<close> as a string: the column must be there and not be \<open>NULL\<close>.\<close>

definition row_get :: "sql_row \<Rightarrow> nat \<Rightarrow> error + string" where
  "row_get row i =
     (if i < length row
      then (case row ! i of None \<Rightarrow> Inl (Bail ''invalid column type'') | Some v \<Rightarrow> Inr v)
      else Inl (Bail ''invalid column index''))"

fun collect_oks :: "(error + 'v) list \<Rightarrow> error + 'v list" where
  "collect_oks [] = Inr []"
| "collect_oks (Inl e # rs) = Inl e"
| "collect_oks (Inr x # rs) = map_sum id (Cons x) (collect_oks rs)"

fun sqlite_apply ::
  "(string \<Rightarrow> nat) \<Rightarrow> 'db sql \<Rightarrow> usize \<Rightarrow> ycsb_op \<Rightarrow> 'db \<Rightarrow> (ycsb_result, 'db) outcome" where
  "sqlite_apply fx sql field_count (Read key) db =
     (case sql_query sql stmt_select [Text key] db of
        Inl e \<Rightarrow> Err e db
      | Inr [] \<Rightarrow> Ok NotFound db
      | Inr (row # _) \<Rightarrow>
          (case collect_oks (map (row_get row) [0..<field_count]) of
             Inl e \<Rightarrow> Err e db
           | Inr values \<Rightarrow> Ok (ReadOk values) db))"
| "sqlite_apply fx sql field_count (Update key field value) db =
     (case sql_execute sql (stmt_update field) [Text key, Text value] db of
        Inl e \<Rightarrow> Err e db
      | Inr (n, db') \<Rightarrow> Ok (if n = 0 then NotFound else YOk) db')"
| "sqlite_apply fx sql field_count (Insert key values) db =
     (case sql_execute sql (stmt_insert field_count) (map Text (key # values)) db of
        Inl e \<Rightarrow> Err e db
      | Inr (n, db') \<Rightarrow> Ok YOk db')"
| "sqlite_apply fx sql field_count (Scan key num) db =
     (case sql_query sql stmt_scan [Text key, Integer num] db of
        Inl e \<Rightarrow> Err e db
      | Inr rows \<Rightarrow>
          (case collect_oks (map (\<lambda>row. collect_oks (map (\<lambda>i.
                  map_sum id (checksum fx) (row_get row i)) [0..<field_count])) rows) of
             Inl e \<Rightarrow> Err e db
           | Inr records \<Rightarrow> Ok (ScanOk records) db))"
| "sqlite_apply fx sql field_count (Delete key) db =
     (case sql_execute sql stmt_delete [Text key] db of
        Inl e \<Rightarrow> Err e db
      | Inr (n, db') \<Rightarrow> Ok (if n = 0 then NotFound else YOk) db')"

definition sqlite_execute ::
  "(string \<Rightarrow> nat) \<Rightarrow> 'db sql \<Rightarrow> usize \<Rightarrow> (ycsb_op, ycsb_result) codec \<Rightarrow> payload \<Rightarrow> 'db \<Rightarrow>
   (payload, 'db) outcome" where
  "sqlite_execute fx sql field_count c = app_execute c (sqlite_apply fx sql field_count)"

section \<open>What the statements do\<close>

type_synonym users = "(string \<times> string list) list"

definition users_ok :: "usize \<Rightarrow> users \<Rightarrow> bool" where
  "users_ok field_count rows \<longleftrightarrow>
     distinct (map fst rows) \<and> list_all (\<lambda>(_, values). length values = field_count) rows"

definition user_row :: "string \<times> string list \<Rightarrow> sql_row" where
  "user_row u = map Some (fst u # snd u)"

text \<open>
  The documented behaviour of the six statements on a table with \<open>field_count\<close> fields: the columns of
  \<open>SELECT *\<close> are those of the table, in their order; keys are unique; a column that does not exist, a
  wrong number of parameters and a key that is there already are errors.
\<close>

definition statements_run :: "'db sql \<Rightarrow> usize \<Rightarrow> ('db \<Rightarrow> users) \<Rightarrow> 'db \<Rightarrow> bool" where
  "statements_run sql field_count rows db \<longleftrightarrow>
     (\<forall>k. sql_query sql stmt_select [Text k] db =
        Inr (map user_row (filter (\<lambda>u. fst u = k) (rows db)))) \<and>
     (\<forall>k num. sql_query sql stmt_scan [Text k, Integer num] db =
        Inr (map user_row (take num (sort_key fst (filter (\<lambda>u. k \<le> fst u) (rows db)))))) \<and>
     (\<forall>k f v. if f < field_count
        then \<exists>db'. sql_execute sql (stmt_update f) [Text k, Text v] db =
               Inr (length (filter (\<lambda>u. fst u = k) (rows db)), db') \<and>
             rows db' = map (\<lambda>u. if fst u = k then (fst u, (snd u)[f := v]) else u) (rows db)
        else \<exists>e. sql_execute sql (stmt_update f) [Text k, Text v] db = Inl e) \<and>
     (\<forall>k vs. if length vs = field_count \<and> k \<notin> fst ` set (rows db)
        then \<exists>db'. sql_execute sql (stmt_insert field_count) (Text k # map Text vs) db = Inr (1, db') \<and>
             rows db' = rows db @ [(k, vs)]
        else \<exists>e. sql_execute sql (stmt_insert field_count) (Text k # map Text vs) db = Inl e) \<and>
     (\<forall>k. \<exists>db'. sql_execute sql stmt_delete [Text k] db =
          Inr (length (filter (\<lambda>u. fst u = k) (rows db)), db') \<and>
        rows db' = filter (\<lambda>u. fst u \<noteq> k) (rows db))"

definition sql_documented :: "'db sql \<Rightarrow> usize \<Rightarrow> ('db \<Rightarrow> users) \<Rightarrow> bool" where
  "sql_documented sql field_count rows \<longleftrightarrow> 0 < field_count \<and>
     (\<exists>db n db'. sql_open sql = Inr db \<and> sql_execute sql (stmt_create field_count) [] db = Inr (n, db') \<and>
        rows db' = []) \<and>
     (\<forall>db. users_ok field_count (rows db) \<longrightarrow> statements_run sql field_count rows db)"

section \<open>The map it implements\<close>

text \<open>\<open>None\<close> is an error that leaves the table as it is.\<close>

fun sqlite_spec ::
  "(string \<Rightarrow> nat) \<Rightarrow> usize \<Rightarrow> ycsb_op \<Rightarrow> (string \<rightharpoonup> string list) \<Rightarrow>
   (ycsb_result \<times> (string \<rightharpoonup> string list)) option" where
  "sqlite_spec fx n (Read key) m =
     Some (case m key of Some v \<Rightarrow> ReadOk (take n (key # v)) | None \<Rightarrow> NotFound, m)"
| "sqlite_spec fx n (Update key field value) m =
     (if field < n
      then Some (case m key of None \<Rightarrow> (NotFound, m) | Some v \<Rightarrow> (YOk, m(key \<mapsto> v[field := value])))
      else None)"
| "sqlite_spec fx n (Insert key v) m =
     (if length v = n \<and> m key = None then Some (YOk, m(key \<mapsto> v)) else None)"
| "sqlite_spec fx n (Scan key num) m =
     Some (ScanOk (map (\<lambda>k. map (checksum fx) (take n (k # the (m k))))
       (take num (sorted_list_of_set {k \<in> dom m. key \<le> k}))), m)"
| "sqlite_spec fx n (Delete key) m =
     Some (if m key \<noteq> None then (YOk, m(key := None)) else (NotFound, m))"

lemma collect_oks_map: "collect_oks (map (\<lambda>x. Inr (f x)) xs) = Inr (map f xs)"
  by (induction xs) simp_all

lemma row_get_user:
  assumes "length (snd u) = n"
  shows "map (\<lambda>i. map_sum id f (row_get (user_row u) i)) [0..<n] =
    map (\<lambda>i. Inr (f ((fst u # snd u) ! i))) [0..<n]"
proof (rule map_cong)
  fix i
  assume "i \<in> set [0..<n]"
  then have "i < length (fst u # snd u)" using assms by simp
  then have "user_row u ! i = Some ((fst u # snd u) ! i)" "i < length (user_row u)"
    unfolding user_row_def by (simp_all only: nth_map length_map)
  then show "map_sum id f (row_get (user_row u) i) = Inr (f ((fst u # snd u) ! i))"
    by (simp add: row_get_def)
qed simp

lemma nth_take_upt: "n \<le> length xs \<Longrightarrow> map (\<lambda>i. f (xs ! i)) [0..<n] = map f (take n xs)"
  by (rule nth_equalityI) auto

lemma read_columns:
  assumes "length (snd u) = n"
  shows "collect_oks (map (\<lambda>i. map_sum id f (row_get (user_row u) i)) [0..<n]) =
    Inr (map f (take n (fst u # snd u)))"
  unfolding row_get_user [OF assms] collect_oks_map
  using assms by (simp add: nth_take_upt [of n "fst u # snd u" f])

lemma read_row:
  "length (snd u) = n \<Longrightarrow> collect_oks (map (row_get (user_row u)) [0..<n]) = Inr (take n (fst u # snd u))"
  using read_columns [of u n "\<lambda>x. x"] by (simp add: map_sum.identity [unfolded id_def] id_def)

lemma filter_key:
  "distinct (map fst rows) \<Longrightarrow>
   filter (\<lambda>u. fst u = k) rows = (case map_of rows k of None \<Rightarrow> [] | Some v \<Rightarrow> [(k, v)])"
proof (induction rows)
  case (Cons u rows)
  have "filter (\<lambda>w. fst w = k) rows = []" if "fst u = k"
    using Cons.prems that by (auto simp: filter_empty_conv image_iff)
  with Cons show ?case by (cases u) (auto simp: map_of_eq_None_iff split: option.split)
qed simp

lemma users_fields: "users_ok n rows \<Longrightarrow> u \<in> set rows \<Longrightarrow> length (snd u) = n"
  by (auto simp: users_ok_def list_all_iff)

lemma map_of_filter_key: "map_of (filter (\<lambda>u. fst u \<noteq> k) rows) = (map_of rows)(k := None)"
  by (induction rows) auto

lemma map_of_update_key:
  "map_of (map (\<lambda>u. if fst u = k then (fst u, g (snd u)) else u) rows) x =
     (if x = k then map_option g (map_of rows x) else map_of rows x)"
  by (induction rows) auto

lemma users_keys_update:
  "map fst (map (\<lambda>u. if fst u = k then (fst u, g (snd u)) else u) rows) = map fst rows"
  by (induction rows) auto

lemma scan_keys:
  assumes "distinct (map fst rows)"
  shows "map fst (sort_key fst (filter (\<lambda>u. key \<le> fst u) rows)) =
    sorted_list_of_set {k \<in> dom (map_of rows). key \<le> k}"
proof -
  let ?xs = "sort_key fst (filter (\<lambda>u. key \<le> fst u) rows)"
  have "distinct (map fst (filter (\<lambda>u. key \<le> fst u) rows))"
    using assms by (rule distinct_map_filter)
  then have "distinct (map fst ?xs)" by (simp add: distinct_map)
  from sorted_list_of_set.idem_if_sorted_distinct [OF sorted_sort_key this]
  have "sorted_list_of_set (set (map fst ?xs)) = map fst ?xs" .
  moreover have "set (map fst ?xs) = {k \<in> dom (map_of rows). key \<le> k}"
    by (force simp: dom_map_of_conv_image_fst)
  ultimately show ?thesis by simp
qed

lemma scan_rows:
  assumes "users_ok n rows"
  shows "map (\<lambda>u. map f (take n (fst u # snd u))) (take num (sort_key fst (filter (\<lambda>u. key \<le> fst u) rows))) =
    map (\<lambda>k. map f (take n (k # the (map_of rows k))))
      (take num (sorted_list_of_set {k \<in> dom (map_of rows). key \<le> k}))"
proof -
  have d: "distinct (map fst rows)" using assms by (simp add: users_ok_def)
  have "snd u = the (map_of rows (fst u))" if "u \<in> set rows" for u
    using d that by (cases u) simp
  then show ?thesis
    unfolding scan_keys [OF d, symmetric] take_map map_map o_def
    by (intro map_cong refl) (auto dest!: in_set_takeD)
qed

lemma documented_ops:
  assumes "sql_documented sql n rows" and "users_ok n (rows db)"
  shows "sql_query sql stmt_select [Text k] db = Inr (map user_row (filter (\<lambda>u. fst u = k) (rows db)))"
    and "sql_query sql stmt_scan [Text k, Integer num] db =
      Inr (map user_row (take num (sort_key fst (filter (\<lambda>u. k \<le> fst u) (rows db)))))"
    and "f < n \<Longrightarrow> \<exists>db'. sql_execute sql (stmt_update f) [Text k, Text v] db =
        Inr (length (filter (\<lambda>u. fst u = k) (rows db)), db') \<and>
      rows db' = map (\<lambda>u. if fst u = k then (fst u, (snd u)[f := v]) else u) (rows db)"
    and "\<not> f < n \<Longrightarrow> \<exists>e. sql_execute sql (stmt_update f) [Text k, Text v] db = Inl e"
    and "length vs = n \<Longrightarrow> k \<notin> fst ` set (rows db) \<Longrightarrow>
      \<exists>db'. sql_execute sql (stmt_insert n) (Text k # map Text vs) db = Inr (1, db') \<and> rows db' = rows db @ [(k, vs)]"
    and "\<not> (length vs = n \<and> k \<notin> fst ` set (rows db)) \<Longrightarrow>
      \<exists>e. sql_execute sql (stmt_insert n) (Text k # map Text vs) db = Inl e"
    and "\<exists>db'. sql_execute sql stmt_delete [Text k] db =
        Inr (length (filter (\<lambda>u. fst u = k) (rows db)), db') \<and> rows db' = filter (\<lambda>u. fst u \<noteq> k) (rows db)"
proof -
  have "statements_run sql n rows db" using assms by (simp add: sql_documented_def)
  note run = this [unfolded statements_run_def]
  from run show "sql_query sql stmt_select [Text k] db = Inr (map user_row (filter (\<lambda>u. fst u = k) (rows db)))"
    by blast
  from run show "sql_query sql stmt_scan [Text k, Integer num] db =
      Inr (map user_row (take num (sort_key fst (filter (\<lambda>u. k \<le> fst u) (rows db)))))" by blast
  note upd = spec [OF spec [OF spec [OF run [THEN conjunct2, THEN conjunct2, THEN conjunct1], of k], of f], of v]
  from upd show "f < n \<Longrightarrow> \<exists>db'. sql_execute sql (stmt_update f) [Text k, Text v] db =
        Inr (length (filter (\<lambda>u. fst u = k) (rows db)), db') \<and>
      rows db' = map (\<lambda>u. if fst u = k then (fst u, (snd u)[f := v]) else u) (rows db)" by (simp only: if_True)
  from upd show "\<not> f < n \<Longrightarrow> \<exists>e. sql_execute sql (stmt_update f) [Text k, Text v] db = Inl e"
    by (simp only: if_False)
  note ins = spec [OF spec [OF run [THEN conjunct2, THEN conjunct2, THEN conjunct2, THEN conjunct1], of k], of vs]
  from ins show "length vs = n \<Longrightarrow> k \<notin> fst ` set (rows db) \<Longrightarrow>
      \<exists>db'. sql_execute sql (stmt_insert n) (Text k # map Text vs) db = Inr (1, db') \<and> rows db' = rows db @ [(k, vs)]"
    by (simp only: simp_thms if_True)
  from ins show "\<not> (length vs = n \<and> k \<notin> fst ` set (rows db)) \<Longrightarrow>
      \<exists>e. sql_execute sql (stmt_insert n) (Text k # map Text vs) db = Inl e" by (simp only: if_False)
  from run show "\<exists>db'. sql_execute sql stmt_delete [Text k] db =
        Inr (length (filter (\<lambda>u. fst u = k) (rows db)), db') \<and> rows db' = filter (\<lambda>u. fst u \<noteq> k) (rows db)"
    by blast
qed

definition implements ::
  "(string \<Rightarrow> nat) \<Rightarrow> 'db sql \<Rightarrow> usize \<Rightarrow> ('db \<Rightarrow> users) \<Rightarrow> ycsb_op \<Rightarrow> 'db \<Rightarrow> bool" where
  "implements fx sql n rows op db \<longleftrightarrow>
     (case sqlite_spec fx n op (map_of (rows db)) of
        None \<Rightarrow> (\<exists>e. sqlite_apply fx sql n op db = Err e db)
      | Some (r, m') \<Rightarrow> \<exists>db'. sqlite_apply fx sql n op db = Ok r db' \<and> map_of (rows db') = m' \<and>
          users_ok n (rows db'))"

lemma sqlite_apply_implements:
  assumes doc: "sql_documented sql n rows" and ok: "users_ok n (rows db)"
  shows "implements fx sql n rows op db"
proof -
  let ?m = "map_of (rows db)"
  have d: "distinct (map fst (rows db))" using ok by (simp add: users_ok_def)
  note ops = documented_ops [OF doc ok]
  note single = filter_key [OF d]
  have len: "length v = n" if "?m k = Some v" for k v
    using users_fields [OF ok map_of_SomeD [OF that]] by simp
  have member: "k \<in> fst ` set (rows db) \<longleftrightarrow> ?m k \<noteq> None" for k
    by (simp add: map_of_eq_None_iff)
  show ?thesis
  proof (cases op)
    case (Read k)
    then show ?thesis
      using ok read_row [of "(k, v)" n for v] len [of k]
      by (auto simp: implements_def ops(1) single split: option.split)
  next
    case (Scan k num)
    let ?us = "take num (sort_key fst (filter (\<lambda>u. k \<le> fst u) (rows db)))"
    have "length (snd u) = n" if "u \<in> set ?us" for u
      using in_set_takeD [OF that] users_fields [OF ok] by simp
    then have cols: "map (\<lambda>u. collect_oks (map (\<lambda>i. map_sum id (checksum fx) (row_get (user_row u) i)) [0..<n])) ?us =
        map (\<lambda>u. Inr (map (checksum fx) (take n (fst u # snd u)))) ?us"
      by (intro map_cong refl) (simp add: read_columns)
    have "collect_oks (map (\<lambda>row. collect_oks (map (\<lambda>i. map_sum id (checksum fx) (row_get row i)) [0..<n]))
        (map user_row ?us)) = Inr (map (\<lambda>u. map (checksum fx) (take n (fst u # snd u))) ?us)"
      by (simp only: map_map o_def cols collect_oks_map)
    with Scan ok scan_rows [OF ok, of "checksum fx" num k] show ?thesis
      by (simp add: implements_def ops(2))
  next
    case (Update k f v)
    show ?thesis
    proof (cases "f < n")
      case True
      from ops(3) [OF this] obtain db' where db': "sql_execute sql (stmt_update f) [Text k, Text v] db =
          Inr (length (filter (\<lambda>u. fst u = k) (rows db)), db')"
        "rows db' = map (\<lambda>u. if fst u = k then (fst u, (snd u)[f := v]) else u) (rows db)" by blast
      have "users_ok n (rows db')"
        using ok unfolding users_ok_def db'(2) users_keys_update [of k "\<lambda>w. w[f := v]"]
        by (auto simp: list_all_iff)
      moreover have "map_of (rows db') =
          (case ?m k of None \<Rightarrow> ?m | Some w \<Rightarrow> ?m(k \<mapsto> w[f := v]))"
        unfolding db'(2) by (rule ext) (simp add: map_of_update_key [of k "\<lambda>w. w[f := v]"] split: option.split)
      ultimately show ?thesis
        using Update True db'(1) by (auto simp: implements_def single split: option.split)
    next
      case False
      from ops(4) [OF this] obtain e where "sql_execute sql (stmt_update f) [Text k, Text v] db = Inl e" by blast
      with Update False show ?thesis by (simp add: implements_def)
    qed
  next
    case (Insert k vs)
    show ?thesis
    proof (cases "length vs = n \<and> ?m k = None")
      case True
      then have fresh: "k \<notin> fst ` set (rows db)" by (simp add: member)
      from ops(5) [OF _ this] True obtain db' where db': "rows db' = rows db @ [(k, vs)]"
        "sql_execute sql (stmt_insert n) (Text k # map Text vs) db = Inr (1, db')" by blast
      have "users_ok n (rows db')" using ok True fresh by (auto simp: users_ok_def db'(1))
      moreover have "map_of (rows db') = ?m(k \<mapsto> vs)"
        using True by (auto simp: db'(1) fun_eq_iff map_add_def split: option.split)
      ultimately show ?thesis using Insert True db'(2) by (simp add: implements_def)
    next
      case False
      then have "\<not> (length vs = n \<and> k \<notin> fst ` set (rows db))" by (simp add: member)
      from ops(6) [OF this] False Insert show ?thesis by (auto simp: implements_def)
    qed
  next
    case (Delete k)
    from ops(7) obtain db' where db': "sql_execute sql stmt_delete [Text k] db =
        Inr (length (filter (\<lambda>u. fst u = k) (rows db)), db')" "rows db' = filter (\<lambda>u. fst u \<noteq> k) (rows db)" by blast
    have "users_ok n (rows db')" using ok by (auto simp: users_ok_def db'(2) distinct_map_filter list_all_iff)
    moreover have "map_of (rows db') = ?m(k := None)" by (simp add: db'(2) map_of_filter_key)
    ultimately show ?thesis
      using Delete db'(1) by (auto simp: implements_def single split: option.split)
  qed
qed

section \<open>A small engine\<close>

fun text_of :: "sql_value \<Rightarrow> string" where
  "text_of (Text s) = s"
| "text_of (Integer n) = show_nat n"

text \<open>The table is its rows; a statement is recognised as one of those for \<open>field_count\<close> fields.\<close>

fun rows_execute ::
  "usize \<Rightarrow> string \<Rightarrow> sql_value list \<Rightarrow> users \<Rightarrow> error + nat \<times> users" where
  "rows_execute n st [] db =
     (if st = stmt_create n then Inr (0, []) else Inl (Bail ''near: syntax error''))"
| "rows_execute n st (k # ps) db =
     (let key = text_of k in
      if st = stmt_insert n then
        (if length ps = n \<and> key \<notin> set (map fst db) then Inr (1, db @ [(key, map text_of ps)])
         else Inl (Bail ''UNIQUE constraint failed''))
      else if st = stmt_delete then
        Inr (length (filter (\<lambda>u. fst u = key) db), filter (\<lambda>u. fst u \<noteq> key) db)
      else (case filter (\<lambda>f. st = stmt_update f) [0..<n] of
          [] \<Rightarrow> Inl (Bail ''no such column'')
        | f # _ \<Rightarrow>
            Inr (length (filter (\<lambda>u. fst u = key) db),
              map (\<lambda>u. if fst u = key then (fst u, (snd u)[f := text_of (hd ps)]) else u) db)))"

fun rows_query :: "string \<Rightarrow> sql_value list \<Rightarrow> users \<Rightarrow> error + sql_row list" where
  "rows_query st [Text key] db =
     (if st = stmt_select then Inr (map user_row (filter (\<lambda>u. fst u = key) db))
      else Inl (Bail ''near: syntax error''))"
| "rows_query st [Text key, Integer num] db =
     (if st = stmt_scan
      then Inr (map user_row (take num (sort_key fst (filter (\<lambda>u. key \<le> fst u) db))))
      else Inl (Bail ''near: syntax error''))"
| "rows_query st ps db = Inl (Bail ''near: syntax error'')"

definition rows_sql :: "usize \<Rightarrow> users sql" where
  "rows_sql n = \<lparr>sql_open = Inr [], sql_execute = rows_execute n, sql_query = rows_query\<rparr>"

lemma show_nat_inject: "show_nat a = show_nat b \<longleftrightarrow> a = b"
proof
  assume "show_nat a = show_nat b"
  have "(of_nat (of_char (char_of (unat x) :: char)) :: u8) = x" for x
  proof -
    have "unat x mod 256 = unat x" using unat_u8_less [of x] by simp
    then have "of_char (char_of (unat x) :: char) = unat x" by (simp only: of_char_of)
    then show ?thesis by simp
  qed
  then have "map (\<lambda>c. of_nat (of_char c)) (show_nat n) = decimal n" for n
    by (simp add: show_nat_def o_def del: of_char_of)
  with \<open>show_nat a = show_nat b\<close> have "decimal a = decimal b" by metis
  then show "a = b" using undecimal_decimal by metis
qed simp

lemma statements_differ:
  "stmt_update f = stmt_update g \<longleftrightarrow> f = g" "stmt_update f \<noteq> stmt_insert n"
  "stmt_update f \<noteq> stmt_delete" "stmt_delete \<noteq> stmt_insert n"
  by (simp_all add: stmt_update_def stmt_insert_def stmt_delete_def show_nat_inject)

lemma rows_sql_documented:
  assumes "0 < n"
  shows "sql_documented (rows_sql n) n (\<lambda>db. db)"
proof -
  have upd: "filter ((=) f) [0..<n] = (if f < n then [f] else [])" for f
    by (induction n) auto
  have "statements_run (rows_sql n) n (\<lambda>db. db) db" for db
    unfolding statements_run_def
    by (intro conjI allI)
      (auto simp: rows_sql_def statements_differ upd statements_differ(2) [symmetric] Let_def o_def)
  with assms show ?thesis by (simp add: sql_documented_def rows_sql_def)
qed

section \<open>The properties\<close>

text \<open>C36: The SQL application, over the documented behaviour of its statements, implements a map from keys
  to records: an operation that decodes returns the encoded result of \<open>sqlite_spec\<close> and leaves the
  map of \<open>sqlite_spec\<close>, or fails with the table unchanged. Unlike the map that \<open>BTreeMap\<close> implements,
  reads and scans yield the key followed by all fields but the last, an insert of a key that is
  there fails, and so does an update of a field that the table does not have.\<close>

theorem sqlite_refines_shifted_map:
  assumes "sql_documented sql n rows" and "users_ok n (rows db)" and "codec_ok c" and "dec_op c b = Inr op"
  shows "case sqlite_spec fx n op (map_of (rows db)) of
      None \<Rightarrow> \<exists>e. sqlite_execute fx sql n c b db = Err e db
    | Some (r, m') \<Rightarrow> \<exists>out db'. sqlite_execute fx sql n c b db = Ok out db' \<and> enc_result c r = Inr out \<and>
        map_of (rows db') = m' \<and> users_ok n (rows db')"
proof -
  have imp: "implements fx sql n rows op db" by (rule sqlite_apply_implements [OF assms(1,2)])
  have "\<exists>out. enc_result c r = Inr out" for r using assms(3) by (auto simp: codec_ok_def)
  with imp assms(4) show ?thesis
    by (cases "sqlite_spec fx n op (map_of (rows db))")
      (force simp: implements_def sqlite_execute_def app_execute_def)+
qed

theorem sqlite_refines_shifted_map_witness:
  "\<exists>out db'. sqlite_execute length (rows_sql 2) 2 plain_ycsb (put_ycsb_op (Read ''k'')) [(''k'', [''x'', ''y''])] =
     Ok out db' \<and> enc_result plain_ycsb (ReadOk [''k'', ''x'']) = Inr out \<and> map_of db' = [''k'' \<mapsto> [''x'', ''y'']]"
proof -
  have "users_ok 2 [(''k'', [''x'', ''y''])]" by (simp add: users_ok_def)
  from sqlite_refines_shifted_map [OF rows_sql_documented [of 2, OF zero_less_numeral] this plain_ycsb_ok plain_decodes(2) [of "Read ''k''"], of length]
  show ?thesis by (simp del: put_ycsb_op.simps add: eval_nat_numeral) blast
qed

text \<open>The two backends of the same benchmark answer a read alike only for a record of copies of its key.\<close>

lemma backends_differ:
  assumes "ycsb_spec fx (Read key) m = Some (r, m1)" and "sqlite_spec fx n (Read key) m = Some (r', m2)"
    and "m key = Some vals" and "length vals = n"
  shows "r = r' \<longleftrightarrow> vals = replicate n key"
proof -
  have shift: "take (length vs) (k # vs) = vs \<longleftrightarrow> vs = replicate (length vs) k" for k :: string and vs
    by (induction vs arbitrary: k) auto
  from shift [of vals key] assms(4) have copies: "take n (key # vals) = vals \<longleftrightarrow> vals = replicate n key"
    by (simp only:)
  from assms(1,3) have "r = ReadOk vals" by simp
  moreover from assms(2,3) have "r' = ReadOk (take n (key # vals))" by auto
  ultimately have "r = r' \<longleftrightarrow> take n (key # vals) = vals" by (simp only: ycsb_result.inject eq_commute [of vals])
  with copies show ?thesis by simp
qed

end
