(* ===== verification/Replication_Server.thy ===== *)
theory Replication_Server
  imports Sqlite Unreplicated Pbft_Replica Pbft_Client
begin

text \<open>
  The replication server, \<open>src/src/main.rs\<close>: starting and stopping a replica or a group of clients, the
  polls of the controller, and the benchmark result.

  A \<open>std::sync::Mutex\<close> is its value with a flag: a panic while the guard is held poisons it, and then
  every \<open>lock().unwrap()\<close> panics. A session is its result once it has ended and whether it was
  cancelled; a replaced handle is detached. Durations are nanoseconds. Sockets, threads and the HTTP
  layer are outside.
\<close>

section \<open>The application of a replica\<close>

datatype repl_backend = BackendBTree | BackendSqlite

datatype repl_app_config = ConfigNull | ConfigYcsb repl_backend usize

datatype 'db replica_app = AppNull | AppBTree "string list btree" | AppSqlite usize 'db

fun replica_app_execute ::
  "(string \<Rightarrow> nat) \<Rightarrow> 'db sql \<Rightarrow> (ycsb_op, ycsb_result) codec \<Rightarrow> payload \<Rightarrow> 'db replica_app \<Rightarrow>
   (payload, 'db replica_app) outcome" where
  "replica_app_execute fx sql c op AppNull = lift_outcome (\<lambda>_. AppNull) (null_execute op ())"
| "replica_app_execute fx sql c op (AppBTree m) = lift_outcome AppBTree (btree_execute fx c op m)"
| "replica_app_execute fx sql c op (AppSqlite n db) =
     lift_outcome (AppSqlite n) (sqlite_execute fx sql n c op db)"

text \<open>\<open>for op in workload.startup_ops() { app.execute(&op).unwrap(); }\<close>\<close>

fun execute_all ::
  "(payload \<Rightarrow> 'app \<Rightarrow> (payload, 'app) outcome) \<Rightarrow> payload list \<Rightarrow> 'app \<Rightarrow> error + 'app" where
  "execute_all execute [] app = Inr app"
| "execute_all execute (op # ops) app =
     (case execute op app of
        Err e _ \<Rightarrow> Inl (Panic ''called Result::unwrap() on an Err value'')
      | Ok _ app' \<Rightarrow> execute_all execute ops app')"

text \<open>\<open>None\<close>: a generator that does not end.\<close>

definition init_app ::
  "('r, 'w) ycsb_lib \<Rightarrow> (string \<Rightarrow> nat) \<Rightarrow> 'db sql \<Rightarrow> (ycsb_op, ycsb_result) codec \<Rightarrow> 'r \<Rightarrow>
   repl_app_config \<Rightarrow> (error + 'db replica_app) option" where
  "init_app lib fx sql c rng config =
     (case config of
        ConfigNull \<Rightarrow> Some (Inr AppNull)
      | ConfigYcsb backend record_count \<Rightarrow>
          let settings = settings_new record_count in
          case (case backend of
              BackendBTree \<Rightarrow> Inr (AppBTree [])
            | BackendSqlite \<Rightarrow> map_sum id (AppSqlite (ws_field_count settings)) (sqlite_new sql (ws_field_count settings))) of
            Inl e \<Rightarrow> Some (Inl (Panic ''called Result::unwrap() on an Err value''))
          | Inr app \<Rightarrow>
              (case ycsb_new lib rng settings of
                 Inl e \<Rightarrow> Some (Inl (Panic ''called Result::unwrap() on an Err value''))
               | Inr workload \<Rightarrow>
                   (case startup_ops lib (enc_op c) workload of
                      None \<Rightarrow> None
                    | Some (Err e _) \<Rightarrow> Some (Inl e)
                    | Some (Ok ops _) \<Rightarrow> Some (execute_all (replica_app_execute fx sql c) ops app))))"

section \<open>Replicas and clients\<close>

datatype repl_protocol = ProtocolUnreplicated | ProtocolPbft

record 'a replica_config =
  rc_protocol :: repl_protocol
  rc_app :: repl_app_config
  rc_replica_id :: u8
  rc_replica_addrs :: "'a list"
  rc_num_replica :: usize
  rc_num_faulty :: usize

datatype ('a, 'app) replica_machine =
    MachineUnreplicated "('a, 'app) unrep_replica"
  | MachinePbft "('app, 'a) replica"

text \<open>What the spawned thread sets up before it serves messages.\<close>

definition replica_machine_new ::
  "crypto_lib \<Rightarrow> 'a replica_config \<Rightarrow> 'app \<Rightarrow> error + ('a, 'app) replica_machine" where
  "replica_machine_new lib config app =
     (if \<not> unat (rc_replica_id config) < length (rc_replica_addrs config)
      then Inl (Panic ''index out of bounds'')
      else case new_hardcoded_replication lib (rc_num_replica config) (unat (rc_replica_id config)) FlavorSchnorrkel of
        Inl e \<Rightarrow> Inl e
      | Inr crypto \<Rightarrow>
          (case rc_protocol config of
             ProtocolUnreplicated \<Rightarrow>
               if rc_replica_id config = 0 then Inr (MachineUnreplicated (unrep_replica_new app open_sink))
               else Inl (Panic ''assertion failed: left == right'')
           | ProtocolPbft \<Rightarrow>
               Inr (MachinePbft (replica_new (rc_replica_id config) app open_sink open_sink (Spawn open_sink)
                 (rc_num_replica config) (rc_num_faulty config)))))"

record 'a client_config =
  cc_protocol :: repl_protocol
  cc_app :: repl_app_config
  cc_num_close_loop :: usize
  cc_replica_addrs :: "'a list"
  cc_num_replica :: usize
  cc_num_faulty :: usize

datatype 'a client_machine = ClientUnreplicated "'a unrep_client" | ClientPbft "'a client"

definition new_client :: "'a client_config \<Rightarrow> u32 \<Rightarrow> 'a \<Rightarrow> 'a client_machine" where
  "new_client config i addr =
     (case cc_protocol config of
        ProtocolUnreplicated \<Rightarrow> ClientUnreplicated (unrep_client_new i addr open_sink open_sink)
      | ProtocolPbft \<Rightarrow> ClientPbft (client_new i addr open_sink open_sink (cc_num_replica config) (cc_num_faulty config)))"

section \<open>The benchmark result\<close>

text \<open>A number of operations as \<open>f32\<close>: 24 significant bits, ties to even. \<open>as u32\<close> saturates.\<close>

fun bit_length :: "nat \<Rightarrow> nat" where
  "bit_length n = (if n = 0 then 0 else Suc (bit_length (n div 2)))"

declare bit_length.simps [simp del]

definition f32_of_usize :: "nat \<Rightarrow> nat" where
  "f32_of_usize n =
     (let e = bit_length n - 24; q = n div 2 ^ e; r = n mod 2 ^ e
      in if e = 0 then n
         else (if 2 ^ (e - 1) < r \<or> r = 2 ^ (e - 1) \<and> odd q then q + 1 else q) * 2 ^ e)"

definition f32_as_u32 :: "nat \<Rightarrow> u32" where
  "f32_as_u32 n = (if n < 2 ^ 32 then of_nat n else - 1)"

record benchmark_result =
  br_throughput :: nat
  br_latency :: nat

definition benchmark_result_of :: "nat list \<Rightarrow> error + benchmark_result" where
  "benchmark_result_of latencies =
     (let throughput = f32_of_usize (length latencies);
          divisor = unat (f32_as_u32 throughput + 1)
      in if divisor = 0 then Inl (Panic ''divide by zero error when dividing duration by scalar'')
         else Inr \<lparr>br_throughput = throughput, br_latency = sum_list latencies div divisor\<rparr>)"

text \<open>
  \<open>client_session\<close>: after one second the clients are stopped and their latencies collected, unless a
  session ends before: then that result, or the error for an unexpected end, is the outcome.
\<close>

definition client_session ::
  "(error + unit) option \<Rightarrow> nat list list \<Rightarrow> error + benchmark_result" where
  "client_session first_end latencies =
     (case first_end of
        Some (Inl e) \<Rightarrow> Inl e
      | Some (Inr _) \<Rightarrow> Inl (Bail ''unexpected shutdown'')
      | None \<Rightarrow> benchmark_result_of (concat latencies))"

text \<open>\<open>replica_session\<close>: the first of the sessions that ends, or the cancellation.\<close>

definition replica_session :: "(error + unit) option \<Rightarrow> error + unit" where
  "replica_session first_end =
     (case first_end of
        Some (Inl e) \<Rightarrow> Inl e
      | Some (Inr _) \<Rightarrow> Inl (Bail ''unexpected shutdown'')
      | None \<Rightarrow> Inr ())"

section \<open>The server\<close>

record 'v std_mutex =
  mx_value :: 'v
  mx_poisoned :: bool

record app_session =
  as_result :: "(error + unit) option"
  as_cancelled :: bool

definition app_session_new :: app_session where
  "app_session_new = \<lparr>as_result = None, as_cancelled = False\<rparr>"

record repl_app =
  ra_session :: "app_session option std_mutex"
  ra_benchmark :: "benchmark_result option std_mutex"

definition repl_app_new :: repl_app where
  "repl_app_new =
     \<lparr>ra_session = \<lparr>mx_value = None, mx_poisoned = False\<rparr>, ra_benchmark = \<lparr>mx_value = None, mx_poisoned = False\<rparr>\<rparr>"

definition poison_error :: error where
  "poison_error = Panic ''called Result::unwrap() on an Err value: PoisonError''"

definition set_session :: "app_session option \<Rightarrow> repl_app \<Rightarrow> repl_app" where
  "set_session v s = s\<lparr>ra_session := (ra_session s)\<lparr>mx_value := v\<rparr>\<rparr>"

text \<open>A panic with the guard of the session held.\<close>

definition panic_holding :: "string \<Rightarrow> repl_app \<Rightarrow> ('v, repl_app) outcome" where
  "panic_holding m s = Err (Panic m) (s\<lparr>ra_session := (ra_session s)\<lparr>mx_poisoned := True\<rparr>\<rparr>)"

text \<open>\<open>handle.await.unwrap().unwrap()\<close> of a session that has ended; \<open>None\<close> while the handler waits.\<close>

definition await_session :: "app_session \<Rightarrow> (error + unit) option" where
  "await_session h =
     map_option (\<lambda>r. case r of Inl e \<Rightarrow> Inl (Panic ''called Result::unwrap() on an Err value'') | Inr _ \<Rightarrow> Inr ())
       (as_result h)"

definition poll_ok :: "repl_app \<Rightarrow> (unit, repl_app) outcome" where
  "poll_ok s =
     (if mx_poisoned (ra_session s) then Err poison_error s
      else case mx_value (ra_session s) of
          None \<Rightarrow> Ok () s
        | Some h \<Rightarrow>
            (case await_session h of
               None \<Rightarrow> Ok () s
             | Some (Inr _) \<Rightarrow> Ok () (set_session None s)
             | Some (Inl e) \<Rightarrow> Err e (set_session None s)))"

definition replace_session :: "app_session \<Rightarrow> repl_app \<Rightarrow> (unit, repl_app) outcome" where
  "replace_session h s =
     (let s1 = set_session (Some h) s in
      if mx_value (ra_session s) \<noteq> None then panic_holding ''assertion failed: replaced.is_none()'' s1
      else Ok () s1)"

definition start_client :: "repl_app \<Rightarrow> (unit, repl_app) outcome" where
  "start_client s =
     (if mx_poisoned (ra_session s) then Err poison_error s
      else if mx_poisoned (ra_benchmark s)
      then panic_holding ''called Result::unwrap() on an Err value: PoisonError'' s
      else replace_session app_session_new (s\<lparr>ra_benchmark := (ra_benchmark s)\<lparr>mx_value := None\<rparr>\<rparr>))"

definition start_replica :: "(error + 'app) \<Rightarrow> repl_app \<Rightarrow> (unit, repl_app) outcome" where
  "start_replica init s =
     (if mx_poisoned (ra_session s) then Err poison_error s
      else case init of
          Inl e \<Rightarrow> panic_holding ''called Result::unwrap() on an Err value'' s
        | Inr app \<Rightarrow> replace_session app_session_new s)"

text \<open>The result and the session whose end the handler awaits before it answers.\<close>

definition take_benchmark_result ::
  "repl_app \<Rightarrow> ((benchmark_result \<times> app_session) option, repl_app) outcome" where
  "take_benchmark_result s =
     (if mx_poisoned (ra_benchmark s) then Err poison_error s
      else case mx_value (ra_benchmark s) of
          None \<Rightarrow> Ok None s
        | Some r \<Rightarrow>
            let s1 = s\<lparr>ra_benchmark := (ra_benchmark s)\<lparr>mx_value := None\<rparr>\<rparr> in
            if mx_poisoned (ra_session s1) then Err poison_error s1
            else (case mx_value (ra_session s1) of
                None \<Rightarrow> panic_holding ''called Option::unwrap() on a None value'' s1
              | Some h \<Rightarrow> Ok (Some (r, h)) (set_session None s1)))"

definition stop_replica :: "repl_app \<Rightarrow> (app_session, repl_app) outcome" where
  "stop_replica s =
     (if mx_poisoned (ra_session s) then Err poison_error s
      else case mx_value (ra_session s) of
          None \<Rightarrow> panic_holding ''called Option::unwrap() on a None value'' s
        | Some h \<Rightarrow> Ok (h\<lparr>as_cancelled := True\<rparr>) (set_session None s))"

text \<open>The running session ends; one of clients has stored its result just before.\<close>

definition session_ends :: "error + unit \<Rightarrow> repl_app \<Rightarrow> repl_app" where
  "session_ends r s =
     (case mx_value (ra_session s) of
        None \<Rightarrow> s
      | Some h \<Rightarrow> set_session (Some (h\<lparr>as_result := Some r\<rparr>)) s)"

definition store_benchmark :: "benchmark_result \<Rightarrow> repl_app \<Rightarrow> repl_app" where
  "store_benchmark r s = s\<lparr>ra_benchmark := (ra_benchmark s)\<lparr>mx_value := Some r\<rparr>\<rparr>"

datatype 'app repl_request =
    PollOkRequest
  | StartClientRequest
  | StartReplicaRequest "error + 'app"
  | TakeResultRequest
  | StopReplicaRequest
  | StoreResult benchmark_result
  | SessionEnds "error + unit"

fun repl_step :: "'app repl_request \<Rightarrow> repl_app \<Rightarrow> (unit, repl_app) outcome" where
  "repl_step PollOkRequest s = poll_ok s"
| "repl_step StartClientRequest s = start_client s"
| "repl_step (StartReplicaRequest init) s = start_replica init s"
| "repl_step TakeResultRequest s = and_then (take_benchmark_result s) (\<lambda>_. Ok ())"
| "repl_step StopReplicaRequest s = and_then (stop_replica s) (\<lambda>_. Ok ())"
| "repl_step (StoreResult r) s = Ok () (store_benchmark r s)"
| "repl_step (SessionEnds r) s = Ok () (session_ends r s)"

definition repl_run :: "'app repl_request list \<Rightarrow> repl_app \<Rightarrow> repl_app" where
  "repl_run = fold (\<lambda>q s. after (repl_step q s))"

end
