(* ===== verification/Replication_Control.thy ===== *)
theory Replication_Control
  imports Replication_Server
begin

text \<open>
  The controller of the replication benchmarks, \<open>src/tools/replication-control/src/main.rs\<close>, and the
  servers it drives: a server per replica and one for the clients, each a \<open>repl_app\<close>.

  What happens while the controller waits is a list of events: the polls of its watchdogs, the polls
  for the result, and what the sessions do meanwhile. The first poll that fails ends the run. HTTP
  and addresses are outside.
\<close>

section \<open>The servers\<close>

record repl_world =
  rw_replicas :: "repl_app list"
  rw_client :: repl_app

definition world_new :: repl_world where
  "world_new = \<lparr>rw_replicas = replicate 4 repl_app_new, rw_client = repl_app_new\<rparr>"

definition set_replica :: "nat \<Rightarrow> repl_world \<Rightarrow> repl_app \<Rightarrow> repl_world" where
  "set_replica i w s = w\<lparr>rw_replicas := (rw_replicas w)[i := s]\<rparr>"

definition set_client :: "repl_world \<Rightarrow> repl_app \<Rightarrow> repl_world" where
  "set_client w s = w\<lparr>rw_client := s\<rparr>"

section \<open>One benchmark\<close>

datatype ycsb_profile = ProfileA | ProfileB | ProfileC | ProfileD | ProfileE | ProfileF

definition session_num_replica :: "repl_protocol \<Rightarrow> usize" where
  "session_num_replica protocol = (case protocol of ProtocolUnreplicated \<Rightarrow> 1 | _ \<Rightarrow> 4)"

definition session_num_faulty :: "repl_protocol \<Rightarrow> usize" where
  "session_num_faulty protocol = (case protocol of ProtocolUnreplicated \<Rightarrow> 0 | _ \<Rightarrow> 1)"

text \<open>Both loops over the four servers stop after the first one when there is no replication.\<close>

definition session_replicas :: "repl_protocol \<Rightarrow> nat list" where
  "session_replicas protocol = (case protocol of ProtocolUnreplicated \<Rightarrow> [0] | _ \<Rightarrow> [0..<4])"

definition session_replica_config ::
  "repl_protocol \<Rightarrow> repl_app_config \<Rightarrow> 'a list \<Rightarrow> nat \<Rightarrow> 'a replica_config" where
  "session_replica_config protocol app replica_addrs replica_id =
     \<lparr>rc_protocol = protocol, rc_app = app, rc_replica_id = of_nat replica_id,
      rc_replica_addrs = replica_addrs, rc_num_replica = session_num_replica protocol,
      rc_num_faulty = session_num_faulty protocol\<rparr>"

definition session_client_config :: "repl_protocol \<Rightarrow> repl_app_config \<Rightarrow> 'a list \<Rightarrow> 'a client_config" where
  "session_client_config protocol app replica_addrs =
     \<lparr>cc_protocol = protocol, cc_app = app, cc_num_close_loop = 4, cc_replica_addrs = replica_addrs,
      cc_num_replica = session_num_replica protocol, cc_num_faulty = session_num_faulty protocol\<rparr>"

text \<open>\<open>init\<close> is how the application of a replica starts from its configuration.\<close>

fun start_replicas ::
  "('a replica_config \<Rightarrow> error + 'app) \<Rightarrow> (nat \<Rightarrow> 'a replica_config) \<Rightarrow> nat list \<Rightarrow> repl_world \<Rightarrow>
   (unit, repl_world) outcome" where
  "start_replicas init config [] w = Ok () w"
| "start_replicas init config (i # is) w =
     and_then (lift_outcome (set_replica i w) (start_replica (init (config i)) (rw_replicas w ! i)))
       (\<lambda>_. start_replicas init config is)"

datatype control_event =
    PollReplica nat
  | PollClient
  | PollResult
  | ClientStores benchmark_result
  | ClientEnds "error + unit"
  | ReplicaEnds nat "error + unit"

text \<open>\<open>session.0.await.unwrap().unwrap()\<close>: a session that still runs here is about to end well.\<close>

definition awaited :: "app_session \<Rightarrow> 'v \<Rightarrow> 's \<Rightarrow> ('v, 's) outcome" where
  "awaited h v s = (case await_session h of Some (Inl e) \<Rightarrow> Err e s | _ \<Rightarrow> Ok v s)"

text \<open>The result if one of the polls takes it, \<open>None\<close> if the controller still waits.\<close>

fun wait_result :: "control_event list \<Rightarrow> repl_world \<Rightarrow> (benchmark_result option, repl_world) outcome" where
  "wait_result [] w = Ok None w"
| "wait_result (PollReplica i # es) w =
     and_then (lift_outcome (set_replica i w) (poll_ok (rw_replicas w ! i))) (\<lambda>_. wait_result es)"
| "wait_result (PollClient # es) w =
     and_then (lift_outcome (set_client w) (poll_ok (rw_client w))) (\<lambda>_. wait_result es)"
| "wait_result (PollResult # es) w =
     and_then (lift_outcome (set_client w) (take_benchmark_result (rw_client w)))
       (\<lambda>taken w1. case taken of None \<Rightarrow> wait_result es w1 | Some (r, h) \<Rightarrow> awaited h (Some r) w1)"
| "wait_result (ClientStores r # es) w = wait_result es (set_client w (store_benchmark r (rw_client w)))"
| "wait_result (ClientEnds r # es) w = wait_result es (set_client w (session_ends r (rw_client w)))"
| "wait_result (ReplicaEnds i r # es) w =
     wait_result es (set_replica i w (session_ends r (rw_replicas w ! i)))"

fun stop_replicas :: "nat list \<Rightarrow> repl_world \<Rightarrow> (unit, repl_world) outcome" where
  "stop_replicas [] w = Ok () w"
| "stop_replicas (i # is) w =
     and_then (lift_outcome (set_replica i w) (stop_replica (rw_replicas w ! i)))
       (\<lambda>h w1. and_then (awaited h () w1) (\<lambda>_. stop_replicas is))"

fun replica_event :: "control_event \<Rightarrow> bool" where
  "replica_event (PollReplica i) \<longleftrightarrow> True"
| "replica_event (ReplicaEnds i r) \<longleftrightarrow> True"
| "replica_event _ \<longleftrightarrow> False"

text \<open>
  \<open>early\<close> is what happens in the 1.2 seconds before the clients start, when only the replicas are
  watched; \<open>events\<close> is what happens after.
\<close>

definition benchmark_session ::
  "('a replica_config \<Rightarrow> error + 'app) \<Rightarrow> 'a list \<Rightarrow> control_event list \<Rightarrow> control_event list \<Rightarrow>
   repl_protocol \<Rightarrow> repl_app_config \<Rightarrow> repl_world \<Rightarrow> (benchmark_result option, repl_world) outcome" where
  "benchmark_session init replica_addrs early events protocol app w =
     and_then (start_replicas init (session_replica_config protocol app replica_addrs) (session_replicas protocol) w)
       (\<lambda>_ w1. and_then (wait_result (filter replica_event early) w1)
       (\<lambda>_ w2. and_then (lift_outcome (set_client w2) (start_client (rw_client w2)))
       (\<lambda>_ w3. and_then (wait_result events w3)
       (\<lambda>result w4. case result of
            None \<Rightarrow> Ok None w4
          | Some r \<Rightarrow> and_then (stop_replicas (session_replicas protocol) w4) (\<lambda>_. Ok (Some r))))))"

text \<open>
  The profiles one after the other, each with what happens in its two phases, and the results so far
  if one still waits.
\<close>

fun benchmark_profiles ::
  "(ycsb_profile \<Rightarrow> 'a replica_config \<Rightarrow> error + 'app) \<Rightarrow> 'a list \<Rightarrow> repl_protocol \<Rightarrow>
   (ycsb_profile \<times> control_event list \<times> control_event list) list \<Rightarrow> repl_world \<Rightarrow>
   (benchmark_result list, repl_world) outcome" where
  "benchmark_profiles init replica_addrs protocol [] w = Ok [] w"
| "benchmark_profiles init replica_addrs protocol ((profile, early, events) # rest) w =
     and_then (benchmark_session (init profile) replica_addrs early events protocol
         (ConfigYcsb BackendBTree 1000) w)
       (\<lambda>result w1. case result of
            None \<Rightarrow> Ok [] w1
          | Some r \<Rightarrow> and_then (benchmark_profiles init replica_addrs protocol rest w1) (\<lambda>rs. Ok (r # rs)))"

definition control_profiles :: "ycsb_profile list" where
  "control_profiles = [ProfileA, ProfileB, ProfileC, ProfileD, ProfileE, ProfileF]"

section \<open>Waiting\<close>

definition running_app :: repl_app where
  "running_app = set_session (Some app_session_new) repl_app_new"

definition running_world :: "repl_protocol \<Rightarrow> repl_world" where
  "running_world protocol =
     \<lparr>rw_replicas = (case protocol of
        ProtocolUnreplicated \<Rightarrow> running_app # replicate 3 repl_app_new | _ \<Rightarrow> replicate 4 running_app),
      rw_client = repl_app_new\<rparr>"

lemmas app_defs = start_replica_def start_client_def replace_session_def stop_replica_def running_app_def
  set_session_def repl_app_new_def app_session_new_def poll_ok_def await_session_def take_benchmark_result_def
  store_benchmark_def session_ends_def panic_holding_def poison_error_def

text \<open>Events that change nothing.\<close>

fun skips :: "repl_world \<Rightarrow> control_event \<Rightarrow> bool" where
  "skips w (PollReplica i) \<longleftrightarrow> i < length (rw_replicas w) \<and> poll_ok (rw_replicas w ! i) = Ok () (rw_replicas w ! i)"
| "skips w PollClient \<longleftrightarrow> poll_ok (rw_client w) = Ok () (rw_client w)"
| "skips w PollResult \<longleftrightarrow> take_benchmark_result (rw_client w) = Ok None (rw_client w)"
| "skips w _ \<longleftrightarrow> False"

lemma wait_skips: "list_all (skips w) es \<Longrightarrow> wait_result (es @ rest) w = wait_result rest w"
proof (induction es)
  case (Cons e es)
  then show ?case by (cases e) (simp_all add: set_replica_def set_client_def)
qed simp

lemma wait_skips_all: "list_all (skips w) es \<Longrightarrow> wait_result es w = Ok None w"
  using wait_skips [of w es "[]"] by simp

definition replica_polls :: "repl_protocol \<Rightarrow> control_event list \<Rightarrow> bool" where
  "replica_polls protocol es \<longleftrightarrow> set es \<subseteq> PollReplica ` set (session_replicas protocol)"

definition polls :: "repl_protocol \<Rightarrow> control_event list \<Rightarrow> bool" where
  "polls protocol es \<longleftrightarrow> set es \<subseteq> insert PollClient (PollReplica ` set (session_replicas protocol))"

definition all_polls :: "repl_protocol \<Rightarrow> control_event list \<Rightarrow> bool" where
  "all_polls protocol es \<longleftrightarrow> set es \<subseteq> insert PollResult (insert PollClient (PollReplica ` set (session_replicas protocol)))"

text \<open>
  A regular wait: the clients' result is stored, and if the clients' session ends before it is asked
  for, only the replicas are polled in between. Until the result is taken nothing else happens than
  polls of the servers that were started: no session of a replica ends, and that of the clients only
  well and after its result is stored.
\<close>

definition regular :: "repl_protocol \<Rightarrow> benchmark_result \<Rightarrow> control_event list \<Rightarrow> bool" where
  "regular protocol r es \<longleftrightarrow> (\<exists>before between rest. all_polls protocol before \<and> polls protocol between \<and>
     (es = before @ ClientStores r # between @ PollResult # rest \<or>
      (\<exists>final. replica_polls protocol final \<and>
         es = before @ ClientStores r # between @ ClientEnds (Inr ()) # final @ PollResult # rest)))"

text \<open>The other one: the clients' watchdog polls between the end of their session and the poll for the result.\<close>

definition clashing :: "repl_protocol \<Rightarrow> benchmark_result \<Rightarrow> control_event list \<Rightarrow> bool" where
  "clashing protocol r es \<longleftrightarrow> (\<exists>before between final more rest. all_polls protocol before \<and>
     polls protocol between \<and> replica_polls protocol final \<and> polls protocol more \<and>
     es = before @ ClientStores r # between @ ClientEnds (Inr ()) # final @ PollClient # more @ PollResult # rest)"

definition client_world :: "repl_protocol \<Rightarrow> repl_app \<Rightarrow> repl_world" where
  "client_world protocol c = set_client (running_world protocol) c"

lemma replica_skips:
  assumes "i \<in> set (session_replicas protocol)"
  shows "skips (client_world protocol c) (PollReplica i)"
proof -
  have "i < 4" and "protocol = ProtocolUnreplicated \<Longrightarrow> i = 0"
    using assms by (auto simp: session_replicas_def split: repl_protocol.splits)
  then show ?thesis
    by (cases protocol) (auto simp: client_world_def set_client_def running_world_def app_defs)
qed

lemma polls_skip:
  "replica_polls protocol es \<Longrightarrow> list_all (skips (client_world protocol c)) es"
  "polls protocol es \<Longrightarrow> poll_ok c = Ok () c \<Longrightarrow> list_all (skips (client_world protocol c)) es"
  "all_polls protocol es \<Longrightarrow> poll_ok c = Ok () c \<Longrightarrow> take_benchmark_result c = Ok None c \<Longrightarrow>
   list_all (skips (client_world protocol c)) es"
  using replica_skips [of _ protocol c]
  by (force simp: list_all_iff replica_polls_def polls_def all_polls_def client_world_def set_client_def)+

lemma client_world_simps [simp]:
  "set_client (client_world protocol c) c' = client_world protocol c'"
  "rw_client (client_world protocol c) = c"
  by (simp_all add: client_world_def set_client_def)

lemma running_app_polls: "poll_ok running_app = Ok () running_app" "take_benchmark_result running_app = Ok None running_app"
  by (simp_all add: app_defs)

lemma stored_app_polls: "poll_ok (store_benchmark r running_app) = Ok () (store_benchmark r running_app)"
  by (simp add: app_defs)

lemma wait_until_stored:
  assumes "all_polls protocol before" and "polls protocol between"
  shows "wait_result (before @ ClientStores r # between @ es) (client_world protocol running_app) =
    wait_result es (client_world protocol (store_benchmark r running_app))"
  using wait_skips [OF polls_skip(3) [OF assms(1) running_app_polls]]
    wait_skips [OF polls_skip(2) [OF assms(2) stored_app_polls]] by simp

lemma wait_regular:
  assumes "regular protocol r es"
  shows "wait_result es (client_world protocol running_app) = Ok (Some r) (client_world protocol repl_app_new)"
proof -
  from assms obtain before between rest where p: "all_polls protocol before" "polls protocol between"
    and "es = before @ ClientStores r # between @ PollResult # rest \<or>
      (\<exists>final. replica_polls protocol final \<and>
         es = before @ ClientStores r # between @ ClientEnds (Inr ()) # final @ PollResult # rest)"
    unfolding regular_def by blast
  then consider "es = before @ ClientStores r # between @ PollResult # rest"
    | final where "replica_polls protocol final"
      "es = before @ ClientStores r # between @ ClientEnds (Inr ()) # final @ PollResult # rest" by blast
  then show ?thesis
  proof cases
    case 1
    then show ?thesis using wait_until_stored [OF p] by (simp add: app_defs awaited_def)
  next
    case 2
    then show ?thesis
      using wait_until_stored [OF p] wait_skips [OF polls_skip(1) [OF 2(1)]] by (simp add: app_defs awaited_def)
  qed
qed

text \<open>The clash costs the clients' server its session.\<close>

definition lost_app :: repl_app where
  "lost_app = repl_app_new\<lparr>ra_session := \<lparr>mx_value = None, mx_poisoned = True\<rparr>\<rparr>"

lemma wait_clashing:
  assumes "clashing protocol r es"
  shows "wait_result es (client_world protocol running_app) =
    Err (Panic ''called Option::unwrap() on a None value'') (client_world protocol lost_app)"
proof -
  from assms obtain before between final more rest where p: "all_polls protocol before" "polls protocol between"
    "replica_polls protocol final" "polls protocol more"
    and es: "es = before @ ClientStores r # between @ ClientEnds (Inr ()) # final @ PollClient # more @ PollResult # rest"
    unfolding clashing_def by blast
  let ?c = "store_benchmark r repl_app_new"
  have "poll_ok ?c = Ok () ?c" by (simp add: app_defs)
  from wait_skips [OF polls_skip(2) [OF p(4) this]] wait_skips [OF polls_skip(1) [OF p(3)]]
  show ?thesis using wait_until_stored [OF p(1,2)] by (simp add: es app_defs lost_app_def)
qed

section \<open>The properties\<close>

lemma session_replicas_list:
  "session_replicas ProtocolUnreplicated = [0]" "session_replicas ProtocolPbft = [0, 1, 2, 3]"
  by (simp_all add: session_replicas_def upt_rec)

lemma replicas_start:
  assumes "\<forall>i \<in> set (session_replicas protocol). \<not> isl (init (config i))"
  shows "start_replicas init config (session_replicas protocol) world_new = Ok () (running_world protocol)"
  using assms
  by (cases protocol)
    (auto simp: session_replicas_list world_new_def running_world_def set_replica_def app_defs numeral_eq_Suc
      split: sum.splits)

lemma replicas_stop:
  "stop_replicas (session_replicas protocol) (client_world protocol repl_app_new) = Ok () world_new"
  by (cases protocol)
    (simp_all add: session_replicas_list world_new_def client_world_def set_client_def running_world_def
      set_replica_def app_defs awaited_def numeral_eq_Suc)

lemma second_start_panics:
  "\<exists>m w. start_replicas init config (session_replicas protocol) (client_world protocol c) = Err (Panic m) w"
  by (cases protocol; cases "init (config 0)")
    (auto simp: session_replicas_list client_world_def set_client_def running_world_def app_defs)

lemma until_events:
  assumes "\<forall>i \<in> set (session_replicas protocol). \<not> isl (init (session_replica_config protocol app replica_addrs i))"
    and "replica_polls protocol (filter replica_event early)"
  shows "benchmark_session init replica_addrs early events protocol app world_new =
    and_then (wait_result events (client_world protocol running_app))
      (\<lambda>result w4. case result of
          None \<Rightarrow> Ok None w4
        | Some r \<Rightarrow> and_then (stop_replicas (session_replicas protocol) w4) (\<lambda>_. Ok (Some r)))"
proof -
  have w: "running_world protocol = client_world protocol repl_app_new"
    by (simp add: client_world_def set_client_def running_world_def)
  have c: "start_client repl_app_new = Ok () running_app" by (simp add: app_defs)
  show ?thesis
    using wait_skips_all [OF polls_skip(1) [OF assms(2)]]
    by (simp add: benchmark_session_def replicas_start [OF assms(1)] w c)
qed

text \<open>A replica whose session fails. If the session of a replica ends with an error before the result
  is taken, the benchmark fails: in the replica's watchdog, or when it is stopped, its server panics
  over the error.\<close>

definition session_panic :: error where
  "session_panic = Panic ''called Result::unwrap() on an Err value''"

definition ended_world :: "repl_protocol \<Rightarrow> nat \<Rightarrow> error \<Rightarrow> repl_app \<Rightarrow> repl_world" where
  "ended_world protocol i e c =
     set_replica i (client_world protocol c) (session_ends (Inl e) (rw_replicas (client_world protocol c) ! i))"

lemma ended_world_poll:
  assumes "i \<in> set (session_replicas protocol)" and "j \<in> set (session_replicas protocol)"
  shows "wait_result (PollReplica j # es) (ended_world protocol i e c) =
    (if j = i then Err session_panic (set_replica i (client_world protocol c) repl_app_new)
     else wait_result es (ended_world protocol i e c))"
  using assms
  by (cases protocol)
    (auto simp: session_replicas_list ended_world_def client_world_def set_client_def running_world_def
      set_replica_def app_defs session_panic_def numeral_eq_Suc)

lemma ended_world_polls:
  assumes "i \<in> set (session_replicas protocol)" and "replica_polls protocol final"
  shows "(\<exists>w. wait_result (final @ es) (ended_world protocol i e c) = Err session_panic w) \<or>
    wait_result (final @ es) (ended_world protocol i e c) = wait_result es (ended_world protocol i e c)"
  using assms(2)
proof (induction final)
  case (Cons x final)
  from Cons.prems obtain j where j: "x = PollReplica j" "j \<in> set (session_replicas protocol)"
    and "replica_polls protocol final" by (auto simp: replica_polls_def)
  with Cons.IH ended_world_poll [OF assms(1) j(2), of "final @ es" e c] show ?case
    by (cases "j = i") (auto simp del: wait_result.simps)
qed simp

lemma ended_world_stop:
  assumes "i \<in> set (session_replicas protocol)"
  shows "\<exists>w. stop_replicas (session_replicas protocol) (ended_world protocol i e repl_app_new) = Err session_panic w"
  using assms
  by (cases protocol)
    (auto simp: session_replicas_list ended_world_def client_world_def set_client_def running_world_def
      set_replica_def app_defs awaited_def session_panic_def numeral_eq_Suc)

lemma ended_world_result:
  assumes "i \<in> set (session_replicas protocol)"
  shows "wait_result (PollResult # es) (ended_world protocol i e (store_benchmark r running_app)) =
    Ok (Some r) (ended_world protocol i e repl_app_new)"
  using assms
  by (cases protocol)
    (auto simp: session_replicas_list ended_world_def client_world_def set_client_def running_world_def
      set_replica_def app_defs awaited_def numeral_eq_Suc)

theorem replica_error_fails_benchmark:
  assumes "\<forall>i \<in> set (session_replicas protocol). \<not> isl (init (session_replica_config protocol app replica_addrs i))"
    and "replica_polls protocol (filter replica_event early)" and "all_polls protocol before"
    and "polls protocol between" and "i \<in> set (session_replicas protocol)" and "replica_polls protocol final"
    and "events = before @ ClientStores r # between @ ReplicaEnds i (Inl e) # final @ PollResult # rest"
  shows "\<exists>w. benchmark_session init replica_addrs early events protocol app world_new = Err session_panic w"
proof -
  let ?ended = "ended_world protocol i e (store_benchmark r running_app)"
  let ?wait = "wait_result (final @ PollResult # rest) ?ended"
  have wait: "wait_result events (client_world protocol running_app) = ?wait"
    using wait_until_stored [OF assms(3,4)] by (simp add: assms(7) ended_world_def)
  from ended_world_polls [OF assms(5,6), of "PollResult # rest" e "store_benchmark r running_app"]
  consider w where "?wait = Err session_panic w"
    | "?wait = Ok (Some r) (ended_world protocol i e repl_app_new)"
    unfolding ended_world_result [OF assms(5)] by blast
  then show ?thesis
  proof cases
    case 1
    then show ?thesis by (simp add: until_events [OF assms(1,2)] wait)
  next
    case 2
    with ended_world_stop [OF assms(5), of e] show ?thesis
      by (auto simp: until_events [OF assms(1,2)] wait)
  qed
qed

text \<open>C38: benchmarks one after the other. Suppose that in every benchmark no application fails to start,
  no session of a replica ends before it is stopped, the clients store their result and their session
  ends, if it does, well and afterwards, the watchdogs poll the servers that were started, in any
  order and number, and none of them asks the clients' server between the end of the clients' session
  and the poll that takes the result. Then every benchmark of a run ends with the result that its
  clients stored, and leaves all servers as they were at first, for any number of benchmarks. (A
  replica's session that ends with an error fails the benchmark, see above; the poll in between
  ruins it, see below.)\<close>

theorem benchmarks_repeat:
  assumes "\<forall>(profile, early, events, r) \<in> set runs. replica_polls protocol (filter replica_event early) \<and>
      regular protocol r events \<and> (\<forall>i \<in> set (session_replicas protocol).
        \<not> isl (init profile (session_replica_config protocol (ConfigYcsb BackendBTree 1000) replica_addrs i)))"
  shows "benchmark_profiles init replica_addrs protocol (map (\<lambda>(profile, early, events, r). (profile, early, events)) runs)
      world_new = Ok (map (\<lambda>(profile, early, events, r). r) runs) world_new"
  using assms
proof (induction runs)
  case (Cons run runs)
  obtain profile early events r where run: "run = (profile, early, events, r)" by (cases run)
  from Cons.prems have this_run: "replica_polls protocol (filter replica_event early)" "regular protocol r events"
    "\<forall>i \<in> set (session_replicas protocol).
       \<not> isl (init profile (session_replica_config protocol (ConfigYcsb BackendBTree 1000) replica_addrs i))"
    by (auto simp: run)
  have "benchmark_session (init profile) replica_addrs early events protocol (ConfigYcsb BackendBTree 1000) world_new =
      Ok (Some r) world_new"
    by (simp add: until_events [OF this_run(3,1)] wait_regular [OF this_run(2)] replicas_stop)
  with Cons show ?case by (simp add: run)
qed simp

definition result_a :: benchmark_result where
  "result_a = \<lparr>br_throughput = 9, br_latency = 2\<rparr>"

definition result_b :: benchmark_result where
  "result_b = \<lparr>br_throughput = 8, br_latency = 3\<rparr>"

theorem benchmarks_repeat_witness:
  "benchmark_profiles (\<lambda>_ _. Inr ()) [10, 20, 30, 40 :: nat] ProtocolPbft
     [(ProfileA, [PollReplica 3], [PollClient, ClientStores result_a, PollReplica 2, PollResult]),
      (ProfileB, [], [PollResult, ClientStores result_b, PollClient, ClientEnds (Inr ()), PollReplica 1, PollResult])]
     world_new = Ok [result_a, result_b] world_new"
proof -
  have 1: "regular ProtocolPbft result_a [PollClient, ClientStores result_a, PollReplica 2, PollResult]"
    unfolding regular_def
    by (rule exI [of _ "[PollClient]"], rule exI [of _ "[PollReplica 2]"], rule exI [of _ "[]"])
      (simp add: all_polls_def polls_def session_replicas_list)
  have 2: "regular ProtocolPbft result_b
      [PollResult, ClientStores result_b, PollClient, ClientEnds (Inr ()), PollReplica 1, PollResult]"
    unfolding regular_def
    by (rule exI [of _ "[PollResult]"], rule exI [of _ "[PollClient]"], rule exI [of _ "[]"], intro conjI disjI2,
        simp_all add: all_polls_def polls_def session_replicas_list)
      (simp add: replica_polls_def session_replicas_list)
  show ?thesis
    using benchmarks_repeat [of "[(ProfileA, [PollReplica 3], [PollClient, ClientStores result_a, PollReplica 2, PollResult], result_a),
        (ProfileB, [], [PollResult, ClientStores result_b, PollClient, ClientEnds (Inr ()), PollReplica 1, PollResult], result_b)]"
        ProtocolPbft "\<lambda>_ _. Inr ()" "[10, 20, 30, 40 :: nat]"] 1 2
    by (simp add: replica_polls_def session_replicas_list del: set_filter benchmark_profiles.simps)
qed

text \<open>C39: A watchdog can ruin a run. If the clients' watchdog asks their server after the clients' session has
  ended and before the result is taken, the result is lost: the benchmark ends with an error, the
  clients' server is poisoned, the replicas are not stopped, and the next benchmark fails as well.\<close>

theorem watchdog_ruins_benchmark:
  fixes init :: "'a replica_config \<Rightarrow> error + 'app"
  assumes "\<forall>i \<in> set (session_replicas protocol). \<not> isl (init (session_replica_config protocol app replica_addrs i))"
    and "replica_polls protocol (filter replica_event early)" and "clashing protocol r events"
  shows "\<exists>m w. benchmark_session init replica_addrs early events protocol app world_new = Err (Panic m) w \<and>
    mx_poisoned (ra_session (rw_client w)) \<and>
    (\<forall>(init' :: 'a replica_config \<Rightarrow> error + 'app) early' events' app'. \<exists>m' w'.
       benchmark_session init' replica_addrs early' events' protocol app' w = Err (Panic m') w')"
proof -
  have again: "\<exists>m' w'. benchmark_session init' replica_addrs early' events' protocol app' (client_world protocol lost_app) =
      Err (Panic m') w'" for init' :: "'a replica_config \<Rightarrow> error + 'app" and early' events' app'
    using second_start_panics [of init' "session_replica_config protocol app' replica_addrs" protocol lost_app]
    by (auto simp: benchmark_session_def)
  show ?thesis
    using again by (simp add: until_events [OF assms(1,2)] wait_clashing [OF assms(3)]) (simp add: lost_app_def)
qed

theorem watchdog_ruins_benchmark_witness:
  "\<exists>m w. benchmark_session (\<lambda>_. Inr ()) [10 :: nat] [] [ClientStores result_a, ClientEnds (Inr ()), PollClient, PollResult]
    ProtocolUnreplicated ConfigNull world_new = Err (Panic m) w \<and> mx_poisoned (ra_session (rw_client w))"
proof -
  have "clashing ProtocolUnreplicated result_a [ClientStores result_a, ClientEnds (Inr ()), PollClient, PollResult]"
    unfolding clashing_def
    by (rule exI [of _ "[]"], rule exI [of _ "[]"], rule exI [of _ "[]"], rule exI [of _ "[]"], rule exI [of _ "[]"])
      (simp add: all_polls_def polls_def replica_polls_def)
  from watchdog_ruins_benchmark [OF _ _ this, of "\<lambda>_. Inr ()" ConfigNull "[10]" "[]"] show ?thesis
    by (simp add: replica_polls_def) blast
qed

end
