(* ===== verification/Replication_Correct.thy ===== *)
theory Replication_Correct
  imports Replication_Server
begin

text \<open>
  The replication server: what a replica's application holds before it serves, exactly which requests
  make the server unusable, and the poll that does so in a regular benchmark.
\<close>

section \<open>Loading the records\<close>

definition ser_of :: "(ycsb_op, ycsb_result) codec \<Rightarrow> ycsb_op \<Rightarrow> payload" where
  "ser_of c op = (case enc_op c op of Inl e \<Rightarrow> [] | Inr b \<Rightarrow> b)"

lemma ser_of:
  assumes "codec_ok c"
  shows "enc_op c op = Inr (ser_of c op)" "dec_op c (ser_of c op) = Inr op"
proof -
  from assms obtain b where "enc_op c op = Inr b" "dec_op c b = Inr op" by (auto simp: codec_ok_def)
  then show "enc_op c op = Inr (ser_of c op)" "dec_op c (ser_of c op) = Inr op" by (simp_all add: ser_of_def)
qed

lemma length_draw_chars: "length (fst (draw_chars lib n rng)) = n"
  by (induction n arbitrary: rng) (auto simp: Let_def split_beta)

text \<open>One insert of the startup: the next key, with copies of one value of the fixed length.\<close>

lemma startup_insert_constant:
  assumes "yw_field_length (fst s) = GConstant n" and "0 < n"
  shows "\<exists>v rng. length v = n \<and> startup_insert lib s =
    Some (Ok (Insert (build_key_name lib (yw_settings (fst s)) (yw_insert_key_num (fst s)))
        (replicate (ws_field_count (yw_settings (fst s))) v))
      (fst s\<lparr>yw_insert_key_num := yw_insert_key_num (fst s) + 1, yw_rng := rng\<rparr>, snd s))"
proof -
  obtain cs rng where cs: "draw_chars lib n (yw_rng (fst s)) = (cs, rng)"
    by (cases "draw_chars lib n (yw_rng (fst s))")
  with length_draw_chars [of lib n "yw_rng (fst s)"] have "length cs = n" by simp
  with cs assms show ?thesis
    by (intro exI [of _ cs] exI [of _ rng])
      (simp add: startup_insert_def build_value_def with_rng_def Let_def)
qed

definition startup_records ::
  "('r, 'w) ycsb_lib \<Rightarrow> workload_settings \<Rightarrow> nat \<Rightarrow> string list \<Rightarrow> users" where
  "startup_records lib settings first vs =
     map (\<lambda>(i, v). (build_key_name lib settings i, replicate (ws_field_count settings) v)) (enumerate first vs)"

definition inserts :: "(ycsb_op, ycsb_result) codec \<Rightarrow> users \<Rightarrow> payload list" where
  "inserts c recs = map (\<lambda>(k, fields). ser_of c (Insert k fields)) recs"

lemma startup_take_constant:
  assumes "codec_ok c" and "yw_field_length (fst s) = GConstant n" and "0 < n"
  shows "\<exists>vs s'. length vs = m \<and> list_all (\<lambda>v. length v = n) vs \<and>
    startup_take lib (enc_op c) m s =
      Some (Ok (inserts c (startup_records lib (yw_settings (fst s)) (yw_insert_key_num (fst s)) vs)) s')"
  using assms(2)
proof (induction m arbitrary: s)
  case 0
  then show ?case by (simp add: startup_records_def inserts_def)
next
  case (Suc m)
  from startup_insert_constant [OF Suc.prems assms(3), of lib] obtain v rng where v: "length v = n"
    "startup_insert lib s =
      Some (Ok (Insert (build_key_name lib (yw_settings (fst s)) (yw_insert_key_num (fst s)))
          (replicate (ws_field_count (yw_settings (fst s))) v))
        (fst s\<lparr>yw_insert_key_num := yw_insert_key_num (fst s) + 1, yw_rng := rng\<rparr>, snd s))" by blast
  let ?s = "(fst s\<lparr>yw_insert_key_num := yw_insert_key_num (fst s) + 1, yw_rng := rng\<rparr>, snd s)"
  have "yw_field_length (fst ?s) = GConstant n" using Suc.prems by simp
  from Suc.IH [OF this] obtain vs s' where vs: "length vs = m" "list_all (\<lambda>v. length v = n) vs"
    "startup_take lib (enc_op c) m ?s =
      Some (Ok (inserts c (startup_records lib (yw_settings (fst s)) (yw_insert_key_num (fst s) + 1) vs)) s')"
    by auto
  show ?case
    by (rule exI [of _ "v # vs"], rule exI [of _ s'])
      (use v vs ser_of(1) [OF assms(1), of "Insert (build_key_name lib (yw_settings (fst s)) (yw_insert_key_num (fst s)))
          (replicate (ws_field_count (yw_settings (fst s))) v)"] in \<open>simp add: startup_records_def inserts_def\<close>)
qed

lemma ycsb_new_startup:
  assumes "1 < record_count" and "yl_weighted_new lib [95 / 100, 5 / 100, 0, 0, 0] = Inr w"
  shows "\<exists>s. ycsb_new lib rng (settings_new record_count) = Inr s \<and>
    yw_field_length (fst s) = GConstant 100 \<and> yw_insert_key_num (fst s) = 0 \<and>
    yw_settings (fst s) = settings_new record_count"
  using assms by (simp add: ycsb_new_def gen_new_def settings_new_def)

section \<open>Both backends\<close>

lemma btree_load:
  assumes "codec_ok c"
  shows "execute_all (replica_app_execute fx sql c) (inserts c recs) (AppBTree m) =
    Inr (AppBTree (fold (\<lambda>(k, v). bt_insert k v) recs m))"
proof (induction recs arbitrary: m)
  case (Cons r recs)
  obtain k v where r: "r = (k, v)" by (cases r)
  from assms obtain out where "enc_result c YOk = Inr out" by (auto simp: codec_ok_def)
  then have "btree_execute fx c (ser_of c (Insert k v)) m = Ok out (bt_insert k v m)"
    by (simp add: btree_execute_def app_execute_def ser_of(2) [OF assms])
  with Cons r show ?case by (simp add: inserts_def)
qed (simp add: inserts_def)

lemma btree_loaded:
  "bt_ok m \<Longrightarrow> distinct (map fst recs) \<Longrightarrow>
   bt_ok (fold (\<lambda>(k, v). bt_insert k v) recs m) \<and>
   map_of (fold (\<lambda>(k, v). bt_insert k v) recs m) = map_of m ++ map_of recs"
proof (induction recs arbitrary: m)
  case (Cons r recs)
  obtain k v where r: "r = (k, v)" by (cases r)
  from Cons.prems have "bt_ok (bt_insert k v m)" by (simp add: bt_insert_ok)
  from Cons.IH [OF this] Cons.prems(2) r have step:
    "bt_ok (fold (\<lambda>(k, v). bt_insert k v) (r # recs) m)"
    "map_of (fold (\<lambda>(k, v). bt_insert k v) (r # recs) m) = map_of (bt_insert k v m) ++ map_of recs"
    by simp_all
  have "map_of recs k = None" using Cons.prems(2) r by (simp add: map_of_eq_None_iff)
  then have "map_of (bt_insert k v m) ++ map_of recs = map_of m ++ map_of (r # recs)"
    unfolding r using Cons.prems(1)
    by (auto simp: fun_eq_iff map_add_def bt_insert_get split: option.split)
  with step show ?case by (intro conjI) (simp_all only:)
qed simp

lemma sqlite_load:
  assumes "codec_ok c" and "sql_documented sql n rows"
  shows "users_ok n (rows db) \<Longrightarrow> distinct (map fst (rows db @ recs)) \<Longrightarrow>
    list_all (\<lambda>(_, fields). length fields = n) recs \<Longrightarrow>
    \<exists>db'. execute_all (replica_app_execute fx sql c) (inserts c recs) (AppSqlite n db) = Inr (AppSqlite n db') \<and>
      rows db' = rows db @ recs"
proof (induction recs arbitrary: db)
  case (Cons r recs)
  obtain k v where r: "r = (k, v)" by (cases r)
  from assms obtain out where out: "enc_result c YOk = Inr out" by (auto simp: codec_ok_def)
  from Cons.prems r have "length v = n" "k \<notin> fst ` set (rows db)" by auto
  from documented_ops(5) [OF assms(2) Cons.prems(1) this] obtain db1 where db1:
    "sql_execute sql (stmt_insert n) (Text k # map Text v) db = Inr (1, db1)" "rows db1 = rows db @ [(k, v)]"
    by blast
  have "users_ok n (rows db1)" using Cons.prems r by (auto simp: users_ok_def db1(2))
  moreover have "distinct (map fst (rows db1 @ recs))" using Cons.prems(2) r by (simp add: db1(2))
  ultimately obtain db' where db':
    "execute_all (replica_app_execute fx sql c) (inserts c recs) (AppSqlite n db1) = Inr (AppSqlite n db')"
    "rows db' = rows db1 @ recs"
    using Cons.IH [of db1] Cons.prems(3) by auto
  have "sqlite_execute fx sql n c (ser_of c (Insert k v)) db = Ok out db1"
    by (simp add: sqlite_execute_def app_execute_def ser_of(2) [OF assms(1)] db1(1) out)
  with db' r show ?case by (simp add: inserts_def db1(2))
qed (simp add: inserts_def)

lemma startup_records_keys:
  assumes "inj_on (\<lambda>i. yl_hash lib (word_of_nat i)) {..<length vs}"
  shows "distinct (map fst (startup_records lib (settings_new rc) 0 vs))"
proof -
  have "inj_on (build_key_name lib (settings_new rc)) {..<length vs}"
    using assms ycsb_key_names [of "settings_new rc" lib] by (auto simp: inj_on_def settings_new_def)
  moreover have "map fst (startup_records lib (settings_new rc) 0 vs) =
      map (build_key_name lib (settings_new rc)) (map fst (enumerate 0 vs))"
    by (auto simp: startup_records_def simp del: map_fst_enumerate)
  ultimately show ?thesis by (simp add: distinct_map atLeast0LessThan)
qed

lemma startup_ops_records:
  assumes "codec_ok c" and "1 < rc" and "yl_weighted_new lib [95 / 100, 5 / 100, 0, 0, 0] = Inr w"
  obtains s vs s' where "ycsb_new lib rng (settings_new rc) = Inr s" "length vs = rc"
    "list_all (\<lambda>v. length v = 100) vs"
    "startup_ops lib (enc_op c) s = Some (Ok (inserts c (startup_records lib (settings_new rc) 0 vs)) s')"
proof -
  from ycsb_new_startup [OF assms(2,3)] obtain s where s: "ycsb_new lib rng (settings_new rc) = Inr s"
    "yw_field_length (fst s) = GConstant 100" "yw_insert_key_num (fst s) = 0"
    "yw_settings (fst s) = settings_new rc" by blast
  from startup_take_constant [OF assms(1) s(2), of rc lib] obtain vs s' where
    "length vs = rc" "list_all (\<lambda>v. length v = 100) vs"
    "startup_take lib (enc_op c) rc s = Some (Ok (inserts c (startup_records lib (settings_new rc) 0 vs)) s')"
    unfolding s(3,4) by auto
  moreover have "ws_record_count (settings_new rc) = rc" by (simp add: settings_new_def)
  ultimately show thesis using that [OF s(1)] by (simp only: startup_ops_def s(4))
qed

lemma init_btree:
  assumes "codec_ok c" and "ycsb_new lib rng (settings_new rc) = Inr s"
    and "startup_ops lib (enc_op c) s = Some (Ok (inserts c recs) s')"
  shows "init_app lib fx sql c rng (ConfigYcsb BackendBTree rc) =
    Some (Inr (AppBTree (fold (\<lambda>(k, v). bt_insert k v) recs [])))"
  using assms by (simp add: init_app_def Let_def btree_load)

lemma init_sqlite:
  assumes "codec_ok c" and "sql_documented sql 10 rows" and "ycsb_new lib rng (settings_new rc) = Inr s"
    and "startup_ops lib (enc_op c) s = Some (Ok (inserts c recs) s')"
    and "distinct (map fst recs)" and "list_all (\<lambda>(_, fields). length fields = 10) recs"
  shows "\<exists>db. init_app lib fx sql c rng (ConfigYcsb BackendSqlite rc) = Some (Inr (AppSqlite 10 db)) \<and> rows db = recs"
proof -
  from assms(2) obtain db n db0 where new: "sql_open sql = Inr db"
    "sql_execute sql (stmt_create 10) [] db = Inr (n, db0)" "rows db0 = []" by (auto simp: sql_documented_def)
  from sqlite_load [OF assms(1,2), of db0 recs fx] assms(5,6) new(3) obtain db' where
    "execute_all (replica_app_execute fx sql c) (inserts c recs) (AppSqlite 10 db0) = Inr (AppSqlite 10 db')"
    "rows db' = recs" by (auto simp: users_ok_def)
  with assms(3,4) new(1,2) show ?thesis by (simp add: init_app_def Let_def sqlite_new_def settings_new_def)
qed

text \<open>C37: A replica has all its records when it starts, on either backend. Starting one for YCSB with more
  than one record, where the keys' hashes do not collide, neither fails nor loops: the application of
  both backends holds exactly one record per key number, of ten copies of one value of a hundred
  characters, and the two represent the same map.\<close>

theorem startup_backends_agree:
  assumes "codec_ok c" and "1 < rc" and "yl_weighted_new lib [95 / 100, 5 / 100, 0, 0, 0] = Inr w"
    and "inj_on (\<lambda>i. yl_hash lib (word_of_nat i)) {..<rc}" and "sql_documented sql 10 rows"
  shows "\<exists>vs m db. length vs = rc \<and> list_all (\<lambda>v. length v = 100) vs \<and>
    init_app lib fx sql c rng (ConfigYcsb BackendBTree rc) = Some (Inr (AppBTree m)) \<and> bt_ok m \<and>
    init_app lib fx sql c rng (ConfigYcsb BackendSqlite rc) = Some (Inr (AppSqlite 10 db)) \<and>
    map_of m = map_of (rows db) \<and>
    rows db = map (\<lambda>(i, v). (build_key_name lib (settings_new rc) i, replicate 10 v)) (enumerate 0 vs)"
proof -
  obtain s vs s' where vs: "ycsb_new lib rng (settings_new rc) = Inr s" "length vs = rc"
    "list_all (\<lambda>v. length v = 100) vs"
    "startup_ops lib (enc_op c) s = Some (Ok (inserts c (startup_records lib (settings_new rc) 0 vs)) s')"
    by (rule startup_ops_records [OF assms(1-3)])
  let ?recs = "startup_records lib (settings_new rc) 0 vs"
  have recs: "?recs = map (\<lambda>(i, v). (build_key_name lib (settings_new rc) i, replicate 10 v)) (enumerate 0 vs)"
    by (simp add: startup_records_def settings_new_def)
  have d: "distinct (map fst ?recs)" by (rule startup_records_keys) (use assms(4) vs(2) in simp)
  have "list_all (\<lambda>(_, fields). length fields = 10) ?recs" by (auto simp: recs list_all_iff)
  from init_sqlite [OF assms(1,5) vs(1,4) d this, of fx] obtain db where
    "init_app lib fx sql c rng (ConfigYcsb BackendSqlite rc) = Some (Inr (AppSqlite 10 db))" "rows db = ?recs"
    by blast
  moreover from btree_loaded [of "[]", OF _ d] have
    "bt_ok (fold (\<lambda>(k, v). bt_insert k v) ?recs [])"
    "map_of (fold (\<lambda>(k, v). bt_insert k v) ?recs []) = map_of ?recs" by (simp_all add: bt_ok_def)
  ultimately show ?thesis using init_btree [OF assms(1) vs(1,4), of fx sql] vs(2,3) recs by metis
qed

theorem startup_backends_agree_witness:
  "\<exists>m db.
    init_app sample_lib length (rows_sql 10) plain_ycsb 5 (ConfigYcsb BackendBTree 3) = Some (Inr (AppBTree m)) \<and>
    init_app sample_lib length (rows_sql 10) plain_ycsb 5 (ConfigYcsb BackendSqlite 3) = Some (Inr (AppSqlite 10 db)) \<and>
    map_of m = map_of db"
proof -
  have inj: "inj_on (\<lambda>i. yl_hash sample_lib (word_of_nat i)) {..<3}"
    by (auto simp: inj_on_def sample_lib_def word_of_nat_eq_iff take_bit_nat_eq_self)
  have weighted: "yl_weighted_new sample_lib [95 / 100, 5 / 100, 0, 0, 0] = Inr ()" by (simp add: sample_lib_def)
  have "1 < (3 :: nat)" by simp
  from startup_backends_agree [OF plain_ycsb_ok this weighted inj rows_sql_documented [of 10, OF zero_less_numeral],
      of length 5]
  show ?thesis by (elim exE conjE) (intro exI conjI, assumption+)
qed

section \<open>Poisoning\<close>

definition benchmark_clean :: "repl_app \<Rightarrow> bool" where
  "benchmark_clean s \<longleftrightarrow> \<not> mx_poisoned (ra_benchmark s)"

text \<open>A request in its place: what the session's mutex does not survive otherwise.\<close>

fun proper :: "'app repl_request \<Rightarrow> repl_app \<Rightarrow> bool" where
  "proper StartClientRequest s \<longleftrightarrow> mx_value (ra_session s) = None"
| "proper (StartReplicaRequest init) s \<longleftrightarrow> mx_value (ra_session s) = None \<and> \<not> isl init"
| "proper StopReplicaRequest s \<longleftrightarrow> mx_value (ra_session s) \<noteq> None"
| "proper TakeResultRequest s \<longleftrightarrow> mx_value (ra_benchmark s) = None \<or> mx_value (ra_session s) \<noteq> None"
| "proper _ s \<longleftrightarrow> True"

lemmas server_defs = poll_ok_def start_client_def start_replica_def take_benchmark_result_def stop_replica_def
  replace_session_def panic_holding_def set_session_def store_benchmark_def session_ends_def

lemma step_poison:
  assumes "benchmark_clean s" and "\<not> mx_poisoned (ra_session s)"
  shows "mx_poisoned (ra_session (after (repl_step q s))) \<longleftrightarrow> \<not> proper q s"
  using assms
  by (cases q) (auto simp: server_defs benchmark_clean_def Let_def split: option.splits sum.splits)

lemma step_benchmark_clean: "benchmark_clean s \<Longrightarrow> benchmark_clean (after (repl_step q s))"
  by (cases q) (auto simp: server_defs benchmark_clean_def Let_def split: option.splits sum.splits)

lemma step_stays_poisoned:
  "mx_poisoned (ra_session s) \<Longrightarrow> mx_poisoned (ra_session (after (repl_step q s)))"
  by (cases q) (auto simp: server_defs Let_def split: option.splits sum.splits)

lemma run_Cons: "repl_run (q # qs) s = repl_run qs (after (repl_step q s))"
  by (simp add: repl_run_def)

lemma run_stays_poisoned: "mx_poisoned (ra_session s) \<Longrightarrow> mx_poisoned (ra_session (repl_run qs s))"
proof (induction qs arbitrary: s)
  case (Cons q qs)
  show ?case unfolding run_Cons by (rule Cons.IH [OF step_stays_poisoned [OF Cons.prems]])
qed (simp add: repl_run_def)

fun all_proper :: "'app repl_request list \<Rightarrow> repl_app \<Rightarrow> bool" where
  "all_proper [] s \<longleftrightarrow> True"
| "all_proper (q # qs) s \<longleftrightarrow> proper q s \<and> all_proper qs (after (repl_step q s))"

lemma run_poisoned_iff:
  "benchmark_clean s \<Longrightarrow> \<not> mx_poisoned (ra_session s) \<Longrightarrow>
   mx_poisoned (ra_session (repl_run qs s)) \<longleftrightarrow> \<not> all_proper qs s"
proof (induction qs arbitrary: s)
  case (Cons q qs)
  note step = step_poison [OF Cons.prems, of q] and clean = step_benchmark_clean [OF Cons.prems(1), of q]
  show ?case
  proof (cases "proper q s")
    case True
    with step Cons.IH [OF clean] show ?thesis by (simp add: run_Cons)
  next
    case False
    with step show ?thesis by (simp add: run_Cons run_stays_poisoned)
  qed
qed (simp add: repl_run_def)

fun needs_session :: "'app repl_request \<Rightarrow> bool" where
  "needs_session PollOkRequest \<longleftrightarrow> True"
| "needs_session StartClientRequest \<longleftrightarrow> True"
| "needs_session (StartReplicaRequest init) \<longleftrightarrow> True"
| "needs_session StopReplicaRequest \<longleftrightarrow> True"
| "needs_session _ \<longleftrightarrow> False"

lemma poisoned_refuses_requests:
  "mx_poisoned (ra_session s) \<Longrightarrow> needs_session q \<Longrightarrow> repl_step q s = Err poison_error s"
  by (cases q) (simp_all add: server_defs)

lemma new_clean: "benchmark_clean repl_app_new" "\<not> mx_poisoned (ra_session repl_app_new)"
  by (simp_all add: benchmark_clean_def repl_app_new_def)

text \<open>When the server is lost. After any requests and session ends, the session's mutex is poisoned
  exactly if some request was out of its place: a start with a session in place, a replica whose
  application does not start, a stop without a session, or a result to take whose session is gone.
  The check stands for the states those requests met, so no other order of requests poisons it.\<close>

theorem session_poisoned_iff:
  "mx_poisoned (ra_session (repl_run qs repl_app_new)) \<longleftrightarrow> \<not> all_proper qs repl_app_new"
  by (rule run_poisoned_iff [OF new_clean])

text \<open>A status poll can cost the server. If the clients' session has ended without an error and its
  result is stored, a poll of \<open>/ok\<close> answers well but removes the session, so taking the result then
  panics and the result is lost; and from there on every request that needs the session panics,
  whatever is asked in between.\<close>

theorem ok_poll_breaks_take:
  assumes "\<not> mx_poisoned (ra_session s)" and "benchmark_clean s"
    and "mx_value (ra_session s) = Some h" and "as_result h = Some (Inr ())"
    and "mx_value (ra_benchmark s) = Some r"
  shows "\<exists>s1 s2 m. poll_ok s = Ok () s1 \<and> take_benchmark_result s1 = Err (Panic m) s2 \<and>
    mx_value (ra_benchmark s2) = None \<and> (\<exists>s3. take_benchmark_result s = Ok (Some (r, h)) s3) \<and>
    (\<forall>(qs :: 'app repl_request list) (q :: 'app repl_request). needs_session q \<longrightarrow> repl_step q (repl_run qs s2) = Err poison_error (repl_run qs s2))"
proof -
  let ?s1 = "set_session None s"
  obtain m s2 where take: "take_benchmark_result ?s1 = Err (Panic m) s2" "mx_value (ra_benchmark s2) = None"
    "mx_poisoned (ra_session s2)"
    using assms by (simp add: server_defs benchmark_clean_def)
  have "poll_ok s = Ok () ?s1" using assms by (simp add: poll_ok_def await_session_def)
  moreover have "\<exists>s3. take_benchmark_result s = Ok (Some (r, h)) s3"
    using assms by (simp add: take_benchmark_result_def benchmark_clean_def)
  ultimately show ?thesis
    using take poisoned_refuses_requests [OF run_stays_poisoned [OF take(3)]] by blast
qed

theorem ok_poll_breaks_take_witness:
  "\<exists>s1 m s2. poll_ok (repl_run [StartClientRequest :: nat repl_request, StoreResult \<lparr>br_throughput = 9, br_latency = 2\<rparr>,
      SessionEnds (Inr ())] repl_app_new) = Ok () s1 \<and> take_benchmark_result s1 = Err (Panic m) s2 \<and>
    repl_step (StopReplicaRequest :: nat repl_request) (repl_run [TakeResultRequest :: nat repl_request] s2) =
      Err poison_error (repl_run [TakeResultRequest :: nat repl_request] s2)"
proof -
  let ?s = "repl_run [StartClientRequest :: nat repl_request, StoreResult \<lparr>br_throughput = 9, br_latency = 2\<rparr>,
      SessionEnds (Inr ())] repl_app_new"
  note defs = repl_run_def repl_app_new_def start_client_def replace_session_def set_session_def store_benchmark_def
    session_ends_def benchmark_clean_def app_session_new_def
  have "\<not> mx_poisoned (ra_session ?s)" "benchmark_clean ?s"
    "mx_value (ra_session ?s) = Some \<lparr>as_result = Some (Inr ()), as_cancelled = False\<rparr>"
    "mx_value (ra_benchmark ?s) = Some \<lparr>br_throughput = 9, br_latency = 2\<rparr>"
    by (simp_all add: defs)
  from ok_poll_breaks_take [where 'app = nat, OF this(1-3) _ this(4)] obtain s1 s2 m where
    "poll_ok ?s = Ok () s1" "take_benchmark_result s1 = Err (Panic m) s2"
    and refused: "\<forall>(qs :: nat repl_request list) (q :: nat repl_request). needs_session q \<longrightarrow>
      repl_step q (repl_run qs s2) = Err poison_error (repl_run qs s2)" by auto
  moreover have "repl_step (StopReplicaRequest :: nat repl_request) (repl_run [TakeResultRequest :: nat repl_request] s2) =
      Err poison_error (repl_run [TakeResultRequest :: nat repl_request] s2)"
    by (rule refused [rule_format]) simp
  ultimately show ?thesis by (intro exI conjI)
qed

section \<open>The benchmark result\<close>

lemma bit_length_le: "n < 2 ^ k \<Longrightarrow> bit_length n \<le> k"
proof (induction k arbitrary: n)
  case 0
  then show ?case by (simp add: bit_length.simps)
next
  case (Suc k)
  then have "n div 2 < 2 ^ k" by (simp add: less_mult_imp_div_less)
  from Suc.IH [OF this] show ?case by (simp add: bit_length.simps [of n])
qed

lemma f32_exact: "n < 2 ^ 24 \<Longrightarrow> f32_of_usize n = n"
  using bit_length_le [of n 24] by (simp add: f32_of_usize_def Let_def)

lemma benchmark_result_exact:
  assumes "length latencies < 2 ^ 24"
  shows "benchmark_result_of latencies =
    Inr \<lparr>br_throughput = length latencies, br_latency = sum_list latencies div (length latencies + 1)\<rparr>"
proof -
  let ?n = "length latencies"
  have "f32_as_u32 ?n + 1 = of_nat (Suc ?n)" using assms by (simp add: f32_as_u32_def)
  moreover have "Suc ?n mod 2 ^ 32 = Suc ?n" using assms by (intro mod_less) simp
  ultimately have "unat (f32_as_u32 ?n + 1) = Suc ?n" by (simp only: unat_of_nat word_size) simp
  with f32_exact [OF assms] show ?thesis by (simp add: benchmark_result_of_def Let_def)
qed

text \<open>The reported latency is below the mean: of \<open>n\<close> operations that take \<open>d\<close> each it is \<open>n * d div (n + 1)\<close>.\<close>

lemma benchmark_latency_low:
  assumes "0 < n" and "n < 2 ^ 24" and "0 < d"
  shows "\<exists>r. benchmark_result_of (replicate n d) = Inr r \<and> br_latency r < d"
proof -
  have "n * d < (n + 1) * d" using assms by simp
  then have "n * d div (n + 1) < d" by (metis div_less_iff_less_mult add_gr_0 less_numeral_extra(1) mult.commute)
  with benchmark_result_exact [of "replicate n d"] assms(2) show ?thesis by (simp add: sum_list_replicate)
qed

end
