(* ===== verification/Replication_Clients.thy ===== *)
theory Replication_Clients
  imports Replication_Control Replication_Correct
begin

text \<open>
  The clients of a benchmark, \<open>client_session\<close> and \<open>spawn_client_sessions\<close> in \<open>src/src/main.rs\<close>: the
  workload of each closed loop, the state it starts with, and the collection of the latencies when
  the second is over. The random client ids, the addresses of the sockets and the order in which the
  loops end are arguments.
\<close>

definition profile_settings :: "ycsb_profile \<Rightarrow> usize \<Rightarrow> workload_settings" where
  "profile_settings profile =
     (case profile of
        ProfileA \<Rightarrow> settings_new_a | ProfileB \<Rightarrow> settings_new_b | ProfileC \<Rightarrow> settings_new_c
      | ProfileD \<Rightarrow> settings_new_d | ProfileE \<Rightarrow> settings_new_e | ProfileF \<Rightarrow> settings_new_f)"

text \<open>\<open>repeat_with(Default::default)\<close>: empty operations without end.\<close>

definition repeat_default :: "(payload, unit) iterator" where
  "repeat_default u = Some ([], u)"

definition null_workload :: "unit op_latency" where
  "null_workload = op_latency_new ()"

text \<open>\<open>rng\<close> is \<open>StdRng::seed_from_u64\<close>. The copies share the insert state, the second component.\<close>

definition ycsb_workloads ::
  "('r, 'w) ycsb_lib \<Rightarrow> (u64 \<Rightarrow> 'r) \<Rightarrow> ycsb_profile \<Rightarrow> usize \<Rightarrow> usize \<Rightarrow> error + ('r, 'w) ycsb_state list" where
  "ycsb_workloads lib rng profile record_count num_close_loop =
     (case ycsb_new lib (rng 117418) (profile_settings profile record_count) of
        Inl e \<Rightarrow> Inl e
      | Inr workload \<Rightarrow> Inr (map (\<lambda>i. clone_reseed (rng (117418 + of_nat i)) workload) [1..<Suc num_close_loop]))"

definition spawn_client ::
  "'a client_config \<Rightarrow> u32 \<Rightarrow> 'a \<Rightarrow> 'w \<Rightarrow> 'a client_machine \<times> ('w, 'at, 'f) close_loop" where
  "spawn_client config client_id addr workload =
     (new_client config client_id addr, close_loop_new open_sink workload open_sink)"

definition spawn_client_sessions ::
  "'a client_config \<Rightarrow> (nat \<Rightarrow> u32) \<Rightarrow> (nat \<Rightarrow> 'a) \<Rightarrow> 'w list \<Rightarrow> ('a client_machine \<times> ('w, 'at, 'f) close_loop) list" where
  "spawn_client_sessions config client_id addr workloads =
     map (\<lambda>(i, w). spawn_client config (client_id i) (addr i) w) (enumerate 0 workloads)"

text \<open>What each loop adds to the shared latencies when it is stopped, in the order of their ends.\<close>

definition stopped_latencies :: "('w \<Rightarrow> duration list) \<Rightarrow> ('w, 'at, 'f) close_loop list \<Rightarrow> duration list list" where
  "stopped_latencies into loops = map (\<lambda>l. into (cl_workload l)) loops"

section \<open>Throughput\<close>

lemma invoke_ok_workload:
  assumes "on_invoke_ok wl now result l = Ok () l'"
  obtains attach w1 r where "wl_result wl now result attach (cl_workload l) = Ok () w1"
    "wl_next wl now w1 = Ok r (cl_workload l')"
proof -
  from assms obtain attach where at: "cl_attach l = Some attach"
    by (auto simp: on_invoke_ok_def split: option.splits)
  with assms obtain w1 where w1: "wl_result wl now result attach (cl_workload l) = Ok () w1"
    by (auto simp: on_invoke_ok_def Let_def and_then_Ok_iff lift_outcome_Ok_iff)
  with assms at obtain r w2 where w2: "wl_next wl now w1 = Ok r w2"
    by (auto simp: on_invoke_ok_def Let_def and_then_Ok_iff lift_outcome_Ok_iff)
  have "cl_workload l' = w2"
    using assms by (cases r)
      (auto simp: on_invoke_ok_def at w1 w2 Let_def close_loop_send_def lift_outcome_Ok_iff
        split: if_splits option.splits)
  with w1 w2 that show thesis by blast
qed

lemma op_latency_next: "wl_next (op_latency_workload wl) now w = Ok r w' \<Longrightarrow> ol_latencies w' = ol_latencies w"
  by (auto simp: op_latency_workload_def and_then_Ok_iff lift_outcome_Ok_iff)

lemma op_latency_result:
  "wl_result (op_latency_workload wl) now result attach w = Ok () w' \<Longrightarrow>
   ol_latencies w' = ol_latencies w @ [now - fst attach]"
  by (auto simp: op_latency_workload_def Let_def lift_outcome_Ok_iff split: prod.splits)

lemma results_latencies:
  "close_loop_results (op_latency_workload wl) rs l = Ok () l' \<Longrightarrow>
   length (ol_latencies (cl_workload l')) = length (ol_latencies (cl_workload l)) + length rs"
proof (induction rs arbitrary: l)
  case (Cons x rs)
  obtain now result where x: "x = (now, result)" by (cases x)
  with Cons.prems obtain l1 where l1: "on_invoke_ok (op_latency_workload wl) now result l = Ok () l1"
    "close_loop_results (op_latency_workload wl) rs l1 = Ok () l'" by (auto simp: and_then_Ok_iff)
  from invoke_ok_workload [OF l1(1)] obtain attach w1 r where w1:
    "wl_result (op_latency_workload wl) now result attach (cl_workload l) = Ok () w1"
    "wl_next (op_latency_workload wl) now w1 = Ok r (cl_workload l1)" .
  from Cons.IH [OF l1(2)] op_latency_result [OF w1(1)] op_latency_next [OF w1(2)] show ?case by simp
qed simp

lemma init_latencies:
  assumes "on_init (op_latency_workload wl) now l = Ok () l'"
  shows "ol_latencies (cl_workload l') = ol_latencies (cl_workload l)"
proof -
  obtain r w where n: "wl_next (op_latency_workload wl) now (cl_workload l) = Ok r w"
    using assms by (cases "wl_next (op_latency_workload wl) now (cl_workload l)") (auto simp: on_init_def)
  from op_latency_next [OF n] assms n show ?thesis
    by (cases r) (auto simp: on_init_def close_loop_send_def Let_def lift_outcome_Ok_iff split: if_splits)
qed

text \<open>
  The reported throughput is the number of operations that the clients of the null workload had
  answered: each loop was started as \<open>spawn_client_sessions\<close> leaves it and took its results.
\<close>

definition loop_ran :: "(instant \<times> payload) list \<Rightarrow> (unit op_latency, instant \<times> unit, 'f) close_loop \<Rightarrow> bool" where
  "loop_ran rs l \<longleftrightarrow> (\<exists>now l0. on_init (op_latency_workload (iter_workload repeat_default)) now
       (close_loop_new open_sink null_workload open_sink) = Ok () l0 \<and>
     close_loop_results (op_latency_workload (iter_workload repeat_default)) rs l0 = Ok () l)"

lemma loop_ran_latencies: "loop_ran rs l \<Longrightarrow> length (ol_latencies (cl_workload l)) = length rs"
  using init_latencies results_latencies
  by (fastforce simp: loop_ran_def close_loop_new_def null_workload_def op_latency_new_def)

lemma throughput_counts:
  assumes "list_all2 loop_ran rss loops" and "sum_list (map length rss) < 2 ^ 24"
  shows "\<exists>r. client_session None (stopped_latencies ol_latencies loops) = Inr r \<and>
    br_throughput r = sum_list (map length rss)"
proof -
  have "sum_list (map length (stopped_latencies ol_latencies loops)) = sum_list (map length rss)"
    using assms(1)
    by (induction rule: list_all2_induct) (simp_all add: stopped_latencies_def loop_ran_latencies)
  then have "length (concat (stopped_latencies ol_latencies loops)) = sum_list (map length rss)"
    by (simp add: length_concat)
  with benchmark_result_exact [of "concat (stopped_latencies ol_latencies loops)"] assms(2) show ?thesis
    by (simp add: client_session_def)
qed

text \<open>All copies of a YCSB workload have the settings of the profile and share the acknowledged inserts.\<close>

lemma ycsb_workloads_share:
  assumes "ycsb_workloads lib rng profile record_count n = Inr ws" and "w \<in> set ws" and "w' \<in> set ws"
  shows "length ws = n \<and> snd w = snd w' \<and> yw_settings (fst w) = profile_settings profile record_count"
  using assms
  by (auto simp: ycsb_workloads_def clone_reseed_def ycsb_new_def split: sum.splits)

end
