(* ===== verification/Boson_Ser.thy ===== *)
theory Boson_Ser
  imports Boson
begin

text \<open>
  Storing clocks, \<open>crates/boson/src/ser.rs\<close>: the gates that the serializer knows, the tags under which
  the witness generators of a circuit are written and read, and the byte forms of a circuit and of a
  clock with its circuit. Reading builds the targets of the circuit anew.

  What plonky2 does is the record \<open>ser_lib\<close>: the byte form of a generator and of an integer, the walk
  over a circuit, which is given the list of known gates and the generator serializer, and the byte
  form of a proof. \<open>generators_documented\<close>, \<open>walk_documented\<close> and \<open>proof_documented\<close> are what is relied on.
\<close>

section \<open>The gates\<close>

text \<open>The gates that the source names; \<open>GateOther\<close> is any other one, with its name.\<close>

datatype gate_kind =
    ArithmeticGate | ArithmeticExtensionGate | BaseSumGate2 | BaseSumGate4 | ComparisonGate | ConstantGate
  | CosetInterpolationGate | ExponentiationGate | LookupGate | LookupTableGate | MulExtensionGate | NoopGate
  | PoseidonMdsGate | PoseidonGate | PublicInputGate | RandomAccessGate | ReducingExtensionGate | ReducingGate
  | U32AddManyGate | U32ArithmeticGate | U32RangeCheckGate | U32SubtractionGate
  | GateOther string

definition serializer_gates :: "gate_kind list" where
  "serializer_gates =
    [ArithmeticGate, ArithmeticExtensionGate, BaseSumGate2, BaseSumGate4, ComparisonGate, ConstantGate,
     CosetInterpolationGate, ExponentiationGate, LookupGate, LookupTableGate, MulExtensionGate, NoopGate,
     PoseidonMdsGate, PoseidonGate, PublicInputGate, RandomAccessGate, ReducingExtensionGate, ReducingGate,
     U32AddManyGate, U32ArithmeticGate, U32RangeCheckGate, U32SubtractionGate]"

lemma serializer_gates: "g \<in> set serializer_gates \<longleftrightarrow> (\<nexists>name. g = GateOther name)"
  by (cases g) (simp_all add: serializer_gates_def)

section \<open>Generators and their tags\<close>

datatype ecdsa_field = Secp256K1Base | Secp256K1Scalar

text \<open>The types of generators that the source names; \<open>KindOther\<close> is any other one, with its name.\<close>

datatype generator_kind =
    KindArithmeticBase | KindArithmeticExtension | KindBaseSplit2 | KindBaseSplit4 | KindComparison | KindConstant
  | KindEquality | KindInterpolation | KindMulExtension | KindPoseidon | KindPoseidonMds | KindQuotientExtension
  | KindRandomAccess | KindRandomValue | KindReducingExtension | KindReducing | KindU32Arithmetic | KindU32AddMany
  | KindU32RangeCheck | KindU32Subtraction | KindWireSplit
  | KindGLV | KindNonNativeAddition ecdsa_field | KindNonNativeMultiplication ecdsa_field
  | KindNonNativeInverse ecdsa_field | KindNonNativeSubtraction ecdsa_field
  | KindOther string

definition generator_tags :: "(string \<times> u32) list" where
  "generator_tags =
    [(''ArithmeticBaseGenerator'', 1),
     (''ArithmeticExtensionGenerator'', 2),
     (''BaseSplitGenerator + Base: 2'', 3),
     (''BaseSplitGenerator + Base: 4'', 4),
     (''ComparisonGenerator'', 5),
     (''ConstantGenerator'', 6),
     (''EqualityGenerator'', 7),
     (''InterpolationGenerator'', 8),
     (''MulExtensionGenerator'', 9),
     (''PoseidonGenerator'', 10),
     (''PoseidonMdsGenerator'', 11),
     (''QuotientGeneratorExtension'', 12),
     (''RandomAccessGenerator'', 13),
     (''RandomValueGenerator'', 14),
     (''ReducingExtensionGenerator'', 15),
     (''ReducingGenerator'', 16),
     (''U32ArithmeticGenerator'', 17),
     (''U32AddManyGenerator'', 18),
     (''U32RangeCheckGenerator'', 19),
     (''U32SubtractionGenerator'', 20),
     (''WireSplitGenerator'', 21),
     (''plonky2_ecdsa::gadgets::glv::GLVDecompositionGenerator<plonky2_field::goldilocks_field::GoldilocksField, 2>'', 22),
     (''plonky2_ecdsa::gadgets::nonnative::NonNativeAdditionGenerator<plonky2_field::goldilocks_field::GoldilocksField, 2, plonky2_field::secp256k1_base::Secp256K1Base>'', 23),
     (''plonky2_ecdsa::gadgets::nonnative::NonNativeAdditionGenerator<plonky2_field::goldilocks_field::GoldilocksField, 2, plonky2_field::secp256k1_scalar::Secp256K1Scalar>'', 24),
     (''plonky2_ecdsa::gadgets::nonnative::NonNativeMultiplicationGenerator<plonky2_field::goldilocks_field::GoldilocksField, 2, plonky2_field::secp256k1_base::Secp256K1Base>'', 25),
     (''plonky2_ecdsa::gadgets::nonnative::NonNativeMultiplicationGenerator<plonky2_field::goldilocks_field::GoldilocksField, 2, plonky2_field::secp256k1_scalar::Secp256K1Scalar>'', 26),
     (''plonky2_ecdsa::gadgets::nonnative::NonNativeInverseGenerator<plonky2_field::goldilocks_field::GoldilocksField, 2, plonky2_field::secp256k1_base::Secp256K1Base>'', 27),
     (''plonky2_ecdsa::gadgets::nonnative::NonNativeInverseGenerator<plonky2_field::goldilocks_field::GoldilocksField, 2, plonky2_field::secp256k1_scalar::Secp256K1Scalar>'', 28),
     (''plonky2_ecdsa::gadgets::nonnative::NonNativeSubtractionGenerator<plonky2_field::goldilocks_field::GoldilocksField, 2, plonky2_field::secp256k1_base::Secp256K1Base>'', 29),
     (''plonky2_ecdsa::gadgets::nonnative::NonNativeSubtractionGenerator<plonky2_field::goldilocks_field::GoldilocksField, 2, plonky2_field::secp256k1_scalar::Secp256K1Scalar>'', 30)]"

definition generator_kinds :: "(u32 \<times> generator_kind) list" where
  "generator_kinds =
    [(1, KindArithmeticBase), (2, KindArithmeticExtension), (3, KindBaseSplit2), (4, KindBaseSplit4),
     (5, KindComparison), (6, KindConstant), (7, KindEquality), (8, KindInterpolation), (9, KindMulExtension),
     (10, KindPoseidon), (11, KindPoseidonMds), (12, KindQuotientExtension), (13, KindRandomAccess),
     (14, KindRandomValue), (15, KindReducingExtension), (16, KindReducing), (17, KindU32Arithmetic),
     (18, KindU32AddMany), (19, KindU32RangeCheck), (20, KindU32Subtraction), (21, KindWireSplit)]"

section \<open>Writing and reading\<close>

record ('b, 'cd, 'g) ser_lib =
  gen_id :: "'g \<Rightarrow> string"
  gen_serialize :: "'g \<Rightarrow> error + u8 list"
  gen_deserialize :: "generator_kind \<Rightarrow> u8 list \<Rightarrow> error + 'g \<times> u8 list"
  put_u32 :: "u32 \<Rightarrow> u8 list"
  get_u32 :: "u8 list \<Rightarrow> error + u32 \<times> u8 list"
  circuit_to_bytes :: "gate_kind list \<Rightarrow> ('g \<Rightarrow> u8 list \<Rightarrow> error + u8 list) \<Rightarrow> circuit \<Rightarrow> error + u8 list"
  circuit_from_bytes :: "gate_kind list \<Rightarrow> (u8 list \<Rightarrow> error + 'g \<times> u8 list) \<Rightarrow> u8 list \<Rightarrow> error + circuit"
  proof_to_bytes :: "'b proof_pis \<Rightarrow> u8 list"
  proof_from_bytes :: "u8 list \<Rightarrow> 'cd \<Rightarrow> error + 'b proof_pis"

definition io_error :: error where
  "io_error = Bail ''IoError''"

text \<open>The buffer with the generator appended.\<close>

definition write_generator :: "('b, 'cd, 'g) ser_lib \<Rightarrow> 'g \<Rightarrow> u8 list \<Rightarrow> error + u8 list" where
  "write_generator lib g buf =
     (case map_of generator_tags (gen_id lib g) of
        None \<Rightarrow> Inl io_error
      | Some tag \<Rightarrow> map_sum id (\<lambda>bs. buf @ put_u32 lib tag @ bs) (gen_serialize lib g))"

text \<open>The generator and the rest of the buffer.\<close>

definition read_generator :: "('b, 'cd, 'g) ser_lib \<Rightarrow> u8 list \<Rightarrow> error + 'g \<times> u8 list" where
  "read_generator lib buf =
     (case get_u32 lib buf of
        Inl e \<Rightarrow> Inl e
      | Inr (tag, buf1) \<Rightarrow>
          (case map_of generator_kinds tag of
             None \<Rightarrow> Inl io_error
           | Some kind \<Rightarrow> gen_deserialize lib kind buf1))"

definition clock_circuit_to_bytes :: "('b, 'cd, 'g) ser_lib \<Rightarrow> clock_circuit \<Rightarrow> error + u8 list" where
  "clock_circuit_to_bytes lib cc = circuit_to_bytes lib serializer_gates (write_generator lib) (data cc)"

definition clock_to_bytes :: "('b, 'cd, 'g) ser_lib \<Rightarrow> 'b clock \<Rightarrow> u8 list" where
  "clock_to_bytes lib c = proof_to_bytes lib (clock_proof c)"

definition clock_from_bytes ::
  "('b, 'cd) plonky \<Rightarrow> ('b, 'cd, 'g) ser_lib \<Rightarrow> u8 list \<Rightarrow> u8 list \<Rightarrow> circuit_config \<Rightarrow>
   error + 'b clock \<times> clock_circuit" where
  "clock_from_bytes P lib clock_bytes circuit_bytes config =
     (case circuit_from_bytes lib serializer_gates (read_generator lib) circuit_bytes of
        Inl e \<Rightarrow> Inl e
      | Inr d \<Rightarrow>
          (case proof_from_bytes lib clock_bytes (common P d) of
             Inl e \<Rightarrow> Inl e
           | Inr pf \<Rightarrow> Inr (\<lparr>clock_proof = pf\<rparr>, circuit_with_data P config d)))"

section \<open>What is relied on\<close>

text \<open>The name that each type of generator reports.\<close>

fun ecdsa_name :: "ecdsa_field \<Rightarrow> string" where
  "ecdsa_name Secp256K1Base = ''plonky2_field::secp256k1_base::Secp256K1Base>''"
| "ecdsa_name Secp256K1Scalar = ''plonky2_field::secp256k1_scalar::Secp256K1Scalar>''"

fun kind_name :: "generator_kind \<Rightarrow> string" where
  "kind_name KindArithmeticBase = ''ArithmeticBaseGenerator''"
| "kind_name KindArithmeticExtension = ''ArithmeticExtensionGenerator''"
| "kind_name KindBaseSplit2 = ''BaseSplitGenerator + Base: 2''"
| "kind_name KindBaseSplit4 = ''BaseSplitGenerator + Base: 4''"
| "kind_name KindComparison = ''ComparisonGenerator''"
| "kind_name KindConstant = ''ConstantGenerator''"
| "kind_name KindEquality = ''EqualityGenerator''"
| "kind_name KindInterpolation = ''InterpolationGenerator''"
| "kind_name KindMulExtension = ''MulExtensionGenerator''"
| "kind_name KindPoseidon = ''PoseidonGenerator''"
| "kind_name KindPoseidonMds = ''PoseidonMdsGenerator''"
| "kind_name KindQuotientExtension = ''QuotientGeneratorExtension''"
| "kind_name KindRandomAccess = ''RandomAccessGenerator''"
| "kind_name KindRandomValue = ''RandomValueGenerator''"
| "kind_name KindReducingExtension = ''ReducingExtensionGenerator''"
| "kind_name KindReducing = ''ReducingGenerator''"
| "kind_name KindU32Arithmetic = ''U32ArithmeticGenerator''"
| "kind_name KindU32AddMany = ''U32AddManyGenerator''"
| "kind_name KindU32RangeCheck = ''U32RangeCheckGenerator''"
| "kind_name KindU32Subtraction = ''U32SubtractionGenerator''"
| "kind_name KindWireSplit = ''WireSplitGenerator''"
| "kind_name KindGLV = ''plonky2_ecdsa::gadgets::glv::GLVDecompositionGenerator<plonky2_field::goldilocks_field::GoldilocksField, 2>''"
| "kind_name (KindNonNativeAddition f) = ''plonky2_ecdsa::gadgets::nonnative::NonNativeAdditionGenerator<plonky2_field::goldilocks_field::GoldilocksField, 2, '' @ ecdsa_name f"
| "kind_name (KindNonNativeMultiplication f) = ''plonky2_ecdsa::gadgets::nonnative::NonNativeMultiplicationGenerator<plonky2_field::goldilocks_field::GoldilocksField, 2, '' @ ecdsa_name f"
| "kind_name (KindNonNativeInverse f) = ''plonky2_ecdsa::gadgets::nonnative::NonNativeInverseGenerator<plonky2_field::goldilocks_field::GoldilocksField, 2, '' @ ecdsa_name f"
| "kind_name (KindNonNativeSubtraction f) = ''plonky2_ecdsa::gadgets::nonnative::NonNativeSubtractionGenerator<plonky2_field::goldilocks_field::GoldilocksField, 2, '' @ ecdsa_name f"
| "kind_name (KindOther name) = name"

fun ecdsa_kind :: "generator_kind \<Rightarrow> bool" where
  "ecdsa_kind KindGLV \<longleftrightarrow> True"
| "ecdsa_kind (KindNonNativeAddition f) \<longleftrightarrow> True"
| "ecdsa_kind (KindNonNativeMultiplication f) \<longleftrightarrow> True"
| "ecdsa_kind (KindNonNativeInverse f) \<longleftrightarrow> True"
| "ecdsa_kind (KindNonNativeSubtraction f) \<longleftrightarrow> True"
| "ecdsa_kind _ \<longleftrightarrow> False"

definition other_kind :: "generator_kind \<Rightarrow> bool" where
  "other_kind k \<longleftrightarrow> (case k of KindOther name \<Rightarrow> True | _ \<Rightarrow> False)"


text \<open>All of them, in the order of their tags.\<close>

definition named_kinds :: "generator_kind list" where
  "named_kinds =
    [KindArithmeticBase, KindArithmeticExtension, KindBaseSplit2, KindBaseSplit4, KindComparison, KindConstant,
     KindEquality, KindInterpolation, KindMulExtension, KindPoseidon, KindPoseidonMds, KindQuotientExtension,
     KindRandomAccess, KindRandomValue, KindReducingExtension, KindReducing, KindU32Arithmetic, KindU32AddMany,
     KindU32RangeCheck, KindU32Subtraction, KindWireSplit, KindGLV,
     KindNonNativeAddition Secp256K1Base, KindNonNativeAddition Secp256K1Scalar,
     KindNonNativeMultiplication Secp256K1Base, KindNonNativeMultiplication Secp256K1Scalar,
     KindNonNativeInverse Secp256K1Base, KindNonNativeInverse Secp256K1Scalar,
     KindNonNativeSubtraction Secp256K1Base, KindNonNativeSubtraction Secp256K1Scalar]"

lemma named_kinds: "\<not> other_kind k \<Longrightarrow> k \<in> set named_kinds"
  by (cases k) (auto simp: named_kinds_def other_kind_def intro: ecdsa_field.exhaust)

lemma tag_names: "map fst generator_tags = map kind_name named_kinds"
  by (simp add: generator_tags_def named_kinds_def)

lemma tag_names_distinct: "distinct (map fst generator_tags)"
  by code_simp

lemma tag_kinds:
  "list_all2 (\<lambda>k tag. map_of generator_kinds tag = (if ecdsa_kind k then None else Some k))
     named_kinds (map snd generator_tags)"
  by (simp add: generator_tags_def named_kinds_def generator_kinds_def)

text \<open>The two tables agree, except for the generators of ECDSA, which only the first one knows.\<close>

lemma tables_agree:
  assumes "\<not> other_kind k"
  shows "\<exists>tag. map_of generator_tags (kind_name k) = Some tag \<and>
    map_of generator_kinds tag = (if ecdsa_kind k then None else Some k)"
proof -
  from named_kinds [OF assms] obtain i where i: "i < length named_kinds" "k = named_kinds ! i"
    by (auto simp: in_set_conv_nth)
  have len: "length generator_tags = length named_kinds" using arg_cong [OF tag_names, of length] by simp
  have "fst (generator_tags ! i) = kind_name k" using arg_cong [OF tag_names, of "\<lambda>xs. xs ! i"] i len by simp
  then have "(kind_name k, snd (generator_tags ! i)) \<in> set generator_tags" using i len
    by (metis nth_mem prod.collapse)
  from map_of_is_SomeI [OF tag_names_distinct this]
  have "map_of generator_tags (kind_name k) = Some (snd (generator_tags ! i))" .
  moreover have "map_of generator_kinds (snd (generator_tags ! i)) = (if ecdsa_kind k then None else Some k)"
    using list_all2_nthD [OF tag_kinds i(1)] i len by simp
  ultimately show ?thesis by blast
qed

section \<open>Round trips\<close>

definition reads_back :: "('g \<Rightarrow> u8 list \<Rightarrow> error + u8 list) \<Rightarrow> (u8 list \<Rightarrow> error + 'g \<times> u8 list) \<Rightarrow> 'g \<Rightarrow> bool" where
  "reads_back wr rd g \<longleftrightarrow>
     (\<exists>bs. (\<forall>buf. wr g buf = Inr (buf @ bs)) \<and> (\<forall>rest. rd (bs @ rest) = Inr (g, rest)))"

definition not_read_back :: "('g \<Rightarrow> u8 list \<Rightarrow> error + u8 list) \<Rightarrow> (u8 list \<Rightarrow> error + 'g \<times> u8 list) \<Rightarrow> 'g \<Rightarrow> bool" where
  "not_read_back wr rd g \<longleftrightarrow>
     (\<exists>bs. (\<forall>buf. wr g buf = Inr (buf @ bs)) \<and> (\<forall>rest. \<exists>e. rd (bs @ rest) = Inl e))"

text \<open>
  Generators have the names and byte forms of their types, integers are read back; the walk over a
  circuit fails on a gate it does not know and with the generator serializer, and if it knows the
  gates and each of the generators is read back so is the circuit; and a proof with as many public inputs as the circuit has is read back.
\<close>

definition generators_documented :: "('b, 'cd, 'g) ser_lib \<Rightarrow> ('g \<Rightarrow> generator_kind) \<Rightarrow> bool" where
  "generators_documented lib kind \<longleftrightarrow>
     (\<forall>g. gen_id lib g = kind_name (kind g)) \<and>
     (\<forall>g. other_kind (kind g) \<longrightarrow> kind_name (kind g) \<notin> set (map fst generator_tags)) \<and>
     (\<forall>g. \<exists>bs. gen_serialize lib g = Inr bs \<and> (\<forall>rest. gen_deserialize lib (kind g) (bs @ rest) = Inr (g, rest))) \<and>
     (\<forall>w rest. get_u32 lib (put_u32 lib w @ rest) = Inr (w, rest))"

definition walk_documented ::
  "('b, 'cd, 'g) ser_lib \<Rightarrow> (circuit \<Rightarrow> gate_kind list) \<Rightarrow> (circuit \<Rightarrow> 'g list) \<Rightarrow> circuit \<Rightarrow> bool" where
  "walk_documented lib gates gens d \<longleftrightarrow>
     (\<forall>known wr rd.
        (\<not> set (gates d) \<subseteq> set known \<or> (\<exists>g \<in> set (gens d). \<forall>buf. \<exists>e. wr g buf = Inl e) \<longrightarrow>
          (\<exists>e. circuit_to_bytes lib known wr d = Inl e)) \<and>
        (set (gates d) \<subseteq> set known \<and> (\<forall>g \<in> set (gens d). reads_back wr rd g) \<longrightarrow>
          (\<exists>bs. circuit_to_bytes lib known wr d = Inr bs \<and> circuit_from_bytes lib known rd bs = Inr d)) \<and>
        (set (gates d) \<subseteq> set known \<and> (\<forall>g \<in> set (gens d). reads_back wr rd g \<or> not_read_back wr rd g) \<and>
           (\<exists>g \<in> set (gens d). not_read_back wr rd g) \<longrightarrow>
          (\<exists>bs e. circuit_to_bytes lib known wr d = Inr bs \<and> circuit_from_bytes lib known rd bs = Inl e)))"

definition proof_documented :: "('b, 'cd) plonky \<Rightarrow> ('b, 'cd, 'g) ser_lib \<Rightarrow> circuit \<Rightarrow> 'b proof_pis \<Rightarrow> bool" where
  "proof_documented P lib d pf \<longleftrightarrow>
     (length (public_inputs pf) = num_public_inputs (vdata_len P) d \<longrightarrow>
        proof_from_bytes lib (proof_to_bytes lib pf) (common P d) = Inr pf)"

lemma generator_written:
  assumes "generators_documented lib kind"
  shows "other_kind (kind g) \<Longrightarrow> write_generator lib g buf = Inl io_error"
    and "\<not> other_kind (kind g) \<Longrightarrow> \<not> ecdsa_kind (kind g) \<Longrightarrow> reads_back (write_generator lib) (read_generator lib) g"
    and "\<not> other_kind (kind g) \<Longrightarrow> ecdsa_kind (kind g) \<Longrightarrow> not_read_back (write_generator lib) (read_generator lib) g"
proof -
  note doc = assms [unfolded generators_documented_def]
  show "other_kind (kind g) \<Longrightarrow> write_generator lib g buf = Inl io_error"
    using doc by (simp add: write_generator_def map_of_eq_None_iff [THEN iffD2])
  from doc obtain bs where bs: "gen_serialize lib g = Inr bs"
    "\<And>rest. gen_deserialize lib (kind g) (bs @ rest) = Inr (g, rest)" by blast
  assume "\<not> other_kind (kind g)"
  from tables_agree [OF this] obtain tag where tag: "map_of generator_tags (gen_id lib g) = Some tag"
    "map_of generator_kinds tag = (if ecdsa_kind (kind g) then None else Some (kind g))" using doc by auto
  have wr: "write_generator lib g buf = Inr (buf @ put_u32 lib tag @ bs)" for buf
    by (simp add: write_generator_def tag(1) bs(1))
  have u32: "get_u32 lib (put_u32 lib tag @ bs @ rest) = Inr (tag, bs @ rest)" for rest using doc by blast
  show "\<not> ecdsa_kind (kind g) \<Longrightarrow> reads_back (write_generator lib) (read_generator lib) g"
    unfolding reads_back_def
    by (rule exI [of _ "put_u32 lib tag @ bs"]) (simp add: wr read_generator_def u32 tag(2) bs(2))
  show "ecdsa_kind (kind g) \<Longrightarrow> not_read_back (write_generator lib) (read_generator lib) g"
    unfolding not_read_back_def
    by (rule exI [of _ "put_u32 lib tag @ bs"]) (simp add: wr read_generator_def u32 tag(2))
qed

text \<open>C40: stored clocks. Take a clock and its circuit, as \<open>ClockCircuit::new\<close> builds it. If the circuit has a
  gate or a generator outside the tables it is not written. Any other circuit is written, and it is
  read back with the clock exactly if it has no generator of the ECDSA gadgets; with one, what was
  written cannot be read. Reading gives the same clock and the same circuit data, with targets
  allocated anew over the common data of the circuit itself: they are the circuit's own, and the
  whole value is as before, if the configuration is the same and the circuit has the common data
  of its inner circuit (the fixed point that \<open>genesis\<close> iterates for).\<close>

theorem stored_clock_roundtrip:
  assumes "generators_documented lib kind" and "walk_documented lib gates gens (data cc)"
    and "proof_documented P lib (data cc) (clock_proof c)" and "cc = circuit_new P config inner keys dummy_key"
    and "length (public_inputs (clock_proof c)) = num_public_inputs (vdata_len P) (data cc)"
  shows "if (\<exists>g \<in> set (gates (data cc)). \<exists>name. g = GateOther name) \<or>
      (\<exists>g \<in> set (gens (data cc)). other_kind (kind g))
    then \<exists>e. clock_circuit_to_bytes lib cc = Inl e
    else \<exists>bs. clock_circuit_to_bytes lib cc = Inr bs \<and>
      (if \<exists>g \<in> set (gens (data cc)). ecdsa_kind (kind g)
       then \<exists>e. clock_from_bytes P lib (clock_to_bytes lib c) bs config' = Inl e
       else \<exists>cc'. clock_from_bytes P lib (clock_to_bytes lib c) bs config' = Inr (c, cc') \<and>
         data cc' = data cc \<and> targets cc' = Some (clock_targets_new P config' (common P (data cc))) \<and>
         (config' = config \<and> common P (data cc) = common P (data inner) \<longrightarrow> cc' = cc))"
proof -
  let ?gens = "set (gens (data cc))" and ?wr = "write_generator lib" and ?rd = "read_generator lib"
  let ?known = serializer_gates
  note written = generator_written [OF assms(1)] and walk = assms(2) [unfolded walk_documented_def, rule_format]
  have pf: "proof_from_bytes lib (clock_to_bytes lib c) (common P (data cc)) = Inr (clock_proof c)"
    using assms(3,5) by (simp add: proof_documented_def clock_to_bytes_def)
  have restored: "data (circuit_with_data P config' (data cc)) = data cc"
    "targets (circuit_with_data P config' (data cc)) = Some (clock_targets_new P config' (common P (data cc)))"
    "config' = config \<and> common P (data cc) = common P (data inner) \<Longrightarrow> circuit_with_data P config' (data cc) = cc"
    using assms(4) by (simp_all add: circuit_with_data_def circuit_new_def)
  have known: "set (gates (data cc)) \<subseteq> set ?known \<longleftrightarrow> \<not> (\<exists>g \<in> set (gates (data cc)). \<exists>name. g = GateOther name)"
    by (auto simp: serializer_gates)
  consider (unknown) "\<not> set (gates (data cc)) \<subseteq> set ?known"
    | (other) "\<exists>g \<in> ?gens. other_kind (kind g)"
    | (ecdsa) "set (gates (data cc)) \<subseteq> set ?known" "\<forall>g \<in> ?gens. \<not> other_kind (kind g)"
        "\<exists>g \<in> ?gens. ecdsa_kind (kind g)"
    | (plain) "set (gates (data cc)) \<subseteq> set ?known" "\<forall>g \<in> ?gens. \<not> other_kind (kind g)"
        "\<forall>g \<in> ?gens. \<not> ecdsa_kind (kind g)" by blast
  then show ?thesis
  proof cases
    case unknown
    with walk known show ?thesis unfolding clock_circuit_to_bytes_def by simp
  next
    case other
    then have "\<exists>g \<in> ?gens. \<forall>buf. \<exists>e. ?wr g buf = Inl e" using written(1) by blast
    with walk other show ?thesis unfolding clock_circuit_to_bytes_def by simp
  next
    case ecdsa
    then have "(\<forall>g \<in> ?gens. reads_back ?wr ?rd g \<or> not_read_back ?wr ?rd g) \<and>
        (\<exists>g \<in> ?gens. not_read_back ?wr ?rd g)" using written(2,3) by blast
    then obtain bs e where "circuit_to_bytes lib ?known ?wr (data cc) = Inr bs"
      "circuit_from_bytes lib ?known ?rd bs = Inl e"
      using walk ecdsa(1) by blast
    with ecdsa known show ?thesis by (auto simp: clock_circuit_to_bytes_def clock_from_bytes_def)
  next
    case plain
    then have "\<forall>g \<in> ?gens. reads_back ?wr ?rd g" using written(2) by blast
    then obtain bs where "circuit_to_bytes lib ?known ?wr (data cc) = Inr bs"
      "circuit_from_bytes lib ?known ?rd bs = Inr (data cc)"
      using walk plain(1) by blast
    then have "clock_circuit_to_bytes lib cc = Inr bs"
      "clock_from_bytes P lib (clock_to_bytes lib c) bs config' = Inr (c, circuit_with_data P config' (data cc))"
      using pf by (simp_all add: clock_circuit_to_bytes_def clock_from_bytes_def)
    with plain known restored show ?thesis by auto
  qed
qed

text \<open>A circuit of one gate and one generator, of one byte.\<close>

definition unit_plonky :: "(unit, unit) plonky" where
  "unit_plonky =
     \<lparr>common = (\<lambda>_. ()), config_of = (\<lambda>_. 0), cap_height = (\<lambda>_. 0), builder_new = (\<lambda>_. 0),
      builder_add = (\<lambda>_ n. (n, n + 1)), verifier_only = (\<lambda>_. []), vdata_len = 0,
      prove = (\<lambda>_ _. Inr \<lparr>pf_proof = (), public_inputs = [3]\<rparr>), prove_foreign = (\<lambda>_ _ _. Inl (Panic [])),
      verify_proof = (\<lambda>_ _ _. True), hash_no_pad = (\<lambda>xs. xs)\<rparr>"

definition one_generator_lib :: "circuit \<Rightarrow> (unit, unit, bool) ser_lib" where
  "one_generator_lib d =
     \<lparr>gen_id = (\<lambda>g. kind_name (if g then KindPoseidon else KindGLV)), gen_serialize = (\<lambda>g. Inr [7]),
      gen_deserialize = (\<lambda>k bs. Inr (k = KindPoseidon, tl bs)),
      put_u32 = (\<lambda>w. replicate (unat w) 1 @ [0]),
      get_u32 = (\<lambda>bs. Inr (word_of_nat (length (takeWhile (\<lambda>b. b = 1) bs)), tl (dropWhile (\<lambda>b. b = 1) bs))),
      circuit_to_bytes = (\<lambda>known wr _. if PoseidonGate \<in> set known then wr True [] else Inl io_error),
      circuit_from_bytes = (\<lambda>known rd bs. map_sum id (\<lambda>_. d) (rd bs)),
      proof_to_bytes = (\<lambda>_. []), proof_from_bytes = (\<lambda>_ _. Inr \<lparr>pf_proof = (), public_inputs = [3]\<rparr>)\<rparr>"

lemma unary:
  "takeWhile (\<lambda>b. b = 1) (replicate n (1 :: u8) @ 0 # rest) = replicate n 1"
  "dropWhile (\<lambda>b. b = 1) (replicate n (1 :: u8) @ 0 # rest) = 0 # rest"
  by (induction n) auto

lemma one_generator_documented:
  "generators_documented (one_generator_lib d) (\<lambda>g. if g then KindPoseidon else KindGLV)"
  by (auto simp: generators_documented_def one_generator_lib_def other_kind_def unary)

lemma one_generator_walk: "walk_documented (one_generator_lib d) (\<lambda>_. [PoseidonGate]) (\<lambda>_. [True]) d"
  by (auto simp: walk_documented_def one_generator_lib_def reads_back_def not_read_back_def)
    (metis append_Nil2 map_sum.simps)+

definition unit_circuit :: clock_circuit where
  "unit_circuit = circuit_new unit_plonky 0 (circuit_new_empty 1) [[4]] [5]"

theorem stored_clock_roundtrip_witness:
  "\<exists>bs. clock_circuit_to_bytes (one_generator_lib (data unit_circuit)) unit_circuit = Inr bs \<and>
    clock_from_bytes unit_plonky (one_generator_lib (data unit_circuit)) [] bs 0 =
      Inr (\<lparr>clock_proof = \<lparr>pf_proof = (), public_inputs = [3]\<rparr>\<rparr>, unit_circuit)"
proof -
  let ?d = "data unit_circuit"
  let ?c = "\<lparr>clock_proof = \<lparr>pf_proof = (), public_inputs = [3]\<rparr>\<rparr>"
  have "proof_documented unit_plonky (one_generator_lib ?d) ?d (clock_proof ?c)"
    by (simp add: proof_documented_def one_generator_lib_def)
  moreover have "length (public_inputs (clock_proof ?c)) = num_public_inputs (vdata_len unit_plonky) ?d"
    by (simp add: unit_circuit_def circuit_new_def unit_plonky_def)
  moreover have "common unit_plonky ?d = common unit_plonky (data (circuit_new_empty 1))" by simp
  ultimately show ?thesis
    using stored_clock_roundtrip [OF one_generator_documented one_generator_walk _ unit_circuit_def,
        of ?c 0]
    by (auto simp: other_kind_def clock_to_bytes_def one_generator_lib_def)
qed

end
