(* ===== verification/Spec2Isabelle.thy ===== *)
theory Spec2Isabelle
  imports Pbft_Faults Kad_Correct Unrep_Safety Search_Correct Entropy_Types Entropy_Faults Entropy_Quorum
    Ycsb_Correct Net_Session_Correct Boson_Correct Blocking Check_Appends Check_Collatz
    Entropy_Server_Correct Entropy_Cluster Entropy_Bench Replication_Clients Boson_Ser
begin

text \<open>
  A verification development for neatworks, a Rust library of distributed protocols written as event
  handlers: PBFT replication, Kademlia peer discovery, an unreplicated service and the storage protocol
  of entropy, with the timers, nets, bulk transfers, signatures, workloads and applications they run
  on, the search that explores them, and boson's verifiable clocks; with the servers that run entropy
  and the replicated services and the controllers that benchmark them.

  \<^bold>\<open>How the program is put together.\<close> A component is a struct with handlers \<open>on_event\<close> and
  \<open>on_timer\<close> (\<open>src/src/event.rs\<close>). A handler mutates \<open>self\<close>, sends on the channels and nets it owns,
  sets timers, and returns \<open>anyhow::Result\<close>. Nets serialize and send (\<open>src/src/net.rs\<close>), workers run
  closures on other threads and report back by events (\<open>src/src/worker.rs\<close>), a \<open>CloseLoop\<close> drives a
  client with a \<open>Workload\<close> (\<open>src/src/workload.rs\<close>), and an \<open>App\<close> executes operations
  (\<open>src/src/app\<close>). A server wires the components of one node together and is told over HTTP what to
  start, stop and measure (\<open>src/src/main.rs\<close>, \<open>src/crates/entropy/src/main.rs\<close>); a controller under
  \<open>src/tools\<close> asks several of them.

  \<^bold>\<open>How it is modelled.\<close> A struct is a record, an enum a datatype, a handler a function from the state
  to an \<open>outcome\<close>: \<open>Ok\<close> or \<open>Err\<close>, both with the state reached, because what a handler wrote before
  it failed stays written. A \<open>Bail\<close> is an \<open>anyhow\<close> error; a \<open>Panic\<close> is a failed assertion, an
  \<open>unwrap\<close> of \<open>None\<close>, an index out of range, \<open>todo!\<close> or \<open>unreachable!\<close>. \<open>u8\<close>, \<open>u32\<close>, \<open>u64\<close> and the
  256 bits of a Kademlia distance are words, so their arithmetic wraps; \<open>usize\<close> is \<open>nat\<close>. A
  \<open>HashMap\<close> or \<open>BTreeMap\<close> is an association list with distinct keys. A channel is the list of what was
  sent, and whether the receiver is gone. Time, random numbers and the choices of other threads are
  arguments.

  \<^bold>\<open>The theories.\<close>
  \<^item> \<open>Prelude\<close>, \<open>Bytes\<close>: words, outcomes, hash maps, channels, little-endian bytes.
  \<^item> \<open>Crypto\<close> (\<open>src/src/crypto.rs\<close>): hash feeds, the hard-coded key set-up, \<open>sign\<close> and \<open>verify\<close>; what one
    replica signs verifies at all.
  \<^item> \<open>Timers\<close> (\<open>src/src/event.rs\<close>, \<open>event/linear.rs\<close>, \<open>event/ordered.rs\<close>, \<open>event/session.rs\<close>): the three
    timer services and the two \<open>Buffered\<close> wrappers. The locale \<open>timer_service\<close> states what set and
    unset promise; each service interprets it.
  \<^item> \<open>Net\<close> (\<open>message.rs\<close>, \<open>net.rs\<close>, \<open>worker.rs\<close>, \<open>app.rs\<close>): requests, message and index nets, workers.
  \<^item> \<open>Pbft_Messages\<close>, \<open>Pbft_Client\<close>, \<open>Pbft_Replica\<close> (\<open>src/src/pbft.rs\<close>): every message and handler.
    \<open>Pbft_Steps\<close> describes one event, \<open>Pbft_Invariants\<close> holds what every state of one replica satisfies,
    \<open>Pbft_Agreement\<close> the intersection of quorums and what signatures bind a replica to, \<open>Pbft_Correct\<close>
    the properties and their witnesses, among them the run in which two correct replicas commit
    different digests, \<open>Pbft_Faults\<close> the runs in which the code does not do what it means to.
  \<^item> \<open>Kad_Buckets\<close>, \<open>Kad_Closest\<close> (\<open>src/src/kademlia.rs\<close>): the routing table; \<open>find_closest\<close> is a sort of
    all known peers. \<open>Kad_Peer\<close>, \<open>Kad_Query\<close>, \<open>Kad_Refresh\<close>: the peer, its queries, bootstrap and
    refresh. \<open>Kad_Control\<close> (\<open>src/src/net/kademlia.rs\<close>): unicast and multicast over queries.
    \<open>Kad_Correct\<close>: the properties.
  \<^item> \<open>Workloads\<close> (\<open>src/src/workload.rs\<close>): the combinators and \<open>CloseLoop\<close>. The locale \<open>scripted\<close> is what a
    closed loop relies on; \<open>Iter\<close>, \<open>Check\<close>, \<open>Recorded\<close> and \<open>Total\<close> interpret it.
  \<^item> \<open>Apps\<close> (\<open>app/kvstore.rs\<close>, \<open>app/btree.rs\<close>, the operations of \<open>app/ycsb.rs\<close>): both stores refine a
    finite map; clients of \<open>InfinitePutGet\<close> see what they expect.
  \<^item> \<open>Ycsb\<close>, \<open>Ycsb_Correct\<close> (\<open>app/ycsb.rs\<close>): the YCSB workload, its settings and generators. The shared
    insert state refines the set of acknowledged numbers; keys are drawn among the loaded records.
  \<^item> \<open>Unreplicated\<close>, \<open>Unrep_Check\<close>, \<open>Unrep_Safety\<close> (\<open>src/src/unreplicated.rs\<close>): client and replica, the
    state that the model checker explores, and what all its states satisfy: one log of executed
    requests explains the store and everything the clients have recorded.
  \<^item> \<open>Search\<close>, \<open>Search_Correct\<close> (\<open>src/src/search.rs\<close>): breadth-first search with any number of workers as
    atomic moves on shared state, and the random probe; sound, and exhaustive with one worker.
  \<^item> \<open>Bulk\<close> (\<open>src/src/bulk.rs\<close>): offers and accepts, and the session with every branch of its loop; each
    offer is handed to a sending task at most once, with its bytes.
  \<^item> \<open>Entropy\<close>, \<open>Entropy_Fs\<close> (\<open>src/crates/entropy/src/lib.rs\<close>): the storage peer with all its handlers, and
    the file system session, whose tasks interleave call by call. \<open>Entropy_Correct\<close> counts the reports
    of a put, \<open>Entropy_Node\<close> says what a node stores, announces and serves, \<open>Entropy_Quorum\<close> that
    the honest peers whose verified reports were counted have stored, \<open>Entropy_Data\<close> that the data of a
    chunk is preserved from the put to the get, \<open>Entropy_Types\<close> the shape of the peer's state;
    \<open>Entropy_Faults\<close> runs the node on samples, among them the runs that fail.
  \<^item> \<open>Net_Session\<close>, \<open>Net_Session_Correct\<close> (\<open>src/src/net/session.rs\<close>): UDP, the connection table with its
    nets and timer, TCP framing and the streams of QUIC; framing round-trips, a message goes to its
    remote's live channel or makes a new one, idle connections are reclaimed.
  \<^item> \<open>Blocking\<close> (\<open>src/src/event/blocking.rs\<close>, \<open>src/src/net/blocking.rs\<close>): the event loop of a thread over
    \<open>ordered::Timer\<close>, and the UDP net. The locale \<open>blocking_client\<close> is what the loop relies on; the
    unreplicated replica interprets it and runs under the loop.
  \<^item> \<open>Boson\<close>, \<open>Boson_Correct\<close> (\<open>src/crates/boson/src/lib.rs\<close>): vector clocks whose counters are the public
    inputs of a recursive proof, with the circuit as the constraints the code adds to the builder;
    merge and increment compute what they should, an unknown secret cannot be bypassed within the
    circuit, and \<open>verify\<close> does not tell a proof made over another circuit. Targets are requested from
    plonky2's builder, and set a circuit's inputs if they are those it was built with. \<open>Boson_Ser\<close>
    (\<open>src/crates/boson/src/ser.rs\<close>): clocks and circuits as bytes, which of them are read back, and
    with which targets.
  \<^item> \<open>Sqlite\<close> (\<open>app/sqlite.rs\<close>): the SQLite backend refines a map whose rows are shifted by one column.
  \<^item> \<open>Check_Appends\<close>, \<open>Check_Collatz\<close> (\<open>src/examples\<close>): two programs of the model checker, on top of
    \<open>Unrep_Safety\<close> and \<open>Search_Correct\<close>: the invariant of the first holds in every state, what the
    second reports is a chain of exact steps.
  \<^item> \<open>Entropy_Server\<close>, \<open>Entropy_Server_Correct\<close>, \<open>Entropy_Start\<close> (\<open>src/crates/entropy/src/main.rs\<close>): the
    server around \<open>Entropy\<close>'s peers, with the pending puts and gets. The locale \<open>answering\<close> is what
    makes a table of pending requests safe to answer; both tables interpret it. The upcalls
    of all peers meet the requests that wait for them, unless a request was refused.
    \<open>Entropy_Cluster\<close>: the controller starts all servers, which run every peer once.
  \<^item> \<open>Entropy_Bench\<close> (the same file and \<open>src/tools/entropy-control/src/main.rs\<close>): a value through an erasure
    code and many servers and back, polled over a lossy connection; a mismatch is a server's fault.
  \<^item> \<open>Replication_Server\<close>, \<open>Replication_Correct\<close> (\<open>src/src/main.rs\<close>): the server of replicas and clients,
    with its mutexes as values that a panic poisons; which requests poison it, and what a replica has
    loaded when it starts. \<open>Replication_Control\<close> (\<open>src/tools/replication-control/src/main.rs\<close>): the
    controller and its watchdogs against those servers. \<open>Replication_Clients\<close>: the closed loops of
    the clients, and that the throughput counts what they had answered.

  \<^bold>\<open>Hypotheses about code outside the repository.\<close> \<open>lib_correct\<close>: the signature libraries verify what
  they signed. \<open>codec_ok\<close>: \<open>serde_json\<close> and \<open>bincode\<close> decode what they encoded and encode all results.
  Unforgeability is about bytes, because one key signs several kinds of messages. \<open>commits_unforged\<close>
  (\<open>Pbft_Agreement\<close>): the bytes of a commit in the name of a correct replica were signed by it, as a
  commit or as a prepare, which writes the same ones. \<open>signed_bytes\<close> (\<open>Entropy_Quorum\<close>): the bytes of a
  verified \<open>FragmentAvailable\<close> of an honest peer are those of one it sent, or of a kademlia message,
  which cannot have them but for one degenerate peer id. \<open>codec_sound\<close> is what the peer relies on of \<open>wirehair\<close>: fragments of one chunk
  decode to it. \<open>complete\<close> and \<open>obtainable\<close> are completeness and soundness of plonky2's prover and
  verifier, whose functions are parameters. \<open>sql_documented\<close>: each statement that the source builds does to
  the rows of the table what SQL says. \<open>generators_documented\<close>, \<open>walk_documented\<close>, \<open>proof_documented\<close>: plonky2 reads back what it
  wrote, as far as the serializer it is given does. \<open>dry_faithful\<close>: states with the same dry state behave alike, which the source
  asks of every implementor of \<open>State\<close>. Each property with such a hypothesis has a witness on a
  concrete instance.

  \<^bold>\<open>Bounds and fuel.\<close> \<open>search_trace\<close> calls itself once per link; one more than the number of discovered
  states is enough, because every state links to one that was discovered before (\<open>trace_ok\<close>). The loop
  of \<open>flush_rerun\<close> and the loop that closes batches are functions with a termination proof. The two
  rejection loops of YCSB may not end and are partial functions: \<open>ycsb_key_choice\<close> says when they
  return and when they do not. \<open>blocking_run\<close> is any number of iterations of a loop that never
  returns. Reading a stream recurses on the bytes left. Sequence
  numbers of clients are \<open>u32\<close> and wrap: \<open>check_linear\<close> is about runs of fewer than \<open>2 ^ 32\<close> events.

  \<^bold>\<open>What the lemmas show that the code does not mean.\<close> The properties about faults state behaviours that
  contradict a comment, an assertion or the purpose of the code, each on a concrete run or in general.
  Most of them stand as lemmas beside the properties, in \<open>Pbft_Faults\<close>, \<open>Kad_Correct\<close>, \<open>Unrep_Safety\<close>,
  \<open>Search_Correct\<close>, \<open>Timers\<close>, \<open>Bulk\<close>, \<open>Entropy_Faults\<close>, \<open>Ycsb_Correct\<close>, \<open>Entropy_Bench\<close> and
  \<open>Replication_Correct\<close>; among them: prepares and
  commits hash alike, so that one faulty primary can split correct replicas, a refresh of an empty routing table panics, the model checker sees no message
  before its first timer, two search workers can leave each other at a barrier, a fragment can be
  pulled once only, a put can be acknowledged by forged messages, a clock of a foreign circuit
  verifies, a refused put later ends the server, and a status poll can lose a benchmark's result.

  \<^bold>\<open>Not modelled, and why.\<close>
  \<^item> In \<open>src/src/net/session.rs\<close>, certificates and the configuration of QUIC; what plonky2's macro makes
    of the list of gates in \<open>src/crates/boson/src/ser.rs\<close>.
  \<^item> Threads, the duration limit and the status printer of the search.
  \<^item> HTTP, sockets and the spawning of threads and tasks in the two servers and the two controllers; the
    latencies that they print.
  \<^item> The other searches of \<open>src/examples/check-unreplicated.rs\<close>, which differ in their settings;
    \<open>src/examples/bench-unreplicated.rs\<close> and the other examples, and the rest of \<open>src/tools\<close>: the
    wiring of sockets and threads for measurements, and deployment by ssh and terraform.
\<close>

end
